(* ===== verification/JS_Prelude.thy ===== *)
theory JS_Prelude
  imports Complex_Main "HOL-Library.AList" "HOL-Library.Monad_Syntax" "HOL-Library.Multiset"
    "HOL-Library.Sublist" "HOL-Library.Char_ord" "HOL-Library.List_Lexorder"
begin

text \<open>
  The part of JavaScript the client's modules use, as HOL data and functions: values as
  \<open>JSON.parse\<close> makes them, the coercions \<open>String(..)\<close> and \<open>Number(..)\<close>,
  truthiness, \<open>??\<close> and \<open>?.\<close>, plain objects used as dictionaries (with the names
  every object inherits from \<open>Object.prototype\<close>), \<open>Map\<close> and \<open>Set\<close> as insertion
  ordered lists, stable \<open>sort\<close>, \<open>slice\<close>, \<open>trim\<close> and \<open>toLowerCase\<close>, and
  the lemmas about them that the component theories share.

  Idealisations, all about the language and none about the program:
  \<^item> a finite number is an exact rational (every double is one; rounding of sums is not
    modelled, and the zeros \<open>0\<close> and \<open>-0\<close> are one number). Printing gives
    positional digits for every magnitude, where JavaScript switches to exponent form from
    \<open>10^21\<close> on;
  \<^item> a string is a list of \<open>char\<close>, each standing for one UTF-16 unit below 256;
  \<^item> objects and arrays are compared by structure, where JavaScript compares references;
    a payload reaches such a comparison only by carrying an object where a name belongs;
  \<^item> a computation that may throw a \<open>TypeError\<close> has an \<open>option\<close> result, and
    \<open>None\<close> is the throw.
\<close>

section \<open>Collections of rules\<close>

named_theorems js_simps \<open>definitions of the language layer, for evaluation\<close>
named_theorems board_simps \<open>the operations of a capped board\<close>

section \<open>Numbers\<close>

datatype jsnum = NaN | NegInf | Fin rat | PosInf

text \<open>
  The order used by \<open>sort((a, b) => a.ts - b.ts)\<close>: a difference that is \<open>NaN\<close>
  counts as equal, and \<open>NaN\<close> itself never reaches a comparator of the client. It is put
  below every number to make the order total.
\<close>

instantiation jsnum :: linorder
begin

definition less_eq_jsnum :: "jsnum \<Rightarrow> jsnum \<Rightarrow> bool" where
  "less_eq_jsnum a b =
     (case a of NaN \<Rightarrow> True
      | NegInf \<Rightarrow> b \<noteq> NaN
      | Fin x \<Rightarrow> (case b of Fin y \<Rightarrow> x \<le> y | PosInf \<Rightarrow> True | _ \<Rightarrow> False)
      | PosInf \<Rightarrow> b = PosInf)"

definition less_jsnum :: "jsnum \<Rightarrow> jsnum \<Rightarrow> bool" where
  "less_jsnum a b \<longleftrightarrow> a \<le> b \<and> \<not> b \<le> (a :: jsnum)"

instance
  by standard (auto simp: less_eq_jsnum_def less_jsnum_def split: jsnum.splits)

end

lemma Fin_le_Fin [simp]: "Fin x \<le> Fin y \<longleftrightarrow> x \<le> y"
  by (simp add: less_eq_jsnum_def)

lemma Fin_less_Fin [simp]: "Fin x < Fin y \<longleftrightarrow> x < y"
  by (auto simp: less_jsnum_def)

lemma jsnum_le_PosInf [simp]: "a \<le> PosInf"
  by (simp add: less_eq_jsnum_def split: jsnum.splits)

lemma PosInf_le_Fin [simp]: "\<not> PosInf \<le> Fin x"
  by (simp add: less_eq_jsnum_def)

lemma Fin_le_NegInf [simp]: "\<not> Fin x \<le> NegInf"
  by (simp add: less_eq_jsnum_def)

lemma NegInf_le_Fin [simp]: "NegInf \<le> Fin x"
  by (simp add: less_eq_jsnum_def)

definition is_finite :: "jsnum \<Rightarrow> bool" where
  \<comment> \<open>\<open>Number.isFinite\<close>\<close>
  "is_finite n = (case n of Fin _ \<Rightarrow> True | _ \<Rightarrow> False)"

lemma is_finite_simps [simp]:
  "is_finite (Fin x)" "\<not> is_finite NaN" "\<not> is_finite NegInf" "\<not> is_finite PosInf"
  by (simp_all add: is_finite_def)

lemma is_finiteE: "is_finite n \<Longrightarrow> (\<And>x. n = Fin x \<Longrightarrow> P) \<Longrightarrow> P"
  by (cases n) auto

definition js_lt :: "jsnum \<Rightarrow> jsnum \<Rightarrow> bool" where
  \<comment> \<open>the operator \<open><\<close>: false when a side is \<open>NaN\<close>\<close>
  "js_lt a b \<longleftrightarrow> a \<noteq> NaN \<and> b \<noteq> NaN \<and> a < b"

definition num_truthy :: "jsnum \<Rightarrow> bool" where
  "num_truthy n \<longleftrightarrow> n \<noteq> NaN \<and> n \<noteq> Fin 0"

definition num_or0 :: "jsnum \<Rightarrow> jsnum" where
  \<comment> \<open>\<open>Number(x) || 0\<close>\<close>
  "num_or0 n = (if num_truthy n then n else Fin 0)"

text \<open>A value clamped into the finite numbers: the finite value, or a fallback.\<close>

fun fin_or :: "jsnum \<Rightarrow> rat \<Rightarrow> rat" where
  "fin_or (Fin x) d = x"
| "fin_or _ d = d"

section \<open>Digits and printing\<close>

definition digit_chars :: string where
  "digit_chars = ''0123456789abcdefghijklmnopqrstuvwxyz''"

definition digit_char :: "nat \<Rightarrow> char" where
  "digit_char d = digit_chars ! d"

fun index_from :: "nat \<Rightarrow> 'a list \<Rightarrow> 'a \<Rightarrow> nat option" where
  "index_from i [] x = None"
| "index_from i (y # ys) x = (if x = y then Some i else index_from (Suc i) ys x)"

definition digit_val :: "char \<Rightarrow> nat" where
  "digit_val c = (case index_from 0 digit_chars c of Some d \<Rightarrow> d | None \<Rightarrow> 0)"

definition is_digit :: "nat \<Rightarrow> char \<Rightarrow> bool" where
  \<comment> \<open>\<open>c\<close> is a digit of base \<open>b\<close>\<close>
  "is_digit b c = (case index_from 0 digit_chars c of Some d \<Rightarrow> d < b | None \<Rightarrow> False)"

fun radix_str :: "nat \<Rightarrow> nat \<Rightarrow> string" where
  "radix_str b n =
     (if b < 2 \<or> n < b then [digit_char n]
      else radix_str b (n div b) @ [digit_char (n mod b)])"

declare radix_str.simps [simp del]

definition radix_val :: "nat \<Rightarrow> string \<Rightarrow> nat" where
  "radix_val b s = foldl (\<lambda>a c. a * b + digit_val c) 0 s"

abbreviation nat_str :: "nat \<Rightarrow> string" where
  "nat_str \<equiv> radix_str 10"

lemma index_from_nth:
  "distinct xs \<Longrightarrow> k < length xs \<Longrightarrow> index_from i xs (xs ! k) = Some (i + k)"
  by (induction xs arbitrary: i k) (auto simp: nth_Cons split: nat.splits)

lemma distinct_digit_chars: "distinct digit_chars"
  by (simp add: digit_chars_def)

lemma length_digit_chars: "length digit_chars = 36"
  by (simp add: digit_chars_def)

lemma digit_val_char [simp]: "d < 36 \<Longrightarrow> digit_val (digit_char d) = d"
  by (simp add: digit_val_def digit_char_def index_from_nth distinct_digit_chars length_digit_chars)

lemma is_digit_char [simp]: "d < 36 \<Longrightarrow> is_digit b (digit_char d) \<longleftrightarrow> d < b"
  by (simp add: is_digit_def digit_char_def index_from_nth distinct_digit_chars length_digit_chars)

lemma radix_str_nonempty [simp]: "radix_str b n \<noteq> []"
  by (subst radix_str.simps) simp

lemma radix_val_snoc: "radix_val b (s @ [c]) = radix_val b s * b + digit_val c"
  by (simp add: radix_val_def)

lemma radix_val_str:
  "2 \<le> b \<Longrightarrow> b \<le> 36 \<Longrightarrow> radix_val b (radix_str b n) = n"
proof (induction b n rule: radix_str.induct)
  case (1 b n)
  show ?case
  proof (cases "n < b")
    case True
    with "1.prems" show ?thesis
      by (subst radix_str.simps) (simp add: radix_val_def)
  next
    case False
    with 1 have IH: "radix_val b (radix_str b (n div b)) = n div b" by simp
    have "radix_str b n = radix_str b (n div b) @ [digit_char (n mod b)]"
      using False "1.prems" by (subst radix_str.simps) simp
    with IH "1.prems" show ?thesis
      by (simp add: radix_val_snoc order_less_le_trans [OF mod_less_divisor])
  qed
qed

lemma radix_str_inj:
  "2 \<le> b \<Longrightarrow> b \<le> 36 \<Longrightarrow> radix_str b m = radix_str b n \<longleftrightarrow> m = n"
  by (metis radix_val_str)

lemma radix_str_digits:
  "2 \<le> b \<Longrightarrow> b \<le> 36 \<Longrightarrow> list_all (is_digit b) (radix_str b n)"
proof (induction b n rule: radix_str.induct)
  case (1 b n)
  then show ?case
    by (subst radix_str.simps) (auto simp: order_less_le_trans [OF mod_less_divisor])
qed


lemma colon_not_digit: "b \<le> 36 \<Longrightarrow> \<not> is_digit b CHR '':''"
  and dot_not_digit: "b \<le> 36 \<Longrightarrow> \<not> is_digit b CHR ''.''"
  and slash_not_digit: "b \<le> 36 \<Longrightarrow> \<not> is_digit b CHR ''/''"
  and minus_not_digit: "b \<le> 36 \<Longrightarrow> \<not> is_digit b CHR ''-''"
  and N_not_digit: "b \<le> 36 \<Longrightarrow> \<not> is_digit b CHR ''N''"
  and I_not_digit: "b \<le> 36 \<Longrightarrow> \<not> is_digit b CHR ''I''"
  by (simp_all add: is_digit_def digit_chars_def)

definition dec_scale :: "nat \<Rightarrow> nat option" where
  \<comment> \<open>the number of decimals of a fraction with denominator \<open>d\<close>\<close>
  "dec_scale d = find (\<lambda>k. d dvd 10 ^ k) [0..<Suc d]"

definition frac_str :: "nat \<Rightarrow> nat \<Rightarrow> string" where
  \<comment> \<open>\<open>m / 10^k\<close> in positional digits\<close>
  "frac_str m k =
     (let ds = nat_str m; ps = replicate (Suc k - length ds) (CHR ''0'') @ ds
      in take (length ps - k) ps @ ''.'' @ drop (length ps - k) ps)"

definition abs_str :: "nat \<Rightarrow> nat \<Rightarrow> string" where
  \<comment> \<open>\<open>n / d\<close> in lowest terms; the last case is no double and is never printed\<close>
  "abs_str n d =
     (if d = 1 then nat_str n
      else case dec_scale d of
        Some k \<Rightarrow> frac_str (n * 10 ^ k div d) k
      | None \<Rightarrow> nat_str n @ ''/'' @ nat_str d)"

definition rat_str :: "rat \<Rightarrow> string" where
  "rat_str q =
     (let (n, d) = quotient_of q
      in (if n < 0 then ''-'' else []) @ abs_str (nat \<bar>n\<bar>) (nat d))"

fun num_str :: "jsnum \<Rightarrow> string" where
  \<comment> \<open>\<open>String(n)\<close> for a number\<close>
  "num_str NaN = ''NaN''"
| "num_str NegInf = ''-Infinity''"
| "num_str PosInf = ''Infinity''"
| "num_str (Fin q) = rat_str q"

text \<open>Printing is injective and never produces a colon: identities built by joining a name
  and a number with \<open>:\<close> can be taken apart again.\<close>

lemma radix_val_zeros: "radix_val 10 (replicate k (CHR ''0'') @ s) = radix_val 10 s"
  by (induction k) (simp_all add: radix_val_def digit_val_def digit_chars_def)

lemma nat_str_digits: "c \<in> set (nat_str n) \<Longrightarrow> is_digit 10 c"
  using radix_str_digits [of 10 n] by (simp add: list_all_iff)

lemma zero_digit: "is_digit 10 (CHR ''0'')"
  by (simp add: is_digit_def digit_chars_def)

lemma frac_str_parts:
  "\<exists>a b. frac_str m k = a @ ''.'' @ b \<and> length b = k \<and> a \<noteq> [] \<and>
     (\<forall>c \<in> set (a @ b). is_digit 10 c) \<and> radix_val 10 (a @ b) = m"
proof -
  define ps where "ps = replicate (Suc k - length (nat_str m)) (CHR ''0'') @ nat_str m"
  have len: "Suc k \<le> length ps" by (simp add: ps_def)
  have digits: "\<forall>c \<in> set ps. is_digit 10 c"
    using radix_str_digits [of 10 m] zero_digit by (auto simp: ps_def list_all_iff)
  have val: "radix_val 10 ps = m"
    by (simp add: ps_def radix_val_zeros radix_val_str)
  have "frac_str m k = take (length ps - k) ps @ ''.'' @ drop (length ps - k) ps"
    by (simp add: frac_str_def ps_def Let_def)
  moreover have "length (drop (length ps - k) ps) = k" using len by simp
  moreover have "take (length ps - k) ps \<noteq> []" using len by (cases ps) auto
  ultimately show ?thesis using digits val by (metis append_take_drop_id)
qed

lemma split_at_unique:
  assumes "a @ c # b = a' @ c # b'" and "c \<notin> set a" and "c \<notin> set a'"
  shows "a = a' \<and> b = b'"
  using assms
proof (induction a arbitrary: a')
  case Nil
  then show ?case by (cases a') auto
next
  case (Cons x a)
  then show ?case by (cases a') auto
qed

lemma frac_str_inj: "frac_str m k = frac_str m' k' \<longleftrightarrow> m = m' \<and> k = k'"
proof
  assume eq: "frac_str m k = frac_str m' k'"
  obtain a b where 1: "frac_str m k = a @ ''.'' @ b" "length b = k"
    "\<forall>c \<in> set (a @ b). is_digit 10 c" "radix_val 10 (a @ b) = m"
    using frac_str_parts by blast
  obtain a' b' where 2: "frac_str m' k' = a' @ ''.'' @ b'" "length b' = k'"
    "\<forall>c \<in> set (a' @ b'). is_digit 10 c" "radix_val 10 (a' @ b') = m'"
    using frac_str_parts by blast
  have "CHR ''.'' \<notin> set a" "CHR ''.'' \<notin> set a'"
    using 1(3) 2(3) dot_not_digit [of 10] by auto
  then have "a = a' \<and> b = b'"
    using split_at_unique [of a "CHR ''.''" b a' b'] eq 1(1) 2(1) by simp
  then show "m = m' \<and> k = k'" using 1 2 by auto
qed simp

lemma dec_scale_dvd: "dec_scale d = Some k \<Longrightarrow> d dvd 10 ^ k"
  by (auto simp: dec_scale_def find_Some_iff)

lemma abs_str_chars: "c \<in> set (abs_str n d) \<Longrightarrow> is_digit 10 c \<or> c = CHR ''.'' \<or> c = CHR ''/''"
proof -
  assume "c \<in> set (abs_str n d)"
  then show ?thesis
    using frac_str_parts [of "n * 10 ^ the (dec_scale d) div d" "the (dec_scale d)"]
    by (auto simp: abs_str_def split: if_splits option.splits dest: nat_str_digits)
qed


lemma abs_str_shape:
  "(d = 1 \<and> abs_str n d = nat_str n) \<or>
   (d \<noteq> 1 \<and> (\<exists>k. dec_scale d = Some k \<and> abs_str n d = frac_str (n * 10 ^ k div d) k)) \<or>
   (d \<noteq> 1 \<and> dec_scale d = None \<and> abs_str n d = nat_str n @ ''/'' @ nat_str d)"
  by (cases "dec_scale d") (auto simp: abs_str_def)

lemma nat_str_no_dot: "CHR ''.'' \<notin> set (nat_str n)"
  and nat_str_no_slash: "CHR ''/'' \<notin> set (nat_str n)"
  and nat_str_no_minus: "CHR ''-'' \<notin> set (nat_str n)"
  using nat_str_digits dot_not_digit [of 10] slash_not_digit [of 10] minus_not_digit [of 10]
  by auto

lemma frac_str_dot: "CHR ''.'' \<in> set (frac_str m k)"
  and frac_str_no_slash: "CHR ''/'' \<notin> set (frac_str m k)"
  using frac_str_parts [of m k] slash_not_digit [of 10] by auto

lemma frac_eq_cross:
  assumes "(n * 10 ^ k) div d = (n' * 10 ^ k) div d'" and "d dvd 10 ^ k" and "d' dvd 10 ^ k"
  shows "n * d' = n' * (d :: nat)"
proof -
  obtain e where e: "10 ^ k = d * e" using assms(2) by (auto elim: dvdE)
  obtain e' where e': "10 ^ k = d' * e'" using assms(3) by (auto elim: dvdE)
  have pos: "0 < d" "0 < d'" "0 < e" "0 < e'"
    using e e' by (auto intro!: gr0I)
  have "n * e = n' * e'"
    using assms(1) pos by (metis e e' mult.left_commute nonzero_mult_div_cancel_left not_gr_zero)
  then have "n * e * (d * d') = n' * e' * (d * d')" by simp
  then have "n * d' * (d * e) = n' * d * (d' * e')" by (simp add: ac_simps)
  then show ?thesis using e e' by (metis mult_cancel2 power_not_zero zero_neq_numeral)
qed

lemma coprime_cross_eq:
  assumes "coprime n d" and "coprime n' d'" and "n * d' = n' * (d :: nat)"
  shows "n = n' \<and> d = d'"
proof -
  have "d dvd n * d'" by (simp add: assms(3))
  moreover have "d' dvd n' * d" by (simp flip: assms(3))
  ultimately have "d dvd d'" "d' dvd d"
    using assms(1,2) by (auto simp: coprime_commute coprime_dvd_mult_right_iff)
  then have "d = d'" by (simp add: dvd_antisym)
  then show ?thesis using assms by (cases "d = 0") auto
qed

lemma abs_str_inj:
  assumes "abs_str n d = abs_str n' d'" and "coprime n d" and "coprime n' d'"
  shows "n = n' \<and> d = d'"
proof -
  consider (int) "d = 1" "abs_str n d = nat_str n"
    | (dec) k where "dec_scale d = Some k" "abs_str n d = frac_str (n * 10 ^ k div d) k"
    | (other) "abs_str n d = nat_str n @ ''/'' @ nat_str d"
    using abs_str_shape by blast
  note shapes = this
  consider (int') "d' = 1" "abs_str n' d' = nat_str n'"
    | (dec') k where "dec_scale d' = Some k" "abs_str n' d' = frac_str (n' * 10 ^ k div d') k"
    | (other') "abs_str n' d' = nat_str n' @ ''/'' @ nat_str d'"
    using abs_str_shape by blast
  note shapes' = this
  have dot: "CHR ''.'' \<in> set (abs_str n d) \<longleftrightarrow> CHR ''.'' \<in> set (abs_str n' d')"
    and slash: "CHR ''/'' \<in> set (abs_str n d) \<longleftrightarrow> CHR ''/'' \<in> set (abs_str n' d')"
    using assms(1) by simp_all
  show ?thesis
  proof (cases rule: shapes)
    case int
    then have "CHR ''.'' \<notin> set (abs_str n' d')" "CHR ''/'' \<notin> set (abs_str n' d')"
      using dot slash nat_str_no_dot nat_str_no_slash by auto
    then show ?thesis using int assms(1)
      by (cases rule: shapes') (auto simp: frac_str_dot radix_str_inj)
  next
    case (dec k)
    then have "CHR ''.'' \<in> set (abs_str n' d')" "CHR ''/'' \<notin> set (abs_str n' d')"
      using dot slash frac_str_dot frac_str_no_slash by auto
    then obtain k' where k': "dec_scale d' = Some k'"
      "abs_str n' d' = frac_str (n' * 10 ^ k' div d') k'"
      by (cases rule: shapes') (auto simp: nat_str_no_dot)
    with dec assms(1) have "k = k'" "n * 10 ^ k div d = n' * 10 ^ k div d'"
      by (auto simp: frac_str_inj)
    then have "n * d' = n' * d"
      using dec(1) k'(1) by (intro frac_eq_cross) (auto dest: dec_scale_dvd)
    then show ?thesis using assms(2,3) by (rule coprime_cross_eq [rotated 2])
  next
    case other
    then have "CHR ''/'' \<in> set (abs_str n' d')" using slash by auto
    then have "abs_str n' d' = nat_str n' @ ''/'' @ nat_str d'"
      by (cases rule: shapes') (auto simp: nat_str_no_slash frac_str_no_slash)
    with other assms(1)
    have "nat_str n @ CHR ''/'' # nat_str d = nat_str n' @ CHR ''/'' # nat_str d'" by simp
    from split_at_unique [OF this nat_str_no_slash nat_str_no_slash]
    show ?thesis by (simp add: radix_str_inj)
  qed
qed

lemma abs_str_no_minus: "CHR ''-'' \<notin> set (abs_str n d)"
  using abs_str_chars minus_not_digit [of 10] by fastforce

lemma rat_str_inj: "rat_str p = rat_str q \<longleftrightarrow> p = q"
proof
  assume eq: "rat_str p = rat_str q"
  obtain n d where p: "quotient_of p = (n, d)" by fastforce
  obtain n' d' where q: "quotient_of q = (n', d')" by fastforce
  have pos: "0 < d" "0 < d'" using p q quotient_of_denom_pos by blast+
  have cop: "coprime (nat \<bar>n\<bar>) (nat d)" "coprime (nat \<bar>n'\<bar>) (nat d')"
    using quotient_of_coprime [OF p] quotient_of_coprime [OF q] pos
    by (simp_all flip: coprime_int_iff)
  have eq': "(if n < 0 then ''-'' else []) @ abs_str (nat \<bar>n\<bar>) (nat d) =
      (if n' < 0 then ''-'' else []) @ abs_str (nat \<bar>n'\<bar>) (nat d')"
    using eq by (simp add: rat_str_def p q)
  then have sign: "n < 0 \<longleftrightarrow> n' < 0"
    using abs_str_no_minus by (auto split: if_splits) (metis list.set_intros(1))+
  with eq' have "abs_str (nat \<bar>n\<bar>) (nat d) = abs_str (nat \<bar>n'\<bar>) (nat d')"
    by (auto split: if_splits)
  from abs_str_inj [OF this cop] have "nat \<bar>n\<bar> = nat \<bar>n'\<bar>" "nat d = nat d'" by auto
  with sign pos have "n = n' \<and> d = d'" by (auto simp: nat_eq_iff split: if_splits)
  then show "p = q" using p q by (metis quotient_of_div)
qed simp


lemma abs_str_head: "\<exists>c cs. abs_str n d = c # cs \<and> is_digit 10 c"
proof -
  have "\<exists>c cs. nat_str m = c # cs \<and> is_digit 10 c" for m
    using radix_str_digits [of 10 m] by (cases "nat_str m") auto
  moreover have "\<exists>c cs. frac_str m k = c # cs \<and> is_digit 10 c" for m k
    using frac_str_parts [of m k] by (auto simp: neq_Nil_conv)
  ultimately show ?thesis
    using abs_str_shape [of d n] by (metis append_Cons)
qed

lemma rat_str_head: "\<exists>c cs. rat_str q = c # cs \<and> (is_digit 10 c \<or> (c = CHR ''-'' \<and> (\<exists>c' cs'. cs = c' # cs' \<and> is_digit 10 c')))"
  using abs_str_head by (auto simp: rat_str_def split: prod.splits) (metis)+

lemma num_str_inj: "num_str a = num_str b \<longleftrightarrow> a = b"
proof -
  have "rat_str q \<noteq> ''NaN''" "rat_str q \<noteq> ''-Infinity''" "rat_str q \<noteq> ''Infinity''" for q
    using rat_str_head [of q] N_not_digit [of 10] I_not_digit [of 10] minus_not_digit [of 10]
    by auto
  note ne = this this [symmetric]
  show ?thesis
    by (cases a; cases b) (simp_all add: rat_str_inj ne)
qed

lemma num_str_no_colon: "CHR '':'' \<notin> set (num_str a)"
proof -
  have "CHR '':'' \<notin> set (rat_str q)" for q
    using abs_str_chars colon_not_digit [of 10]
    by (fastforce simp: rat_str_def split: prod.splits if_splits)
  then show ?thesis by (cases a) simp_all
qed

section \<open>Strings\<close>

definition is_space :: "char \<Rightarrow> bool" where
  \<comment> \<open>tab, line feed, vertical tab, form feed, carriage return, space, no-break space\<close>
  "is_space c \<longleftrightarrow> c \<in> {CHR 0x09, CHR 0x0A, CHR 0x0B, CHR 0x0C, CHR 0x0D, CHR '' '', CHR 0xA0}"

definition trim :: "string \<Rightarrow> string" where
  "trim s = rev (dropWhile is_space (rev (dropWhile is_space s)))"

definition lower_char :: "char \<Rightarrow> char" where
  \<comment> \<open>\<open>A\<close> to \<open>Z\<close>, and the Latin-1 capitals 192 to 222 without the multiplication sign\<close>
  "lower_char c =
     (let n = of_char c :: nat
      in if 65 \<le> n \<and> n \<le> 90 \<or> 192 \<le> n \<and> n \<le> 222 \<and> n \<noteq> 215 then char_of (n + 32) else c)"

definition toLowerCase :: "string \<Rightarrow> string" where
  "toLowerCase s = map lower_char s"

fun join :: "string \<Rightarrow> string list \<Rightarrow> string" where
  "join sep [] = []"
| "join sep [x] = x"
| "join sep (x # y # ys) = x @ sep @ join sep (y # ys)"

lemma length_trim: "length (trim s) \<le> length s"
  unfolding trim_def by (metis length_dropWhile_le length_rev order_trans)

lemma length_toLowerCase [simp]: "length (toLowerCase s) = length s"
  by (simp add: toLowerCase_def)

lemma length_trim_take: "length (trim (take n s)) \<le> n"
  using length_trim [of "take n s"] by simp

lemma trim_Nil [simp]: "trim [] = []"
  by (simp add: trim_def)

lemma dropWhile_snoc_last: "\<not> P x \<Longrightarrow> \<exists>ys. dropWhile P (zs @ [x]) = ys @ [x]"
  by (induction zs) auto

lemma dropWhile_idem_rev:
  "dropWhile P (rev (dropWhile P (rev (dropWhile P s)))) = rev (dropWhile P (rev (dropWhile P s)))"
proof (cases "dropWhile P s")
  case Nil
  show ?thesis by (simp only: Nil) simp
next
  case (Cons x xs)
  then have "\<not> P x" by (metis hd_dropWhile list.distinct(1) list.sel(1))
  then obtain ys where "dropWhile P (rev (x # xs)) = ys @ [x]"
    using dropWhile_snoc_last [of P x "rev xs"] by auto
  then show ?thesis using Cons \<open>\<not> P x\<close> by simp
qed

lemma trim_idem [simp]: "trim (trim s) = trim s"
proof -
  have "dropWhile is_space (trim s) = trim s"
    by (simp add: trim_def dropWhile_idem_rev)
  moreover have "dropWhile is_space (rev (trim s)) = rev (trim s)"
    by (simp add: trim_def dropWhile_idem)
  ultimately show ?thesis by (simp add: trim_def [of "trim s"])
qed

section \<open>Numbers read from strings\<close>

fun exp_part :: "string \<Rightarrow> int option" where
  \<comment> \<open>the exponent after the digits: absent, or \<open>e\<close> with a sign and at least one digit\<close>
  "exp_part [] = Some 0"
| "exp_part (c # s) =
     (if c \<noteq> CHR ''e'' \<and> c \<noteq> CHR ''E'' then None
      else let neg = (s \<noteq> [] \<and> hd s = CHR ''-'');
               ds = (if s \<noteq> [] \<and> (hd s = CHR ''-'' \<or> hd s = CHR ''+'') then tl s else s)
           in if ds \<noteq> [] \<and> list_all (is_digit 10) ds
              then Some (if neg then - int (radix_val 10 ds) else int (radix_val 10 ds))
              else None)"

definition unsigned_num :: "string \<Rightarrow> jsnum" where
  "unsigned_num s =
     (let ip = takeWhile (is_digit 10) s; r = dropWhile (is_digit 10) s;
          dot = (r \<noteq> [] \<and> hd r = CHR ''.'');
          fp = (if dot then takeWhile (is_digit 10) (tl r) else []);
          r' = (if dot then dropWhile (is_digit 10) (tl r) else r)
      in if s = ''Infinity'' then PosInf
         else if ip = [] \<and> fp = [] then NaN
         else case exp_part r' of
           None \<Rightarrow> NaN
         | Some e \<Rightarrow> Fin (rat_of_nat (radix_val 10 (ip @ fp)) / 10 ^ length fp *
                          (if 0 \<le> e then 10 ^ nat e else 1 / 10 ^ nat (- e))))"

fun num_neg :: "jsnum \<Rightarrow> jsnum" where
  "num_neg NaN = NaN"
| "num_neg NegInf = PosInf"
| "num_neg PosInf = NegInf"
| "num_neg (Fin x) = Fin (- x)"

definition prefixed_num :: "nat \<Rightarrow> string \<Rightarrow> jsnum" where
  "prefixed_num b s =
     (let ds = map lower_char s
      in if ds \<noteq> [] \<and> list_all (is_digit b) ds then Fin (rat_of_nat (radix_val b ds)) else NaN)"

definition parse_num :: "string \<Rightarrow> jsnum" where
  \<comment> \<open>\<open>Number(s)\<close> for a string\<close>
  "parse_num s =
     (let t = trim s; p = toLowerCase (take 2 t)
      in if t = [] then Fin 0
         else if p = ''0x'' then prefixed_num 16 (drop 2 t)
         else if p = ''0o'' then prefixed_num 8 (drop 2 t)
         else if p = ''0b'' then prefixed_num 2 (drop 2 t)
         else if hd t = CHR ''-'' then num_neg (unsigned_num (tl t))
         else if hd t = CHR ''+'' then unsigned_num (tl t)
         else unsigned_num t)"


section \<open>Computations that may throw\<close>

type_synonym 'a throws = "'a option"

fun mapM :: "('a \<Rightarrow> 'b throws) \<Rightarrow> 'a list \<Rightarrow> 'b list throws" where
  "mapM f [] = Some []"
| "mapM f (x # xs) = do { y \<leftarrow> f x; ys \<leftarrow> mapM f xs; Some (y # ys) }"

fun foldM :: "('a \<Rightarrow> 's \<Rightarrow> 's throws) \<Rightarrow> 'a list \<Rightarrow> 's \<Rightarrow> 's throws" where
  "foldM f [] s = Some s"
| "foldM f (x # xs) s = do { s' \<leftarrow> f x s; foldM f xs s' }"

lemmas run_simps = bind_eq_Some_conv Let_def

lemma mapM_cong [fundef_cong]:
  "xs = ys \<Longrightarrow> (\<And>x. x \<in> set ys \<Longrightarrow> f x = g x) \<Longrightarrow> mapM f xs = mapM g ys"
  by (induction ys arbitrary: xs) auto

lemma mapM_Some_iff: "mapM f xs = Some ys \<longleftrightarrow> list_all2 (\<lambda>x y. f x = Some y) xs ys"
proof (induction xs arbitrary: ys)
  case Nil
  then show ?case by (cases ys) auto
next
  case (Cons x xs)
  then show ?case by (cases ys) (auto simp: bind_eq_Some_conv)
qed

lemma mapM_Some_set:
  "mapM f xs = Some ys \<Longrightarrow> y \<in> set ys \<Longrightarrow> \<exists>x \<in> set xs. f x = Some y"
  by (force simp: mapM_Some_iff list_all2_conv_all_nth in_set_conv_nth)

lemma mapM_total: "\<forall>x \<in> set xs. f x \<noteq> None \<Longrightarrow> \<exists>ys. mapM f xs = Some ys"
  by (induction xs) auto

lemma length_mapM: "mapM f xs = Some ys \<Longrightarrow> length ys = length xs"
  by (auto simp: mapM_Some_iff dest: list_all2_lengthD)

lemma foldM_invariant:
  assumes "foldM f xs s = Some t" and "P s"
    and "\<And>x s s'. x \<in> set xs \<Longrightarrow> P s \<Longrightarrow> f x s = Some s' \<Longrightarrow> P s'"
  shows "P t"
  using assms
proof (induction xs arbitrary: s)
  case (Cons x xs)
  from Cons.prems(1) obtain s' where s': "f x s = Some s'" "foldM f xs s' = Some t"
    by (auto simp: bind_eq_Some_conv)
  then have "P s'" using Cons.prems(2) Cons.prems(3) [of x s s'] by simp
  show ?case
    by (rule Cons.IH [OF s'(2) \<open>P s'\<close>]) (use Cons.prems(3) in auto)
qed simp

text \<open>Keep the values that are not \<open>null\<close>: \<open>.filter(Boolean)\<close> after a normaliser.\<close>

definition present :: "'a option list \<Rightarrow> 'a list" where
  "present xs = List.map_filter (\<lambda>x. x) xs"

lemma present_simps [simp]:
  "present [] = []" "present (None # xs) = present xs" "present (Some x # xs) = x # present xs"
  by (simp_all add: present_def List.map_filter_simps)

lemma set_present [simp]: "set (present xs) = {x. Some x \<in> set xs}"
  by (induction xs) (auto simp: present_def List.map_filter_simps split: option.splits)

lemma length_present: "length (present xs) \<le> length xs"
proof (induction xs)
  case (Cons x xs)
  then show ?case by (cases x) simp_all
qed simp

lemma length_present_mapM: "mapM f xs = Some ys \<Longrightarrow> length (present ys) \<le> length xs"
  using length_mapM length_present by metis

section \<open>Values\<close>

datatype jsval =
    JUndef
  | JNull
  | JBool bool
  | JNum jsnum
  | JStr string
  | JArr "jsval list"
  | JObj "(string \<times> jsval) list"

definition nullish :: "jsval \<Rightarrow> bool" where
  "nullish v \<longleftrightarrow> v = JUndef \<or> v = JNull"

definition coalesce :: "jsval \<Rightarrow> jsval \<Rightarrow> jsval" where
  \<comment> \<open>\<open>v ?? d\<close>\<close>
  "coalesce v d = (if nullish v then d else v)"

fun truthy :: "jsval \<Rightarrow> bool" where
  "truthy JUndef = False"
| "truthy JNull = False"
| "truthy (JBool b) = b"
| "truthy (JNum n) = num_truthy n"
| "truthy (JStr s) = (s \<noteq> [])"
| "truthy (JArr _) = True"
| "truthy (JObj _) = True"

definition is_object :: "jsval \<Rightarrow> bool" where
  \<comment> \<open>\<open>v && typeof v === 'object'\<close>\<close>
  "is_object v = (case v of JArr _ \<Rightarrow> True | JObj _ \<Rightarrow> True | _ \<Rightarrow> False)"

fun is_array :: "jsval \<Rightarrow> bool" where
  "is_array (JArr _) = True"
| "is_array _ = False"

fun array_or_empty :: "jsval \<Rightarrow> jsval list" where
  \<comment> \<open>\<open>Array.isArray(v) ? v : []\<close>\<close>
  "array_or_empty (JArr xs) = xs"
| "array_or_empty _ = []"

fun oprop :: "jsval \<Rightarrow> string \<Rightarrow> jsval" where
  \<comment> \<open>\<open>v?.k\<close> for a field name the code writes down\<close>
  "oprop (JObj kvs) k = (case map_of kvs k of Some v \<Rightarrow> v | None \<Rightarrow> JUndef)"
| "oprop _ k = JUndef"

definition jget :: "jsval \<Rightarrow> string \<Rightarrow> jsval throws" where
  \<comment> \<open>\<open>v.k\<close>: throws on \<open>undefined\<close> and \<open>null\<close>\<close>
  "jget v k = (if nullish v then None else Some (oprop v k))"

fun to_str :: "jsval \<Rightarrow> string throws" where
  \<comment> \<open>\<open>String(v)\<close>; an object that carries its own \<open>toString\<close> cannot be converted\<close>
  "to_str JUndef = Some ''undefined''"
| "to_str JNull = Some ''null''"
| "to_str (JBool b) = Some (if b then ''true'' else ''false'')"
| "to_str (JNum n) = Some (num_str n)"
| "to_str (JStr s) = Some s"
| "to_str (JArr vs) =
     do { ss \<leftarrow> mapM (\<lambda>v. if nullish v then Some [] else to_str v) vs; Some (join '','' ss) }"
| "to_str (JObj kvs) =
     (if ''toString'' \<in> fst ` set kvs then None else Some ''[object Object]'')"

fun to_num :: "jsval \<Rightarrow> jsnum throws" where
  \<comment> \<open>\<open>Number(v)\<close>\<close>
  "to_num JUndef = Some NaN"
| "to_num JNull = Some (Fin 0)"
| "to_num (JBool b) = Some (Fin (if b then 1 else 0))"
| "to_num (JNum n) = Some n"
| "to_num (JStr s) = Some (parse_num s)"
| "to_num (JArr vs) = do { s \<leftarrow> to_str (JArr vs); Some (parse_num s) }"
| "to_num (JObj kvs) = do { s \<leftarrow> to_str (JObj kvs); Some (parse_num s) }"

definition str_prop :: "jsval \<Rightarrow> string \<Rightarrow> string throws" where
  \<comment> \<open>\<open>String(o.k ?? '')\<close>\<close>
  "str_prop v k = to_str (coalesce (oprop v k) (JStr []))"

definition num_prop :: "jsval \<Rightarrow> string \<Rightarrow> jsnum throws" where
  \<comment> \<open>\<open>Number(o.k)\<close>\<close>
  "num_prop v k = to_num (oprop v k)"

fun js_iter :: "jsval \<Rightarrow> jsval list throws" where
  \<comment> \<open>what \<open>for (const x of v)\<close> and \<open>[...v]\<close> run over\<close>
  "js_iter (JArr vs) = Some vs"
| "js_iter (JStr s) = Some (map (\<lambda>c. JStr [c]) s)"
| "js_iter _ = None"


lemma nullish_simps [simp]:
  "nullish JUndef" "nullish JNull" "\<not> nullish (JBool b)" "\<not> nullish (JNum n)"
  "\<not> nullish (JStr s)" "\<not> nullish (JArr vs)" "\<not> nullish (JObj kvs)"
  by (simp_all add: nullish_def)

lemma coalesce_simps [simp]:
  "nullish v \<Longrightarrow> coalesce v d = d" "\<not> nullish v \<Longrightarrow> coalesce v d = v"
  by (simp_all add: coalesce_def)

lemma is_object_simps [simp]:
  "\<not> is_object JUndef" "\<not> is_object JNull" "\<not> is_object (JBool b)" "\<not> is_object (JNum n)"
  "\<not> is_object (JStr s)" "is_object (JArr vs)" "is_object (JObj kvs)"
  by (simp_all add: is_object_def)

lemmas throw_simps = str_prop_def num_prop_def jget_def

text \<open>
  A value is \<^emph>\<open>plain\<close> when no object in it carries a field named \<open>toString\<close>: the
  condition under which the coercions of its parts cannot throw.
\<close>

fun plain :: "jsval \<Rightarrow> bool" where
  "plain (JArr vs) = list_all plain vs"
| "plain (JObj kvs) =
     (''toString'' \<notin> fst ` set kvs \<and> list_all (\<lambda>kv. plain (snd kv)) kvs)"
| "plain _ = True"

lemma plain_to_str: "plain v \<Longrightarrow> \<exists>s. to_str v = Some s"
proof (induction v rule: to_str.induct)
  case (6 vs)
  then have "\<forall>v \<in> set vs. (if nullish v then Some [] else to_str v) \<noteq> None"
    by (fastforce simp: list_all_iff)
  from mapM_total [OF this] show ?case by (auto simp: bind_eq_Some_conv)
qed auto

lemma plain_to_num: "plain v \<Longrightarrow> \<exists>n. to_num v = Some n"
proof (cases v)
  case (JArr vs)
  assume "plain v"
  with plain_to_str [of v] show ?thesis by (auto simp: JArr bind_eq_Some_conv)
next
  case (JObj kvs)
  assume "plain v"
  with plain_to_str [of v] show ?thesis by (auto simp: JObj)
qed auto

lemma plain_oprop: "plain v \<Longrightarrow> plain (oprop v k)"
proof (cases v)
  case (JObj kvs)
  assume "plain v"
  then show ?thesis
    by (fastforce simp: JObj list_all_iff split: option.split dest: map_of_SomeD)
qed auto

lemma plain_coalesce: "plain v \<Longrightarrow> plain d \<Longrightarrow> plain (coalesce v d)"
  by (simp add: coalesce_def)

lemma plain_str_prop: "plain v \<Longrightarrow> \<exists>s. str_prop v k = Some s"
  unfolding str_prop_def by (intro plain_to_str plain_coalesce plain_oprop) auto

lemma plain_num_prop: "plain v \<Longrightarrow> \<exists>n. num_prop v k = Some n"
  unfolding num_prop_def by (intro plain_to_num plain_oprop)

lemma plain_array: "plain v \<Longrightarrow> x \<in> set (array_or_empty v) \<Longrightarrow> plain x"
  by (cases v) (auto simp: list_all_iff)

section \<open>Plain objects as dictionaries\<close>

text \<open>
  A dictionary kept in a plain object has its own entries, but a read \<open>d[k]\<close> also finds
  what the object inherits. \<open>proto_names\<close> are the names of \<open>Object.prototype\<close>: reading one of them
  from a dictionary without such an entry gives a function or an object, never \<open>undefined\<close>.
\<close>

type_synonym 'v dict = "(string \<times> 'v) list"

definition proto_names :: "string list" where
  "proto_names =
     [''constructor'', ''__defineGetter__'', ''__defineSetter__'', ''hasOwnProperty'',
      ''__lookupGetter__'', ''__lookupSetter__'', ''isPrototypeOf'', ''propertyIsEnumerable'',
      ''toString'', ''valueOf'', ''__proto__'', ''toLocaleString'']"

datatype 'v slot = Own 'v | Proto | Absent

definition dget :: "'v dict \<Rightarrow> string \<Rightarrow> 'v slot" where
  "dget d k =
     (case map_of d k of Some v \<Rightarrow> Own v
      | None \<Rightarrow> if k \<in> set proto_names then Proto else Absent)"

definition dput :: "'v dict \<Rightarrow> string \<Rightarrow> 'v \<Rightarrow> 'v dict" where
  \<comment> \<open>\<open>d[k] = v\<close>: writing \<open>__proto__\<close> calls the inherited setter and adds no entry\<close>
  "dput d k v = (if k = ''__proto__'' \<and> k \<notin> fst ` set d then d else AList.update k v d)"

definition ddel :: "'v dict \<Rightarrow> string \<Rightarrow> 'v dict" where
  "ddel d k = AList.delete k d"

definition is_index :: "string \<Rightarrow> bool" where
  "is_index k \<longleftrightarrow> k \<noteq> [] \<and> list_all (is_digit 10) k \<and> (hd k \<noteq> CHR ''0'' \<or> length k = 1) \<and>
     radix_val 10 k < 2 ^ 32 - 1"

definition entries :: "'v dict \<Rightarrow> (string \<times> 'v) list" where
  \<comment> \<open>\<open>Object.entries\<close>: array indices first, ascending, then insertion order\<close>
  "entries d = sort_key (\<lambda>kv. radix_val 10 (fst kv)) (filter (\<lambda>kv. is_index (fst kv)) d) @
     filter (\<lambda>kv. \<not> is_index (fst kv)) d"

fun own_entries :: "jsval \<Rightarrow> (string \<times> jsval) list" where
  \<comment> \<open>\<open>Object.entries(v)\<close> of a value off the wire\<close>
  "own_entries (JObj kvs) = entries kvs"
| "own_entries (JArr vs) = zip (map nat_str [0..<length vs]) vs"
| "own_entries (JStr s) = zip (map nat_str [0..<length s]) (map (\<lambda>c. JStr [c]) s)"
| "own_entries _ = []"

lemma mset_entries: "mset (entries d) = mset d"
  by (simp add: entries_def)

lemma set_entries [simp]: "set (entries d) = set d"
  by (metis mset_entries set_mset_mset)

lemma dget_Own_iff: "dget d k = Own v \<longleftrightarrow> map_of d k = Some v"
  by (auto simp: dget_def split: option.splits)

lemma map_of_dput: "k \<noteq> ''__proto__'' \<Longrightarrow> map_of (dput d k v) = (map_of d)(k \<mapsto> v)"
  by (simp add: dput_def update_conv')

lemma map_of_ddel: "map_of (ddel d k) = (map_of d)(k := None)"
  by (simp add: ddel_def delete_conv')

lemma distinct_dput: "distinct (map fst d) \<Longrightarrow> distinct (map fst (dput d k v))"
  by (simp add: dput_def distinct_update)

lemma distinct_ddel: "distinct (map fst d) \<Longrightarrow> distinct (map fst (ddel d k))"
  by (simp add: ddel_def distinct_delete)


text \<open>\<open>Map.prototype.set\<close> on an insertion ordered association list.\<close>

lemma set_update: "set (AList.update k v al) \<subseteq> insert (k, v) (set al)"
  by (induction al) auto

lemma update_fresh: "map_of al k = None \<Longrightarrow> AList.update k v al = al @ [(k, v)]"
  by (induction al) (auto split: if_splits)

lemma mset_update:
  "distinct (map fst al) \<Longrightarrow> map_of al k = Some w \<Longrightarrow>
     mset (AList.update k v al) = mset al - {#(k, w)#} + {#(k, v)#}"
  by (induction al) (auto split: if_splits simp: add_mset_commute dest: map_of_SomeD)

lemma keys_update: "map_of al k \<noteq> None \<Longrightarrow> map fst (AList.update k v al) = map fst al"
  by (induction al) (auto split: if_splits)

lemma mset_map_of_eq:
  assumes "mset a = mset b" and "distinct (map fst a)"
  shows "map_of a = map_of b" and "distinct (map fst b)"
proof -
  have "mset (map fst a) = mset (map fst b)" using assms(1) by simp
  with assms(2) show d: "distinct (map fst b)" by (metis mset_eq_imp_distinct_iff)
  have "set a = set b" using assms(1) by (metis set_mset_mset)
  with assms(2) d show "map_of a = map_of b" by (metis map_of_inject_set)
qed

section \<open>Sets, slices and sorting\<close>

definition uniq :: "'a list \<Rightarrow> 'a list" where
  \<comment> \<open>\<open>[...new Set(xs)]\<close>: first occurrences, in order\<close>
  "uniq xs = rev (remdups (rev xs))"

definition set_add :: "'a list \<Rightarrow> 'a \<Rightarrow> 'a list" where
  \<comment> \<open>\<open>set.add(x)\<close> on an insertion ordered set\<close>
  "set_add xs x = (if x \<in> set xs then xs else xs @ [x])"

definition last_n :: "nat \<Rightarrow> 'a list \<Rightarrow> 'a list" where
  \<comment> \<open>\<open>xs.slice(-n)\<close> for \<open>n > 0\<close>\<close>
  "last_n n xs = drop (length xs - n) xs"

definition newest_first :: "('a \<Rightarrow> rat) \<Rightarrow> 'a list \<Rightarrow> 'a list" where
  \<comment> \<open>\<open>xs.sort((a, b) => b.ts - a.ts)\<close>; the sort is stable\<close>
  "newest_first ts xs = sort_key (\<lambda>x. - ts x) xs"

lemma set_uniq [simp]: "set (uniq xs) = set xs"
  by (simp add: uniq_def)

lemma distinct_uniq [simp]: "distinct (uniq xs)"
  by (simp add: uniq_def)

lemma uniq_distinct: "distinct xs \<Longrightarrow> uniq xs = xs"
  by (simp add: uniq_def distinct_remdups_id)

lemma set_set_add [simp]: "set (set_add xs x) = insert x (set xs)"
  by (auto simp: set_add_def)

lemma distinct_set_add: "distinct xs \<Longrightarrow> distinct (set_add xs x)"
  by (simp add: set_add_def)

lemma set_last_n: "set (last_n n xs) \<subseteq> set xs"
  by (simp add: last_n_def set_drop_subset)

lemma length_last_n: "length (last_n n xs) = min n (length xs)"
  by (simp add: last_n_def)

lemma last_n_snoc: "0 < n \<Longrightarrow> x \<in> set (last_n n (xs @ [x]))"
  by (simp add: last_n_def)

lemma distinct_last_n: "distinct xs \<Longrightarrow> distinct (last_n n xs)"
  by (simp add: last_n_def)

lemma set_newest_first [simp]: "set (newest_first ts xs) = set xs"
  by (simp add: newest_first_def)

lemma mset_newest_first [simp]: "mset (newest_first ts xs) = mset xs"
  by (simp add: newest_first_def)

lemma length_newest_first [simp]: "length (newest_first ts xs) = length xs"
  by (simp add: newest_first_def)

lemma sorted_newest_first: "sorted_wrt (\<lambda>a b. ts b \<le> ts a) (newest_first ts xs)"
proof -
  have "sorted (map (\<lambda>x. - ts x) (newest_first ts xs))"
    by (simp add: newest_first_def)
  then show ?thesis by (simp add: sorted_wrt_map)
qed

lemma sorted_wrt_take: "sorted_wrt P xs \<Longrightarrow> sorted_wrt P (take n xs)"
  by (simp add: sorted_wrt_iff_nth_less)

lemma distinct_map_newest_first [simp]:
  "distinct (map f (newest_first ts xs)) \<longleftrightarrow> distinct (map f xs)"
proof -
  have "mset (map f (newest_first ts xs)) = mset (map f xs)" by simp
  then show ?thesis by (metis mset_eq_imp_distinct_iff)
qed

lemma distinct_map_take: "distinct (map f xs) \<Longrightarrow> distinct (map f (take n xs))"
  by (metis distinct_take take_map)

lemma length_filter_bound: "length xs \<le> n \<Longrightarrow> length (filter P xs) \<le> n"
  by (rule order_trans [OF length_filter_le])

lemma distinct_map_filter: "distinct (map f xs) \<Longrightarrow> distinct (map f (filter P xs))"
  by (induction xs) auto


lemma hd_sort_Min:
  fixes xs :: "'a::linorder list"
  assumes "xs \<noteq> []"
  shows "hd (sort xs) = Min (set xs)"
proof -
  from assms obtain a as where Cons: "sort xs = a # as"
    by (metis length_0_conv length_sort neq_Nil_conv)
  then have "a \<in> set xs" "\<forall>x \<in> set xs. a \<le> x"
    using sorted_sort [of xs] set_sort [of "\<lambda>x. x" xs] by auto
  then have "Min (set xs) = a" by (intro Min_eqI) auto
  with Cons show ?thesis by simp
qed

lemma sort_pick:
  fixes xs :: "'a::linorder list"
  shows "(case sort xs of [] \<Rightarrow> None | a # _ \<Rightarrow> Some a) = (if set xs = {} then None else Some (Min (set xs)))"
proof (cases "xs = []")
  case False
  then obtain a as where "sort xs = a # as" by (metis length_0_conv length_sort neq_Nil_conv)
  with False hd_sort_Min [of xs] show ?thesis by auto
qed simp

section \<open>Timestamps claimed by a sender\<close>

definition sane_ts :: "jsnum \<Rightarrow> rat \<Rightarrow> rat" where
  \<comment> \<open>\<open>if (!Number.isFinite(ts) || ts <= 0 || ts > now + MIN) ts = now\<close>, with \<open>MIN\<close> one minute\<close>
  "sane_ts n now = (case n of Fin x \<Rightarrow> if x \<le> 0 \<or> now + 60000 < x then now else x | _ \<Rightarrow> now)"

lemma sane_ts_bounds:
  "0 < now \<Longrightarrow> 0 < sane_ts n now" "sane_ts n now \<le> now + 60000"
  by (auto simp: sane_ts_def split: jsnum.splits)

definition list_or_empty :: "'a list option \<Rightarrow> 'a list" where
  \<comment> \<open>\<open>list ?? []\<close>\<close>
  "list_or_empty xs = (case xs of None \<Rightarrow> [] | Some ys \<Rightarrow> ys)"

lemma list_or_empty_simps [simp]: "list_or_empty None = []" "list_or_empty (Some xs) = xs"
  by (simp_all add: list_or_empty_def)

definition nonempty :: "'a list \<Rightarrow> 'a list option" where
  \<comment> \<open>a field written only when it has something in it: \<open>...(s ? { s } : {})\<close>\<close>
  "nonempty s = (if s = [] then None else Some s)"

lemma nonempty_SomeD: "nonempty s = Some t \<Longrightarrow> t = s \<and> t \<noteq> []"
  by (simp add: nonempty_def split: if_splits)

end
