(* ===== verification/Board.thy ===== *)
theory Board
  imports JS_Prelude
begin

text \<open>
  The interface the circle's boards share. A noticeboard (\<open>overview.js\<close>), the offers
  (\<open>offers.js\<close>) and the membership ledger (\<open>quorum.js\<close>) are lists of entries with an
  id and a timestamp, kept newest first and capped. Each module writes its own \<open>upsert\<close>
  and \<open>merge\<close>; the locale states the law both follow, proves once what follows from it, and
  is interpreted in the theory of each module on that module's definitions.
\<close>

definition board_ok :: "('a \<Rightarrow> string) \<Rightarrow> ('a \<Rightarrow> rat) \<Rightarrow> nat \<Rightarrow> 'a list \<Rightarrow> bool" where
  \<comment> \<open>a board in order: no id twice, newest first, within its cap\<close>
  "board_ok key stamp cap xs \<longleftrightarrow>
     distinct (map key xs) \<and> sorted_wrt (\<lambda>a b. stamp b \<le> stamp a) xs \<and> length xs \<le> cap"

lemma board_okI:
  "distinct (map key xs) \<Longrightarrow> board_ok key stamp cap (take cap (newest_first stamp xs))"
  by (simp add: board_ok_def distinct_map_take sorted_wrt_take sorted_newest_first)

lemma board_ok_filter: "board_ok key stamp cap xs \<Longrightarrow> board_ok key stamp cap (filter P xs)"
  by (auto simp: board_ok_def distinct_map_filter sorted_wrt_filter intro: order_trans [OF length_filter_le])

lemma board_ok_map:
  assumes "\<And>x. key (f x) = key x" and "\<And>x. stamp (f x) = stamp x"
  shows "board_ok key stamp cap (map f xs) \<longleftrightarrow> board_ok key stamp cap xs"
proof -
  have "map key (map f xs) = map key xs" using assms(1) by simp
  moreover have "sorted_wrt (\<lambda>a b. stamp b \<le> stamp a) (map f xs) \<longleftrightarrow>
      sorted_wrt (\<lambda>a b. stamp b \<le> stamp a) xs"
    using assms(2) by (simp add: sorted_wrt_map)
  ultimately show ?thesis by (simp only: board_ok_def length_map)
qed

definition keeps_entries :: "('a \<Rightarrow> string) \<Rightarrow> nat \<Rightarrow> 'a list \<Rightarrow> 'a list \<Rightarrow> bool" where
  \<comment> \<open>an entry under an id that was taken is the entry that took it, and the cap holds\<close>
  "keeps_entries key cap old new \<longleftrightarrow>
     (\<forall>y \<in> set new. key y \<in> key ` set old \<longrightarrow> y \<in> set old) \<and> (length old \<le> cap \<longrightarrow> length new \<le> cap)"

lemma keeps_refl [simp]: "keeps_entries key cap xs xs"
  by (simp add: keeps_entries_def)

locale capped_board =
  fixes key :: "'a \<Rightarrow> string"
    and stamp :: "'a \<Rightarrow> rat"
    and cap :: nat
    and carry :: "'a \<Rightarrow> 'a \<Rightarrow> 'a"
    and upsert :: "'a list \<Rightarrow> 'a \<Rightarrow> 'a list"
    and merge :: "'a list \<Rightarrow> 'a list \<Rightarrow> 'a list"
  assumes carry_key: "key (carry old new) = key new"
    and cap_pos: "0 < cap"
    and upsert_law: "upsert xs x =
      take cap (newest_first stamp
        ((case find (\<lambda>y. key y = key x) xs of Some old \<Rightarrow> carry old x | None \<Rightarrow> x) #
         filter (\<lambda>y. key y \<noteq> key x) xs))"
    and merge_law: "merge xs ys =
      take cap (newest_first stamp (xs @ filter (\<lambda>y. key y \<notin> key ` set xs) ys))"
begin

lemma upsert_ok: "board_ok key stamp cap xs \<Longrightarrow> board_ok key stamp cap (upsert xs x)"
  unfolding upsert_law
  by (rule board_okI)
    (auto simp: board_ok_def distinct_map_filter carry_key split: option.split)

lemma upsert_entries:
  "y \<in> set (upsert xs x) \<Longrightarrow>
     (y \<in> set xs \<and> key y \<noteq> key x) \<or> y = x \<or>
     (\<exists>old \<in> set xs. key old = key x \<and> y = carry old x)"
  by (auto simp: upsert_law find_Some_iff dest!: in_set_takeD split: option.splits)

lemma upsert_replaces:
  "y \<in> set (upsert xs x) \<Longrightarrow> key y = key x \<Longrightarrow> old \<in> set xs \<Longrightarrow> key old = key x \<Longrightarrow>
     board_ok key stamp cap xs \<Longrightarrow> y = carry old x"
  using upsert_entries [of y xs x]
  by (auto simp: upsert_law board_ok_def find_None_iff find_Some_iff carry_key
      dest!: in_set_takeD split: option.splits)
    (metis distinct_map inj_on_def nth_mem)+

lemma upsert_room:
  assumes "length xs < cap"
  shows "set (upsert xs x) =
    insert (case find (\<lambda>y. key y = key x) xs of Some old \<Rightarrow> carry old x | None \<Rightarrow> x)
      {y \<in> set xs. key y \<noteq> key x}"
proof -
  have "length (filter (\<lambda>y. key y \<noteq> key x) xs) < cap"
    using assms length_filter_le [of "\<lambda>y. key y \<noteq> key x" xs] by linarith
  then show ?thesis by (simp add: upsert_law)
qed

lemma merge_ok:
  "board_ok key stamp cap xs \<Longrightarrow> distinct (map key ys) \<Longrightarrow> board_ok key stamp cap (merge xs ys)"
  unfolding merge_law
  by (rule board_okI) (auto simp: board_ok_def distinct_map_filter, metis imageI)

lemma merge_mine_win:
  "y \<in> set (merge xs ys) \<Longrightarrow> key y \<in> key ` set xs \<Longrightarrow> y \<in> set xs"
  by (auto simp: merge_law dest!: in_set_takeD)

lemma merge_keeps: "keeps_entries key cap xs (merge xs ys)"
  unfolding keeps_entries_def
proof (intro conjI ballI impI)
  show "y \<in> set xs" if "y \<in> set (merge xs ys)" "key y \<in> key ` set xs" for y
    using that by (rule merge_mine_win)
  show "length (merge xs ys) \<le> cap" unfolding merge_law by simp
qed

lemma merge_room:
  assumes "length xs + length ys \<le> cap"
  shows "set (merge xs ys) = set xs \<union> {y \<in> set ys. key y \<notin> key ` set xs}"
proof -
  have "length (filter (\<lambda>y. key y \<notin> key ` set xs) ys) \<le> length ys" by simp
  with assms have "length xs + length (filter (\<lambda>y. key y \<notin> key ` set xs) ys) \<le> cap" by linarith
  then show ?thesis by (auto simp: merge_law)
qed

lemma merge_idem: "board_ok key stamp cap xs \<Longrightarrow> merge xs xs = xs"
proof -
  assume ok: "board_ok key stamp cap xs"
  then have "sorted (map (\<lambda>x. - stamp x) xs)" by (simp add: board_ok_def sorted_wrt_map)
  then have "newest_first stamp xs = xs"
    by (simp add: newest_first_def sorted_sort_id sort_key_id_if_sorted)
  moreover have "filter (\<lambda>y. key y \<notin> key ` set xs) xs = []" by (auto simp: filter_empty_conv)
  ultimately show ?thesis using ok by (simp add: merge_law board_ok_def)
qed

end

end
