(* ===== verification/Quorum.thy ===== *)
theory Quorum
  imports Board
begin

text \<open>
  The membership ledger, \<open>client/src/lib/quorum.js\<close>: proposals to admit somebody, signed or
  objected to by members, and the threshold at which one carries. Payload fields arrive as
  arbitrary values and are normalised; what is stored is typed. The member count passed to the
  threshold rules is the length of a roster, hence a natural number.
\<close>

section \<open>Data\<close>

record signature =
  sig_who :: string
  sig_at :: rat

record objection =
  obj_who :: string
  obj_why :: string
  obj_at :: rat

record proposal =
  prop_id :: string
  prop_handle :: string
  prop_why :: "string option"
  prop_by :: string
  prop_at :: rat
  signatures :: "signature list"
  objections :: "objection list"

definition WHY_MAX :: nat where "WHY_MAX = 400"
definition PROPOSALS_MAX :: nat where "PROPOSALS_MAX = 16"
definition VOICES_MAX :: nat where "VOICES_MAX = 64"

lemmas quorum_consts = WHY_MAX_def PROPOSALS_MAX_def VOICES_MAX_def

section \<open>Operations\<close>

definition defaultThreshold :: "nat \<Rightarrow> nat" where
  "defaultThreshold memberCount =
     (let n = max 1 memberCount
      in if n = 1 then 1 else max 2 (nat \<lceil>rat_of_nat n / 2\<rceil>))"

definition normalizeThreshold :: "jsval \<Rightarrow> nat \<Rightarrow> nat throws" where
  "normalizeThreshold value memberCount =
     do { v \<leftarrow> to_num value;
          let n = max 1 memberCount;
          Some (case v of
              Fin x \<Rightarrow> nat (min (int n) (max (if n = 1 then 1 else 2) \<lfloor>x\<rfloor>))
            | _ \<Rightarrow> defaultThreshold n) }"

definition normalizeProposal :: "jsval \<Rightarrow> jsval \<Rightarrow> rat \<Rightarrow> proposal option throws" where
  "normalizeProposal p author now =
     (if \<not> is_object p then Some None
      else do {
        id0 \<leftarrow> str_prop p ''id'';
        handle0 \<leftarrow> str_prop p ''handle'';
        why0 \<leftarrow> str_prop p ''why'';
        at0 \<leftarrow> num_prop p ''at'';
        let id = take 40 id0;
        let handle = toLowerCase (trim (take 64 handle0));
        let why = trim (take WHY_MAX why0);
        let t = sane_ts at0 now;
        if id = [] \<or> handle = [] \<or> \<not> truthy author then Some None
        else do {
          who \<leftarrow> to_str author;
          Some (Some \<lparr>prop_id = id, prop_handle = handle, prop_why = nonempty why, prop_by = who,
            prop_at = t, signatures = [\<lparr>sig_who = who, sig_at = t\<rparr>], objections = []\<rparr>) } })"

definition carryVoices :: "proposal \<Rightarrow> proposal \<Rightarrow> proposal" where
  "carryVoices prior p = p\<lparr>signatures := signatures prior, objections := objections prior\<rparr>"

definition upsertProposal :: "proposal list option \<Rightarrow> proposal option \<Rightarrow> proposal list" where
  "upsertProposal list proposal =
     (case proposal of
        None \<Rightarrow> list_or_empty list
      | Some q \<Rightarrow>
          let prior = find (\<lambda>p. prop_id p = prop_id q) (list_or_empty list);
              kept = (case prior of Some old \<Rightarrow> carryVoices old q | None \<Rightarrow> q)
          in take PROPOSALS_MAX (newest_first prop_at
               (kept # filter (\<lambda>p. prop_id p \<noteq> prop_id q) (list_or_empty list))))"

definition signOne :: "string \<Rightarrow> string \<Rightarrow> rat \<Rightarrow> proposal \<Rightarrow> proposal" where
  "signOne i who t p =
     (if prop_id p \<noteq> i then p
      else if \<exists>s \<in> set (signatures p). sig_who s = who then p
      else if VOICES_MAX \<le> length (signatures p) then p
      else p\<lparr>signatures := signatures p @ [\<lparr>sig_who = who, sig_at = t\<rparr>],
             objections := filter (\<lambda>v. obj_who v \<noteq> who) (objections p)\<rparr>)"

definition applySignature :: "proposal list option \<Rightarrow> jsval \<Rightarrow> string \<Rightarrow> rat \<Rightarrow> proposal list" where
  \<comment> \<open>an id that is not a string equals no proposal's id\<close>
  "applySignature list pid who t =
     (case pid of JStr i \<Rightarrow> map (signOne i who t) (list_or_empty list) | _ \<Rightarrow> list_or_empty list)"

definition objectOne :: "string \<Rightarrow> string \<Rightarrow> string \<Rightarrow> rat \<Rightarrow> proposal \<Rightarrow> proposal" where
  "objectOne i who reason t p =
     (if prop_id p \<noteq> i then p
      else if VOICES_MAX \<le> length (objections p) \<and> \<not> (\<exists>v \<in> set (objections p). obj_who v = who) then p
      else p\<lparr>signatures := filter (\<lambda>s. sig_who s \<noteq> who) (signatures p),
             objections := filter (\<lambda>v. obj_who v \<noteq> who) (objections p) @
               [\<lparr>obj_who = who, obj_why = reason, obj_at = t\<rparr>]\<rparr>)"

definition applyObjection ::
  "proposal list option \<Rightarrow> jsval \<Rightarrow> string \<Rightarrow> jsval \<Rightarrow> rat \<Rightarrow> proposal list throws" where
  "applyObjection list pid who why t =
     do { w \<leftarrow> to_str (coalesce why (JStr []));
          let reason = trim (take WHY_MAX w);
          Some (if reason = [] then list_or_empty list
                else case pid of
                  JStr i \<Rightarrow> map (objectOne i who reason t) (list_or_empty list)
                | _ \<Rightarrow> list_or_empty list) }"

definition standingSignatures :: "proposal \<Rightarrow> string list \<Rightarrow> signature list" where
  "standingSignatures p members = filter (\<lambda>s. sig_who s \<in> set members) (signatures p)"

definition isCarried :: "proposal \<Rightarrow> nat \<Rightarrow> string list \<Rightarrow> bool" where
  "isCarried p threshold members \<longleftrightarrow> max 1 threshold \<le> length (standingSignatures p members)"

definition awaitingFrom :: "proposal option \<Rightarrow> string \<Rightarrow> bool" where
  "awaitingFrom p who =
     (case p of None \<Rightarrow> False
      | Some q \<Rightarrow> \<not> (\<exists>s \<in> set (signatures q). sig_who s = who) \<and>
                  \<not> (\<exists>v \<in> set (objections q). obj_who v = who))"

definition canWithdraw :: "proposal option \<Rightarrow> string \<Rightarrow> bool \<Rightarrow> bool" where
  "canWithdraw p requester isAdmin =
     (case p of None \<Rightarrow> False | Some q \<Rightarrow> prop_by q = requester \<or> isAdmin)"

definition admitter :: "string dict \<Rightarrow> string list \<Rightarrow> string option" where
  "admitter roles members =
     (let admins = sort (filter (\<lambda>m. dget roles m = Own ''admin'') members)
      in case admins of [] \<Rightarrow> None | a # _ \<Rightarrow> Some a)"

definition normalizeVoice :: "rat \<Rightarrow> jsval \<Rightarrow> (string \<times> rat) option throws" where
  \<comment> \<open>\<open>who\<close> and \<open>at\<close> of one signature or objection off the wire\<close>
  "normalizeVoice baseAt v =
     do { who \<leftarrow> str_prop v ''who'';
          t \<leftarrow> num_prop v ''at'';
          Some (if who = [] then None
                else Some (who, case t of Fin x \<Rightarrow> if 0 < x then x else baseAt | _ \<Rightarrow> baseAt)) }"

definition signatureVoices :: "rat \<Rightarrow> jsval \<Rightarrow> signature list throws" where
  "signatureVoices baseAt arr =
     do { vs \<leftarrow> mapM (normalizeVoice baseAt) (array_or_empty arr);
          Some (take VOICES_MAX (map (\<lambda>(who, t). \<lparr>sig_who = who, sig_at = t\<rparr>) (present vs))) }"

definition objectionVoice :: "rat \<Rightarrow> jsval \<Rightarrow> objection option throws" where
  "objectionVoice baseAt v =
     do { wa \<leftarrow> normalizeVoice baseAt v;
          case wa of None \<Rightarrow> Some None
          | Some (who, t) \<Rightarrow> do {
              w \<leftarrow> str_prop v ''why'';
              let why = trim (take WHY_MAX w);
              Some (if why = [] then None
                    else Some \<lparr>obj_who = who, obj_why = why, obj_at = t\<rparr>) } }"

definition objectionVoices :: "rat \<Rightarrow> jsval \<Rightarrow> objection list throws" where
  "objectionVoices baseAt arr =
     do { vs \<leftarrow> mapM (objectionVoice baseAt) (array_or_empty arr);
          Some (take VOICES_MAX (present vs)) }"

definition normalizeLedgerEntry :: "rat \<Rightarrow> jsval \<Rightarrow> proposal option throws" where
  "normalizeLedgerEntry now p =
     do { base \<leftarrow> normalizeProposal p (oprop p ''by'') now;
          case base of None \<Rightarrow> Some None
          | Some b \<Rightarrow> do {
              sigs \<leftarrow> signatureVoices (prop_at b) (oprop p ''signatures'');
              objs \<leftarrow> objectionVoices (prop_at b) (oprop p ''objections'');
              Some (Some (b\<lparr>
                signatures := (if \<exists>s \<in> set sigs. sig_who s = prop_by b then sigs
                               else sigs @ [\<lparr>sig_who = prop_by b, sig_at = prop_at b\<rparr>]),
                objections := objs\<rparr>)) } }"

definition normalizeProposals :: "jsval \<Rightarrow> rat \<Rightarrow> proposal list throws" where
  "normalizeProposals list now =
     do { ps \<leftarrow> mapM (normalizeLedgerEntry now) (array_or_empty list);
          Some (take PROPOSALS_MAX (newest_first prop_at (present ps))) }"

definition mergeProposals :: "proposal list option \<Rightarrow> proposal list \<Rightarrow> proposal list" where
  "mergeProposals mine incoming =
     (let have_ids = map prop_id (list_or_empty mine)
      in take PROPOSALS_MAX (newest_first prop_at
           (list_or_empty mine @ filter (\<lambda>p. prop_id p \<notin> set have_ids) incoming)))"


section \<open>The ledger as a board\<close>

interpretation ledger: capped_board prop_id prop_at PROPOSALS_MAX carryVoices
  "\<lambda>xs p. upsertProposal (Some xs) (Some p)" "\<lambda>xs ys. mergeProposals (Some xs) ys"
proof unfold_locales
  show "prop_id (carryVoices old new) = prop_id new" for old new
    by (simp add: carryVoices_def)
qed (auto simp: upsertProposal_def mergeProposals_def quorum_consts Let_def)

abbreviation ledger_board :: "proposal list \<Rightarrow> bool" where
  "ledger_board \<equiv> board_ok prop_id prop_at PROPOSALS_MAX"

section \<open>One voice per member\<close>

definition voices_ok :: "proposal \<Rightarrow> bool" where
  "voices_ok p \<longleftrightarrow>
     distinct (map sig_who (signatures p)) \<and> distinct (map obj_who (objections p)) \<and>
     sig_who ` set (signatures p) \<inter> obj_who ` set (objections p) = {} \<and>
     length (signatures p) \<le> VOICES_MAX \<and> length (objections p) \<le> VOICES_MAX"

lemma signOne_voices_ok: "voices_ok p \<Longrightarrow> voices_ok (signOne i who t p)"
  by (auto simp: voices_ok_def signOne_def distinct_map_filter length_filter_bound)

lemma objectOne_voices_ok: "voices_ok p \<Longrightarrow> voices_ok (objectOne i who reason t p)"
proof -
  assume ok: "voices_ok p"
  let ?rest = "filter (\<lambda>v. obj_who v \<noteq> who) (objections p)"
  have "length ?rest < VOICES_MAX"
    if "\<not> (VOICES_MAX \<le> length (objections p) \<and> \<not> (\<exists>v \<in> set (objections p). obj_who v = who))"
  proof (cases "\<exists>v \<in> set (objections p). obj_who v = who")
    case True
    then have "length ?rest < length (objections p)" by (auto intro: length_filter_less)
    with ok show ?thesis by (simp add: voices_ok_def)
  next
    case False
    with that show ?thesis using length_filter_le [of "\<lambda>v. obj_who v \<noteq> who" "objections p"] by linarith
  qed
  note rest = this
  show ?thesis
  proof (cases "prop_id p \<noteq> i \<or>
      VOICES_MAX \<le> length (objections p) \<and> \<not> (\<exists>v \<in> set (objections p). obj_who v = who)")
    case True
    with ok show ?thesis by (auto simp: objectOne_def)
  next
    case False
    have "length (filter (\<lambda>s. sig_who s \<noteq> who) (signatures p)) \<le> VOICES_MAX"
      using ok by (simp add: voices_ok_def length_filter_bound)
    with ok False rest show ?thesis
      by (auto simp: voices_ok_def objectOne_def distinct_map_filter Suc_le_eq)
  qed
qed

lemma normalizeProposal_SomeD:
  assumes "normalizeProposal p author now = Some (Some q)"
  shows "prop_id q \<noteq> [] \<and> length (prop_id q) \<le> 40 \<and> prop_handle q \<noteq> [] \<and>
    length (prop_handle q) \<le> 64 \<and> to_str author = Some (prop_by q) \<and>
    (\<forall>w. prop_why q = Some w \<longrightarrow> w \<noteq> [] \<and> length w \<le> WHY_MAX) \<and> prop_at q \<le> now + 60000 \<and>
    signatures q = [\<lparr>sig_who = prop_by q, sig_at = prop_at q\<rparr>] \<and> objections q = []"
  using assms length_trim_take
  by (auto simp: normalizeProposal_def bind_eq_Some_conv Let_def sane_ts_bounds
      dest!: nonempty_SomeD split: if_splits)

lemma normalizeProposal_voices_ok:
  "normalizeProposal p author now = Some (Some q) \<Longrightarrow> voices_ok q"
  by (drule normalizeProposal_SomeD) (simp add: voices_ok_def VOICES_MAX_def)

lemma upsertProposal_list:
  "upsertProposal list (Some q) = upsertProposal (Some (list_or_empty list)) (Some q)"
  by (simp add: upsertProposal_def)

lemma carryVoices_voices_ok [simp]: "voices_ok (carryVoices old q) \<longleftrightarrow> voices_ok old"
  by (simp add: carryVoices_def voices_ok_def)

lemma upsertProposal_voices_ok:
  "\<forall>p \<in> set (list_or_empty list). voices_ok p \<Longrightarrow> voices_ok q \<Longrightarrow>
     \<forall>p \<in> set (upsertProposal list (Some q)). voices_ok p"
  by (subst upsertProposal_list) (auto dest!: ledger.upsert_entries)

lemma applySignature_voices_ok:
  "\<forall>p \<in> set (list_or_empty list). voices_ok p \<Longrightarrow> \<forall>p \<in> set (applySignature list i who t). voices_ok p"
  by (auto simp: applySignature_def signOne_voices_ok split: jsval.splits)

lemma applyObjection_cases:
  assumes "applyObjection list pid who why t = Some ps"
  shows "ps = list_or_empty list \<or>
    (\<exists>i r. pid = JStr i \<and> r \<noteq> [] \<and> ps = map (objectOne i who r t) (list_or_empty list))"
  using assms
  by (cases pid) (auto simp: applyObjection_def bind_eq_Some_conv Let_def split: if_splits)

lemma applyObjection_voices_ok:
  "\<forall>p \<in> set (list_or_empty list). voices_ok p \<Longrightarrow> applyObjection list i who why t = Some ps \<Longrightarrow>
     \<forall>p \<in> set ps. voices_ok p"
  by (auto simp: objectOne_voices_ok dest!: applyObjection_cases)

lemma signOne_fields [simp]:
  "prop_id (signOne i who t p) = prop_id p" "prop_at (signOne i who t p) = prop_at p"
  "prop_handle (signOne i who t p) = prop_handle p" "prop_by (signOne i who t p) = prop_by p"
  by (simp_all add: signOne_def)

lemma objectOne_fields [simp]:
  "prop_id (objectOne i who r t p) = prop_id p" "prop_at (objectOne i who r t p) = prop_at p"
  "prop_handle (objectOne i who r t p) = prop_handle p" "prop_by (objectOne i who r t p) = prop_by p"
  by (simp_all add: objectOne_def)

lemma applySignature_board:
  "ledger_board (list_or_empty list) \<Longrightarrow> ledger_board (applySignature list i who t)"
  by (auto simp: applySignature_def board_ok_map split: jsval.split)

lemma applyObjection_board:
  "ledger_board (list_or_empty list) \<Longrightarrow> applyObjection list i who why t = Some ps \<Longrightarrow> ledger_board ps"
  by (auto simp: board_ok_map dest!: applyObjection_cases)

section \<open>Thresholds\<close>

lemma defaultThreshold_bounds:
  "1 \<le> defaultThreshold n \<and> defaultThreshold n \<le> max 1 n \<and> (2 \<le> n \<longrightarrow> 2 \<le> defaultThreshold n) \<and>
   n \<le> 2 * defaultThreshold n"
proof -
  have half: "\<lceil>rat_of_nat n / 2\<rceil> \<le> int n" by (simp add: ceiling_le_iff)
  have "rat_of_nat n / 2 \<le> rat_of_int \<lceil>rat_of_nat n / 2\<rceil>" by (rule le_of_int_ceiling)
  then have "rat_of_nat n \<le> 2 * rat_of_int \<lceil>rat_of_nat n / 2\<rceil>" by linarith
  then have "rat_of_int (int n) \<le> rat_of_int (2 * \<lceil>rat_of_nat n / 2\<rceil>)" by simp
  then have "int n \<le> 2 * \<lceil>rat_of_nat n / 2\<rceil>" by (simp only: of_int_le_iff)
  with half show ?thesis
    by (auto simp: defaultThreshold_def Let_def max_def)
qed




section \<open>Objections, signatures and carrying\<close>

lemma standing_objectOne:
  "length (standingSignatures (objectOne i who r t p) members) \<le> length (standingSignatures p members)"
proof -
  have "length (filter (\<lambda>s. sig_who s \<in> set members \<and> sig_who s \<noteq> who) xs) \<le>
      length (filter (\<lambda>s. sig_who s \<in> set members) xs)" for xs :: "signature list"
    by (induction xs) auto
  then show ?thesis by (simp add: standingSignatures_def objectOne_def conj_commute)
qed

lemma standing_signOne:
  "length (standingSignatures p members) \<le> length (standingSignatures (signOne i who t p) members)"
  by (simp add: standingSignatures_def signOne_def)

text \<open>
  An objection is recorded without being a veto and without ever helping: after it the ledger
  holds the same proposals in the same order, each with at most the standing signatures it had, so
  nothing is carried that was not carried before.
\<close>

theorem objection_never_carries:
  assumes "applyObjection (Some ps) pid who why t = Some ps'"
  shows "map prop_id ps' = map prop_id ps \<and> map prop_handle ps' = map prop_handle ps \<and>
    (\<forall>i < length ps. isCarried (ps' ! i) threshold members \<longrightarrow> isCarried (ps ! i) threshold members)"
proof -
  have "isCarried (objectOne i who r t p) threshold members \<Longrightarrow> isCarried p threshold members" for i r p
    unfolding isCarried_def using standing_objectOne order_trans by blast
  then show ?thesis
    using applyObjection_cases [OF assms] by auto
qed

definition example_ledger :: "proposal list" where
  "example_ledger =
     [\<lparr>prop_id = ''p1'', prop_handle = ''dana'', prop_why = None, prop_by = ''alice'', prop_at = 10,
       signatures = [\<lparr>sig_who = ''alice'', sig_at = 10\<rparr>, \<lparr>sig_who = ''bob'', sig_at = 11\<rparr>],
       objections = []\<rparr>]"

theorem objection_never_carries_witness:
  "isCarried (example_ledger ! 0) 2 [''alice'', ''bob'', ''carol''] \<and>
   (\<exists>ps'. applyObjection (Some example_ledger) (JStr ''p1'') ''bob'' (JStr ''no'') 12 = Some ps' \<and>
      map prop_id ps' = [''p1''] \<and> \<not> isCarried (ps' ! 0) 2 [''alice'', ''bob'', ''carol''])"
proof -
  obtain ps' where h: "applyObjection (Some example_ledger) (JStr ''p1'') ''bob'' (JStr ''no'') 12 = Some ps'"
    and ps': "ps' = map (objectOne ''p1'' ''bob'' ''no'' 12) example_ledger"
    by (simp add: applyObjection_def WHY_MAX_def trim_def is_space_def)
  from objection_never_carries [OF h, of 2 "[''alice'', ''bob'', ''carol'']"] h ps' show ?thesis
    by (simp add: example_ledger_def isCarried_def standingSignatures_def objectOne_def VOICES_MAX_def)
qed

text \<open>
  Which admin executes a carried proposal does not depend on the order (or repetition) in
  which a device holds the roster, and the one chosen is an admin of the circle: every device
  that reads the same roles elects the same admin.
\<close>

theorem admitter_deterministic:
  assumes "set members = set members'"
  shows "admitter roles members = admitter roles members' \<and>
    (\<forall>a. admitter roles members = Some a \<longrightarrow> a \<in> set members \<and> dget roles a = Own ''admin'')"
proof -
  have sets: "set (filter P members) = set (filter P members')" for P using assms by auto
  have "admitter roles members = admitter roles members'"
    by (simp add: admitter_def sort_pick Let_def assms)
  moreover have "a \<in> set (filter (\<lambda>m. dget roles m = Own ''admin'') members)"
    if some: "admitter roles members = Some a" for a
  proof -
    obtain r where "sort (filter (\<lambda>m. dget roles m = Own ''admin'') members) = a # r"
      using some by (auto simp: admitter_def Let_def split: list.splits)
    then have "a \<in> set (sort (filter (\<lambda>m. dget roles m = Own ''admin'') members))" by simp
    then show ?thesis by (simp only: set_sort)
  qed
  ultimately show ?thesis by auto
qed

theorem admitter_deterministic_witness:
  "set [''bob'', ''alice''] = set [''alice'', ''bob'', ''bob''] \<and>
   admitter [(''bob'', ''admin''), (''alice'', ''admin'')] [''bob'', ''alice''] =
   admitter [(''bob'', ''admin''), (''alice'', ''admin'')] [''alice'', ''bob'', ''bob'']"
proof -
  have h: "set [''bob'', ''alice''] = set [''alice'', ''bob'', ''bob'']" by auto
  from admitter_deterministic [OF h, of "[(''bob'', ''admin''), (''alice'', ''admin'')]"] h
  show ?thesis by simp
qed

section \<open>Ledger entries off the wire\<close>

lemma signatureVoices_length: "signatureVoices t arr = Some sigs \<Longrightarrow> length sigs \<le> VOICES_MAX"
  by (auto simp: signatureVoices_def bind_eq_Some_conv)

lemma normalizeLedgerEntry_SomeD:
  assumes "normalizeLedgerEntry now p = Some (Some q)"
  shows "prop_id q \<noteq> [] \<and> length (prop_id q) \<le> 40 \<and> length (prop_handle q) \<le> 64 \<and>
    prop_by q \<in> sig_who ` set (signatures q) \<and> length (signatures q) \<le> Suc VOICES_MAX \<and>
    length (objections q) \<le> VOICES_MAX"
proof -
  from assms obtain b sigs objs where b: "normalizeProposal p (oprop p ''by'') now = Some (Some b)"
    and sigs: "signatureVoices (prop_at b) (oprop p ''signatures'') = Some sigs"
    and objs: "objectionVoices (prop_at b) (oprop p ''objections'') = Some objs"
    and q: "q = b\<lparr>signatures := (if \<exists>s \<in> set sigs. sig_who s = prop_by b then sigs
                               else sigs @ [\<lparr>sig_who = prop_by b, sig_at = prop_at b\<rparr>]),
                objections := objs\<rparr>"
    by (auto simp: normalizeLedgerEntry_def bind_eq_Some_conv split: option.splits)
  have "length objs \<le> VOICES_MAX" using objs by (auto simp: objectionVoices_def bind_eq_Some_conv)
  moreover note normalizeProposal_SomeD [OF b] signatureVoices_length [OF sigs]
  ultimately show ?thesis unfolding q by (force simp: image_iff)
qed

end
