(* ===== verification/Offers.thy ===== *)
theory Offers
  imports Board
begin

text \<open>
  Lifts and kit, \<open>client/src/lib/offers.js\<close>: lines a member posts on the circle's board,
  some with a number of seats others may take. Claims arrive as envelopes of their own, so two
  members taking the last seat is settled by log order.
\<close>

section \<open>Data\<close>

record offer =
  off_id :: string
  off_text :: string
  off_note :: "string option"
  off_seats :: nat
  off_ts :: rat
  off_author :: string
  off_takers :: "string list"

definition OFFER_MAX :: nat where "OFFER_MAX = 200"
definition OFFERS_MAX :: nat where "OFFERS_MAX = 24"
definition SEATS_MAX :: nat where "SEATS_MAX = 32"

lemmas offer_consts = OFFER_MAX_def OFFERS_MAX_def SEATS_MAX_def

section \<open>Operations\<close>

definition normalizeSeats :: "jsnum \<Rightarrow> nat" where
  \<comment> \<open>not a finite number, or negative: no seats; else whole seats, at most \<open>SEATS_MAX\<close>\<close>
  "normalizeSeats n =
     (case n of Fin x \<Rightarrow> if x < 0 then 0 else nat (min (int SEATS_MAX) \<lfloor>x\<rfloor>) | _ \<Rightarrow> 0)"

definition normalizeOffer :: "jsval \<Rightarrow> jsval \<Rightarrow> rat \<Rightarrow> offer option throws" where
  "normalizeOffer v author now =
     (if \<not> is_object v then Some None
      else do {
        id0 \<leftarrow> str_prop v ''id'';
        text0 \<leftarrow> str_prop v ''text'';
        note0 \<leftarrow> str_prop v ''note'';
        seats \<leftarrow> num_prop v ''seats'';
        ts \<leftarrow> num_prop v ''ts'';
        let i = take 40 id0;
        let txt = trim (take OFFER_MAX text0);
        let nt = trim (take OFFER_MAX note0);
        if i = [] \<or> txt = [] then Some None
        else do {
          who \<leftarrow> to_str (coalesce author (JStr []));
          Some (Some \<lparr>off_id = i, off_text = txt, off_note = nonempty nt,
            off_seats = normalizeSeats seats, off_ts = sane_ts ts now,
            off_author = who, off_takers = []\<rparr>) } })"

definition carryTakers :: "offer \<Rightarrow> offer \<Rightarrow> offer" where
  "carryTakers prior new = new\<lparr>off_takers := off_takers prior\<rparr>"

definition upsertOffer :: "offer list option \<Rightarrow> offer option \<Rightarrow> offer list" where
  "upsertOffer list offer =
     (case offer of
        None \<Rightarrow> list_or_empty list
      | Some new \<Rightarrow>
          let prior = find (\<lambda>x. off_id x = off_id new) (list_or_empty list);
              kept = (case prior of Some old \<Rightarrow> carryTakers old new | None \<Rightarrow> new)
          in take OFFERS_MAX (newest_first off_ts
               (kept # filter (\<lambda>x. off_id x \<noteq> off_id new) (list_or_empty list))))"

definition seatsLeft :: "offer option \<Rightarrow> nat option" where
  \<comment> \<open>\<open>None\<close> when the line is not claimable; subtraction on \<open>nat\<close> stops at 0, as \<open>Math.max(0, ..)\<close> does\<close>
  "seatsLeft x =
     (case x of None \<Rightarrow> None
      | Some f \<Rightarrow> if off_seats f = 0 then None else Some (off_seats f - length (off_takers f)))"

definition takeOne :: "string \<Rightarrow> string \<Rightarrow> bool \<Rightarrow> offer \<Rightarrow> offer" where
  "takeOne i who taking x =
     (if off_id x \<noteq> i then x
      else if \<not> taking then x\<lparr>off_takers := filter (\<lambda>t. t \<noteq> who) (off_takers x)\<rparr>
      else if who \<in> set (off_takers x) then x
      else if off_seats x = 0 \<or> off_seats x \<le> length (off_takers x) then x
      else x\<lparr>off_takers := off_takers x @ [who]\<rparr>)"

definition applyTake :: "offer list option \<Rightarrow> jsval \<Rightarrow> string \<Rightarrow> bool \<Rightarrow> offer list" where
  "applyTake list oid who taking =
     (case oid of JStr i \<Rightarrow> map (takeOne i who taking) (list_or_empty list) | _ \<Rightarrow> list_or_empty list)"

definition canRemoveOffer :: "offer option \<Rightarrow> string \<Rightarrow> bool \<Rightarrow> bool" where
  "canRemoveOffer x requester isAdmin =
     (case x of None \<Rightarrow> False | Some f \<Rightarrow> off_author f = requester \<or> isAdmin)"

definition mergeOffers :: "offer list option \<Rightarrow> offer list \<Rightarrow> offer list" where
  "mergeOffers mine incoming =
     (let have_ids = map off_id (list_or_empty mine)
      in take OFFERS_MAX (newest_first off_ts
           (list_or_empty mine @ filter (\<lambda>x. off_id x \<notin> set have_ids) incoming)))"

definition normalizeOfferEntry :: "rat \<Rightarrow> jsval \<Rightarrow> offer option throws" where
  "normalizeOfferEntry now v =
     do { base \<leftarrow> normalizeOffer v (oprop v ''author'') now;
          case base of None \<Rightarrow> Some None
          | Some b \<Rightarrow> do {
              names \<leftarrow> mapM to_str (array_or_empty (oprop v ''takers''));
              let takers = filter (\<lambda>t. t \<noteq> []) (take SEATS_MAX (uniq names));
              Some (Some (b\<lparr>off_takers := (if off_seats b = 0 then [] else take (off_seats b) takers)\<rparr>)) } }"

definition normalizeOffers :: "jsval \<Rightarrow> rat \<Rightarrow> offer list throws" where
  "normalizeOffers list now =
     do { xs \<leftarrow> mapM (normalizeOfferEntry now) (array_or_empty list);
          Some (take OFFERS_MAX (newest_first off_ts (present xs))) }"

section \<open>The offers as a board\<close>

interpretation offers: capped_board off_id off_ts OFFERS_MAX carryTakers
  "\<lambda>xs x. upsertOffer (Some xs) (Some x)" "\<lambda>xs ys. mergeOffers (Some xs) ys"
proof unfold_locales
  show "off_id (carryTakers old new) = off_id new" for old new
    by (simp add: carryTakers_def)
qed (auto simp: upsertOffer_def mergeOffers_def offer_consts Let_def)

abbreviation offers_board :: "offer list \<Rightarrow> bool" where
  "offers_board \<equiv> board_ok off_id off_ts OFFERS_MAX"

lemma upsertOffer_list:
  "upsertOffer list (Some x) = upsertOffer (Some (list_or_empty list)) (Some x)"
  by (simp add: upsertOffer_def)

lemma takeOne_fields [simp]:
  "off_id (takeOne i who taking x) = off_id x" "off_ts (takeOne i who taking x) = off_ts x"
  "off_seats (takeOne i who taking x) = off_seats x" "off_author (takeOne i who taking x) = off_author x"
  by (simp_all add: takeOne_def)

lemma applyTake_board:
  "offers_board (list_or_empty list) \<Longrightarrow> offers_board (applyTake list i who taking)"
  by (auto simp: applyTake_def board_ok_map split: jsval.split)

section \<open>Seats\<close>

definition offer_ok :: "offer \<Rightarrow> bool" where
  \<comment> \<open>what every stored offer satisfies: each taker once, bounded fields\<close>
  "offer_ok x \<longleftrightarrow> distinct (off_takers x) \<and> off_seats x \<le> SEATS_MAX \<and> off_id x \<noteq> [] \<and>
     length (off_id x) \<le> 40 \<and> off_text x \<noteq> [] \<and> length (off_text x) \<le> OFFER_MAX"

lemma normalizeSeats_bound: "normalizeSeats n \<le> SEATS_MAX"
  by (auto simp: normalizeSeats_def nat_le_iff split: jsnum.split)

lemma normalizeOffer_SomeD:
  assumes "normalizeOffer v author now = Some (Some x)"
  shows "offer_ok x \<and> off_takers x = [] \<and> to_str (coalesce author (JStr [])) = Some (off_author x) \<and>
    off_ts x \<le> now + 60000"
  using assms length_trim_take
  by (auto simp: normalizeOffer_def bind_eq_Some_conv Let_def sane_ts_bounds offer_ok_def
      normalizeSeats_bound split: if_splits)

lemma takeOne_ok: "offer_ok x \<Longrightarrow> offer_ok (takeOne i who taking x)"
  by (auto simp: offer_ok_def takeOne_def)

lemma carryTakers_ok: "offer_ok old \<Longrightarrow> offer_ok new \<Longrightarrow> offer_ok (carryTakers old new)"
  by (simp add: offer_ok_def carryTakers_def)

lemma upsertOffer_ok:
  "\<forall>x \<in> set (list_or_empty list). offer_ok x \<Longrightarrow> offer_ok new \<Longrightarrow>
     \<forall>x \<in> set (upsertOffer list (Some new)). offer_ok x"
  by (subst upsertOffer_list) (auto simp: carryTakers_ok dest!: offers.upsert_entries)

lemma applyTake_ok:
  "\<forall>x \<in> set (list_or_empty list). offer_ok x \<Longrightarrow> \<forall>x \<in> set (applyTake list i who taking). offer_ok x"
  by (auto simp: applyTake_def takeOne_ok split: jsval.splits)

lemma normalizeOfferEntry_SomeD:
  assumes "normalizeOfferEntry now v = Some (Some x)"
  shows "offer_ok x \<and> length (off_takers x) \<le> off_seats x"
proof -
  from assms obtain b names where b: "normalizeOffer v (oprop v ''author'') now = Some (Some b)"
    and x: "x = b\<lparr>off_takers := (if off_seats b = 0 then []
        else take (off_seats b) (filter (\<lambda>t. t \<noteq> []) (take SEATS_MAX (uniq names))))\<rparr>"
    by (auto simp: normalizeOfferEntry_def bind_eq_Some_conv Let_def split: option.splits)
  from normalizeOffer_SomeD [OF b] show ?thesis
    unfolding x by (simp add: offer_ok_def)
qed

lemma normalizeOffers_ok:
  assumes "normalizeOffers v now = Some xs"
  shows "length xs \<le> OFFERS_MAX \<and> (\<forall>x \<in> set xs. offer_ok x \<and> length (off_takers x) \<le> off_seats x)"
  using assms
  by (auto simp: normalizeOffers_def bind_eq_Some_conv dest!: in_set_takeD
      dest: mapM_Some_set normalizeOfferEntry_SomeD)


lemma takeOne_takers:
  "off_takers (takeOne i who True x) = off_takers x \<or>
   (off_id x = i \<and> who \<notin> set (off_takers x) \<and> length (off_takers x) < off_seats x \<and>
    off_takers (takeOne i who True x) = off_takers x @ [who])"
  by (auto simp: takeOne_def)

text \<open>
  Taking a seat never overfills a line and touches nothing else. In the resulting list every
  line keeps its place and its takers, or it is the named line, the taker was not on it, and one
  free seat was filled by them.
\<close>

theorem take_never_overfills:
  assumes "i < length xs"
  shows "length (applyTake (Some xs) oid who True) = length xs \<and>
    (let x = xs ! i; y = applyTake (Some xs) oid who True ! i
     in off_id y = off_id x \<and> off_seats y = off_seats x \<and>
        (off_takers y = off_takers x \<or>
         oid = JStr (off_id x) \<and> who \<notin> set (off_takers x) \<and>
         off_takers y = off_takers x @ [who] \<and> length (off_takers y) \<le> off_seats y))"
proof (cases oid)
  case (JStr j)
  with assms takeOne_takers [of j who "xs ! i"] show ?thesis
    by (auto simp: applyTake_def Let_def)
qed (use assms in \<open>auto simp: applyTake_def Let_def\<close>)

definition example_lift :: offer where
  "example_lift = \<lparr>off_id = ''l1'', off_text = ''car to the start'', off_note = None, off_seats = 2,
     off_ts = 5, off_author = ''dana'', off_takers = [''alice'']\<rparr>"

theorem take_never_overfills_witness:
  "(0::nat) < length [example_lift] \<and>
   off_takers (applyTake (Some [example_lift]) (JStr ''l1'') ''bob'' True ! 0) = [''alice'', ''bob'']"
proof -
  have h: "(0::nat) < length [example_lift]" by simp
  from take_never_overfills [OF h, of "JStr ''l1''" "''bob''"] h show ?thesis
    by (auto simp: applyTake_def takeOne_def example_lift_def Let_def)
qed

text \<open>
  Two members racing for the last seat. Whoever's claim is first in the log gets it, the
  second claim changes nothing, and every device that applies the two claims in log order ends
  with the same full line.
\<close>

theorem last_seat_race:
  assumes "x \<in> set xs" and "seatsLeft (Some x) = Some 1"
    and "a \<notin> set (off_takers x)" and "b \<notin> set (off_takers x)" and "a \<noteq> b"
  shows "let once = applyTake (Some xs) (JStr (off_id x)) a True;
             twice = applyTake (Some once) (JStr (off_id x)) b True;
             full = x\<lparr>off_takers := off_takers x @ [a]\<rparr>
         in full \<in> set twice \<and> seatsLeft (Some full) = Some 0 \<and> b \<notin> set (off_takers full)"
proof -
  from assms(2) have seats: "off_seats x = Suc (length (off_takers x))"
    by (auto simp: seatsLeft_def split: if_splits)
  let ?full = "x\<lparr>off_takers := off_takers x @ [a]\<rparr>"
  have first: "takeOne (off_id x) a True x = ?full"
    using assms(3) seats by (simp add: takeOne_def)
  have second: "takeOne (off_id x) b True ?full = ?full"
    using seats by (simp add: takeOne_def)
  have "?full \<in> set (map (takeOne (off_id x) b True) (map (takeOne (off_id x) a True) xs))"
    using assms(1) first second by (force simp: image_iff)
  then show ?thesis
    using assms(4,5) seats by (simp add: applyTake_def seatsLeft_def Let_def image_image)
qed

theorem last_seat_race_witness:
  "seatsLeft (Some example_lift) = Some 1 \<and>
   example_lift\<lparr>off_takers := [''alice'', ''bob'']\<rparr> \<in>
     set (applyTake (Some (applyTake (Some [example_lift]) (JStr ''l1'') ''bob'' True)) (JStr ''l1'') ''carol'' True)"
proof -
  have h: "seatsLeft (Some example_lift) = Some 1" by (simp add: seatsLeft_def example_lift_def)
  from last_seat_race [of example_lift "[example_lift]" "''bob''" "''carol''"] h show ?thesis
    by (simp add: example_lift_def Let_def)
qed

lemma take_giveback: "who \<notin> set (off_takers x) \<Longrightarrow> takeOne i who False (takeOne i who True x) = x"
proof -
  assume "who \<notin> set (off_takers x)"
  then have "filter (\<lambda>t. t \<noteq> who) (off_takers x) = off_takers x" by (auto simp: filter_id_conv)
  then show ?thesis by (simp add: takeOne_def)
qed

lemma takeOne_idem: "takeOne i who taking (takeOne i who taking x) = takeOne i who taking x"
  by (simp add: takeOne_def)

end
