(* ===== verification/Games.thy ===== *)
theory Games
  imports JS_Prelude "HOL-Library.Product_Lexorder"
begin

text \<open>
  The game shelf, \<open>client/src/lib/games.js\<close>: the registry a circle keeps of games that live
  on other servers, the references a message may carry, rich presence and rallies with their
  expiry, the ordering of the shelf, and the device-local tallies in \<open>localStorage\<close>.
  \<open>new URL(..)\<close> is a browser facility and is a parameter of the one function that calls it.
\<close>

section \<open>Registry entries\<close>

datatype game_kind = Activity | Server

record game =
  game_id :: string
  game_name :: string
  game_url :: string
  game_kind_of :: game_kind
  game_note :: "string option"
  game_glyph :: "string option"

record game_ref =
  ref_id :: string
  ref_name :: string
  ref_kind :: game_kind

definition GAMES_MAX :: nat where "GAMES_MAX = 24"
definition GAME_NAME_MAX :: nat where "GAME_NAME_MAX = 60"
definition GAME_URL_MAX :: nat where "GAME_URL_MAX = 2048"
definition GAME_NOTE_MAX :: nat where "GAME_NOTE_MAX = 140"

lemmas game_consts = GAMES_MAX_def GAME_NAME_MAX_def GAME_URL_MAX_def GAME_NOTE_MAX_def

definition kind_of :: "jsval \<Rightarrow> game_kind" where
  \<comment> \<open>\<open>KINDS.has(g.kind) ? g.kind : 'activity'\<close>\<close>
  "kind_of v = (if v = JStr ''server'' then Server else Activity)"

definition activitySrc :: "string \<Rightarrow> string option" where
  "activitySrc url =
     (if toLowerCase (take 8 url) = ''https://'' then Some url
      else case url of
        c # d # _ \<Rightarrow> if c = CHR ''/'' \<and> d \<noteq> CHR ''/'' \<and> d \<noteq> CHR 0x5C then Some url else None
      | _ \<Rightarrow> None)"

definition normalizeGame :: "jsval \<Rightarrow> game option throws" where
  "normalizeGame g =
     (if \<not> is_object g then Some None
      else do {
        id0 \<leftarrow> str_prop g ''id'';
        name0 \<leftarrow> str_prop g ''name'';
        url0 \<leftarrow> str_prop g ''url'';
        note0 \<leftarrow> str_prop g ''note'';
        glyph0 \<leftarrow> str_prop g ''glyph'';
        let i = take 40 id0;
        let nm = trim (take GAME_NAME_MAX name0);
        let url = trim (take GAME_URL_MAX url0);
        let kind = kind_of (oprop g ''kind'');
        let nt = trim (take GAME_NOTE_MAX note0);
        let glyph = take 4 (trim glyph0);
        Some (if i = [] \<or> nm = [] \<or> url = [] then None
              else if kind = Activity \<and> activitySrc url = None then None
              else Some \<lparr>game_id = i, game_name = nm, game_url = url, game_kind_of = kind,
                     game_note = nonempty nt, game_glyph = nonempty glyph\<rparr>) })"

definition normalizeGames :: "jsval \<Rightarrow> game list throws" where
  "normalizeGames list =
     do { gs \<leftarrow> mapM normalizeGame (take GAMES_MAX (array_or_empty list)); Some (present gs) }"

definition relative_src :: "string \<Rightarrow> bool" where
  \<comment> \<open>\<open>/^\/[^/\\]/\<close>\<close>
  "relative_src src =
     (case src of c # d # _ \<Rightarrow> c = CHR ''/'' \<and> d \<noteq> CHR ''/'' \<and> d \<noteq> CHR 0x5C | _ \<Rightarrow> False)"

definition isSameOriginSrc ::
  "(string \<Rightarrow> string \<Rightarrow> string option) \<Rightarrow> string \<Rightarrow> string option \<Rightarrow> bool" where
  \<comment> \<open>\<open>urlOrigin src base\<close> stands for \<open>new URL(src, base).origin\<close>, \<open>None\<close> when it throws\<close>
  "isSameOriginSrc urlOrigin src origin =
     (if src = [] then False
      else if relative_src src then True
      else case origin of
        None \<Rightarrow> False
      | Some base \<Rightarrow> if base = [] then False
          else (case (urlOrigin src base, urlOrigin base []) of
             (Some x, Some y) \<Rightarrow> x = y | _ \<Rightarrow> False))"

definition normalizeGameRef :: "jsval \<Rightarrow> game_ref option throws" where
  "normalizeGameRef g =
     (if \<not> is_object g then Some None
      else do {
        id0 \<leftarrow> str_prop g ''id'';
        name0 \<leftarrow> str_prop g ''name'';
        let i = take 40 id0;
        let nm = trim (take GAME_NAME_MAX name0);
        Some (if i = [] \<or> nm = [] then None
              else Some \<lparr>ref_id = i, ref_name = nm, ref_kind = kind_of (oprop g ''kind'')\<rparr>) })"

section \<open>Shelf order and filters\<close>

record facts =
  isLive :: "string \<Rightarrow> bool"
  isFav :: "string \<Rightarrow> bool"
  playedAt :: "string \<Rightarrow> rat option"

definition matchesFilter :: "game \<Rightarrow> string \<Rightarrow> facts \<Rightarrow> bool" where
  "matchesFilter g flt f =
     (if flt = ''live'' then isLive f (game_id g)
      else if flt = ''favorites'' then isFav f (game_id g)
      else if flt = ''recent'' then playedAt f (game_id g) \<noteq> None
      else if flt = ''web'' then game_kind_of g \<noteq> Server
      else if flt = ''servers'' then game_kind_of g = Server
      else True)"

definition played_or_0 :: "facts \<Rightarrow> string \<Rightarrow> rat" where
  "played_or_0 f i = (case playedAt f i of None \<Rightarrow> 0 | Some t \<Rightarrow> t)"

definition shelf_key :: "facts \<Rightarrow> game \<times> nat \<Rightarrow> bool \<times> bool \<times> rat \<times> nat" where
  \<comment> \<open>the comparator's chain: live first, starred, last played, registry position\<close>
  "shelf_key f gi =
     (let g = fst gi
      in (\<not> isLive f (game_id g), \<not> isFav f (game_id g), - played_or_0 f (game_id g), snd gi))"

definition sortGames :: "game list \<Rightarrow> facts \<Rightarrow> game list" where
  "sortGames games f = map fst (sort_key (shelf_key f) (zip games [0..<length games]))"

section \<open>Presence and rallies\<close>

definition PRESENCE_TTL :: rat where "PRESENCE_TTL = 4 * 3600000"
definition WANT_TTL :: rat where "WANT_TTL = 20 * 60000"

record claim =
  claim_game :: "game_ref option"
  claim_ts :: rat

definition claim_time :: "jsnum \<Rightarrow> rat \<Rightarrow> rat" where
  \<comment> \<open>\<open>Number.isFinite(ts) && ts > 0 ? Math.min(ts, now) : now\<close>\<close>
  "claim_time n now = (case n of Fin x \<Rightarrow> if 0 < x then min x now else now | _ \<Rightarrow> now)"

definition normalizePresence :: "jsval \<Rightarrow> rat \<Rightarrow> claim throws" where
  "normalizePresence p now =
     (if \<not> is_object p then Some \<lparr>claim_game = None, claim_ts = now\<rparr>
      else do {
        g \<leftarrow> normalizeGameRef (oprop p ''playing'');
        ts \<leftarrow> num_prop p ''ts'';
        Some \<lparr>claim_game = g, claim_ts = claim_time ts now\<rparr> })"

definition freshPresence :: "claim option \<Rightarrow> rat \<Rightarrow> game_ref option" where
  "freshPresence entry now =
     (case entry of None \<Rightarrow> None
      | Some c \<Rightarrow> (case claim_game c of None \<Rightarrow> None
          | Some g \<Rightarrow> if now - claim_ts c < PRESENCE_TTL then Some g else None))"

definition normalizeWant :: "jsval \<Rightarrow> rat \<Rightarrow> claim throws" where
  "normalizeWant w now =
     (if \<not> is_object w then Some \<lparr>claim_game = None, claim_ts = now\<rparr>
      else do {
        g \<leftarrow> normalizeGameRef (oprop w ''want'');
        ts \<leftarrow> num_prop w ''ts'';
        Some \<lparr>claim_game = g, claim_ts = claim_time ts now\<rparr> })"

definition freshWant :: "claim option \<Rightarrow> rat \<Rightarrow> game_ref option" where
  "freshWant entry now =
     (case entry of None \<Rightarrow> None
      | Some c \<Rightarrow> (case claim_game c of None \<Rightarrow> None
          | Some g \<Rightarrow> if now - claim_ts c < WANT_TTL then Some g else None))"

section \<open>Device-local tallies\<close>

text \<open>
  A \<open>localStorage\<close> item as the functions find it: absent, text that is not JSON, or the
  object of numbers they keep there. A write can be refused (private mode), which throws, and
  every function catches.
\<close>

datatype item = NoItem | BadJson | Json "rat dict"

definition read_map :: "item \<Rightarrow> rat dict throws" where
  \<comment> \<open>\<open>JSON.parse(localStorage.getItem(KEY) ?? '{}')\<close>\<close>
  "read_map it = (case it of NoItem \<Rightarrow> Some [] | BadJson \<Rightarrow> None | Json d \<Rightarrow> Some d)"

definition lastPlayed :: "item \<Rightarrow> string \<Rightarrow> rat slot" where
  \<comment> \<open>\<open>Absent\<close> is the \<open>null\<close> it returns\<close>
  "lastPlayed it i = (case read_map it of Some d \<Rightarrow> dget d i | None \<Rightarrow> Absent)"

definition markPlayed :: "bool \<Rightarrow> item \<Rightarrow> string \<Rightarrow> rat \<Rightarrow> item" where
  "markPlayed writable it i now =
     (case read_map it of
        Some d \<Rightarrow> if writable then Json (dput d i now) else it
      | None \<Rightarrow> it)"

definition slot_truthy :: "rat slot \<Rightarrow> bool" where
  "slot_truthy x = (case x of Own v \<Rightarrow> v \<noteq> 0 | Proto \<Rightarrow> True | Absent \<Rightarrow> False)"

definition isFavorite :: "item \<Rightarrow> string \<Rightarrow> bool" where
  "isFavorite it i = (case read_map it of Some d \<Rightarrow> slot_truthy (dget d i) | None \<Rightarrow> False)"

definition toggleFavorite :: "bool \<Rightarrow> item \<Rightarrow> string \<Rightarrow> item \<times> bool" where
  "toggleFavorite writable it i =
     (case read_map it of
        Some d \<Rightarrow>
          let nxt = (\<not> slot_truthy (dget d i));
              d' = (if nxt then dput d i 1 else ddel d i)
          in if writable then (Json d', nxt) else (it, isFavorite it i)
      | None \<Rightarrow> (it, isFavorite it i))"

section \<open>What the normalisers let through\<close>

lemma activitySrc_Some: "activitySrc url = Some v \<Longrightarrow> v = url \<and> (toLowerCase (take 8 url) = ''https://'' \<or> relative_src url)"
  by (auto simp: activitySrc_def relative_src_def split: if_splits list.splits)

lemma normalizeGame_SomeD:
  assumes "normalizeGame g = Some (Some x)"
  shows "game_id x \<noteq> [] \<and> length (game_id x) \<le> 40 \<and> game_name x \<noteq> [] \<and>
    length (game_name x) \<le> GAME_NAME_MAX \<and> length (game_url x) \<le> GAME_URL_MAX \<and>
    (game_kind_of x = Activity \<longrightarrow> activitySrc (game_url x) = Some (game_url x)) \<and>
    (\<forall>n. game_note x = Some n \<longrightarrow> length n \<le> GAME_NOTE_MAX) \<and>
    (\<forall>c. game_glyph x = Some c \<longrightarrow> length c \<le> 4)"
  using assms length_trim_take
  by (auto simp: normalizeGame_def bind_eq_Some_conv Let_def activitySrc_Some
      dest!: nonempty_SomeD split: if_splits)

lemma normalizeGameRef_SomeD:
  assumes "normalizeGameRef g = Some (Some r)"
  shows "ref_id r \<noteq> [] \<and> length (ref_id r) \<le> 40 \<and> ref_name r \<noteq> [] \<and> length (ref_name r) \<le> GAME_NAME_MAX"
  using assms length_trim_take
  by (auto simp: normalizeGameRef_def bind_eq_Some_conv Let_def split: if_splits)

lemma normalizeGames_SomeD:
  "normalizeGames v = Some gs \<Longrightarrow> x \<in> set gs \<Longrightarrow> \<exists>g. normalizeGame g = Some (Some x)"
  by (auto simp: normalizeGames_def bind_eq_Some_conv dest: mapM_Some_set)

lemma normalizeGames_length: "normalizeGames v = Some gs \<Longrightarrow> length gs \<le> GAMES_MAX"
  by (auto simp: normalizeGames_def bind_eq_Some_conv dest!: length_present_mapM)

text \<open>
  The shelf cannot be turned into a script injector. Whatever registry arrives in an envelope,
  at most \<open>GAMES_MAX\<close> entries are kept, each with bounded fields, and every activity among
  them, the kind that is loaded in a frame, has an \<open>https\<close> address or a path of the app's own origin:
  never \<open>javascript:\<close>, \<open>data:\<close> or a protocol-relative address.
\<close>

theorem shelf_loads_only_web:
  assumes "normalizeGames v = Some gs" and "x \<in> set gs"
  shows "length gs \<le> GAMES_MAX \<and> length (game_name x) \<le> GAME_NAME_MAX \<and> length (game_url x) \<le> GAME_URL_MAX \<and>
    (game_kind_of x = Activity \<longrightarrow>
       toLowerCase (take 8 (game_url x)) = ''https://'' \<or> relative_src (game_url x))"
proof -
  obtain g where "normalizeGame g = Some (Some x)"
    using normalizeGames_SomeD [OF assms] by blast
  from normalizeGame_SomeD [OF this] normalizeGames_length [OF assms(1)] show ?thesis
    by (auto dest: activitySrc_Some)
qed

theorem shelf_loads_only_web_witness:
  "\<exists>gs x. normalizeGames (JArr [JObj [(''id'', JStr ''g1''), (''name'', JStr ''x''), (''url'', JStr ''data:1'')],
      JObj [(''id'', JStr ''g2''), (''name'', JStr ''y''), (''url'', JStr ''/games/y'')]]) = Some gs \<and>
     x \<in> set gs \<and> game_id x = ''g2'' \<and> relative_src (game_url x) \<and> length gs = 1"
proof -
  let ?v = "JArr [JObj [(''id'', JStr ''g1''), (''name'', JStr ''x''), (''url'', JStr ''data:1'')],
      JObj [(''id'', JStr ''g2''), (''name'', JStr ''y''), (''url'', JStr ''/games/y'')]]"
  let ?x = "\<lparr>game_id = ''g2'', game_name = ''y'', game_url = ''/games/y'', game_kind_of = Activity,
     game_note = None, game_glyph = None\<rparr>"
  have h: "normalizeGames ?v = Some [?x]"
    by (simp add: normalizeGames_def normalizeGame_def game_consts str_prop_def trim_def is_space_def
        kind_of_def activitySrc_def nonempty_def toLowerCase_def lower_char_def)
  have "?x \<in> set [?x]" by simp
  from shelf_loads_only_web [OF h this] h show ?thesis
    by (auto simp: toLowerCase_def lower_char_def)
qed

section \<open>Expiry\<close>

lemma claim_time_le: "claim_time n now \<le> now"
  by (auto simp: claim_time_def split: jsnum.split)

lemma freshPresence_Some:
  "freshPresence (Some c) now = Some g \<longleftrightarrow> claim_game c = Some g \<and> now - claim_ts c < PRESENCE_TTL"
  by (auto simp: freshPresence_def split: option.splits)

lemma freshWant_Some:
  "freshWant (Some c) now = Some g \<longleftrightarrow> claim_game c = Some g \<and> now - claim_ts c < WANT_TTL"
  by (auto simp: freshWant_def split: option.splits)

text \<open>
  Presence and rallies age from when they were made and no payload can hold them open. A claim
  received at \<open>t0\<close>, whatever timestamp it carries, is shown by no reader once four hours
  (twenty minutes for a rally) have passed, and is dated no later than its arrival.
\<close>

theorem claims_expire:
  assumes "normalizePresence p t0 = Some c" and "normalizeWant w t0 = Some d"
  shows "claim_ts c \<le> t0 \<and> claim_ts d \<le> t0 \<and>
    (\<forall>now. t0 + PRESENCE_TTL \<le> now \<longrightarrow> freshPresence (Some c) now = None) \<and>
    (\<forall>now. t0 + WANT_TTL \<le> now \<longrightarrow> freshWant (Some d) now = None)"
proof -
  have le: "claim_ts c \<le> t0" "claim_ts d \<le> t0"
    using assms claim_time_le
    by (auto simp: normalizePresence_def normalizeWant_def bind_eq_Some_conv split: if_splits)
  have "freshPresence (Some c) now = None" if "t0 + PRESENCE_TTL \<le> now" for now
    using that le(1) freshPresence_Some [of c now] by (cases "freshPresence (Some c) now") auto
  moreover have "freshWant (Some d) now = None" if "t0 + WANT_TTL \<le> now" for now
    using that le(2) freshWant_Some [of d now] by (cases "freshWant (Some d) now") auto
  ultimately show ?thesis using le by simp
qed

theorem claims_expire_witness:
  "\<exists>c d. normalizePresence (JObj [(''ts'', JNum (Fin 99))]) 10 = Some c \<and>
     normalizeWant (JObj [(''ts'', JNum (Fin 99))]) 10 = Some d \<and> claim_ts c \<le> 10 \<and> claim_ts d \<le> 10"
proof -
  let ?c = "\<lparr>claim_game = None, claim_ts = 10\<rparr>"
  have c: "normalizePresence (JObj [(''ts'', JNum (Fin 99))]) 10 = Some ?c"
    and d: "normalizeWant (JObj [(''ts'', JNum (Fin 99))]) 10 = Some ?c"
    by (simp_all add: normalizePresence_def normalizeWant_def normalizeGameRef_def num_prop_def claim_time_def)
  from claims_expire [OF c d] c d show ?thesis by blast
qed

section \<open>Order of the shelf\<close>

lemma mset_sortGames: "mset (sortGames games f) = mset games"
proof -
  have "mset (sortGames games f) = image_mset fst (mset (zip games [0..<length games]))"
    by (simp add: sortGames_def)
  also have "\<dots> = mset (map fst (zip games [0..<length games]))" by (simp only: mset_map)
  finally show ?thesis by simp
qed

lemma sorted_sortGames: "sorted_wrt (\<lambda>a b. (\<not> isLive f (game_id a), \<not> isFav f (game_id a), - played_or_0 f (game_id a))
    \<le> (\<not> isLive f (game_id b), \<not> isFav f (game_id b), - played_or_0 f (game_id b))) (sortGames games f)"
proof -
  have "sorted_wrt (\<lambda>a b. shelf_key f a \<le> shelf_key f b) (sort_key (shelf_key f) (zip games [0..<length games]))"
    using sorted_sort_key [of "shelf_key f"] by (simp add: sorted_wrt_map)
  then have "sorted_wrt (\<lambda>a b. (\<not> isLive f (game_id (fst a)), \<not> isFav f (game_id (fst a)), - played_or_0 f (game_id (fst a)))
      \<le> (\<not> isLive f (game_id (fst b)), \<not> isFav f (game_id (fst b)), - played_or_0 f (game_id (fst b))))
      (sort_key (shelf_key f) (zip games [0..<length games]))"
    by (rule sorted_wrt_mono_rel [rotated]) (auto simp: shelf_key_def less_eq_prod_def Let_def)
  then show ?thesis by (simp add: sortGames_def sorted_wrt_map)
qed

text \<open>
  Sorting the shelf loses and invents no game, and the result reads live games first, then
  starred ones, then by how recently this device played them.
\<close>

theorem shelf_order:
  "mset (sortGames games f) = mset games \<and>
   sorted_wrt (\<lambda>a b. (isLive f (game_id b) \<longrightarrow> isLive f (game_id a)) \<and>
      (isLive f (game_id a) = isLive f (game_id b) \<longrightarrow> isFav f (game_id b) \<longrightarrow> isFav f (game_id a)) \<and>
      (isLive f (game_id a) = isLive f (game_id b) \<longrightarrow> isFav f (game_id a) = isFav f (game_id b) \<longrightarrow>
         played_or_0 f (game_id b) \<le> played_or_0 f (game_id a))) (sortGames games f)"
proof -
  have "sorted_wrt (\<lambda>a b. (isLive f (game_id b) \<longrightarrow> isLive f (game_id a)) \<and>
      (isLive f (game_id a) = isLive f (game_id b) \<longrightarrow> isFav f (game_id b) \<longrightarrow> isFav f (game_id a)) \<and>
      (isLive f (game_id a) = isLive f (game_id b) \<longrightarrow> isFav f (game_id a) = isFav f (game_id b) \<longrightarrow>
         played_or_0 f (game_id b) \<le> played_or_0 f (game_id a))) (sortGames games f)"
    by (rule sorted_wrt_mono_rel [OF _ sorted_sortGames]) (auto simp: less_eq_prod_def)
  then show ?thesis by (simp add: mset_sortGames)
qed

definition example_game :: "string \<Rightarrow> game" where
  "example_game i = \<lparr>game_id = i, game_name = i, game_url = ''/g'', game_kind_of = Activity,
     game_note = None, game_glyph = None\<rparr>"

theorem shelf_order_witness:
  "sortGames [example_game ''a'', example_game ''b'']
     \<lparr>isLive = (\<lambda>i. i = ''b''), isFav = (\<lambda>i. False), playedAt = (\<lambda>i. None)\<rparr> =
   [example_game ''b'', example_game ''a'']"
  using shelf_order [of "[example_game ''a'', example_game ''b'']"
      "\<lparr>isLive = (\<lambda>i. i = ''b''), isFav = (\<lambda>i. False), playedAt = (\<lambda>i. None)\<rparr>"]
  by (simp add: sortGames_def shelf_key_def example_game_def played_or_0_def upt_rec)

text \<open>
  Starring is an honest toggle. On a writable store holding a tally, flipping a game's star
  returns the state the next read sees, the opposite of the one before, and flipping again returns to it;
  this holds for every id that is not the name of an inherited object member.
\<close>

theorem toggle_favorite_flips:
  assumes "it \<noteq> BadJson" and "i \<notin> set proto_names" and "toggleFavorite True it i = (it', now)"
  shows "now = isFavorite it' i \<and> now = (\<not> isFavorite it i) \<and>
    isFavorite (fst (toggleFavorite True it' i)) i = isFavorite it i"
proof -
  have i: "i \<noteq> ''__proto__''" using assms(2) by (auto simp: proto_names_def)
  have get: "slot_truthy (dget d i) \<longleftrightarrow> (\<exists>v. map_of d i = Some v \<and> v \<noteq> 0)" for d
    using assms(2) by (auto simp: dget_def slot_truthy_def split: option.splits)
  from assms(1) obtain d where d: "read_map it = Some d"
    by (cases it) (auto simp: read_map_def)
  define d' where "d' = (if slot_truthy (dget d i) then ddel d i else dput d i 1)"
  have it': "it' = Json d'" "now = (\<not> slot_truthy (dget d i))"
    using assms(3) d by (auto simp: toggleFavorite_def d'_def Let_def)
  have flip: "slot_truthy (dget d' i) \<longleftrightarrow> \<not> slot_truthy (dget d i)"
    by (simp add: d'_def get map_of_dput [OF i] map_of_ddel)
  have "isFavorite (fst (toggleFavorite True (Json d') i)) i \<longleftrightarrow> \<not> slot_truthy (dget d' i)"
    by (simp add: toggleFavorite_def isFavorite_def read_map_def Let_def get map_of_dput [OF i] map_of_ddel)
  with flip it' d show ?thesis by (simp add: isFavorite_def read_map_def)
qed

theorem toggle_favorite_flips_witness:
  "\<exists>it'. toggleFavorite True NoItem ''g1'' = (it', True) \<and> isFavorite it' ''g1'' \<and>
     \<not> isFavorite (fst (toggleFavorite True it' ''g1'')) ''g1''"
proof -
  have h: "toggleFavorite True NoItem ''g1'' = (Json [(''g1'', 1)], True)"
    by (simp add: toggleFavorite_def read_map_def dget_def proto_names_def slot_truthy_def dput_def Let_def)
  from toggle_favorite_flips [OF _ _ h] h show ?thesis
    by (auto simp: proto_names_def isFavorite_def read_map_def dget_def slot_truthy_def)
qed

end
