(* ===== verification/Overview.thy ===== *)
theory Overview
  imports Board Games Offers
begin

text \<open>
  The circle's home base, \<open>client/src/lib/overview.js\<close> (with \<open>normalizeGlyph\<close> of
  \<open>crest.js\<close>): the admin-edited page, the schedule, the noticeboard, the snapshot a rejoining
  device adopts, and the labels shown for times.
\<close>

section \<open>Data\<close>

record link =
  link_label :: string
  link_url :: string

record event =
  ev_id :: string
  ev_title :: string
  ev_at :: rat
  ev_note :: "string option"
  ev_game :: "string option"

record legacy_event =
  leg_title :: string
  leg_at :: rat
  leg_note :: "string option"

record overview =
  ov_blurb :: string
  ov_links :: "link list"
  ov_glyph :: "string option"
  ov_events :: "event list"
  ov_event :: "legacy_event option"
  ov_games :: "game list"

record notice =
  not_id :: string
  not_text :: string
  not_ts :: rat
  not_author :: string

record rsvp =
  rsvp_at :: rat
  rsvp_ts :: jsnum

definition BLURB_MAX :: nat where "BLURB_MAX = 4000"
definition LINKS_MAX :: nat where "LINKS_MAX = 12"
definition NOTICE_MAX :: nat where "NOTICE_MAX = 500"
definition NOTICES_MAX :: nat where "NOTICES_MAX = 30"
definition EVENTS_MAX :: nat where "EVENTS_MAX = 12"

lemmas overview_consts = BLURB_MAX_def LINKS_MAX_def NOTICE_MAX_def NOTICES_MAX_def EVENTS_MAX_def

definition MIN_MS :: rat where "MIN_MS = 60000"
definition HOUR_MS :: rat where "HOUR_MS = 3600000"
definition DAY_MS :: rat where "DAY_MS = 86400000"
definition EVENT_GRACE :: rat where "EVENT_GRACE = 6 * HOUR_MS"

lemmas time_consts = MIN_MS_def HOUR_MS_def DAY_MS_def EVENT_GRACE_def

definition CIRCLE_GLYPH_KEYS :: "string list" where
  "CIRCLE_GLYPH_KEYS = [''people'', ''games'', ''photo'', ''project'']"

definition DEFAULT_GLYPH :: string where "DEFAULT_GLYPH = ''people''"

definition normalizeGlyph :: "jsval \<Rightarrow> string" where
  "normalizeGlyph v = (case v of JStr s \<Rightarrow> if s \<in> set CIRCLE_GLYPH_KEYS then s else DEFAULT_GLYPH | _ \<Rightarrow> DEFAULT_GLYPH)"

definition js_round :: "rat \<Rightarrow> int" where
  \<comment> \<open>\<open>Math.round\<close>\<close>
  "js_round x = \<lfloor>x + 1 / 2\<rfloor>"

section \<open>The schedule\<close>

definition normalizeEvent :: "jsval \<Rightarrow> event option throws" where
  "normalizeEvent ev =
     (if \<not> is_object ev then Some None
      else do {
        title0 \<leftarrow> str_prop ev ''title'';
        at0 \<leftarrow> num_prop ev ''at'';
        note0 \<leftarrow> str_prop ev ''note'';
        let title = trim (take 120 title0);
        let nt = trim (take 280 note0);
        case at0 of
          Fin x \<Rightarrow>
            if title = [] \<or> x \<le> 0 then Some None
            else do {
              id0 \<leftarrow> str_prop ev ''id'';
              game0 \<leftarrow> str_prop ev ''gameId'';
              let i = trim (take 40 id0);
              Some (Some \<lparr>ev_id = (if i = [] then ''e'' @ radix_str 36 (nat (js_round x)) else i),
                ev_title = title, ev_at = x, ev_note = nonempty nt,
                ev_game = nonempty (trim (take 40 game0))\<rparr>) }
        | _ \<Rightarrow> Some None })"

fun collectEvents :: "string list \<Rightarrow> event list \<Rightarrow> jsval list \<Rightarrow> event list throws" where
  \<comment> \<open>the loop of \<open>normalizeEvents\<close>, leaving it once \<open>EVENTS_MAX\<close> events are in\<close>
  "collectEvents seen out [] = Some out"
| "collectEvents seen out (e # es) =
     do { ev \<leftarrow> normalizeEvent e;
          case ev of
            None \<Rightarrow> collectEvents seen out es
          | Some x \<Rightarrow>
              if ev_id x \<in> set seen then collectEvents seen out es
              else if EVENTS_MAX \<le> Suc (length out) then Some (out @ [x])
              else collectEvents (ev_id x # seen) (out @ [x]) es }"

definition normalizeEvents :: "jsval \<Rightarrow> event list throws" where
  "normalizeEvents list =
     do { out \<leftarrow> collectEvents [] [] (array_or_empty list); Some (sort_key ev_at out) }"

definition strip_event :: "event \<Rightarrow> legacy_event" where
  "strip_event e = \<lparr>leg_title = ev_title e, leg_at = ev_at e, leg_note = ev_note e\<rparr>"

definition legacyEventMirror :: "event list \<Rightarrow> rat \<Rightarrow> legacy_event option" where
  "legacyEventMirror events now =
     (if events = [] then None
      else let upcoming = filter (\<lambda>e. now - EVENT_GRACE \<le> ev_at e) events;
               pick = (if upcoming \<noteq> [] then hd upcoming else last events)
           in Some (strip_event pick))"

definition upcomingEvents :: "overview option \<Rightarrow> rat \<Rightarrow> event list" where
  "upcomingEvents ov now =
     (let events = (case ov of None \<Rightarrow> []
        | Some v \<Rightarrow> if ov_events v \<noteq> [] then ov_events v
            else (case ov_event v of None \<Rightarrow> []
              | Some l \<Rightarrow> [\<lparr>ev_id = ''legacy'', ev_title = leg_title l, ev_at = leg_at l,
                           ev_note = leg_note l, ev_game = None\<rparr>]))
      in sort_key ev_at (filter (\<lambda>e. now - EVENT_GRACE \<le> ev_at e) events))"

definition soonestEvent :: "overview option \<Rightarrow> rat \<Rightarrow> event option" where
  "soonestEvent ov now = (case upcomingEvents ov now of [] \<Rightarrow> None | e # _ \<Rightarrow> Some e)"

section \<open>The page\<close>

definition normalizeLink :: "jsval \<Rightarrow> link throws" where
  "normalizeLink l =
     do { label \<leftarrow> str_prop l ''label'';
          url \<leftarrow> str_prop l ''url'';
          Some \<lparr>link_label = trim (take 120 label), link_url = trim (take 2048 url)\<rparr> }"

definition normalizeOverview :: "jsval \<Rightarrow> rat \<Rightarrow> overview option throws" where
  "normalizeOverview ov now =
     (if \<not> is_object ov then Some None
      else do {
        let blurb = (case oprop ov ''blurb'' of JStr s \<Rightarrow> trim (take BLURB_MAX s) | _ \<Rightarrow> []);
        links0 \<leftarrow> mapM normalizeLink (take LINKS_MAX (array_or_empty (oprop ov ''links'')));
        let links = filter (\<lambda>l. link_url l \<noteq> []) links0;
        events \<leftarrow> normalizeEvents (coalesce (oprop ov ''events'')
                    (if truthy (oprop ov ''event'') then JArr [oprop ov ''event''] else JArr []));
        games \<leftarrow> normalizeGames (oprop ov ''games'');
        let chosen = normalizeGlyph (oprop ov ''glyph'');
        let glyph = (if chosen = DEFAULT_GLYPH then [] else chosen);
        Some (if blurb = [] \<and> links = [] \<and> events = [] \<and> games = [] \<and> glyph = [] then None
              else Some \<lparr>ov_blurb = blurb, ov_links = links, ov_glyph = nonempty glyph,
                     ov_events = events, ov_event = legacyEventMirror events now, ov_games = games\<rparr>) })"

section \<open>The noticeboard\<close>

definition normalizeNotice :: "jsval \<Rightarrow> jsval \<Rightarrow> rat \<Rightarrow> notice option throws" where
  "normalizeNotice n author now =
     (if \<not> is_object n then Some None
      else do {
        id0 \<leftarrow> str_prop n ''id'';
        text0 \<leftarrow> str_prop n ''text'';
        ts0 \<leftarrow> num_prop n ''ts'';
        let i = take 40 id0;
        let txt = trim (take NOTICE_MAX text0);
        if i = [] \<or> txt = [] then Some None
        else do {
          who \<leftarrow> to_str (coalesce author (JStr []));
          Some (Some \<lparr>not_id = i, not_text = txt, not_ts = sane_ts ts0 now, not_author = who\<rparr>) } })"

definition upsertNotice :: "notice list option \<Rightarrow> notice option \<Rightarrow> notice list" where
  "upsertNotice list notice =
     (case notice of
        None \<Rightarrow> list_or_empty list
      | Some n \<Rightarrow> take NOTICES_MAX (newest_first not_ts
          (n # filter (\<lambda>m. not_id m \<noteq> not_id n) (list_or_empty list))))"

definition mergeNotices :: "notice list option \<Rightarrow> notice list \<Rightarrow> notice list" where
  "mergeNotices mine incoming =
     (let have_ids = map not_id (list_or_empty mine)
      in take NOTICES_MAX (newest_first not_ts
           (list_or_empty mine @ filter (\<lambda>n. not_id n \<notin> set have_ids) incoming)))"

definition canRemoveNotice :: "notice option \<Rightarrow> string \<Rightarrow> bool \<Rightarrow> bool" where
  "canRemoveNotice notice requester isAdmin =
     (case notice of None \<Rightarrow> False
      | Some n \<Rightarrow> if requester = not_author n then True else isAdmin)"

section \<open>The snapshot a rejoining device adopts\<close>

record meta_patch =
  mp_channels :: "jsval list option"
  mp_voice :: "jsval list option"
  mp_overview :: "overview option option"
  mp_chanMeta :: "jsval dict option"
  mp_offers :: "offer list option"
  mp_notices :: "notice list option"
  mp_rsvps :: "rsvp dict option"

definition nonempty_array :: "jsval \<Rightarrow> jsval list option" where
  \<comment> \<open>\<open>Array.isArray(v) && v.length\<close>\<close>
  "nonempty_array v = (case v of JArr xs \<Rightarrow> nonempty xs | _ \<Rightarrow> None)"

definition normalizeNotices :: "jsval list \<Rightarrow> rat \<Rightarrow> notice list throws" where
  \<comment> \<open>\<open>.map((n) => normalizeNotice(n, n?.author)).filter(Boolean)\<close>\<close>
  "normalizeNotices vs now =
     do { ns \<leftarrow> mapM (\<lambda>n. normalizeNotice n (oprop n ''author'') now) vs; Some (present ns) }"

definition rsvp_of :: "jsval \<Rightarrow> rat \<Rightarrow> rsvp option throws" where
  "rsvp_of v now =
     do { a \<leftarrow> num_prop v ''at'';
          case a of
            Fin x \<Rightarrow> do { t \<leftarrow> num_prop v ''ts'';
                          Some (Some \<lparr>rsvp_at = x, rsvp_ts = (if num_truthy t then t else Fin now)\<rparr>) }
          | _ \<Rightarrow> Some None }"

fun collectRsvps :: "rat \<Rightarrow> (string \<times> jsval) list \<Rightarrow> rsvp dict \<Rightarrow> rsvp dict throws" where
  "collectRsvps now [] acc = Some acc"
| "collectRsvps now ((handle, v) # es) acc =
     do { r \<leftarrow> rsvp_of v now;
          collectRsvps now es (case r of None \<Rightarrow> acc | Some x \<Rightarrow> dput acc (take 64 handle) x) }"

definition reconcileMeta :: "jsval \<Rightarrow> rat \<Rightarrow> meta_patch throws" where
  "reconcileMeta content now =
     do { ov \<leftarrow> (if oprop content ''overview'' = JUndef then Some None
                 else map_option Some (normalizeOverview (oprop content ''overview'') now));
          off \<leftarrow> (if is_array (oprop content ''offers'')
                  then map_option Some (normalizeOffers (oprop content ''offers'') now) else Some None);
          nts \<leftarrow> (case oprop content ''notices'' of
                    JArr vs \<Rightarrow> map_option (\<lambda>ns. Some (take NOTICES_MAX (newest_first not_ts ns)))
                                 (normalizeNotices vs now)
                  | _ \<Rightarrow> Some None);
          rs \<leftarrow> (if is_object (oprop content ''rsvps'')
                 then map_option Some (collectRsvps now (take 64 (own_entries (oprop content ''rsvps''))) [])
                 else Some None);
          Some \<lparr>mp_channels = map_option uniq (nonempty_array (oprop content ''channels'')),
            mp_voice = map_option uniq (nonempty_array (oprop content ''voiceChannels'')),
            mp_overview = ov,
            mp_chanMeta = (if is_object (oprop content ''chanMeta'')
                           then Some (own_entries (oprop content ''chanMeta'')) else None),
            mp_offers = off, mp_notices = nts, mp_rsvps = rs\<rparr> }"

section \<open>Labels\<close>

definition round_str :: "rat \<Rightarrow> string" where
  "round_str x = nat_str (nat (js_round x))"

definition floor_str :: "rat \<Rightarrow> string" where
  "floor_str x = nat_str (nat \<lfloor>x\<rfloor>)"

definition describeAgo :: "rat \<Rightarrow> rat \<Rightarrow> string" where
  "describeAgo ts now =
     (let d = max 0 (now - ts)
      in if d < MIN_MS then ''just now''
         else if d < 2 * HOUR_MS then round_str (d / MIN_MS) @ '' min ago''
         else if d < 2 * DAY_MS then round_str (d / HOUR_MS) @ '' h ago''
         else round_str (d / DAY_MS) @ '' days ago'')"

definition describeUntil :: "rat \<Rightarrow> rat \<Rightarrow> string" where
  "describeUntil t now =
     (let d = t - now
      in if d \<le> 0 then (if - 6 * HOUR_MS < d then ''now'' else describeAgo t now)
         else if d < MIN_MS then ''in under a minute''
         else if d < 2 * HOUR_MS then ''in '' @ round_str (d / MIN_MS) @ '' min''
         else if d < 2 * DAY_MS then ''in '' @ round_str (d / HOUR_MS) @ '' h''
         else ''in '' @ round_str (d / DAY_MS) @ '' days'')"

definition describeCallLength :: "rat \<Rightarrow> rat \<Rightarrow> string" where
  "describeCallLength since now =
     (let d = max 0 (now - since)
      in if d < MIN_MS then ''just now''
         else if d < 2 * HOUR_MS then floor_str (d / MIN_MS) @ '' min''
         else floor_str (d / HOUR_MS) @ '' h '' @
              floor_str ((d - HOUR_MS * rat_of_int \<lfloor>d / HOUR_MS\<rfloor>) / MIN_MS) @ '' min'')"


section \<open>The noticeboard as a board\<close>

interpretation notices: capped_board not_id not_ts NOTICES_MAX "\<lambda>old new. new"
  "\<lambda>xs x. upsertNotice (Some xs) (Some x)" "\<lambda>xs ys. mergeNotices (Some xs) ys"
  by unfold_locales
    (auto simp: upsertNotice_def mergeNotices_def overview_consts Let_def split: option.split)

abbreviation notices_board :: "notice list \<Rightarrow> bool" where
  "notices_board \<equiv> board_ok not_id not_ts NOTICES_MAX"

lemma upsertNotice_list:
  "upsertNotice list (Some x) = upsertNotice (Some (list_or_empty list)) (Some x)"
  by (simp add: upsertNotice_def)

lemma normalizeNotice_SomeD:
  assumes "normalizeNotice v author now = Some (Some n)"
  shows "not_id n \<noteq> [] \<and> length (not_id n) \<le> 40 \<and> not_text n \<noteq> [] \<and> length (not_text n) \<le> NOTICE_MAX \<and>
    trim (not_text n) = not_text n \<and> to_str (coalesce author (JStr [])) = Some (not_author n) \<and>
    not_ts n \<le> now + 60000 \<and> (0 < now \<longrightarrow> 0 < not_ts n)"
  using assms length_trim_take
  by (auto simp: normalizeNotice_def bind_eq_Some_conv Let_def sane_ts_bounds split: if_splits)

definition notice_wire :: "notice \<Rightarrow> jsval" where
  \<comment> \<open>a stored notice as a metadata rebroadcast carries it\<close>
  "notice_wire n = JObj [(''id'', JStr (not_id n)), (''text'', JStr (not_text n)),
     (''ts'', JNum (Fin (not_ts n))), (''author'', JStr (not_author n))]"

text \<open>
  A notice survives the rebroadcast. A notice some device normalised and stored, sent on in a
  metadata snapshot and normalised again by a receiver whose clock is not behind, is the same
  notice, author and timestamp included: gap-filling a joiner's board is lossless.
\<close>

theorem notice_rebroadcast_roundtrip:
  assumes "normalizeNotice v author now = Some (Some n)" and "0 < now" and "now \<le> now'"
  shows "normalizeNotice (notice_wire n) (oprop (notice_wire n) ''author'') now' = Some (Some n)"
  using normalizeNotice_SomeD [OF assms(1)] assms(2,3)
  by (simp add: normalizeNotice_def notice_wire_def str_prop_def num_prop_def sane_ts_def)

theorem notice_rebroadcast_roundtrip_witness:
  "\<exists>n. normalizeNotice (JObj [(''id'', JStr ''n1''), (''text'', JStr '' hi ''), (''ts'', JNum (Fin 7))]) (JStr ''bob'') 9 = Some (Some n) \<and>
     normalizeNotice (notice_wire n) (oprop (notice_wire n) ''author'') 100 = Some (Some n) \<and> not_author n = ''bob''"
proof -
  let ?n = "\<lparr>not_id = ''n1'', not_text = ''hi'', not_ts = 7, not_author = ''bob''\<rparr>"
  have h: "normalizeNotice (JObj [(''id'', JStr ''n1''), (''text'', JStr '' hi ''), (''ts'', JNum (Fin 7))]) (JStr ''bob'') 9 = Some (Some ?n)"
    by (simp add: normalizeNotice_def str_prop_def num_prop_def sane_ts_def NOTICE_MAX_def trim_def is_space_def)
  from notice_rebroadcast_roundtrip [OF h, of 100] h show ?thesis by auto
qed

section \<open>The schedule is bounded, free of duplicates and in order\<close>

definition schedule_ok :: "event list \<Rightarrow> bool" where
  "schedule_ok es \<longleftrightarrow> distinct (map ev_id es) \<and> length es \<le> EVENTS_MAX \<and>
     (\<forall>e \<in> set es. 0 < ev_at e \<and> ev_title e \<noteq> [] \<and> length (ev_title e) \<le> 120)"

lemma normalizeEvent_SomeD:
  assumes "normalizeEvent v = Some (Some e)"
  shows "0 < ev_at e \<and> ev_title e \<noteq> [] \<and> length (ev_title e) \<le> 120"
proof -
  from assms obtain n where "num_prop v ''at'' = Some n"
    by (auto simp: normalizeEvent_def bind_eq_Some_conv Let_def split: if_splits)
  with assms length_trim_take show ?thesis
    by (cases n) (auto simp: normalizeEvent_def bind_eq_Some_conv Let_def split: if_splits)
qed

lemma collectEvents_ok:
  assumes "collectEvents seen out vs = Some es" and "schedule_ok out" and "length out < EVENTS_MAX"
    and "set seen = ev_id ` set out"
  shows "schedule_ok es"
  using assms
proof (induction seen out vs rule: collectEvents.induct)
  case (1 seen out)
  then show ?case by simp
next
  case (2 seen out e vs)
  from "2.prems"(1) obtain ev where ev: "normalizeEvent e = Some ev"
    by (auto simp: bind_eq_Some_conv)
  show ?case
  proof (cases ev)
    case None
    with ev "2.prems" show ?thesis by (intro "2.IH"(1) [OF ev None]) auto
  next
    case (Some x)
    note new = normalizeEvent_SomeD [OF ev [unfolded Some]]
    have ok': "ev_id x \<notin> set seen \<Longrightarrow> schedule_ok (out @ [x])"
      using "2.prems" new by (auto simp: schedule_ok_def)
    show ?thesis
    proof (cases "ev_id x \<in> set seen")
      case True
      with ev Some "2.prems" show ?thesis by (intro "2.IH"(2) [OF ev Some True]) auto
    next
      case False
      show ?thesis
      proof (cases "EVENTS_MAX \<le> Suc (length out)")
        case True
        with False ev Some "2.prems" ok' show ?thesis by auto
      next
        case bound: False
        with False ev Some "2.prems" ok' show ?thesis
          by (intro "2.IH"(3) [OF ev Some False bound]) auto
      qed
    qed
  qed
qed

lemma normalizeEvents_ok:
  assumes "normalizeEvents v = Some es"
  shows "schedule_ok es \<and> sorted (map ev_at es)"
proof -
  from assms obtain out where out: "collectEvents [] [] (array_or_empty v) = Some out"
    and es: "es = sort_key ev_at out"
    by (auto simp: normalizeEvents_def bind_eq_Some_conv)
  have "schedule_ok out"
    by (rule collectEvents_ok [OF out]) (simp_all add: schedule_ok_def overview_consts)
  moreover have "distinct (map ev_id (sort_key ev_at out)) \<longleftrightarrow> distinct (map ev_id out)"
  proof -
    have "mset (map ev_id (sort_key ev_at out)) = mset (map ev_id out)" by simp
    then show ?thesis by (metis mset_eq_imp_distinct_iff)
  qed
  ultimately show ?thesis by (simp add: schedule_ok_def es)
qed

lemma normalizeOverview_SomeD:
  assumes "normalizeOverview ov now = Some (Some v)"
  shows "schedule_ok (ov_events v) \<and> sorted (map ev_at (ov_events v)) \<and>
    ov_event v = legacyEventMirror (ov_events v) now \<and> length (ov_blurb v) \<le> BLURB_MAX \<and>
    length (ov_links v) \<le> LINKS_MAX \<and> length (ov_games v) \<le> GAMES_MAX \<and>
    ov_glyph v \<in> {None, Some ''games'', Some ''photo'', Some ''project''}"
proof -
  from assms obtain links0 where links0: "mapM normalizeLink (take LINKS_MAX (array_or_empty (oprop ov ''links''))) = Some links0"
    and ev: "normalizeEvents (coalesce (oprop ov ''events'')
        (if truthy (oprop ov ''event'') then JArr [oprop ov ''event''] else JArr [])) = Some (ov_events v)"
    and games: "normalizeGames (oprop ov ''games'') = Some (ov_games v)"
    and v: "v = \<lparr>ov_blurb = (case oprop ov ''blurb'' of JStr s \<Rightarrow> trim (take BLURB_MAX s) | _ \<Rightarrow> []),
      ov_links = filter (\<lambda>l. link_url l \<noteq> []) links0,
      ov_glyph = nonempty (if normalizeGlyph (oprop ov ''glyph'') = DEFAULT_GLYPH then [] else normalizeGlyph (oprop ov ''glyph'')),
      ov_events = ov_events v, ov_event = legacyEventMirror (ov_events v) now, ov_games = ov_games v\<rparr>"
    by (auto simp: normalizeOverview_def bind_eq_Some_conv Let_def split: if_splits)
  have "length links0 \<le> LINKS_MAX" using length_mapM [OF links0] by simp
  then have "length (ov_links v) \<le> LINKS_MAX" by (subst v) (simp add: length_filter_bound)
  moreover have "ov_glyph v \<in> {None, Some ''games'', Some ''photo'', Some ''project''}"
    by (subst v) (auto simp: nonempty_def normalizeGlyph_def CIRCLE_GLYPH_KEYS_def DEFAULT_GLYPH_def split: jsval.splits if_splits)
  moreover have "length (ov_blurb v) \<le> BLURB_MAX"
    by (subst v) (auto simp: length_trim_take split: jsval.split)
  moreover have "ov_event v = legacyEventMirror (ov_events v) now" by (subst v) simp
  ultimately show ?thesis using normalizeEvents_ok [OF ev] normalizeGames_length [OF games] by simp
qed


lemma upcoming_of_sorted:
  assumes "sorted (map ev_at (ov_events v))" and "ov_events v \<noteq> []"
  shows "upcomingEvents (Some v) now = filter (\<lambda>e. now - EVENT_GRACE \<le> ev_at e) (ov_events v)"
proof -
  have "sorted (map ev_at (filter (\<lambda>e. now - EVENT_GRACE \<le> ev_at e) (ov_events v)))"
    using assms(1) by (rule sorted_filter)
  then show ?thesis using assms(2) by (simp add: upcomingEvents_def sort_key_id_if_sorted)
qed

text \<open>
  The page every member stores is bounded and orderly whatever an envelope carried (text, links,
  games and schedule within their caps, no event id twice, soonest first), and the mirror kept for old
  clients is the event new clients show as next.
\<close>

theorem overview_normal_form:
  assumes "normalizeOverview ov now = Some (Some v)"
  shows "schedule_ok (ov_events v) \<and> sorted (map ev_at (ov_events v)) \<and> length (ov_blurb v) \<le> BLURB_MAX \<and>
    length (ov_links v) \<le> LINKS_MAX \<and> length (ov_games v) \<le> GAMES_MAX \<and>
    (\<forall>e. soonestEvent (Some v) now = Some e \<longrightarrow> ov_event v = Some (strip_event e))"
proof -
  note d = normalizeOverview_SomeD [OF assms]
  have "ov_event v = Some (strip_event e)" if "soonestEvent (Some v) now = Some e" for e
  proof (cases "ov_events v = []")
    case True
    with d that show ?thesis by (simp add: soonestEvent_def upcomingEvents_def legacyEventMirror_def)
  next
    case False
    with d upcoming_of_sorted [of v now] that
    have "\<exists>es. filter (\<lambda>e. now - EVENT_GRACE \<le> ev_at e) (ov_events v) = e # es"
      by (auto simp: soonestEvent_def split: list.splits)
    with d False show ?thesis by (auto simp: legacyEventMirror_def Let_def)
  qed
  with d show ?thesis by simp
qed

theorem overview_normal_form_witness:
  "\<exists>v. normalizeOverview (JObj [(''event'', JObj [(''id'', JStr ''e1''), (''title'', JStr ''race''), (''at'', JNum (Fin 50))])]) 10 = Some (Some v) \<and>
     schedule_ok (ov_events v) \<and> ov_event v = Some \<lparr>leg_title = ''race'', leg_at = 50, leg_note = None\<rparr>"
proof -
  have norm: "normalizeOverview (JObj [(''event'', JObj [(''id'', JStr ''e1''), (''title'', JStr ''race''), (''at'', JNum (Fin 50))])]) 10 =
      Some (Some \<lparr>ov_blurb = [], ov_links = [], ov_glyph = None,
        ov_events = [\<lparr>ev_id = ''e1'', ev_title = ''race'', ev_at = 50, ev_note = None, ev_game = None\<rparr>],
        ov_event = Some \<lparr>leg_title = ''race'', leg_at = 50, leg_note = None\<rparr>, ov_games = []\<rparr>)"
    by (simp add: normalizeOverview_def normalizeEvents_def normalizeEvent_def str_prop_def num_prop_def
        trim_def is_space_def normalizeGames_def normalizeGlyph_def DEFAULT_GLYPH_def nonempty_def js_round_def
        overview_consts legacyEventMirror_def strip_event_def time_consts Let_def)
  from overview_normal_form [OF norm] norm show ?thesis by auto
qed

end
