(* ===== verification/Circle.thy ===== *)
theory Circle
  imports Overview Offers Quorum
begin

text \<open>
  The circle record the controller keeps in memory: the fields \<open>circles.js\<close> calls shared,
  device and derived. A field that may be missing is an \<open>option\<close>. Names of rooms and the
  circle's own name come from envelopes unchecked, so they are values, not strings.
\<close>

record circle =
  c_id :: string
  c_name :: jsval
  channels :: "jsval list"
  voiceChannels :: "jsval list option"
  chanMeta :: "jsval dict option"
  keys :: "string dict option"
  overview :: "overview option"
  notices :: "notice list option"
  offers :: "offer list option"
  proposals :: "proposal list option"
  threshold :: "nat option"
  rsvps :: "rsvp dict option"
  invites :: "jsval list option"
  deletedChannels :: "jsval list option"
  deletedVoice :: "jsval list option"
  lastSeq :: "nat option"
  epoch :: "nat option"
  seen :: "rat dict option"
  verified :: "string list option"
  verifiedSn :: "string dict option"
  mismatched :: "string dict option"
  joinedAt :: "rat option"
  members :: "string list"
  roles :: "string dict"
  restored :: bool
  pendingMetaSync :: bool

definition voice_rooms :: "circle \<Rightarrow> jsval list" where
  \<comment> \<open>\<open>record.voiceChannels ?? ['lounge']\<close>\<close>
  "voice_rooms r = (case voiceChannels r of None \<Rightarrow> [JStr ''lounge''] | Some vs \<Rightarrow> vs)"

definition empty_circle :: "string \<Rightarrow> circle" where
  \<comment> \<open>a circle of one room, for examples\<close>
  "empty_circle i = \<lparr>c_id = i, c_name = JStr i, channels = [JStr ''general''], voiceChannels = None,
     chanMeta = None, keys = None, overview = None, notices = None, offers = None, proposals = None,
     threshold = None, rsvps = None, invites = None, deletedChannels = None, deletedVoice = None,
     lastSeq = None, epoch = None, seen = None, verified = None, verifiedSn = None, mismatched = None,
     joinedAt = None, members = [], roles = [], restored = False, pendingMetaSync = False\<rparr>"

end
