(* ===== verification/Json.thy ===== *)
theory Json
  imports JS_Prelude
begin

text \<open>
  \<open>JSON.stringify\<close> and \<open>JSON.parse\<close> as the client uses them: on the wire of every envelope, log entry, backup
  and recovery file. The printer follows the enumeration order of an object and drops \<open>undefined\<close>; the
  parser is a recursive descent over the grammar, with \<open>None\<close> for a \<open>SyntaxError\<close>. It is bounded by fuel, and
  \<open>parse_json\<close> gives it twice the length of the text: every call that does not consume a character is
  followed by one that does (\<open>parse_fuel\<close>). A \<open>\u\<close> escape above 255 has no \<open>char\<close> and is refused.
\<close>

section \<open>Strings\<close>

definition quote_char :: "char \<Rightarrow> string" where
  "quote_char c =
     (if c = CHR 0x22 then [CHR 0x5C, CHR 0x22]
      else if c = CHR 0x5C then [CHR 0x5C, CHR 0x5C]
      else if c = CHR 0x08 then [CHR 0x5C, CHR ''b'']
      else if c = CHR 0x0C then [CHR 0x5C, CHR ''f'']
      else if c = CHR 0x0A then [CHR 0x5C, CHR ''n'']
      else if c = CHR 0x0D then [CHR 0x5C, CHR ''r'']
      else if c = CHR 0x09 then [CHR 0x5C, CHR ''t'']
      else let n = of_char c :: nat
           in if n < 32 then [CHR 0x5C, CHR ''u'', CHR ''0'', CHR ''0'', digit_char (n div 16), digit_char (n mod 16)]
              else [c])"

definition json_str :: "string \<Rightarrow> string" where
  "json_str s = CHR 0x22 # concat (map quote_char s) @ [CHR 0x22]"

definition unescape :: "char \<Rightarrow> char option" where
  "unescape e = map_of [(CHR 0x22, CHR 0x22), (CHR 0x5C, CHR 0x5C), (CHR ''/'', CHR ''/''), (CHR ''b'', CHR 0x08),
     (CHR ''f'', CHR 0x0C), (CHR ''n'', CHR 0x0A), (CHR ''r'', CHR 0x0D), (CHR ''t'', CHR 0x09)] e"

definition unicode_escape :: "string \<Rightarrow> char option" where
  "unicode_escape ds =
     (let ls = map lower_char ds; n = radix_val 16 ls
      in if length ds = 4 \<and> list_all (is_digit 16) ls \<and> n < 256 then Some (char_of n) else None)"

function unquote :: "string \<Rightarrow> (string \<times> string) option" where
  \<comment> \<open>the rest of a string literal, after its opening quote\<close>
  "unquote s =
     (case s of [] \<Rightarrow> None
      | c # t \<Rightarrow>
          if c = CHR 0x22 then Some ([], t)
          else if c = CHR 0x5C then
            (case t of [] \<Rightarrow> None
             | e # u \<Rightarrow>
                 if e = CHR ''u'' then
                   do { x \<leftarrow> unicode_escape (take 4 u); (xs, r) \<leftarrow> unquote (drop 4 u); Some (x # xs, r) }
                 else do { x \<leftarrow> unescape e; (xs, r) \<leftarrow> unquote u; Some (x # xs, r) })
          else if (of_char c :: nat) < 32 then None
          else do { (xs, r) \<leftarrow> unquote t; Some (c # xs, r) })"
  by pat_completeness auto

termination
  by (relation "measure length") auto

declare unquote.simps [simp del]

section \<open>Numbers\<close>

definition frac_part :: "string \<Rightarrow> (string \<times> string) option" where
  "frac_part r =
     (if r \<noteq> [] \<and> hd r = CHR ''.''
      then let fp = takeWhile (is_digit 10) (tl r)
           in if fp = [] then None else Some (fp, dropWhile (is_digit 10) (tl r))
      else Some ([], r))"

definition exponent :: "string \<Rightarrow> (int \<times> string) option" where
  "exponent r =
     (if r \<noteq> [] \<and> hd r \<in> {CHR ''e'', CHR ''E''}
      then let t = tl r; sgn = (t \<noteq> [] \<and> hd t \<in> {CHR ''-'', CHR ''+''}); u = (if sgn then tl t else t);
               ds = takeWhile (is_digit 10) u; e = int (radix_val 10 ds)
           in if ds = [] then None
              else Some (if sgn \<and> hd t = CHR ''-'' then - e else e, dropWhile (is_digit 10) u)
      else Some (0, r))"

definition pow10 :: "int \<Rightarrow> rat" where
  "pow10 e = (if 0 \<le> e then 10 ^ nat e else 1 / 10 ^ nat (- e))"

definition parse_number :: "string \<Rightarrow> (jsval \<times> string) option" where
  "parse_number s =
     (let neg = (s \<noteq> [] \<and> hd s = CHR ''-''); t = (if neg then tl s else s);
          ip = takeWhile (is_digit 10) t
      in if ip = [] \<or> (1 < length ip \<and> hd ip = CHR ''0'') then None
         else do { (fp, r) \<leftarrow> frac_part (dropWhile (is_digit 10) t);
                   (e, r') \<leftarrow> exponent r;
                   let x = rat_of_nat (radix_val 10 (ip @ fp)) / 10 ^ length fp * pow10 e;
                   Some (JNum (Fin (if neg then - x else x)), r') })"

section \<open>Values\<close>

definition json_space :: "char \<Rightarrow> bool" where
  "json_space c \<longleftrightarrow> c \<in> {CHR 0x20, CHR 0x09, CHR 0x0A, CHR 0x0D}"

abbreviation skip :: "string \<Rightarrow> string" where
  "skip s \<equiv> dropWhile json_space s"

definition literal :: "string \<Rightarrow> (jsval \<times> string) option" where
  "literal s =
     (if take 4 s = ''true'' then Some (JBool True, drop 4 s)
      else if take 5 s = ''false'' then Some (JBool False, drop 5 s)
      else if take 4 s = ''null'' then Some (JNull, drop 4 s)
      else parse_number s)"

fun parse_value :: "nat \<Rightarrow> string \<Rightarrow> (jsval \<times> string) option"
  and parse_elems :: "nat \<Rightarrow> string \<Rightarrow> (jsval list \<times> string) option"
  and parse_members :: "nat \<Rightarrow> jsval dict \<Rightarrow> string \<Rightarrow> (jsval dict \<times> string) option" where
  "parse_value 0 s = None"
| "parse_value (Suc n) s =
     (case skip s of [] \<Rightarrow> None
      | c # r \<Rightarrow>
          if c = CHR 0x7B then
            (case skip r of [] \<Rightarrow> None
             | d # r' \<Rightarrow> if d = CHR 0x7D then Some (JObj [], r')
                        else do { (kvs, q) \<leftarrow> parse_members n [] r; Some (JObj kvs, q) })
          else if c = CHR 0x5B then
            (case skip r of [] \<Rightarrow> None
             | d # r' \<Rightarrow> if d = CHR 0x5D then Some (JArr [], r')
                        else do { (vs, q) \<leftarrow> parse_elems n r; Some (JArr vs, q) })
          else if c = CHR 0x22 then do { (xs, q) \<leftarrow> unquote r; Some (JStr xs, q) }
          else literal (c # r))"
| "parse_elems 0 s = None"
| "parse_elems (Suc n) s =
     do { (v, r) \<leftarrow> parse_value n s;
          case skip r of [] \<Rightarrow> None
          | d # q \<Rightarrow> if d = CHR 0x5D then Some ([v], q)
                     else if d = CHR '','' then do { (vs, q') \<leftarrow> parse_elems n q; Some (v # vs, q') }
                     else None }"
| "parse_members 0 acc s = None"
| "parse_members (Suc n) acc s =
     (case skip s of [] \<Rightarrow> None
      | c # r \<Rightarrow>
          if c \<noteq> CHR 0x22 then None
          else do { (k, r1) \<leftarrow> unquote r;
                    case skip r1 of [] \<Rightarrow> None
                    | d # r2 \<Rightarrow>
                        if d \<noteq> CHR '':'' then None
                        else do { (v, r3) \<leftarrow> parse_value n r2;
                                  case skip r3 of [] \<Rightarrow> None
                                  | e # q \<Rightarrow> if e = CHR 0x7D then Some (AList.update k v acc, q)
                                             else if e = CHR '','' then parse_members n (AList.update k v acc) q
                                             else None } })"

definition parse_json :: "string \<Rightarrow> jsval option" where
  \<comment> \<open>\<open>JSON.parse\<close>\<close>
  "parse_json s =
     do { (v, r) \<leftarrow> parse_value (2 * length s + 1) s; if skip r = [] then Some v else None }"

fun is_undef :: "jsval \<Rightarrow> bool" where
  "is_undef JUndef = True"
| "is_undef _ = False"

fun stringify :: "jsval \<Rightarrow> string" where
  \<comment> \<open>\<open>JSON.stringify\<close> of a value that is not \<open>undefined\<close>; inside an array \<open>undefined\<close> prints as \<open>null\<close>\<close>
  "stringify JUndef = ''null''"
| "stringify JNull = ''null''"
| "stringify (JBool b) = (if b then ''true'' else ''false'')"
| "stringify (JNum n) = (if is_finite n then num_str n else ''null'')"
| "stringify (JStr s) = json_str s"
| "stringify (JArr vs) = CHR 0x5B # join '','' (map stringify vs) @ [CHR 0x5D]"
| "stringify (JObj kvs) =
     CHR 0x7B # join '','' (map (\<lambda>(k, v). json_str k @ '':'' @ v)
       (entries (map (\<lambda>(k, v). (k, stringify v)) (filter (\<lambda>(k, v). \<not> is_undef v) kvs)))) @ [CHR 0x7D]"

section \<open>The fuel is enough\<close>

lemma length_dropWhile_less: "dropWhile P s = c # r \<Longrightarrow> length r < length s"
  using length_dropWhile_le [of P s] by simp

lemma unquote_shorter: "unquote s = Some (xs, r) \<Longrightarrow> length r < length s"
proof (induction s arbitrary: xs r rule: unquote.induct)
  case (1 s)
  show ?case
  proof (cases s)
    case Nil
    with "1.prems" show ?thesis by (simp add: unquote.simps)
  next
    case (Cons c t)
    show ?thesis
    proof (cases "c = CHR 0x22 \<or> c \<noteq> CHR 0x5C")
      case True
      with "1.prems" "1.IH"(3) [OF Cons] Cons show ?thesis
        by (subst (asm) unquote.simps) (fastforce simp: bind_eq_Some_conv split: if_splits)
    next
      case False
      then obtain e u where t: "t = e # u"
        using "1.prems" Cons by (subst (asm) unquote.simps) (auto split: list.splits)
      have step: "(if e = CHR ''u'' then
                   do { x \<leftarrow> unicode_escape (take 4 u); (xs, r) \<leftarrow> unquote (drop 4 u); Some (x # xs, r) }
                 else do { x \<leftarrow> unescape e; (xs, r) \<leftarrow> unquote u; Some (x # xs, r) }) = Some (xs, r)"
        using "1.prems" Cons t False by (subst (asm) unquote.simps) simp
      show ?thesis
      proof (cases "e = CHR ''u''")
        case True
        with step obtain ys x where "unquote (drop 4 u) = Some (ys, r)" "unicode_escape (take 4 u) = Some x"
          by (auto simp: bind_eq_Some_conv)
        with "1.IH"(1) [OF Cons _ _ t True] False have "length r < length (drop 4 u)" by blast
        with Cons t show ?thesis by simp
      next
        case neq: False
        with step obtain ys x where "unquote u = Some (ys, r)" "unescape e = Some x"
          by (auto simp: bind_eq_Some_conv)
        with "1.IH"(2) [OF Cons _ _ t neq] False have "length r < length u" by blast
        with Cons t show ?thesis by simp
      qed
    qed
  qed
qed

lemma exponent_le: "exponent r = Some (e, q) \<Longrightarrow> length q \<le> length r"
  by (auto simp: exponent_def Let_def split: if_splits intro: order_trans [OF length_dropWhile_le])

lemma frac_part_le: "frac_part r = Some (fp, q) \<Longrightarrow> length q \<le> length r"
  by (auto simp: frac_part_def Let_def split: if_splits intro: order_trans [OF length_dropWhile_le])

lemma parse_number_shorter: "parse_number s = Some (v, q) \<Longrightarrow> length q < length s"
proof -
  assume a: "parse_number s = Some (v, q)"
  define t where "t = (if s \<noteq> [] \<and> hd s = CHR ''-'' then tl s else s)"
  from a obtain fp r e where ip: "takeWhile (is_digit 10) t \<noteq> []"
    and r: "frac_part (dropWhile (is_digit 10) t) = Some (fp, r)" and e: "exponent r = Some (e, q)"
    by (auto simp: parse_number_def Let_def t_def bind_eq_Some_conv split: if_splits)
  have "length (dropWhile (is_digit 10) t) < length t"
    using ip by (metis length_append length_greater_0_conv less_add_same_cancel2 takeWhile_dropWhile_id)
  moreover have "length t \<le> length s" by (simp add: t_def)
  ultimately show ?thesis using frac_part_le [OF r] exponent_le [OF e] by simp
qed

lemma literal_shorter: "literal s = Some (v, q) \<Longrightarrow> length q < length s"
proof -
  assume "literal s = Some (v, q)"
  moreover have "length (drop n s) < length s" if "take n s = c # w" "0 < n" for n c w using that by (cases s) auto
  ultimately show ?thesis using parse_number_shorter by (auto simp: literal_def simp del: length_drop split: if_splits)
qed

lemma parse_value_fuel:
  assumes elems: "\<And>s vs r. parse_elems n s = Some (vs, r) \<Longrightarrow>
      length r < length s \<and> (\<forall>m > 2 * length s. parse_elems m s = Some (vs, r))"
    and members: "\<And>s acc kvs r. parse_members n acc s = Some (kvs, r) \<Longrightarrow>
      length r < length s \<and> (\<forall>m > 2 * length s. parse_members m acc s = Some (kvs, r))"
    and "parse_value (Suc n) s = Some (v, r)"
  shows "length r < length s \<and> (\<forall>m \<ge> 2 * length s. parse_value m s = Some (v, r))"
proof -
  obtain c t where c: "skip s = c # t" using assms(3) by (auto split: list.splits)
  have t: "length t < length s" using length_dropWhile_less [OF c] .
  have fuel: "\<exists>k. m = Suc k \<and> 2 * length t < k" if "2 * length s \<le> m" for m
    using t that by (cases m) auto
  consider (obj) "c = CHR 0x7B" | (arr) "c = CHR 0x5B" | (other) "c \<noteq> CHR 0x7B" "c \<noteq> CHR 0x5B" by blast
  then show ?thesis
  proof cases
    case obj
    then obtain d u where d: "skip t = d # u" using assms(3) c by (auto split: list.splits)
    have u: "length u < length t" using length_dropWhile_less [OF d] .
    show ?thesis
    proof (cases "d = CHR 0x7D")
      case True
      with assms(3) c obj d u t show ?thesis by (auto dest!: fuel)
    next
      case False
      then obtain kvs where k: "v = JObj kvs" "parse_members n [] t = Some (kvs, r)"
        using assms(3) c obj d by (auto simp: bind_eq_Some_conv)
      from members [OF k(2)] t k(1) False c obj d show ?thesis by (auto dest!: fuel)
    qed
  next
    case arr
    then obtain d u where d: "skip t = d # u" using assms(3) c by (auto split: list.splits)
    have u: "length u < length t" using length_dropWhile_less [OF d] .
    show ?thesis
    proof (cases "d = CHR 0x5D")
      case True
      with assms(3) c arr d u t show ?thesis by (auto dest!: fuel)
    next
      case False
      then obtain vs where k: "v = JArr vs" "parse_elems n t = Some (vs, r)"
        using assms(3) c arr d by (auto simp: bind_eq_Some_conv)
      from elems [OF k(2)] t k(1) False c arr d show ?thesis by (auto dest!: fuel)
    qed
  next
    case other
    have len: "length (skip s) \<le> length s" by (rule length_dropWhile_le)
    have "length r < length s"
      using assms(3) c other t len literal_shorter [of "c # t" v r]
      by (auto simp: bind_eq_Some_conv split: if_splits dest: unquote_shorter)
    moreover have "parse_value m s = Some (v, r)" if "2 * length s \<le> m" for m
      using fuel [OF that] assms(3) c other by auto
    ultimately show ?thesis by blast
  qed
qed

lemma parse_elems_fuel:
  assumes elems: "\<And>s vs r. parse_elems n s = Some (vs, r) \<Longrightarrow>
      length r < length s \<and> (\<forall>m > 2 * length s. parse_elems m s = Some (vs, r))"
    and vals: "\<And>s v r. parse_value n s = Some (v, r) \<Longrightarrow>
      length r < length s \<and> (\<forall>m \<ge> 2 * length s. parse_value m s = Some (v, r))"
    and "parse_elems (Suc n) s = Some (vs, r)"
  shows "length r < length s \<and> (\<forall>m > 2 * length s. parse_elems m s = Some (vs, r))"
proof -
  obtain v q where v: "parse_value n s = Some (v, q)" using assms(3) by (auto simp: bind_eq_Some_conv)
  note V = vals [OF v]
  obtain d u where d: "skip q = d # u" using assms(3) v by (auto split: list.splits)
  have u: "length u < length q" using length_dropWhile_less [OF d] .
  have fuel: "\<exists>k. m = Suc k \<and> 2 * length s \<le> k \<and> 2 * length u < k" if "2 * length s < m" for m
    using V u that by (cases m) auto
  show ?thesis
  proof (cases "d = CHR 0x5D")
    case True
    with assms(3) v d u V show ?thesis by (auto dest!: fuel)
  next
    case False
    then obtain ws where w: "d = CHR '',''" "vs = v # ws" "parse_elems n u = Some (ws, r)"
      using assms(3) v d by (auto simp: bind_eq_Some_conv split: if_splits)
    from elems [OF w(3)] u V d w(1,2) show ?thesis by (auto dest!: fuel)
  qed
qed

lemma parse_members_fuel:
  assumes members: "\<And>s acc kvs r. parse_members n acc s = Some (kvs, r) \<Longrightarrow>
      length r < length s \<and> (\<forall>m > 2 * length s. parse_members m acc s = Some (kvs, r))"
    and vals: "\<And>s v r. parse_value n s = Some (v, r) \<Longrightarrow>
      length r < length s \<and> (\<forall>m \<ge> 2 * length s. parse_value m s = Some (v, r))"
    and "parse_members (Suc n) acc s = Some (kvs, r)"
  shows "length r < length s \<and> (\<forall>m > 2 * length s. parse_members m acc s = Some (kvs, r))"
proof -
  obtain t where c: "skip s = CHR 0x22 # t" using assms(3) by (auto split: list.splits if_splits)
  obtain k r1 where k: "unquote t = Some (k, r1)" using assms(3) c by (auto simp: bind_eq_Some_conv)
  obtain r2 where r2: "skip r1 = CHR '':'' # r2" using assms(3) c k by (auto split: list.splits if_splits)
  obtain v r3 where v: "parse_value n r2 = Some (v, r3)" using assms(3) c k r2 by (auto simp: bind_eq_Some_conv)
  note V = vals [OF v]
  obtain d u where d: "skip r3 = d # u" using assms(3) c k r2 v by (auto split: list.splits)
  have len: "length t < length s" "length r1 < length t" "length r2 < length r1" "length u < length r3"
    using length_dropWhile_less [OF c] unquote_shorter [OF k] length_dropWhile_less [OF r2] length_dropWhile_less [OF d] by auto
  have fuel: "\<exists>k. m = Suc k \<and> 2 * length r2 \<le> k \<and> 2 * length u < k" if "2 * length s < m" for m
    using V len that by (cases m) auto
  show ?thesis
  proof (cases "d = CHR 0x7D")
    case True
    with assms(3) c k r2 v d len V show ?thesis by (auto dest!: fuel)
  next
    case False
    then have w: "d = CHR '',''" "parse_members n (AList.update k v acc) u = Some (kvs, r)"
      using assms(3) c k r2 v d by (auto split: if_splits)
    from members [OF w(2)] w(1) c k r2 v d len V show ?thesis by (auto dest!: fuel)
  qed
qed

lemma parse_fuel:
  "(\<forall>s v r. parse_value n s = Some (v, r) \<longrightarrow> length r < length s \<and> (\<forall>m \<ge> 2 * length s. parse_value m s = Some (v, r))) \<and>
   (\<forall>s vs r. parse_elems n s = Some (vs, r) \<longrightarrow> length r < length s \<and> (\<forall>m > 2 * length s. parse_elems m s = Some (vs, r))) \<and>
   (\<forall>s acc kvs r. parse_members n acc s = Some (kvs, r) \<longrightarrow> length r < length s \<and> (\<forall>m > 2 * length s. parse_members m acc s = Some (kvs, r)))"
proof (induction n)
  case (Suc n)
  then have e: "\<And>s vs r. parse_elems n s = Some (vs, r) \<Longrightarrow> length r < length s \<and> (\<forall>m > 2 * length s. parse_elems m s = Some (vs, r))"
    and v: "\<And>s v r. parse_value n s = Some (v, r) \<Longrightarrow> length r < length s \<and> (\<forall>m \<ge> 2 * length s. parse_value m s = Some (v, r))"
    and m: "\<And>s acc kvs r. parse_members n acc s = Some (kvs, r) \<Longrightarrow> length r < length s \<and> (\<forall>m > 2 * length s. parse_members m acc s = Some (kvs, r))"
    by blast+
  from parse_value_fuel [OF e m] parse_elems_fuel [OF e v] parse_members_fuel [OF m v] show ?case by blast
qed simp

section \<open>Printing and parsing back\<close>

fun render :: "jsval \<Rightarrow> string" where
  \<comment> \<open>a value in the order its objects list their fields\<close>
  "render JUndef = ''null''"
| "render JNull = ''null''"
| "render (JBool b) = (if b then ''true'' else ''false'')"
| "render (JNum n) = (if is_finite n then num_str n else ''null'')"
| "render (JStr s) = json_str s"
| "render (JArr vs) = CHR 0x5B # join '','' (map render vs) @ [CHR 0x5D]"
| "render (JObj kvs) = CHR 0x7B # join '','' (map (\<lambda>(k, v). json_str k @ '':'' @ render v) kvs) @ [CHR 0x7D]"

fun wireable :: "jsval \<Rightarrow> bool" where
  \<comment> \<open>what a document can denote, with whole numbers\<close>
  "wireable JUndef = False"
| "wireable JNull = True"
| "wireable (JBool b) = True"
| "wireable (JNum n) = (case n of Fin q \<Rightarrow> snd (quotient_of q) = 1 | _ \<Rightarrow> False)"
| "wireable (JStr s) = True"
| "wireable (JArr vs) = list_all wireable vs"
| "wireable (JObj kvs) = (distinct (map fst kvs) \<and> list_all (\<lambda>kv. wireable (snd kv)) kvs)"

definition ends :: "string \<Rightarrow> bool" where
  "ends rest \<longleftrightarrow> rest = [] \<or> hd rest \<in> {CHR '','', CHR 0x5D, CHR 0x7D}"

lemma quote_char_plain: "32 \<le> (of_char c :: nat) \<Longrightarrow> c \<noteq> CHR 0x22 \<Longrightarrow> c \<noteq> CHR 0x5C \<Longrightarrow> quote_char c = [c]"
  by (auto simp: quote_char_def Let_def)

lemma hex_digit_in: "d < 16 \<Longrightarrow> digit_char d \<in> set ''0123456789abcdef''"
proof -
  assume d: "d < 16"
  have hex: "''0123456789abcdef'' = take 16 digit_chars" by (simp add: digit_chars_def)
  have "digit_char d = take 16 digit_chars ! d" using d by (simp add: digit_char_def)
  moreover have "d < length (take 16 digit_chars)" using d by (simp add: length_digit_chars)
  ultimately show ?thesis unfolding hex by (metis nth_mem)
qed

lemma hex_digit_visible: "c \<in> set ''0123456789abcdef'' \<Longrightarrow> lower_char c = c \<and> 32 \<le> (of_char c :: nat)"
  unfolding list.set insert_iff empty_iff by (elim disjE; simp add: lower_char_def)

lemma lower_digit: "d < 16 \<Longrightarrow> lower_char (digit_char d) = digit_char d"
  using hex_digit_in hex_digit_visible by blast

lemma unicode_escape_hex:
  assumes "n < 32"
  shows "unicode_escape [CHR ''0'', CHR ''0'', digit_char (n div 16), digit_char (n mod 16)] = Some (char_of n)"
proof -
  have d: "n div 16 < 16" "n mod 16 < 16" using assms by auto
  have z: "CHR ''0'' = digit_char 0" by (simp add: digit_char_def digit_chars_def)
  have "radix_val 16 [digit_char 0, digit_char 0, digit_char (n div 16), digit_char (n mod 16)] = n"
    using d by (simp add: radix_val_def)
  then show ?thesis using d assms unfolding z by (simp add: unicode_escape_def lower_digit Let_def)
qed

lemma unquote_plain:
  "32 \<le> (of_char c :: nat) \<Longrightarrow> c \<noteq> CHR 0x22 \<Longrightarrow> c \<noteq> CHR 0x5C \<Longrightarrow>
     unquote (c # t) = do { (xs, r) \<leftarrow> unquote t; Some (c # xs, r) }"
  by (subst unquote.simps) simp

lemma unquote_escaped:
  "e \<noteq> CHR ''u'' \<Longrightarrow> unquote (CHR 0x5C # e # t) = do { x \<leftarrow> unescape e; (xs, r) \<leftarrow> unquote t; Some (x # xs, r) }"
  by (subst unquote.simps) simp

lemma unquote_unicode:
  "unquote (CHR 0x5C # CHR ''u'' # t) = do { x \<leftarrow> unicode_escape (take 4 t); (xs, r) \<leftarrow> unquote (drop 4 t); Some (x # xs, r) }"
  by (subst unquote.simps) simp

lemma unquote_quote_char: "unquote (quote_char c @ t) = do { (xs, r) \<leftarrow> unquote t; Some (c # xs, r) }"
proof (cases "c \<in> {CHR 0x22, CHR 0x5C, CHR 0x08, CHR 0x0C, CHR 0x0A, CHR 0x0D, CHR 0x09}")
  case True
  then show ?thesis by (elim insertE) (simp_all add: quote_char_def unquote_escaped unescape_def)
next
  case False
  show ?thesis
  proof (cases "(of_char c :: nat) < 32")
    case True
    let ?n = "of_char c :: nat"
    define a b where "a = digit_char (?n div 16)" and "b = digit_char (?n mod 16)"
    have "quote_char c = [CHR 0x5C, CHR ''u'', CHR ''0'', CHR ''0'', a, b]"
      using False True by (simp add: quote_char_def Let_def a_def b_def)
    moreover have "unicode_escape [CHR ''0'', CHR ''0'', a, b] = Some c"
      using unicode_escape_hex [OF True] by (simp add: a_def b_def)
    ultimately show ?thesis by (simp add: unquote_unicode)
  next
    case big: False
    with False have "quote_char c = [c]" by (intro quote_char_plain) auto
    with unquote_plain [of c t] big False show ?thesis by simp
  qed
qed

lemma unquote_json_str: "unquote (concat (map quote_char s) @ CHR 0x22 # rest) = Some (s, rest)"
proof (induction s)
  case Nil
  then show ?case by (subst unquote.simps) simp
next
  case (Cons c s)
  then show ?case by (simp add: unquote_quote_char)
qed

lemma nat_str_lead: "hd (nat_str m) = CHR ''0'' \<Longrightarrow> length (nat_str m) = 1"
proof (induction m rule: less_induct)
  case (less m)
  show ?case
  proof (cases "m < 10")
    case True
    then show ?thesis by (subst radix_str.simps) simp
  next
    case False
    then have eq: "nat_str m = nat_str (m div 10) @ [digit_char (m mod 10)]" by (subst radix_str.simps) simp
    with less.prems have "hd (nat_str (m div 10)) = CHR ''0''" by (simp add: hd_append)
    with less.IH [of "m div 10"] False have len: "length (nat_str (m div 10)) = 1" by simp
    then obtain x where x: "nat_str (m div 10) = [x]" by (auto simp: length_Suc_conv)
    with \<open>hd (nat_str (m div 10)) = CHR ''0''\<close> have "radix_val 10 (nat_str (m div 10)) = 0"
      by (simp add: radix_val_def digit_val_def digit_chars_def)
    then have "m div 10 = 0" by (simp add: radix_val_str)
    with False show ?thesis by simp
  qed
qed

lemma digits_then_end:
  assumes "ends rest"
  shows "takeWhile (is_digit 10) (nat_str m @ rest) = nat_str m" "dropWhile (is_digit 10) (nat_str m @ rest) = rest"
proof -
  have all: "\<forall>c \<in> set (nat_str m). is_digit 10 c" using nat_str_digits by blast
  have "rest = [] \<or> \<not> is_digit 10 (hd rest)"
    using assms by (auto simp: ends_def is_digit_def digit_chars_def)
  then have "takeWhile (is_digit 10) rest = []" "dropWhile (is_digit 10) rest = rest" by (cases rest; simp)+
  with all show "takeWhile (is_digit 10) (nat_str m @ rest) = nat_str m" "dropWhile (is_digit 10) (nat_str m @ rest) = rest"
    by (simp_all add: takeWhile_append2 dropWhile_append2)
qed

lemma parse_whole_number:
  assumes "snd (quotient_of q) = 1" and "ends rest"
  shows "parse_number (rat_str q @ rest) = Some (JNum (Fin q), rest)"
proof -
  obtain n where n: "quotient_of q = (n, 1)" using assms(1) by (cases "quotient_of q") auto
  then have q: "q = of_int n" using quotient_of_div by fastforce
  have "hd (nat_str (nat \<bar>n\<bar>)) \<noteq> CHR ''-''"
    using nat_str_no_minus [of "nat \<bar>n\<bar>"] by (metis list.set_sel(1) radix_str_nonempty)
  moreover have "frac_part rest = Some ([], rest)" "exponent rest = Some (0, rest)"
    using assms(2) by (auto simp: frac_part_def exponent_def ends_def)
  moreover have "rat_of_nat (nat \<bar>n\<bar>) = rat_of_int \<bar>n\<bar>" by simp
  ultimately show ?thesis
    using digits_then_end [OF assms(2), of "nat \<bar>n\<bar>"] nat_str_lead [of "nat \<bar>n\<bar>"]
    by (auto simp: parse_number_def Let_def rat_str_def abs_str_def n q pow10_def radix_val_str radix_str_nonempty [symmetric])
qed

lemma not_space_digit: "is_digit 10 c \<Longrightarrow> \<not> json_space c \<and> c \<notin> {CHR 0x22, CHR 0x5B, CHR 0x5D, CHR 0x7B, CHR 0x7D, CHR ''t'', CHR ''f'', CHR ''n''}"
  by (auto simp: json_space_def is_digit_def digit_chars_def)

lemma number_head:
  "is_digit 10 c \<or> c = CHR ''-'' \<Longrightarrow>
     \<not> json_space c \<and> c \<noteq> CHR 0x22 \<and> c \<noteq> CHR 0x5B \<and> c \<noteq> CHR 0x7B \<and> c \<notin> {CHR ''t'', CHR ''f'', CHR ''n''}"
  using not_space_digit [of c] by (elim disjE) (blast, simp add: json_space_def)

lemma literal_number:
  assumes "s = c # t" "c \<notin> {CHR ''t'', CHR ''f'', CHR ''n''}"
  shows "literal s = parse_number s"
  using assms by (auto simp: literal_def)

lemma render_head: "wireable v \<Longrightarrow> \<exists>c t. render v = c # t \<and> \<not> json_space c \<and> c \<noteq> CHR 0x5D \<and> c \<noteq> CHR 0x7D"
proof (cases v)
  case (JNum n)
  assume "wireable v"
  with JNum obtain q where q: "n = Fin q" by (auto split: jsnum.splits)
  obtain c t where c: "rat_str q = c # t" "is_digit 10 c \<or> c = CHR ''-''" using rat_str_head [of q] by blast
  have "\<not> json_space c \<and> c \<noteq> CHR 0x5D \<and> c \<noteq> CHR 0x7D"
    using c(2) not_space_digit [of c] by (elim disjE) (blast, simp add: json_space_def)
  with c(1) q JNum show ?thesis by simp
qed (auto simp: json_space_def json_str_def)

lemma skip_render: "wireable v \<Longrightarrow> skip (render v @ r) = render v @ r"
  using render_head [of v] by auto

definition reads :: "jsval \<Rightarrow> bool" where
  "reads v \<longleftrightarrow> (\<forall>rest m. ends rest \<longrightarrow> 2 * length (render v @ rest) \<le> m \<longrightarrow> parse_value m (render v @ rest) = Some (v, rest))"

lemma readsI: "(\<And>rest. ends rest \<Longrightarrow> \<exists>n. parse_value n (render v @ rest) = Some (v, rest)) \<Longrightarrow> reads v"
  unfolding reads_def using parse_fuel by blast

lemma readsD: "reads v \<Longrightarrow> ends rest \<Longrightarrow> 2 * length (render v @ rest) \<le> m \<Longrightarrow> parse_value m (render v @ rest) = Some (v, rest)"
  unfolding reads_def by blast

lemma parse_elems_last: "parse_value n s = Some (v, CHR 0x5D # q) \<Longrightarrow> parse_elems (Suc n) s = Some ([v], q)"
  by (simp add: json_space_def)

lemma parse_elems_more:
  "parse_value n s = Some (v, CHR '','' # q) \<Longrightarrow> parse_elems n q = Some (vs, r) \<Longrightarrow> parse_elems (Suc n) s = Some (v # vs, r)"
  by (simp add: json_space_def)

lemma parse_members_last:
  "parse_value n t = Some (v, CHR 0x7D # q) \<Longrightarrow>
     parse_members (Suc n) acc (json_str k @ CHR '':'' # t) = Some (AList.update k v acc, q)"
  by (simp add: json_space_def json_str_def unquote_json_str)

lemma parse_members_more:
  "parse_value n t = Some (v, CHR '','' # q) \<Longrightarrow> parse_members n (AList.update k v acc) q = Some (kvs, r) \<Longrightarrow>
     parse_members (Suc n) acc (json_str k @ CHR '':'' # t) = Some (kvs, r)"
  by (simp add: json_space_def json_str_def unquote_json_str)

lemma parse_elems_at: "parse_elems n s = Some (vs, r) \<Longrightarrow> 2 * length s < m \<Longrightarrow> parse_elems m s = Some (vs, r)"
  using parse_fuel [of n] by blast

lemma parse_members_at: "parse_members n acc s = Some (kvs, r) \<Longrightarrow> 2 * length s < m \<Longrightarrow> parse_members m acc s = Some (kvs, r)"
  using parse_fuel [of n] by blast

lemma ends_close: "ends (CHR 0x5D # r)" "ends (CHR 0x7D # r)" "ends (CHR '','' # r)"
  by (simp_all add: ends_def)

lemma elems_of_render:
  assumes "vs \<noteq> []" and "\<forall>v \<in> set vs. reads v"
  shows "\<exists>n. parse_elems n (join '','' (map render vs) @ CHR 0x5D # rest) = Some (vs, rest)"
  using assms
proof (induction vs rule: list_nonempty_induct)
  case (single v)
  then have "parse_value (2 * length (render v @ CHR 0x5D # rest)) (render v @ CHR 0x5D # rest) = Some (v, CHR 0x5D # rest)"
    by (intro readsD ends_close) simp_all
  from parse_elems_last [OF this] show ?case by (simp only: list.map join.simps) blast
next
  case (cons v vs)
  let ?t = "join '','' (map render vs) @ CHR 0x5D # rest"
  obtain n where n: "parse_elems n ?t = Some (vs, rest)" using cons by auto
  let ?m = "2 * length (render v @ CHR '','' # ?t) + 1"
  have "parse_elems ?m ?t = Some (vs, rest)" by (rule parse_elems_at [OF n]) simp
  moreover have "parse_value ?m (render v @ CHR '','' # ?t) = Some (v, CHR '','' # ?t)"
    using cons by (intro readsD ends_close) simp_all
  ultimately have "parse_elems (Suc ?m) (render v @ CHR '','' # ?t) = Some (v # vs, rest)" by (rule parse_elems_more [rotated])
  moreover have "join '','' (map render (v # vs)) @ CHR 0x5D # rest = render v @ CHR '','' # ?t" using cons.hyps by (cases vs) auto
  ultimately show ?case by metis
qed

lemma members_of_render:
  assumes "kvs \<noteq> []" and "\<forall>kv \<in> set kvs. reads (snd kv)" and "distinct (map fst (acc @ kvs))"
  shows "\<exists>n. parse_members n acc (join '','' (map (\<lambda>(k, v). json_str k @ '':'' @ render v) kvs) @ CHR 0x7D # rest) = Some (acc @ kvs, rest)"
  using assms
proof (induction kvs arbitrary: acc rule: list_nonempty_induct)
  case (single kv)
  obtain k v where kv: "kv = (k, v)" by fastforce
  let ?t = "render v @ CHR 0x7D # rest"
  have "parse_value (2 * length ?t) ?t = Some (v, CHR 0x7D # rest)"
    using single kv by (intro readsD ends_close) simp_all
  moreover have "AList.update k v acc = acc @ [(k, v)]" using single.prems kv by (intro update_fresh) (auto simp: map_of_eq_None_iff)
  ultimately have "parse_members (Suc (2 * length ?t)) acc (json_str k @ CHR '':'' # ?t) = Some (acc @ [kv], rest)"
    using parse_members_last [of "2 * length ?t" ?t v rest acc k] by (simp only: kv)
  moreover have "join '','' (map (\<lambda>(k, v). json_str k @ '':'' @ render v) [kv]) @ CHR 0x7D # rest = json_str k @ CHR '':'' # ?t"
    by (simp add: kv)
  ultimately show ?case by metis
next
  case (cons kv kvs)
  obtain k v where kv: "kv = (k, v)" by fastforce
  have up: "AList.update k v acc = acc @ [(k, v)]" using cons.prems kv by (intro update_fresh) (auto simp: map_of_eq_None_iff)
  let ?t = "join '','' (map (\<lambda>(k, v). json_str k @ '':'' @ render v) kvs) @ CHR 0x7D # rest"
  obtain n where n: "parse_members n (acc @ [(k, v)]) ?t = Some (acc @ kv # kvs, rest)"
    using cons.IH [of "acc @ [(k, v)]"] cons.prems kv by auto
  let ?m = "2 * length (render v @ CHR '','' # ?t) + 1"
  have "parse_members ?m (AList.update k v acc) ?t = Some (acc @ kv # kvs, rest)"
    unfolding up by (rule parse_members_at [OF n]) simp
  moreover have "parse_value ?m (render v @ CHR '','' # ?t) = Some (v, CHR '','' # ?t)"
    using cons kv by (intro readsD ends_close) simp_all
  ultimately have "parse_members (Suc ?m) acc (json_str k @ CHR '':'' # (render v @ CHR '','' # ?t)) = Some (acc @ kv # kvs, rest)"
    by (rule parse_members_more [rotated])
  moreover have "join '','' (map (\<lambda>(k, v). json_str k @ '':'' @ render v) (kv # kvs)) @ CHR 0x7D # rest =
      json_str k @ CHR '':'' # (render v @ CHR '','' # ?t)"
    using cons.hyps kv by (cases kvs) auto
  ultimately show ?case by metis
qed

lemma parse_value_literal:
  "\<not> json_space c \<Longrightarrow> c \<noteq> CHR 0x22 \<Longrightarrow> c \<noteq> CHR 0x5B \<Longrightarrow> c \<noteq> CHR 0x7B \<Longrightarrow> parse_value (Suc n) (c # u) = literal (c # u)"
  by simp

lemma join_head: "xs \<noteq> [] \<Longrightarrow> hd xs = c # t \<Longrightarrow> \<exists>u. join sep xs = c # u"
  by (cases "(sep, xs)" rule: join.cases) auto

lemma reads_wireable: "wireable v \<Longrightarrow> reads v"
proof (induction v)
  case (JNum n)
  then obtain q where q: "n = Fin q" "snd (quotient_of q) = 1" by (auto split: jsnum.splits)
  show ?case
  proof (rule readsI)
    fix rest assume "ends rest"
    obtain c t where c: "rat_str q = c # t" "is_digit 10 c \<or> c = CHR ''-''" using rat_str_head [of q] by blast
    then have nc: "\<not> json_space c" "c \<noteq> CHR 0x22" "c \<noteq> CHR 0x5B" "c \<noteq> CHR 0x7B" "c \<notin> {CHR ''t'', CHR ''f'', CHR ''n''}"
      using number_head [of c] by blast+
    have s: "rat_str q @ rest = c # t @ rest" using c(1) by simp
    have "parse_value (Suc 0) (c # t @ rest) = parse_number (c # t @ rest)"
      by (simp only: parse_value_literal [OF nc(1-4)] literal_number [OF refl nc(5)])
    with parse_whole_number [OF q(2) \<open>ends rest\<close>] have "parse_value (Suc 0) (rat_str q @ rest) = Some (JNum (Fin q), rest)"
      by (simp only: s)
    then show "\<exists>k. parse_value k (render (JNum n) @ rest) = Some (JNum n, rest)"
      unfolding q(1) render.simps num_str.simps by (simp only: is_finite_def if_True jsnum.simps) blast
  qed
next
  case (JStr s)
  then show ?case
    by (intro readsI exI [of _ "Suc 0"]) (simp add: json_str_def json_space_def unquote_json_str)
next
  case (JArr vs)
  then have all: "\<forall>v \<in> set vs. reads v" "\<forall>v \<in> set vs. wireable v" by (auto simp: list_all_iff)
  show ?case
  proof (rule readsI)
    fix rest assume "ends rest"
    show "\<exists>n. parse_value n (render (JArr vs) @ rest) = Some (JArr vs, rest)"
    proof (cases "vs = []")
      case True
      then show ?thesis by (intro exI [of _ "Suc 0"]) (simp add: json_space_def)
    next
      case False
      from elems_of_render [OF this all(1)] obtain n where
        n: "parse_elems n (join '','' (map render vs) @ CHR 0x5D # rest) = Some (vs, rest)" by blast
      obtain c t where c: "render (hd vs) = c # t" "\<not> json_space c" "c \<noteq> CHR 0x5D"
        using render_head [of "hd vs"] all False by (auto simp: list_all_iff)
      then obtain u where "join '','' (map render vs) = c # u" using join_head [of "map render vs"] False by (auto simp: hd_map)
      with n c show ?thesis by (intro exI [of _ "Suc n"]) (simp add: json_space_def)
    qed
  qed
next
  case (JObj kvs)
  then have all: "\<forall>kv \<in> set kvs. reads (snd kv)" "distinct (map fst ([] @ kvs))" by (auto simp: list_all_iff)
  show ?case
  proof (rule readsI)
    fix rest assume "ends rest"
    show "\<exists>n. parse_value n (render (JObj kvs) @ rest) = Some (JObj kvs, rest)"
    proof (cases "kvs = []")
      case True
      then show ?thesis by (intro exI [of _ "Suc 0"]) (simp add: json_space_def)
    next
      case False
      let ?f = "\<lambda>(k, v). json_str k @ '':'' @ render v"
      from members_of_render [OF False all] obtain n where
        n: "parse_members n [] (join '','' (map ?f kvs) @ CHR 0x7D # rest) = Some (kvs, rest)" by auto
      obtain t where "hd (map ?f kvs) = CHR 0x22 # t" using False by (cases kvs) (auto simp: json_str_def)
      then obtain u where "join '','' (map ?f kvs) = CHR 0x22 # u" using join_head [of "map ?f kvs"] False by blast
      with n show ?thesis by (intro exI [of _ "Suc n"]) (simp add: json_space_def)
    qed
  qed
qed (auto intro!: readsI exI [of _ "Suc 0"] simp: json_space_def literal_def)

lemma parse_render: "wireable v \<Longrightarrow> parse_json (render v) = Some v"
  using readsD [OF reads_wireable, of v "[]" "2 * length (render v) + 1"] by (simp add: parse_json_def ends_def del: parse_value.simps)

lemma render_inj: "wireable v \<Longrightarrow> wireable w \<Longrightarrow> render v = render w \<Longrightarrow> v = w"
  by (metis option.inject parse_render)

declare parse_value.simps [simp del] parse_elems.simps [simp del] parse_members.simps [simp del]

fun tidy :: "jsval \<Rightarrow> jsval" where
  \<comment> \<open>what a value is after a round trip: enumeration order, no \<open>undefined\<close>, finite numbers\<close>
  "tidy JUndef = JNull"
| "tidy (JNum n) = (if is_finite n then JNum n else JNull)"
| "tidy (JArr vs) = JArr (map tidy vs)"
| "tidy (JObj kvs) = JObj (entries (map (\<lambda>(k, v). (k, tidy v)) (filter (\<lambda>(k, v). \<not> is_undef v) kvs)))"
| "tidy v = v"

fun whole :: "jsval \<Rightarrow> bool" where
  \<comment> \<open>an object has each field once, and finite numbers are whole\<close>
  "whole (JNum n) = (case n of Fin q \<Rightarrow> snd (quotient_of q) = 1 | _ \<Rightarrow> True)"
| "whole (JArr vs) = list_all whole vs"
| "whole (JObj kvs) = (distinct (map fst kvs) \<and> list_all (\<lambda>kv. whole (snd kv)) kvs)"
| "whole _ = True"

lemma map_insort_key: "map g (insort_key (\<lambda>x. f (g x)) x xs) = insort_key f (g x) (map g xs)"
  by (induction xs) auto

lemma map_sort_key: "map g (sort_key (\<lambda>x. f (g x)) xs) = sort_key f (map g xs)"
  by (induction xs) (simp_all add: map_insort_key)

lemma entries_map_snd: "entries (map (\<lambda>(k, v). (k, f v)) d) = map (\<lambda>(k, v). (k, f v)) (entries d)"
proof -
  let ?g = "\<lambda>(k, v). (k, f v)"
  have "sort_key (\<lambda>kv. radix_val 10 (fst kv)) (map ?g xs) = map ?g (sort_key (\<lambda>kv. radix_val 10 (fst kv)) xs)" for xs
    using map_sort_key [of ?g "\<lambda>kv. radix_val 10 (fst kv)" xs] by (simp add: case_prod_unfold)
  then show ?thesis by (simp add: entries_def filter_map o_def case_prod_unfold)
qed

lemma stringify_tidy: "stringify v = render (tidy v)"
proof (induction v rule: stringify.induct)
  case (6 vs)
  then have "map stringify vs = map (render \<circ> tidy) vs" by simp
  then show ?case by (simp only: stringify.simps tidy.simps render.simps list.map_comp)
next
  case (7 kvs)
  define ks where "ks = filter (\<lambda>(k, v). \<not> is_undef v) kvs"
  have "stringify v = render (tidy v)" if "(k, v) \<in> set ks" for k v using 7 that by (auto simp: ks_def)
  then have "map (\<lambda>(k, v). (k, stringify v)) ks = map (\<lambda>(k, v). (k, render (tidy v))) ks" by auto
  then have "entries (map (\<lambda>(k, v). (k, stringify v)) ks) = map (\<lambda>(k, v). (k, render (tidy v))) (entries ks)"
    using entries_map_snd [of "\<lambda>v. render (tidy v)" ks] by (simp only:)
  then show ?case
    unfolding stringify.simps tidy.simps render.simps ks_def [symmetric] entries_map_snd
    by (simp only: list.map_comp o_def) (simp add: case_prod_unfold)
qed auto

lemma distinct_map_fst_entries: "distinct (map fst (entries d)) \<longleftrightarrow> distinct (map fst d)"
proof -
  have "mset (map fst (entries d)) = mset (map fst d)" by (simp add: mset_entries)
  then show ?thesis by (metis mset_eq_imp_distinct_iff)
qed

lemma wireable_tidy: "whole v \<Longrightarrow> wireable (tidy v)"
proof (induction v rule: tidy.induct)
  case (2 n)
  then show ?case by (cases n) auto
next
  case (4 kvs)
  let ?t = "map (\<lambda>(k, v). (k, tidy v)) (filter (\<lambda>(k, v). \<not> is_undef v) kvs)"
  have "map fst ?t = map fst (filter (\<lambda>(k, v). \<not> is_undef v) kvs)" by (simp add: case_prod_unfold)
  then have "distinct (map fst ?t)" using "4.prems" by (simp only: whole.simps distinct_map_filter)
  then have "distinct (map fst (entries ?t))" using distinct_map_fst_entries by blast
  moreover have "\<forall>kv \<in> set ?t. wireable (snd kv)" using 4 by (auto simp: list_all_iff)
  ultimately show ?case by (simp add: list_all_iff)
qed (auto simp: list_all_iff)

lemma parse_stringify: "whole v \<Longrightarrow> parse_json (stringify v) = Some (tidy v)"
  by (simp add: stringify_tidy parse_render wireable_tidy)

text \<open>No document contains a control character: they are all escaped.\<close>

lemma quote_char_visible: "x \<in> set (quote_char c) \<Longrightarrow> 32 \<le> (of_char x :: nat)"
proof -
  have "32 \<le> (of_char (digit_char d) :: nat)" if "d < 16" for d
    using hex_digit_in [OF that] hex_digit_visible by blast
  then show "x \<in> set (quote_char c) \<Longrightarrow> ?thesis"
    by (auto simp: quote_char_def Let_def split: if_splits)
qed

abbreviation visible :: "char \<Rightarrow> bool" where
  "visible c \<equiv> 32 \<le> (of_char c :: nat)"

lemma join_visible: "\<forall>c \<in> set sep. visible c \<Longrightarrow> \<forall>x \<in> set xs. \<forall>c \<in> set x. visible c \<Longrightarrow> \<forall>c \<in> set (join sep xs). visible c"
  by (induction sep xs rule: join.induct) auto

lemma json_str_visible: "\<forall>c \<in> set (json_str s). visible c"
  using quote_char_visible by (auto simp: json_str_def)

lemma digit_visible: "is_digit 10 c \<Longrightarrow> visible c"
proof -
  assume "is_digit 10 c"
  then have "c \<in> set digit_chars" by (auto simp: is_digit_def digit_chars_def split: if_splits)
  then show ?thesis unfolding digit_chars_def list.set insert_iff empty_iff by (elim disjE) simp_all
qed

lemma rat_str_visible: "\<forall>c \<in> set (rat_str q). visible c"
proof -
  have "visible c" if "c \<in> set (abs_str n d)" for c n d
    using abs_str_chars [OF that] digit_visible by auto
  then show ?thesis by (auto simp: rat_str_def split: prod.splits if_splits)
qed

lemma render_visible: "\<forall>c \<in> set (render v). visible c"
proof (induction v)
  case (JNum n)
  then show ?case using rat_str_visible by (cases n) auto
next
  case (JStr s)
  then show ?case by (simp add: json_str_visible)
next
  case (JArr vs)
  then have "\<forall>c \<in> set (join '','' (map render vs)). visible c" by (intro join_visible) auto
  then show ?case by auto
next
  case (JObj kvs)
  then have "\<forall>c \<in> set (join '','' (map (\<lambda>(k, v). json_str k @ '':'' @ render v) kvs)). visible c"
    using json_str_visible by (intro join_visible) fastforce+
  then show ?case by auto
qed auto

end
