(* ===== verification/Envelope.thy ===== *)
theory Envelope
  imports Circle Json
begin

text \<open>
  The reducer of \<open>client/src/lib/envelope.js\<close>: what an authenticated envelope means for a
  circle's record. \<open>applyEnvelope\<close> is composed as in the source, one definition per case of its
  switch; a result \<open>None\<close> is a \<open>TypeError\<close> thrown on the way (the partly updated record of such
  a run is not modelled). The helpers that default their clock to \<open>Date.now()\<close> read
  \<open>ctx_clock\<close>, the timestamps of messages \<open>ctx_now\<close>. Typographic quotes in notices are
  written as plain ones.
\<close>

section \<open>Effects\<close>

record reply =
  rep_sender :: string
  rep_ts :: rat
  rep_text :: string

datatype body = TextBody jsval | FileBody jsval | GameBody game_ref

record out_message =
  om_server :: string
  om_channel :: jsval
  om_sender :: string
  om_body :: body
  om_ts :: rat
  om_reply :: "reply option"

datatype react_op = ReactAdd | ReactDel

datatype effect =
    ClearTyping string string
  | StoreMessage out_message
  | PresenceEffect string string claim
  | WantEffect string string claim
  | TypingEffect string string jsval
  | ReactionEffect string string "string \<times> jsnum" string react_op string rat
  | EditMessage string string string jsnum string rat
  | DeleteMessage string string string jsnum rat
  | RefreshMessages
  | SystemMessage string string "jsval option"
  | ApplyRetention jsval
  | BackfillHistory
  | Backup
  | QuorumCheck jsval
  | RenameMessages string jsval jsval
  | DeleteMessages string jsval
  | LeaveVoice
  | RefreshRoles string

record ctx =
  ctx_isAdmin :: bool
  ctx_now :: rat
  ctx_clock :: rat
  ctx_inCall :: "(string \<times> jsval) option"

type_synonym outcome = "(circle \<times> effect list) throws"

section \<open>Helpers\<close>

definition REPLY_TEXT_MAX :: nat where "REPLY_TEXT_MAX = 140"

definition normalizeReply :: "jsval \<Rightarrow> reply option throws" where
  "normalizeReply r =
     (if \<not> is_object r then Some None
      else do {
        s \<leftarrow> str_prop r ''sender'';
        n \<leftarrow> num_prop r ''ts'';
        let who = trim (take 64 s);
        case n of
          Fin x \<Rightarrow> if who = [] \<or> x \<le> 0 then Some None
            else do { txt \<leftarrow> str_prop r ''text'';
                      Some (Some \<lparr>rep_sender = who, rep_ts = x, rep_text = take REPLY_TEXT_MAX txt\<rparr>) }
        | _ \<Rightarrow> Some None })"

definition messageTs :: "jsval \<Rightarrow> rat \<Rightarrow> rat throws" where
  "messageTs claimed now =
     do { n \<leftarrow> to_num claimed;
          Some (case n of Fin x \<Rightarrow> if 0 < x then x else now | _ \<Rightarrow> now) }"

definition isCallChat :: "jsval \<Rightarrow> bool" where
  "isCallChat channel = (case channel of JStr s \<Rightarrow> prefix ''voice:'' s | _ \<Rightarrow> False)"

definition callChatChannel :: "string \<Rightarrow> string" where
  "callChatChannel room = ''voice:'' @ room"

definition divisible :: "rat \<Rightarrow> rat \<Rightarrow> bool" where
  \<comment> \<open>\<open>x % m === 0\<close> for finite \<open>x\<close>\<close>
  "divisible x m \<longleftrightarrow> rat_of_int \<lfloor>x / m\<rfloor> = x / m"

definition describeRetention :: "jsval \<Rightarrow> string throws" where
  "describeRetention seconds =
     (if \<not> truthy seconds then Some ''off''
      else do {
        n \<leftarrow> to_num seconds;
        s \<leftarrow> to_str seconds;
        Some (case n of
            Fin x \<Rightarrow>
              if divisible x 86400
              then (if x / 86400 = 1 then ''1 day'' else rat_str (x / 86400) @ '' days'')
              else if divisible x 3600
              then (if x / 3600 = 1 then ''1 hour'' else rat_str (x / 3600) @ '' hours'')
              else s @ ''s''
          | _ \<Rightarrow> s @ ''s'') })"

definition describeChanMeta :: "jsval \<Rightarrow> string throws" where
  "describeChanMeta meta0 =
     do { let meta = (if meta0 = JUndef then JObj [] else meta0);
          retention \<leftarrow> jget meta ''retention'';
          rs \<leftarrow> (if truthy retention then describeRetention retention else Some ''off'');
          topic \<leftarrow> jget meta ''topic'';
          ts \<leftarrow> (if truthy topic then map_option (\<lambda>t. [''topic: '' @ [CHR 0x22] @ t @ [CHR 0x22]]) (to_str topic)
                 else Some []);
          Some ('' ('' @ join '', '' ((''auto-delete: '' @ rs) # ts) @ '')'') }"

definition DELETED_MAX :: nat where "DELETED_MAX = 200"

definition ensureChannel :: "circle \<Rightarrow> jsval \<Rightarrow> circle" where
  "ensureChannel r ch =
     (if isCallChat ch \<or> ch \<in> set (channels r) then r
      else if ch \<in> set (list_or_empty (deletedChannels r)) then r
      else r\<lparr>channels := channels r @ [ch]\<rparr>)"

definition tombstone :: "jsval list option \<Rightarrow> jsval \<Rightarrow> jsval list option" where
  "tombstone del ch = Some (last_n DELETED_MAX (uniq (list_or_empty del @ [ch])))"

definition untombstone :: "jsval list option \<Rightarrow> jsval \<Rightarrow> jsval list option" where
  "untombstone del ch = map_option (filter (\<lambda>c. c \<noteq> ch)) del"

definition markChannelDeleted :: "circle \<Rightarrow> jsval \<Rightarrow> circle" where
  "markChannelDeleted r ch = r\<lparr>deletedChannels := tombstone (deletedChannels r) ch\<rparr>"

definition clearChannelDeleted :: "circle \<Rightarrow> jsval \<Rightarrow> circle" where
  "clearChannelDeleted r ch = r\<lparr>deletedChannels := untombstone (deletedChannels r) ch\<rparr>"

definition markVoiceDeleted :: "circle \<Rightarrow> jsval \<Rightarrow> circle" where
  "markVoiceDeleted r ch = r\<lparr>deletedVoice := tombstone (deletedVoice r) ch\<rparr>"

definition clearVoiceDeleted :: "circle \<Rightarrow> jsval \<Rightarrow> circle" where
  "clearVoiceDeleted r ch = r\<lparr>deletedVoice := untombstone (deletedVoice r) ch\<rparr>"

section \<open>The admin gate\<close>

record requirement =
  destructive :: bool
  authorMayPass :: bool

definition adminRequirement :: "jsval \<Rightarrow> requirement option" where
  "adminRequirement content =
     (let k = oprop content ''k''; op = oprop content ''op'';
          advisory = Some \<lparr>destructive = False, authorMayPass = False\<rparr>;
          strict = Some \<lparr>destructive = True, authorMayPass = False\<rparr>;
          author = Some \<lparr>destructive = True, authorMayPass = True\<rparr>
      in if k \<in> {JStr ''chan'', JStr ''vchan'', JStr ''overview''} then advisory
         else if k \<in> {JStr ''chanset'', JStr ''chan-ren'', JStr ''chan-del'', JStr ''vchan-ren'', JStr ''vchan-del''}
         then strict
         else if k = JStr ''notice'' then (if op = JStr ''del'' then author else None)
         else if k = JStr ''offer'' then (if op = JStr ''del'' then author else None)
         else if k = JStr ''quorum'' then (if op = JStr ''withdraw'' then author else None)
         else if k = JStr ''threshold'' then strict
         else None)"

section \<open>Merging a channel's settings and keys\<close>

definition key_fields :: "string list" where
  "key_fields = [''hid'', ''hkey'', ''hkeys'', ''alts'']"

definition settings_of :: "jsval \<Rightarrow> jsval dict" where
  "settings_of v = filter (\<lambda>kv. fst kv \<notin> set key_fields) (own_entries v)"

definition dmerge :: "'v dict \<Rightarrow> 'v dict \<Rightarrow> 'v dict" where
  \<comment> \<open>\<open>{ ...a, ...b }\<close>\<close>
  "dmerge a b = fold (\<lambda>kv d. AList.update (fst kv) (snd kv) d) b a"

type_synonym key_logs = "(jsval \<times> jsval list) list"

definition note_log :: "jsval \<Rightarrow> jsval list \<Rightarrow> key_logs \<Rightarrow> key_logs" where
  "note_log hid ks logs =
     (if \<not> truthy hid then logs
      else AList.update hid
        (fold (\<lambda>k s. if truthy k then set_add s k else s) ks
           (case map_of logs hid of None \<Rightarrow> [] | Some s \<Rightarrow> s)) logs)"

definition note_side :: "jsval \<Rightarrow> key_logs \<Rightarrow> key_logs throws" where
  "note_side side logs =
     (if \<not> truthy side then Some logs
      else do {
        hk \<leftarrow> js_iter (coalesce (oprop side ''hkeys'') (JArr []));
        al \<leftarrow> js_iter (coalesce (oprop side ''alts'') (JArr []));
        let logs1 = note_log (oprop side ''hid'') (oprop side ''hkey'' # hk) logs;
        let logs2 = fold (\<lambda>alt. note_log (oprop alt ''hid'') [oprop alt ''hkey'']) al logs1;
        Some (note_log (oprop side ''hid'') hk logs2) })"

definition sort_by_string :: "jsval list \<Rightarrow> jsval list throws" where
  \<comment> \<open>\<open>xs.sort()\<close>: by the string each element converts to\<close>
  "sort_by_string xs = do { ss \<leftarrow> mapM to_str xs; Some (map snd (sort_key fst (zip ss xs))) }"

definition first_or_undef :: "jsval list \<Rightarrow> jsval" where
  "first_or_undef xs = (case xs of [] \<Rightarrow> JUndef | x # _ \<Rightarrow> x)"

definition log_keys :: "key_logs \<Rightarrow> jsval \<Rightarrow> jsval list" where
  "log_keys logs hid = (case map_of logs hid of None \<Rightarrow> [] | Some s \<Rightarrow> s)"

definition write_key :: "jsval \<Rightarrow> jsval \<Rightarrow> key_logs \<Rightarrow> jsval \<Rightarrow> jsval throws" where
  \<comment> \<open>the key written under: a current key of the primary log if a side has one\<close>
  "write_key mine theirs logs primary =
     do { preferred \<leftarrow> sort_by_string (filter truthy
            ((if oprop mine ''hid'' = primary then [oprop mine ''hkey''] else []) @
             (if oprop theirs ''hid'' = primary then [oprop theirs ''hkey''] else [])));
          Some (if preferred = [] then first_or_undef (log_keys logs primary) else hd preferred) }"

definition merged_fields :: "key_logs \<Rightarrow> jsval list \<Rightarrow> jsval \<Rightarrow> jsval dict" where
  \<comment> \<open>the key fields of the merged entry: its log, the key written under, the superseded keys, other logs\<close>
  "merged_fields logs hids hkey =
     (let hkeys = filter (\<lambda>k. truthy k \<and> k \<noteq> hkey) (uniq (concat (map snd logs)));
          alts = filter (\<lambda>a. truthy (snd a)) (map (\<lambda>hid. (hid, first_or_undef (log_keys logs hid))) (tl hids))
      in [(''hid'', hd hids)] @ (if truthy hkey then [(''hkey'', hkey)] else []) @
         (if hkeys \<noteq> [] then [(''hkeys'', JArr hkeys)] else []) @
         (if alts \<noteq> [] then [(''alts'', JArr (map (\<lambda>a. JObj [(''hid'', fst a), (''hkey'', snd a)]) alts))] else []))"

definition mergeChanKeys :: "jsval \<Rightarrow> jsval \<Rightarrow> bool \<Rightarrow> jsval throws" where
  "mergeChanKeys mine theirs mineWins =
     do { let settings = (if mineWins then dmerge (settings_of theirs) (settings_of mine)
                          else dmerge (settings_of mine) (settings_of theirs));
          logs1 \<leftarrow> note_side mine [];
          logs \<leftarrow> note_side theirs logs1;
          if logs = [] then Some (JObj settings)
          else do {
            hids \<leftarrow> sort_by_string (map fst logs);
            hkey \<leftarrow> write_key mine theirs logs (hd hids);
            Some (JObj (settings @ merged_fields logs hids hkey)) } }"

section \<open>The reducer, case by case\<close>

definition chan_meta_at :: "circle \<Rightarrow> jsval \<Rightarrow> jsval throws" where
  \<comment> \<open>\<open>record.chanMeta?.[ch]\<close>; an inherited function stands for an object without fields\<close>
  "chan_meta_at r ch =
     (case chanMeta r of None \<Rightarrow> Some JUndef
      | Some d \<Rightarrow> do { k \<leftarrow> to_str ch;
                       Some (case dget d k of Own v \<Rightarrow> v | Proto \<Rightarrow> JObj [] | Absent \<Rightarrow> JUndef) })"

definition dict_or_empty :: "'v dict option \<Rightarrow> 'v dict" where
  "dict_or_empty d = (case d of None \<Rightarrow> [] | Some m \<Rightarrow> m)"

definition store_message :: "circle \<Rightarrow> string \<Rightarrow> jsval \<Rightarrow> body \<Rightarrow> rat \<Rightarrow> reply option \<Rightarrow> effect" where
  "store_message r sender ch b t rep =
     StoreMessage \<lparr>om_server = c_id r, om_channel = ch, om_sender = sender, om_body = b, om_ts = t, om_reply = rep\<rparr>"

definition apply_chat :: "circle \<Rightarrow> string \<Rightarrow> jsval \<Rightarrow> ctx \<Rightarrow> outcome" where
  "apply_chat r sender content x =
     do { rep \<leftarrow> normalizeReply (oprop content ''reply'');
          t \<leftarrow> messageTs (oprop content ''ts'') (ctx_now x);
          Some (ensureChannel r (oprop content ''ch''),
            [ClearTyping (c_id r) sender,
             store_message r sender (oprop content ''ch'') (TextBody (oprop content ''text'')) t rep]) }"

definition apply_game :: "circle \<Rightarrow> string \<Rightarrow> jsval \<Rightarrow> ctx \<Rightarrow> outcome" where
  "apply_game r sender content x =
     do { game \<leftarrow> normalizeGameRef (oprop content ''game'');
          case game of None \<Rightarrow> Some (r, [])
          | Some g \<Rightarrow> do {
              t \<leftarrow> messageTs (oprop content ''ts'') (ctx_now x);
              Some (ensureChannel r (oprop content ''ch''),
                [store_message r sender (oprop content ''ch'') (GameBody g) t None]) } }"

definition apply_file :: "circle \<Rightarrow> string \<Rightarrow> jsval \<Rightarrow> ctx \<Rightarrow> outcome" where
  "apply_file r sender content x =
     do { t \<leftarrow> messageTs (oprop content ''ts'') (ctx_now x);
          Some (ensureChannel r (oprop content ''ch''),
            [store_message r sender (oprop content ''ch'') (FileBody (oprop content ''file'')) t None]) }"

definition apply_pres :: "circle \<Rightarrow> string \<Rightarrow> jsval \<Rightarrow> ctx \<Rightarrow> outcome" where
  "apply_pres r sender content x =
     do { v \<leftarrow> normalizePresence content (ctx_clock x); Some (r, [PresenceEffect (c_id r) sender v]) }"

definition apply_want :: "circle \<Rightarrow> string \<Rightarrow> jsval \<Rightarrow> ctx \<Rightarrow> outcome" where
  "apply_want r sender content x =
     do { v \<leftarrow> normalizeWant content (ctx_clock x); Some (r, [WantEffect (c_id r) sender v]) }"

definition apply_type :: "circle \<Rightarrow> string \<Rightarrow> jsval \<Rightarrow> outcome" where
  "apply_type r sender content = Some (r, [TypingEffect (c_id r) sender (oprop content ''ch'')])"

definition apply_react :: "circle \<Rightarrow> string \<Rightarrow> jsval \<Rightarrow> ctx \<Rightarrow> outcome" where
  "apply_react r sender content x =
     do { e \<leftarrow> str_prop content ''emo'';
          let emo = trim (take 8 e);
          let to = coalesce (oprop content ''to'') (JObj []);
          let op = (if oprop content ''op'' = JStr ''del'' then ReactDel else ReactAdd);
          if emo = [] \<or> \<not> truthy (oprop to ''sender'') then Some (r, [])
          else do {
            n \<leftarrow> num_prop to ''ts'';
            if \<not> is_finite n then Some (r, [])
            else do {
              ch \<leftarrow> str_prop content ''ch'';
              who \<leftarrow> to_str (oprop to ''sender'');
              t \<leftarrow> messageTs (oprop content ''ts'') (ctx_now x);
              Some (r, [ReactionEffect (c_id r) ch (who, n) emo op sender t, RefreshMessages]) } } }"

definition apply_edit :: "circle \<Rightarrow> string \<Rightarrow> jsval \<Rightarrow> ctx \<Rightarrow> outcome" where
  "apply_edit r sender content x =
     do { n \<leftarrow> num_prop (oprop content ''to'') ''ts'';
          txt \<leftarrow> str_prop content ''text'';
          if \<not> is_finite n \<or> txt = [] then Some (r, [])
          else do {
            ch \<leftarrow> str_prop content ''ch'';
            t \<leftarrow> messageTs (oprop content ''ts'') (ctx_now x);
            Some (r, [EditMessage (c_id r) ch sender n txt t, RefreshMessages]) } }"

definition apply_del :: "circle \<Rightarrow> string \<Rightarrow> jsval \<Rightarrow> ctx \<Rightarrow> outcome" where
  "apply_del r sender content x =
     do { n \<leftarrow> num_prop (oprop content ''to'') ''ts'';
          if \<not> is_finite n then Some (r, [])
          else do {
            ch \<leftarrow> str_prop content ''ch'';
            t \<leftarrow> messageTs (oprop content ''ts'') (ctx_now x);
            Some (r, [DeleteMessage (c_id r) ch sender n t, RefreshMessages]) } }"

definition apply_rsvp :: "circle \<Rightarrow> string \<Rightarrow> jsval \<Rightarrow> ctx \<Rightarrow> outcome" where
  "apply_rsvp r sender content x =
     do { a \<leftarrow> num_prop content ''at'';
          Some (case a of
              Fin t \<Rightarrow>
                (let old = dict_or_empty (rsvps r)
                 in r\<lparr>rsvps := Some (if truthy (oprop content ''going'')
                        then dput old sender \<lparr>rsvp_at = t, rsvp_ts = Fin (ctx_now x)\<rparr>
                        else ddel old sender)\<rparr>, [])
            | _ \<Rightarrow> (r, [])) }"

definition apply_chanset :: "circle \<Rightarrow> string \<Rightarrow> jsval \<Rightarrow> outcome" where
  "apply_chanset r sender content =
     do { let ch = oprop content ''ch'';
          let chs = (if ch \<in> set (channels r) then channels r else channels r @ [ch]);
          mine \<leftarrow> chan_meta_at r ch;
          key \<leftarrow> to_str ch;
          merged \<leftarrow> mergeChanKeys mine (coalesce (oprop content ''meta'') (JObj [])) False;
          d \<leftarrow> describeChanMeta (oprop content ''meta'');
          Some (r\<lparr>channels := chs, chanMeta := Some (AList.update key merged (dict_or_empty (chanMeta r)))\<rparr>,
            [SystemMessage (c_id r) (''#'' @ key @ '' settings changed by '' @ sender @ d) (Some ch),
             ApplyRetention ch, BackfillHistory, Backup]) }"

definition apply_overview :: "circle \<Rightarrow> string \<Rightarrow> jsval \<Rightarrow> ctx \<Rightarrow> outcome" where
  "apply_overview r sender content x =
     do { ov \<leftarrow> normalizeOverview (oprop content ''ov'') (ctx_clock x);
          Some (r\<lparr>overview := ov\<rparr>,
            [SystemMessage (c_id r) (''home base updated by '' @ sender) None, Backup]) }"

definition apply_notice :: "circle \<Rightarrow> string \<Rightarrow> jsval \<Rightarrow> ctx \<Rightarrow> outcome" where
  "apply_notice r sender content x =
     (if oprop content ''op'' = JStr ''add'' then
        do { n \<leftarrow> normalizeNotice (oprop content ''n'') (JStr sender) (ctx_clock x);
             Some (case n of None \<Rightarrow> (r, [])
               | Some m \<Rightarrow> (r\<lparr>notices := Some (upsertNotice (notices r) (Some m))\<rparr>, [Backup])) }
      else if oprop content ''op'' = JStr ''del'' then
        (let target = find (\<lambda>n. JStr (not_id n) = oprop content ''id'') (list_or_empty (notices r))
         in if canRemoveNotice target sender (ctx_isAdmin x)
            then Some (r\<lparr>notices := map_option (filter (\<lambda>n. JStr (not_id n) \<noteq> oprop content ''id'')) (notices r)\<rparr>, [Backup])
            else Some (r, []))
      else Some (r, []))"

definition apply_offer :: "circle \<Rightarrow> string \<Rightarrow> jsval \<Rightarrow> ctx \<Rightarrow> outcome" where
  "apply_offer r sender content x =
     (if oprop content ''op'' = JStr ''add'' then
        do { n \<leftarrow> normalizeOffer (oprop content ''o'') (JStr sender) (ctx_clock x);
             Some (case n of None \<Rightarrow> (r, [])
               | Some m \<Rightarrow> (r\<lparr>offers := Some (upsertOffer (offers r) (Some m))\<rparr>, [Backup])) }
      else if oprop content ''op'' = JStr ''take'' then
        Some (r\<lparr>offers := Some (applyTake (offers r) (oprop content ''id'') sender
                (oprop content ''taking'' \<noteq> JBool False))\<rparr>, [Backup])
      else if oprop content ''op'' = JStr ''del'' then
        (let target = find (\<lambda>f. JStr (off_id f) = oprop content ''id'') (list_or_empty (offers r))
         in if canRemoveOffer target sender (ctx_isAdmin x)
            then Some (r\<lparr>offers := map_option (filter (\<lambda>f. JStr (off_id f) \<noteq> oprop content ''id'')) (offers r)\<rparr>, [Backup])
            else Some (r, []))
      else Some (r, []))"

definition apply_quorum :: "circle \<Rightarrow> string \<Rightarrow> jsval \<Rightarrow> ctx \<Rightarrow> outcome" where
  "apply_quorum r sender content x =
     (if oprop content ''op'' = JStr ''propose'' then
        do { p \<leftarrow> normalizeProposal (oprop content ''p'') (JStr sender) (ctx_clock x);
             Some (case p of None \<Rightarrow> (r, [])
               | Some q \<Rightarrow> (r\<lparr>proposals := Some (upsertProposal (proposals r) (Some q))\<rparr>,
                           [QuorumCheck (JStr (prop_id q)), Backup])) }
      else if oprop content ''op'' = JStr ''sign'' then
        Some (r\<lparr>proposals := Some (applySignature (proposals r) (oprop content ''id'') sender (ctx_clock x))\<rparr>,
              [QuorumCheck (oprop content ''id''), Backup])
      else if oprop content ''op'' = JStr ''object'' then
        do { ps \<leftarrow> applyObjection (proposals r) (oprop content ''id'') sender (oprop content ''why'') (ctx_clock x);
             Some (r\<lparr>proposals := Some ps\<rparr>, [Backup]) }
      else if oprop content ''op'' = JStr ''withdraw'' then
        (let target = find (\<lambda>p. JStr (prop_id p) = oprop content ''id'') (list_or_empty (proposals r))
         in if canWithdraw target sender (ctx_isAdmin x)
            then Some (r\<lparr>proposals := map_option (filter (\<lambda>p. JStr (prop_id p) \<noteq> oprop content ''id'')) (proposals r)\<rparr>, [Backup])
            else Some (r, []))
      else Some (r, []))"

definition apply_threshold :: "circle \<Rightarrow> string \<Rightarrow> jsval \<Rightarrow> outcome" where
  "apply_threshold r sender content =
     do { n \<leftarrow> normalizeThreshold (oprop content ''n'') (length (members r));
          Some (r\<lparr>threshold := Some n\<rparr>,
            [SystemMessage (c_id r) (sender @ '' set the signatures a new member needs to '' @ nat_str n) None,
             Backup]) }"

definition apply_chan :: "circle \<Rightarrow> string \<Rightarrow> jsval \<Rightarrow> outcome" where
  "apply_chan r sender content =
     (let ch = oprop content ''ch''; r1 = clearChannelDeleted r ch
      in if ch \<in> set (channels r1) then Some (r1, [])
         else do { s \<leftarrow> to_str ch;
                   Some (r1\<lparr>channels := channels r1 @ [ch]\<rparr>,
                     [SystemMessage (c_id r) (''#'' @ s @ '' created by '' @ sender) (Some ch), Backup]) })"

definition room_text :: "string \<Rightarrow> string" where
  "room_text s = ''voice room '' @ [CHR 0x22] @ s @ [CHR 0x22]"

definition apply_vchan :: "circle \<Rightarrow> string \<Rightarrow> jsval \<Rightarrow> outcome" where
  "apply_vchan r sender content =
     (let ch = oprop content ''ch''; r1 = clearVoiceDeleted r ch; rooms = voice_rooms r1
      in if ch \<in> set rooms then Some (r1, [])
         else do { s \<leftarrow> to_str ch;
                   Some (r1\<lparr>voiceChannels := Some (rooms @ [ch])\<rparr>,
                     [SystemMessage (c_id r) (room_text s @ '' created by '' @ sender) None]) })"

definition rename_in :: "'a \<Rightarrow> 'a \<Rightarrow> 'a list \<Rightarrow> 'a list" where
  "rename_in a b xs = map (\<lambda>c. if c = a then b else c) xs"

definition move_meta :: "circle \<Rightarrow> jsval \<Rightarrow> jsval \<Rightarrow> circle throws" where
  \<comment> \<open>the channel's settings and keys follow it to its new name\<close>
  "move_meta r ch to =
     do { m \<leftarrow> chan_meta_at r ch;
          if \<not> truthy m then Some r
          else do {
            a \<leftarrow> to_str ch;
            b \<leftarrow> to_str to;
            Some (r\<lparr>chanMeta := Some (ddel (AList.update b m (dict_or_empty (chanMeta r))) a)\<rparr>) } }"

definition apply_chan_ren :: "circle \<Rightarrow> string \<Rightarrow> jsval \<Rightarrow> outcome" where
  "apply_chan_ren r sender content =
     (let ch = oprop content ''ch''; to = oprop content ''to''
      in if ch \<in> set (channels r) \<and> to \<notin> set (channels r)
         then do {
           let r1 = clearChannelDeleted (markChannelDeleted (r\<lparr>channels := rename_in ch to (channels r)\<rparr>) ch) to;
           r2 \<leftarrow> move_meta r1 ch to;
           a \<leftarrow> to_str ch;
           b \<leftarrow> to_str to;
           Some (r2, [RenameMessages (c_id r) ch to,
                      SystemMessage (c_id r) (''#'' @ a @ '' renamed to #'' @ b) (Some to),
                      RefreshMessages, Backup]) }
         else Some (r, []))"

definition drop_meta :: "circle \<Rightarrow> jsval \<Rightarrow> circle throws" where
  "drop_meta r ch =
     do { m \<leftarrow> chan_meta_at r ch;
          if \<not> truthy m then Some r
          else do { a \<leftarrow> to_str ch; Some (r\<lparr>chanMeta := Some (ddel (dict_or_empty (chanMeta r)) a)\<rparr>) } }"

definition apply_chan_del :: "circle \<Rightarrow> string \<Rightarrow> jsval \<Rightarrow> outcome" where
  "apply_chan_del r sender content =
     (let ch = oprop content ''ch''
      in if ch \<in> set (channels r) \<and> 1 < length (channels r)
         then do {
           let r1 = markChannelDeleted (r\<lparr>channels := filter (\<lambda>c. c \<noteq> ch) (channels r)\<rparr>) ch;
           r2 \<leftarrow> drop_meta r1 ch;
           a \<leftarrow> to_str ch;
           Some (r2, [DeleteMessages (c_id r) ch,
                      SystemMessage (c_id r) (''#'' @ a @ '' deleted by '' @ sender) None, Backup]) }
         else Some (r, []))"

definition leave_if_inside :: "circle \<Rightarrow> ctx \<Rightarrow> jsval \<Rightarrow> effect list" where
  \<comment> \<open>\<open>if (inThisCall(ch)) emit({ t: 'leaveVoice' })\<close>\<close>
  "leave_if_inside r x ch = (if ctx_inCall x = Some (c_id r, ch) then [LeaveVoice] else [])"

definition apply_vchan_ren :: "circle \<Rightarrow> string \<Rightarrow> jsval \<Rightarrow> ctx \<Rightarrow> outcome" where
  "apply_vchan_ren r sender content x =
     (let ch = oprop content ''ch''; to = oprop content ''to''; rooms = voice_rooms r
      in if ch \<in> set rooms \<and> to \<notin> set rooms
         then do {
           a \<leftarrow> to_str ch;
           b \<leftarrow> to_str to;
           Some (clearVoiceDeleted (markVoiceDeleted (r\<lparr>voiceChannels := Some (rename_in ch to rooms)\<rparr>) ch) to,
             leave_if_inside r x ch @
             [SystemMessage (c_id r) (room_text a @ '' renamed to '' @ [CHR 0x22] @ b @ [CHR 0x22]) None, Backup]) }
         else Some (r, []))"

definition apply_vchan_del :: "circle \<Rightarrow> string \<Rightarrow> jsval \<Rightarrow> ctx \<Rightarrow> outcome" where
  "apply_vchan_del r sender content x =
     (let ch = oprop content ''ch''; rooms = voice_rooms r
      in if ch \<in> set rooms
         then do {
           a \<leftarrow> to_str ch;
           Some (markVoiceDeleted (r\<lparr>voiceChannels := Some (filter (\<lambda>c. c \<noteq> ch) rooms)\<rparr>) ch,
             leave_if_inside r x ch @
             [SystemMessage (c_id r) (room_text a @ '' deleted by '' @ sender) None, Backup]) }
         else Some (r, []))"

definition apply_role :: "circle \<Rightarrow> string \<Rightarrow> jsval \<Rightarrow> outcome" where
  "apply_role r sender content =
     do { u \<leftarrow> to_str (oprop content ''user'');
          Some (r, [SystemMessage (c_id r)
              (u @ '' is now '' @ (if oprop content ''role'' = JStr ''admin'' then ''an admin'' else ''a regular member'') @
               '' (changed by '' @ sender @ '')'') None, RefreshRoles (c_id r)]) }"

section \<open>The metadata rebroadcast\<close>

definition adopt_patch :: "circle \<Rightarrow> meta_patch \<Rightarrow> circle" where
  \<comment> \<open>\<open>Object.assign(record, reconcileMeta(content))\<close>: the fields the patch has\<close>
  "adopt_patch r p =
     r\<lparr>channels := (case mp_channels p of Some c \<Rightarrow> c | None \<Rightarrow> channels r),
       voiceChannels := (case mp_voice p of Some v \<Rightarrow> Some v | None \<Rightarrow> voiceChannels r),
       overview := (case mp_overview p of Some v \<Rightarrow> v | None \<Rightarrow> overview r),
       chanMeta := (case mp_chanMeta p of Some v \<Rightarrow> Some v | None \<Rightarrow> chanMeta r),
       offers := (case mp_offers p of Some v \<Rightarrow> Some v | None \<Rightarrow> offers r),
       notices := (case mp_notices p of Some v \<Rightarrow> Some v | None \<Rightarrow> notices r),
       rsvps := (case mp_rsvps p of Some v \<Rightarrow> Some v | None \<Rightarrow> rsvps r)\<rparr>"

definition meta_sync :: "circle \<Rightarrow> jsval \<Rightarrow> rat \<Rightarrow> outcome" where
  \<comment> \<open>the branch of a device that is catching up: the one place the shape may shrink\<close>
  "meta_sync r content clock =
     do { p \<leftarrow> reconcileMeta content clock;
          let r1 = adopt_patch (r\<lparr>pendingMetaSync := False\<rparr>) p;
          Some (r1\<lparr>deletedChannels := map_option (filter (\<lambda>c. c \<notin> set (channels r1))) (deletedChannels r1),
                   deletedVoice := map_option (filter (\<lambda>c. c \<notin> set (list_or_empty (voiceChannels r1)))) (deletedVoice r1)\<rparr>,
                [BackfillHistory, Backup]) }"

definition union_rooms :: "jsval list \<Rightarrow> jsval list \<Rightarrow> jsval list \<Rightarrow> jsval list" where
  \<comment> \<open>rooms not yet here and not seen deleted, in the order they are listed\<close>
  "union_rooms dead news mine = fold (\<lambda>ch rs. if ch \<in> set rs \<or> ch \<in> set dead then rs else rs @ [ch]) news mine"

definition meta_rooms :: "circle \<Rightarrow> jsval \<Rightarrow> outcome" where
  "meta_rooms r content =
     do { chs \<leftarrow> js_iter (coalesce (oprop content ''channels'') (JArr []));
          let r1 = r\<lparr>channels := union_rooms (list_or_empty (deletedChannels r)) chs (channels r)\<rparr>;
          if \<not> truthy (oprop content ''voiceChannels'') then Some (r1, [])
          else do {
            vs \<leftarrow> js_iter (oprop content ''voiceChannels'');
            Some (r1\<lparr>voiceChannels := Some (union_rooms (list_or_empty (deletedVoice r)) vs (voice_rooms r))\<rparr>, []) } }"

definition meta_overview :: "circle \<Rightarrow> jsval \<Rightarrow> rat \<Rightarrow> outcome" where
  "meta_overview r content clock =
     (if oprop content ''overview'' \<noteq> JUndef \<and> overview r = None
      then do { ov \<leftarrow> normalizeOverview (oprop content ''overview'') clock;
                Some (case ov of None \<Rightarrow> (r, []) | Some v \<Rightarrow> (r\<lparr>overview := Some v\<rparr>, [Backup])) }
      else Some (r, []))"

definition meta_notices :: "circle \<Rightarrow> jsval \<Rightarrow> rat \<Rightarrow> outcome" where
  "meta_notices r content clock =
     (case nonempty_array (oprop content ''notices'') of
        None \<Rightarrow> Some (r, [])
      | Some vs \<Rightarrow> do {
          incoming \<leftarrow> normalizeNotices vs clock;
          let merged = mergeNotices (notices r) incoming;
          Some (if length merged \<noteq> length (list_or_empty (notices r))
                then (r\<lparr>notices := Some merged\<rparr>, [Backup]) else (r, [])) })"

definition meta_offers :: "circle \<Rightarrow> jsval \<Rightarrow> rat \<Rightarrow> outcome" where
  "meta_offers r content clock =
     (case nonempty_array (oprop content ''offers'') of
        None \<Rightarrow> Some (r, [])
      | Some vs \<Rightarrow> do {
          incoming \<leftarrow> normalizeOffers (JArr vs) clock;
          let merged = mergeOffers (offers r) incoming;
          Some (if length merged \<noteq> length (list_or_empty (offers r))
                then (r\<lparr>offers := Some merged\<rparr>, [Backup]) else (r, [])) })"

definition meta_ledger :: "circle \<Rightarrow> jsval \<Rightarrow> rat \<Rightarrow> outcome" where
  "meta_ledger r content clock =
     do { (r1, e1) \<leftarrow> (case nonempty_array (oprop content ''proposals'') of
              None \<Rightarrow> Some (r, [])
            | Some vs \<Rightarrow> do {
                incoming \<leftarrow> normalizeProposals (JArr vs) clock;
                let merged = mergeProposals (proposals r) incoming;
                Some (if length merged \<noteq> length (list_or_empty (proposals r))
                      then (r\<lparr>proposals := Some merged\<rparr>, [Backup]) else (r, [])) });
          if oprop content ''threshold'' \<noteq> JUndef \<and> threshold r1 = None
          then do { n \<leftarrow> normalizeThreshold (oprop content ''threshold'') (length (members r1));
                    Some (r1\<lparr>threshold := Some n\<rparr>, e1 @ [Backup]) }
          else Some (r1, e1) }"

definition gap_rsvp :: "rat \<Rightarrow> string \<times> jsval \<Rightarrow> rsvp dict \<Rightarrow> rsvp dict throws" where
  "gap_rsvp clock e acc =
     do { a \<leftarrow> num_prop (snd e) ''at'';
          if \<not> is_finite a \<or> dget acc (fst e) \<noteq> Absent then Some acc
          else do { v \<leftarrow> rsvp_of (snd e) clock;
                    Some (case v of None \<Rightarrow> acc | Some w \<Rightarrow> dput acc (take 64 (fst e)) w) } }"

definition meta_rsvps :: "circle \<Rightarrow> jsval \<Rightarrow> rat \<Rightarrow> outcome" where
  "meta_rsvps r content clock =
     (if \<not> is_object (oprop content ''rsvps'') then Some (r, [])
      else do {
        merged \<leftarrow> foldM (gap_rsvp clock) (take 64 (own_entries (oprop content ''rsvps'')))
                    (dict_or_empty (rsvps r));
        Some (r\<lparr>rsvps := Some merged\<rparr>, []) })"

definition gap_chan :: "string \<times> jsval \<Rightarrow> jsval dict \<Rightarrow> jsval dict throws" where
  "gap_chan e mine =
     do { m \<leftarrow> mergeChanKeys (case dget mine (fst e) of Own v \<Rightarrow> v | Proto \<Rightarrow> JObj [] | Absent \<Rightarrow> JUndef) (snd e) True;
          Some (dput mine (fst e) m) }"

definition meta_chans :: "circle \<Rightarrow> jsval \<Rightarrow> outcome" where
  "meta_chans r content =
     (if \<not> truthy (oprop content ''chanMeta'') then Some (r, [])
      else do {
        mine \<leftarrow> foldM gap_chan (own_entries (oprop content ''chanMeta'')) (dict_or_empty (chanMeta r));
        Some (r\<lparr>chanMeta := Some mine\<rparr>, [BackfillHistory]) })"

definition andThen :: "outcome \<Rightarrow> (circle \<Rightarrow> outcome) \<Rightarrow> outcome" where
  \<comment> \<open>the next part of a handler: it works on the record the first left and emits after it\<close>
  "andThen a f = do { (r, e) \<leftarrow> a; (r', e') \<leftarrow> f r; Some (r', e @ e') }"

definition meta_union :: "circle \<Rightarrow> jsval \<Rightarrow> rat \<Rightarrow> outcome" where
  "meta_union r content clock =
     andThen (meta_rooms r content) (\<lambda>r.
     andThen (meta_overview r content clock) (\<lambda>r.
     andThen (meta_notices r content clock) (\<lambda>r.
     andThen (meta_offers r content clock) (\<lambda>r.
     andThen (meta_ledger r content clock) (\<lambda>r.
     andThen (meta_rsvps r content clock) (\<lambda>r.
     meta_chans r content))))))"

definition applyMeta :: "circle \<Rightarrow> jsval \<Rightarrow> rat \<Rightarrow> outcome" where
  "applyMeta r0 content clock =
     (let r = r0\<lparr>c_name := coalesce (oprop content ''name'') (c_name r0)\<rparr>
      in if pendingMetaSync r then meta_sync r content clock else meta_union r content clock)"

section \<open>Parsing and dispatch\<close>

definition parseEnvelope :: "string \<Rightarrow> jsval" where
  "parseEnvelope raw =
     (case parse_json raw of Some v \<Rightarrow> v
      | None \<Rightarrow> JObj [(''k'', JStr ''chat''), (''ch'', JStr ''general''), (''text'', JStr raw)])"

lemma parseEnvelope_sent: "whole v \<Longrightarrow> parseEnvelope (stringify v) = tidy v"
  by (simp add: parseEnvelope_def parse_stringify)

definition refused :: "jsval \<Rightarrow> ctx \<Rightarrow> bool" where
  \<comment> \<open>\<open>need && !need.authorMayPass && isAdmin !== true\<close>\<close>
  "refused content x =
     (case adminRequirement content of None \<Rightarrow> False
      | Some need \<Rightarrow> \<not> authorMayPass need \<and> \<not> ctx_isAdmin x)"

definition handle_kind :: "string \<Rightarrow> circle \<Rightarrow> string \<Rightarrow> jsval \<Rightarrow> ctx \<Rightarrow> outcome" where
  "handle_kind k r sender content x =
     (if k = ''chat'' then apply_chat r sender content x
      else if k = ''game'' then apply_game r sender content x
      else if k = ''file'' then apply_file r sender content x
      else if k = ''pres'' then apply_pres r sender content x
      else if k = ''want'' then apply_want r sender content x
      else if k = ''type'' then apply_type r sender content
      else if k = ''react'' then apply_react r sender content x
      else if k = ''edit'' then apply_edit r sender content x
      else if k = ''del'' then apply_del r sender content x
      else if k = ''rsvp'' then apply_rsvp r sender content x
      else if k = ''meta'' then applyMeta r content (ctx_clock x)
      else if k = ''chanset'' then apply_chanset r sender content
      else if k = ''overview'' then apply_overview r sender content x
      else if k = ''notice'' then apply_notice r sender content x
      else if k = ''offer'' then apply_offer r sender content x
      else if k = ''quorum'' then apply_quorum r sender content x
      else if k = ''threshold'' then apply_threshold r sender content
      else if k = ''chan'' then apply_chan r sender content
      else if k = ''vchan'' then apply_vchan r sender content
      else if k = ''chan-ren'' then apply_chan_ren r sender content
      else if k = ''chan-del'' then apply_chan_del r sender content
      else if k = ''vchan-ren'' then apply_vchan_ren r sender content x
      else if k = ''vchan-del'' then apply_vchan_del r sender content x
      else if k = ''role'' then apply_role r sender content
      else Some (r, []))"

definition applyEnvelope :: "circle \<Rightarrow> string \<Rightarrow> jsval \<Rightarrow> ctx \<Rightarrow> outcome" where
  "applyEnvelope r sender content x =
     (if refused content x then Some (r, [])
      else if nullish content then None
      else case oprop content ''k'' of
        JStr k \<Rightarrow> handle_kind k r sender content x
      | _ \<Rightarrow> Some (r, []))"

end
