(* ===== verification/Chan_Keys.thy ===== *)
theory Chan_Keys
  imports Envelope
begin

text \<open>
  The merge of two views of a channel's keys (\<open>mergeChanKeys\<close> of \<open>envelope.js\<close>). A view is
  abstracted to the set of log ids and the set of keys it knows; the merge is shown to be the union of
  the keys, and to pick its log and its key in a way that does not depend on who merges with whom.
\<close>

section \<open>What a view knows\<close>

definition side_list :: "jsval \<Rightarrow> string \<Rightarrow> jsval list" where
  "side_list v f = (case js_iter (coalesce (oprop v f) (JArr [])) of Some xs \<Rightarrow> xs | None \<Rightarrow> [])"

definition side_logs :: "jsval \<Rightarrow> jsval list" where
  \<comment> \<open>the log ids a view names\<close>
  "side_logs v = filter truthy (oprop v ''hid'' # map (\<lambda>a. oprop a ''hid'') (side_list v ''alts''))"

definition side_keys :: "jsval \<Rightarrow> jsval list" where
  \<comment> \<open>the keys a view holds for them; a key with no log id is unusable\<close>
  "side_keys v = filter truthy
     ((if truthy (oprop v ''hid'') then oprop v ''hkey'' # side_list v ''hkeys'' else []) @
      map (\<lambda>a. oprop a ''hkey'') (filter (\<lambda>a. truthy (oprop a ''hid'')) (side_list v ''alts'')))"

definition keys_of :: "key_logs \<Rightarrow> jsval set" where
  "keys_of logs = {k. \<exists>h s. map_of logs h = Some s \<and> k \<in> set s}"

definition logs_ok :: "key_logs \<Rightarrow> bool" where
  "logs_ok logs \<longleftrightarrow> distinct (map fst logs) \<and> (\<forall>h \<in> fst ` set logs. truthy h) \<and> (\<forall>k \<in> keys_of logs. truthy k)"

lemma falsy_oprop: "\<not> truthy v \<Longrightarrow> oprop v f = JUndef"
  by (cases v) auto

lemma set_fold_truthy: "set (fold (\<lambda>k s. if truthy k then set_add s k else s) ks s) = set s \<union> {k \<in> set ks. truthy k}"
  by (induction ks arbitrary: s) auto

lemma note_log_keys:
  "keys_of (note_log hid ks logs) = keys_of logs \<union> (if truthy hid then {k \<in> set ks. truthy k} else {})"
proof (cases "truthy hid")
  case True
  let ?old = "case map_of logs hid of None \<Rightarrow> [] | Some s \<Rightarrow> s"
  have m: "map_of (note_log hid ks logs) =
      (map_of logs)(hid \<mapsto> fold (\<lambda>k s. if truthy k then set_add s k else s) ks ?old)"
    using True by (simp add: note_log_def update_conv')
  have "{k. \<exists>h s. (f(a \<mapsto> v)) h = Some s \<and> k \<in> set s} =
      set v \<union> {k. \<exists>h s. h \<noteq> a \<and> f h = Some s \<and> k \<in> set s}" for f :: "jsval \<Rightarrow> jsval list option" and a v
    by (auto split: if_splits)
  then have "keys_of (note_log hid ks logs) = set ?old \<union> {k \<in> set ks. truthy k} \<union>
      {k. \<exists>h s. h \<noteq> hid \<and> map_of logs h = Some s \<and> k \<in> set s}"
    unfolding keys_of_def m set_fold_truthy [symmetric] by blast
  moreover have "keys_of logs = set ?old \<union> {k. \<exists>h s. h \<noteq> hid \<and> map_of logs h = Some s \<and> k \<in> set s}"
  proof (cases "map_of logs hid")
    case (Some s)
    then show ?thesis by (auto simp: keys_of_def) (metis option.inject)
  next
    case None
    then have "\<And>h s. map_of logs h = Some s \<Longrightarrow> h \<noteq> hid" by auto
    with None show ?thesis by (auto simp: keys_of_def)
  qed
  ultimately show ?thesis using True by auto
qed (simp add: note_log_def)

lemma note_log_hids:
  "fst ` set (note_log hid ks logs) = fst ` set logs \<union> (if truthy hid then {hid} else {})"
  unfolding dom_map_of_conv_image_fst [symmetric] by (auto simp: note_log_def update_conv')

lemma note_log_ok: "logs_ok logs \<Longrightarrow> logs_ok (note_log hid ks logs)"
  unfolding logs_ok_def note_log_keys note_log_hids
  by (auto simp: note_log_def distinct_update split: if_splits)

lemma note_alts_keys:
  "keys_of (fold (\<lambda>alt. note_log (oprop alt ''hid'') [oprop alt ''hkey'']) al logs) =
     keys_of logs \<union> {k. truthy k \<and> (\<exists>a \<in> set al. truthy (oprop a ''hid'') \<and> k = oprop a ''hkey'')}"
  by (induction al arbitrary: logs) (auto simp: note_log_keys)

lemma note_alts_hids:
  "fst ` set (fold (\<lambda>alt. note_log (oprop alt ''hid'') [oprop alt ''hkey'']) al logs) =
     fst ` set logs \<union> {h. truthy h \<and> (\<exists>a \<in> set al. h = oprop a ''hid'')}"
  by (induction al arbitrary: logs) (auto simp: note_log_hids)

lemma note_alts_ok:
  "logs_ok logs \<Longrightarrow> logs_ok (fold (\<lambda>alt. note_log (oprop alt ''hid'') [oprop alt ''hkey'']) al logs)"
  by (induction al arbitrary: logs) (auto simp: note_log_ok)

lemma side_falsy: "\<not> truthy v \<Longrightarrow> side_keys v = [] \<and> side_logs v = []"
  by (simp add: side_keys_def side_logs_def side_list_def falsy_oprop)

lemma note_side_SomeD:
  assumes "note_side side logs = Some logs'"
  shows "keys_of logs' = keys_of logs \<union> set (side_keys side) \<and>
    fst ` set logs' = fst ` set logs \<union> set (side_logs side) \<and> (logs_ok logs \<longrightarrow> logs_ok logs')"
proof (cases "truthy side")
  case False
  with assms show ?thesis by (simp add: note_side_def side_falsy)
next
  case True
  with assms obtain hk al where hk: "js_iter (coalesce (oprop side ''hkeys'') (JArr [])) = Some hk"
    and al: "js_iter (coalesce (oprop side ''alts'') (JArr [])) = Some al"
    and logs': "logs' = note_log (oprop side ''hid'') hk
      (fold (\<lambda>alt. note_log (oprop alt ''hid'') [oprop alt ''hkey'']) al
        (note_log (oprop side ''hid'') (oprop side ''hkey'' # hk) logs))"
    by (auto simp: note_side_def bind_eq_Some_conv Let_def)
  have "side_list side ''hkeys'' = hk" "side_list side ''alts'' = al"
    by (simp_all add: side_list_def hk al)
  then show ?thesis unfolding logs'
    by (auto simp: note_log_keys note_alts_keys note_log_hids note_alts_hids note_log_ok note_alts_ok
        side_keys_def side_logs_def)
qed

section \<open>The merge\<close>

lemma mset_sort_by_string:
  "sort_by_string xs = Some ys \<Longrightarrow> mset ys = mset xs"
proof -
  assume "sort_by_string xs = Some ys"
  then obtain ss where ss: "mapM to_str xs = Some ss" and ys: "ys = map snd (sort_key fst (zip ss xs))"
    by (auto simp: sort_by_string_def bind_eq_Some_conv)
  have "mset ys = mset (map snd (zip ss xs))"
    unfolding ys mset_map mset_sort ..
  then show ?thesis using length_mapM [OF ss] by simp
qed

lemma set_sort_by_string: "sort_by_string xs = Some ys \<Longrightarrow> set ys = set xs"
  by (metis mset_sort_by_string set_mset_mset)

lemma mergeChanKeys_SomeD:
  assumes "mergeChanKeys mine theirs w = Some m"
  obtains settings logs1 logs where
    "note_side mine [] = Some logs1" "note_side theirs logs1 = Some logs"
    "\<forall>f \<in> set key_fields. map_of settings f = None"
    "logs = [] \<Longrightarrow> m = JObj settings"
    "logs \<noteq> [] \<Longrightarrow> \<exists>hids hkey. sort_by_string (map fst logs) = Some hids \<and>
       write_key mine theirs logs (hd hids) = Some hkey \<and>
       m = JObj (settings @ merged_fields logs hids hkey)"
proof -
  define settings where "settings = (if w then dmerge (settings_of theirs) (settings_of mine)
    else dmerge (settings_of mine) (settings_of theirs))"
  have dom: "fst ` set (dmerge a b) = fst ` set a \<union> fst ` set b" for a b :: "jsval dict"
    unfolding dmerge_def
  proof (induction b arbitrary: a)
    case (Cons kv b)
    have "fst ` set (AList.update (fst kv) (snd kv) a) = insert (fst kv) (fst ` set a)"
      unfolding dom_map_of_conv_image_fst [symmetric] by (simp add: update_conv')
    with Cons show ?case by auto
  qed simp
  have "fst ` set (settings_of v) \<inter> set key_fields = {}" for v by (auto simp: settings_of_def)
  then have free: "\<forall>f \<in> set key_fields. map_of settings f = None"
    unfolding settings_def map_of_eq_None_iff by (auto simp: dom)
  from assms obtain logs1 logs where 1: "note_side mine [] = Some logs1" "note_side theirs logs1 = Some logs"
    and 2: "(if logs = [] then Some (JObj settings)
          else do {
            hids \<leftarrow> sort_by_string (map fst logs);
            hkey \<leftarrow> write_key mine theirs logs (hd hids);
            Some (JObj (settings @ merged_fields logs hids hkey)) }) = Some m"
    by (auto simp: mergeChanKeys_def settings_def [symmetric] bind_eq_Some_conv Let_def)
  from 2 show thesis by (intro that [OF 1 free]) (auto simp: bind_eq_Some_conv)
qed

lemma write_key_cases:
  assumes "write_key mine theirs logs primary = Some hkey"
  shows "(\<exists>v \<in> {mine, theirs}. oprop v ''hid'' = primary \<and> hkey = oprop v ''hkey'' \<and> truthy hkey) \<or>
    hkey = first_or_undef (log_keys logs primary)"
proof -
  let ?c = "filter truthy
    ((if oprop mine ''hid'' = primary then [oprop mine ''hkey''] else []) @
     (if oprop theirs ''hid'' = primary then [oprop theirs ''hkey''] else []))"
  from assms obtain ps where ps: "sort_by_string ?c = Some ps"
    and hkey: "hkey = (if ps = [] then first_or_undef (log_keys logs primary) else hd ps)"
    by (auto simp: write_key_def bind_eq_Some_conv)
  show ?thesis
  proof (cases "ps = []")
    case False
    then have "hkey \<in> set ?c" using set_sort_by_string [OF ps] hkey by (metis list.set_sel(1))
    then show ?thesis by (auto split: if_splits)
  qed (simp add: hkey)
qed

lemma first_key_in: "truthy (first_or_undef (log_keys logs h)) \<Longrightarrow> first_or_undef (log_keys logs h) \<in> keys_of logs"
  by (auto simp: first_or_undef_def log_keys_def keys_of_def split: option.splits list.splits intro!: exI [of _ h])

lemma keys_of_concat: "distinct (map fst logs) \<Longrightarrow> set (concat (map snd logs)) = keys_of logs"
  by (force simp: keys_of_def)

text \<open>
  The keys a merged entry holds are exactly those of its logs.
\<close>

lemma side_keys_merged:
  assumes ok: "logs_ok logs" and hids: "set hids = fst ` set logs" "hids \<noteq> []"
    and free: "\<forall>f \<in> set key_fields. map_of settings f = None"
    and hkey: "truthy hkey \<Longrightarrow> hkey \<in> keys_of logs"
  shows "set (side_keys (JObj (settings @ merged_fields logs hids hkey))) = keys_of logs"
proof -
  let ?m = "JObj (settings @ merged_fields logs hids hkey)"
  let ?hkeys = "filter (\<lambda>k. truthy k \<and> k \<noteq> hkey) (uniq (concat (map snd logs)))"
  let ?alts = "filter (\<lambda>a. truthy (snd a)) (map (\<lambda>hid. (hid, first_or_undef (log_keys logs hid))) (tl hids))"
  have free': "map_of settings ''hid'' = None" "map_of settings ''hkey'' = None"
      "map_of settings ''hkeys'' = None" "map_of settings ''alts'' = None"
    using free by (auto simp: key_fields_def)
  note fields = free' merged_fields_def Let_def map_add_def map_of_append
  have 1: "oprop ?m ''hid'' = hd hids" by (simp add: fields)
  have 2: "oprop ?m ''hkey'' = (if truthy hkey then hkey else JUndef)" by (simp add: fields)
  have 3: "side_list ?m ''hkeys'' = ?hkeys" by (simp add: fields side_list_def)
  have 4: "side_list ?m ''alts'' = map (\<lambda>a. JObj [(''hid'', fst a), (''hkey'', snd a)]) ?alts"
    by (simp add: fields side_list_def)
  have t: "truthy (hd hids)" using ok hids hd_in_set [of hids] by (auto simp: logs_ok_def)
  have "set (side_keys ?m) = {k. truthy k \<and> (k = hkey \<or> k \<in> set ?hkeys \<or>
      (\<exists>a \<in> set ?alts. truthy (fst a) \<and> k = snd a))}"
    unfolding side_keys_def 1 2 3 4 filter_map using t by (auto simp: image_iff)
  also have "\<dots> = keys_of logs"
    using ok hkey first_key_in keys_of_concat [of logs]
    by (auto simp: logs_ok_def)
  finally show ?thesis .
qed

lemma logs_ok_Nil [simp]: "logs_ok []" "keys_of [] = {}"
  by (simp_all add: logs_ok_def keys_of_def)

lemma side_head: "truthy (oprop v ''hid'') \<Longrightarrow> truthy (oprop v ''hkey'') \<Longrightarrow> oprop v ''hkey'' \<in> set (side_keys v)"
  by (simp add: side_keys_def)

lemma mergeChanKeys_keys:
  assumes "mergeChanKeys mine theirs mineWins = Some m"
  shows "set (side_keys m) = set (side_keys mine) \<union> set (side_keys theirs)"
  using assms
proof (rule mergeChanKeys_SomeD)
  fix settings logs1 logs
  assume 1: "note_side mine [] = Some logs1" "note_side theirs logs1 = Some logs"
    and free: "\<forall>f \<in> set key_fields. map_of settings f = None"
    and empty: "logs = [] \<Longrightarrow> m = JObj settings"
    and full: "logs \<noteq> [] \<Longrightarrow> \<exists>hids hkey. sort_by_string (map fst logs) = Some hids \<and>
       write_key mine theirs logs (hd hids) = Some hkey \<and> m = JObj (settings @ merged_fields logs hids hkey)"
  note noted = note_side_SomeD [OF 1(1)] note_side_SomeD [OF 1(2)]
  have keys: "keys_of logs = set (side_keys mine) \<union> set (side_keys theirs)" and ok: "logs_ok logs"
    using noted by auto
  show ?thesis
  proof (cases "logs = []")
    case True
    have "map_of settings ''hid'' = None" "map_of settings ''alts'' = None"
      using free by (auto simp: key_fields_def)
    then have "side_keys (JObj settings) = []" by (simp add: side_keys_def side_list_def)
    with True keys empty show ?thesis by simp
  next
    case False
    with full obtain hids hkey where hids: "sort_by_string (map fst logs) = Some hids"
      and hkey: "write_key mine theirs logs (hd hids) = Some hkey"
      and m: "m = JObj (settings @ merged_fields logs hids hkey)" by blast
    have sets: "set hids = fst ` set logs" using set_sort_by_string [OF hids] by simp
    with False have ne: "hids \<noteq> []" by auto
    with sets ok have "truthy (hd hids)" using hd_in_set [of hids] by (auto simp: logs_ok_def)
    then have "hkey \<in> keys_of logs" if "truthy hkey"
      using write_key_cases [OF hkey] that side_head first_key_in keys by auto
    from side_keys_merged [OF ok sets ne free this] keys m show ?thesis by simp
  qed
qed

text \<open>
  C3: merging two views of a channel never loses a room key, and never invents one: whoever's settings
  win, the keys the merged entry can read with are exactly the union of the keys the two sides held.
  Losing one would make every message under it unreadable.
\<close>

theorem merge_keeps_every_key:
  assumes "mergeChanKeys mine theirs mineWins = Some m"
  shows "set (side_keys m) = set (side_keys mine) \<union> set (side_keys theirs)"
  using assms by (rule mergeChanKeys_keys)

definition example_side :: "string \<Rightarrow> string \<Rightarrow> jsval" where
  "example_side hid hkey = JObj [(''topic'', JStr hid), (''hid'', JStr hid), (''hkey'', JStr hkey)]"

theorem merge_keeps_every_key_witness:
  "\<exists>m. mergeChanKeys (example_side ''b'' ''k1'') (example_side ''a'' ''k2'') False = Some m \<and>
     set (side_keys m) = {JStr ''k1'', JStr ''k2''}"
proof -
  obtain m where m: "mergeChanKeys (example_side ''b'' ''k1'') (example_side ''a'' ''k2'') False = Some m"
    by (simp add: mergeChanKeys_def note_side_def note_log_def example_side_def sort_by_string_def write_key_def Let_def)
  from merge_keeps_every_key [OF m] m show ?thesis
    by (auto simp: example_side_def side_keys_def side_list_def)
qed

section \<open>Devices converge on one log\<close>

definition is_jstr :: "jsval \<Rightarrow> bool" where
  "is_jstr v = (case v of JStr _ \<Rightarrow> True | _ \<Rightarrow> False)"

definition str_view :: "jsval \<Rightarrow> bool" where
  \<comment> \<open>log ids and keys are strings, as the client mints them\<close>
  "str_view v \<longleftrightarrow> list_all is_jstr (side_logs v) \<and> list_all is_jstr (side_keys v)"

lemma all_jstr: "list_all is_jstr xs \<Longrightarrow> \<exists>ss. xs = map JStr ss"
  by (induction xs) (auto simp: is_jstr_def split: jsval.splits, metis list.simps(9))

lemma insort_key_JStr: "insort_key fst (a, JStr a) (map (\<lambda>s. (s, JStr s)) xs) = map (\<lambda>s. (s, JStr s)) (insort a xs)"
  by (induction xs) auto

lemma sort_by_string_strs: "sort_by_string (map JStr ss) = Some (map JStr (sort ss))"
proof -
  have m: "mapM to_str (map JStr ss) = Some ss" by (induction ss) auto
  have z: "zip ss (map JStr ss) = map (\<lambda>s. (s, JStr s)) ss" by (induction ss) auto
  have "sort_key fst (map (\<lambda>s. (s, JStr s)) ss) = map (\<lambda>s. (s, JStr s)) (sort ss)"
    by (induction ss) (simp_all add: insort_key_JStr)
  then show ?thesis by (simp add: sort_by_string_def m z o_def)
qed

lemma lowest_string:
  assumes "list_all is_jstr xs" and "xs \<noteq> []" and "sort_by_string xs = Some ys"
  shows "hd ys = JStr (Min {s. JStr s \<in> set xs})"
proof -
  obtain ss where ss: "xs = map JStr ss" using all_jstr [OF assms(1)] by blast
  have "{s. JStr s \<in> set xs} = set ss" by (auto simp: ss)
  moreover have "sort ss \<noteq> []" using assms(2) ss by (metis length_0_conv length_sort list.map_disc_iff)
  then have "hd ys = JStr (hd (sort ss))"
    using assms(3) by (auto simp: ss sort_by_string_strs hd_map)
  ultimately show ?thesis using hd_sort_Min [of ss] assms(2) ss by simp
qed

lemma finite_strs: "finite {s. JStr s \<in> set xs}"
  using finite_vimageI [of "set xs" JStr] by (simp add: inj_def vimage_def)

definition known_logs :: "jsval \<Rightarrow> jsval \<Rightarrow> string set" where
  "known_logs a b = {s. JStr s \<in> set (side_logs a) \<union> set (side_logs b)}"

definition current_keys :: "jsval \<Rightarrow> jsval \<Rightarrow> jsval \<Rightarrow> string set" where
  \<comment> \<open>the keys under which a side currently writes to the log\<close>
  "current_keys a b hid = {s. s \<noteq> [] \<and> (\<exists>v \<in> {a, b}. oprop v ''hid'' = hid \<and> oprop v ''hkey'' = JStr s)}"

lemma merged_choice:
  assumes "mergeChanKeys a b w = Some m" and "str_view a" and "str_view b" and "known_logs a b \<noteq> {}"
  shows "oprop m ''hid'' = JStr (Min (known_logs a b)) \<and>
    (current_keys a b (oprop m ''hid'') \<noteq> {} \<longrightarrow>
       oprop m ''hkey'' = JStr (Min (current_keys a b (oprop m ''hid''))))"
  using assms(1)
proof (rule mergeChanKeys_SomeD)
  fix settings logs1 logs
  assume 1: "note_side a [] = Some logs1" "note_side b logs1 = Some logs"
    and free: "\<forall>f \<in> set key_fields. map_of settings f = None"
    and full: "logs \<noteq> [] \<Longrightarrow> \<exists>hids hkey. sort_by_string (map fst logs) = Some hids \<and>
       write_key a b logs (hd hids) = Some hkey \<and> m = JObj (settings @ merged_fields logs hids hkey)"
  have logs: "fst ` set logs = set (side_logs a) \<union> set (side_logs b)"
    using note_side_SomeD [OF 1(1)] note_side_SomeD [OF 1(2)] by auto
  then have ne: "logs \<noteq> []" using assms(4) by (auto simp: known_logs_def)
  with full obtain hids hkey where hids: "sort_by_string (map fst logs) = Some hids"
    and hkey: "write_key a b logs (hd hids) = Some hkey"
    and m: "m = JObj (settings @ merged_fields logs hids hkey)" by blast
  have "list_all is_jstr (map fst logs)"
    using assms(2,3) logs unfolding str_view_def list_all_iff by auto
  from lowest_string [OF this _ hids] ne logs
  have hd: "hd hids = JStr (Min (known_logs a b))" by (simp add: known_logs_def)
  have free': "map_of settings ''hid'' = None" "map_of settings ''hkey'' = None"
    using free by (auto simp: key_fields_def)
  have hid: "oprop m ''hid'' = hd hids" and hk: "truthy hkey \<Longrightarrow> oprop m ''hkey'' = hkey"
    by (simp_all add: m free' merged_fields_def Let_def map_add_def map_of_append)
  let ?c = "filter truthy ((if oprop a ''hid'' = hd hids then [oprop a ''hkey''] else []) @
     (if oprop b ''hid'' = hd hids then [oprop b ''hkey''] else []))"
  have "truthy (hd hids)"
  proof -
    have "hd hids \<in> fst ` set logs"
      using set_sort_by_string [OF hids] ne
      by (metis image_is_empty list.set_map list.set_sel(1) set_empty)
    then show ?thesis unfolding logs side_logs_def set_filter by blast
  qed
  then have sub: "set ?c \<subseteq> set (side_keys a) \<union> set (side_keys b)"
    by (auto simp: side_keys_def split: if_splits)
  then have strs: "list_all is_jstr ?c" using assms(2,3) unfolding str_view_def list_all_iff by blast
  have cur: "{s. JStr s \<in> set ?c} = current_keys a b (hd hids)"
    by (auto simp: current_keys_def split: if_splits)
  have "hkey = JStr (Min (current_keys a b (hd hids)))" if some: "current_keys a b (hd hids) \<noteq> {}"
  proof -
    have nc: "?c \<noteq> []" using some cur by (metis (no_types, lifting) Collect_empty_eq empty_iff empty_set)
    from hkey obtain ps where ps: "sort_by_string ?c = Some ps"
      and k: "hkey = (if ps = [] then first_or_undef (log_keys logs (hd hids)) else hd ps)"
      by (auto simp: write_key_def bind_eq_Some_conv)
    have "ps \<noteq> []" using nc set_sort_by_string [OF ps] by (metis set_empty)
    with k lowest_string [OF strs nc ps] show ?thesis unfolding cur by simp
  qed
  moreover have "truthy (JStr (Min (current_keys a b (hd hids))))" if "current_keys a b (hd hids) \<noteq> {}"
  proof -
    have "finite (current_keys a b (hd hids))"
      unfolding cur [symmetric] by (rule finite_strs)
    from Min_in [OF this that] show ?thesis by (simp add: current_keys_def)
  qed
  ultimately show ?thesis using hid hd hk by auto
qed

text \<open>
  C34: two devices that merge the same two views of a channel, in either role and whoever's settings
  win, write to the same log: the lowest log id either knows, with no talking. If some side is already
  writing to that log they also agree on the key.
\<close>

theorem merge_converges:
  assumes "mergeChanKeys a b w = Some m" and "mergeChanKeys b a w' = Some m'"
    and "str_view a" and "str_view b" and "known_logs a b \<noteq> {}"
  shows "oprop m ''hid'' = JStr (Min (known_logs a b)) \<and> oprop m' ''hid'' = oprop m ''hid'' \<and>
    (current_keys a b (oprop m ''hid'') \<noteq> {} \<longrightarrow> oprop m' ''hkey'' = oprop m ''hkey'')"
proof -
  have "known_logs b a = known_logs a b" by (auto simp: known_logs_def)
  moreover have "current_keys b a h = current_keys a b h" for h by (auto simp: current_keys_def)
  ultimately show ?thesis
    using merged_choice [OF assms(1,3,4,5)] merged_choice [OF assms(2,4,3)] assms(5) by auto
qed

theorem merge_converges_witness:
  "\<exists>m m'. mergeChanKeys (example_side ''b'' ''k1'') (example_side ''a'' ''k2'') False = Some m \<and>
     mergeChanKeys (example_side ''a'' ''k2'') (example_side ''b'' ''k1'') True = Some m' \<and>
     oprop m' ''hid'' = oprop m ''hid'' \<and> oprop m' ''hkey'' = oprop m ''hkey''"
proof -
  note evals = mergeChanKeys_def note_side_def note_log_def example_side_def sort_by_string_def write_key_def Let_def
  obtain m where m: "mergeChanKeys (example_side ''b'' ''k1'') (example_side ''a'' ''k2'') False = Some m"
    by (simp add: evals)
  obtain m' where m': "mergeChanKeys (example_side ''a'' ''k2'') (example_side ''b'' ''k1'') True = Some m'"
    by (simp add: evals)
  note views = example_side_def side_logs_def side_keys_def side_list_def
  have s: "str_view (example_side ''b'' ''k1'')" "str_view (example_side ''a'' ''k2'')"
    by (simp_all add: views str_view_def is_jstr_def)
  have k: "known_logs (example_side ''b'' ''k1'') (example_side ''a'' ''k2'') = {''a'', ''b''}"
    by (auto simp: known_logs_def views)
  then have ne: "known_logs (example_side ''b'' ''k1'') (example_side ''a'' ''k2'') \<noteq> {}" by simp
  note agree = merge_converges [OF m m' s ne]
  have "oprop m ''hid'' = JStr ''a''" using agree unfolding k by simp
  moreover have "''k2'' \<in> current_keys (example_side ''b'' ''k1'') (example_side ''a'' ''k2'') (JStr ''a'')"
    by (simp add: current_keys_def example_side_def)
  ultimately have "current_keys (example_side ''b'' ''k1'') (example_side ''a'' ''k2'') (oprop m ''hid'') \<noteq> {}"
    by (metis empty_iff)
  with agree m m' show ?thesis by blast
qed

end
