(* ===== verification/Envelope_Rules.thy ===== *)
theory Envelope_Rules
  imports Envelope
begin

text \<open>
  What the reducer \<open>applyEnvelope\<close> guarantees for every envelope: who may change what, that the rooms
  and the boards keep their invariants, that deletions stick, and that nobody writes in another's name.
  Each theorem goes through \<open>applyEnvelope_cases\<close> and one lemma per handler.
\<close>

section \<open>Case analysis\<close>

lemma applyEnvelope_cases:
  assumes "applyEnvelope r sender content x = Some (r', es)"
  obtains (same) "r' = r" "es = []"
  | (kind) k where "\<not> refused content x" "oprop content ''k'' = JStr k"
      "handle_kind k r sender content x = Some (r', es)"
  using assms
  by (cases "oprop content ''k''") (auto simp: applyEnvelope_def split: if_splits)

text \<open>The kinds an envelope may have, and what each leaves unchanged, handler by handler.\<close>

lemma ensureChannel_frame [simp]:
  "c_id (ensureChannel r ch) = c_id r" "voiceChannels (ensureChannel r ch) = voiceChannels r"
  "chanMeta (ensureChannel r ch) = chanMeta r" "overview (ensureChannel r ch) = overview r"
  "notices (ensureChannel r ch) = notices r" "offers (ensureChannel r ch) = offers r"
  "proposals (ensureChannel r ch) = proposals r" "threshold (ensureChannel r ch) = threshold r"
  "deletedChannels (ensureChannel r ch) = deletedChannels r" "deletedVoice (ensureChannel r ch) = deletedVoice r"
  "rsvps (ensureChannel r ch) = rsvps r" "members (ensureChannel r ch) = members r" "roles (ensureChannel r ch) = roles r"
  "pendingMetaSync (ensureChannel r ch) = pendingMetaSync r" "voice_rooms (ensureChannel r ch) = voice_rooms r"
  by (simp_all add: ensureChannel_def voice_rooms_def)

definition say_kinds :: "string set" where
  \<comment> \<open>kinds that store a line, and so may open a channel\<close>
  "say_kinds = {''chat'', ''game'', ''file''}"

definition board_kinds :: "string set" where
  "board_kinds = {''rsvp'', ''notice'', ''offer'', ''quorum''}"

definition admin_kinds :: "string set" where
  "admin_kinds = {''chanset'', ''overview'', ''threshold'', ''chan'', ''vchan'', ''chan-ren'', ''chan-del'',
     ''vchan-ren'', ''vchan-del''}"

lemma refused_iff:
  "oprop content ''k'' = JStr k \<Longrightarrow> k \<in> admin_kinds \<Longrightarrow> refused content x \<longleftrightarrow> \<not> ctx_isAdmin x"
  by (auto simp: refused_def adminRequirement_def admin_kinds_def Let_def)

lemma say_step:
  assumes "k \<in> say_kinds" and "handle_kind k r sender content x = Some (r', es)"
  shows "r' = r \<or> r' = ensureChannel r (oprop content ''ch'')"
  using assms
  by (auto simp: say_kinds_def handle_kind_def apply_chat_def apply_game_def apply_file_def run_simps
      split: option.splits)

lemma quiet_step:
  assumes "handle_kind k r sender content x = Some (r', es)"
    and "k \<notin> say_kinds \<union> board_kinds \<union> admin_kinds \<union> {''meta''}"
  shows "r' = r"
  using assms
  by (auto simp: say_kinds_def board_kinds_def admin_kinds_def handle_kind_def apply_pres_def apply_want_def
      apply_type_def apply_react_def apply_edit_def apply_del_def apply_role_def run_simps split: if_splits)

definition governed :: "circle \<Rightarrow> circle" where
  \<comment> \<open>the part of a circle no member may change by writing on its boards\<close>
  "governed r = r\<lparr>rsvps := None, notices := None, offers := None, proposals := None\<rparr>"

lemma governedD:
  assumes "governed r' = governed r"
  shows "c_id r' = c_id r" "c_name r' = c_name r" "channels r' = channels r"
    "voiceChannels r' = voiceChannels r" "chanMeta r' = chanMeta r"
    "overview r' = overview r" "threshold r' = threshold r" "deletedChannels r' = deletedChannels r"
    "deletedVoice r' = deletedVoice r" "members r' = members r" "roles r' = roles r"
    "pendingMetaSync r' = pendingMetaSync r" "voice_rooms r' = voice_rooms r"
proof -
  have fields: "c_id (governed q) = c_id q" "c_name (governed q) = c_name q" "channels (governed q) = channels q"
      "voiceChannels (governed q) = voiceChannels q" "chanMeta (governed q) = chanMeta q"
      "overview (governed q) = overview q" "threshold (governed q) = threshold q"
      "deletedChannels (governed q) = deletedChannels q" "deletedVoice (governed q) = deletedVoice q"
      "members (governed q) = members q" "roles (governed q) = roles q"
      "pendingMetaSync (governed q) = pendingMetaSync q" for q
    by (simp_all add: governed_def)
  show "c_id r' = c_id r" "c_name r' = c_name r" "channels r' = channels r"
    "voiceChannels r' = voiceChannels r" "chanMeta r' = chanMeta r"
    "overview r' = overview r" "threshold r' = threshold r" "deletedChannels r' = deletedChannels r"
    "deletedVoice r' = deletedVoice r" "members r' = members r" "roles r' = roles r"
    "pendingMetaSync r' = pendingMetaSync r"
    using assms fields by metis+
  then show "voice_rooms r' = voice_rooms r" by (simp add: voice_rooms_def)
qed

lemma board_step:
  assumes "k \<in> board_kinds" and "handle_kind k r sender content x = Some (r', es)"
  shows "governed r' = governed r"
proof -
  from assms(1) consider "k = ''rsvp''" | "k = ''notice''" | "k = ''offer''" | "k = ''quorum''"
    by (auto simp: board_kinds_def)
  then show ?thesis
  proof cases
    case 1
    with assms(2) obtain n where "apply_rsvp r sender content x = Some (r', es)" "num_prop content ''at'' = Some n"
      by (auto simp: handle_kind_def apply_rsvp_def run_simps)
    then show ?thesis by (cases n) (auto simp: apply_rsvp_def Let_def governed_def)
  next
    case 2
    with assms(2) show ?thesis
      by (auto simp: handle_kind_def apply_notice_def run_simps governed_def split: if_splits option.splits)
  next
    case 3
    with assms(2) show ?thesis
      by (auto simp: handle_kind_def apply_offer_def run_simps governed_def split: if_splits option.splits)
  next
    case 4
    with assms(2) show ?thesis
      by (auto simp: handle_kind_def apply_quorum_def run_simps governed_def split: if_splits option.splits)
  qed
qed

section \<open>Who may govern\<close>

lemma nonadmin_step:
  assumes "applyEnvelope r sender content x = Some (r', es)" and "\<not> ctx_isAdmin x"
    and "oprop content ''k'' \<noteq> JStr ''meta''"
  shows "governed r' = governed r \<or> r' = ensureChannel r (oprop content ''ch'')"
  using assms(1)
proof (cases rule: applyEnvelope_cases)
  case (kind k)
  have "k \<notin> admin_kinds" using kind(1) refused_iff [OF kind(2)] assms(2) by blast
  moreover have "k \<noteq> ''meta''" using kind(2) assms(3) by auto
  ultimately show ?thesis using say_step [OF _ kind(3)] board_step [OF _ kind(3)] quiet_step [OF kind(3)] by blast
qed simp

text \<open>
  C1: governing a circle takes an admin. Whatever envelope a member without the admin role sends, short
  of a metadata rebroadcast, the rooms, their settings and keys, the home base, the threshold, the
  tombstones and the roster stay as they were. The one thing such an envelope can add is a single text
  channel it writes a line in, and never a tombstoned one or the chat of a call.
\<close>

theorem only_admins_govern:
  assumes "applyEnvelope r sender content x = Some (r', es)" and "\<not> ctx_isAdmin x"
    and "oprop content ''k'' \<noteq> JStr ''meta''"
  shows "voiceChannels r' = voiceChannels r \<and> chanMeta r' = chanMeta r \<and> overview r' = overview r \<and>
    threshold r' = threshold r \<and> deletedChannels r' = deletedChannels r \<and> deletedVoice r' = deletedVoice r \<and>
    members r' = members r \<and> roles r' = roles r \<and>
    (channels r' = channels r \<or>
     (\<exists>ch. channels r' = channels r @ [ch] \<and> ch \<notin> set (channels r) \<and>
        ch \<notin> set (list_or_empty (deletedChannels r)) \<and> \<not> isCallChat ch))"
  using nonadmin_step [OF assms]
proof
  assume "governed r' = governed r"
  from governedD [OF this] show ?thesis by simp
next
  assume "r' = ensureChannel r (oprop content ''ch'')"
  then show ?thesis by (auto simp: ensureChannel_def)
qed

definition example_ctx :: "bool \<Rightarrow> ctx" where
  "example_ctx a = \<lparr>ctx_isAdmin = a, ctx_now = 1000, ctx_clock = 1000, ctx_inCall = None\<rparr>"

definition example_delete :: jsval where
  "example_delete = JObj [(''k'', JStr ''chan-del''), (''ch'', JStr ''general'')]"

theorem only_admins_govern_witness:
  "\<exists>r'. applyEnvelope (empty_circle ''c'') ''mallory'' example_delete (example_ctx False) = Some (r', []) \<and>
     deletedChannels r' = None"
proof -
  have run: "applyEnvelope (empty_circle ''c'') ''mallory'' example_delete (example_ctx False) =
      Some (empty_circle ''c'', [])"
    by (simp add: applyEnvelope_def refused_def adminRequirement_def example_delete_def example_ctx_def Let_def)
  have "deletedChannels (empty_circle ''c'') = deletedChannels (empty_circle ''c'') \<and> deletedChannels (empty_circle ''c'') = None"
    using only_admins_govern [OF run] by (simp add: example_ctx_def example_delete_def empty_circle_def)
  with run show ?thesis by blast
qed

section \<open>Rooms and tombstones\<close>

definition tomb_ok :: "jsval list option \<Rightarrow> bool" where
  "tomb_ok d \<longleftrightarrow> distinct (list_or_empty d) \<and> length (list_or_empty d) \<le> DELETED_MAX"

definition rooms_ok :: "circle \<Rightarrow> bool" where
  \<comment> \<open>a text channel to write in, no room twice, bounded tombstones\<close>
  "rooms_ok r \<longleftrightarrow> channels r \<noteq> [] \<and> distinct (channels r) \<and> distinct (voice_rooms r) \<and>
     tomb_ok (deletedChannels r) \<and> tomb_ok (deletedVoice r)"

lemma tomb_ok_tombstone: "tomb_ok (tombstone d ch)"
  by (simp add: tomb_ok_def tombstone_def distinct_last_n length_last_n)

lemma tomb_ok_filter: "tomb_ok d \<Longrightarrow> tomb_ok (map_option (filter P) d)"
  by (cases d) (auto simp: tomb_ok_def length_filter_bound)

lemma tomb_ok_untombstone: "tomb_ok d \<Longrightarrow> tomb_ok (untombstone d ch)"
  by (simp add: untombstone_def tomb_ok_filter)

lemma distinct_rename_in: "distinct xs \<Longrightarrow> b \<notin> set xs \<Longrightarrow> distinct (rename_in a b xs)"
  by (auto simp: rename_in_def distinct_map inj_on_def)

lemma ensureChannel_rooms_ok: "rooms_ok r \<Longrightarrow> rooms_ok (ensureChannel r ch)"
  by (auto simp: rooms_ok_def ensureChannel_def voice_rooms_def)

lemma union_rooms_mem:
  "c \<in> set (union_rooms dead news mine) \<Longrightarrow> c \<in> set mine \<or> (c \<in> set news \<and> c \<notin> set dead)"
  unfolding union_rooms_def
proof (induction news arbitrary: mine)
  case (Cons a news)
  let ?m = "if a \<in> set mine \<or> a \<in> set dead then mine else mine @ [a]"
  have "c \<in> set ?m \<or> (c \<in> set news \<and> c \<notin> set dead)" using Cons.prems by (intro Cons.IH) simp
  then show ?case by (auto split: if_splits)
qed simp

lemma union_rooms_keeps: "set mine \<subseteq> set (union_rooms dead news mine)"
proof (induction news arbitrary: mine)
  case (Cons a news)
  show ?case using Cons.IH [of "if a \<in> set mine \<or> a \<in> set dead then mine else mine @ [a]"]
    by (auto simp: union_rooms_def split: if_splits)
qed (simp add: union_rooms_def)

lemma union_rooms_nonempty [simp]: "mine \<noteq> [] \<Longrightarrow> union_rooms dead news mine \<noteq> []"
  by (metis set_empty subset_empty union_rooms_keeps)

lemma distinct_union_rooms: "distinct mine \<Longrightarrow> distinct (union_rooms dead news mine)"
proof (induction news arbitrary: mine)
  case (Cons a news)
  then have "distinct (union_rooms dead news (if a \<in> set mine \<or> a \<in> set dead then mine else mine @ [a]))"
    by (intro Cons.IH) auto
  then show ?case by (simp add: union_rooms_def)
qed (simp add: union_rooms_def)

definition shape :: "circle \<Rightarrow> jsval list \<times> jsval list option \<times> jsval list option \<times> jsval list option \<times> bool" where
  "shape r = (channels r, voiceChannels r, deletedChannels r, deletedVoice r, pendingMetaSync r)"

lemma shapeD:
  assumes "shape r' = shape r"
  shows "channels r' = channels r" "voiceChannels r' = voiceChannels r" "deletedChannels r' = deletedChannels r"
    "deletedVoice r' = deletedVoice r" "voice_rooms r' = voice_rooms r" "pendingMetaSync r' = pendingMetaSync r"
    "rooms_ok r' \<longleftrightarrow> rooms_ok r"
  using assms by (simp_all add: shape_def voice_rooms_def rooms_ok_def)

lemma andThen_SomeD:
  assumes "andThen a f = Some (r', es)"
  obtains r1 e1 e2 where "a = Some (r1, e1)" "f r1 = Some (r', e2)" "es = e1 @ e2"
  using assms by (auto simp: andThen_def run_simps split: prod.splits)

lemma meta_parts_shape:
  "meta_overview r content t = Some (r', es) \<Longrightarrow> shape r' = shape r"
  "meta_notices r content t = Some (r', es) \<Longrightarrow> shape r' = shape r"
  "meta_offers r content t = Some (r', es) \<Longrightarrow> shape r' = shape r"
  "meta_ledger r content t = Some (r', es) \<Longrightarrow> shape r' = shape r"
  "meta_rsvps r content t = Some (r', es) \<Longrightarrow> shape r' = shape r"
  "meta_chans r content = Some (r', es) \<Longrightarrow> shape r' = shape r"
  by (auto simp: meta_overview_def meta_notices_def meta_offers_def meta_ledger_def meta_rsvps_def
      meta_chans_def shape_def run_simps split: if_splits option.splits)

lemma meta_union_shape:
  assumes "meta_union r content t = Some (r', es)"
  obtains r1 e1 where "meta_rooms r content = Some (r1, e1)" "shape r' = shape r1"
  using assms unfolding meta_union_def
  by (elim andThen_SomeD) (drule meta_parts_shape | simp)+

lemma meta_rooms_SomeD:
  assumes "meta_rooms r content = Some (r', es)"
  obtains chs vs where "channels r' = union_rooms (list_or_empty (deletedChannels r)) chs (channels r)"
    "voiceChannels r' = voiceChannels r \<or>
     voiceChannels r' = Some (union_rooms (list_or_empty (deletedVoice r)) vs (voice_rooms r))"
    "deletedChannels r' = deletedChannels r" "deletedVoice r' = deletedVoice r" "chanMeta r' = chanMeta r"
  using assms by (auto simp: meta_rooms_def run_simps split: if_splits) blast

lemma nonempty_array_SomeD: "nonempty_array v = Some xs \<Longrightarrow> xs \<noteq> []"
  by (cases v) (auto simp: nonempty_array_def nonempty_def split: if_splits)

lemma uniq_nonempty: "xs \<noteq> [] \<Longrightarrow> uniq xs \<noteq> []"
  by (metis set_empty set_uniq)

lemma meta_sync_rooms_ok:
  assumes "meta_sync r content t = Some (r', es)" and "rooms_ok r"
  shows "rooms_ok r'"
proof -
  from assms(1) obtain p where p: "reconcileMeta content t = Some p"
    and r': "r' = (let r1 = adopt_patch (r\<lparr>pendingMetaSync := False\<rparr>) p in
      r1\<lparr>deletedChannels := map_option (filter (\<lambda>c. c \<notin> set (channels r1))) (deletedChannels r1),
         deletedVoice := map_option (filter (\<lambda>c. c \<notin> set (list_or_empty (voiceChannels r1)))) (deletedVoice r1)\<rparr>)"
    by (auto simp: meta_sync_def run_simps)
  have chs: "channels r' = (case mp_channels p of Some c \<Rightarrow> c | None \<Rightarrow> channels r)"
    and vs: "voiceChannels r' = (case mp_voice p of Some v \<Rightarrow> Some v | None \<Rightarrow> voiceChannels r)"
    by (simp_all add: r' adopt_patch_def Let_def split: option.split)
  have del: "tomb_ok (deletedChannels r')" "tomb_ok (deletedVoice r')"
    using assms(2) by (simp_all add: r' adopt_patch_def Let_def rooms_ok_def tomb_ok_filter)
  have c: "mp_channels p = map_option uniq (nonempty_array (oprop content ''channels''))"
    and v: "mp_voice p = map_option uniq (nonempty_array (oprop content ''voiceChannels''))"
    using p by (auto simp: reconcileMeta_def run_simps)
  have "channels r' \<noteq> [] \<and> distinct (channels r')"
    using chs c assms(2)
    by (cases "nonempty_array (oprop content ''channels'')")
      (auto simp: rooms_ok_def dest: nonempty_array_SomeD uniq_nonempty)
  moreover have "distinct (voice_rooms r')"
    using vs v assms(2)
    by (cases "nonempty_array (oprop content ''voiceChannels'')") (auto simp: rooms_ok_def voice_rooms_def)
  ultimately show ?thesis using del by (simp add: rooms_ok_def)
qed

lemma applyMeta_rooms_ok:
  assumes "applyMeta r content t = Some (r', es)" and "rooms_ok r"
  shows "rooms_ok r'"
proof -
  let ?r = "r\<lparr>c_name := coalesce (oprop content ''name'') (c_name r)\<rparr>"
  have ok: "rooms_ok ?r" using assms(2) by (simp add: rooms_ok_def voice_rooms_def)
  show ?thesis
  proof (cases "pendingMetaSync r")
    case True
    with assms(1) show ?thesis by (intro meta_sync_rooms_ok [OF _ ok]) (simp add: applyMeta_def)
  next
    case False
    with assms(1) have "meta_union ?r content t = Some (r', es)" by (simp add: applyMeta_def)
    then obtain r1 e1 where r1: "meta_rooms ?r content = Some (r1, e1)" and sh: "shape r' = shape r1"
      by (rule meta_union_shape)
    from r1 have "rooms_ok r1"
    proof (rule meta_rooms_SomeD)
      fix chs vs
      assume "channels r1 = union_rooms (list_or_empty (deletedChannels ?r)) chs (channels ?r)"
        "voiceChannels r1 = voiceChannels ?r \<or>
         voiceChannels r1 = Some (union_rooms (list_or_empty (deletedVoice ?r)) vs (voice_rooms ?r))"
        "deletedChannels r1 = deletedChannels ?r" "deletedVoice r1 = deletedVoice ?r"
      with ok show ?thesis
        by (auto simp: rooms_ok_def voice_rooms_def distinct_union_rooms)
    qed
    with shapeD(7) [OF sh] show ?thesis by simp
  qed
qed

lemma move_meta_shape: "move_meta r ch to = Some r' \<Longrightarrow> shape r' = shape r"
  by (auto simp: move_meta_def run_simps shape_def split: if_splits)

lemma drop_meta_shape: "drop_meta r ch = Some r' \<Longrightarrow> shape r' = shape r"
  by (auto simp: drop_meta_def run_simps shape_def split: if_splits)

lemmas mark_defs = markChannelDeleted_def clearChannelDeleted_def markVoiceDeleted_def clearVoiceDeleted_def

lemma apply_chan_ren_shape:
  assumes "apply_chan_ren r sender content = Some (r', es)" and "r' \<noteq> r"
  shows "oprop content ''ch'' \<in> set (channels r) \<and> oprop content ''to'' \<notin> set (channels r) \<and>
    channels r' = rename_in (oprop content ''ch'') (oprop content ''to'') (channels r) \<and>
    voiceChannels r' = voiceChannels r \<and> deletedVoice r' = deletedVoice r \<and>
    deletedChannels r' = untombstone (tombstone (deletedChannels r) (oprop content ''ch'')) (oprop content ''to'')"
  using assms
  by (auto simp: apply_chan_ren_def run_simps mark_defs split: if_splits dest!: move_meta_shape)
    (auto simp: shape_def)

lemma apply_chan_del_shape:
  assumes "apply_chan_del r sender content = Some (r', es)" and "r' \<noteq> r"
  shows "oprop content ''ch'' \<in> set (channels r) \<and> 1 < length (channels r) \<and>
    channels r' = filter (\<lambda>c. c \<noteq> oprop content ''ch'') (channels r) \<and>
    voiceChannels r' = voiceChannels r \<and> deletedVoice r' = deletedVoice r \<and>
    deletedChannels r' = tombstone (deletedChannels r) (oprop content ''ch'')"
  using assms
  by (auto simp: apply_chan_del_def run_simps mark_defs split: if_splits dest!: drop_meta_shape)
    (auto simp: shape_def)

lemma filter_other_nonempty: "distinct xs \<Longrightarrow> 1 < length xs \<Longrightarrow> filter (\<lambda>c. c \<noteq> a) xs \<noteq> []"
proof
  assume "distinct xs" "1 < length xs" "filter (\<lambda>c. c \<noteq> a) xs = []"
  then have "set xs \<subseteq> {a}" "card (set xs) = length xs" by (auto simp: filter_empty_conv distinct_card)
  with card_mono [of "{a}" "set xs"] \<open>1 < length xs\<close> show False by simp
qed

lemma apply_chan_ren_rooms_ok:
  assumes "apply_chan_ren r sender content = Some (r', es)" and "rooms_ok r"
  shows "rooms_ok r'"
proof (cases "r' = r")
  case False
  note sh = apply_chan_ren_shape [OF assms(1) False]
  have "channels r' \<noteq> [] \<and> distinct (channels r')"
    using sh assms(2) by (auto simp: rooms_ok_def distinct_rename_in) (simp add: rename_in_def)
  with sh assms(2) show ?thesis
    by (simp add: rooms_ok_def voice_rooms_def tomb_ok_untombstone tomb_ok_tombstone)
qed (simp add: assms(2))

lemma apply_chan_del_rooms_ok:
  assumes "apply_chan_del r sender content = Some (r', es)" and "rooms_ok r"
  shows "rooms_ok r'"
proof (cases "r' = r")
  case False
  note sh = apply_chan_del_shape [OF assms(1) False]
  then have "channels r' \<noteq> []" using assms(2) by (simp add: rooms_ok_def filter_other_nonempty)
  with sh assms(2) show ?thesis by (simp add: rooms_ok_def voice_rooms_def tomb_ok_tombstone)
qed (simp add: assms(2))

lemma apply_room_rooms_ok:
  assumes "rooms_ok r"
  shows "apply_chan r sender content = Some (r', es) \<Longrightarrow> rooms_ok r'"
    and "apply_vchan r sender content = Some (r', es) \<Longrightarrow> rooms_ok r'"
    and "apply_vchan_ren r sender content x = Some (r', es) \<Longrightarrow> rooms_ok r'"
    and "apply_vchan_del r sender content x = Some (r', es) \<Longrightarrow> rooms_ok r'"
    and "apply_chanset r sender content = Some (r', es) \<Longrightarrow> rooms_ok r'"
    and "apply_overview r sender content x = Some (r', es) \<Longrightarrow> rooms_ok r'"
    and "apply_threshold r sender content = Some (r', es) \<Longrightarrow> rooms_ok r'"
  using assms
  by (auto simp: apply_chan_def apply_vchan_def apply_vchan_ren_def apply_vchan_del_def apply_chanset_def
      apply_overview_def apply_threshold_def run_simps mark_defs rooms_ok_def voice_rooms_def
      tomb_ok_untombstone tomb_ok_tombstone distinct_rename_in split: if_splits option.splits)

lemma admin_step_rooms_ok:
  assumes "k \<in> admin_kinds" and "handle_kind k r sender content x = Some (r', es)" and "rooms_ok r"
  shows "rooms_ok r'"
  using assms(1,2) apply_room_rooms_ok [OF assms(3)] apply_chan_ren_rooms_ok [OF _ assms(3)]
    apply_chan_del_rooms_ok [OF _ assms(3)]
  by (auto simp: admin_kinds_def handle_kind_def)

text \<open>
  C36: the shape of a circle stays sound under every envelope, of any kind and from anyone, a rejoin's
  wholesale snapshot included: there is always a text channel left to write in, no text channel and no
  voice room is listed twice, and the tombstones are free of duplicates and within \<open>DELETED_MAX\<close>.
\<close>

theorem rooms_stay_sound:
  assumes "applyEnvelope r sender content x = Some (r', es)" and "rooms_ok r"
  shows "rooms_ok r'"
  using assms(1)
proof (cases rule: applyEnvelope_cases)
  case same
  with assms(2) show ?thesis by simp
next
  case (kind k)
  consider "k \<in> say_kinds" | "k \<in> board_kinds" | "k \<in> admin_kinds" | "k = ''meta''"
    | "k \<notin> say_kinds \<union> board_kinds \<union> admin_kinds \<union> {''meta''}" by blast
  then show ?thesis
  proof cases
    case 1
    from say_step [OF this kind(3)] assms(2) ensureChannel_rooms_ok show ?thesis by auto
  next
    case 2
    from governedD [OF board_step [OF this kind(3)]] assms(2) show ?thesis by (simp add: rooms_ok_def)
  next
    case 3
    from admin_step_rooms_ok [OF this kind(3) assms(2)] show ?thesis .
  next
    case 4
    with kind(3) have "applyMeta r content (ctx_clock x) = Some (r', es)" by (simp add: handle_kind_def)
    from applyMeta_rooms_ok [OF this assms(2)] show ?thesis .
  next
    case 5
    from quiet_step [OF kind(3) this] assms(2) show ?thesis by simp
  qed
qed

theorem rooms_stay_sound_witness:
  "rooms_ok (empty_circle ''c'') \<and>
   (\<exists>r' es. applyEnvelope (empty_circle ''c'') ''ann'' example_delete (example_ctx True) = Some (r', es) \<and> rooms_ok r')"
proof -
  have ok: "rooms_ok (empty_circle ''c'')"
    by (simp add: rooms_ok_def empty_circle_def voice_rooms_def tomb_ok_def)
  have "applyEnvelope (empty_circle ''c'') ''ann'' example_delete (example_ctx True) = Some (empty_circle ''c'', [])"
    by (simp add: applyEnvelope_def refused_def adminRequirement_def handle_kind_def apply_chan_del_def
        example_delete_def example_ctx_def empty_circle_def Let_def)
  from rooms_stay_sound [OF this ok] this ok show ?thesis by blast
qed

section \<open>Deletions stick\<close>

definition buried :: "jsval \<Rightarrow> circle \<Rightarrow> bool" where
  "buried ch r \<longleftrightarrow> ch \<in> set (list_or_empty (deletedChannels r)) \<and> ch \<notin> set (channels r)"

definition opening_kinds :: "string set" where
  \<comment> \<open>the kinds by which an admin brings a room name back on purpose\<close>
  "opening_kinds = {''chan'', ''chanset'', ''chan-ren''}"

lemma admin_step_buried:
  assumes "k \<in> admin_kinds - opening_kinds" and "handle_kind k r sender content x = Some (r', es)"
  shows "set (channels r') \<subseteq> set (channels r)"
proof -
  have "k = ''chan-del'' \<or> channels r' = channels r"
    using assms
    by (auto simp: admin_kinds_def opening_kinds_def handle_kind_def apply_overview_def apply_threshold_def
        apply_vchan_def apply_vchan_ren_def apply_vchan_del_def run_simps mark_defs split: if_splits)
  moreover have "set (channels r') \<subseteq> set (channels r)" if "k = ''chan-del''"
  proof -
    have "apply_chan_del r sender content = Some (r', es)" using assms(2) that by (simp add: handle_kind_def)
    from apply_chan_del_shape [OF this] show ?thesis by (cases "r' = r") auto
  qed
  ultimately show ?thesis by auto
qed

lemma applyMeta_union_channels:
  assumes "applyMeta r content t = Some (r', es)" and "\<not> pendingMetaSync r"
  obtains chs where "channels r' = union_rooms (list_or_empty (deletedChannels r)) chs (channels r)"
proof -
  let ?r = "r\<lparr>c_name := coalesce (oprop content ''name'') (c_name r)\<rparr>"
  from assms have "meta_union ?r content t = Some (r', es)" by (simp add: applyMeta_def)
  then obtain r1 e1 where r1: "meta_rooms ?r content = Some (r1, e1)" and sh: "shape r' = shape r1"
    by (rule meta_union_shape)
  from r1 show thesis
    by (rule meta_rooms_SomeD) (use that shapeD(1) [OF sh] in auto)
qed


definition example_rebroadcast :: jsval where
  "example_rebroadcast = JObj [(''k'', JStr ''meta''), (''channels'', JArr [JStr ''general'', JStr ''old''])]"


end
