(* ===== verification/Envelope_Boards.thy ===== *)
theory Envelope_Boards
  imports Envelope_Rules Chan_Keys
begin

text \<open>
  The reducer and the circle's boards: every envelope keeps the noticeboard, the offers and the ledger
  in order, nobody but the sender of an envelope is written into them, and what a metadata
  rebroadcast can add is bounded. The lemmas of the \<open>capped_board\<close> interface carry the proofs.
\<close>

section \<open>Frames\<close>

definition boards :: "circle \<Rightarrow> notice list \<times> offer list \<times> proposal list" where
  "boards r = (list_or_empty (notices r), list_or_empty (offers r), list_or_empty (proposals r))"

lemma move_meta_boards: "move_meta r ch to = Some r' \<Longrightarrow> boards r' = boards r"
  by (auto simp: move_meta_def run_simps boards_def split: if_splits)

lemma drop_meta_boards: "drop_meta r ch = Some r' \<Longrightarrow> boards r' = boards r"
  by (auto simp: drop_meta_def run_simps boards_def split: if_splits)

lemma mark_boards:
  "boards (markChannelDeleted r ch) = boards r" "boards (clearChannelDeleted r ch) = boards r"
  "boards (r\<lparr>channels := cs\<rparr>) = boards r"
  by (simp_all add: mark_defs boards_def)

lemma apply_chan_ren_boards: "apply_chan_ren r sender content = Some (r', es) \<Longrightarrow> boards r' = boards r"
  by (auto simp: apply_chan_ren_def run_simps mark_boards split: if_splits dest!: move_meta_boards)

lemma apply_chan_del_boards: "apply_chan_del r sender content = Some (r', es) \<Longrightarrow> boards r' = boards r"
  by (auto simp: apply_chan_del_def run_simps mark_boards split: if_splits dest!: drop_meta_boards)

lemma admin_step_boards:
  assumes "k \<in> admin_kinds" and "handle_kind k r sender content x = Some (r', es)"
  shows "boards r' = boards r"
  using assms apply_chan_ren_boards apply_chan_del_boards
  by (auto simp: admin_kinds_def handle_kind_def apply_chan_def apply_vchan_def apply_vchan_ren_def apply_vchan_del_def
      apply_chanset_def apply_overview_def apply_threshold_def run_simps mark_defs boards_def split: if_splits)

lemma nonboard_step:
  assumes "handle_kind k r sender content x = Some (r', es)" and "k \<notin> {''notice'', ''offer'', ''quorum'', ''meta''}"
  shows "boards r' = boards r"
proof -
  consider "k \<in> say_kinds" | "k = ''rsvp''" | "k \<in> admin_kinds"
    | "k \<notin> say_kinds \<union> board_kinds \<union> admin_kinds \<union> {''meta''}" using assms(2) by (auto simp: board_kinds_def)
  then show ?thesis
  proof cases
    case 1
    from say_step [OF this assms(1)] show ?thesis by (auto simp: boards_def)
  next
    case 2
    with assms(1) obtain n where "apply_rsvp r sender content x = Some (r', es)" "num_prop content ''at'' = Some n"
      by (auto simp: handle_kind_def apply_rsvp_def run_simps)
    then show ?thesis by (cases n) (auto simp: apply_rsvp_def Let_def boards_def)
  next
    case 3
    from admin_step_boards [OF this assms(1)] show ?thesis .
  next
    case 4
    from quiet_step [OF assms(1) this] show ?thesis by simp
  qed
qed

section \<open>One step on each board\<close>

lemma notice_step:
  assumes "apply_notice r sender content x = Some (r', es)"
  obtains (same) "boards r' = boards r"
  | (add) n where "boards r' = (upsertNotice (notices r) (Some n), list_or_empty (offers r), list_or_empty (proposals r))"
      "normalizeNotice (oprop content ''n'') (JStr sender) (ctx_clock x) = Some (Some n)"
  | (del) "boards r' = (filter (\<lambda>n. JStr (not_id n) \<noteq> oprop content ''id'') (list_or_empty (notices r)),
        list_or_empty (offers r), list_or_empty (proposals r))" "oprop content ''op'' = JStr ''del''"
      "canRemoveNotice (find (\<lambda>n. JStr (not_id n) = oprop content ''id'') (list_or_empty (notices r))) sender (ctx_isAdmin x)"
  using assms
  by (cases "notices r")
    (auto simp: apply_notice_def run_simps boards_def split: if_splits option.splits)

lemma offer_step:
  assumes "apply_offer r sender content x = Some (r', es)"
  obtains (same) "boards r' = boards r"
  | (add) n where "boards r' = (list_or_empty (notices r), upsertOffer (offers r) (Some n), list_or_empty (proposals r))"
      "normalizeOffer (oprop content ''o'') (JStr sender) (ctx_clock x) = Some (Some n)"
  | (take) t where "boards r' = (list_or_empty (notices r), applyTake (offers r) (oprop content ''id'') sender t, list_or_empty (proposals r))"
  | (del) "boards r' = (list_or_empty (notices r), filter (\<lambda>f. JStr (off_id f) \<noteq> oprop content ''id'') (list_or_empty (offers r)),
        list_or_empty (proposals r))"
proof -
  let ?op = "oprop content ''op''"
  consider "?op = JStr ''add''" | "?op = JStr ''take''" | "?op = JStr ''del''"
    | "?op \<notin> {JStr ''add'', JStr ''take'', JStr ''del''}" by blast
  then show thesis
  proof cases
    case 1
    with assms obtain n where n: "normalizeOffer (oprop content ''o'') (JStr sender) (ctx_clock x) = Some n"
      by (auto simp: apply_offer_def run_simps)
    with 1 assms same add show thesis by (cases n) (auto simp: apply_offer_def boards_def)
  next
    case 2
    with assms take show thesis by (auto simp: apply_offer_def boards_def)
  next
    case 3
    with assms same del show thesis
      by (cases "offers r") (auto simp: apply_offer_def boards_def Let_def split: if_splits)
  next
    case 4
    with assms same show thesis by (auto simp: apply_offer_def)
  qed
qed

lemma quorum_step:
  assumes "apply_quorum r sender content x = Some (r', es)"
  obtains (same) "boards r' = boards r"
  | (propose) q where "boards r' = (list_or_empty (notices r), list_or_empty (offers r), upsertProposal (proposals r) (Some q))"
      "normalizeProposal (oprop content ''p'') (JStr sender) (ctx_clock x) = Some (Some q)"
  | (sign) "boards r' = (list_or_empty (notices r), list_or_empty (offers r),
        applySignature (proposals r) (oprop content ''id'') sender (ctx_clock x))"
  | (obj) ps where "boards r' = (list_or_empty (notices r), list_or_empty (offers r), ps)"
      "applyObjection (proposals r) (oprop content ''id'') sender (oprop content ''why'') (ctx_clock x) = Some ps"
  | (withdraw) "boards r' = (list_or_empty (notices r), list_or_empty (offers r),
        filter (\<lambda>p. JStr (prop_id p) \<noteq> oprop content ''id'') (list_or_empty (proposals r)))"
proof -
  let ?op = "oprop content ''op''"
  consider "?op = JStr ''propose''" | "?op = JStr ''sign''" | "?op = JStr ''object''" | "?op = JStr ''withdraw''"
    | "?op \<notin> {JStr ''propose'', JStr ''sign'', JStr ''object'', JStr ''withdraw''}" by blast
  then show thesis
  proof cases
    case 1
    with assms obtain n where n: "normalizeProposal (oprop content ''p'') (JStr sender) (ctx_clock x) = Some n"
      by (auto simp: apply_quorum_def run_simps)
    with 1 assms same propose show thesis by (cases n) (auto simp: apply_quorum_def boards_def)
  next
    case 2
    with assms sign show thesis by (auto simp: apply_quorum_def boards_def)
  next
    case 3
    with assms obj show thesis by (auto simp: apply_quorum_def boards_def run_simps)
  next
    case 4
    with assms same withdraw show thesis
      by (cases "proposals r") (auto simp: apply_quorum_def boards_def Let_def split: if_splits)
  next
    case 5
    with assms same show thesis by (auto simp: apply_quorum_def)
  qed
qed

section \<open>The boards stay in order\<close>

definition boards_ok :: "notice list \<times> offer list \<times> proposal list \<Rightarrow> bool" where
  "boards_ok b = (case b of (ns, fs, ps) \<Rightarrow> notices_board ns \<and> offers_board fs \<and> ledger_board ps \<and>
     (\<forall>f \<in> set fs. offer_ok f) \<and> (\<forall>p \<in> set ps. voices_ok p))"

lemma notice_step_ok:
  assumes "apply_notice r sender content x = Some (r', es)" and "boards_ok (boards r)"
  shows "boards_ok (boards r')"
  using assms(1)
proof (cases rule: notice_step)
  case (add n)
  have "notices_board (upsertNotice (notices r) (Some n))"
    using assms(2) by (subst upsertNotice_list, intro notices.upsert_ok) (simp add: boards_ok_def boards_def)
  with add assms(2) show ?thesis by (simp add: boards_ok_def boards_def)
qed (use assms(2) in \<open>auto simp: boards_ok_def boards_def board_ok_filter\<close>)

lemma offer_step_ok:
  assumes "apply_offer r sender content x = Some (r', es)" and "boards_ok (boards r)"
  shows "boards_ok (boards r')"
  using assms(1)
proof (cases rule: offer_step)
  case (add n)
  have "offers_board (upsertOffer (offers r) (Some n))"
    using assms(2) by (subst upsertOffer_list, intro offers.upsert_ok) (simp add: boards_ok_def boards_def)
  moreover have "\<forall>f \<in> set (upsertOffer (offers r) (Some n)). offer_ok f"
    using assms(2) normalizeOffer_SomeD [OF add(2)] by (intro upsertOffer_ok) (simp_all add: boards_ok_def boards_def)
  ultimately show ?thesis using add assms(2) by (simp add: boards_ok_def boards_def)
next
  case (take t)
  have "offers_board (applyTake (offers r) (oprop content ''id'') sender t)"
    "\<forall>f \<in> set (applyTake (offers r) (oprop content ''id'') sender t). offer_ok f"
    using assms(2) by (intro applyTake_board applyTake_ok; simp add: boards_ok_def boards_def)+
  with take assms(2) show ?thesis by (simp add: boards_ok_def boards_def)
qed (use assms(2) in \<open>auto simp: boards_ok_def boards_def board_ok_filter\<close>)

lemma quorum_step_ok:
  assumes "apply_quorum r sender content x = Some (r', es)" and "boards_ok (boards r)"
  shows "boards_ok (boards r')"
  using assms(1)
proof (cases rule: quorum_step)
  case (propose q)
  have "ledger_board (upsertProposal (proposals r) (Some q))"
    using assms(2) by (subst upsertProposal_list, intro ledger.upsert_ok) (simp add: boards_ok_def boards_def)
  moreover have "\<forall>p \<in> set (upsertProposal (proposals r) (Some q)). voices_ok p"
    using assms(2) normalizeProposal_voices_ok [OF propose(2)]
    by (intro upsertProposal_voices_ok) (simp_all add: boards_ok_def boards_def)
  ultimately show ?thesis using propose assms(2) by (simp add: boards_ok_def boards_def)
next
  case sign
  have "ledger_board (applySignature (proposals r) (oprop content ''id'') sender (ctx_clock x))"
    "\<forall>p \<in> set (applySignature (proposals r) (oprop content ''id'') sender (ctx_clock x)). voices_ok p"
    using assms(2) by (intro applySignature_board applySignature_voices_ok; simp add: boards_ok_def boards_def)+
  with sign assms(2) show ?thesis by (simp add: boards_ok_def boards_def)
next
  case (obj ps)
  have "ledger_board ps" "\<forall>p \<in> set ps. voices_ok p"
    using assms(2) applyObjection_board [OF _ obj(2)] applyObjection_voices_ok [OF _ obj(2)]
    by (simp_all add: boards_ok_def boards_def)
  with obj assms(2) show ?thesis by (simp add: boards_ok_def boards_def)
qed (use assms(2) in \<open>auto simp: boards_ok_def boards_def board_ok_filter\<close>)

text \<open>
  The boards stay in order under every envelope but a rebroadcast: no id twice, newest first, within
  their caps, every offer with each taker once and every proposal with one voice per member, for or
  against and never both.
\<close>

theorem boards_stay_in_order:
  assumes "applyEnvelope r sender content x = Some (r', es)" and "oprop content ''k'' \<noteq> JStr ''meta''"
    and "boards_ok (boards r)"
  shows "boards_ok (boards r')"
  using assms(1)
proof (cases rule: applyEnvelope_cases)
  case same
  with assms(3) show ?thesis by simp
next
  case (kind k)
  have "k \<noteq> ''meta''" using kind(2) assms(2) by auto
  then consider "k = ''notice''" | "k = ''offer''" | "k = ''quorum''"
    | "k \<notin> {''notice'', ''offer'', ''quorum'', ''meta''}" by blast
  then show ?thesis
  proof cases
    case 1
    with kind(3) show ?thesis by (intro notice_step_ok [OF _ assms(3)]) (simp add: handle_kind_def)
  next
    case 2
    with kind(3) show ?thesis by (intro offer_step_ok [OF _ assms(3)]) (simp add: handle_kind_def)
  next
    case 3
    with kind(3) show ?thesis by (intro quorum_step_ok [OF _ assms(3)]) (simp add: handle_kind_def)
  next
    case 4
    from nonboard_step [OF kind(3) this] assms(3) show ?thesis by simp
  qed
qed

definition example_propose :: "string \<Rightarrow> jsval" where
  "example_propose i = JObj [(''k'', JStr ''quorum''), (''op'', JStr ''propose''),
     (''p'', JObj [(''id'', JStr i), (''handle'', JStr ''zoe'')])]"

theorem boards_stay_in_order_witness:
  "\<exists>r' es. applyEnvelope (empty_circle ''c'') ''ann'' (example_propose ''p1'') (example_ctx False) = Some (r', es) \<and>
     boards_ok (boards r') \<and> r' \<noteq> empty_circle ''c''"
proof -
  obtain r' es where run: "applyEnvelope (empty_circle ''c'') ''ann'' (example_propose ''p1'') (example_ctx False) = Some (r', es)"
    and ne: "proposals r' \<noteq> None"
    by (simp add: applyEnvelope_def refused_def adminRequirement_def handle_kind_def apply_quorum_def
        normalizeProposal_def str_prop_def num_prop_def trim_def is_space_def toLowerCase_def
        example_propose_def example_ctx_def Let_def)
  have ok: "boards_ok (boards (empty_circle ''c''))"
    by (simp add: boards_ok_def boards_def empty_circle_def board_ok_def)
  have "boards_ok (boards r')"
    by (rule boards_stay_in_order [OF run _ ok]) (simp add: example_propose_def)
  moreover have "r' \<noteq> empty_circle ''c''" using ne by (auto simp: empty_circle_def)
  ultimately show ?thesis using run by blast
qed

section \<open>Nobody writes in another's name\<close>

definition voices_from :: "string \<Rightarrow> proposal list \<Rightarrow> proposal list \<Rightarrow> bool" where
  \<comment> \<open>every voice in the new ledger is the sender's, or stood on that proposal before\<close>
  "voices_from sender old new \<longleftrightarrow>
     (\<forall>p' \<in> set new.
        (\<forall>s \<in> set (signatures p'). sig_who s = sender \<or> (\<exists>p \<in> set old. prop_id p = prop_id p' \<and> s \<in> set (signatures p))) \<and>
        (\<forall>v \<in> set (objections p'). obj_who v = sender \<or> (\<exists>p \<in> set old. prop_id p = prop_id p' \<and> v \<in> set (objections p))))"

definition takers_from :: "string \<Rightarrow> offer list \<Rightarrow> offer list \<Rightarrow> bool" where
  "takers_from sender old new \<longleftrightarrow>
     (\<forall>f' \<in> set new. \<forall>t \<in> set (off_takers f'). t = sender \<or> (\<exists>f \<in> set old. off_id f = off_id f' \<and> t \<in> set (off_takers f)))"

definition notices_from :: "string \<Rightarrow> notice list \<Rightarrow> notice list \<Rightarrow> bool" where
  "notices_from sender old new \<longleftrightarrow> (\<forall>n \<in> set new. not_author n = sender \<or> n \<in> set old)"

lemma from_refl [simp]: "voices_from s ps ps" "takers_from s fs fs" "notices_from s ns ns"
  by (auto simp: voices_from_def takers_from_def notices_from_def)

lemma voices_from_map:
  assumes "\<And>p. prop_id (g p) = prop_id p"
    and "\<And>p s. s \<in> set (signatures (g p)) \<Longrightarrow> sig_who s = sender \<or> s \<in> set (signatures p)"
    and "\<And>p v. v \<in> set (objections (g p)) \<Longrightarrow> obj_who v = sender \<or> v \<in> set (objections p)"
  shows "voices_from sender ps (map g ps)"
  using assms unfolding voices_from_def by (auto; metis)

lemma quorum_step_from:
  assumes "apply_quorum r sender content x = Some (r', es)"
  shows "voices_from sender (snd (snd (boards r))) (snd (snd (boards r')))"
  using assms
proof (cases rule: quorum_step)
  case (propose q)
  have q: "signatures q = [\<lparr>sig_who = sender, sig_at = prop_at q\<rparr>]" "objections q = []"
    using normalizeProposal_SomeD [OF propose(2)] by auto
  have "voices_from sender (list_or_empty (proposals r)) (upsertProposal (proposals r) (Some q))"
    unfolding voices_from_def
  proof
    fix p' assume "p' \<in> set (upsertProposal (proposals r) (Some q))"
    then have "p' \<in> set (list_or_empty (proposals r)) \<or> p' = q \<or>
        (\<exists>old \<in> set (list_or_empty (proposals r)). prop_id old = prop_id q \<and> p' = carryVoices old q)"
      by (subst (asm) upsertProposal_list) (auto dest: ledger.upsert_entries)
    then show "(\<forall>s \<in> set (signatures p'). sig_who s = sender \<or>
          (\<exists>p \<in> set (list_or_empty (proposals r)). prop_id p = prop_id p' \<and> s \<in> set (signatures p))) \<and>
        (\<forall>v \<in> set (objections p'). obj_who v = sender \<or>
          (\<exists>p \<in> set (list_or_empty (proposals r)). prop_id p = prop_id p' \<and> v \<in> set (objections p)))"
      using q by (auto simp: carryVoices_def)
  qed
  with propose show ?thesis by (simp add: boards_def)
next
  case sign
  have "voices_from sender (list_or_empty (proposals r)) (applySignature (proposals r) i sender t)" for i t
    by (cases i) (auto simp: applySignature_def signOne_def split: if_splits intro!: voices_from_map)
  with sign show ?thesis by (simp add: boards_def)
next
  case (obj ps)
  have "voices_from sender (list_or_empty (proposals r)) ps"
    using applyObjection_cases [OF obj(2)]
    by (auto simp: objectOne_def split: if_splits intro!: voices_from_map)
  with obj show ?thesis by (simp add: boards_def)
qed (auto simp: boards_def voices_from_def)

lemma offer_step_from:
  assumes "apply_offer r sender content x = Some (r', es)"
  shows "takers_from sender (fst (snd (boards r))) (fst (snd (boards r')))"
  using assms
proof (cases rule: offer_step)
  case (add n)
  have n: "off_takers n = []" using normalizeOffer_SomeD [OF add(2)] by auto
  have "takers_from sender (list_or_empty (offers r)) (upsertOffer (offers r) (Some n))"
    using n by (subst upsertOffer_list) (auto simp: takers_from_def carryTakers_def dest!: offers.upsert_entries)
  with add show ?thesis by (simp add: boards_def)
next
  case (take t)
  have "takers_from sender (list_or_empty (offers r)) (applyTake (offers r) i sender t)" for i
    by (cases i) (auto simp: applyTake_def takers_from_def takeOne_def split: if_splits)
  with take show ?thesis by (simp add: boards_def)
qed (auto simp: boards_def takers_from_def)

lemma notice_step_from:
  assumes "apply_notice r sender content x = Some (r', es)"
  shows "notices_from sender (fst (boards r)) (fst (boards r'))"
  using assms
proof (cases rule: notice_step)
  case (add n)
  have n: "not_author n = sender" using normalizeNotice_SomeD [OF add(2)] by simp
  have "notices_from sender (list_or_empty (notices r)) (upsertNotice (notices r) (Some n))"
    using n by (subst upsertNotice_list) (auto simp: notices_from_def dest!: notices.upsert_entries)
  with add show ?thesis by (simp add: boards_def)
qed (auto simp: boards_def notices_from_def)

lemma other_boards:
  "apply_notice r sender content x = Some (r', es) \<Longrightarrow> snd (boards r') = snd (boards r)"
  "apply_offer r sender content x = Some (r', es) \<Longrightarrow>
     fst (boards r') = fst (boards r) \<and> snd (snd (boards r')) = snd (snd (boards r))"
  "apply_quorum r sender content x = Some (r', es) \<Longrightarrow>
     fst (boards r') = fst (boards r) \<and> fst (snd (boards r')) = fst (snd (boards r))"
  subgoal by (erule notice_step) (simp_all add: boards_def)
  subgoal by (erule offer_step) (simp_all add: boards_def)
  subgoal by (erule quorum_step) (simp_all add: boards_def)
  done

text \<open>
  C2: nobody writes in another's name. After any envelope but a metadata rebroadcast, every signature
  and objection in the ledger, every taker of a seat and every notice's author is the authenticated
  sender of that envelope, or was already there; nothing in the payload can put another member's
  name on a board.
\<close>

theorem nobody_writes_for_another:
  assumes "applyEnvelope r sender content x = Some (r', es)" and "oprop content ''k'' \<noteq> JStr ''meta''"
  shows "notices_from sender (list_or_empty (notices r)) (list_or_empty (notices r')) \<and>
    takers_from sender (list_or_empty (offers r)) (list_or_empty (offers r')) \<and>
    voices_from sender (list_or_empty (proposals r)) (list_or_empty (proposals r'))"
proof -
  have parts: "fst (boards q) = list_or_empty (notices q)" "fst (snd (boards q)) = list_or_empty (offers q)"
    "snd (snd (boards q)) = list_or_empty (proposals q)" for q by (simp_all add: boards_def)
  show ?thesis
    unfolding parts [symmetric] using assms(1)
  proof (cases rule: applyEnvelope_cases)
    case (kind k)
    have "k \<noteq> ''meta''" using kind(2) assms(2) by auto
    then consider "k = ''notice''" | "k = ''offer''" | "k = ''quorum''"
      | "k \<notin> {''notice'', ''offer'', ''quorum'', ''meta''}" by blast
    then show "notices_from sender (fst (boards r)) (fst (boards r')) \<and>
        takers_from sender (fst (snd (boards r))) (fst (snd (boards r'))) \<and>
        voices_from sender (snd (snd (boards r))) (snd (snd (boards r')))"
    proof cases
      case 1
      with kind(3) have run: "apply_notice r sender content x = Some (r', es)" by (simp add: handle_kind_def)
      from notice_step_from [OF run] other_boards(1) [OF run] show ?thesis by simp
    next
      case 2
      with kind(3) have run: "apply_offer r sender content x = Some (r', es)" by (simp add: handle_kind_def)
      from offer_step_from [OF run] other_boards(2) [OF run] show ?thesis by simp
    next
      case 3
      with kind(3) have run: "apply_quorum r sender content x = Some (r', es)" by (simp add: handle_kind_def)
      from quorum_step_from [OF run] other_boards(3) [OF run] show ?thesis by simp
    next
      case 4
      from nonboard_step [OF kind(3) this] show ?thesis by simp
    qed
  qed simp
qed

definition example_forgery :: jsval where
  \<comment> \<open>a signature that tries to name somebody else\<close>
  "example_forgery = JObj [(''k'', JStr ''quorum''), (''op'', JStr ''sign''), (''id'', JStr ''p1''), (''who'', JStr ''ann'')]"

theorem nobody_writes_for_another_witness:
  "\<exists>r r' es. applyEnvelope r ''mallory'' example_forgery (example_ctx False) = Some (r', es) \<and>
     list_or_empty (proposals r) \<noteq> [] \<and> voices_from ''mallory'' (list_or_empty (proposals r)) (list_or_empty (proposals r'))"
proof -
  let ?r = "(empty_circle ''c'')\<lparr>proposals := Some [\<lparr>prop_id = ''p1'', prop_handle = ''zoe'', prop_why = None,
    prop_by = ''bob'', prop_at = 5, signatures = [\<lparr>sig_who = ''bob'', sig_at = 5\<rparr>], objections = []\<rparr>]\<rparr>"
  obtain r' es where run: "applyEnvelope ?r ''mallory'' example_forgery (example_ctx False) = Some (r', es)"
    by (simp add: applyEnvelope_def refused_def adminRequirement_def handle_kind_def apply_quorum_def example_forgery_def Let_def)
  from nobody_writes_for_another [OF run] have "voices_from ''mallory'' (list_or_empty (proposals ?r)) (list_or_empty (proposals r'))"
    by (simp add: example_forgery_def)
  moreover have "list_or_empty (proposals ?r) \<noteq> []" by simp
  ultimately show ?thesis using run by blast
qed

section \<open>Keys survive\<close>

definition holds_keys :: "jsval dict option \<Rightarrow> string \<Rightarrow> jsval set" where
  \<comment> \<open>the keys a circle's record holds for a channel\<close>
  "holds_keys d ch = (case map_of (dict_or_empty d) ch of None \<Rightarrow> {} | Some v \<Rightarrow> set (side_keys v))"

lemma holds_keys_update:
  "holds_keys (Some (AList.update k v (dict_or_empty d))) ch = (if ch = k then set (side_keys v) else holds_keys d ch)"
  by (simp add: holds_keys_def dict_or_empty_def update_conv')

lemma side_keys_undef: "side_keys JUndef = []" "side_keys (JObj []) = []"
  by (simp_all add: side_keys_def side_list_def)

lemma chan_meta_at_keys:
  assumes "chan_meta_at r ch = Some m" and "to_str ch = Some k"
  shows "set (side_keys m) = holds_keys (chanMeta r) k"
  using assms
  by (auto simp: chan_meta_at_def holds_keys_def dict_or_empty_def dget_def side_keys_undef run_simps split: option.splits)

lemma apply_chanset_keys:
  assumes "apply_chanset r sender content = Some (r', es)"
  shows "holds_keys (chanMeta r) ch \<subseteq> holds_keys (chanMeta r') ch"
proof -
  from assms obtain mine key merged where m: "chan_meta_at r (oprop content ''ch'') = Some mine"
    and k: "to_str (oprop content ''ch'') = Some key"
    and g: "mergeChanKeys mine (coalesce (oprop content ''meta'') (JObj [])) False = Some merged"
    and r': "chanMeta r' = Some (AList.update key merged (dict_or_empty (chanMeta r)))"
    by (auto simp: apply_chanset_def run_simps)
  show ?thesis
    unfolding r' holds_keys_update
    using mergeChanKeys_keys [OF g] chan_meta_at_keys [OF m k] by auto
qed

lemma gap_chan_keys:
  assumes "gap_chan e d = Some d'"
  shows "holds_keys (Some d) ch \<subseteq> holds_keys (Some d') ch"
proof -
  from assms obtain m where g: "mergeChanKeys (case dget d (fst e) of Own v \<Rightarrow> v | Proto \<Rightarrow> JObj [] | Absent \<Rightarrow> JUndef) (snd e) True = Some m"
    and d': "d' = dput d (fst e) m"
    by (auto simp: gap_chan_def run_simps)
  have "set (side_keys (case dget d (fst e) of Own v \<Rightarrow> v | Proto \<Rightarrow> JObj [] | Absent \<Rightarrow> JUndef)) = holds_keys (Some d) (fst e)"
    by (simp add: dget_def holds_keys_def dict_or_empty_def side_keys_undef split: option.split)
  with mergeChanKeys_keys [OF g] have "holds_keys (Some d) (fst e) \<subseteq> set (side_keys m)" by auto
  then show ?thesis
    using holds_keys_update [of "fst e" m "Some d" ch]
    by (auto simp: d' dput_def dict_or_empty_def split: if_splits)
qed

lemma say_board_chanMeta:
  assumes "handle_kind k r sender content x = Some (r', es)" and "k \<notin> {''chanset'', ''chan-ren'', ''chan-del'', ''meta''}"
  shows "chanMeta r' = chanMeta r"
proof -
  consider "k \<in> say_kinds" | "k \<in> board_kinds" | "k \<in> admin_kinds"
    | "k \<notin> say_kinds \<union> board_kinds \<union> admin_kinds \<union> {''meta''}" using assms(2) by blast
  then show ?thesis
  proof cases
    case 1
    from say_step [OF this assms(1)] show ?thesis by auto
  next
    case 2
    from governedD [OF board_step [OF this assms(1)]] show ?thesis by simp
  next
    case 3
    with assms show ?thesis
      by (auto simp: admin_kinds_def handle_kind_def apply_chan_def apply_vchan_def apply_vchan_ren_def apply_vchan_del_def
          apply_overview_def apply_threshold_def run_simps mark_defs split: if_splits)
  next
    case 4
    from quiet_step [OF assms(1) this] show ?thesis by simp
  qed
qed

lemma meta_parts_chanMeta:
  "meta_overview r content t = Some (r', es) \<Longrightarrow> chanMeta r' = chanMeta r"
  "meta_notices r content t = Some (r', es) \<Longrightarrow> chanMeta r' = chanMeta r"
  "meta_offers r content t = Some (r', es) \<Longrightarrow> chanMeta r' = chanMeta r"
  "meta_ledger r content t = Some (r', es) \<Longrightarrow> chanMeta r' = chanMeta r"
  "meta_rsvps r content t = Some (r', es) \<Longrightarrow> chanMeta r' = chanMeta r"
  "meta_rooms r content = Some (r', es) \<Longrightarrow> chanMeta r' = chanMeta r"
  by (auto simp: meta_overview_def meta_notices_def meta_offers_def meta_ledger_def meta_rsvps_def
      meta_rooms_def run_simps split: if_splits option.splits)

lemma meta_chans_keys:
  assumes "meta_chans r content = Some (r', es)"
  shows "holds_keys (chanMeta r) ch \<subseteq> holds_keys (chanMeta r') ch"
proof (cases "truthy (oprop content ''chanMeta'')")
  case True
  with assms obtain d' where d': "foldM gap_chan (own_entries (oprop content ''chanMeta'')) (dict_or_empty (chanMeta r)) = Some d'"
    and r': "chanMeta r' = Some d'" by (auto simp: meta_chans_def run_simps)
  have "holds_keys (chanMeta r) ch \<subseteq> holds_keys (Some d') ch"
    by (rule foldM_invariant [OF d', where P = "\<lambda>d. holds_keys (chanMeta r) ch \<subseteq> holds_keys (Some d) ch"])
      (simp add: holds_keys_def dict_or_empty_def, blast dest: gap_chan_keys [of _ _ _ ch])
  with r' show ?thesis by simp
qed (use assms in \<open>simp add: meta_chans_def\<close>)

lemma meta_union_keys:
  assumes "meta_union r content t = Some (r', es)"
  shows "holds_keys (chanMeta r) ch \<subseteq> holds_keys (chanMeta r') ch"
  using assms unfolding meta_union_def
  by (elim andThen_SomeD) (drule meta_parts_chanMeta meta_chans_keys [of _ _ _ _ ch] | simp)+


definition example_keyed :: circle where
  "example_keyed = (empty_circle ''c'')\<lparr>chanMeta := Some [(''general'', example_side ''b'' ''k1'')]\<rparr>"

definition example_chanset :: jsval where
  "example_chanset = JObj [(''k'', JStr ''chanset''), (''ch'', JStr ''general''), (''meta'', example_side ''a'' ''k2'')]"


section \<open>What a rebroadcast may and may not do\<close>

lemma mergeNotices_list: "mergeNotices mine ys = mergeNotices (Some (list_or_empty mine)) ys"
  by (simp add: mergeNotices_def)

lemma mergeOffers_list: "mergeOffers mine ys = mergeOffers (Some (list_or_empty mine)) ys"
  by (simp add: mergeOffers_def)

lemma mergeProposals_list: "mergeProposals mine ys = mergeProposals (Some (list_or_empty mine)) ys"
  by (simp add: mergeProposals_def)

lemma keeps_merge:
  "keeps_entries not_id NOTICES_MAX (list_or_empty ns) (mergeNotices ns ys)"
  "keeps_entries off_id OFFERS_MAX (list_or_empty fs) (mergeOffers fs zs)"
  "keeps_entries prop_id PROPOSALS_MAX (list_or_empty ps) (mergeProposals ps ws)"
  subgoal by (subst mergeNotices_list) (rule notices.merge_keeps)
  subgoal by (subst mergeOffers_list) (rule offers.merge_keeps)
  subgoal by (subst mergeProposals_list) (rule ledger.merge_keeps)
  done

definition gap_filled :: "circle \<Rightarrow> circle \<Rightarrow> bool" where
  "gap_filled r r' \<longleftrightarrow>
     keeps_entries not_id NOTICES_MAX (list_or_empty (notices r)) (list_or_empty (notices r')) \<and>
     keeps_entries off_id OFFERS_MAX (list_or_empty (offers r)) (list_or_empty (offers r')) \<and>
     keeps_entries prop_id PROPOSALS_MAX (list_or_empty (proposals r)) (list_or_empty (proposals r')) \<and>
     (overview r \<noteq> None \<longrightarrow> overview r' = overview r) \<and> (threshold r \<noteq> None \<longrightarrow> threshold r' = threshold r) \<and>
     members r' = members r \<and> roles r' = roles r"

definition standing :: "circle \<Rightarrow> notice list \<times> offer list \<times> proposal list \<times> overview option \<times> nat option \<times> string list \<times> string dict" where
  "standing r = (list_or_empty (notices r), list_or_empty (offers r), list_or_empty (proposals r), overview r, threshold r,
     members r, roles r)"

lemma gap_filled_standing: "gap_filled r r' \<Longrightarrow> standing q = standing r \<Longrightarrow> standing q' = standing r' \<Longrightarrow> gap_filled q q'"
  by (simp add: gap_filled_def standing_def)

lemma meta_parts_standing:
  "meta_rooms r content = Some (r', es) \<Longrightarrow> standing r' = standing r"
  "meta_rsvps r content t = Some (r', es) \<Longrightarrow> standing r' = standing r"
  "meta_chans r content = Some (r', es) \<Longrightarrow> standing r' = standing r"
  by (auto simp: meta_rooms_def meta_rsvps_def meta_chans_def standing_def run_simps split: if_splits option.splits)

lemma meta_overview_fields:
  "meta_overview r content t = Some (r', es) \<Longrightarrow>
     notices r' = notices r \<and> offers r' = offers r \<and> proposals r' = proposals r \<and> threshold r' = threshold r \<and>
     members r' = members r \<and> roles r' = roles r \<and> (overview r \<noteq> None \<longrightarrow> overview r' = overview r)"
  by (auto simp: meta_overview_def run_simps split: if_splits option.splits)

lemma meta_notices_fields:
  "meta_notices r content t = Some (r', es) \<Longrightarrow>
     keeps_entries not_id NOTICES_MAX (list_or_empty (notices r)) (list_or_empty (notices r')) \<and>
     offers r' = offers r \<and> proposals r' = proposals r \<and> threshold r' = threshold r \<and>
     members r' = members r \<and> roles r' = roles r \<and> overview r' = overview r"
  by (auto simp: meta_notices_def run_simps keeps_merge split: if_splits option.splits)

lemma meta_offers_fields:
  "meta_offers r content t = Some (r', es) \<Longrightarrow>
     keeps_entries off_id OFFERS_MAX (list_or_empty (offers r)) (list_or_empty (offers r')) \<and>
     notices r' = notices r \<and> proposals r' = proposals r \<and> threshold r' = threshold r \<and>
     members r' = members r \<and> roles r' = roles r \<and> overview r' = overview r"
  by (auto simp: meta_offers_def run_simps keeps_merge split: if_splits option.splits)

lemma meta_ledger_fields:
  "meta_ledger r content t = Some (r', es) \<Longrightarrow>
     keeps_entries prop_id PROPOSALS_MAX (list_or_empty (proposals r)) (list_or_empty (proposals r')) \<and>
     notices r' = notices r \<and> offers r' = offers r \<and> (threshold r \<noteq> None \<longrightarrow> threshold r' = threshold r) \<and>
     members r' = members r \<and> roles r' = roles r \<and> overview r' = overview r"
  by (auto simp: meta_ledger_def run_simps keeps_merge split: if_splits option.splits prod.splits)

lemma meta_union_gap_filled:
  assumes "meta_union r content t = Some (r', es)"
  shows "gap_filled r r'"
proof -
  from assms obtain r1 r2 r3 r4 r5 r6 e1 e2 e3 e4 e5 e6 e7 where
    steps: "meta_rooms r content = Some (r1, e1)" "meta_overview r1 content t = Some (r2, e2)"
      "meta_notices r2 content t = Some (r3, e3)" "meta_offers r3 content t = Some (r4, e4)"
      "meta_ledger r4 content t = Some (r5, e5)" "meta_rsvps r5 content t = Some (r6, e6)"
      "meta_chans r6 content = Some (r', e7)"
    unfolding meta_union_def by (elim andThen_SomeD) blast
  have "gap_filled r1 r5"
    using meta_overview_fields [OF steps(2)] meta_notices_fields [OF steps(3)] meta_offers_fields [OF steps(4)]
      meta_ledger_fields [OF steps(5)]
    by (simp add: gap_filled_def)
  then show ?thesis
    by (rule gap_filled_standing)
      (simp_all add: meta_parts_standing(1) [OF steps(1)] meta_parts_standing(2) [OF steps(6)] meta_parts_standing(3) [OF steps(7)])
qed

text \<open>
  A rebroadcast only fills gaps. On a device that is not catching up, a \<open>meta\<close> envelope, whoever sent
  it, changes no notice, offer or proposal the device already holds (nor the home base or the threshold
  once set), and the boards stay within their caps.
\<close>

theorem rebroadcast_only_fills_gaps:
  assumes "applyEnvelope r sender content x = Some (r', es)" and "oprop content ''k'' = JStr ''meta''"
    and "\<not> pendingMetaSync r"
  shows "gap_filled r r'"
proof -
  have "\<not> refused content x" by (simp add: refused_def adminRequirement_def assms(2) Let_def)
  with assms have "meta_union (r\<lparr>c_name := coalesce (oprop content ''name'') (c_name r)\<rparr>) content (ctx_clock x) = Some (r', es)"
    by (simp add: applyEnvelope_def handle_kind_def applyMeta_def split: if_splits)
  from meta_union_gap_filled [OF this] show ?thesis by (rule gap_filled_standing) (simp_all add: standing_def)
qed

definition example_meta_overwrite :: jsval where
  "example_meta_overwrite = JObj [(''k'', JStr ''meta''),
     (''notices'', JArr [JObj [(''id'', JStr ''n1''), (''text'', JStr ''forged''), (''author'', JStr ''ann'')]])]"

theorem rebroadcast_only_fills_gaps_witness:
  "\<exists>r r' es. applyEnvelope r ''mallory'' example_meta_overwrite (example_ctx False) = Some (r', es) \<and>
     list_or_empty (notices r) \<noteq> [] \<and> gap_filled r r'"
proof -
  let ?r = "(empty_circle ''c'')\<lparr>notices := Some [\<lparr>not_id = ''n1'', not_text = ''hi'', not_ts = 5, not_author = ''ann''\<rparr>]\<rparr>"
  obtain r' es where run: "applyEnvelope ?r ''mallory'' example_meta_overwrite (example_ctx False) = Some (r', es)"
    by (simp add: applyEnvelope_def refused_def adminRequirement_def handle_kind_def applyMeta_def meta_union_def
        andThen_def meta_rooms_def meta_overview_def meta_notices_def meta_offers_def meta_ledger_def meta_rsvps_def
        meta_chans_def nonempty_array_def nonempty_def normalizeNotices_def normalizeNotice_def str_prop_def num_prop_def
        trim_def is_space_def mergeNotices_def newest_first_def overview_consts present_def
        example_meta_overwrite_def example_ctx_def empty_circle_def Let_def)
  have "gap_filled ?r r'"
    by (rule rebroadcast_only_fills_gaps [OF run]) (simp_all add: example_meta_overwrite_def empty_circle_def)
  moreover have "list_or_empty (notices ?r) \<noteq> []" by simp
  ultimately show ?thesis using run by blast
qed

end
