(* ===== verification/ChannelLog.thy ===== *)
theory ChannelLog
  imports Envelope
begin

text \<open>
  A channel's server-side log, \<open>client/src/lib/log.js\<close>: relay entries (content, edits, deletions,
  reactions) collected into a log and folded into the messages a reader shows. The two JavaScript
  \<open>Map\<close>s are insertion ordered association lists. An entry is the decrypted JSON value; its
  \<open>auth\<close> is the verdict of \<open>history.js\<close> on its signature. A relay sequence number is a natural
  number, absent (\<open>None\<close>) on a local echo. A \<open>TypeError\<close> is \<open>None\<close>; the partly filled log
  such a run leaves behind is not modelled.
\<close>

section \<open>Data\<close>

datatype auth = Signed | Unsigned | Unknown | Forged

record message =
  msg_server :: string
  msg_channel :: string
  msg_sender :: string
  msg_ts :: jsnum
  msg_body :: "body option"
  msg_reply :: "reply option"
  msg_auth :: "auth option"
  msg_seq :: "nat option"
  msg_local :: bool
  msg_edited :: bool
  msg_deleted :: bool
  msg_system :: bool
  msg_reacts :: "jsval list dict"
  msg_failed :: bool            \<comment> \<open>set by the controller on a line it could not save\<close>

record mutation =
  mut_seq :: nat
  mut_entry :: jsval

record channel_log =
  base :: "(string \<times> message) list"
  mutations :: "(string \<times> mutation) list"
  oldest :: "nat option"
  complete :: bool
  newest :: nat
  localSeq :: nat

record item =
  it_seq :: "nat option"
  it_entry :: jsval
  it_auth :: auth
  it_local :: bool

record place =
  pl_server :: string
  pl_channel :: string

definition CONTENT_KINDS :: "jsval list" where
  "CONTENT_KINDS = [JStr ''chat'', JStr ''file'', JStr ''game'']"

definition MUTATION_KINDS :: "jsval list" where
  "MUTATION_KINDS = [JStr ''edit'', JStr ''del'', JStr ''react'']"

definition REACT_MAX :: nat where "REACT_MAX = 8"

section \<open>Collecting entries\<close>

definition messageId :: "string \<Rightarrow> jsnum \<Rightarrow> string" where
  "messageId sender ts = sender @ '':'' @ num_str ts"

definition mutationId :: "jsval \<Rightarrow> string throws" where
  "mutationId entry =
     do { s \<leftarrow> to_str (oprop entry ''sender'');
          k \<leftarrow> to_str (oprop entry ''k'');
          t \<leftarrow> to_str (oprop entry ''ts'');
          Some (s @ '':'' @ k @ '':'' @ t) }"

definition createChannelLog :: channel_log where
  "createChannelLog = \<lparr>base = [], mutations = [], oldest = None, complete = False, newest = 0,
     localSeq = (2 ^ 53 - 1) div 2\<rparr>"

definition entryToMessage :: "jsval \<Rightarrow> place \<Rightarrow> auth \<Rightarrow> nat option \<Rightarrow> message option throws" where
  "entryToMessage entry pl a seq =
     do { sender \<leftarrow> str_prop entry ''sender'';
          n \<leftarrow> num_prop entry ''ts'';
          let ts = num_or0 n;
          if sender = [] \<or> \<not> num_truthy ts then Some None
          else do {
            game \<leftarrow> (if truthy (oprop entry ''game'') then normalizeGameRef (oprop entry ''game'') else Some None);
            rep \<leftarrow> normalizeReply (oprop entry ''reply'');
            b \<leftarrow> (if truthy (oprop entry ''file'') then Some (FileBody (oprop entry ''file''))
                  else case game of Some g \<Rightarrow> Some (GameBody g)
                    | None \<Rightarrow> map_option (\<lambda>s. TextBody (JStr s)) (str_prop entry ''text''));
            Some (Some \<lparr>msg_server = pl_server pl, msg_channel = pl_channel pl, msg_sender = sender, msg_ts = ts,
              msg_body = Some b, msg_reply = rep, msg_auth = Some a, msg_seq = seq, msg_local = False,
              msg_edited = False, msg_deleted = False, msg_system = False, msg_reacts = [], msg_failed = False\<rparr>) } }"

definition note_seq :: "nat option \<Rightarrow> channel_log \<Rightarrow> channel_log" where
  "note_seq seq clog =
     (case seq of None \<Rightarrow> clog
      | Some n \<Rightarrow> clog\<lparr>newest := max (newest clog) n,
                      oldest := Some (case oldest clog of None \<Rightarrow> n | Some m \<Rightarrow> min m n)\<rparr>)"

definition kind_of_entry :: "jsval \<Rightarrow> jsval" where
  "kind_of_entry entry = coalesce (oprop entry ''k'') (JStr ''chat'')"

definition add_content :: "place \<Rightarrow> item \<Rightarrow> channel_log \<times> nat \<Rightarrow> (channel_log \<times> nat) throws" where
  "add_content pl it s =
     do { m \<leftarrow> entryToMessage (it_entry it) pl (it_auth it) (it_seq it);
          case m of None \<Rightarrow> Some s
          | Some m0 \<Rightarrow>
              let msg = m0\<lparr>msg_local := it_local it\<rparr>;
                  i = messageId (msg_sender msg) (msg_ts msg);
                  (clog, added) = s
              in case map_of (base clog) i of
                   Some prior \<Rightarrow>
                     if msg_local prior \<and> \<not> it_local it
                     then Some (clog\<lparr>base := AList.update i msg (base clog)\<rparr>, Suc added) else Some s
                 | None \<Rightarrow> Some (clog\<lparr>base := AList.update i msg (base clog)\<rparr>, Suc added) }"

definition add_mutation :: "item \<Rightarrow> channel_log \<times> nat \<Rightarrow> (channel_log \<times> nat) throws" where
  "add_mutation it s =
     (if it_auth it \<noteq> Signed then Some s
      else do {
        i \<leftarrow> mutationId (it_entry it);
        let (clog, added) = s;
        case map_of (mutations clog) i of
          Some _ \<Rightarrow> Some s
        | None \<Rightarrow>
            (case it_seq it of
               Some n \<Rightarrow> Some (clog\<lparr>mutations := AList.update i \<lparr>mut_seq = n, mut_entry = it_entry it\<rparr> (mutations clog)\<rparr>, Suc added)
             | None \<Rightarrow> Some (clog\<lparr>mutations := AList.update i \<lparr>mut_seq = localSeq clog, mut_entry = it_entry it\<rparr> (mutations clog),
                               localSeq := Suc (localSeq clog)\<rparr>, Suc added)) })"

definition add_entry :: "place \<Rightarrow> item \<Rightarrow> channel_log \<times> nat \<Rightarrow> (channel_log \<times> nat) throws" where
  \<comment> \<open>one round of the loop of \<open>addEntries\<close>\<close>
  "add_entry pl it s =
     (if \<not> truthy (it_entry it) \<or> it_auth it = Forged then Some s
      else let s1 = (note_seq (it_seq it) (fst s), snd s)
           in if kind_of_entry (it_entry it) \<in> set CONTENT_KINDS then add_content pl it s1
              else if kind_of_entry (it_entry it) \<in> set MUTATION_KINDS then add_mutation it s1
              else Some s1)"

definition addEntries :: "channel_log \<Rightarrow> item list \<Rightarrow> place \<Rightarrow> (channel_log \<times> nat) throws" where
  "addEntries clog items pl = foldM (add_entry pl) items (clog, 0)"

definition addLocalEntry :: "channel_log \<Rightarrow> jsval \<Rightarrow> place \<Rightarrow> (channel_log \<times> nat) throws" where
  "addLocalEntry clog entry pl =
     addEntries clog [\<lparr>it_seq = None, it_entry = entry, it_auth = Signed, it_local = True\<rparr>] pl"

definition addSystemMessage :: "channel_log \<Rightarrow> place \<Rightarrow> string \<Rightarrow> rat \<Rightarrow> channel_log \<times> string" where
  "addSystemMessage clog pl txt ts =
     (let i = ''sys:'' @ rat_str ts @ '':'' @ nat_str (length (base clog));
          m = \<lparr>msg_server = pl_server pl, msg_channel = pl_channel pl, msg_sender = [], msg_ts = Fin ts,
            msg_body = Some (TextBody (JStr txt)), msg_reply = None, msg_auth = None, msg_seq = None, msg_local = False,
            msg_edited = False, msg_deleted = False, msg_system = True, msg_reacts = [], msg_failed = False\<rparr>
      in (clog\<lparr>base := AList.update i m (base clog)\<rparr>, i))"

section \<open>Replaying the mutations\<close>

type_synonym lines = "(string \<times> message) list"

definition target_id :: "jsval \<Rightarrow> string throws" where
  \<comment> \<open>\<open>messageId(entry.sender, Number(entry.to?.ts))\<close>\<close>
  "target_id entry =
     do { s \<leftarrow> to_str (oprop entry ''sender'');
          n \<leftarrow> num_prop (oprop entry ''to'') ''ts'';
          Some (messageId s n) }"

definition is_text :: "message \<Rightarrow> bool" where
  \<comment> \<open>\<open>!target.file && !target.game\<close>\<close>
  "is_text m = (case msg_body m of Some (FileBody f) \<Rightarrow> \<not> truthy f | Some (GameBody _) \<Rightarrow> False | _ \<Rightarrow> True)"

definition applyEdit :: "jsval \<Rightarrow> lines \<Rightarrow> lines throws" where
  "applyEdit entry msgs =
     do { i \<leftarrow> target_id entry;
          case map_of msgs i of
            None \<Rightarrow> Some msgs
          | Some target \<Rightarrow>
              if msg_deleted target \<or> \<not> is_text target then Some msgs
              else do {
                txt \<leftarrow> str_prop entry ''text'';
                if txt = [] then Some msgs
                else Some (AList.update i (target\<lparr>msg_body := Some (TextBody (JStr txt)), msg_edited := True\<rparr>) msgs) } }"

definition tombstone_of :: "message \<Rightarrow> message" where
  "tombstone_of m = \<lparr>msg_server = msg_server m, msg_channel = msg_channel m, msg_sender = msg_sender m, msg_ts = msg_ts m,
     msg_body = None, msg_reply = None, msg_auth = msg_auth m, msg_seq = msg_seq m, msg_local = False,
     msg_edited = False, msg_deleted = True, msg_system = False, msg_reacts = [], msg_failed = False\<rparr>"

definition applyDelete :: "jsval \<Rightarrow> lines \<Rightarrow> lines throws" where
  "applyDelete entry msgs =
     do { i \<leftarrow> target_id entry;
          Some (case map_of msgs i of None \<Rightarrow> msgs | Some target \<Rightarrow> AList.update i (tombstone_of target) msgs) }"

definition react :: "bool \<Rightarrow> jsval \<Rightarrow> string \<Rightarrow> jsval list dict \<Rightarrow> jsval list dict throws" where
  \<comment> \<open>an emoji that names an inherited method finds a function, and \<open>new Set(function)\<close> throws\<close>
  "react adding who emo reacts =
     (case dget reacts emo of
        Proto \<Rightarrow> None
      | Absent \<Rightarrow> Some (if adding then (if REACT_MAX \<le> length reacts then reacts else dput reacts emo [who]) else ddel reacts emo)
      | Own ws \<Rightarrow>
          let set' = (if adding then set_add (uniq ws) who else filter (\<lambda>w. w \<noteq> who) (uniq ws))
          in Some (if set' \<noteq> [] then dput reacts emo set' else ddel reacts emo))"

definition applyReaction :: "jsval \<Rightarrow> lines \<Rightarrow> lines throws" where
  "applyReaction entry msgs =
     do { let to = coalesce (oprop entry ''to'') (JObj []);
          s \<leftarrow> str_prop to ''sender'';
          n \<leftarrow> num_prop to ''ts'';
          case map_of msgs (messageId s n) of
            None \<Rightarrow> Some msgs
          | Some target \<Rightarrow>
              if msg_deleted target then Some msgs
              else do {
                e \<leftarrow> str_prop entry ''emo'';
                let emo = trim (take 8 e);
                if emo = [] then Some msgs
                else do {
                  rs \<leftarrow> react (oprop entry ''op'' \<noteq> JStr ''del'') (oprop entry ''sender'') emo (msg_reacts target);
                  Some (AList.update (messageId s n) (target\<lparr>msg_reacts := rs\<rparr>) msgs) } } }"

definition apply_mutation :: "jsval \<Rightarrow> lines \<Rightarrow> lines throws" where
  "apply_mutation entry msgs =
     (if oprop entry ''k'' = JStr ''edit'' then applyEdit entry msgs
      else if oprop entry ''k'' = JStr ''del'' then applyDelete entry msgs
      else if oprop entry ''k'' = JStr ''react'' then applyReaction entry msgs
      else Some msgs)"

definition replay :: "channel_log \<Rightarrow> lines throws" where
  "replay clog = foldM apply_mutation (map mut_entry (sort_key mut_seq (map snd (mutations clog)))) (base clog)"

definition renderLog :: "channel_log \<Rightarrow> message list throws" where
  "renderLog clog = map_option (\<lambda>msgs. sort_key msg_ts (map snd msgs)) (replay clog)"

definition pruneLog :: "channel_log \<Rightarrow> jsnum \<Rightarrow> (channel_log \<times> nat) throws" where
  "pruneLog clog beforeTs =
     do { ts \<leftarrow> mapM (\<lambda>e. num_prop (mut_entry (snd e)) ''ts'') (mutations clog);
          let gone = filter (\<lambda>e. js_lt (msg_ts (snd e)) beforeTs) (base clog);
          Some (clog\<lparr>base := filter (\<lambda>e. \<not> js_lt (msg_ts (snd e)) beforeTs) (base clog),
                    mutations := map fst (filter (\<lambda>p. \<not> js_lt (snd p) beforeTs) (zip (mutations clog) ts))\<rparr>,
                length gone) }"

end
