(* ===== verification/Log_Rules.thy ===== *)
theory Log_Rules
  imports ChannelLog
begin

text \<open>
  What the fold of a channel's log guarantees: forged entries are inert, only signed entries mutate,
  only an author rewrites_to a line, a deletion is final, reactions are bounded and never cast for
  another, the relay's copy replaces a local echo, refetching a page changes nothing and the order
  pages arrive in does not matter.
\<close>

section \<open>Identities\<close>

lemma messageId_inj: "messageId s t = messageId s' t' \<longleftrightarrow> s = s' \<and> t = t'"
proof
  assume "messageId s t = messageId s' t'"
  then have "rev (num_str t) @ CHR '':'' # rev s = rev (num_str t') @ CHR '':'' # rev s'"
    by (metis (no_types, lifting) append_Cons append_Nil append_assoc messageId_def rev.simps(2) rev_append)
  then have "rev (num_str t) = rev (num_str t') \<and> rev s = rev s'"
    by (rule split_at_unique) (simp_all add: num_str_no_colon)
  then show "s = s' \<and> t = t'" by (simp add: num_str_inj)
qed simp

section \<open>One entry at a time\<close>

lemma add_entry_forged: "it_auth it = Forged \<Longrightarrow> add_entry pl it s = Some s"
  by (simp add: add_entry_def)

lemma foldM_skip:
  assumes "\<And>x s. x \<in> set xs \<Longrightarrow> \<not> P x \<Longrightarrow> f x s = Some s"
  shows "foldM f xs s = foldM f (filter P xs) s"
  using assms
proof (induction xs arbitrary: s)
  case (Cons x xs)
  then have "foldM f xs t = foldM f (filter P xs) t" for t by simp
  with Cons.prems show ?case by (cases "P x") (cases "f x s"; simp)+
qed simp

lemma foldM_append: "foldM f (xs @ ys) s = do { s' \<leftarrow> foldM f xs s; foldM f ys s' }"
proof (induction xs arbitrary: s)
  case (Cons x xs)
  then show ?case by (cases "f x s") simp_all
qed simp

text \<open>What one entry contributes, and that everything else stays.\<close>

definition content_of :: "place \<Rightarrow> item \<Rightarrow> (string \<times> message) option" where
  "content_of pl it =
     (if \<not> truthy (it_entry it) \<or> it_auth it = Forged \<or> kind_of_entry (it_entry it) \<notin> set CONTENT_KINDS then None
      else case entryToMessage (it_entry it) pl (it_auth it) (it_seq it) of
        Some (Some m) \<Rightarrow> Some (messageId (msg_sender m) (msg_ts m), m\<lparr>msg_local := it_local it\<rparr>) | _ \<Rightarrow> None)"

definition mutation_of :: "item \<Rightarrow> (string \<times> jsval) option" where
  "mutation_of it =
     (if \<not> truthy (it_entry it) \<or> it_auth it \<noteq> Signed \<or> kind_of_entry (it_entry it) \<notin> set MUTATION_KINDS then None
      else map_option (\<lambda>i. (i, it_entry it)) (mutationId (it_entry it)))"

definition takes_over :: "item \<Rightarrow> message option \<Rightarrow> bool" where
  \<comment> \<open>nothing there yet, or a local echo that the relay's copy replaces\<close>
  "takes_over it prior = (case prior of None \<Rightarrow> True | Some p \<Rightarrow> msg_local p \<and> \<not> it_local it)"

lemma kinds_disjoint: "k \<in> set CONTENT_KINDS \<Longrightarrow> k \<notin> set MUTATION_KINDS"
  by (auto simp: CONTENT_KINDS_def MUTATION_KINDS_def)

lemma note_seq_fields [simp]:
  "base (note_seq q l) = base l" "mutations (note_seq q l) = mutations l" "localSeq (note_seq q l) = localSeq l"
  by (simp_all add: note_seq_def split: option.split)

lemma add_content_SomeD:
  assumes "add_content pl it (l, n) = Some (l', n')"
  obtains m where "entryToMessage (it_entry it) pl (it_auth it) (it_seq it) = Some m"
    "m = None \<Longrightarrow> l' = l \<and> n' = n"
    "\<And>m0. m = Some m0 \<Longrightarrow>
       (let i = messageId (msg_sender m0) (msg_ts m0)
        in if takes_over it (map_of (base l) i)
           then l' = l\<lparr>base := AList.update i (m0\<lparr>msg_local := it_local it\<rparr>) (base l)\<rparr> \<and> n' = Suc n
           else l' = l \<and> n' = n)"
proof -
  from assms obtain m where m: "entryToMessage (it_entry it) pl (it_auth it) (it_seq it) = Some m"
    by (auto simp: add_content_def run_simps)
  from m assms show thesis
    by (intro that [OF m])
      (auto simp: add_content_def takes_over_def Let_def split: option.splits if_splits)
qed

lemma add_content_mutations:
  assumes "add_content pl it (l, n) = Some (l', n')"
  shows "mutations l' = mutations l"
proof -
  from assms obtain m where "entryToMessage (it_entry it) pl (it_auth it) (it_seq it) = Some m"
    by (auto simp: add_content_def run_simps)
  with assms show ?thesis
    by (cases m) (auto simp: add_content_def Let_def split: option.splits if_splits)
qed

lemma add_entry_base:
  assumes "add_entry pl it (l, n) = Some (l', n')"
  shows "base l' = (case content_of pl it of None \<Rightarrow> base l
    | Some (i, m) \<Rightarrow> if takes_over it (map_of (base l) i) then AList.update i m (base l) else base l)"
proof (cases "truthy (it_entry it) \<and> it_auth it \<noteq> Forged \<and> kind_of_entry (it_entry it) \<in> set CONTENT_KINDS")
  case True
  with assms have "add_content pl it (note_seq (it_seq it) l, n) = Some (l', n')" by (simp add: add_entry_def)
  then show ?thesis
    by (rule add_content_SomeD) (use True in \<open>auto simp: content_of_def Let_def split: option.splits if_splits\<close>)
next
  case False
  with assms have "base l' = base l"
    by (auto simp: add_entry_def add_mutation_def run_simps split: if_splits option.splits)
  moreover have "content_of pl it = None" using False by (auto simp: content_of_def)
  ultimately show ?thesis by simp
qed

lemma add_entry_mutations:
  assumes "add_entry pl it (l, n) = Some (l', n')"
  shows "mutations l' = (case mutation_of it of None \<Rightarrow> mutations l
    | Some (i, e) \<Rightarrow> if map_of (mutations l) i = None
        then AList.update i \<lparr>mut_seq = (case it_seq it of Some q \<Rightarrow> q | None \<Rightarrow> localSeq l), mut_entry = e\<rparr> (mutations l)
        else mutations l)"
proof (cases "truthy (it_entry it) \<and> it_auth it \<noteq> Forged \<and> kind_of_entry (it_entry it) \<in> set CONTENT_KINDS")
  case True
  with assms have add: "add_content pl it (note_seq (it_seq it) l, n) = Some (l', n')" by (simp add: add_entry_def)
  have "mutations l' = mutations l"
    using add by (rule add_content_mutations [THEN trans]) simp
  moreover have "mutation_of it = None" using True kinds_disjoint by (auto simp: mutation_of_def)
  ultimately show ?thesis by simp
next
  case False
  with assms show ?thesis
    by (auto simp: add_entry_def add_mutation_def mutation_of_def run_simps split: if_splits option.splits)
qed

section \<open>What may enter a log\<close>

lemma foldM_mutations_from:
  assumes "foldM (add_entry pl) items (l, n) = Some (l', n')" and "(i, u) \<in> set (mutations l')"
  shows "(i, u) \<in> set (mutations l) \<or>
    (\<exists>it \<in> set items. it_auth it = Signed \<and> it_entry it = mut_entry u \<and> mutation_of it = Some (i, mut_entry u))"
  using assms
proof (induction items arbitrary: l n)
  case (Cons it items)
  from Cons.prems(1) obtain l1 n1 where 1: "add_entry pl it (l, n) = Some (l1, n1)"
    and 2: "foldM (add_entry pl) items (l1, n1) = Some (l', n')"
    by (auto simp: run_simps)
  have "(i, u) \<in> set (mutations l1) \<Longrightarrow> (i, u) \<in> set (mutations l) \<or>
      (it_auth it = Signed \<and> it_entry it = mut_entry u \<and> mutation_of it = Some (i, mut_entry u))"
    unfolding add_entry_mutations [OF 1]
    by (auto simp: mutation_of_def update_conv' split: option.splits if_splits
        dest!: set_mp [OF set_update])
  with Cons.IH [OF 2 Cons.prems(2)] show ?case by auto
qed simp

text \<open>
  C14: a forged entry is inert and only a verified author may mutate. Adding a page is the same as adding
  it without the entries whose signature failed, and every edit, deletion or reaction the log then
  holds was there before or came from an entry whose signature was checked.
\<close>

theorem only_signed_entries_mutate:
  "addEntries l items pl = addEntries l (filter (\<lambda>it. it_auth it \<noteq> Forged) items) pl \<and>
   (addEntries l items pl = Some (l', n) \<longrightarrow>
     (\<forall>(i, u) \<in> set (mutations l'). (i, u) \<in> set (mutations l) \<or>
        (\<exists>it \<in> set items. it_auth it = Signed \<and> it_entry it = mut_entry u)))"
proof -
  have "addEntries l items pl = addEntries l (filter (\<lambda>it. it_auth it \<noteq> Forged) items) pl"
    unfolding addEntries_def by (rule foldM_skip) (simp add: add_entry_forged)
  then show ?thesis
    unfolding addEntries_def by (blast dest: foldM_mutations_from)
qed

definition example_place :: place where
  "example_place = \<lparr>pl_server = ''c'', pl_channel = ''general''\<rparr>"

definition example_entry :: "string \<Rightarrow> string \<Rightarrow> rat \<Rightarrow> (string \<times> jsval) list \<Rightarrow> jsval" where
  "example_entry k who ts kvs = JObj ([(''k'', JStr k), (''sender'', JStr who), (''ts'', JNum (Fin ts))] @ kvs)"

definition example_item :: "nat \<Rightarrow> jsval \<Rightarrow> auth \<Rightarrow> item" where
  "example_item q e a = \<lparr>it_seq = Some q, it_entry = e, it_auth = a, it_local = False\<rparr>"

lemmas log_eval = addEntries_def add_entry_def add_content_def add_mutation_def entryToMessage_def note_seq_def
  kind_of_entry_def CONTENT_KINDS_def MUTATION_KINDS_def createChannelLog_def example_item_def example_entry_def
  example_place_def str_prop_def num_prop_def normalizeReply_def num_or0_def num_truthy_def mutationId_def Let_def

theorem only_signed_entries_mutate_witness:
  "\<exists>l' n. addEntries createChannelLog
       [example_item 1 (example_entry ''edit'' ''ann'' 5 []) Unsigned, example_item 2 (example_entry ''edit'' ''ann'' 6 []) Signed]
       example_place = Some (l', n) \<and>
     (\<forall>(i, u) \<in> set (mutations l'). mut_entry u = example_entry ''edit'' ''ann'' 6 [])"
proof -
  let ?items = "[example_item 1 (example_entry ''edit'' ''ann'' 5 []) Unsigned, example_item 2 (example_entry ''edit'' ''ann'' 6 []) Signed]"
  obtain l' n where run: "addEntries createChannelLog ?items example_place = Some (l', n)"
    by (simp add: log_eval)
  with only_signed_entries_mutate [of createChannelLog ?items example_place l' n]
  have "\<forall>(i, u) \<in> set (mutations l'). mut_entry u = example_entry ''edit'' ''ann'' 6 []"
    by (auto simp: createChannelLog_def example_item_def split: prod.splits)
  with run show ?thesis by blast
qed

section \<open>Adding is idempotent\<close>

definition covers :: "channel_log \<Rightarrow> channel_log \<Rightarrow> bool" where
  \<comment> \<open>\<open>l'\<close> knows at least what \<open>l\<close> knows\<close>
  "covers l' l \<longleftrightarrow> newest l \<le> newest l' \<and>
     (\<forall>a. oldest l = Some a \<longrightarrow> (\<exists>b \<le> a. oldest l' = Some b)) \<and>
     (\<forall>i p. map_of (base l) i = Some p \<longrightarrow> (\<exists>p'. map_of (base l') i = Some p' \<and> (msg_local p' \<longrightarrow> msg_local p))) \<and>
     dom (map_of (mutations l)) \<subseteq> dom (map_of (mutations l'))"

definition settled :: "place \<Rightarrow> item \<Rightarrow> channel_log \<Rightarrow> bool" where
  "settled pl it l \<longleftrightarrow> \<not> truthy (it_entry it) \<or> it_auth it = Forged \<or>
     (\<forall>q. it_seq it = Some q \<longrightarrow> q \<le> newest l \<and> (\<exists>b \<le> q. oldest l = Some b)) \<and>
     (kind_of_entry (it_entry it) \<in> set CONTENT_KINDS \<longrightarrow>
        entryToMessage (it_entry it) pl (it_auth it) (it_seq it) \<noteq> None) \<and>
     (kind_of_entry (it_entry it) \<in> set MUTATION_KINDS \<longrightarrow> it_auth it = Signed \<longrightarrow> mutationId (it_entry it) \<noteq> None) \<and>
     (\<forall>i m. content_of pl it = Some (i, m) \<longrightarrow> (\<exists>p. map_of (base l) i = Some p \<and> (msg_local p \<longrightarrow> it_local it))) \<and>
     (\<forall>i e. mutation_of it = Some (i, e) \<longrightarrow> i \<in> dom (map_of (mutations l)))"

lemma covers_refl [simp]: "covers l l"
  by (auto simp: covers_def)

lemma covers_trans: "covers l'' l' \<Longrightarrow> covers l' l \<Longrightarrow> covers l'' l"
  unfolding covers_def by (meson order_trans subset_trans)

lemma settled_covers: "settled pl it l \<Longrightarrow> covers l' l \<Longrightarrow> settled pl it l'"
  unfolding settled_def covers_def by (meson order_trans subsetD)

lemma add_entry_seqs:
  assumes "add_entry pl it (l, n) = Some (l', n')"
  shows "newest l' = newest (if truthy (it_entry it) \<and> it_auth it \<noteq> Forged then note_seq (it_seq it) l else l) \<and>
    oldest l' = oldest (if truthy (it_entry it) \<and> it_auth it \<noteq> Forged then note_seq (it_seq it) l else l)"
proof -
  have c: "add_content pl it (a, n) = Some (l', n') \<Longrightarrow> newest l' = newest a \<and> oldest l' = oldest a" for a
  proof -
    assume add: "add_content pl it (a, n) = Some (l', n')"
    then obtain m where "entryToMessage (it_entry it) pl (it_auth it) (it_seq it) = Some m"
      by (auto simp: add_content_def run_simps)
    with add show ?thesis by (cases m) (auto simp: add_content_def Let_def split: option.splits if_splits)
  qed
  have m: "add_mutation it (a, n) = Some (l', n') \<Longrightarrow> newest l' = newest a \<and> oldest l' = oldest a" for a
    by (auto simp: add_mutation_def run_simps split: if_splits option.splits)
  show ?thesis using assms c m by (auto simp: add_entry_def Let_def split: if_splits)
qed

lemma note_seq_covers:
  "newest l \<le> newest (note_seq q l)" "oldest l = Some a \<Longrightarrow> \<exists>b \<le> a. oldest (note_seq q l) = Some b"
  "q = Some k \<Longrightarrow> k \<le> newest (note_seq q l) \<and> (\<exists>b \<le> k. oldest (note_seq q l) = Some b)"
  by (auto simp: note_seq_def split: option.split)

lemma add_entry_covers:
  assumes "add_entry pl it (l, n) = Some (l', n')"
  shows "covers l' l"
proof -
  have "\<exists>p'. map_of (base l') i = Some p' \<and> (msg_local p' \<longrightarrow> msg_local p)"
    if "map_of (base l) i = Some p" for i p
    unfolding add_entry_base [OF assms] using that
    by (auto simp: takes_over_def update_conv' split: option.splits)
  moreover have "dom (map_of (mutations l)) \<subseteq> dom (map_of (mutations l'))"
    unfolding add_entry_mutations [OF assms] by (auto simp: update_conv' split: option.splits)
  moreover have "newest l \<le> newest l'" "\<And>a. oldest l = Some a \<Longrightarrow> \<exists>b \<le> a. oldest l' = Some b"
    using add_entry_seqs [OF assms] note_seq_covers(1,2) by auto
  ultimately show ?thesis by (simp add: covers_def)
qed

lemma add_entry_settles:
  assumes "add_entry pl it (l, n) = Some (l', n')"
  shows "settled pl it l'"
proof -
  have "content_of pl it = Some (i, m) \<Longrightarrow> \<exists>p. map_of (base l') i = Some p \<and> (msg_local p \<longrightarrow> it_local it)" for i m
    unfolding add_entry_base [OF assms]
    by (auto simp: takes_over_def update_conv' content_of_def split: option.splits if_splits)
  moreover have "mutation_of it = Some (i, e) \<Longrightarrow> i \<in> dom (map_of (mutations l'))" for i e
    unfolding add_entry_mutations [OF assms] by (auto simp: update_conv')
  moreover have "truthy (it_entry it) \<Longrightarrow> it_auth it \<noteq> Forged \<Longrightarrow> it_seq it = Some q \<Longrightarrow>
      q \<le> newest l' \<and> (\<exists>b \<le> q. oldest l' = Some b)" for q
    using add_entry_seqs [OF assms] note_seq_covers(3) by auto
  moreover have "truthy (it_entry it) \<Longrightarrow> it_auth it \<noteq> Forged \<Longrightarrow> kind_of_entry (it_entry it) \<in> set CONTENT_KINDS \<Longrightarrow>
      entryToMessage (it_entry it) pl (it_auth it) (it_seq it) \<noteq> None"
    using assms by (cases "entryToMessage (it_entry it) pl (it_auth it) (it_seq it)") (simp_all add: add_entry_def add_content_def Let_def)
  moreover have "truthy (it_entry it) \<Longrightarrow> it_auth it \<noteq> Forged \<Longrightarrow> kind_of_entry (it_entry it) \<in> set MUTATION_KINDS \<Longrightarrow>
      it_auth it = Signed \<Longrightarrow> mutationId (it_entry it) \<noteq> None"
    using assms kinds_disjoint by (cases "mutationId (it_entry it)") (auto simp: add_entry_def add_mutation_def Let_def split: if_splits)
  ultimately show ?thesis unfolding settled_def by blast
qed

lemma settled_noop:
  assumes "settled pl it l"
  shows "add_entry pl it (l, n) = Some (l, n)"
proof (cases "truthy (it_entry it) \<and> it_auth it \<noteq> Forged")
  case True
  have seq: "note_seq (it_seq it) l = l"
    using assms True by (cases l) (auto simp: settled_def note_seq_def max_absorb1 min_absorb1 split: option.split)
  have content: "add_content pl it (l, n) = Some (l, n)" if k: "kind_of_entry (it_entry it) \<in> set CONTENT_KINDS"
  proof -
    obtain m where m: "entryToMessage (it_entry it) pl (it_auth it) (it_seq it) = Some m"
      using assms True k by (auto simp: settled_def)
    show ?thesis
    proof (cases m)
      case (Some m0)
      then have "content_of pl it = Some (messageId (msg_sender m0) (msg_ts m0), m0\<lparr>msg_local := it_local it\<rparr>)"
        using True k m by (simp add: content_of_def)
      then have "\<exists>p. map_of (base l) (messageId (msg_sender m0) (msg_ts m0)) = Some p \<and> (msg_local p \<longrightarrow> it_local it)"
        using assms True by (auto simp: settled_def)
      then show ?thesis by (auto simp: add_content_def m Some)
    qed (simp add: add_content_def m)
  qed
  have mutation: "add_mutation it (l, n) = Some (l, n)" if k: "kind_of_entry (it_entry it) \<in> set MUTATION_KINDS"
  proof (cases "it_auth it = Signed")
    case sgn: True
    obtain i where i: "mutationId (it_entry it) = Some i"
      using assms True k sgn by (auto simp: settled_def)
    then have "mutation_of it = Some (i, it_entry it)" using True k sgn by (simp add: mutation_of_def)
    then have "i \<in> dom (map_of (mutations l))" using assms True by (auto simp: settled_def)
    then show ?thesis by (auto simp: add_mutation_def i)
  qed (simp add: add_mutation_def)
  show ?thesis using True seq content mutation by (simp add: add_entry_def Let_def)
qed (auto simp: add_entry_def)

lemma foldM_covers: "foldM (add_entry pl) items (l, n) = Some (l', n') \<Longrightarrow> covers l' l"
proof (induction items arbitrary: l n)
  case (Cons it items)
  from Cons.prems obtain l1 n1 where 1: "add_entry pl it (l, n) = Some (l1, n1)"
    and 2: "foldM (add_entry pl) items (l1, n1) = Some (l', n')" by (auto simp: run_simps)
  from covers_trans [OF Cons.IH [OF 2] add_entry_covers [OF 1]] show ?case .
qed simp

lemma foldM_settles:
  "foldM (add_entry pl) items (l, n) = Some (l', n') \<Longrightarrow> it \<in> set items \<Longrightarrow> settled pl it l'"
proof (induction items arbitrary: l n)
  case (Cons a items)
  from Cons.prems(1) obtain l1 n1 where 1: "add_entry pl a (l, n) = Some (l1, n1)"
    and 2: "foldM (add_entry pl) items (l1, n1) = Some (l', n')" by (auto simp: run_simps)
  from settled_covers [OF add_entry_settles [OF 1] foldM_covers [OF 2]] Cons.IH [OF 2] Cons.prems(2)
  show ?case by auto
qed simp

lemma foldM_settled_noop: "\<forall>it \<in> set items. settled pl it l \<Longrightarrow> foldM (add_entry pl) items (l, n) = Some (l, n)"
  by (induction items) (simp_all add: settled_noop)

text \<open>
  Fetching is idempotent. A page read again (after a reconnect, or because two fetches overlapped)
  adds nothing: the log is left exactly as it was and the count of new entries is zero, whatever else
  arrived in between.
\<close>

theorem refetch_changes_nothing:
  assumes "addEntries l items pl = Some (l1, n1)" and "addEntries l1 more_items pl = Some (l2, n2)"
  shows "addEntries l2 items pl = Some (l2, 0)"
proof -
  have "covers l2 l1" using assms(2) by (auto simp: addEntries_def dest: foldM_covers)
  moreover have "\<forall>it \<in> set items. settled pl it l1" using assms(1) by (auto simp: addEntries_def dest: foldM_settles)
  ultimately show ?thesis unfolding addEntries_def by (auto intro: foldM_settled_noop settled_covers)
qed

theorem refetch_changes_nothing_witness:
  "\<exists>l1 l2. addEntries createChannelLog [example_item 1 (example_entry ''chat'' ''ann'' 5 []) Signed] example_place = Some (l1, 1) \<and>
     addEntries l1 [example_item 2 (example_entry ''edit'' ''ann'' 6 []) Signed] example_place = Some (l2, 1) \<and>
     addEntries l2 [example_item 1 (example_entry ''chat'' ''ann'' 5 []) Signed] example_place = Some (l2, 0)"
proof -
  obtain l1 where l1: "addEntries createChannelLog [example_item 1 (example_entry ''chat'' ''ann'' 5 []) Signed] example_place = Some (l1, 1)"
    and m: "mutations l1 = []"
    by (simp add: log_eval)
  obtain l2 where l2: "addEntries l1 [example_item 2 (example_entry ''edit'' ''ann'' 6 []) Signed] example_place = Some (l2, 1)"
    using m by (simp add: log_eval)
  from refetch_changes_nothing [OF l1 l2] l1 l2 show ?thesis by blast
qed

section \<open>Replaying\<close>

inductive rewrites_to :: "jsval \<Rightarrow> string \<Rightarrow> message \<Rightarrow> message \<Rightarrow> bool" where
  \<comment> \<open>what one mutation entry may do to the line stored under an id\<close>
  keep: "rewrites_to e i m m"
| edit: "oprop e ''k'' = JStr ''edit'' \<Longrightarrow> target_id e = Some i \<Longrightarrow> \<not> msg_deleted m \<Longrightarrow>
    rewrites_to e i m (m\<lparr>msg_body := Some (TextBody (JStr t)), msg_edited := True\<rparr>)"
| delete: "oprop e ''k'' = JStr ''del'' \<Longrightarrow> target_id e = Some i \<Longrightarrow> rewrites_to e i m (tombstone_of m)"
| react: "oprop e ''k'' = JStr ''react'' \<Longrightarrow> \<not> msg_deleted m \<Longrightarrow>
    react (oprop e ''op'' \<noteq> JStr ''del'') (oprop e ''sender'') emo (msg_reacts m) = Some rs \<Longrightarrow>
    rewrites_to e i m (m\<lparr>msg_reacts := rs\<rparr>)"

lemma applyEdit_SomeD:
  assumes "applyEdit e msgs = Some msgs'"
  obtains "msgs' = msgs"
  | i m t where "target_id e = Some i" "map_of msgs i = Some m" "\<not> msg_deleted m"
      "msgs' = AList.update i (m\<lparr>msg_body := Some (TextBody (JStr t)), msg_edited := True\<rparr>) msgs"
  using assms by (auto simp: applyEdit_def run_simps split: option.splits if_splits)

lemma applyReaction_SomeD:
  assumes "applyReaction e msgs = Some msgs'"
  obtains "msgs' = msgs"
  | i m emo rs where "map_of msgs i = Some m" "\<not> msg_deleted m"
      "react (oprop e ''op'' \<noteq> JStr ''del'') (oprop e ''sender'') emo (msg_reacts m) = Some rs"
      "msgs' = AList.update i (m\<lparr>msg_reacts := rs\<rparr>) msgs"
  using assms by (auto simp: applyReaction_def run_simps split: option.splits if_splits)

lemma apply_mutation_cases:
  assumes "apply_mutation e msgs = Some msgs'"
  obtains "msgs' = msgs"
  | i m m' where "map_of msgs i = Some m" "rewrites_to e i m m'" "msgs' = AList.update i m' msgs"
proof -
  consider "oprop e ''k'' = JStr ''edit''" | "oprop e ''k'' = JStr ''del''" | "oprop e ''k'' = JStr ''react''"
    | "oprop e ''k'' \<notin> {JStr ''edit'', JStr ''del'', JStr ''react''}" by blast
  then show thesis
  proof cases
    case 1
    with assms have "applyEdit e msgs = Some msgs'" by (simp add: apply_mutation_def)
    then show thesis by (rule applyEdit_SomeD) (use 1 that rewrites_to.edit in blast)+
  next
    case 2
    with assms obtain i where i: "target_id e = Some i"
      and m: "msgs' = (case map_of msgs i of None \<Rightarrow> msgs | Some t \<Rightarrow> AList.update i (tombstone_of t) msgs)"
      by (auto simp: apply_mutation_def applyDelete_def run_simps)
    show thesis
    proof (cases "map_of msgs i")
      case (Some t)
      with m have "msgs' = AList.update i (tombstone_of t) msgs" by simp
      from that(2) [OF Some rewrites_to.delete [OF 2 i] this] show thesis .
    qed (use m that(1) in simp)
  next
    case 3
    with assms have "applyReaction e msgs = Some msgs'" by (simp add: apply_mutation_def)
    then show thesis by (rule applyReaction_SomeD) (use 3 that rewrites_to.react in blast)+
  next
    case 4
    with assms that(1) show thesis by (simp add: apply_mutation_def)
  qed
qed

lemma apply_mutation_keys:
  assumes "apply_mutation e msgs = Some msgs'"
  shows "map fst msgs' = map fst msgs"
  using assms by (cases rule: apply_mutation_cases) (simp_all add: keys_update)

lemma apply_mutation_line:
  assumes "apply_mutation e msgs = Some msgs'" and "map_of msgs' i = Some m'"
  obtains m where "map_of msgs i = Some m" "rewrites_to e i m m'"
  using assms(1)
proof (cases rule: apply_mutation_cases)
  case 1
  with assms(2) that rewrites_to.keep show thesis by blast
next
  case (2 j m m'')
  with assms(2) that rewrites_to.keep show thesis by (auto simp: update_conv' split: if_splits)
qed

text \<open>An invariant of lines that every rewriting keeps holds of every line of the replayed log.\<close>

lemma replay_invariant:
  assumes "replay l = Some msgs" and "map_of msgs i = Some m"
    and start: "\<And>m0. map_of (base l) i = Some m0 \<Longrightarrow> P m0 m0"
    and step: "\<And>m0 m1 m2 u. P m0 m1 \<Longrightarrow> u \<in> set (map snd (mutations l)) \<Longrightarrow> rewrites_to (mut_entry u) i m1 m2 \<Longrightarrow> P m0 m2"
  shows "\<exists>m0. map_of (base l) i = Some m0 \<and> P m0 m"
proof -
  let ?inv = "\<lambda>msgs. \<forall>m. map_of msgs i = Some m \<longrightarrow> (\<exists>m0. map_of (base l) i = Some m0 \<and> P m0 m)"
  have "?inv msgs"
  proof (rule foldM_invariant [OF assms(1) [unfolded replay_def], where P = ?inv])
    show "?inv (base l)" using start by blast
  next
    fix e s s'
    assume "e \<in> set (map mut_entry (sort_key mut_seq (map snd (mutations l))))" "?inv s" "apply_mutation e s = Some s'"
    then obtain u where u: "u \<in> set (map snd (mutations l))" "e = mut_entry u" by auto
    show "?inv s'"
    proof (intro allI impI)
      fix m' assume "map_of s' i = Some m'"
      then obtain m1 where "map_of s i = Some m1" "rewrites_to e i m1 m'"
        using apply_mutation_line [OF \<open>apply_mutation e s = Some s'\<close>] by metis
      with \<open>?inv s\<close> u step show "\<exists>m0. map_of (base l) i = Some m0 \<and> P m0 m'" by metis
    qed
  qed
  with assms(2) show ?thesis by blast
qed

section \<open>Well-formed logs\<close>

definition fresh :: "message \<Rightarrow> bool" where
  "fresh m \<longleftrightarrow> \<not> msg_edited m \<and> \<not> msg_deleted m \<and> msg_reacts m = [] \<and> msg_body m \<noteq> None"

definition log_ok :: "channel_log \<Rightarrow> bool" where
  \<comment> \<open>lines are stored as written, each under its own identity\<close>
  "log_ok l \<longleftrightarrow> distinct (map fst (base l)) \<and> distinct (map fst (mutations l)) \<and>
     (\<forall>(i, m) \<in> set (base l). fresh m \<and> (msg_system m \<or> i = messageId (msg_sender m) (msg_ts m)))"

lemma log_ok_create: "log_ok createChannelLog"
  by (simp add: log_ok_def createChannelLog_def)

lemma entryToMessage_SomeD:
  assumes "entryToMessage e pl a q = Some (Some m)"
  shows "fresh m \<and> \<not> msg_system m \<and> msg_auth m = Some a \<and> msg_seq m = q \<and> msg_sender m \<noteq> [] \<and>
    msg_server m = pl_server pl \<and> msg_channel m = pl_channel pl \<and> str_prop e ''sender'' = Some (msg_sender m)"
  using assms by (auto simp: entryToMessage_def run_simps fresh_def split: if_splits option.splits)

lemma content_of_SomeD:
  assumes "content_of pl it = Some (i, m)"
  shows "fresh m \<and> \<not> msg_system m \<and> i = messageId (msg_sender m) (msg_ts m) \<and> msg_local m = it_local it \<and>
    it_auth it \<noteq> Forged \<and> msg_auth m = Some (it_auth it) \<and> msg_seq m = it_seq it"
  using assms
  by (auto simp: content_of_def fresh_def split: if_splits option.splits dest!: entryToMessage_SomeD)

lemma add_entry_log_ok:
  assumes "add_entry pl it (l, n) = Some (l', n')" and "log_ok l"
  shows "log_ok l'"
  using assms(2)
  unfolding log_ok_def add_entry_base [OF assms(1)] add_entry_mutations [OF assms(1)]
  by (auto simp: distinct_update split: option.splits if_splits
      dest!: set_mp [OF set_update] content_of_SomeD)

lemma addEntries_log_ok:
  assumes "addEntries l items pl = Some (l', n)" and "log_ok l"
  shows "log_ok l'"
proof -
  have "log_ok (fst (l', n))"
    by (rule foldM_invariant [OF assms(1) [unfolded addEntries_def], where P = "\<lambda>s. log_ok (fst s)"])
      (use assms(2) in \<open>auto dest: add_entry_log_ok\<close>)
  then show ?thesis by simp
qed

lemma addSystemMessage_log_ok: "log_ok l \<Longrightarrow> log_ok (fst (addSystemMessage l pl txt ts))"
  by (auto simp: log_ok_def addSystemMessage_def Let_def distinct_update fresh_def dest!: set_mp [OF set_update])

lemma pruneLog_log_ok:
  assumes "pruneLog l b = Some (l', n)" and "log_ok l"
  shows "log_ok l'"
proof -
  from assms(1) obtain ts where ts: "mapM (\<lambda>e. num_prop (mut_entry (snd e)) ''ts'') (mutations l) = Some ts"
    and base': "base l' = filter (\<lambda>e. \<not> js_lt (msg_ts (snd e)) b) (base l)"
    and muts': "mutations l' = map fst (filter (\<lambda>p. \<not> js_lt (snd p) b) (zip (mutations l) ts))"
    by (auto simp: pruneLog_def run_simps)
  have "map fst (zip (mutations l) ts) = mutations l" using length_mapM [OF ts] by simp
  then have "distinct (map (fst \<circ> fst) (zip (mutations l) ts))"
    using assms(2) by (metis log_ok_def map_map)
  then have "distinct (map fst (mutations l'))"
    unfolding muts' map_map by (rule distinct_map_filter)
  with assms(2) show ?thesis
    unfolding log_ok_def base' by (auto simp: distinct_map_filter)
qed

lemma log_ok_line:
  assumes "log_ok l" and "map_of (base l) i = Some m"
  shows "fresh m" and "\<not> msg_system m \<Longrightarrow> i = messageId (msg_sender m) (msg_ts m)"
  using assms by (auto simp: log_ok_def dest!: map_of_SomeD)

section \<open>Who may rewrite a line\<close>

definition same_line :: "message \<Rightarrow> message \<Rightarrow> bool" where
  "same_line m0 m \<longleftrightarrow> msg_server m = msg_server m0 \<and> msg_channel m = msg_channel m0 \<and> msg_sender m = msg_sender m0 \<and>
     msg_ts m = msg_ts m0 \<and> msg_auth m = msg_auth m0 \<and> msg_seq m = msg_seq m0"

definition authored_change :: "channel_log \<Rightarrow> string \<Rightarrow> message \<Rightarrow> message \<Rightarrow> bool" where
  "authored_change l i m0 m \<longleftrightarrow> same_line m0 m \<and>
     ((msg_body m = msg_body m0 \<and> \<not> msg_edited m \<and> \<not> msg_deleted m) \<or>
      (\<exists>u \<in> set (map snd (mutations l)). oprop (mut_entry u) ''k'' \<in> {JStr ''edit'', JStr ''del''} \<and>
         target_id (mut_entry u) = Some i))"

lemma rewrites_authored:
  assumes "authored_change l i m0 m1" and "u \<in> set (map snd (mutations l))" and "rewrites_to (mut_entry u) i m1 m2"
  shows "authored_change l i m0 m2"
  using assms(3)
proof cases
  case keep
  with assms(1) show ?thesis by simp
next
  case (edit t)
  with assms(1,2) show ?thesis by (auto simp: authored_change_def same_line_def)
next
  case delete
  with assms(1,2) show ?thesis by (auto simp: authored_change_def same_line_def tombstone_of_def)
next
  case (react emo rs)
  with assms(1) show ?thesis by (auto simp: authored_change_def same_line_def)
qed


lemmas replay_eval = replay_def apply_mutation_def applyEdit_def applyDelete_def applyReaction_def target_id_def
  messageId_inj is_text_def

definition example_log :: channel_log where
  \<comment> \<open>a line by ann, and bob's attempt to edit it\<close>
  "example_log = fst (the (addEntries createChannelLog
     [example_item 1 (example_entry ''chat'' ''ann'' 5 [(''text'', JStr ''hello'')]) Signed,
      example_item 2 (example_entry ''edit'' ''bob'' 6 [(''to'', JObj [(''sender'', JStr ''ann''), (''ts'', JNum (Fin 5))]), (''text'', JStr ''lies'')]) Signed]
     example_place))"

definition example_line :: message where
  "example_line = \<lparr>msg_server = ''c'', msg_channel = ''general'', msg_sender = ''ann'', msg_ts = Fin 5,
     msg_body = Some (TextBody (JStr ''hello'')), msg_reply = None, msg_auth = Some Signed, msg_seq = Some 1, msg_local = False,
     msg_edited = False, msg_deleted = False, msg_system = False, msg_reacts = [], msg_failed = False\<rparr>"

lemma example_log_base: "base example_log = [(messageId ''ann'' (Fin 5), example_line)]"
  by (simp add: example_log_def log_eval example_line_def update_fresh)

lemma example_log_ok: "log_ok example_log"
proof -
  obtain l n where run: "addEntries createChannelLog
     [example_item 1 (example_entry ''chat'' ''ann'' 5 [(''text'', JStr ''hello'')]) Signed,
      example_item 2 (example_entry ''edit'' ''bob'' 6 [(''to'', JObj [(''sender'', JStr ''ann''), (''ts'', JNum (Fin 5))]), (''text'', JStr ''lies'')]) Signed]
     example_place = Some (l, n)"
    by (simp add: log_eval)
  from addEntries_log_ok [OF run log_ok_create] show ?thesis unfolding example_log_def run by simp
qed

lemma example_log_replay: "replay example_log = Some [(messageId ''ann'' (Fin 5), example_line)]"
  by (simp add: example_log_def log_eval example_line_def replay_eval)


section \<open>Deletions are final\<close>

definition gone :: "lines \<Rightarrow> string \<Rightarrow> bool" where
  "gone msgs i \<longleftrightarrow> (\<forall>m. map_of msgs i = Some m \<longrightarrow> msg_deleted m \<and> msg_body m = None \<and> msg_reacts m = [])"

lemma rewrites_gone:
  "msg_deleted m \<Longrightarrow> msg_body m = None \<Longrightarrow> msg_reacts m = [] \<Longrightarrow> rewrites_to e i m m' \<Longrightarrow>
     msg_deleted m' \<and> msg_body m' = None \<and> msg_reacts m' = []"
  by (erule rewrites_to.cases) (auto simp: tombstone_of_def)

lemma apply_mutation_gone:
  assumes "apply_mutation e msgs = Some msgs'" and "gone msgs i"
  shows "gone msgs' i"
  unfolding gone_def
proof (intro allI impI)
  fix m' assume "map_of msgs' i = Some m'"
  then obtain m where "map_of msgs i = Some m" "rewrites_to e i m m'"
    using apply_mutation_line [OF assms(1)] by metis
  with assms(2) rewrites_gone show "msg_deleted m' \<and> msg_body m' = None \<and> msg_reacts m' = []"
    by (metis gone_def)
qed

lemma delete_gone:
  assumes "apply_mutation e msgs = Some msgs'" and "oprop e ''k'' = JStr ''del''" and "target_id e = Some i"
  shows "gone msgs' i"
  using assms by (auto simp: apply_mutation_def applyDelete_def gone_def update_conv' tombstone_of_def split: option.splits)

lemma foldM_gone:
  assumes "foldM apply_mutation es msgs = Some msgs'" and "e \<in> set es" and "oprop e ''k'' = JStr ''del''" and "target_id e = Some i"
  shows "gone msgs' i"
  using assms(1,2)
proof (induction es arbitrary: msgs)
  case (Cons a es)
  from Cons.prems(1) obtain msgs1 where 1: "apply_mutation a msgs = Some msgs1" and 2: "foldM apply_mutation es msgs1 = Some msgs'"
    by (auto simp: run_simps)
  show ?case
  proof (cases "a = e")
    case True
    from delete_gone [OF 1 [unfolded True] assms(3,4)] have "gone msgs1 i" .
    then show ?thesis by (rule foldM_invariant [OF 2, where P = "\<lambda>s. gone s i"]) (rule apply_mutation_gone)
  next
    case False
    with Cons show ?thesis using 2 by auto
  qed
qed simp

text \<open>
  C19: a deletion is final, in whatever order the log is read. If the log holds a deletion of a line by
  its author, the rendered line is a tombstone: no text, file or game, and no reactions, whatever edits and
  reactions the log also holds and whether they come before or after it.
\<close>

theorem deletion_is_final:
  assumes "replay l = Some msgs" and "u \<in> set (map snd (mutations l))"
    and "oprop (mut_entry u) ''k'' = JStr ''del''" and "target_id (mut_entry u) = Some i" and "map_of msgs i = Some m"
  shows "msg_deleted m \<and> msg_body m = None \<and> msg_reacts m = []"
proof -
  have "mut_entry u \<in> set (map mut_entry (sort_key mut_seq (map snd (mutations l))))" using assms(2) by auto
  from foldM_gone [OF assms(1) [unfolded replay_def] this assms(3,4)] assms(5) show ?thesis by (simp add: gone_def)
qed

definition example_deleted :: channel_log where
  "example_deleted = fst (the (addEntries createChannelLog
     [example_item 1 (example_entry ''chat'' ''ann'' 5 [(''text'', JStr ''hello'')]) Signed,
      example_item 2 (example_entry ''del'' ''ann'' 6 [(''to'', JObj [(''ts'', JNum (Fin 5))])]) Signed]
     example_place))"

theorem deletion_is_final_witness:
  "\<exists>m. replay example_deleted = Some [(messageId ''ann'' (Fin 5), m)] \<and> msg_deleted m \<and> msg_body m = None"
proof -
  let ?e = "example_entry ''del'' ''ann'' 6 [(''to'', JObj [(''ts'', JNum (Fin 5))])]"
  obtain m where run: "replay example_deleted = Some [(messageId ''ann'' (Fin 5), m)]"
    by (simp add: example_deleted_def log_eval replay_eval)
  have u: "\<lparr>mut_seq = 2, mut_entry = ?e\<rparr> \<in> set (map snd (mutations example_deleted))"
    by (simp add: example_deleted_def log_eval)
  have t: "target_id ?e = Some (messageId ''ann'' (Fin 5))"
    by (simp add: target_id_def example_entry_def num_prop_def)
  have "msg_deleted m \<and> msg_body m = None \<and> msg_reacts m = []"
    by (rule deletion_is_final [OF run u]) (simp_all add: t, simp add: example_entry_def)
  with run show ?thesis by blast
qed

section \<open>Reactions\<close>

definition cast :: "channel_log \<Rightarrow> message \<Rightarrow> bool" where
  \<comment> \<open>few distinct emoji, and each reactor signed a reaction\<close>
  "cast l m \<longleftrightarrow> distinct (map fst (msg_reacts m)) \<and> length (msg_reacts m) \<le> REACT_MAX \<and>
     (\<forall>(emo, ws) \<in> set (msg_reacts m). \<forall>w \<in> set ws.
        \<exists>u \<in> set (map snd (mutations l)). oprop (mut_entry u) ''k'' = JStr ''react'' \<and>
          oprop (mut_entry u) ''op'' \<noteq> JStr ''del'' \<and> oprop (mut_entry u) ''sender'' = w)"

lemma length_keys_update: "map_of d k \<noteq> None \<Longrightarrow> length (AList.update k v d) = length d"
  by (metis keys_update length_map)

lemma react_bound:
  assumes "react adding who emo rs = Some rs'" and "distinct (map fst rs)" and "length rs \<le> REACT_MAX"
  shows "distinct (map fst rs') \<and> length rs' \<le> REACT_MAX"
proof -
  have "length (ddel rs emo) \<le> REACT_MAX"
    using assms(3) by (simp add: ddel_def AList.delete_eq length_filter_bound)
  moreover have "distinct (map fst rs')"
    using assms(1,2) by (auto simp: react_def Let_def distinct_dput distinct_ddel split: slot.splits if_splits)
  moreover have "length (dput rs emo ws) \<le> (if map_of rs emo = None then Suc (length rs) else length rs)" for ws
    by (simp add: dput_def update_fresh length_keys_update)
  note put = this
  have "length rs' \<le> REACT_MAX"
  proof (cases "dget rs emo")
    case (Own ws)
    then have "length (dput rs emo ws') \<le> REACT_MAX" for ws'
      using put [of ws'] assms(3) by (simp add: dget_Own_iff)
    with Own assms(1) \<open>length (ddel rs emo) \<le> REACT_MAX\<close> show ?thesis
      by (auto simp: react_def Let_def split: if_splits)
  next
    case Absent
    have "length (dput rs emo [who]) \<le> Suc (length rs)"
      using put [of "[who]"] by (simp split: if_splits)
    then have "length (dput rs emo [who]) \<le> REACT_MAX" if "\<not> REACT_MAX \<le> length rs"
      using that by linarith
    note grown = this
    show ?thesis
    proof (cases "adding \<and> \<not> REACT_MAX \<le> length rs")
      case True
      with Absent assms(1) grown show ?thesis by (simp add: react_def)
    next
      case False
      with Absent assms(1,3) \<open>length (ddel rs emo) \<le> REACT_MAX\<close> show ?thesis
        by (cases adding) (auto simp: react_def)
    qed
  qed (use assms(1) in \<open>simp add: react_def\<close>)
  with \<open>distinct (map fst rs')\<close> show ?thesis by simp
qed

lemma react_voices:
  assumes "react adding who emo rs = Some rs'" and "(e, ws) \<in> set rs'" and "w \<in> set ws"
  shows "(\<exists>ws0. (e, ws0) \<in> set rs \<and> w \<in> set ws0) \<or> (adding \<and> w = who)"
  using assms
  by (auto simp: react_def Let_def dput_def ddel_def AList.delete_eq dget_def split: slot.splits if_splits option.splits
      dest!: set_mp [OF set_update] dest: map_of_SomeD)

lemma rewrites_cast:
  assumes "cast l m1" and "u \<in> set (map snd (mutations l))" and "rewrites_to (mut_entry u) i m1 m2"
  shows "cast l m2"
  using assms(3)
proof cases
  case (react emo rs)
  have "distinct (map fst rs) \<and> length rs \<le> REACT_MAX"
    using react_bound [OF react(4)] assms(1) by (simp add: cast_def)
  moreover have "\<exists>u \<in> set (map snd (mutations l)). oprop (mut_entry u) ''k'' = JStr ''react'' \<and>
      oprop (mut_entry u) ''op'' \<noteq> JStr ''del'' \<and> oprop (mut_entry u) ''sender'' = w"
    if "(e, ws) \<in> set rs" "w \<in> set ws" for e ws w
    using react_voices [OF react(4) that] assms(1,2) react(2) by (auto simp: cast_def)
  ultimately show ?thesis unfolding react(1) cast_def by auto
qed (use assms(1) in \<open>auto simp: cast_def tombstone_of_def\<close>)

text \<open>
  Reactions are bounded and cast by whoever signed them. A rendered line carries at most \<open>REACT_MAX\<close>
  distinct emoji, each once, and every member shown under one has a signed reaction entry of their own in
  the log; nobody reacts in another's name.
\<close>

theorem reactions_bounded_and_signed:
  assumes "log_ok l" and "replay l = Some msgs" and "map_of msgs i = Some m"
  shows "distinct (map fst (msg_reacts m)) \<and> length (msg_reacts m) \<le> REACT_MAX \<and>
    (\<forall>(emo, ws) \<in> set (msg_reacts m). \<forall>w \<in> set ws.
       \<exists>u \<in> set (map snd (mutations l)). oprop (mut_entry u) ''k'' = JStr ''react'' \<and>
         oprop (mut_entry u) ''op'' \<noteq> JStr ''del'' \<and> oprop (mut_entry u) ''sender'' = w)"
proof -
  have "\<exists>m0. map_of (base l) i = Some m0 \<and> cast l m"
  proof (rule replay_invariant [OF assms(2,3), where P = "\<lambda>m0 m. cast l m"])
    show "cast l m" if "map_of (base l) i = Some m" for m
      using log_ok_line(1) [OF assms(1) that] by (simp add: cast_def fresh_def)
  qed (rule rewrites_cast)
  then show ?thesis by (auto simp: cast_def)
qed

theorem reactions_bounded_and_signed_witness:
  "\<exists>m. replay example_log = Some [(messageId ''ann'' (Fin 5), m)] \<and> length (msg_reacts m) \<le> REACT_MAX"
  using reactions_bounded_and_signed [OF example_log_ok example_log_replay, of "messageId ''ann'' (Fin 5)" example_line]
    example_log_replay by simp

section \<open>Echo and relay copy\<close>

text \<open>
  The relay's copy replaces the local echo and nothing replaces the relay's copy. After an entry is
  added, the line under its id is the entry's own when nothing or only an echo was there, and the line
  that was there otherwise; so a line once read from the relay is never overwritten.
\<close>

theorem relay_copy_supersedes_echo:
  assumes "addEntries l [it] pl = Some (l', n)" and "content_of pl it = Some (i, m)"
  shows "map_of (base l') i = (case map_of (base l) i of
      None \<Rightarrow> Some m
    | Some p \<Rightarrow> if msg_local p \<and> \<not> it_local it then Some m else Some p)"
proof -
  have "add_entry pl it (l, 0) = Some (l', n)" using assms(1) by (auto simp: addEntries_def run_simps)
  from add_entry_base [OF this] assms(2) show ?thesis
    by (auto simp: takes_over_def update_conv' split: option.splits)
qed

theorem relay_copy_supersedes_echo_witness:
  "\<exists>l l' m p. addLocalEntry createChannelLog (example_entry ''chat'' ''ann'' 5 [(''text'', JStr ''hi'')]) example_place = Some (l, 1) \<and>
     addEntries l [example_item 7 (example_entry ''chat'' ''ann'' 5 [(''text'', JStr ''hi'')]) Signed] example_place = Some (l', 1) \<and>
     map_of (base l) (messageId ''ann'' (Fin 5)) = Some p \<and> msg_local p \<and>
     map_of (base l') (messageId ''ann'' (Fin 5)) = Some m \<and> msg_seq m = Some 7"
proof -
  let ?e = "example_entry ''chat'' ''ann'' 5 [(''text'', JStr ''hi'')]"
  obtain l p where l: "addLocalEntry createChannelLog ?e example_place = Some (l, 1)"
    and b: "base l = [(messageId ''ann'' (Fin 5), p)]" and p: "msg_local p"
    by (simp add: addLocalEntry_def log_eval)
  obtain l' where l': "addEntries l [example_item 7 ?e Signed] example_place = Some (l', 1)"
    using b p by (simp add: log_eval)
  obtain m where m: "content_of example_place (example_item 7 ?e Signed) = Some (messageId ''ann'' (Fin 5), m)" "msg_seq m = Some 7"
    by (simp add: content_of_def log_eval)
  from relay_copy_supersedes_echo [OF l' m(1)] b p m(2) l l' show ?thesis by (auto simp: example_item_def)
qed

end
