(* ===== verification/Log_Order.thy ===== *)
theory Log_Order
  imports Log_Rules
begin

text \<open>
  The order in which pages of a channel's log arrive does not matter: two readers that have fetched the
  same entries, in any order, hold the same lines and the same mutations and render the same channel.
\<close>

section \<open>What a fetched log holds\<close>

definition relay_items :: "place \<Rightarrow> item list \<Rightarrow> bool" where
  \<comment> \<open>entries read from the relay, no two of them the same event, each with its own sequence number\<close>
  "relay_items pl items \<longleftrightarrow>
     (\<forall>it \<in> set items. it_seq it \<noteq> None \<and> \<not> it_local it) \<and> distinct (map it_seq items) \<and>
     distinct (map fst (List.map_filter (content_of pl) items)) \<and>
     distinct (map fst (List.map_filter mutation_of items))"

definition stored_mutation :: "item \<Rightarrow> (string \<times> mutation) option" where
  "stored_mutation it = map_option (\<lambda>(i, e). (i, \<lparr>mut_seq = the (it_seq it), mut_entry = e\<rparr>)) (mutation_of it)"

lemma map_filter_Cons: "List.map_filter f (x # xs) = (case f x of None \<Rightarrow> List.map_filter f xs | Some y \<Rightarrow> y # List.map_filter f xs)"
  by (simp add: List.map_filter_simps split: option.split)

lemma mset_map_filter: "mset xs = mset ys \<Longrightarrow> mset (List.map_filter f xs) = mset (List.map_filter f ys)"
  by (simp add: List.map_filter_def)

lemma foldM_base:
  assumes "foldM (add_entry pl) items (l, n) = Some (l', n')"
    and "distinct (map fst (base l) @ map fst (List.map_filter (content_of pl) items))"
  shows "base l' = base l @ List.map_filter (content_of pl) items"
  using assms
proof (induction items arbitrary: l n)
  case (Cons it items)
  from Cons.prems(1) obtain l1 n1 where 1: "add_entry pl it (l, n) = Some (l1, n1)"
    and 2: "foldM (add_entry pl) items (l1, n1) = Some (l', n')" by (auto simp: run_simps)
  have b: "base l1 = base l @ (case content_of pl it of None \<Rightarrow> [] | Some c \<Rightarrow> [c])"
  proof (cases "content_of pl it")
    case (Some c)
    then have "map_of (base l) (fst c) = None"
      using Cons.prems(2) by (simp add: map_filter_Cons map_of_eq_None_iff)
    then show ?thesis
      unfolding add_entry_base [OF 1] Some by (cases c) (simp add: takes_over_def update_fresh)
  qed (simp add: add_entry_base [OF 1])
  have "base l' = base l1 @ List.map_filter (content_of pl) items"
    using Cons.prems(2)
    by (intro Cons.IH [OF 2]) (cases "content_of pl it"; force simp: b map_filter_Cons)
  then show ?case by (simp add: b map_filter_Cons split: option.split)
qed (simp add: List.map_filter_simps)

lemma foldM_mutations:
  assumes "foldM (add_entry pl) items (l, n) = Some (l', n')"
    and "\<forall>it \<in> set items. it_seq it \<noteq> None"
    and "distinct (map fst (mutations l) @ map fst (List.map_filter mutation_of items))"
  shows "mutations l' = mutations l @ List.map_filter stored_mutation items"
  using assms
proof (induction items arbitrary: l n)
  case (Cons it items)
  from Cons.prems(1) obtain l1 n1 where 1: "add_entry pl it (l, n) = Some (l1, n1)"
    and 2: "foldM (add_entry pl) items (l1, n1) = Some (l', n')" by (auto simp: run_simps)
  have b: "mutations l1 = mutations l @ (case stored_mutation it of None \<Rightarrow> [] | Some c \<Rightarrow> [c])"
  proof (cases "mutation_of it")
    case (Some c)
    then have "map_of (mutations l) (fst c) = None"
      using Cons.prems(3) by (simp add: map_filter_Cons map_of_eq_None_iff)
    then show ?thesis
      using Cons.prems(2) unfolding add_entry_mutations [OF 1] stored_mutation_def Some
      by (cases c) (auto simp: update_fresh)
  qed (simp add: add_entry_mutations [OF 1] stored_mutation_def)
  have "mutations l' = mutations l1 @ List.map_filter stored_mutation items"
  proof (rule Cons.IH [OF 2])
    show "\<forall>it \<in> set items. it_seq it \<noteq> None" using Cons.prems(2) by simp
    show "distinct (map fst (mutations l1) @ map fst (List.map_filter mutation_of items))"
      using Cons.prems(3) by (cases "mutation_of it") (force simp: b map_filter_Cons stored_mutation_def)+
  qed
  then show ?case by (simp add: b map_filter_Cons split: option.split)
qed (simp add: List.map_filter_simps)

lemma fetched_log:
  assumes "addEntries createChannelLog items pl = Some (l, n)" and "relay_items pl items"
  shows "base l = List.map_filter (content_of pl) items \<and> mutations l = List.map_filter stored_mutation items"
proof -
  have run: "foldM (add_entry pl) items (createChannelLog, 0) = Some (l, n)" using assms(1) by (simp add: addEntries_def)
  from foldM_base [OF run] foldM_mutations [OF run] assms(2) show ?thesis
    by (auto simp: relay_items_def createChannelLog_def)
qed

section \<open>Replaying is insensitive to the order of the lines\<close>

definition same_lines :: "lines throws \<Rightarrow> lines throws \<Rightarrow> bool" where
  "same_lines a b = rel_option (\<lambda>x y. mset x = mset y \<and> distinct (map fst x)) a b"

lemma update_same_lines:
  assumes "mset a = mset b" and "distinct (map fst a)" and "map_of a i = Some m"
  shows "mset (AList.update i v a) = mset (AList.update i v b) \<and> distinct (map fst (AList.update i v a))"
  using mset_map_of_eq [OF assms(1,2)] assms by (simp add: mset_update distinct_update)

lemma apply_mutation_same_lines:
  assumes "mset a = mset b" and "distinct (map fst a)"
  shows "same_lines (apply_mutation e a) (apply_mutation e b)"
proof -
  note m = mset_map_of_eq(1) [OF assms, symmetric]
  have refl: "same_lines (Some a) (Some b)" using assms by (simp add: same_lines_def)
  have upd: "map_of a i = Some t \<Longrightarrow> same_lines (Some (AList.update i v a)) (Some (AList.update i v b))" for i t v
    using update_same_lines [OF assms] by (simp add: same_lines_def)
  have none: "same_lines None None" by (simp add: same_lines_def)
  have "same_lines (applyEdit e a) (applyEdit e b)"
    by (cases "target_id e"; cases "str_prop e ''text''")
      (auto simp: applyEdit_def m refl upd none split: option.split)
  moreover have "same_lines (applyDelete e a) (applyDelete e b)"
    by (cases "target_id e") (auto simp: applyDelete_def m refl upd none split: option.split)
  moreover have "same_lines (applyReaction e a) (applyReaction e b)"
  proof -
    let ?to = "coalesce (oprop e ''to'') (JObj [])"
    show ?thesis
    proof (cases "str_prop ?to ''sender''")
      case s: (Some s)
      show ?thesis
      proof (cases "num_prop ?to ''ts''")
        case n: (Some n)
        show ?thesis
        proof (cases "map_of a (messageId s n)")
          case t: (Some t)
          show ?thesis
          proof (cases "msg_deleted t \<or> str_prop e ''emo'' = None")
            case False
            then obtain emo where emo: "str_prop e ''emo'' = Some emo" and d: "\<not> msg_deleted t" by auto
            show ?thesis
              by (cases "react (oprop e ''op'' \<noteq> JStr ''del'') (oprop e ''sender'') (trim (take 8 emo)) (msg_reacts t)")
                (auto simp: applyReaction_def s n t m emo d refl upd [OF t] none Let_def)
          qed (auto simp: applyReaction_def s n t m refl none Let_def)
        qed (simp add: applyReaction_def s n m refl)
      qed (simp add: applyReaction_def s none)
    qed (simp add: applyReaction_def none)
  qed
  ultimately show ?thesis using refl by (simp add: apply_mutation_def)
qed

lemma foldM_same_lines:
  "mset a = mset b \<Longrightarrow> distinct (map fst a) \<Longrightarrow> same_lines (foldM apply_mutation es a) (foldM apply_mutation es b)"
proof (induction es arbitrary: a b)
  case (Cons e es)
  from apply_mutation_same_lines [OF Cons.prems, of e] show ?case
  proof (cases "apply_mutation e a"; cases "apply_mutation e b")
    fix a' b' assume ab: "apply_mutation e a = Some a'" "apply_mutation e b = Some b'"
    with apply_mutation_same_lines [OF Cons.prems, of e] have "mset a' = mset b'" "distinct (map fst a')"
      by (simp_all add: same_lines_def)
    from Cons.IH [OF this] ab show ?thesis by simp
  qed (simp_all add: same_lines_def)
qed (simp add: same_lines_def)

section \<open>Convergence\<close>

lemma map_filter_seqs:
  assumes "\<forall>it \<in> set items. it_seq it \<noteq> None" and "distinct (map it_seq items)"
  shows "inj_on mut_seq (snd ` set (List.map_filter stored_mutation items))"
proof (rule inj_onI)
  fix u v assume "u \<in> snd ` set (List.map_filter stored_mutation items)" "v \<in> snd ` set (List.map_filter stored_mutation items)"
    and eq: "mut_seq u = mut_seq v"
  then obtain a b i j where ab: "a \<in> set items" "b \<in> set items" "stored_mutation a = Some (i, u)" "stored_mutation b = Some (j, v)"
    by (force simp: List.map_filter_def)
  then have "the (it_seq a) = mut_seq u" "the (it_seq b) = mut_seq v" by (auto simp: stored_mutation_def)
  with eq ab assms(1) have "it_seq a = it_seq b" by (metis option.expand)
  with ab(1,2) assms(2) have "a = b" unfolding distinct_map by (metis inj_onD)
  with ab show "u = v" by simp
qed

lemma add_entry_total: "add_entry pl it s = None \<longleftrightarrow> add_entry pl it t = None"
proof -
  have c: "add_content pl it a = None \<longleftrightarrow> entryToMessage (it_entry it) pl (it_auth it) (it_seq it) = None" for a
    by (cases a; cases "entryToMessage (it_entry it) pl (it_auth it) (it_seq it)")
      (auto simp: add_content_def Let_def split: option.splits)
  have m: "add_mutation it a = None \<longleftrightarrow> it_auth it = Signed \<and> mutationId (it_entry it) = None" for a
    by (cases a; cases "mutationId (it_entry it)") (auto simp: add_mutation_def split: option.splits)
  show ?thesis by (simp add: add_entry_def Let_def c m)
qed

lemma foldM_total:
  assumes "\<And>x s t. f x s = None \<longleftrightarrow> f x t = None"
  shows "foldM f xs s = None \<longleftrightarrow> (\<exists>x \<in> set xs. f x s0 = None)"
proof (induction xs arbitrary: s)
  case (Cons x xs)
  show ?case
  proof (cases "f x s")
    case None
    then show ?thesis using assms [of x s s0] by auto
  next
    case (Some s')
    then have "f x s0 \<noteq> None" using assms [of x s s0] by auto
    then show ?thesis using Cons.IH [of s'] Some by auto
  qed
qed simp


definition example_line_item :: item where
  "example_line_item = example_item 1 (example_entry ''chat'' ''ann'' 5 [(''text'', JStr ''helo'')]) Signed"

definition example_edit_item :: item where
  "example_edit_item = example_item 2
     (example_entry ''edit'' ''ann'' 6 [(''to'', JObj [(''ts'', JNum (Fin 5))]), (''text'', JStr ''hello'')]) Signed"


section \<open>Where the order does matter, and where a reader stops\<close>

text \<open>
  Two lines by one author with the same timestamp have one identity, and the first to arrive is kept: the
  hypothesis that the events are distinct cannot be dropped. And a reaction whose emoji is the name of a
  method every object inherits makes the rendering throw.
\<close>

lemma same_timestamp_first_wins:
  "\<exists>l l' n n' m m'.
     addEntries createChannelLog
       [example_item 1 (example_entry ''chat'' ''ann'' 5 [(''text'', JStr ''one'')]) Signed,
        example_item 2 (example_entry ''chat'' ''ann'' 5 [(''text'', JStr ''two'')]) Signed] example_place = Some (l, n) \<and>
     addEntries createChannelLog
       [example_item 2 (example_entry ''chat'' ''ann'' 5 [(''text'', JStr ''two'')]) Signed,
        example_item 1 (example_entry ''chat'' ''ann'' 5 [(''text'', JStr ''one'')]) Signed] example_place = Some (l', n') \<and>
     renderLog l = Some [m] \<and> renderLog l' = Some [m'] \<and> msg_body m \<noteq> msg_body m'"
  by (simp add: log_eval renderLog_def replay_def)

lemma inherited_emoji_stops_the_reader:
  "\<exists>l n. addEntries createChannelLog
       [example_item 1 (example_entry ''chat'' ''ann'' 5 [(''text'', JStr ''hi'')]) Signed,
        example_item 2 (example_entry ''react'' ''bob'' 6
          [(''to'', JObj [(''sender'', JStr ''ann''), (''ts'', JNum (Fin 5))]), (''emo'', JStr ''valueOf'')]) Signed]
       example_place = Some (l, n) \<and> renderLog l = None"
  by (simp add: log_eval renderLog_def replay_eval react_def dget_def proto_names_def trim_def is_space_def)

end
