(* ===== verification/Base64.thy ===== *)
theory Base64
  imports JS_Prelude
begin

text \<open>
  The byte transport of \<open>client/src/lib/relay.js\<close> (\<open>b64\<close>) and its URL-safe variant in
  \<open>client/src/lib/invite.js\<close> (\<open>b64url\<close>). A \<open>Uint8Array\<close> is a list of characters, a character being one
  byte, so \<open>String.fromCharCode\<close> and \<open>charCodeAt\<close> are the identity. \<open>btoa\<close> and \<open>atob\<close> are the
  platform's: RFC 4648 encoding, and the forgiving decoder, which throws on a malformed string.
\<close>

type_synonym bytes = "char list"

section \<open>The platform's encoder and decoder\<close>

definition b64_chars :: string where
  "b64_chars = ''ABCDEFGHIJKLMNOPQRSTUVWXYZabcdefghijklmnopqrstuvwxyz0123456789+/''"

definition sextet_char :: "nat \<Rightarrow> char" where
  "sextet_char n = b64_chars ! n"

definition char_sextet :: "char \<Rightarrow> nat throws" where
  "char_sextet c = index_from 0 b64_chars c"

abbreviation code :: "char \<Rightarrow> nat" where
  "code c \<equiv> of_char c"

fun btoa :: "string \<Rightarrow> string" where
  "btoa [] = []"
| "btoa [a] = [sextet_char (code a div 4), sextet_char (code a mod 4 * 16), CHR ''='', CHR ''='']"
| "btoa [a, b] = [sextet_char (code a div 4), sextet_char (code a mod 4 * 16 + code b div 16),
     sextet_char (code b mod 16 * 4), CHR ''='']"
| "btoa (a # b # c # rest) =
     [sextet_char (code a div 4), sextet_char (code a mod 4 * 16 + code b div 16),
      sextet_char (code b mod 16 * 4 + code c div 64), sextet_char (code c mod 64)] @ btoa rest"

fun sextets_bytes :: "nat list \<Rightarrow> bytes throws" where
  "sextets_bytes [] = Some []"
| "sextets_bytes [w] = None"
| "sextets_bytes [w, x] = Some [char_of (w * 4 + x div 16)]"
| "sextets_bytes [w, x, y] = Some [char_of (w * 4 + x div 16), char_of (x mod 16 * 16 + y div 4)]"
| "sextets_bytes (w # x # y # z # rest) =
     do { bs \<leftarrow> sextets_bytes rest;
          Some (char_of (w * 4 + x div 16) # char_of (x mod 16 * 16 + y div 4) # char_of (y mod 4 * 64 + z) # bs) }"

definition strip_pad :: "string \<Rightarrow> string" where
  \<comment> \<open>one or two trailing \<open>=\<close> of a string whose length is a multiple of 4\<close>
  "strip_pad s =
     (if length s mod 4 \<noteq> 0 then s
      else if drop (length s - 2) s = ''=='' then take (length s - 2) s
      else if drop (length s - 1) s = ''='' then take (length s - 1) s else s)"

definition ascii_space :: "char \<Rightarrow> bool" where
  "ascii_space c \<longleftrightarrow> c \<in> {CHR 0x09, CHR 0x0A, CHR 0x0C, CHR 0x0D, CHR '' ''}"

definition atob :: "string \<Rightarrow> string throws" where
  "atob s =
     do { ds \<leftarrow> mapM char_sextet (strip_pad (filter (\<lambda>c. \<not> ascii_space c) s)); sextets_bytes ds }"

section \<open>The client's functions\<close>

function chunked :: "nat \<Rightarrow> bytes \<Rightarrow> string" where
  \<comment> \<open>the loop of \<open>enc\<close>: chunks of \<open>k\<close> bytes appended to a string\<close>
  "chunked k u8 = (if u8 = [] \<or> k = 0 then [] else take k u8 @ chunked k (drop k u8))"
  by pat_completeness auto

termination
  by (relation "measure (\<lambda>(k, u). length u)") auto

declare chunked.simps [simp del]

definition b64_enc :: "bytes \<Rightarrow> string" where
  "b64_enc bs = btoa (chunked 0x8000 bs)"

definition b64_dec :: "string \<Rightarrow> bytes throws" where
  "b64_dec s = atob s"

section \<open>Round trip\<close>

lemma chunked_id: "0 < k \<Longrightarrow> chunked k u = u"
proof (induction k u rule: chunked.induct)
  case (1 k u)
  then show ?case by (subst chunked.simps) auto
qed

lemma length_b64_chars: "length b64_chars = 64" by (simp add: b64_chars_def)

lemma distinct_b64_chars: "distinct b64_chars" by (simp add: b64_chars_def)

lemma char_sextet_char [simp]: "n < 64 \<Longrightarrow> char_sextet (sextet_char n) = Some n"
  by (simp add: char_sextet_def sextet_char_def index_from_nth distinct_b64_chars length_b64_chars)

lemma sextet_char_in: "n < 64 \<Longrightarrow> sextet_char n \<in> set b64_chars"
  by (simp add: sextet_char_def length_b64_chars)

lemma b64_chars_plain: "c \<in> set b64_chars \<Longrightarrow> \<not> ascii_space c \<and> c \<noteq> CHR ''=''"
  by (auto simp: b64_chars_def ascii_space_def)

lemmas code_lt = nat_of_char_less_256

fun sextets_of :: "bytes \<Rightarrow> nat list" where
  "sextets_of [] = []"
| "sextets_of [a] = [code a div 4, code a mod 4 * 16]"
| "sextets_of [a, b] = [code a div 4, code a mod 4 * 16 + code b div 16, code b mod 16 * 4]"
| "sextets_of (a # b # c # rest) =
     [code a div 4, code a mod 4 * 16 + code b div 16, code b mod 16 * 4 + code c div 64, code c mod 64] @ sextets_of rest"

fun pad_of :: "bytes \<Rightarrow> string" where
  "pad_of [] = []"
| "pad_of [a] = ''==''"
| "pad_of [a, b] = ''=''"
| "pad_of (a # b # c # rest) = pad_of rest"

lemma btoa_parts: "btoa s = map sextet_char (sextets_of s) @ pad_of s"
  by (induction s rule: btoa.induct) simp_all

lemma code_div: "code a div 4 < 64" "code b div 16 < 16" "code c div 64 < 4"
  by (rule less_mult_imp_div_less, simp add: code_lt)+

lemma code_parts:
  "code a mod 4 * 16 + code b div 16 < 64" "code b mod 16 * 4 + code c div 64 < 64"
  "code a mod 4 * 16 < 64" "code b mod 16 * 4 < 64" "code c mod 64 < 64"
proof -
  have m: "code a mod 4 < 4" "code b mod 16 < 16" by simp_all
  show "code a mod 4 * 16 + code b div 16 < 64" using m code_div(2) [of b] by linarith
  show "code b mod 16 * 4 + code c div 64 < 64" using m code_div(3) [of c] by linarith
  show "code a mod 4 * 16 < 64" "code b mod 16 * 4 < 64" using m by linarith+
qed simp

lemma sextets_lt: "\<forall>n \<in> set (sextets_of s). n < 64"
  by (induction s rule: sextets_of.induct) (auto simp: code_div code_parts)

lemma pad_length: "(length (sextets_of s) + length (pad_of s)) mod 4 = 0"
  by (induction s rule: pad_of.induct) auto

lemma pad_cases: "pad_of s \<in> {[], ''='', ''==''}"
  by (induction s rule: pad_of.induct) auto

lemma sextets_bytes_of: "sextets_bytes (sextets_of s) = Some s"
  by (induction s rule: sextets_of.induct) (simp_all add: code_div)

lemma strip_pad_btoa: "strip_pad (btoa s) = map sextet_char (sextets_of s)"
proof -
  let ?m = "map sextet_char (sextets_of s)"
  have no: "CHR ''='' \<notin> set ?m"
    using sextets_lt sextet_char_in b64_chars_plain by fastforce
  have len: "length (?m @ pad_of s) mod 4 = 0" using pad_length [of s] by simp
  consider "pad_of s = []" | "pad_of s = ''=''" | "pad_of s = ''==''" using pad_cases [of s] by auto
  then show ?thesis
  proof cases
    case 1
    have "drop k ?m \<noteq> x" if "CHR ''='' \<in> set x" for k x
      using no that by (metis in_set_dropD)
    with 1 len show ?thesis by (simp add: btoa_parts strip_pad_def)
  next
    case 2
    have "drop (length ?m - 1) (?m @ ''='') \<noteq> ''==''"
    proof
      assume d: "drop (length ?m - 1) (?m @ ''='') = ''==''"
      then have "drop (length ?m - 1) ?m = ''=''" by (cases "length ?m") auto
      then show False using no by (metis in_set_dropD list.set_intros(1))
    qed
    with 2 len show ?thesis by (simp add: btoa_parts strip_pad_def)
  next
    case 3
    with len show ?thesis by (simp add: btoa_parts strip_pad_def)
  qed
qed

lemma mapM_sextets: "\<forall>n \<in> set ns. n < 64 \<Longrightarrow> mapM char_sextet (map sextet_char ns) = Some ns"
  by (induction ns) simp_all

lemma btoa_no_space: "filter (\<lambda>c. \<not> ascii_space c) (btoa s) = btoa s"
proof -
  have "\<not> ascii_space c" if "c \<in> set (btoa s)" for c
  proof -
    from that have "c \<in> set (map sextet_char (sextets_of s)) \<or> c \<in> set (pad_of s)" by (simp add: btoa_parts)
    then show ?thesis
      using sextets_lt [of s] sextet_char_in b64_chars_plain pad_cases [of s] by (auto simp: ascii_space_def)
  qed
  then show ?thesis by (simp add: filter_id_conv)
qed

lemma atob_btoa: "atob (btoa s) = Some s"
  by (simp add: atob_def btoa_no_space strip_pad_btoa mapM_sextets sextets_lt sextets_bytes_of)

lemma b64_enc_dec: "b64_dec (b64_enc bs) = Some bs"
  by (simp add: b64_enc_def b64_dec_def chunked_id atob_btoa)

lemma b64_enc_inj: "b64_enc a = b64_enc b \<longleftrightarrow> a = b"
  by (metis b64_enc_dec option.inject)

section \<open>Text as bytes\<close>

text \<open>
  \<open>TextEncoder\<close> and \<open>TextDecoder\<close> on the characters of the model, which are one or two bytes of UTF-8. Bytes that
  encode a character above 255, or nothing at all, decode to text the model cannot write down: \<open>None\<close>.
\<close>

definition utf8_char :: "char \<Rightarrow> bytes" where
  "utf8_char c =
     (if code c < 128 then [c] else [char_of (192 + code c div 64), char_of (128 + code c mod 64)])"

definition utf8_enc :: "string \<Rightarrow> bytes" where
  "utf8_enc s = concat (map utf8_char s)"

fun utf8_dec :: "bytes \<Rightarrow> string throws" where
  "utf8_dec [] = Some []"
| "utf8_dec [a] = (if code a < 128 then Some [a] else None)"
| "utf8_dec (a # b # r) =
     (if code a < 128 then do { s \<leftarrow> utf8_dec (b # r); Some (a # s) }
      else if 194 \<le> code a \<and> code a \<le> 195 \<and> 128 \<le> code b \<and> code b < 192
      then do { s \<leftarrow> utf8_dec r; Some (char_of ((code a - 192) * 64 + (code b - 128)) # s) }
      else None)"

lemma utf8_dec_plain: "code a < 128 \<Longrightarrow> utf8_dec (a # r) = do { s \<leftarrow> utf8_dec r; Some (a # s) }"
  by (cases r) simp_all

lemma utf8_dec_char: "utf8_dec (utf8_char c @ r) = do { s \<leftarrow> utf8_dec r; Some (c # s) }"
proof (cases "code c < 128")
  case True
  then show ?thesis by (simp add: utf8_char_def utf8_dec_plain)
next
  case False
  have "code c < 256" by (rule code_lt)
  then have d: "2 \<le> code c div 64" "code c div 64 \<le> 3" using False by linarith+
  have m: "code c mod 64 < 64" by simp
  have "code (char_of (192 + code c div 64)) = 192 + code c div 64" using d by simp
  moreover have "code (char_of (128 + code c mod 64)) = 128 + code c mod 64" using m by simp
  moreover have "code c div 64 * 64 + code c mod 64 = code c" by simp
  ultimately show ?thesis using False d m by (simp add: utf8_char_def)
qed

lemma utf8_enc_dec: "utf8_dec (utf8_enc s) = Some s"
  by (induction s) (simp_all add: utf8_enc_def utf8_dec_char)

lemma utf8_enc_inj: "utf8_enc a = utf8_enc b \<longleftrightarrow> a = b"
  by (metis option.inject utf8_enc_dec)

end
