(* ===== verification/Trust.thy ===== *)
theory Trust
  imports Circle Base64 Envelope
begin

text \<open>
  Who speaks for a handle and whether this user checked it: the per-circle key directory
  (\<open>client/src/lib/keys.js\<close>), the verified and mismatched safety numbers (\<open>client/src/lib/trust.js\<close>) and who is
  here now (\<open>client/src/lib/presence.js\<close>). These dictionaries are plain objects, so a handle that is the name
  of an inherited method is found in all of them.
\<close>

section \<open>The key directory\<close>

definition slot_set :: "string slot \<Rightarrow> bool" where
  \<comment> \<open>truthiness of \<open>d[k]\<close>\<close>
  "slot_set s = (case s of Own v \<Rightarrow> v \<noteq> [] | Proto \<Rightarrow> True | Absent \<Rightarrow> False)"

fun merge_roster :: "(string \<times> bytes) list \<Rightarrow> string dict \<times> string list \<times> bool \<Rightarrow> string dict \<times> string list \<times> bool" where
  "merge_roster [] s = s"
| "merge_roster ((handle, raw) # rest) (ks, conflicts, changed) =
     (if handle = [] \<or> raw = [] then merge_roster rest (ks, conflicts, changed)
      else let encoded = b64_enc raw
           in if dget ks handle = Own encoded then merge_roster rest (ks, conflicts, changed)
              else merge_roster rest (dput ks handle encoded,
                     (if slot_set (dget ks handle) then conflicts @ [handle] else conflicts), True))"

definition mergeKeyDirectory :: "circle \<Rightarrow> bytes dict option \<Rightarrow> circle \<times> bool \<times> string list" where
  "mergeKeyDirectory r roster =
     (let (ks, conflicts, changed) = merge_roster (entries (dict_or_empty roster)) (dict_or_empty (keys r), [], False)
      in (if changed then r\<lparr>keys := Some ks\<rparr> else r, changed, conflicts))"

definition keyDirectory :: "circle option \<Rightarrow> string dict" where
  "keyDirectory r = (case r of None \<Rightarrow> [] | Some c \<Rightarrow> dict_or_empty (keys c))"

section \<open>Safety numbers\<close>

definition keys_of_dict :: "'v dict \<Rightarrow> string list" where
  \<comment> \<open>\<open>Object.keys\<close>\<close>
  "keys_of_dict d = map fst (entries d)"

definition at_slot :: "string dict option \<Rightarrow> string \<Rightarrow> string slot" where
  \<comment> \<open>\<open>d?.[peer]\<close>\<close>
  "at_slot d peer = (case d of None \<Rightarrow> Absent | Some m \<Rightarrow> dget m peer)"

definition applyVerified :: "circle \<Rightarrow> string \<Rightarrow> string \<Rightarrow> circle" where
  "applyVerified r peer sn =
     (let vs = AList.update peer sn (dict_or_empty (verifiedSn r));
          r1 = r\<lparr>verifiedSn := Some vs, verified := Some (keys_of_dict vs)\<rparr>
      in if slot_set (at_slot (mismatched r1) peer)
         then r1\<lparr>mismatched := Some (ddel (dict_or_empty (mismatched r1)) peer)\<rparr> else r1)"

definition applyMismatch :: "circle \<Rightarrow> string \<Rightarrow> string \<Rightarrow> circle" where
  "applyMismatch r peer sn =
     (let r1 = r\<lparr>mismatched := Some (AList.update peer sn (dict_or_empty (mismatched r)))\<rparr>
      in if slot_set (at_slot (verifiedSn r1) peer)
         then let rest = ddel (dict_or_empty (verifiedSn r1)) peer
              in r1\<lparr>verifiedSn := Some rest, verified := Some (keys_of_dict rest)\<rparr>
         else r1)"

definition retireMismatch :: "circle \<Rightarrow> string \<Rightarrow> string \<Rightarrow> circle \<times> bool" where
  "retireMismatch r peer currentSn =
     (if \<not> slot_set (at_slot (mismatched r) peer) then (r, False)
      else if at_slot (mismatched r) peer = Own currentSn then (r, False)
      else (r\<lparr>mismatched := map_option (\<lambda>d. ddel d peer) (mismatched r)\<rparr>, True))"

section \<open>Who is here\<close>

record presence =
  inRoom :: "jsval dict"
  playing :: "(game_ref \<times> rat) dict"
  live :: "string list"

definition in_obj :: "string \<Rightarrow> 'v dict \<Rightarrow> bool" where
  \<comment> \<open>\<open>k in d\<close>: inherited names count\<close>
  "in_obj k d \<longleftrightarrow> dget d k \<noteq> Absent"

definition enter_room :: "jsval \<Rightarrow> string list \<Rightarrow> jsval dict \<Rightarrow> jsval dict" where
  "enter_room room ps d = fold (\<lambda>p acc. if in_obj p acc then acc else dput acc p room) ps d"

fun fill_rooms :: "string \<Rightarrow> string list dict \<Rightarrow> jsval list \<Rightarrow> jsval dict \<Rightarrow> jsval dict throws" where
  "fill_rooms sid pres [] d = Some d"
| "fill_rooms sid pres (room # rooms) d =
     do { name \<leftarrow> to_str room;
          fill_rooms sid pres rooms
            (enter_room room (case map_of pres (sid @ ''/'' @ name) of Some ps \<Rightarrow> ps | None \<Rightarrow> []) d) }"

definition add_playing :: "rat \<Rightarrow> string \<times> claim \<Rightarrow> (game_ref \<times> rat) dict \<Rightarrow> (game_ref \<times> rat) dict" where
  "add_playing now e d =
     (case freshPresence (Some (snd e)) now of
        Some g \<Rightarrow> dput d (fst e) (g, claim_ts (snd e)) | None \<Rightarrow> d)"

definition circlePresence :: "circle \<Rightarrow> claim dict option \<Rightarrow> string list dict \<Rightarrow> rat \<Rightarrow> presence throws" where
  \<comment> \<open>\<open>claims\<close> is \<open>server.presence\<close>, \<open>pres\<close> is \<open>voice.presence\<close>, keyed by circle and room\<close>
  "circlePresence r claims pres now =
     do { rooms \<leftarrow> fill_rooms (c_id r) pres (voice_rooms r) [];
          let play = fold (add_playing now) (entries (dict_or_empty claims)) [];
          Some \<lparr>inRoom = rooms, playing = play,
            live = filter (\<lambda>m. in_obj m rooms \<or> in_obj m play) (members r)\<rparr> }"

section \<open>Two states, never both\<close>

definition holds :: "string dict option \<Rightarrow> string \<Rightarrow> string option" where
  "holds d peer = map_of (dict_or_empty d) peer"

definition trust_ok :: "circle \<Rightarrow> bool" where
  \<comment> \<open>no peer is both verified and mismatched, the list of verified peers is the recorded comparisons, and a
      recorded safety number is not empty\<close>
  "trust_ok r \<longleftrightarrow>
     (\<forall>peer. holds (verifiedSn r) peer = None \<or> holds (mismatched r) peer = None) \<and>
     (\<forall>peer sn. holds (verifiedSn r) peer = Some sn \<or> holds (mismatched r) peer = Some sn \<longrightarrow> sn \<noteq> []) \<and>
     (\<forall>peer. peer \<in> set (list_or_empty (verified r)) \<longleftrightarrow> holds (verifiedSn r) peer \<noteq> None)"

lemma dict_or_empty_simps [simp]: "dict_or_empty None = []" "dict_or_empty (Some d) = d"
  by (simp_all add: dict_or_empty_def)

lemma set_keys_of_dict: "x \<in> set (keys_of_dict d) \<longleftrightarrow> map_of d x \<noteq> None"
  by (simp add: keys_of_dict_def map_of_eq_None_iff)

lemma holds_updates:
  "holds (Some (AList.update p s (dict_or_empty d))) = (holds d)(p \<mapsto> s)"
  "holds (Some (ddel (dict_or_empty d) p)) = (holds d)(p := None)"
  by (simp_all add: holds_def update_conv' map_of_ddel fun_eq_iff)

lemma slot_set_holds: "holds d peer = Some sn \<Longrightarrow> sn \<noteq> [] \<Longrightarrow> slot_set (at_slot d peer)"
  by (cases d) (auto simp: holds_def at_slot_def slot_set_def dget_def)

lemma applyVerified_holds:
  assumes "trust_ok r"
  shows "holds (verifiedSn (applyVerified r peer sn)) = (holds (verifiedSn r))(peer \<mapsto> sn)"
    and "holds (mismatched (applyVerified r peer sn)) = (holds (mismatched r))(peer := None)"
    and "x \<in> set (list_or_empty (verified (applyVerified r peer sn))) \<longleftrightarrow> holds (verifiedSn (applyVerified r peer sn)) x \<noteq> None"
proof -
  show "holds (verifiedSn (applyVerified r peer sn)) = (holds (verifiedSn r))(peer \<mapsto> sn)"
    by (simp add: applyVerified_def Let_def holds_updates)
  have "(holds (mismatched r))(peer := None) = holds (mismatched r)" if "\<not> slot_set (at_slot (mismatched r) peer)"
    using that assms slot_set_holds [of "mismatched r" peer] by (cases "holds (mismatched r) peer") (auto simp: trust_ok_def fun_eq_iff)
  then show "holds (mismatched (applyVerified r peer sn)) = (holds (mismatched r))(peer := None)"
    by (auto simp: applyVerified_def Let_def holds_updates)
  show "x \<in> set (list_or_empty (verified (applyVerified r peer sn))) \<longleftrightarrow> holds (verifiedSn (applyVerified r peer sn)) x \<noteq> None"
    by (simp add: applyVerified_def Let_def set_keys_of_dict holds_def)
qed

lemma applyMismatch_holds:
  assumes "trust_ok r"
  shows "holds (mismatched (applyMismatch r peer sn)) = (holds (mismatched r))(peer \<mapsto> sn)"
    and "holds (verifiedSn (applyMismatch r peer sn)) = (holds (verifiedSn r))(peer := None)"
    and "x \<in> set (list_or_empty (verified (applyMismatch r peer sn))) \<longleftrightarrow> holds (verifiedSn (applyMismatch r peer sn)) x \<noteq> None"
proof -
  show "holds (mismatched (applyMismatch r peer sn)) = (holds (mismatched r))(peer \<mapsto> sn)"
    by (simp add: applyMismatch_def Let_def holds_updates)
  have off: "(holds (verifiedSn r))(peer := None) = holds (verifiedSn r)" if "\<not> slot_set (at_slot (verifiedSn r) peer)"
    using that assms slot_set_holds [of "verifiedSn r" peer] by (cases "holds (verifiedSn r) peer") (auto simp: trust_ok_def fun_eq_iff)
  then show "holds (verifiedSn (applyMismatch r peer sn)) = (holds (verifiedSn r))(peer := None)"
    by (auto simp: applyMismatch_def Let_def holds_updates)
  show "x \<in> set (list_or_empty (verified (applyMismatch r peer sn))) \<longleftrightarrow> holds (verifiedSn (applyMismatch r peer sn)) x \<noteq> None"
    using assms by (simp add: applyMismatch_def Let_def set_keys_of_dict holds_def trust_ok_def)
qed

lemma retireMismatch_holds:
  "holds (mismatched (fst (retireMismatch r peer sn))) x \<in> {None, holds (mismatched r) x}"
  "verifiedSn (fst (retireMismatch r peer sn)) = verifiedSn r" "verified (fst (retireMismatch r peer sn)) = verified r"
  by (cases "mismatched r"; auto simp: retireMismatch_def holds_def map_of_ddel)+

text \<open>
  A peer is never shown as verified and as a mismatch. Recording a comparison that matched, recording
  one that did not, and retiring a warning whose key is gone all keep the two records disjoint and the
  list of verified peers in step with them; after a mismatch the peer is not verified, whatever was
  recorded before, and retiring a warning never verifies anyone.
\<close>

theorem trust_states_exclusive:
  assumes "trust_ok r" and "sn \<noteq> []"
  shows "trust_ok (applyVerified r peer sn) \<and> trust_ok (applyMismatch r peer sn) \<and>
    trust_ok (fst (retireMismatch r peer sn)) \<and>
    peer \<notin> set (list_or_empty (verified (applyMismatch r peer sn))) \<and>
    verified (fst (retireMismatch r peer sn)) = verified r"
proof -
  note v = applyVerified_holds [OF assms(1), where peer = peer and sn = sn]
    and m = applyMismatch_holds [OF assms(1), where peer = peer and sn = sn]
  have "trust_ok (applyVerified r peer sn)" using assms v by (auto simp: trust_ok_def)
  moreover have "trust_ok (applyMismatch r peer sn)" using assms m by (auto simp: trust_ok_def)
  moreover have "trust_ok (fst (retireMismatch r peer sn))"
    using assms(1) retireMismatch_holds [of r peer sn] unfolding trust_ok_def by (metis insert_iff option.distinct(1) singletonD)
  ultimately show ?thesis using m retireMismatch_holds(3) by simp
qed

theorem trust_states_exclusive_witness:
  "trust_ok (empty_circle ''c'') \<and>
   ''bob'' \<in> set (list_or_empty (verified (applyVerified (empty_circle ''c'') ''bob'' ''12345''))) \<and>
   ''bob'' \<notin> set (list_or_empty (verified (applyMismatch (applyVerified (empty_circle ''c'') ''bob'' ''12345'') ''bob'' ''999'')))"
proof -
  have ok: "trust_ok (empty_circle ''c'')" by (simp add: trust_ok_def empty_circle_def holds_def)
  have "trust_ok (applyVerified (empty_circle ''c'') ''bob'' ''12345'')"
    using trust_states_exclusive [OF ok, of "''12345''" "''bob''"] by simp
  from trust_states_exclusive [OF this, of "''999''" "''bob''"] ok show ?thesis
    by (simp add: applyVerified_def Let_def set_keys_of_dict empty_circle_def)
qed

section \<open>The roster decides\<close>

definition usable :: "(string \<times> bytes) list \<Rightarrow> string \<Rightarrow> bytes option" where
  "usable roster h = (case map_of roster h of Some raw \<Rightarrow> if h = [] \<or> raw = [] then None else Some raw | None \<Rightarrow> None)"

lemma merge_roster_keys:
  assumes "merge_roster roster (ks, cs, ch) = (ks', cs', ch')" and "distinct (map fst roster)"
    and "''__proto__'' \<notin> fst ` set roster"
  shows "map_of ks' h = (case usable roster h of Some raw \<Rightarrow> Some (b64_enc raw) | None \<Rightarrow> map_of ks h)"
  using assms
proof (induction roster "(ks, cs, ch)" arbitrary: ks cs ch rule: merge_roster.induct)
  case (2 handle raw rest ks cs ch)
  have np: "handle \<noteq> ''__proto__''" using "2.prems"(3) by auto
  have fresh: "map_of rest handle = None" using "2.prems"(2) by (simp add: map_of_eq_None_iff)
  show ?case
  proof (cases "handle = [] \<or> raw = []")
    case True
    with 2(1) "2.prems" have "map_of ks' h = (case usable rest h of Some raw \<Rightarrow> Some (b64_enc raw) | None \<Rightarrow> map_of ks h)" by simp
    with True fresh show ?thesis by (auto simp: usable_def split: option.split)
  next
    case ok: False
    show ?thesis
    proof (cases "dget ks handle = Own (b64_enc raw)")
      case True
      with ok 2(2) "2.prems" have "map_of ks' h = (case usable rest h of Some raw \<Rightarrow> Some (b64_enc raw) | None \<Rightarrow> map_of ks h)" by simp
      with True ok fresh show ?thesis by (auto simp: usable_def dget_Own_iff split: option.split)
    next
      case False
      with ok 2(3) "2.prems" have "map_of ks' h = (case usable rest h of Some raw \<Rightarrow> Some (b64_enc raw)
          | None \<Rightarrow> map_of (dput ks handle (b64_enc raw)) h)" by (simp add: Let_def)
      with ok fresh np show ?thesis by (auto simp: usable_def map_of_dput split: option.split)
    qed
  qed
qed (simp add: usable_def)

lemma merge_roster_Cons:
  "merge_roster ((h, raw) # rest) (ks, cs, ch) =
     (if h = [] \<or> raw = [] \<or> dget ks h = Own (b64_enc raw) then merge_roster rest (ks, cs, ch)
      else merge_roster rest (dput ks h (b64_enc raw), (if slot_set (dget ks h) then cs @ [h] else cs), True))"
  by (simp add: Let_def)

lemma merge_roster_unchanged:
  "merge_roster xs (k, c, f) = (k', c', f') \<Longrightarrow> \<not> f' \<Longrightarrow> k' = k \<and> \<not> f"
proof (induction xs arbitrary: k c f)
  case (Cons x xs)
  obtain h raw where x: "x = (h, raw)" by (cases x)
  show ?case
  proof (cases "h = [] \<or> raw = [] \<or> dget k h = Own (b64_enc raw)")
    case True
    with Cons.prems Cons.IH [of k c f] show ?thesis unfolding x merge_roster_Cons by simp
  next
    case False
    with Cons.prems(1) have "merge_roster xs (dput k h (b64_enc raw), (if slot_set (dget k h) then c @ [h] else c), True) = (k', c', f')"
      by (simp only: x merge_roster_Cons if_False)
    from Cons.IH [OF this Cons.prems(2)] show ?thesis by simp
  qed
qed simp

definition conflicting :: "string dict \<Rightarrow> (string \<times> bytes) list \<Rightarrow> string \<Rightarrow> bool" where
  "conflicting ks roster h = (case usable roster h of None \<Rightarrow> False
     | Some raw \<Rightarrow> slot_set (dget ks h) \<and> dget ks h \<noteq> Own (b64_enc raw))"

lemma merge_roster_conflicts:
  assumes "merge_roster roster (ks, cs, ch) = (ks', cs', ch')" and "distinct (map fst roster)"
    and "''__proto__'' \<notin> fst ` set roster"
  shows "h \<in> set cs' \<longleftrightarrow> h \<in> set cs \<or> conflicting ks roster h"
  using assms
proof (induction roster arbitrary: ks cs ch)
  case (Cons x rest)
  obtain k raw where x: "x = (k, raw)" by (cases x)
  have np: "k \<noteq> ''__proto__''" using Cons.prems(3) x by auto
  have fresh: "map_of rest k = None" using Cons.prems(2) x by (simp add: map_of_eq_None_iff)
  then have here: "\<not> conflicting d rest k" for d by (simp add: conflicting_def usable_def)
  have there: "h \<noteq> k \<Longrightarrow> conflicting d (x # rest) h = conflicting d rest h" for d by (simp add: conflicting_def usable_def x)
  have put: "h \<noteq> k \<Longrightarrow> conflicting (dput ks k e) rest h = conflicting ks rest h" for e
    using np unfolding conflicting_def dget_def by (simp add: map_of_dput cong: option.case_cong)
  have IH: "merge_roster rest (a, b, c) = (ks', cs', ch') \<Longrightarrow> h \<in> set cs' \<longleftrightarrow> h \<in> set b \<or> conflicting a rest h" for a b c
    using Cons.IH [of a b c] Cons.prems(2,3) by simp
  show ?case
  proof (cases "k = [] \<or> raw = [] \<or> dget ks k = Own (b64_enc raw)")
    case True
    then have "\<not> conflicting ks (x # rest) k" by (auto simp: conflicting_def usable_def x)
    with True Cons.prems(1) IH [of ks cs ch] here there show ?thesis
      unfolding x merge_roster_Cons by (cases "h = k") auto
  next
    case False
    then have "conflicting ks (x # rest) k \<longleftrightarrow> slot_set (dget ks k)" by (simp add: conflicting_def usable_def x)
    with False Cons.prems(1) IH here there put show ?thesis
      unfolding x merge_roster_Cons by (cases "h = k") (auto split: if_splits)
  qed
qed (simp add: conflicting_def usable_def)

text \<open>
  The ratchet tree decides whose key speaks. After folding a roster into the directory, every handle
  the roster gives a key holds exactly that key, every other handle keeps the one it had, and a handle is
  reported as a conflict exactly when the directory already had a different key for it, so a substituted
  key is never absorbed silently.
\<close>

theorem roster_decides_keys:
  assumes "mergeKeyDirectory r (Some roster) = (r', changed, conflicts)" and "distinct (map fst roster)"
    and "''__proto__'' \<notin> fst ` set roster"
  shows "map_of (keyDirectory (Some r')) h =
      (case usable roster h of Some raw \<Rightarrow> Some (b64_enc raw) | None \<Rightarrow> map_of (keyDirectory (Some r)) h) \<and>
    (h \<notin> set proto_names \<longrightarrow>
      (h \<in> set conflicts \<longleftrightarrow> (\<exists>raw old. usable roster h = Some raw \<and> map_of (keyDirectory (Some r)) h = Some old \<and>
         old \<noteq> [] \<and> old \<noteq> b64_enc raw)))"
proof -
  obtain ks cs ch where run: "merge_roster (entries roster) (dict_or_empty (keys r), [], False) = (ks, cs, ch)"
    by (metis prod_cases3)
  have ents: "distinct (map fst (entries roster))" "''__proto__'' \<notin> fst ` set (entries roster)"
    "usable (entries roster) h = usable roster h" for h
    using assms(2,3) mset_map_of_eq [OF mset_entries [of roster, symmetric] assms(2)] by (auto simp: usable_def)
  have r': "r' = (if ch then r\<lparr>keys := Some ks\<rparr> else r)" "conflicts = cs"
    using assms(1) by (auto simp: mergeKeyDirectory_def run Let_def)
  note keys' = merge_roster_keys [OF run ents(1,2)] and conf = merge_roster_conflicts [OF run ents(1,2)]
  have same: "\<not> ch \<Longrightarrow> ks = dict_or_empty (keys r)" using merge_roster_unchanged [OF run] by simp
  have "keyDirectory (Some r') = ks" using same by (cases ch) (simp_all add: r' keyDirectory_def)
  moreover have "slot_set (dget d h) \<longleftrightarrow> (\<exists>old. map_of d h = Some old \<and> old \<noteq> [])" if "h \<notin> set proto_names" for d :: "string dict"
    using that by (auto simp: slot_set_def dget_def split: option.splits)
  note slots = this
  have "map_of (keyDirectory (Some r')) h = (case usable roster h of Some raw \<Rightarrow> Some (b64_enc raw) | None \<Rightarrow> map_of (keyDirectory (Some r)) h)"
    using keys' [of h] \<open>keyDirectory (Some r') = ks\<close> by (simp add: ents(3) keyDirectory_def [of "Some r"] split: option.split)
  moreover have "h \<in> set conflicts \<longleftrightarrow> (\<exists>raw old. usable roster h = Some raw \<and> map_of (keyDirectory (Some r)) h = Some old \<and>
         old \<noteq> [] \<and> old \<noteq> b64_enc raw)" if "h \<notin> set proto_names"
  proof -
    have "h \<in> set conflicts \<longleftrightarrow> (\<exists>raw. usable roster h = Some raw \<and> slot_set (dget (dict_or_empty (keys r)) h) \<and>
        dget (dict_or_empty (keys r)) h \<noteq> Own (b64_enc raw))"
      unfolding r' conf conflicting_def ents(3) by (auto split: option.split)
    then show ?thesis unfolding slots [OF that] dget_Own_iff by (auto simp: keyDirectory_def)
  qed
  ultimately show ?thesis by blast
qed

theorem roster_decides_keys_witness:
  "\<exists>r' conflicts. mergeKeyDirectory ((empty_circle ''c'')\<lparr>keys := Some [(''bob'', ''old'')]\<rparr>) (Some [(''bob'', ''k'')]) = (r', True, conflicts) \<and>
     map_of (keyDirectory (Some r')) ''bob'' = Some (b64_enc ''k'') \<and> ''bob'' \<in> set conflicts"
proof -
  let ?r = "(empty_circle ''c'')\<lparr>keys := Some [(''bob'', ''old'')]\<rparr>"
  have e: "b64_enc ''k'' = ''aw==''" by (simp add: b64_enc_def chunked_id sextet_char_def b64_chars_def)
  obtain r' cs where run: "mergeKeyDirectory ?r (Some [(''bob'', ''k'')]) = (r', True, cs)"
    by (simp add: mergeKeyDirectory_def entries_def is_index_def dget_def e is_digit_def digit_chars_def)
  have u: "usable [(''bob'', ''k'')] ''bob'' = Some ''k''" by (simp add: usable_def)
  have k: "keyDirectory (Some ?r) = [(''bob'', ''old'')]" by (simp add: keyDirectory_def)
  have "map_of (keyDirectory (Some r')) ''bob'' = Some (b64_enc ''k'') \<and> ''bob'' \<in> set cs"
    using roster_decides_keys [OF run, of "''bob''"] by (simp add: u k proto_names_def) (simp add: e)
  with run show ?thesis by blast
qed

section \<open>Presence\<close>

lemma in_obj_dput: "k \<notin> set proto_names \<Longrightarrow> in_obj k (dput d p v) \<longleftrightarrow> k = p \<or> in_obj k d"
proof -
  assume k: "k \<notin> set proto_names"
  then have "k \<noteq> ''__proto__''" by (auto simp: proto_names_def)
  with k show ?thesis by (auto simp: in_obj_def dget_def dput_def update_conv' split: option.splits if_splits)
qed

lemma in_obj_Nil: "k \<notin> set proto_names \<Longrightarrow> \<not> in_obj k []"
  by (simp add: in_obj_def dget_def)

lemma in_obj_enter: "k \<notin> set proto_names \<Longrightarrow> in_obj k (enter_room room ps d) \<longleftrightarrow> k \<in> set ps \<or> in_obj k d"
  unfolding enter_room_def
proof (induction ps arbitrary: d)
  case (Cons p ps)
  have "in_obj k (if in_obj p d then d else dput d p room) \<longleftrightarrow> k = p \<or> in_obj k d"
    using Cons.prems by (auto simp: in_obj_dput)
  with Cons.IH [OF Cons.prems] show ?case by auto
qed simp

definition room_has :: "string \<Rightarrow> string list dict \<Rightarrow> jsval \<Rightarrow> string \<Rightarrow> bool" where
  "room_has sid pres room p \<longleftrightarrow> (\<exists>name ps. to_str room = Some name \<and> map_of pres (sid @ ''/'' @ name) = Some ps \<and> p \<in> set ps)"

lemma fill_rooms_in:
  assumes "fill_rooms sid pres rooms d = Some d'" and "k \<notin> set proto_names"
  shows "in_obj k d' \<longleftrightarrow> in_obj k d \<or> (\<exists>room \<in> set rooms. room_has sid pres room k)"
  using assms(1)
proof (induction rooms arbitrary: d)
  case (Cons room rooms)
  from Cons.prems obtain name where name: "to_str room = Some name"
    and rest: "fill_rooms sid pres rooms (enter_room room (case map_of pres (sid @ ''/'' @ name) of Some ps \<Rightarrow> ps | None \<Rightarrow> []) d) = Some d'"
    by (auto simp: run_simps)
  have "k \<in> set (case map_of pres (sid @ ''/'' @ name) of Some ps \<Rightarrow> ps | None \<Rightarrow> []) \<longleftrightarrow> room_has sid pres room k"
    by (cases "map_of pres (sid @ ''/'' @ name)") (auto simp: room_has_def name)
  with Cons.IH [OF rest] show ?case by (auto simp: in_obj_enter [OF assms(2)])
qed simp

lemma fold_playing_in:
  assumes "k \<notin> set proto_names"
  shows "in_obj k (fold (add_playing now) es d) \<longleftrightarrow> in_obj k d \<or> (\<exists>c. (k, c) \<in> set es \<and> freshPresence (Some c) now \<noteq> None)"
proof (induction es arbitrary: d)
  case (Cons e es)
  obtain h c where e: "e = (h, c)" by (cases e)
  have "in_obj k (add_playing now e d) \<longleftrightarrow> in_obj k d \<or> (k = h \<and> freshPresence (Some c) now \<noteq> None)"
    by (auto simp: add_playing_def e in_obj_dput [OF assms] split: option.split)
  with Cons.IH show ?case by (auto simp: e)
qed simp

text \<open>
  A member counts as here exactly when this device knows it. For a handle that is not the name of an
  inherited method, a member is listed live iff some room of the circle's own list shows them in a call
  or their claim to be in a game is still fresh; only members are listed, in roster order.
\<close>

theorem live_iff_known:
  assumes "circlePresence r claims pres now = Some p" and "m \<notin> set proto_names" and "distinct (map fst (dict_or_empty claims))"
  shows "m \<in> set (live p) \<longleftrightarrow> m \<in> set (members r) \<and>
    ((\<exists>room \<in> set (voice_rooms r). room_has (c_id r) pres room m) \<or>
     (\<exists>c. map_of (dict_or_empty claims) m = Some c \<and> freshPresence (Some c) now \<noteq> None))"
proof -
  from assms(1) obtain rooms where rooms: "fill_rooms (c_id r) pres (voice_rooms r) [] = Some rooms"
    and p: "live p = filter (\<lambda>m. in_obj m rooms \<or> in_obj m (fold (add_playing now) (entries (dict_or_empty claims)) [])) (members r)"
    by (auto simp: circlePresence_def run_simps)
  have "(m, c) \<in> set (entries (dict_or_empty claims)) \<longleftrightarrow> map_of (dict_or_empty claims) m = Some c" for c
    using assms(3) by (auto simp: map_of_eq_Some_iff)
  then show ?thesis
    unfolding p using fill_rooms_in [OF rooms assms(2)] fold_playing_in [OF assms(2)] by (auto simp: in_obj_Nil [OF assms(2)])
qed

theorem live_iff_known_witness:
  "\<exists>p. circlePresence ((empty_circle ''c'')\<lparr>members := [''ann'', ''bob'']\<rparr>) None [(''c/lounge'', [''bob'', ''eve''])] 5 = Some p \<and>
     (''bob'' \<in> set (live p)) \<and> (''eve'' \<notin> set (live p))"
proof -
  let ?r = "(empty_circle ''c'')\<lparr>members := [''ann'', ''bob'']\<rparr>"
  let ?v = "[(''c/lounge'', [''bob'', ''eve''])]"
  obtain p where p: "circlePresence ?r None ?v 5 = Some p"
    by (simp add: circlePresence_def voice_rooms_def empty_circle_def Let_def)
  have "room_has (c_id ?r) ?v (JStr ''lounge'') ''bob''"
    by (simp add: room_has_def empty_circle_def)
  moreover have "JStr ''lounge'' \<in> set (voice_rooms ?r)" by (simp add: voice_rooms_def empty_circle_def)
  ultimately have "''bob'' \<in> set (live p)"
    using live_iff_known [OF p, of "''bob''"] by (auto simp: proto_names_def)
  moreover have "''eve'' \<notin> set (live p)" using live_iff_known [OF p, of "''eve''"] by (simp add: proto_names_def)
  ultimately show ?thesis using p by blast
qed

text \<open>The exception: a member called \<open>constructor\<close> is shown as here although nobody is.\<close>

lemma inherited_name_always_live:
  "\<exists>p. circlePresence ((empty_circle ''c'')\<lparr>members := [''constructor'']\<rparr>) None [] 5 = Some p \<and> live p = [''constructor'']"
  by (simp add: circlePresence_def voice_rooms_def empty_circle_def enter_room_def in_obj_def dget_def proto_names_def)

end
