(* ===== verification/Fold.thy ===== *)
theory Fold
  imports ChannelLog
begin

text \<open>
  Folding a flat list of messages into day dividers, system chips and sender groups,
  \<open>client/src/lib/fold.js\<close>. The header of a group carries the sender's trust badge, so which lines share a
  group decides which lines a badge vouches for. The label of a day depends on the reader's clock, time
  zone and locale and is a parameter. The variable \<open>group\<close> of the loop is the last element of the output
  when that element is a group, and \<open>null\<close> otherwise: it is cleared with every divider and chip.
\<close>

record sender_group =
  sg_sender :: string
  sg_ts :: jsnum
  sg_last :: jsnum
  sg_lines :: "message list"
  sg_auth :: auth
  sg_key :: string

datatype row = DayRow string string | SystemRow message string | GroupRow sender_group

definition GROUP_WINDOW :: rat where "GROUP_WINDOW = 5 * 60 * 1000"

fun num_minus :: "jsnum \<Rightarrow> jsnum \<Rightarrow> jsnum" where
  "num_minus (Fin x) (Fin y) = Fin (x - y)"
| "num_minus NaN _ = NaN"
| "num_minus _ NaN = NaN"
| "num_minus PosInf PosInf = NaN"
| "num_minus NegInf NegInf = NaN"
| "num_minus PosInf _ = PosInf"
| "num_minus NegInf _ = NegInf"
| "num_minus _ PosInf = NegInf"
| "num_minus _ NegInf = PosInf"

definition open_group :: "row list \<Rightarrow> sender_group option" where
  "open_group out = (if out = [] then None else case last out of GroupRow g \<Rightarrow> Some g | _ \<Rightarrow> None)"

definition auth_or_signed :: "message \<Rightarrow> auth" where
  "auth_or_signed m = (case msg_auth m of Some a \<Rightarrow> a | None \<Rightarrow> Signed)"

definition joins :: "sender_group \<Rightarrow> message \<Rightarrow> bool" where
  "joins g m \<longleftrightarrow> sg_sender g = msg_sender m \<and> sg_auth g = auth_or_signed m \<and>
     js_lt (num_minus (msg_ts m) (sg_last g)) (Fin GROUP_WINDOW)"

definition new_group :: "message \<Rightarrow> nat \<Rightarrow> sender_group" where
  "new_group m n = \<lparr>sg_sender = msg_sender m, sg_ts = msg_ts m, sg_last = msg_ts m, sg_lines = [m],
     sg_auth = auth_or_signed m, sg_key = ''g'' @ num_str (msg_ts m) @ nat_str n\<rparr>"

definition fold_line :: "message \<Rightarrow> row list \<Rightarrow> row list" where
  \<comment> \<open>one message, after its day divider\<close>
  "fold_line m out =
     (if msg_system m then out @ [SystemRow m (''s'' @ num_str (msg_ts m) @ nat_str (length out))]
      else case open_group out of
        Some g \<Rightarrow>
          if joins g m then butlast out @ [GroupRow (g\<lparr>sg_lines := sg_lines g @ [m], sg_last := msg_ts m\<rparr>)]
          else out @ [GroupRow (new_group m (length out))]
      | None \<Rightarrow> out @ [GroupRow (new_group m (length out))])"

definition fold_step :: "(jsnum \<Rightarrow> string) \<Rightarrow> message \<Rightarrow> row list \<times> string option \<Rightarrow> row list \<times> string option" where
  "fold_step dayLabel m s =
     (let (out, day) = s; label = dayLabel (msg_ts m)
      in (fold_line m (if day = Some label then out else out @ [DayRow label (''d'' @ num_str (msg_ts m))]), Some label))"

definition fold_messages :: "(jsnum \<Rightarrow> string) \<Rightarrow> message list \<Rightarrow> row list" where
  "fold_messages dayLabel messages = fst (fold (fold_step dayLabel) messages ([], None))"

section \<open>Nothing is lost and no badge vouches for another line\<close>

fun row_lines :: "row \<Rightarrow> message list" where
  "row_lines (DayRow _ _) = []"
| "row_lines (SystemRow m _) = [m]"
| "row_lines (GroupRow g) = sg_lines g"

fun close_together :: "message list \<Rightarrow> bool" where
  "close_together (a # b # rest) \<longleftrightarrow> js_lt (num_minus (msg_ts b) (msg_ts a)) (Fin GROUP_WINDOW) \<and> close_together (b # rest)"
| "close_together _ \<longleftrightarrow> True"

definition group_ok :: "sender_group \<Rightarrow> bool" where
  "group_ok g \<longleftrightarrow> sg_lines g \<noteq> [] \<and> msg_ts (last (sg_lines g)) = sg_last g \<and> close_together (sg_lines g) \<and>
     (\<forall>m \<in> set (sg_lines g). msg_sender m = sg_sender g \<and> auth_or_signed m = sg_auth g \<and> \<not> msg_system m)"

definition rows_ok :: "row list \<Rightarrow> bool" where
  "rows_ok out \<longleftrightarrow> (\<forall>g. GroupRow g \<in> set out \<longrightarrow> group_ok g)"

lemma open_group_SomeD: "open_group out = Some g \<Longrightarrow> out = butlast out @ [GroupRow g]"
  by (auto simp: open_group_def split: if_splits row.splits) (metis append_butlast_last_id)

lemma close_together_snoc:
  "close_together (xs @ [m]) \<longleftrightarrow> close_together xs \<and>
     (xs = [] \<or> js_lt (num_minus (msg_ts m) (msg_ts (last xs))) (Fin GROUP_WINDOW))"
  by (induction xs rule: close_together.induct) auto

lemma fold_line_lines: "concat (map row_lines (fold_line m out)) = concat (map row_lines out) @ [m]"
proof (cases "open_group out")
  case (Some g)
  from arg_cong [OF open_group_SomeD [OF this], of "\<lambda>o'. concat (map row_lines o')"] Some show ?thesis
    by (auto simp: fold_line_def new_group_def)
qed (simp add: fold_line_def new_group_def)

lemma fold_line_ok:
  assumes "rows_ok out"
  shows "rows_ok (fold_line m out)"
proof (cases "msg_system m")
  case False
  have new: "group_ok (new_group m n)" for n using False by (simp add: group_ok_def new_group_def)
  show ?thesis
  proof (cases "open_group out")
    case None
    with False new assms show ?thesis by (auto simp: fold_line_def rows_ok_def)
  next
    case (Some g)
    note out = open_group_SomeD [OF Some]
    have "GroupRow g \<in> set out" by (subst out) simp
    with assms have "group_ok g" by (simp add: rows_ok_def)
    then have "group_ok (g\<lparr>sg_lines := sg_lines g @ [m], sg_last := msg_ts m\<rparr>)" if "joins g m"
      using that False by (auto simp: group_ok_def joins_def close_together_snoc)
    moreover have "GroupRow x \<in> set (butlast out) \<Longrightarrow> GroupRow x \<in> set out" for x by (rule in_set_butlastD)
    ultimately show ?thesis using Some False new assms by (auto simp: fold_line_def rows_ok_def)
  qed
qed (use assms in \<open>auto simp: fold_line_def rows_ok_def\<close>)

lemma fold_steps:
  assumes "rows_ok out"
  shows "concat (map row_lines (fst (fold (fold_step lab) ms (out, day)))) = concat (map row_lines out) @ ms \<and>
    rows_ok (fst (fold (fold_step lab) ms (out, day)))"
  using assms
proof (induction ms arbitrary: out day)
  case (Cons m ms)
  let ?out = "if day = Some (lab (msg_ts m)) then out else out @ [DayRow (lab (msg_ts m)) (''d'' @ num_str (msg_ts m))]"
  have step: "fold_step lab m (out, day) = (fold_line m ?out, Some (lab (msg_ts m)))" by (simp add: fold_step_def Let_def)
  have "rows_ok ?out" using Cons.prems by (auto simp: rows_ok_def)
  from fold_line_ok [OF this, of m] Cons.IH [of "fold_line m ?out" "Some (lab (msg_ts m))"] show ?case
    by (simp only: fold_simps step fold_line_lines) simp
qed simp

text \<open>
  Folding loses no line and mixes no evidence. Reading the rows in order gives back the messages in
  order; and in every group all lines have the one sender and the one kind of evidence the header shows,
  none is a system notice, and consecutive lines are less than the group window apart.
\<close>

theorem fold_keeps_lines_and_evidence:
  "concat (map row_lines (fold_messages dayLabel ms)) = ms \<and>
   (\<forall>g. GroupRow g \<in> set (fold_messages dayLabel ms) \<longrightarrow>
      sg_lines g \<noteq> [] \<and> close_together (sg_lines g) \<and>
      (\<forall>m \<in> set (sg_lines g). msg_sender m = sg_sender g \<and> auth_or_signed m = sg_auth g \<and> \<not> msg_system m))"
  using fold_steps [of "[]" dayLabel ms None]
  by (auto simp: fold_messages_def rows_ok_def group_ok_def)

definition example_message :: "string \<Rightarrow> rat \<Rightarrow> auth \<Rightarrow> message" where
  "example_message who ts a = \<lparr>msg_server = ''c'', msg_channel = ''general'', msg_sender = who, msg_ts = Fin ts,
     msg_body = None, msg_reply = None, msg_auth = Some a, msg_seq = None, msg_local = False,
     msg_edited = False, msg_deleted = False, msg_system = False, msg_reacts = [], msg_failed = False\<rparr>"

theorem fold_keeps_lines_and_evidence_witness:
  "\<exists>g h. GroupRow g \<in> set (fold_messages (\<lambda>t. ''today'') [example_message ''ann'' 1 Signed, example_message ''ann'' 2 Unknown]) \<and>
     GroupRow h \<in> set (fold_messages (\<lambda>t. ''today'') [example_message ''ann'' 1 Signed, example_message ''ann'' 2 Unknown]) \<and>
     sg_auth g = Signed \<and> sg_auth h = Unknown \<and>
     (\<forall>m \<in> set (sg_lines g). auth_or_signed m = Signed)"
proof -
  let ?rows = "fold_messages (\<lambda>t. ''today'') [example_message ''ann'' 1 Signed, example_message ''ann'' 2 Unknown]"
  let ?g = "new_group (example_message ''ann'' 1 Signed) 1" and ?h = "new_group (example_message ''ann'' 2 Unknown) 2"
  have rows: "?rows = [DayRow ''today'' (''d'' @ num_str (Fin 1)), GroupRow ?g, GroupRow ?h]"
    by (simp add: fold_messages_def fold_step_def fold_line_def open_group_def joins_def new_group_def auth_or_signed_def
        example_message_def Let_def numeral_2_eq_2)
  have auth: "sg_auth ?g = Signed" "sg_auth ?h = Unknown" by (simp_all add: new_group_def auth_or_signed_def example_message_def)
  from fold_keeps_lines_and_evidence [of "\<lambda>t. ''today''" "[example_message ''ann'' 1 Signed, example_message ''ann'' 2 Unknown]"]
  have "\<forall>m \<in> set (sg_lines ?g). auth_or_signed m = Signed" unfolding rows using auth by auto
  with auth show ?thesis unfolding rows by (intro exI [of _ ?g] exI [of _ ?h]) simp
qed

end
