(* ===== verification/Fork.thy ===== *)
theory Fork
  imports JS_Prelude
begin

text \<open>
  Fork detection, \<open>client/src/lib/fork.js\<close>: which undecryptable blobs are evidence that this device is on
  a branch of its own, and what the tally of them concludes. An epoch that is not a finite number is
  \<open>None\<close>. The class \<open>ForkWatch\<close> is a record; its \<open>Map\<close>s and \<open>Set\<close> are insertion ordered lists. The specification at the
  end reads the verdict off the history of events alone, and the class is shown to implement it.
\<close>

section \<open>The class\<close>

definition FORK_THRESHOLD :: nat where "FORK_THRESHOLD = 5"

datatype failure = Self | Ahead | Replay | Restored | Suspect

record fail_info =
  fi_sender :: string
  fi_epoch :: "nat option"
  fi_me :: string
  fi_groupEpoch :: "nat option"
  fi_restored :: bool
  fi_replay :: bool

definition epoch_ahead :: "nat option \<Rightarrow> nat option \<Rightarrow> bool" where
  "epoch_ahead e g = (case e of None \<Rightarrow> False | Some a \<Rightarrow> case g of None \<Rightarrow> False | Some b \<Rightarrow> b < a)"

definition classifyFailure :: "fail_info \<Rightarrow> failure" where
  "classifyFailure i =
     (if fi_restored i then Restored
      else if fi_replay i then Replay
      else if fi_sender i = fi_me i then Self
      else if epoch_ahead (fi_epoch i) (fi_groupEpoch i) then Ahead
      else Suspect)"

record group_state =
  counts :: "(string \<times> nat) list"
  heard :: "string list"

record fork_watch =
  fw_threshold :: nat
  groups :: "(string \<times> group_state) list"

definition new_watch :: "nat \<Rightarrow> fork_watch" where
  "new_watch threshold = \<lparr>fw_threshold = threshold, groups = []\<rparr>"

definition state_of :: "fork_watch \<Rightarrow> string \<Rightarrow> group_state" where
  "state_of w g = (case map_of (groups w) g of Some s \<Rightarrow> s | None \<Rightarrow> \<lparr>counts = [], heard = []\<rparr>)"

definition put_state :: "fork_watch \<Rightarrow> string \<Rightarrow> group_state \<Rightarrow> fork_watch" where
  "put_state w g s = w\<lparr>groups := AList.update g s (groups w)\<rparr>"

definition succeeded :: "fork_watch \<Rightarrow> string \<Rightarrow> string \<Rightarrow> fork_watch" where
  "succeeded w g sender =
     (let s = state_of w g
      in put_state w g (s\<lparr>counts := AList.delete sender (counts s), heard := set_add (heard s) sender\<rparr>))"

definition failed :: "fork_watch \<Rightarrow> string \<Rightarrow> fail_info \<Rightarrow> fork_watch \<times> failure" where
  "failed w g info =
     (let why = classifyFailure info
      in if why \<noteq> Suspect then (w, why)
         else let s = state_of w g;
                  n = (case map_of (counts s) (fi_sender info) of Some k \<Rightarrow> k | None \<Rightarrow> 0)
              in (put_state w g (s\<lparr>counts := AList.update (fi_sender info) (n + 1) (counts s),
                                  heard := set_add (heard s) (fi_sender info)\<rparr>), why))"

record verdict_rec =
  stranded :: "string list"
  outOfSync :: bool

definition verdict :: "fork_watch \<Rightarrow> string \<Rightarrow> verdict_rec" where
  "verdict w g =
     (let s = state_of w g;
          st = sort (map fst (filter (\<lambda>e. fw_threshold w \<le> snd e) (counts s)))
      in \<lparr>stranded = st, outOfSync = (0 < length st \<and> length st = length (heard s))\<rparr>)"

definition clear :: "fork_watch \<Rightarrow> string \<Rightarrow> fork_watch" where
  "clear w g = w\<lparr>groups := AList.delete g (groups w)\<rparr>"

text \<open>The sentence shown; \<open>dash\<close> is the em dash, which is not among the 256 characters of \<open>char\<close>.\<close>

definition forkMessage :: "string \<Rightarrow> verdict_rec \<Rightarrow> string \<Rightarrow> string option" where
  "forkMessage dash v name =
     (let q = [CHR 0x22] in
      if outOfSync v then Some (q @ name @ q @ '' is out of sync '' @ dash @ '' this device is on a branch of its own and cannot read new messages. Ask a member for a fresh invite link and open it to rejoin.'')
      else if length (stranded v) = 1 then Some (''messages from '' @ hd (stranded v) @ '' in '' @ q @ name @ q @ '' cannot be read '' @ dash @ '' their device may need to rejoin via a fresh invite link.'')
      else if 1 < length (stranded v) then Some (''messages from '' @ join '', '' (stranded v) @ '' in '' @ q @ name @ q @ '' cannot be read '' @ dash @ '' their devices may need to rejoin via a fresh invite link.'')
      else None)"

section \<open>The verdict as a function of the history\<close>

datatype blob = Opened string string | Failed string fail_info | Cleared string

fun watch :: "blob \<Rightarrow> fork_watch \<Rightarrow> fork_watch" where
  "watch (Opened g s) w = succeeded w g s"
| "watch (Failed g i) w = fst (failed w g i)"
| "watch (Cleared g) w = clear w g"

definition run :: "nat \<Rightarrow> blob list \<Rightarrow> fork_watch" where
  "run threshold bs = fold watch bs (new_watch threshold)"

text \<open>
  Read a history backwards from its end: how many suspect failures of a sender there have been since
  something of theirs opened or the group was forgotten, and whether anything was concluded about them.
\<close>

fun streak :: "string \<Rightarrow> string \<Rightarrow> blob list \<Rightarrow> nat" where
  "streak g s [] = 0"
| "streak g s (b # bs) =
     (case b of
        Opened g' s' \<Rightarrow> if g' = g \<and> s' = s then 0 else streak g s bs
      | Failed g' i \<Rightarrow> if g' = g \<and> fi_sender i = s \<and> classifyFailure i = Suspect then Suc (streak g s bs) else streak g s bs
      | Cleared g' \<Rightarrow> if g' = g then 0 else streak g s bs)"

fun judged :: "string \<Rightarrow> blob list \<Rightarrow> string set" where
  "judged g [] = {}"
| "judged g (b # bs) =
     (case b of
        Opened g' s' \<Rightarrow> if g' = g then insert s' (judged g bs) else judged g bs
      | Failed g' i \<Rightarrow> if g' = g \<and> classifyFailure i = Suspect then insert (fi_sender i) (judged g bs) else judged g bs
      | Cleared g' \<Rightarrow> if g' = g then {} else judged g bs)"

definition tally :: "fork_watch \<Rightarrow> string \<Rightarrow> string \<Rightarrow> nat" where
  "tally w g s = (case map_of (counts (state_of w g)) s of Some n \<Rightarrow> n | None \<Rightarrow> 0)"

definition watch_ok :: "fork_watch \<Rightarrow> bool" where
  "watch_ok w \<longleftrightarrow> (\<forall>g. distinct (map fst (counts (state_of w g))) \<and> distinct (heard (state_of w g)) \<and>
     fst ` set (counts (state_of w g)) \<subseteq> set (heard (state_of w g)))"

lemma state_of_put: "state_of (put_state w g s) g' = (if g' = g then s else state_of w g')"
  by (simp add: state_of_def put_state_def update_conv')

lemma state_of_clear: "state_of (clear w g) g' = (if g' = g then \<lparr>counts = [], heard = []\<rparr> else state_of w g')"
  by (simp add: state_of_def clear_def delete_conv')

lemma in_set_deleteD: "(k, v) \<in> set (AList.delete x al) \<Longrightarrow> (k, v) \<in> set al"
  by (simp add: AList.delete_eq)

lemma sort_key_empty: "sort xs = [] \<longleftrightarrow> xs = []"
  by (metis length_0_conv length_sort)

lemma same_length_iff_same_set:
  assumes "distinct xs" "distinct ys" "set xs \<subseteq> set ys"
  shows "length xs = length ys \<longleftrightarrow> set xs = set ys"
  using assms card_subset_eq [of "set ys" "set xs"] by (metis distinct_card finite_set)

lemma watch_ok_step: "watch_ok w \<Longrightarrow> watch_ok (watch b w)"
proof (cases b)
  case (Opened g s)
  assume "watch_ok w"
  then show ?thesis
    by (auto simp: Opened watch_ok_def succeeded_def Let_def state_of_put distinct_delete distinct_set_add
        dest: in_set_deleteD)
next
  case (Failed g i)
  assume "watch_ok w"
  then show ?thesis
    by (auto simp: Failed watch_ok_def failed_def Let_def state_of_put distinct_update distinct_set_add dom_update)
next
  case (Cleared g)
  assume "watch_ok w"
  then show ?thesis by (simp add: Cleared watch_ok_def state_of_clear)
qed

lemma watch_tally:
  "tally (watch b w) g s =
     (case b of
        Opened g' s' \<Rightarrow> if g' = g \<and> s' = s then 0 else tally w g s
      | Failed g' i \<Rightarrow> if g' = g \<and> fi_sender i = s \<and> classifyFailure i = Suspect then Suc (tally w g s) else tally w g s
      | Cleared g' \<Rightarrow> if g' = g then 0 else tally w g s)"
  by (cases b) (auto simp: tally_def succeeded_def failed_def Let_def state_of_put state_of_clear delete_conv' update_conv')

lemma watch_heard:
  "set (heard (state_of (watch b w) g)) =
     (case b of
        Opened g' s' \<Rightarrow> if g' = g then insert s' (set (heard (state_of w g))) else set (heard (state_of w g))
      | Failed g' i \<Rightarrow> if g' = g \<and> classifyFailure i = Suspect then insert (fi_sender i) (set (heard (state_of w g))) else set (heard (state_of w g))
      | Cleared g' \<Rightarrow> if g' = g then {} else set (heard (state_of w g)))"
  by (cases b) (auto simp: succeeded_def failed_def Let_def state_of_put state_of_clear)

lemma run_ok: "watch_ok (run t bs) \<and> fw_threshold (run t bs) = t \<and> tally (run t bs) g s = streak g s (rev bs) \<and>
    set (heard (state_of (run t bs) g)) = judged g (rev bs)"
proof (induction bs rule: rev_induct)
  case Nil
  then show ?case by (simp add: run_def new_watch_def watch_ok_def state_of_def tally_def)
next
  case (snoc b bs)
  have "run t (bs @ [b]) = watch b (run t bs)" by (simp add: run_def)
  moreover have "fw_threshold (watch b w) = fw_threshold w" for w
    by (cases b) (simp_all add: succeeded_def failed_def clear_def put_state_def Let_def)
  ultimately show ?case
    using snoc watch_ok_step watch_tally [of b "run t bs" g s] watch_heard [of b "run t bs" g]
    by (auto split: blob.splits)
qed

text \<open>
  The fork verdict is what the history says. Whatever happened, in whatever order and in however many
  groups, a sender is listed as stranded exactly when their last \<open>threshold\<close> or more unexplained failures
  came with nothing of theirs opening in between, and this device calls itself out of sync exactly when
  that holds of every sender it has been able to judge, and there is one.
\<close>

theorem verdict_follows_history:
  assumes "0 < t"
  shows "set (stranded (verdict (run t bs) g)) = {s. t \<le> streak g s (rev bs)} \<and>
    (outOfSync (verdict (run t bs) g) \<longleftrightarrow>
      judged g (rev bs) \<noteq> {} \<and> (\<forall>s \<in> judged g (rev bs). t \<le> streak g s (rev bs)))"
proof -
  let ?w = "run t bs" and ?s = "state_of (run t bs) g"
  let ?bad = "filter (\<lambda>e. t \<le> snd e) (counts ?s)"
  note ok = run_ok [of t bs]
  have d: "distinct (map fst (counts ?s))" "distinct (heard ?s)" "fst ` set (counts ?s) \<subseteq> set (heard ?s)"
    using ok [unfolded watch_ok_def] by blast+
  have st: "stranded (verdict ?w g) = sort (map fst ?bad)" "outOfSync (verdict ?w g) \<longleftrightarrow> 0 < length ?bad \<and> length ?bad = length (heard ?s)"
    using ok by (auto simp: verdict_def Let_def sort_key_empty)
  have bad: "set (map fst ?bad) = {s. t \<le> streak g s (rev bs)}"
  proof -
    have "s \<in> fst ` set ?bad \<longleftrightarrow> t \<le> tally ?w g s" for s
    proof (cases "map_of (counts ?s) s")
      case None
      then have "tally ?w g s = 0" by (simp only: tally_def option.case)
      moreover have "s \<notin> fst ` set (counts ?s)" using None by (simp only: map_of_eq_None_iff not_False_eq_True)
      ultimately show ?thesis using assms by auto
    next
      case (Some n)
      then have "tally ?w g s = n" by (simp only: tally_def option.case)
      moreover have "(s, k) \<in> set (counts ?s) \<longleftrightarrow> k = n" for k
        using Some d(1) by (metis map_of_eq_Some_iff option.inject)
      ultimately show ?thesis by force
    qed
    then show ?thesis using ok by auto
  qed
  have "set (map fst ?bad) \<subseteq> set (heard ?s)" using d(3) by auto
  moreover have "distinct (map fst ?bad)" using d(1) by (rule distinct_map_filter)
  ultimately have "length ?bad = length (heard ?s) \<longleftrightarrow> set (map fst ?bad) = set (heard ?s)"
    using same_length_iff_same_set [of "map fst ?bad", OF _ d(2)] by (simp only: length_map)
  moreover have "0 < length ?bad \<longleftrightarrow> set (map fst ?bad) \<noteq> {}"
    by (simp only: length_greater_0_conv set_empty map_is_Nil_conv not_False_eq_True)
  moreover have "set (heard ?s) = judged g (rev bs)" using ok by blast
  ultimately have "outOfSync (verdict ?w g) \<longleftrightarrow> judged g (rev bs) \<noteq> {} \<and> set (map fst ?bad) = judged g (rev bs)"
    unfolding st(2) by metis
  moreover have "set (map fst ?bad) \<subseteq> judged g (rev bs)"
    using \<open>set (map fst ?bad) \<subseteq> set (heard ?s)\<close> \<open>set (heard ?s) = judged g (rev bs)\<close> by simp
  ultimately show ?thesis unfolding st(1) set_sort bad by blast
qed

theorem verdict_follows_history_witness:
  "let i = \<lparr>fi_sender = ''carol'', fi_epoch = Some 3, fi_me = ''ann'', fi_groupEpoch = Some 3, fi_restored = False, fi_replay = False\<rparr>
   in ''carol'' \<in> set (stranded (verdict (run 2 [Failed ''g'' i, Opened ''g'' ''bob'', Failed ''g'' i]) ''g'')) \<and>
      \<not> outOfSync (verdict (run 2 [Failed ''g'' i, Opened ''g'' ''bob'', Failed ''g'' i]) ''g'')"
proof -
  let ?i = "\<lparr>fi_sender = ''carol'', fi_epoch = Some 3, fi_me = ''ann'', fi_groupEpoch = Some 3, fi_restored = False, fi_replay = False\<rparr>"
  have "classifyFailure ?i = Suspect" by (simp add: classifyFailure_def epoch_ahead_def)
  then show ?thesis
    using verdict_follows_history [of 2 "[Failed ''g'' ?i, Opened ''g'' ''bob'', Failed ''g'' ?i]" "''g''"] by simp
qed

end
