(* ===== verification/Circles.thy ===== *)
theory Circles
  imports Circle
begin

text \<open>
  Where a circle's state lives, \<open>client/src/lib/circles.js\<close>: the half of a record that rides the encrypted
  backup, the half that stays on the device, putting a record together from the two, and merging two
  backups after a lost compare-and-swap; and the pending decisions across circles (\<open>decisionsFor\<close> of
  \<open>quorum.js\<close>). The backup blob is whatever JSON was parked, so records here are objects of JSON values.
\<close>

section \<open>The two halves\<close>

definition SHARED_FIELDS :: "string list" where
  "SHARED_FIELDS = [''id'', ''name'', ''channels'', ''voiceChannels'', ''chanMeta'', ''keys'', ''overview'', ''notices'',
     ''offers'', ''proposals'', ''threshold'', ''rsvps'', ''invites'', ''deletedChannels'', ''deletedVoice'']"

definition DEVICE_FIELDS :: "string list" where
  "DEVICE_FIELDS = [''lastSeq'', ''epoch'', ''seen'', ''verified'', ''verifiedSn'', ''mismatched'', ''joinedAt'']"

definition pick :: "jsval \<Rightarrow> string list \<Rightarrow> jsval dict" where
  "pick source fs = map (\<lambda>f. (f, oprop source f)) (filter (\<lambda>f. oprop source f \<noteq> JUndef) fs)"

definition assign :: "jsval dict \<Rightarrow> jsval dict \<Rightarrow> jsval dict" where
  \<comment> \<open>\<open>{ ...d, k: v, .. }\<close>: a field already there keeps its place\<close>
  "assign d kvs = fold (\<lambda>(k, v) acc. AList.update k v acc) kvs d"

fun length_truthy :: "jsval \<Rightarrow> bool" where
  \<comment> \<open>\<open>v?.length\<close> as a condition\<close>
  "length_truthy (JArr vs) = (vs \<noteq> [])"
| "length_truthy (JStr s) = (s \<noteq> [])"
| "length_truthy (JObj kvs) = truthy (oprop (JObj kvs) ''length'')"
| "length_truthy _ = False"

definition sharedHalf :: "jsval \<Rightarrow> jsval dict throws" where
  "sharedHalf rec =
     do { chans \<leftarrow> jget rec ''channels'';
          chans' \<leftarrow> (if length_truthy chans then js_iter chans else Some [JStr ''general'']);
          voice \<leftarrow> js_iter (coalesce (oprop rec ''voiceChannels'') (JArr [JStr ''lounge'']));
          Some (assign (pick rec SHARED_FIELDS)
            [(''channels'', JArr chans'), (''voiceChannels'', JArr voice),
             (''chanMeta'', coalesce (oprop rec ''chanMeta'') (JObj [])),
             (''keys'', coalesce (oprop rec ''keys'') (JObj [])),
             (''notices'', coalesce (oprop rec ''notices'') (JArr [])),
             (''rsvps'', coalesce (oprop rec ''rsvps'') (JObj [])),
             (''invites'', coalesce (oprop rec ''invites'') (JArr [])),
             (''overview'', coalesce (oprop rec ''overview'') JNull)]) }"

definition deviceHalf :: "jsval \<Rightarrow> jsval dict throws" where
  "deviceHalf rec =
     do { seq \<leftarrow> jget rec ''lastSeq'';
          Some (assign (pick rec DEVICE_FIELDS)
            [(''lastSeq'', coalesce seq (JNum (Fin 0))), (''epoch'', coalesce (oprop rec ''epoch'') (JNum (Fin 0)))]) }"

definition hydrate :: "jsval \<Rightarrow> jsval \<Rightarrow> rat \<Rightarrow> bool \<Rightarrow> jsval dict throws" where
  "hydrate shared device now live =
     do { sh \<leftarrow> sharedHalf shared;
          Some (assign sh
            ([(''id'', oprop shared ''id''),
              (''name'', coalesce (oprop shared ''name'') (oprop shared ''id'')),
              (''lastSeq'', coalesce (oprop device ''lastSeq'') (JNum (Fin 0))),
              (''epoch'', coalesce (oprop device ''epoch'') (JNum (Fin 0))),
              (''seen'', coalesce (oprop device ''seen'') (JObj [])),
              (''verified'', coalesce (oprop device ''verified'') (JArr [])),
              (''verifiedSn'', coalesce (oprop device ''verifiedSn'') (JObj [])),
              (''mismatched'', coalesce (oprop device ''mismatched'') (JObj [])),
              (''joinedAt'', coalesce (oprop device ''joinedAt'') (JNum (Fin now))),
              (''members'', JArr []), (''roles'', JObj [])] @
             (if live then [] else [(''restored'', JBool True)]))) }"

section \<open>Two backups\<close>

definition by_id :: "jsval list \<Rightarrow> (jsval \<times> jsval) list \<Rightarrow> (jsval \<times> jsval) list" where
  "by_id circles m = fold (\<lambda>c acc. if truthy (oprop c ''id'') then AList.update (oprop c ''id'') c acc else acc) circles m"

definition mergeBackups :: "jsval \<Rightarrow> jsval \<Rightarrow> jsval list throws" where
  "mergeBackups mine theirs =
     do { ts \<leftarrow> js_iter (coalesce theirs (JArr []));
          ms \<leftarrow> js_iter (coalesce mine (JArr []));
          Some (map snd (by_id ms (by_id ts []))) }"

section \<open>Decisions waiting for this member\<close>

record decision =
  dec_server :: circle
  dec_proposal :: proposal
  dec_signed :: nat
  dec_threshold :: nat

definition threshold_value :: "circle \<Rightarrow> jsval" where
  "threshold_value s = (case threshold s of None \<Rightarrow> JUndef | Some t \<Rightarrow> JNum (Fin (of_nat t)))"

definition circle_decisions :: "string \<Rightarrow> circle \<Rightarrow> decision list throws" where
  "circle_decisions me s =
     mapM (\<lambda>p. do { t \<leftarrow> normalizeThreshold (threshold_value s) (length (members s));
                    Some \<lparr>dec_server = s, dec_proposal = p,
                      dec_signed = length (standingSignatures p (members s)), dec_threshold = t\<rparr> })
       (filter (\<lambda>p. awaitingFrom (Some p) me) (list_or_empty (proposals s)))"

definition decisionsFor :: "circle list \<Rightarrow> string \<Rightarrow> decision list throws" where
  "decisionsFor servers me = do { dss \<leftarrow> mapM (circle_decisions me) servers; Some (concat dss) }"

section \<open>Reading a field back\<close>

lemma map_of_pick: "map_of (pick source fs) f = (if f \<in> set fs \<and> oprop source f \<noteq> JUndef then Some (oprop source f) else None)"
  by (induction fs) (simp_all add: pick_def)

lemma oprop_pick: "f \<in> set fs \<Longrightarrow> oprop (JObj (pick source fs)) f = oprop source f"
  by (simp add: map_of_pick)

lemma pick_fields: "fst ` set (pick source fs) \<subseteq> set fs"
  by (auto simp: pick_def)

lemma map_of_assign: "map_of (assign d kvs) = map_of d ++ map_of (rev kvs)"
  by (induction kvs arbitrary: d)
    (auto simp: assign_def update_conv' map_add_def fun_eq_iff split: option.split)

lemma oprop_assign: "oprop (JObj (assign d kvs)) f = (case map_of (rev kvs) f of Some v \<Rightarrow> v | None \<Rightarrow> oprop (JObj d) f)"
  by (simp add: map_of_assign map_add_def split: option.split)

lemma assign_fields: "fst ` set (assign d kvs) = fst ` set d \<union> fst ` set kvs"
proof -
  have "fst ` set (assign d kvs) = dom (map_of (assign d kvs))" by (simp add: dom_map_of_conv_image_fst)
  then show ?thesis by (simp add: map_of_assign dom_map_of_conv_image_fst Un_commute)
qed

lemma assign_pick_fields: "fst ` set kvs \<subseteq> set fs \<Longrightarrow> fst ` set (assign (pick source fs) kvs) \<subseteq> set fs"
  unfolding assign_fields using pick_fields [of source fs] by simp

definition well_shaped :: "jsval \<Rightarrow> bool" where
  \<comment> \<open>room lists are arrays, with at least one text channel\<close>
  "well_shaped rec \<longleftrightarrow> (\<exists>cs. oprop rec ''channels'' = JArr cs \<and> cs \<noteq> []) \<and>
     (nullish (oprop rec ''voiceChannels'') \<or> is_array (oprop rec ''voiceChannels''))"

definition shared_default :: "jsval \<Rightarrow> string \<Rightarrow> jsval" where
  "shared_default rec f =
     (if f = ''voiceChannels'' then coalesce (oprop rec f) (JArr [JStr ''lounge''])
      else if f \<in> {''chanMeta'', ''keys'', ''rsvps''} then coalesce (oprop rec f) (JObj [])
      else if f \<in> {''notices'', ''invites''} then coalesce (oprop rec f) (JArr [])
      else if f = ''overview'' then coalesce (oprop rec f) JNull else oprop rec f)"

lemma shared_default_kept: "\<not> nullish (oprop rec f) \<Longrightarrow> shared_default rec f = oprop rec f"
  by (simp only: shared_default_def coalesce_def if_False if_cancel)

lemma js_iter_array: "is_array v \<Longrightarrow> \<exists>vs. v = JArr vs \<and> js_iter v = Some vs"
  by (cases v) auto

lemma sharedHalf_well_shaped:
  assumes "well_shaped rec"
  shows "\<exists>sh. sharedHalf rec = Some sh \<and> fst ` set sh \<subseteq> set SHARED_FIELDS \<and>
    (\<forall>f \<in> set SHARED_FIELDS. oprop (JObj sh) f = shared_default rec f)"
proof -
  from assms obtain cs where cs: "oprop rec ''channels'' = JArr cs" "cs \<noteq> []" by (auto simp: well_shaped_def)
  then have "\<not> nullish rec" by (cases rec) auto
  have "is_array (coalesce (oprop rec ''voiceChannels'') (JArr [JStr ''lounge'']))"
    using assms by (auto simp: well_shaped_def coalesce_def)
  then obtain vs where vs: "coalesce (oprop rec ''voiceChannels'') (JArr [JStr ''lounge'']) = JArr vs"
    using js_iter_array by blast
  let ?kvs = "[(''channels'', JArr cs), (''voiceChannels'', JArr vs),
             (''chanMeta'', coalesce (oprop rec ''chanMeta'') (JObj [])),
             (''keys'', coalesce (oprop rec ''keys'') (JObj [])),
             (''notices'', coalesce (oprop rec ''notices'') (JArr [])),
             (''rsvps'', coalesce (oprop rec ''rsvps'') (JObj [])),
             (''invites'', coalesce (oprop rec ''invites'') (JArr [])),
             (''overview'', coalesce (oprop rec ''overview'') JNull)]"
  have "sharedHalf rec = Some (assign (pick rec SHARED_FIELDS) ?kvs)"
    using cs vs \<open>\<not> nullish rec\<close> by (simp add: sharedHalf_def jget_def)
  moreover have "fst ` set (assign (pick rec SHARED_FIELDS) ?kvs) \<subseteq> set SHARED_FIELDS"
    by (rule assign_pick_fields) (simp add: SHARED_FIELDS_def)
  moreover have "\<forall>f \<in> set SHARED_FIELDS. oprop (JObj (assign (pick rec SHARED_FIELDS) ?kvs)) f = shared_default rec f"
    using cs vs by (simp add: oprop_assign oprop_pick shared_default_def del: oprop.simps)
  ultimately show ?thesis by blast
qed

lemma deviceHalf_field:
  assumes "\<not> nullish rec"
  shows "\<exists>dev. deviceHalf rec = Some dev \<and> fst ` set dev \<subseteq> set DEVICE_FIELDS \<and>
    (\<forall>f \<in> set DEVICE_FIELDS. \<not> nullish (oprop rec f) \<longrightarrow> oprop (JObj dev) f = oprop rec f)"
proof -
  let ?kvs = "[(''lastSeq'', coalesce (oprop rec ''lastSeq'') (JNum (Fin 0))), (''epoch'', coalesce (oprop rec ''epoch'') (JNum (Fin 0)))]"
  have "deviceHalf rec = Some (assign (pick rec DEVICE_FIELDS) ?kvs)"
    using assms by (simp add: deviceHalf_def jget_def)
  moreover have "fst ` set (assign (pick rec DEVICE_FIELDS) ?kvs) \<subseteq> set DEVICE_FIELDS"
    by (rule assign_pick_fields) (simp add: DEVICE_FIELDS_def)
  moreover have "\<forall>f \<in> set DEVICE_FIELDS. \<not> nullish (oprop rec f) \<longrightarrow>
      oprop (JObj (assign (pick rec DEVICE_FIELDS) ?kvs)) f = oprop rec f"
    by (simp add: oprop_assign oprop_pick del: oprop.simps)
  ultimately show ?thesis by blast
qed

definition device_default :: "rat \<Rightarrow> string \<Rightarrow> jsval" where
  "device_default now f =
     (if f \<in> {''lastSeq'', ''epoch''} then JNum (Fin 0) else if f = ''verified'' then JArr []
      else if f = ''joinedAt'' then JNum (Fin now) else JObj [])"

lemma hydrate_fields:
  assumes "hydrate shared device now live = Some h"
  shows "\<exists>sh. sharedHalf shared = Some sh \<and>
    (\<forall>f \<in> set DEVICE_FIELDS. oprop (JObj h) f = coalesce (oprop device f) (device_default now f)) \<and>
    (\<forall>f \<in> set SHARED_FIELDS. f \<noteq> ''id'' \<longrightarrow> f \<noteq> ''name'' \<longrightarrow> oprop (JObj h) f = oprop (JObj sh) f) \<and>
    oprop (JObj h) ''id'' = oprop shared ''id'' \<and>
    oprop (JObj h) ''name'' = coalesce (oprop shared ''name'') (oprop shared ''id'') \<and>
    oprop (JObj h) ''members'' = JArr [] \<and> oprop (JObj h) ''roles'' = JObj []"
proof -
  from assms obtain sh where "sharedHalf shared = Some sh" by (auto simp: hydrate_def bind_eq_Some_conv)
  with assms show ?thesis
    by (cases live)
      (auto simp: hydrate_def oprop_assign DEVICE_FIELDS_def SHARED_FIELDS_def device_default_def simp del: oprop.simps)
qed

text \<open>
  A circle survives the reload. For a record whose room lists are lists, splitting it into what the
  account's backup carries and what the device keeps, and putting it together again, gives every field of
  either half its old value; the backup carries only shared fields and the device only its own.
\<close>

theorem circle_survives_reload:
  assumes "well_shaped rec"
  shows "\<exists>sh dev h. sharedHalf rec = Some sh \<and> deviceHalf rec = Some dev \<and>
    hydrate (JObj sh) (JObj dev) now live = Some h \<and>
    fst ` set sh \<subseteq> set SHARED_FIELDS \<and> fst ` set dev \<subseteq> set DEVICE_FIELDS \<and>
    (\<forall>f \<in> set (SHARED_FIELDS @ DEVICE_FIELDS). \<not> nullish (oprop rec f) \<longrightarrow> oprop (JObj h) f = oprop rec f)"
proof -
  from sharedHalf_well_shaped [OF assms] obtain sh where sh: "sharedHalf rec = Some sh"
    "fst ` set sh \<subseteq> set SHARED_FIELDS" "\<And>f. f \<in> set SHARED_FIELDS \<Longrightarrow> oprop (JObj sh) f = shared_default rec f" by blast
  have "\<not> nullish rec" using assms by (cases rec) (auto simp: well_shaped_def)
  from deviceHalf_field [OF this] obtain dev where dev: "deviceHalf rec = Some dev"
    "fst ` set dev \<subseteq> set DEVICE_FIELDS" "\<And>f. f \<in> set DEVICE_FIELDS \<Longrightarrow> \<not> nullish (oprop rec f) \<Longrightarrow> oprop (JObj dev) f = oprop rec f"
    by blast
  have "well_shaped (JObj sh)"
    using assms sh(3) by (auto simp: well_shaped_def SHARED_FIELDS_def shared_default_def coalesce_def simp del: oprop.simps)
  from sharedHalf_well_shaped [OF this] obtain sh' where sh': "sharedHalf (JObj sh) = Some sh'"
    "\<And>f. f \<in> set SHARED_FIELDS \<Longrightarrow> oprop (JObj sh') f = shared_default (JObj sh) f" by blast
  then obtain h where h: "hydrate (JObj sh) (JObj dev) now live = Some h" by (simp add: hydrate_def)
  from hydrate_fields [OF h]
  have hd: "\<And>f. f \<in> set DEVICE_FIELDS \<Longrightarrow> oprop (JObj h) f = coalesce (oprop (JObj dev) f) (device_default now f)"
    by blast
  from hydrate_fields [OF h] sh'(1)
  have hf: "\<And>f. f \<in> set SHARED_FIELDS \<Longrightarrow> f \<noteq> ''id'' \<Longrightarrow> f \<noteq> ''name'' \<Longrightarrow> oprop (JObj h) f = oprop (JObj sh') f"
    "oprop (JObj h) ''id'' = oprop (JObj sh) ''id''"
    "oprop (JObj h) ''name'' = coalesce (oprop (JObj sh) ''name'') (oprop (JObj sh) ''id'')"
    by (metis option.inject)+
  have shared: "oprop (JObj h) f = oprop rec f" if "f \<in> set SHARED_FIELDS" "\<not> nullish (oprop rec f)" for f
  proof -
    have "oprop (JObj sh) f = oprop rec f" using that sh(3) shared_default_kept by metis
    moreover from this have "oprop (JObj sh') f = oprop rec f" using that sh'(2) shared_default_kept by metis
    ultimately show ?thesis
      using hf(1) [OF that(1)] hf(2,3) that(2) by (metis coalesce_simps(2))
  qed
  moreover have "oprop (JObj h) f = oprop rec f" if "f \<in> set DEVICE_FIELDS" "\<not> nullish (oprop rec f)" for f
    using hd [OF that(1)] dev(3) [OF that] that(2) by (metis coalesce_simps(2))
  ultimately have "\<forall>f \<in> set (SHARED_FIELDS @ DEVICE_FIELDS). \<not> nullish (oprop rec f) \<longrightarrow> oprop (JObj h) f = oprop rec f"
    by (metis Un_iff set_append)
  with sh(1,2) dev(1,2) h show ?thesis by (intro exI conjI)
qed

theorem circle_survives_reload_witness:
  "\<exists>sh dev h. sharedHalf (JObj [(''id'', JStr ''c''), (''channels'', JArr [JStr ''general'']), (''epoch'', JNum (Fin 7))]) = Some sh \<and>
     deviceHalf (JObj [(''id'', JStr ''c''), (''channels'', JArr [JStr ''general'']), (''epoch'', JNum (Fin 7))]) = Some dev \<and>
     hydrate (JObj sh) (JObj dev) 5 True = Some h \<and> oprop (JObj h) ''epoch'' = JNum (Fin 7)"
proof -
  let ?r = "JObj [(''id'', JStr ''c''), (''channels'', JArr [JStr ''general'']), (''epoch'', JNum (Fin 7))]"
  have "well_shaped ?r" by (simp add: well_shaped_def)
  from circle_survives_reload [OF this, of 5 True] obtain sh dev h where
    "sharedHalf ?r = Some sh" "deviceHalf ?r = Some dev" "hydrate (JObj sh) (JObj dev) 5 True = Some h"
    and f: "\<forall>f \<in> set (SHARED_FIELDS @ DEVICE_FIELDS). \<not> nullish (oprop ?r f) \<longrightarrow> oprop (JObj h) f = oprop ?r f" by blast
  moreover have "oprop (JObj h) ''epoch'' = JNum (Fin 7)"
    using bspec [OF f, of "''epoch''"] by (simp add: DEVICE_FIELDS_def)
  ultimately show ?thesis by blast
qed

text \<open>
  What a user verified in person never comes from the relay. Whatever blob the relay returns and whether
  or not the device can send, the verified safety numbers, the warnings, the cursors and the read marks of
  a hydrated circle are those of the device's own store, or their defaults; the roster and the roles start empty.
\<close>

theorem verdicts_never_from_relay:
  assumes "hydrate shared device now live = Some h" and "f \<in> set DEVICE_FIELDS"
  shows "oprop (JObj h) f = coalesce (oprop device f) (device_default now f) \<and>
    oprop (JObj h) ''members'' = JArr [] \<and> oprop (JObj h) ''roles'' = JObj []"
  using hydrate_fields [OF assms(1)] assms(2) by (auto simp del: oprop.simps)

theorem verdicts_never_from_relay_witness:
  "\<exists>h. hydrate (JObj [(''id'', JStr ''c''), (''verified'', JArr [JStr ''mallory''])]) JUndef 5 False = Some h \<and>
     oprop (JObj h) ''verified'' = JArr []"
proof -
  let ?s = "JObj [(''id'', JStr ''c''), (''verified'', JArr [JStr ''mallory''])]"
  obtain h where h: "hydrate ?s JUndef 5 False = Some h" by (simp add: hydrate_def sharedHalf_def jget_def)
  from verdicts_never_from_relay [OF h, of "''verified''"] have "oprop (JObj h) ''verified'' = JArr []"
    by (simp add: DEVICE_FIELDS_def device_default_def)
  with h show ?thesis by blast
qed

section \<open>Merging backups\<close>

definition circle_ids :: "jsval list \<Rightarrow> jsval set" where
  "circle_ids cs = {i. truthy i \<and> (\<exists>c \<in> set cs. oprop c ''id'' = i)}"

fun last_with_id :: "jsval list \<Rightarrow> jsval \<Rightarrow> jsval option" where
  \<comment> \<open>the last circle of the list under an id\<close>
  "last_with_id [] i = None"
| "last_with_id (c # cs) i =
     (case last_with_id cs i of Some d \<Rightarrow> Some d
      | None \<Rightarrow> if oprop c ''id'' = i \<and> truthy i then Some c else None)"

lemma map_of_by_id: "map_of (by_id cs m) i = (case last_with_id cs i of Some c \<Rightarrow> Some c | None \<Rightarrow> map_of m i)"
  by (induction cs arbitrary: m) (auto simp: by_id_def update_conv' split: option.splits)

lemma distinct_by_id: "distinct (map fst m) \<Longrightarrow> distinct (map fst (by_id cs m))"
  by (induction cs arbitrary: m) (auto simp: by_id_def distinct_update)

lemma last_with_id_SomeD: "last_with_id cs i = Some c \<Longrightarrow> c \<in> set cs \<and> oprop c ''id'' = i \<and> truthy i"
  by (induction cs) (auto split: option.splits if_splits)

lemma last_with_id_None: "last_with_id cs i = None \<longleftrightarrow> i \<notin> circle_ids cs"
  by (induction cs) (auto simp: circle_ids_def split: option.splits)

lemma by_id_keyed:
  assumes "\<forall>(i, c) \<in> set m. oprop c ''id'' = i"
  shows "\<forall>(i, c) \<in> set (by_id cs m). oprop c ''id'' = i"
  using assms
proof (induction cs arbitrary: m)
  case (Cons c cs)
  let ?m = "if truthy (oprop c ''id'') then AList.update (oprop c ''id'') c m else m"
  have "\<forall>(i, d) \<in> set ?m. oprop d ''id'' = i" using Cons.prems set_update [of "oprop c ''id''" c m] by (cases "truthy (oprop c ''id'')") auto
  from Cons.IH [OF this] show ?case by (simp add: by_id_def)
qed (simp add: by_id_def)

lemma mergeBackups_lookup:
  assumes "mergeBackups (JArr mine) (JArr theirs) = Some merged"
  obtains m where "merged = map snd m" "distinct (map fst m)" "\<forall>(i, c) \<in> set m. oprop c ''id'' = i"
    "\<And>i. map_of m i = (case last_with_id mine i of Some c \<Rightarrow> Some c | None \<Rightarrow> last_with_id theirs i)"
proof
  let ?m = "by_id mine (by_id theirs [])"
  show "merged = map snd ?m" using assms by (simp add: mergeBackups_def)
  show "distinct (map fst ?m)" by (simp add: distinct_by_id)
  show "\<forall>(i, c) \<in> set ?m. oprop c ''id'' = i" by (intro by_id_keyed) (simp add: by_id_def)
  show "map_of ?m i = (case last_with_id mine i of Some c \<Rightarrow> Some c | None \<Rightarrow> last_with_id theirs i)" for i
    by (simp add: map_of_by_id split: option.split)
qed

lemma mergeBackups_ids:
  assumes "mergeBackups (JArr mine) (JArr theirs) = Some merged"
  shows "circle_ids merged = circle_ids mine \<union> circle_ids theirs" and "set merged \<subseteq> set mine \<union> set theirs"
proof -
  obtain m where m: "merged = map snd m" "distinct (map fst m)" and keyed: "\<forall>(i, c) \<in> set m. oprop c ''id'' = i"
    and lookup: "\<And>i. map_of m i = (case last_with_id mine i of Some c \<Rightarrow> Some c | None \<Rightarrow> last_with_id theirs i)"
    using mergeBackups_lookup [OF assms] by blast
  have "set (map fst m) = circle_ids mine \<union> circle_ids theirs"
  proof -
    have "i \<in> dom (map_of m) \<longleftrightarrow> i \<in> circle_ids mine \<union> circle_ids theirs" for i
      using last_with_id_None [of mine i] last_with_id_None [of theirs i] lookup [of i] by (auto split: option.splits)
    then show ?thesis by (auto simp: dom_map_of_conv_image_fst)
  qed
  moreover have "map (\<lambda>c. oprop c ''id'') merged = map fst m" unfolding m(1) using keyed by auto
  ultimately have "(\<lambda>c. oprop c ''id'') ` set merged = circle_ids mine \<union> circle_ids theirs" by (metis set_map)
  moreover have "circle_ids merged = {i. truthy i} \<inter> (\<lambda>c. oprop c ''id'') ` set merged" by (auto simp: circle_ids_def)
  moreover have "circle_ids mine \<union> circle_ids theirs \<subseteq> {i. truthy i}" by (auto simp: circle_ids_def)
  ultimately show "circle_ids merged = circle_ids mine \<union> circle_ids theirs" by (metis inf_absorb2)
  show "set merged \<subseteq> set mine \<union> set theirs"
  proof
    fix c assume "c \<in> set merged"
    then obtain i where "(i, c) \<in> set m" unfolding m(1) by auto
    then have "map_of m i = Some c" using m(2) by simp
    then show "c \<in> set mine \<union> set theirs" using lookup [of i] by (auto split: option.splits dest: last_with_id_SomeD)
  qed
qed

text \<open>
  A lost write never loses a circle. After merging the backup another device parked with the circles
  held here, every circle of either side is there exactly once: ours where both have it, theirs where only
  they do, and nothing else.
\<close>

theorem merge_keeps_every_circle:
  assumes "mergeBackups (JArr mine) (JArr theirs) = Some merged"
  shows "distinct (map (\<lambda>c. oprop c ''id'') merged) \<and> circle_ids merged = circle_ids mine \<union> circle_ids theirs \<and>
    (\<forall>c \<in> set merged. \<exists>i. oprop c ''id'' = i \<and> truthy i \<and>
       (if i \<in> circle_ids mine then last_with_id mine i = Some c else last_with_id theirs i = Some c))"
proof -
  obtain m where m: "merged = map snd m" "distinct (map fst m)" and keyed: "\<forall>(i, c) \<in> set m. oprop c ''id'' = i"
    and lookup: "\<And>i. map_of m i = (case last_with_id mine i of Some c \<Rightarrow> Some c | None \<Rightarrow> last_with_id theirs i)"
    using mergeBackups_lookup [OF assms] by blast
  have ids: "map (\<lambda>c. oprop c ''id'') merged = map fst m" unfolding m(1) using keyed by auto
  have entry: "(if i \<in> circle_ids mine then last_with_id mine i = Some c else last_with_id theirs i = Some c)"
    if "(i, c) \<in> set m" for i c
  proof -
    have "map_of m i = Some c" using that m(2) by (simp add: map_of_eq_Some_iff)
    with lookup [of i] last_with_id_None [of mine i] show ?thesis by (cases "last_with_id mine i") simp_all
  qed
  have "\<forall>c \<in> set merged. \<exists>i. oprop c ''id'' = i \<and> truthy i \<and>
       (if i \<in> circle_ids mine then last_with_id mine i = Some c else last_with_id theirs i = Some c)"
  proof
    fix c assume "c \<in> set merged"
    then obtain i where i: "(i, c) \<in> set m" unfolding m(1) by auto
    with entry [OF i] keyed show "\<exists>i. oprop c ''id'' = i \<and> truthy i \<and>
       (if i \<in> circle_ids mine then last_with_id mine i = Some c else last_with_id theirs i = Some c)"
      by (auto dest: last_with_id_SomeD split: if_splits)
  qed
  with mergeBackups_ids(1) [OF assms] ids m(2) show ?thesis by simp
qed

theorem merge_keeps_every_circle_witness:
  "\<exists>merged. mergeBackups (JArr [JObj [(''id'', JStr ''a''), (''name'', JStr ''ours'')]])
       (JArr [JObj [(''id'', JStr ''a''), (''name'', JStr ''theirs'')], JObj [(''id'', JStr ''b'')]]) = Some merged \<and>
     circle_ids merged = {JStr ''a'', JStr ''b''}"
proof -
  let ?m = "[JObj [(''id'', JStr ''a''), (''name'', JStr ''ours'')]]"
  let ?t = "[JObj [(''id'', JStr ''a''), (''name'', JStr ''theirs'')], JObj [(''id'', JStr ''b'')]]"
  obtain merged where run: "mergeBackups (JArr ?m) (JArr ?t) = Some merged" by (simp add: mergeBackups_def)
  from merge_keeps_every_circle [OF run] have "circle_ids merged = circle_ids ?m \<union> circle_ids ?t" by blast
  also have "\<dots> = {JStr ''a'', JStr ''b''}" by (auto simp: circle_ids_def)
  finally show ?thesis using run by blast
qed

section \<open>Decisions\<close>

lemma decisionsFor_awaiting:
  assumes "decisionsFor servers me = Some ds" and "d \<in> set ds"
  shows "dec_server d \<in> set servers \<and> dec_proposal d \<in> set (list_or_empty (proposals (dec_server d))) \<and>
    awaitingFrom (Some (dec_proposal d)) me"
proof -
  from assms obtain dss s where ds: "mapM (circle_decisions me) servers = Some dss" "s \<in> set dss" "d \<in> set s"
    by (auto simp: decisionsFor_def bind_eq_Some_conv)
  then obtain c where c: "c \<in> set servers" "circle_decisions me c = Some s" by (blast dest: mapM_Some_set)
  from mapM_Some_set [OF c(2) [unfolded circle_decisions_def] ds(3)] c(1) show ?thesis
    by (auto simp: bind_eq_Some_conv)
qed

end
