(* ===== verification/Invite.thy ===== *)
theory Invite
  imports Base64 Json
begin

text \<open>
  Links that carry a secret in their fragment: \<open>client/src/lib/invite.js\<close> (the URL-safe encoding, the sealed
  blob, building and reading an invite link). WebCrypto's AES-GCM is a parameter: \<open>enc k iv data\<close> and
  \<open>dec k iv ct\<close>, each of which may throw; a random draw is an argument. What the code relies on is
  \<open>aead_opens\<close>: under the same key and nonce, decryption undoes encryption. \<open>URLSearchParams\<close>, the fragment
  regular expression and the way a browser takes a URL apart are the platform's and are written out here.
\<close>

section \<open>The URL-safe encoding\<close>

definition url_sub :: "char \<Rightarrow> char" where
  "url_sub c = (if c = CHR ''+'' then CHR ''-'' else if c = CHR ''/'' then CHR ''_'' else c)"

definition url_unsub :: "char \<Rightarrow> char" where
  "url_unsub c = (if c = CHR ''-'' then CHR ''+'' else if c = CHR ''_'' then CHR ''/'' else c)"

definition b64url_enc :: "bytes \<Rightarrow> string" where
  \<comment> \<open>\<open>replace(/=+$/, '')\<close> drops every trailing \<open>=\<close>\<close>
  "b64url_enc bs = rev (dropWhile (\<lambda>c. c = CHR ''='') (rev (map url_sub (btoa bs))))"

definition b64url_dec :: "string \<Rightarrow> bytes throws" where
  "b64url_dec s = atob (map url_unsub s)"

definition generateInviteId :: "bytes \<Rightarrow> string" where
  \<comment> \<open>on six random bytes\<close>
  "generateInviteId random = b64url_enc (take 6 random)"

section \<open>Sealed blobs\<close>

type_synonym cipher = "bytes \<Rightarrow> bytes \<Rightarrow> bytes \<Rightarrow> bytes throws"

definition encryptBlob :: "cipher \<Rightarrow> bytes \<Rightarrow> bytes \<Rightarrow> bytes \<Rightarrow> bytes throws" where
  \<comment> \<open>\<open>iv\<close> is twelve random bytes\<close>
  "encryptBlob enc iv rawKey data = do { ct \<leftarrow> enc rawKey iv data; Some (iv @ ct) }"

definition decryptBlob :: "cipher \<Rightarrow> bytes \<Rightarrow> bytes \<Rightarrow> bytes throws" where
  "decryptBlob dec rawKey bs = dec rawKey (take 12 bs) (drop 12 bs)"

definition aead_opens :: "cipher \<Rightarrow> cipher \<Rightarrow> bool" where
  "aead_opens enc dec \<longleftrightarrow> (\<forall>k iv p c. enc k iv p = Some c \<longrightarrow> dec k iv c = Some p)"

section \<open>Query strings\<close>

definition form_safe :: "char \<Rightarrow> bool" where
  "form_safe c \<longleftrightarrow> c \<in> set ''ABCDEFGHIJKLMNOPQRSTUVWXYZabcdefghijklmnopqrstuvwxyz0123456789*-._''"

definition hex_upper :: "nat \<Rightarrow> char" where
  "hex_upper d = ''0123456789ABCDEF'' ! d"

definition form_byte :: "char \<Rightarrow> string" where
  "form_byte b =
     (if form_safe b then [b] else if b = CHR '' '' then ''+''
      else [CHR ''%'', hex_upper (code b div 16), hex_upper (code b mod 16)])"

definition form_encode :: "string \<Rightarrow> string" where
  "form_encode s = concat (map form_byte (utf8_enc s))"

definition hex_val :: "char \<Rightarrow> nat option" where
  "hex_val c = (let l = lower_char c in if is_digit 16 l then Some (digit_val l) else None)"

fun pct_decode :: "bytes \<Rightarrow> bytes" where
  "pct_decode (p # a # b # r) =
     (if p = CHR ''%'' then
        (case (hex_val a, hex_val b) of
           (Some x, Some y) \<Rightarrow> char_of (16 * x + y) # pct_decode r
         | _ \<Rightarrow> p # pct_decode (a # b # r))
      else p # pct_decode (a # b # r))"
| "pct_decode r = r"

definition form_decode :: "string \<Rightarrow> string throws" where
  "form_decode s = utf8_dec (pct_decode (map (\<lambda>c. if c = CHR ''+'' then CHR '' '' else c) (utf8_enc s)))"

fun split_on :: "char \<Rightarrow> string \<Rightarrow> string list" where
  "split_on d [] = [[]]"
| "split_on d (c # s) =
     (if c = d then [] # split_on d s
      else case split_on d s of [] \<Rightarrow> [[c]] | w # ws \<Rightarrow> (c # w) # ws)"

definition form_pair :: "string \<Rightarrow> string throws \<times> string throws" where
  "form_pair p =
     (form_decode (takeWhile (\<lambda>c. c \<noteq> CHR ''='') p), form_decode (drop 1 (dropWhile (\<lambda>c. c \<noteq> CHR ''='') p)))"

definition search_get :: "string \<Rightarrow> string \<Rightarrow> string option" where
  \<comment> \<open>\<open>new URLSearchParams(search).get(name)\<close>; a value with characters above 255 counts as absent\<close>
  "search_get search name =
     (let q = (if search \<noteq> [] \<and> hd search = CHR ''?'' then tl search else search);
          ps = map form_pair (filter (\<lambda>p. p \<noteq> []) (split_on (CHR ''&'') q))
      in case find (\<lambda>p. fst p = Some name) ps of Some p \<Rightarrow> snd p | None \<Rightarrow> None)"

section \<open>Links\<close>

record location =
  origin :: string
  pathname :: string
  search :: string
  hash :: string

definition key_char :: "char \<Rightarrow> bool" where
  "key_char c \<longleftrightarrow> c \<in> set ''ABCDEFGHIJKLMNOPQRSTUVWXYZabcdefghijklmnopqrstuvwxyz0123456789_-''"

fun match_key :: "string \<Rightarrow> string option" where
  \<comment> \<open>the group of \<open>/k=([A-Za-z0-9_-]+)/\<close>, leftmost match\<close>
  "match_key [] = None"
| "match_key (c # s) =
     (let g = takeWhile key_char (drop 1 s)
      in if c = CHR ''k'' \<and> take 1 s = ''='' \<and> g \<noteq> [] then Some g else match_key s)"

definition parseInviteUrl :: "location \<Rightarrow> (string \<times> string) option" where
  "parseInviteUrl loc =
     (case (search_get (search loc) ''j'', match_key (hash loc)) of
        (Some i, Some k) \<Rightarrow> if i = [] then None else Some (i, k)
      | _ \<Rightarrow> None)"

definition buildInviteUrl :: "location \<Rightarrow> string \<Rightarrow> bytes \<Rightarrow> string" where
  "buildInviteUrl loc i rawKey =
     origin loc @ pathname loc @ ''?'' @ ''j='' @ form_encode i @ ''#k='' @ b64url_enc rawKey"

definition visit :: "string \<Rightarrow> location" where
  \<comment> \<open>what a browser that opens a URL of plain characters shows as its location; only the parts read here\<close>
  "visit url =
     (let before = takeWhile (\<lambda>c. c \<noteq> CHR ''#'') url
      in \<lparr>origin = [], pathname = takeWhile (\<lambda>c. c \<noteq> CHR ''?'') before,
          search = dropWhile (\<lambda>c. c \<noteq> CHR ''?'') before, hash = dropWhile (\<lambda>c. c \<noteq> CHR ''#'') url\<rparr>)"

section \<open>The encoding round trip\<close>

lemma url_unsub_sub: "c \<in> set b64_chars \<Longrightarrow> url_unsub (url_sub c) = c"
  by (auto simp: b64_chars_def url_sub_def url_unsub_def)

lemma url_sub_key: "c \<in> set b64_chars \<Longrightarrow> key_char (url_sub c)"
  by (simp add: b64_chars_def) (elim disjE; simp add: url_sub_def key_char_def)

lemma key_char_not_pad: "key_char c \<Longrightarrow> c \<noteq> CHR ''=''"
  by (auto simp: key_char_def)

abbreviation url_sextets :: "bytes \<Rightarrow> string" where
  "url_sextets bs \<equiv> map url_sub (map sextet_char (sextets_of bs))"

lemma url_sextets_key: "\<forall>c \<in> set (url_sextets bs). key_char c"
  using sextets_lt [of bs] sextet_char_in url_sub_key by auto

lemma dropWhile_none: "\<forall>c \<in> set s. \<not> P c \<Longrightarrow> dropWhile P s = s"
  by (cases s) auto

lemma b64url_enc_sextets: "b64url_enc bs = url_sextets bs"
proof -
  let ?P = "\<lambda>c. c = CHR ''=''"
  have pad: "\<forall>c \<in> set (rev (map url_sub (pad_of bs))). ?P c"
    using pad_cases [of bs] by (auto simp: url_sub_def)
  have "\<forall>c \<in> set (rev (url_sextets bs)). \<not> ?P c"
    unfolding set_rev using url_sextets_key [of bs] key_char_not_pad by blast
  then have "dropWhile ?P (rev (url_sextets bs)) = rev (url_sextets bs)" by (rule dropWhile_none)
  then show ?thesis
    using dropWhile_append2 [of "rev (map url_sub (pad_of bs))" ?P "rev (url_sextets bs)"] pad
    by (simp add: b64url_enc_def btoa_parts)
qed

lemma map_unsub_sub: "\<forall>c \<in> set s. c \<in> set b64_chars \<Longrightarrow> map url_unsub (map url_sub s) = s"
  using url_unsub_sub by (induction s) simp_all

lemma drop_not_pad: "CHR ''='' \<notin> set s \<Longrightarrow> drop n s \<noteq> CHR ''='' # t"
  by (metis in_set_dropD list.set_intros(1))

lemma strip_pad_none: "CHR ''='' \<notin> set s \<Longrightarrow> strip_pad s = s"
  by (simp add: strip_pad_def drop_not_pad)

lemma b64url_enc_dec: "b64url_dec (b64url_enc bs) = Some bs"
proof -
  let ?s = "map sextet_char (sextets_of bs)"
  have in_chars: "\<forall>c \<in> set ?s. c \<in> set b64_chars" using sextets_lt [of bs] sextet_char_in by auto
  then have "map url_unsub (b64url_enc bs) = ?s"
    unfolding b64url_enc_sextets list.map_comp using url_unsub_sub by (simp only: map_unsub_sub list.map_comp [symmetric])
  moreover have "filter (\<lambda>c. \<not> ascii_space c) ?s = ?s" using in_chars b64_chars_plain by (intro filter_True) blast
  moreover have "strip_pad ?s = ?s" using in_chars b64_chars_plain by (intro strip_pad_none) blast
  ultimately show ?thesis by (simp add: b64url_dec_def atob_def mapM_sextets sextets_lt sextets_bytes_of)
qed

lemma b64url_enc_key: "bs \<noteq> [] \<Longrightarrow> b64url_enc bs \<noteq> [] \<and> (\<forall>c \<in> set (b64url_enc bs). key_char c)"
proof -
  assume "bs \<noteq> []"
  then have "sextets_of bs \<noteq> []" by (cases bs rule: sextets_of.cases) auto
  then show ?thesis using url_sextets_key [of bs] unfolding b64url_enc_sextets by simp
qed

lemma blob_roundtrip:
  assumes "aead_opens enc dec" and "length iv = 12" and "encryptBlob enc iv k data = Some b"
  shows "decryptBlob dec k b = Some data"
  using assms by (auto simp: encryptBlob_def decryptBlob_def aead_opens_def bind_eq_Some_conv)

section \<open>The query round trip\<close>

lemma hex_upper_cases: "d < 16 \<Longrightarrow> hex_upper d \<in> set ''0123456789ABCDEF''"
  unfolding hex_upper_def by (rule nth_mem) simp

lemma lower_hex_upper: "d < 16 \<Longrightarrow> lower_char (hex_upper d) = digit_char d"
proof -
  have "list_all (\<lambda>d. lower_char (hex_upper d) = digit_char d) [0, 1, 2, 3, 4, 5, 6, 7, 8, 9, 10, 11, 12, 13, 14, 15]"
    by (simp add: hex_upper_def lower_char_def digit_char_def digit_chars_def char_of_eq_iff take_bit_eq_mod)
  moreover assume "d < 16"
  then have "d \<in> set [0, 1, 2, 3, 4, 5, 6, 7, 8, 9, 10, 11, 12, 13, 14, 15]"
    unfolding list.set insert_iff empty_iff by presburger
  ultimately show ?thesis unfolding list_all_iff by blast
qed

lemma hex_val_upper: "d < 16 \<Longrightarrow> hex_val (hex_upper d) = Some d"
  by (simp add: hex_val_def lower_hex_upper)

abbreviation unplus :: "string \<Rightarrow> string" where
  "unplus \<equiv> map (\<lambda>c. if c = CHR ''+'' then CHR '' '' else c)"

lemma form_safe_plain: "form_safe c \<Longrightarrow> c \<notin> {CHR ''%'', CHR ''+'', CHR ''&'', CHR ''='', CHR ''#'', CHR ''?'', CHR '' ''} \<and> code c < 128"
  unfolding form_safe_def list.set insert_iff by (elim disjE) simp_all

lemma hex_upper_plain: "d < 16 \<Longrightarrow> form_safe (hex_upper d)"
  by (drule hex_upper_cases, unfold list.set insert_iff) (elim disjE, simp_all add: form_safe_def)

lemma pct_decode_other: "p \<noteq> CHR ''%'' \<Longrightarrow> pct_decode (p # r) = p # pct_decode r"
  by (cases r; cases "tl r") auto

lemma code_nibbles: "code b div 16 < 16" "code b mod 16 < 16"
  by (rule less_mult_imp_div_less, simp add: code_lt) simp

lemma pct_decode_form_byte: "pct_decode (unplus (form_byte b) @ r) = b # pct_decode r"
proof -
  have d: "code b div 16 < 16" "code b mod 16 < 16" using code_nibbles by auto
  then have "hex_upper (code b div 16) \<noteq> CHR ''+''" "hex_upper (code b mod 16) \<noteq> CHR ''+''"
    using hex_upper_plain form_safe_plain by blast+
  then show ?thesis
    using form_safe_plain [of b] pct_decode_other d by (auto simp: form_byte_def hex_val_upper)
qed

lemma pct_decode_form: "pct_decode (unplus (concat (map form_byte bs))) = bs"
  by (induction bs) (simp_all add: pct_decode_form_byte)

lemma form_byte_plain: "c \<in> set (form_byte b) \<Longrightarrow> c \<notin> {CHR ''&'', CHR ''='', CHR ''#'', CHR ''?''} \<and> code c < 128"
proof -
  have "code b div 16 < 16" "code b mod 16 < 16" using code_nibbles by auto
  then show "c \<in> set (form_byte b) \<Longrightarrow> ?thesis"
    using form_safe_plain hex_upper_plain by (auto simp: form_byte_def split: if_splits)
qed

lemma form_encode_plain: "c \<in> set (form_encode s) \<Longrightarrow> c \<notin> {CHR ''&'', CHR ''='', CHR ''#'', CHR ''?''} \<and> code c < 128"
  using form_byte_plain by (fastforce simp: form_encode_def)

lemma utf8_enc_ascii: "\<forall>c \<in> set s. code c < 128 \<Longrightarrow> utf8_enc s = s"
  by (induction s) (simp_all add: utf8_enc_def utf8_char_def)

lemma form_decode_encode: "form_decode (form_encode s) = Some s"
proof -
  have "utf8_enc (form_encode s) = form_encode s" using form_encode_plain by (intro utf8_enc_ascii) blast
  then show ?thesis by (simp add: form_decode_def form_encode_def pct_decode_form utf8_enc_dec)
qed

lemma split_on_none: "d \<notin> set s \<Longrightarrow> split_on d s = [s]"
  by (induction s) auto

lemma cut_at:
  "x \<notin> set xs \<Longrightarrow> takeWhile (\<lambda>c. c \<noteq> x) (xs @ x # ys) = xs \<and> dropWhile (\<lambda>c. c \<noteq> x) (xs @ x # ys) = x # ys"
  by (induction xs) auto

lemma search_get_single:
  assumes "CHR ''='' \<notin> set n" and "form_encode n = n" and "CHR ''&'' \<notin> set n"
  shows "search_get (CHR ''?'' # n @ CHR ''='' # form_encode v) n = Some v"
proof -
  have "CHR ''&'' \<notin> set (n @ CHR ''='' # form_encode v)" using assms(3) form_encode_plain by auto
  moreover have "takeWhile (\<lambda>c. c \<noteq> CHR ''='') (n @ CHR ''='' # form_encode v) = n"
    "dropWhile (\<lambda>c. c \<noteq> CHR ''='') (n @ CHR ''='' # form_encode v) = CHR ''='' # form_encode v"
    using cut_at [OF assms(1)] by blast+
  moreover have "form_decode n = Some n" using form_decode_encode [of n] by (simp add: assms(2))
  ultimately show ?thesis by (simp add: search_get_def split_on_none form_pair_def form_decode_encode)
qed

lemma match_key_here: "g \<noteq> [] \<Longrightarrow> \<forall>c \<in> set g. key_char c \<Longrightarrow> match_key (CHR ''#'' # CHR ''k'' # CHR ''='' # g) = Some g"
  by (simp add: takeWhile_eq_all_conv [THEN iffD2] Let_def)

lemma visit_link:
  assumes "CHR ''#'' \<notin> set (base @ query)" and "CHR ''?'' \<notin> set base"
  shows "search (visit (base @ CHR ''?'' # query @ CHR ''#'' # frag)) = CHR ''?'' # query"
    "hash (visit (base @ CHR ''?'' # query @ CHR ''#'' # frag)) = CHR ''#'' # frag"
proof -
  let ?u = "base @ CHR ''?'' # query @ CHR ''#'' # frag"
  have "takeWhile (\<lambda>c. c \<noteq> CHR ''#'') ?u = base @ CHR ''?'' # query"
    "dropWhile (\<lambda>c. c \<noteq> CHR ''#'') ?u = CHR ''#'' # frag"
    using cut_at [of "CHR ''#''" "base @ CHR ''?'' # query" frag] assms(1) by simp_all
  moreover have "dropWhile (\<lambda>c. c \<noteq> CHR ''?'') (base @ CHR ''?'' # query) = CHR ''?'' # query"
    using cut_at [OF assms(2)] by blast
  ultimately show "search (visit ?u) = CHR ''?'' # query" "hash (visit ?u) = CHR ''#'' # frag"
    by (simp_all add: visit_def Let_def)
qed

text \<open>
  An invite link delivers the invitation and keeps its key off the network. Opening the link a member
  built gives back the invite id, whatever characters it has, and the fragment decodes to the very key the
  blob was sealed under; and everything before the fragment, which is all a browser sends, is the same
  whatever the key.
\<close>

theorem invite_link_roundtrip:
  assumes "CHR ''#'' \<notin> set (origin loc @ pathname loc)" and "CHR ''?'' \<notin> set (origin loc @ pathname loc)"
    and "i \<noteq> []" and "k \<noteq> []"
  shows "parseInviteUrl (visit (buildInviteUrl loc i k)) = Some (i, b64url_enc k) \<and>
    b64url_dec (b64url_enc k) = Some k \<and>
    (\<forall>k'. takeWhile (\<lambda>c. c \<noteq> CHR ''#'') (buildInviteUrl loc i k') = takeWhile (\<lambda>c. c \<noteq> CHR ''#'') (buildInviteUrl loc i k))"
proof -
  let ?base = "origin loc @ pathname loc" and ?q = "''j='' @ form_encode i"
  have build: "buildInviteUrl loc i k' = ?base @ CHR ''?'' # ?q @ CHR ''#'' # ''k='' @ b64url_enc k'" for k'
    by (simp add: buildInviteUrl_def)
  have hashless: "CHR ''#'' \<notin> set (?base @ ?q)" using assms(1) form_encode_plain by auto
  have "form_encode ''j'' = ''j''" by (simp add: form_encode_def utf8_enc_def utf8_char_def form_byte_def form_safe_def)
  then have "search_get (CHR ''?'' # ?q) ''j'' = Some i" using search_get_single [of "''j''" i] by simp
  moreover have "match_key (CHR ''#'' # ''k='' @ b64url_enc k) = Some (b64url_enc k)"
    using b64url_enc_key [OF assms(4)] match_key_here by simp
  ultimately have "parseInviteUrl (visit (buildInviteUrl loc i k)) = Some (i, b64url_enc k)"
    using assms(3) visit_link [OF hashless assms(2)] by (simp add: build parseInviteUrl_def)
  moreover have "takeWhile (\<lambda>c. c \<noteq> CHR ''#'') (buildInviteUrl loc i k') = ?base @ CHR ''?'' # ?q" for k'
    unfolding build using cut_at [of "CHR ''#''" "?base @ CHR ''?'' # ?q"] hashless by simp
  ultimately show ?thesis by (simp add: b64url_enc_dec)
qed

theorem invite_link_roundtrip_witness:
  "parseInviteUrl (visit (buildInviteUrl \<lparr>origin = ''https://q.example'', pathname = ''/'', search = [], hash = []\<rparr> ''a b'' ''key'')) =
     Some (''a b'', b64url_enc ''key'')"
  using invite_link_roundtrip [of "\<lparr>origin = ''https://q.example'', pathname = ''/'', search = [], hash = []\<rparr>" "''a b''" "''key''"]
  by simp

end
