(* ===== verification/Handover.thy ===== *)
theory Handover
  imports Invite "HOL-Library.Word"
begin

unbundle bit_operations_syntax

text \<open>
  Moving an identity to another device: \<open>client/src/lib/link.js\<close> (a fresh device shows a link with an ephemeral
  public key, a signed-in one seals the identity to it) and \<open>client/src/lib/recovery.js\<close> (the identity wrapped
  under a generated code). The primitives are parameters: \<open>dh\<close> is ECDH on P-256 (which throws on a malformed
  public key), \<open>hkdf\<close> derives the AES key from the shared bits and a label, \<open>sha\<close> is SHA-256, \<open>pbkdf2\<close> derives
  a key from a code and a salt. Key pairs, nonces and salts are arguments.
\<close>

section \<open>Linking a device\<close>

definition INFO :: bytes where
  "INFO = utf8_enc ''quorum/device-link/v1''"

definition PUB_LEN :: nat where "PUB_LEN = 65"
definition IV_LEN :: nat where "IV_LEN = 12"

definition sharedKey :: "('p \<Rightarrow> bytes \<Rightarrow> bytes throws) \<Rightarrow> (bytes \<Rightarrow> bytes \<Rightarrow> bytes) \<Rightarrow> 'p \<Rightarrow> bytes \<Rightarrow> bytes throws" where
  "sharedKey dh hkdf privateKey peerPubRaw = do { bits \<leftarrow> dh privateKey peerPubRaw; Some (hkdf bits INFO) }"

definition byte32 :: "char \<Rightarrow> 32 word" where
  "byte32 c = of_nat (code c)"

definition code_number :: "bytes \<Rightarrow> 32 word" where
  \<comment> \<open>\<open>(h[0] << 16) | (h[1] << 8) | h[2]\<close> on 32-bit integers\<close>
  "code_number h = push_bit 16 (byte32 (h ! 0)) OR push_bit 8 (byte32 (h ! 1)) OR byte32 (h ! 2)"

definition padStart :: "nat \<Rightarrow> char \<Rightarrow> string \<Rightarrow> string" where
  "padStart n c s = replicate (n - length s) c @ s"

definition verifyCode :: "(bytes \<Rightarrow> bytes) \<Rightarrow> bytes \<Rightarrow> string" where
  "verifyCode sha pubRaw = padStart 6 (CHR ''0'') (nat_str (unat (code_number (sha pubRaw)) mod 1000000))"

record 'p link_offer =
  lo_url :: string
  lo_blobId :: string
  lo_privateKey :: 'p
  lo_pub :: bytes
  lo_code :: string

definition createLinkOffer :: "(bytes \<Rightarrow> bytes) \<Rightarrow> string \<Rightarrow> 'p \<times> bytes \<Rightarrow> bytes \<Rightarrow> 'p link_offer" where
  \<comment> \<open>on a fresh key pair and 18 random bytes\<close>
  "createLinkOffer sha orig kp random =
     (let blobId = b64url_enc (take 18 random)
      in \<lparr>lo_url = orig @ ''/?link='' @ blobId @ ''#k='' @ b64url_enc (snd kp), lo_blobId = blobId,
          lo_privateKey = fst kp, lo_pub = snd kp, lo_code = verifyCode sha (snd kp)\<rparr>)"

definition parseLinkUrl :: "location \<Rightarrow> (string \<times> bytes) option throws" where
  \<comment> \<open>the outer \<open>None\<close> is the throw of a malformed key\<close>
  "parseLinkUrl loc =
     (case (search_get (search loc) ''link'', match_key (hash loc)) of
        (Some i, Some k) \<Rightarrow> if i = [] then Some None else do { pub \<leftarrow> b64url_dec k; Some (Some (i, pub)) }
      | _ \<Rightarrow> Some None)"

definition sealIdentity ::
  "('p \<Rightarrow> bytes \<Rightarrow> bytes throws) \<Rightarrow> (bytes \<Rightarrow> bytes \<Rightarrow> bytes) \<Rightarrow> cipher \<Rightarrow> (bytes \<Rightarrow> bytes) \<Rightarrow> 'p \<times> bytes \<Rightarrow> bytes \<Rightarrow>
     bytes \<Rightarrow> bytes \<Rightarrow> (bytes \<times> string) throws" where
  \<comment> \<open>with the ephemeral pair \<open>eph\<close> and the nonce \<open>iv\<close>\<close>
  "sealIdentity dh hkdf enc sha eph iv pubRaw identity =
     do { key \<leftarrow> sharedKey dh hkdf (fst eph) pubRaw;
          ct \<leftarrow> enc key iv identity;
          Some (snd eph @ iv @ ct, verifyCode sha pubRaw) }"

definition openSealed ::
  "('p \<Rightarrow> bytes \<Rightarrow> bytes throws) \<Rightarrow> (bytes \<Rightarrow> bytes \<Rightarrow> bytes) \<Rightarrow> cipher \<Rightarrow> 'p \<Rightarrow> bytes \<Rightarrow> bytes throws" where
  "openSealed dh hkdf dec privateKey payload =
     (if length payload < PUB_LEN + IV_LEN then None
      else do { key \<leftarrow> sharedKey dh hkdf privateKey (take PUB_LEN payload);
                dec key (take IV_LEN (drop PUB_LEN payload)) (drop (PUB_LEN + IV_LEN) payload) })"

section \<open>The recovery key\<close>

definition ALPHABET :: string where
  "ALPHABET = ''ABCDEFGHJKMNPQRSTVWXYZ23456789''"

definition generateCode :: "bytes \<Rightarrow> string" where
  \<comment> \<open>on sixteen random bytes\<close>
  "generateCode raw =
     (let chars = map (\<lambda>b. ALPHABET ! (code b mod length ALPHABET)) (take 16 raw)
      in take 4 chars @ ''-'' @ take 4 (drop 4 chars) @ ''-'' @ take 4 (drop 8 chars) @ ''-'' @ take 4 (drop 12 chars))"

definition upper_char :: "char \<Rightarrow> string" where
  \<comment> \<open>\<open>toUpperCase\<close>; the two characters whose capital lies above 255 (181 and 255) are left alone\<close>
  "upper_char c =
     (let n = code c
      in if 97 \<le> n \<and> n \<le> 122 \<or> 224 \<le> n \<and> n \<le> 254 \<and> n \<noteq> 247 then [char_of (n - 32)]
         else if n = 223 then ''SS'' else [c])"

definition toUpperCase :: "string \<Rightarrow> string" where
  "toUpperCase s = concat (map upper_char s)"

definition code_bytes :: "string \<Rightarrow> bytes" where
  \<comment> \<open>\<open>code.replaceAll('-', '').toUpperCase()\<close> as bytes\<close>
  "code_bytes s = utf8_enc (toUpperCase (filter (\<lambda>c. c \<noteq> CHR ''-'') s))"

definition deriveKey :: "(bytes \<Rightarrow> bytes \<Rightarrow> bytes) \<Rightarrow> string \<Rightarrow> bytes \<Rightarrow> bytes" where
  "deriveKey pbkdf2 s salt = pbkdf2 (code_bytes s) salt"

definition fromB64 :: "jsval \<Rightarrow> bytes throws" where
  "fromB64 v = do { s \<leftarrow> to_str v; atob s }"

definition wrapIdentity :: "(bytes \<Rightarrow> bytes \<Rightarrow> bytes) \<Rightarrow> cipher \<Rightarrow> bytes \<Rightarrow> bytes \<Rightarrow> bytes \<Rightarrow> string \<Rightarrow> bytes throws" where
  \<comment> \<open>with the random \<open>salt\<close> and \<open>iv\<close>\<close>
  "wrapIdentity pbkdf2 enc salt iv identity s =
     do { ct \<leftarrow> enc (deriveKey pbkdf2 s salt) iv identity;
          Some (utf8_enc (stringify (JObj [(''v'', JNum (Fin 1)), (''kdf'', JStr ''PBKDF2-SHA256-310k''),
            (''salt'', JStr (btoa salt)), (''iv'', JStr (btoa iv)), (''ct'', JStr (btoa ct))]))) }"

definition unwrapIdentity :: "(bytes \<Rightarrow> bytes \<Rightarrow> bytes) \<Rightarrow> cipher \<Rightarrow> bytes \<Rightarrow> string \<Rightarrow> bytes throws" where
  "unwrapIdentity pbkdf2 dec fileBytes s =
     do { txt \<leftarrow> utf8_dec fileBytes;
          file \<leftarrow> parse_json txt;
          v \<leftarrow> jget file ''v'';
          if v \<noteq> JNum (Fin 1) then None
          else do { salt \<leftarrow> fromB64 (oprop file ''salt'');
                    iv \<leftarrow> fromB64 (oprop file ''iv'');
                    ct \<leftarrow> fromB64 (oprop file ''ct'');
                    dec (deriveKey pbkdf2 s salt) iv ct } }"

section \<open>What linking promises\<close>

lemma length_nat_str_le: "n < 10 ^ k \<Longrightarrow> 0 < k \<Longrightarrow> length (nat_str n) \<le> k"
proof (induction k arbitrary: n)
  case (Suc k)
  show ?case
  proof (cases "n < 10")
    case True
    then show ?thesis by (subst radix_str.simps) simp
  next
    case False
    then have "0 < k" using Suc.prems by (cases k) auto
    moreover have "n div 10 < 10 ^ k" using Suc.prems(1) by (simp add: div_less_iff_less_mult mult.commute)
    ultimately have "length (nat_str (n div 10)) \<le> k" by (rule Suc.IH [rotated])
    then show ?thesis using False by (subst radix_str.simps) simp
  qed
qed simp

lemma verifyCode_shape: "length (verifyCode sha pub) = 6 \<and> list_all (is_digit 10) (verifyCode sha pub)"
proof -
  have "unat (code_number (sha pub)) mod 1000000 < 10 ^ 6" by simp
  from length_nat_str_le [OF this] show ?thesis
    using nat_str_digits zero_digit by (auto simp: verifyCode_def padStart_def list_all_iff)
qed

lemma link_handover:
  assumes "aead_opens enc dec" and "dh offer_priv eph_pub = dh eph_priv offer_pub" and "length eph_pub = 65" and "length iv = 12"
    and "sealIdentity dh hkdf enc sha (eph_priv, eph_pub) iv offer_pub identity = Some (payload, c)"
  shows "openSealed dh hkdf dec offer_priv payload = Some identity \<and> c = verifyCode sha offer_pub"
proof -
  from assms(5) obtain key ct where key: "sharedKey dh hkdf eph_priv offer_pub = Some key"
    and ct: "enc key iv identity = Some ct" and payload: "payload = eph_pub @ iv @ ct" and c: "c = verifyCode sha offer_pub"
    by (auto simp: sealIdentity_def bind_eq_Some_conv)
  have "sharedKey dh hkdf offer_priv eph_pub = Some key" using key assms(2) by (simp add: sharedKey_def)
  moreover have "dec key iv ct = Some identity" using assms(1) ct by (simp add: aead_opens_def)
  ultimately show ?thesis
    using assms(3,4) c by (simp add: openSealed_def payload PUB_LEN_def IV_LEN_def)
qed

lemma key_char_safe: "key_char c \<Longrightarrow> form_safe c"
  unfolding key_char_def form_safe_def by (erule rev_subsetD) simp

lemma form_encode_safe: "\<forall>c \<in> set s. form_safe c \<Longrightarrow> form_encode s = s"
proof -
  assume safe: "\<forall>c \<in> set s. form_safe c"
  then have "utf8_enc s = s" using form_safe_plain by (intro utf8_enc_ascii) blast
  moreover have "concat (map form_byte s) = s" using safe by (induction s) (simp_all add: form_byte_def)
  ultimately show ?thesis by (simp add: form_encode_def)
qed

lemma offer_link:
  assumes "CHR ''#'' \<notin> set orig" and "CHR ''?'' \<notin> set orig" and "random \<noteq> []" and "snd kp \<noteq> []"
  shows "parseLinkUrl (visit (lo_url (createLinkOffer sha orig kp random))) =
    Some (Some (lo_blobId (createLinkOffer sha orig kp random), snd kp))"
proof -
  let ?b = "b64url_enc (take 18 random)" and ?base = "orig @ ''/''"
  have "take 18 random \<noteq> []" using assms(3) by simp
  from b64url_enc_key [OF this] have b: "?b \<noteq> []" "\<forall>c \<in> set ?b. key_char c" by blast+
  then have safe: "\<forall>c \<in> set ?b. form_safe c" using key_char_safe by blast
  then have enc: "form_encode ?b = ?b" by (rule form_encode_safe)
  have "CHR ''#'' \<notin> set (?base @ ''link='' @ ?b)" using assms(1) safe form_safe_plain by auto
  moreover have "CHR ''?'' \<notin> set ?base" using assms(2) by simp
  ultimately have v: "search (visit (?base @ CHR ''?'' # (''link='' @ ?b) @ CHR ''#'' # ''k='' @ b64url_enc (snd kp))) = CHR ''?'' # ''link='' @ ?b"
    "hash (visit (?base @ CHR ''?'' # (''link='' @ ?b) @ CHR ''#'' # ''k='' @ b64url_enc (snd kp))) = CHR ''#'' # ''k='' @ b64url_enc (snd kp)"
    by (rule visit_link)+
  have "form_encode ''link'' = ''link''" by (simp add: form_encode_def utf8_enc_def utf8_char_def form_byte_def form_safe_def)
  then have g: "search_get (CHR ''?'' # ''link='' @ ?b) ''link'' = Some ?b"
    using search_get_single [of "''link''" ?b] enc by simp
  have k: "match_key (CHR ''#'' # ''k='' @ b64url_enc (snd kp)) = Some (b64url_enc (snd kp))"
    using b64url_enc_key [OF assms(4)] match_key_here by simp
  have url: "lo_url (createLinkOffer sha orig kp random) = ?base @ CHR ''?'' # (''link='' @ ?b) @ CHR ''#'' # ''k='' @ b64url_enc (snd kp)"
    by (simp add: createLinkOffer_def Let_def)
  have "parseLinkUrl (visit (?base @ CHR ''?'' # (''link='' @ ?b) @ CHR ''#'' # ''k='' @ b64url_enc (snd kp))) = Some (Some (?b, snd kp))"
    unfolding parseLinkUrl_def v g k using b(1) by (simp add: b64url_enc_dec)
  then show ?thesis unfolding url by (simp add: createLinkOffer_def Let_def)
qed

text \<open>
  Linking a device hands over the identity, whole and to the right screen. The signed-in device that opens
  the offered link reads the rendezvous id and the public key the new device made; whatever it then seals to
  that key the new device opens to the very same bytes, both screens show the same six digits, and a
  payload too short to hold a key and a nonce is refused.
\<close>

theorem device_link_delivers:
  assumes "aead_opens enc dec" and "dh (fst kp) (snd eph) = dh (fst eph) (snd kp)"
    and "length (snd eph) = 65" and "length iv = 12" and "snd kp \<noteq> []" and "random \<noteq> []"
    and "CHR ''#'' \<notin> set orig" and "CHR ''?'' \<notin> set orig"
    and "offer = createLinkOffer sha orig kp random"
    and "sealIdentity dh hkdf enc sha eph iv (lo_pub offer) identity = Some (payload, c)"
  shows "parseLinkUrl (visit (lo_url offer)) = Some (Some (lo_blobId offer, lo_pub offer)) \<and>
    openSealed dh hkdf dec (lo_privateKey offer) payload = Some identity \<and>
    c = lo_code offer \<and> length c = 6 \<and> list_all (is_digit 10) c \<and>
    (\<forall>p. length p < 77 \<longrightarrow> openSealed dh hkdf dec (lo_privateKey offer) p = None)"
proof -
  have offer: "lo_pub offer = snd kp" "lo_privateKey offer = fst kp" "lo_code offer = verifyCode sha (snd kp)"
    by (simp_all add: assms(9) createLinkOffer_def Let_def)
  obtain ep eq where eph: "eph = (ep, eq)" by fastforce
  have "openSealed dh hkdf dec (fst kp) payload = Some identity \<and> c = verifyCode sha (snd kp)"
    using assms(2-4,10) offer(1) by (intro link_handover [OF assms(1)]) (simp_all add: eph)
  moreover have "openSealed dh hkdf dec (lo_privateKey offer) p = None" if "length p < 77" for p
    using that by (simp add: openSealed_def PUB_LEN_def IV_LEN_def)
  ultimately show ?thesis
    using offer offer_link [OF assms(7,8,6,5)] verifyCode_shape [of sha "snd kp"] assms(9) by simp
qed

definition example_enc :: cipher where
  "example_enc k iv p = Some (rev p)"

definition example_dh :: "bytes \<Rightarrow> bytes \<Rightarrow> bytes throws" where
  "example_dh a b = Some [char_of (length a + length b)]"

lemma example_aead: "aead_opens example_enc example_enc"
  by (simp add: aead_opens_def example_enc_def)

abbreviation example_offer :: "bytes link_offer" where
  "example_offer \<equiv> createLinkOffer rev ''https://q.example'' (''p'', replicate 65 (CHR ''a'')) ''random''"

theorem device_link_delivers_witness:
  "\<exists>payload c. sealIdentity example_dh (@) example_enc rev (''e'', replicate 65 (CHR ''b'')) (replicate 12 (CHR ''n''))
      (lo_pub example_offer) ''me'' = Some (payload, c) \<and>
     openSealed example_dh (@) example_enc (lo_privateKey example_offer) payload = Some ''me''"
proof -
  let ?eph = "(''e'', replicate 65 (CHR ''b''))" and ?kp = "(''p'', replicate 65 (CHR ''a''))"
  obtain payload c where run: "sealIdentity example_dh (@) example_enc rev ?eph (replicate 12 (CHR ''n'')) (lo_pub example_offer) ''me'' = Some (payload, c)"
    by (simp add: sealIdentity_def sharedKey_def example_dh_def example_enc_def)
  have dh: "example_dh (fst ?kp) (snd ?eph) = example_dh (fst ?eph) (snd ?kp)" by (simp add: example_dh_def)
  have "openSealed example_dh (@) example_enc (lo_privateKey example_offer) payload = Some ''me''"
    using device_link_delivers [OF example_aead dh _ _ _ _ _ _ refl run] by simp
  with run show ?thesis by blast
qed

section \<open>What the recovery file promises\<close>

lemma recovery_file_parses:
  "parse_json (stringify (JObj [(''v'', JNum (Fin 1)), (''kdf'', JStr a), (''salt'', JStr b), (''iv'', JStr c), (''ct'', JStr d)])) =
     Some (JObj [(''v'', JNum (Fin 1)), (''kdf'', JStr a), (''salt'', JStr b), (''iv'', JStr c), (''ct'', JStr d)])"
  by (subst parse_stringify) (simp_all add: entries_def is_index_def is_digit_def digit_chars_def)

lemma recovery_opens:
  assumes "aead_opens enc dec" and "wrapIdentity pbkdf2 enc salt iv identity s = Some file" and "code_bytes typed = code_bytes s"
  shows "unwrapIdentity pbkdf2 dec file typed = Some identity"
proof -
  from assms(2) obtain ct where ct: "enc (deriveKey pbkdf2 s salt) iv identity = Some ct"
    and out: "file = utf8_enc (stringify (JObj [(''v'', JNum (Fin 1)), (''kdf'', JStr ''PBKDF2-SHA256-310k''),
            (''salt'', JStr (btoa salt)), (''iv'', JStr (btoa iv)), (''ct'', JStr (btoa ct))]))"
    by (auto simp: wrapIdentity_def bind_eq_Some_conv)
  have "dec (deriveKey pbkdf2 typed salt) iv ct = Some identity"
    using assms(1,3) ct by (simp add: aead_opens_def deriveKey_def)
  then show ?thesis
    by (simp add: unwrapIdentity_def out utf8_enc_dec recovery_file_parses jget_def fromB64_def atob_btoa del: stringify.simps)
qed

lemma alphabet_upper: "c \<in> set ALPHABET \<Longrightarrow> upper_char c = [c] \<and> upper_char (lower_char c) = [c] \<and> lower_char c \<noteq> CHR ''-''"
proof -
  have "list_all (\<lambda>c. upper_char c = [c] \<and> upper_char (lower_char c) = [c] \<and> lower_char c \<noteq> CHR ''-'') ALPHABET"
    by (simp add: ALPHABET_def upper_char_def lower_char_def char_of_eq_iff take_bit_eq_mod)
  then show "c \<in> set ALPHABET \<Longrightarrow> ?thesis" by (simp add: list_all_iff)
qed

lemma generateCode_chars: "c \<in> set (generateCode raw) \<Longrightarrow> c \<in> set ALPHABET \<or> c = CHR ''-''"
proof -
  have len: "length ALPHABET = 30" by (simp add: ALPHABET_def)
  have "ALPHABET ! (code b mod length ALPHABET) \<in> set ALPHABET" for b by (rule nth_mem) (simp add: len)
  then show "c \<in> set (generateCode raw) \<Longrightarrow> ?thesis"
    by (auto simp: generateCode_def Let_def dest!: in_set_takeD in_set_dropD)
qed

lemma code_bytes_lower: "\<forall>c \<in> set s. c \<in> set ALPHABET \<or> c = CHR ''-'' \<Longrightarrow> code_bytes (toLowerCase s) = code_bytes s"
proof -
  assume a: "\<forall>c \<in> set s. c \<in> set ALPHABET \<or> c = CHR ''-''"
  have dash: "lower_char (CHR ''-'') = CHR ''-''" by (simp add: lower_char_def)
  have "concat (map upper_char (filter (\<lambda>c. c \<noteq> CHR ''-'') (map lower_char s))) =
      concat (map upper_char (filter (\<lambda>c. c \<noteq> CHR ''-'') s))"
    using a by (induction s) (auto simp: dash alphabet_upper)
  then show ?thesis by (simp add: code_bytes_def toUpperCase_def toLowerCase_def)
qed

text \<open>
  The recovery code opens the recovery file however it is typed. The identity wrapped under a generated
  code comes back byte for byte from the file and that code, with or without its dashes and in either case.
\<close>

theorem recovery_roundtrip:
  assumes "aead_opens enc dec" and "wrapIdentity pbkdf2 enc salt iv identity (generateCode raw) = Some file"
    and "typed \<in> {generateCode raw, filter (\<lambda>c. c \<noteq> CHR ''-'') (generateCode raw), toLowerCase (generateCode raw)}"
  shows "unwrapIdentity pbkdf2 dec file typed = Some identity"
proof (rule recovery_opens [OF assms(1,2)])
  show "code_bytes typed = code_bytes (generateCode raw)"
    using assms(3) generateCode_chars [of _ raw] code_bytes_lower [of "generateCode raw"]
    by (auto simp: code_bytes_def)
qed

theorem recovery_roundtrip_witness:
  "\<exists>file. wrapIdentity (@) example_enc ''salt'' ''iv'' ''me'' (generateCode ''sixteen-byte-rnd'') = Some file \<and>
     unwrapIdentity (@) example_enc file (toLowerCase (generateCode ''sixteen-byte-rnd'')) = Some ''me''"
proof -
  obtain f where run: "wrapIdentity (@) example_enc ''salt'' ''iv'' ''me'' (generateCode ''sixteen-byte-rnd'') = Some f"
    by (simp add: wrapIdentity_def example_enc_def)
  from recovery_roundtrip [OF example_aead run, of "toLowerCase (generateCode ''sixteen-byte-rnd'')"] run show ?thesis by auto
qed

end
