(* ===== verification/History.thy ===== *)
theory History
  imports ChannelLog Circles Invite
begin

text \<open>
  The crypto of a channel's log, \<open>client/src/lib/history.js\<close>: the canonical JSON that is signed, the bytes of a
  signature, sealing and opening an entry, what a page of entries is worth given a key directory, and the
  backup blob. AES-GCM, SHA-256 and the worker's \<open>sign\<close> and \<open>verifyBatch\<close> are parameters.
\<close>

section \<open>What is signed\<close>

definition LOG_ENTRY_VERSION :: jsval where "LOG_ENTRY_VERSION = JNum (Fin 1)"

definition SIGNING_CONTEXT :: string where "SIGNING_CONTEXT = ''quorum-log-entry-v1''"

definition FIELD_SEP :: string where "FIELD_SEP = [CHR 0x00]"

definition generateHistoryId :: "bytes \<Rightarrow> string" where
  "generateHistoryId random = b64url_enc (take 12 random)"

definition generateHistoryKey :: "bytes \<Rightarrow> string" where
  "generateHistoryKey random = b64_enc (take 32 random)"

fun canonicalJson :: "jsval \<Rightarrow> string" where
  "canonicalJson (JArr vs) = CHR 0x5B # join '','' (map canonicalJson vs) @ [CHR 0x5D]"
| "canonicalJson (JObj kvs) =
     CHR 0x7B # join '','' (map (\<lambda>(k, v). json_str k @ '':'' @ v)
       (sort_key fst (map (\<lambda>(k, v). (k, canonicalJson v)) (filter (\<lambda>(k, v). \<not> is_undef v) kvs)))) @ [CHR 0x7D]"
| "canonicalJson v = stringify (coalesce v JNull)"

definition entrySigningBytes :: "string \<Rightarrow> string \<Rightarrow> jsval dict \<Rightarrow> bytes" where
  "entrySigningBytes grp hid entry =
     utf8_enc (join FIELD_SEP [SIGNING_CONTEXT, grp, hid, canonicalJson (JObj (ddel entry ''sig''))])"

section \<open>Sealing and opening\<close>

definition sealed_entry :: "(bytes \<Rightarrow> bytes throws) \<Rightarrow> string \<Rightarrow> string \<Rightarrow> jsval dict \<Rightarrow> jsval dict throws" where
  \<comment> \<open>\<open>{ v: LOG_ENTRY_VERSION, ...entry }\<close> and its signature\<close>
  "sealed_entry sign grp hid entry =
     (let body = assign [(''v'', LOG_ENTRY_VERSION)] (entries entry)
      in do { sig \<leftarrow> sign (entrySigningBytes grp hid body);
              Some (AList.update ''sig'' (JStr (b64_enc sig)) body) })"

definition sealLogEntry ::
  "cipher \<Rightarrow> bytes \<Rightarrow> string \<Rightarrow> string \<Rightarrow> string \<Rightarrow> jsval dict \<Rightarrow> (bytes \<Rightarrow> bytes throws) \<Rightarrow> string throws" where
  "sealLogEntry enc iv hkeyB64 grp hid entry sign =
     do { sealed \<leftarrow> sealed_entry sign grp hid entry;
          key \<leftarrow> b64_dec hkeyB64;
          blob \<leftarrow> encryptBlob enc iv key (utf8_enc (stringify (JObj sealed)));
          Some (b64_enc blob) }"

definition openLogEntry :: "cipher \<Rightarrow> string \<Rightarrow> string \<Rightarrow> jsval throws" where
  "openLogEntry dec hkeyB64 payloadB64 =
     do { key \<leftarrow> b64_dec hkeyB64;
          blob \<leftarrow> b64_dec payloadB64;
          plain \<leftarrow> decryptBlob dec key blob;
          txt \<leftarrow> utf8_dec plain;
          parse_json txt }"

section \<open>Verdicts\<close>

record check =
  chk_key :: bytes
  chk_message :: bytes
  chk_sig :: bytes

datatype answer = Verdict auth | Pending check

definition key_for :: "string dict \<Rightarrow> jsval \<Rightarrow> string option throws" where
  \<comment> \<open>\<open>keys?.[sender]\<close>; what an object inherits is no base64 text, so decoding it throws\<close>
  "key_for ks sender =
     do { who \<leftarrow> to_str sender;
          case dget ks who of Own k \<Rightarrow> Some (if k = [] then None else Some k) | Proto \<Rightarrow> None | Absent \<Rightarrow> Some None }"

definition judge_entry :: "string \<Rightarrow> string \<Rightarrow> string dict \<Rightarrow> jsval \<Rightarrow> answer throws" where
  "judge_entry grp hid ks entry =
     (case entry of
        JObj kvs \<Rightarrow>
          (case oprop entry ''sig'' of
             JStr sig \<Rightarrow>
               do { k \<leftarrow> key_for ks (oprop entry ''sender'');
                    case k of None \<Rightarrow> Some (Verdict Unknown)
                    | Some key \<Rightarrow> do { kb \<leftarrow> b64_dec key; sb \<leftarrow> b64_dec sig;
                         Some (Pending \<lparr>chk_key = kb, chk_message = entrySigningBytes grp hid kvs, chk_sig = sb\<rparr>) } }
           | _ \<Rightarrow> Some (Verdict Unsigned))
      | _ \<Rightarrow> Some (Verdict Unsigned))"

fun checks_of :: "answer list \<Rightarrow> check list" where
  "checks_of [] = []"
| "checks_of (Verdict a # vs) = checks_of vs"
| "checks_of (Pending c # vs) = c # checks_of vs"

fun settle :: "answer list \<Rightarrow> bool list \<Rightarrow> auth list" where
  \<comment> \<open>the running index into the answers; an answer that is missing reads as \<open>undefined\<close>, not verified\<close>
  "settle [] rs = []"
| "settle (Verdict a # vs) rs = a # settle vs rs"
| "settle (Pending c # vs) (r # rs) = (if r then Signed else Forged) # settle vs rs"
| "settle (Pending c # vs) [] = Forged # settle vs []"

definition verifyEntries ::
  "string \<Rightarrow> string \<Rightarrow> jsval list \<Rightarrow> string dict \<Rightarrow> (check list \<Rightarrow> bool list throws) \<Rightarrow> auth list throws" where
  "verifyEntries grp hid es ks verifyBatch =
     do { vs \<leftarrow> mapM (judge_entry grp hid ks) es;
          if checks_of vs = [] then Some (settle vs [])
          else do { rs \<leftarrow> verifyBatch (checks_of vs); Some (settle vs rs) } }"

section \<open>Fingerprints and the backup\<close>

definition messageFingerprint :: "jsval \<Rightarrow> string throws" where
  "messageFingerprint m =
     do { f \<leftarrow> jget m ''file'';
          body \<leftarrow> (if truthy f then do { b \<leftarrow> jget f ''blob''; s \<leftarrow> to_str b; Some (''f:'' @ s) }
                  else if truthy (oprop m ''game'') then do { s \<leftarrow> to_str (oprop (oprop m ''game'') ''id''); Some (''g:'' @ s) }
                  else do { s \<leftarrow> str_prop m ''text''; Some (''t:'' @ s) });
          who \<leftarrow> to_str (oprop m ''sender'');
          ts \<leftarrow> to_str (oprop m ''ts'');
          Some (who @ ''|'' @ ts @ ''|'' @ body) }"

definition deriveBackupKey :: "(bytes \<Rightarrow> bytes) \<Rightarrow> bytes \<Rightarrow> bytes" where
  "deriveBackupKey sha identityBytes = sha (utf8_enc ''quorum-circles-backup-v1'' @ identityBytes)"

definition sealBackup :: "(bytes \<Rightarrow> bytes) \<Rightarrow> cipher \<Rightarrow> bytes \<Rightarrow> bytes \<Rightarrow> jsval \<Rightarrow> string throws" where
  "sealBackup sha enc iv identityBytes rec =
     do { blob \<leftarrow> encryptBlob enc iv (deriveBackupKey sha identityBytes) (utf8_enc (stringify rec)); Some (b64_enc blob) }"

definition openBackup :: "(bytes \<Rightarrow> bytes) \<Rightarrow> cipher \<Rightarrow> bytes \<Rightarrow> string \<Rightarrow> jsval throws" where
  "openBackup sha dec identityBytes payloadB64 =
     do { blob \<leftarrow> b64_dec payloadB64;
          plain \<leftarrow> decryptBlob dec (deriveBackupKey sha identityBytes) blob;
          txt \<leftarrow> utf8_dec plain;
          parse_json txt }"

section \<open>Canonical form\<close>

fun canon :: "jsval \<Rightarrow> jsval" where
  "canon JUndef = JNull"
| "canon (JNum n) = (if is_finite n then JNum n else JNull)"
| "canon (JArr vs) = JArr (map canon vs)"
| "canon (JObj kvs) = JObj (sort_key fst (map (\<lambda>(k, v). (k, canon v)) (filter (\<lambda>(k, v). \<not> is_undef v) kvs)))"
| "canon v = v"

lemma sort_fields_map: "sort_key fst (map (\<lambda>(k, v). (k, f v)) d) = map (\<lambda>(k, v). (k, f v)) (sort_key fst d)"
  using map_sort_key [of "\<lambda>(k, v). (k, f v)" fst d] by (simp add: case_prod_unfold)

lemma canonicalJson_render: "canonicalJson v = render (canon v)"
proof (induction v rule: canonicalJson.induct)
  case (1 vs)
  then have "map canonicalJson vs = map (render \<circ> canon) vs" by simp
  then show ?case by (simp only: canonicalJson.simps canon.simps render.simps list.map_comp)
next
  case (2 kvs)
  define ks where "ks = filter (\<lambda>(k, v). \<not> is_undef v) kvs"
  have "canonicalJson v = render (canon v)" if "(k, v) \<in> set ks" for k v using 2 that by (auto simp: ks_def)
  then have "map (\<lambda>(k, v). (k, canonicalJson v)) ks = map (\<lambda>(k, v). (k, render (canon v))) ks" by auto
  then have "sort_key fst (map (\<lambda>(k, v). (k, canonicalJson v)) ks) = map (\<lambda>(k, v). (k, render (canon v))) (sort_key fst ks)"
    using sort_fields_map [of "\<lambda>v. render (canon v)" ks] by (simp only:)
  then show ?case
    unfolding canonicalJson.simps canon.simps render.simps ks_def [symmetric] sort_fields_map
    by (simp only: list.map_comp o_def) (simp add: case_prod_unfold)
qed auto

lemma wireable_canon: "whole v \<Longrightarrow> wireable (canon v)"
proof (induction v rule: canon.induct)
  case (2 n)
  then show ?case by (cases n) auto
next
  case (4 kvs)
  let ?t = "map (\<lambda>(k, v). (k, canon v)) (filter (\<lambda>(k, v). \<not> is_undef v) kvs)"
  have fsts: "map fst ?t = map fst (filter (\<lambda>(k, v). \<not> is_undef v) kvs)" by (simp add: case_prod_unfold)
  have "mset (map fst (sort_key fst ?t)) = mset (map fst ?t)" by (simp only: mset_map mset_sort)
  then have "distinct (map fst (sort_key fst ?t))"
    using fsts "4.prems" by (metis distinct_map_filter mset_eq_imp_distinct_iff whole.simps(3))
  moreover have "\<forall>kv \<in> set ?t. wireable (snd kv)" using 4 by (auto simp: list_all_iff)
  ultimately show ?case by (simp add: list_all_iff)
qed (auto simp: list_all_iff)

lemma canonicalJson_inj: "whole v \<Longrightarrow> whole w \<Longrightarrow> canonicalJson v = canonicalJson w \<Longrightarrow> canon v = canon w"
  unfolding canonicalJson_render by (rule render_inj) (simp_all add: wireable_canon)

section \<open>A signature binds its place and its content\<close>

lemma canonicalJson_no_nul: "CHR 0x00 \<notin> set (canonicalJson v)"
  using render_visible [of "canon v"] by (auto simp: canonicalJson_render)

text \<open>
  C20: a signature cannot be moved or reworded. If the bytes signed for one entry in one log are the bytes
  signed for another, then it is the same circle, the same log and, field by field, the same entry: no entry
  signed for one place verifies in another, and no field can be added, dropped or changed under it. Circle
  and log ids contain no NUL, and numbers are whole.
\<close>

theorem signature_binds_place_and_content:
  assumes "entrySigningBytes g h e = entrySigningBytes g' h' e'"
    and "CHR 0x00 \<notin> set (g @ h @ g' @ h')" and "whole (JObj e)" and "whole (JObj e')"
  shows "g = g' \<and> h = h' \<and> canon (JObj (ddel e ''sig'')) = canon (JObj (ddel e' ''sig''))"
proof -
  let ?j = "canonicalJson (JObj (ddel e ''sig''))" and ?j' = "canonicalJson (JObj (ddel e' ''sig''))"
  have "SIGNING_CONTEXT @ CHR 0x00 # g @ CHR 0x00 # h @ CHR 0x00 # ?j = SIGNING_CONTEXT @ CHR 0x00 # g' @ CHR 0x00 # h' @ CHR 0x00 # ?j'"
    using assms(1) by (simp add: entrySigningBytes_def utf8_enc_inj FIELD_SEP_def)
  then have "g @ CHR 0x00 # h @ CHR 0x00 # ?j = g' @ CHR 0x00 # h' @ CHR 0x00 # ?j'" by simp
  then have g: "g = g'" and "h @ CHR 0x00 # ?j = h' @ CHR 0x00 # ?j'"
    using split_at_unique [of g "CHR 0x00" "h @ CHR 0x00 # ?j" g' "h' @ CHR 0x00 # ?j'"] assms(2) by auto
  then have h: "h = h'" and j: "?j = ?j'" using split_at_unique [of h "CHR 0x00" ?j h' ?j'] assms(2) by auto
  have "whole (JObj (ddel d ''sig''))" if "whole (JObj d)" for d
    using that by (simp add: ddel_def distinct_delete) (simp add: list_all_iff AList.delete_eq)
  with canonicalJson_inj [OF _ _ j] assms(3,4) g h show ?thesis by blast
qed

theorem signature_binds_place_and_content_witness:
  "entrySigningBytes ''circle'' ''log1'' [(''sender'', JStr ''ann''), (''text'', JStr ''hi'')] \<noteq>
   entrySigningBytes ''circle'' ''log2'' [(''sender'', JStr ''ann''), (''text'', JStr ''hi'')]"
  using signature_binds_place_and_content [of "''circle''" "''log1''" "[(''sender'', JStr ''ann''), (''text'', JStr ''hi'')]"
      "''circle''" "''log2''" "[(''sender'', JStr ''ann''), (''text'', JStr ''hi'')]"] by auto

section \<open>Verdicts, entry by entry\<close>

definition verdict_of :: "string \<Rightarrow> string \<Rightarrow> string dict \<Rightarrow> (check \<Rightarrow> bool) \<Rightarrow> jsval \<Rightarrow> auth throws" where
  \<comment> \<open>one entry on its own\<close>
  "verdict_of grp hid ks ok e =
     do { a \<leftarrow> judge_entry grp hid ks e;
          Some (case a of Verdict x \<Rightarrow> x | Pending c \<Rightarrow> if ok c then Signed else Forged) }"

definition answer_with :: "(check \<Rightarrow> bool) \<Rightarrow> answer \<Rightarrow> auth" where
  "answer_with ok a = (case a of Verdict x \<Rightarrow> x | Pending c \<Rightarrow> if ok c then Signed else Forged)"

lemma settle_batch: "settle vs (map ok (checks_of vs)) = map (answer_with ok) vs"
  by (induction vs rule: checks_of.induct) (simp_all add: answer_with_def)

lemma settle_no_checks: "checks_of vs = [] \<Longrightarrow> settle vs [] = map (answer_with ok) vs"
  by (induction vs rule: checks_of.induct) (simp_all add: answer_with_def)

lemma mapM_bind_Some: "mapM (\<lambda>x. do { y \<leftarrow> f x; Some (g y) }) xs = do { ys \<leftarrow> mapM f xs; Some (map g ys) }"
proof (induction xs)
  case (Cons x xs)
  then show ?case by (cases "f x"; cases "mapM f xs") simp_all
qed simp

lemma verifyEntries_each: "verifyEntries grp hid es ks (\<lambda>cs. Some (map ok cs)) = mapM (verdict_of grp hid ks ok) es"
proof -
  have "mapM (verdict_of grp hid ks ok) es = do { ys \<leftarrow> mapM (judge_entry grp hid ks) es; Some (map (answer_with ok) ys) }"
    using mapM_bind_Some [of "judge_entry grp hid ks" "answer_with ok" es]
    by (simp add: verdict_of_def [abs_def] answer_with_def [abs_def])
  then show ?thesis
    using settle_no_checks by (cases "mapM (judge_entry grp hid ks) es") (auto simp: verifyEntries_def settle_batch)
qed

lemma key_for_SomeD:
  assumes "key_for ks s = Some (Some key)"
  shows "\<exists>who. to_str s = Some who \<and> map_of ks who = Some key"
proof -
  from assms obtain who where "to_str s = Some who" by (auto simp: key_for_def bind_eq_Some_conv)
  with assms show ?thesis by (cases "dget ks who") (auto simp: key_for_def dget_Own_iff split: if_splits)
qed

lemma verdict_of_Signed:
  assumes "verdict_of grp hid ks ok e = Some Signed"
  shows "\<exists>kvs sig who key kb sb. e = JObj kvs \<and> oprop e ''sig'' = JStr sig \<and> to_str (oprop e ''sender'') = Some who \<and>
    map_of ks who = Some key \<and> b64_dec key = Some kb \<and> b64_dec sig = Some sb \<and>
    ok \<lparr>chk_key = kb, chk_message = entrySigningBytes grp hid kvs, chk_sig = sb\<rparr>"
proof (cases e)
  case (JObj kvs)
  then obtain sig where sig: "oprop e ''sig'' = JStr sig"
    using assms by (cases "oprop e ''sig''") (auto simp: verdict_of_def judge_entry_def)
  then obtain k where k: "key_for ks (oprop e ''sender'') = Some k"
    using assms JObj by (auto simp: verdict_of_def judge_entry_def bind_eq_Some_conv simp del: oprop.simps)
  then obtain key where key: "k = Some key"
    using assms JObj sig by (cases k) (auto simp: verdict_of_def judge_entry_def simp del: oprop.simps)
  then obtain who where who: "to_str (oprop e ''sender'') = Some who" "map_of ks who = Some key"
    using k key_for_SomeD by blast
  from assms JObj sig k key obtain kb sb where "b64_dec key = Some kb" "b64_dec sig = Some sb"
    "ok \<lparr>chk_key = kb, chk_message = entrySigningBytes grp hid kvs, chk_sig = sb\<rparr>"
    by (auto simp: verdict_of_def judge_entry_def bind_eq_Some_conv simp del: oprop.simps split: if_splits)
  with JObj sig who show ?thesis by blast
qed (use assms in \<open>simp_all add: verdict_of_def judge_entry_def\<close>)



section \<open>From the author to the reader\<close>

lemma sort_fields_unique:
  assumes "set xs = set ys" and "distinct (map fst xs)" and "distinct (map fst ys)"
  shows "sort_key fst xs = sort_key fst ys"
proof (rule map_sorted_distinct_set_unique [of fst])
  have "inj_on fst (set xs)" using assms(2) by (simp add: distinct_map)
  then show "inj_on fst (set (sort_key fst xs) \<union> set (sort_key fst ys))" using assms(1) by simp
  have "mset (map fst (sort_key fst zs)) = mset (map fst zs)" for zs :: "('a \<times> 'b) list" by (simp only: mset_map mset_sort)
  with assms(2,3) show "distinct (map fst (sort_key fst xs))" "distinct (map fst (sort_key fst ys))"
    by (metis mset_eq_imp_distinct_iff)+
qed (simp_all add: assms(1))

abbreviation defined :: "jsval dict \<Rightarrow> jsval dict" where
  "defined kvs \<equiv> filter (\<lambda>(k, v). \<not> is_undef v) kvs"

abbreviation tidied :: "jsval dict \<Rightarrow> jsval dict" where
  "tidied kvs \<equiv> entries (map (\<lambda>(k, v). (k, tidy v)) (defined kvs))"

lemma is_undef_tidy [simp]: "\<not> is_undef (tidy v)"
  by (cases v) auto

lemma distinct_tidied: "distinct (map fst kvs) \<Longrightarrow> distinct (map fst (tidied kvs))"
proof -
  have "map fst (map (\<lambda>(k, v). (k, f v)) d) = map fst d" for f :: "jsval \<Rightarrow> jsval" and d :: "jsval dict" by (simp add: case_prod_unfold)
  then show "distinct (map fst kvs) \<Longrightarrow> ?thesis" by (simp only: distinct_map_fst_entries distinct_map_filter)
qed

lemma canon_object_cong:
  assumes "(\<lambda>(k, v). (k, canon v)) ` set (defined xs) = (\<lambda>(k, v). (k, canon v)) ` set (defined ys)"
    and "distinct (map fst xs)" and "distinct (map fst ys)"
  shows "canon (JObj xs) = canon (JObj ys)"
proof -
  have fsts: "map fst (map (\<lambda>(k, v). (k, canon v)) d) = map fst d" for d by (simp add: case_prod_unfold)
  show ?thesis
    using assms by (simp only: canon.simps) (intro arg_cong [of _ _ JObj] sort_fields_unique, simp_all only: set_map fsts distinct_map_filter)
qed

lemma canon_tidy: "whole v \<Longrightarrow> canon (tidy v) = canon v"
proof (induction v rule: tidy.induct)
  case (4 kvs)
  have "canon (tidy v) = canon v" if "(k, v) \<in> set (defined kvs)" for k v using 4 that by (auto simp: list_all_iff)
  then have "(\<lambda>(k, v). (k, canon v)) ` set (defined (tidied kvs)) = (\<lambda>(k, v). (k, canon v)) ` set (defined kvs)" by force
  from canon_object_cong [OF this] "4.prems" distinct_tidied show ?case by simp
qed (auto simp: list_all_iff)

lemma defined_ddel: "defined (ddel kvs f) = ddel (defined kvs) f"
  by (simp add: ddel_def AList.delete_eq filter_filter conj_commute case_prod_unfold)

lemma signing_bytes_tidied:
  assumes "whole (JObj kvs)"
  shows "entrySigningBytes g h (tidied kvs) = entrySigningBytes g h kvs"
proof -
  have tidy: "canon (tidy v) = canon v" if "(k, v) \<in> set kvs" for k v
    using assms that by (intro canon_tidy) (auto simp: list_all_iff)
  have "canon (JObj (ddel (tidied kvs) ''sig'')) = canon (JObj (ddel kvs ''sig''))"
  proof (rule canon_object_cong)
    show "(\<lambda>(k, v). (k, canon v)) ` set (defined (ddel (tidied kvs) ''sig'')) = (\<lambda>(k, v). (k, canon v)) ` set (defined (ddel kvs ''sig''))"
      using tidy by (force simp: ddel_def AList.delete_eq)
  qed (use assms in \<open>simp_all only: whole.simps distinct_ddel distinct_tidied\<close>)
  then show ?thesis by (simp add: entrySigningBytes_def canonicalJson_render)
qed

lemma map_of_defined: "distinct (map fst kvs) \<Longrightarrow>
    map_of (defined kvs) f = (case map_of kvs f of Some v \<Rightarrow> if is_undef v then None else Some v | None \<Rightarrow> None)"
proof (induction kvs)
  case (Cons kv kvs)
  then have "map_of kvs (fst kv) = None" by (simp add: map_of_eq_None_iff)
  with Cons show ?case by (cases kv) (auto simp del: map_of_eq_None_iff split: option.splits)
qed simp

lemma oprop_tidied:
  assumes "distinct (map fst kvs)"
  shows "oprop (JObj (tidied kvs)) f = (case map_of kvs f of Some v \<Rightarrow> if is_undef v then JUndef else tidy v | None \<Rightarrow> JUndef)"
proof -
  let ?t = "map (\<lambda>(k, v). (k, tidy v)) (defined kvs)"
  have "distinct (map fst (entries ?t))" using assms by (rule distinct_tidied)
  with mset_map_of_eq(1) [OF mset_entries] have "map_of (entries ?t) f = map_of ?t f" by metis
  also have "\<dots> = map_option tidy (map_of (defined kvs) f)" by (simp add: map_of_map)
  finally show ?thesis by (simp add: map_of_defined [OF assms] split: option.split)
qed

lemma distinct_assign: "distinct (map fst d) \<Longrightarrow> distinct (map fst (assign d kvs))"
  by (induction kvs arbitrary: d) (auto simp: assign_def distinct_update)

lemma set_assign: "set (assign d kvs) \<subseteq> set d \<union> set kvs"
proof (induction kvs arbitrary: d)
  case (Cons kv kvs)
  obtain k v where kv: "kv = (k, v)" by fastforce
  have "set (assign d (kv # kvs)) \<subseteq> set (AList.update k v d) \<union> set kvs" using Cons [of "AList.update k v d"] by (simp add: assign_def kv)
  with set_update [of k v d] show ?case unfolding kv by auto
qed (simp add: assign_def)

lemma sealed_entry_SomeD:
  assumes "sealed_entry sign g h entry = Some sealed" and "whole (JObj entry)"
  shows "\<exists>s. sign (entrySigningBytes g h sealed) = Some s \<and> map_of sealed ''sig'' = Some (JStr (b64_enc s)) \<and>
    whole (JObj sealed) \<and> (\<forall>f v. f \<noteq> ''sig'' \<longrightarrow> map_of entry f = Some v \<longrightarrow> map_of sealed f = Some v) \<and>
    (\<forall>f. f \<notin> {''sig'', ''v''} \<longrightarrow> map_of sealed f = map_of entry f)"
proof -
  let ?body = "assign [(''v'', LOG_ENTRY_VERSION)] (entries entry)"
  from assms(1) obtain s where s: "sign (entrySigningBytes g h ?body) = Some s"
    and sealed: "sealed = AList.update ''sig'' (JStr (b64_enc s)) ?body"
    by (auto simp: sealed_entry_def Let_def bind_eq_Some_conv)
  have d: "distinct (map fst entry)" "distinct (map fst ?body)" using assms(2) by (auto intro: distinct_assign)
  have "ddel sealed ''sig'' = ddel ?body ''sig''" by (simp add: sealed ddel_def AList.delete_update_same)
  then have "entrySigningBytes g h sealed = entrySigningBytes g h ?body" by (simp add: entrySigningBytes_def)
  moreover have "whole (JObj sealed)"
  proof -
    have "whole v" if "(k, v) \<in> set sealed" for k v
    proof -
      have "(k, v) \<in> {(''sig'', JStr (b64_enc s)), (''v'', LOG_ENTRY_VERSION)} \<union> set entry"
        using that set_update [of "''sig''" "JStr (b64_enc s)" ?body] set_assign [of "[(''v'', LOG_ENTRY_VERSION)]" "entries entry"]
        unfolding sealed by auto
      with assms(2) show ?thesis by (auto simp: LOG_ENTRY_VERSION_def list_all_iff)
    qed
    then show ?thesis using d(2) by (auto simp: list_all_iff sealed distinct_update)
  qed
  moreover have rev: "map_of (rev (entries entry)) = map_of entry"
    using mset_map_of_eq(1) [of entry "rev (entries entry)"] d(1) by (simp add: mset_entries)
  moreover have "map_of sealed f = Some v" if "f \<noteq> ''sig''" "map_of entry f = Some v" for f v
    using that rev by (simp add: sealed update_conv' map_of_assign)
  moreover have "map_of sealed f = map_of entry f" if "f \<notin> {''sig'', ''v''}" for f
    using that rev by (simp add: sealed update_conv' map_of_assign map_add_def split: option.split)
  ultimately show ?thesis using s by (auto simp: sealed update_conv')
qed

lemma b64_enc_nonempty: "pk \<noteq> [] \<Longrightarrow> b64_enc pk \<noteq> []"
proof
  assume "pk \<noteq> []" "b64_enc pk = []"
  then have "b64_dec [] = Some pk" using b64_enc_dec [of pk] by simp
  then show False using \<open>pk \<noteq> []\<close> by (simp add: b64_dec_def atob_def strip_pad_def)
qed

lemma sealed_entry_opens:
  assumes "aead_opens enc dec" and "length iv = 12" and "whole (JObj entry)"
    and "sealLogEntry enc iv hk g h entry sign = Some payload"
    and "map_of entry ''sender'' = Some (JStr who)" and "map_of ks who = Some (b64_enc pk)" and "pk \<noteq> []"
    and "\<forall>m s. sign m = Some s \<longrightarrow> ok \<lparr>chk_key = pk, chk_message = m, chk_sig = s\<rparr>"
  shows "\<exists>e. openLogEntry dec hk payload = Some e \<and> truthy e \<and> verdict_of g h ks ok e = Some Signed \<and>
    (\<forall>f v. f \<noteq> ''sig'' \<longrightarrow> map_of entry f = Some v \<longrightarrow> \<not> is_undef v \<longrightarrow> oprop e f = tidy v) \<and>
    (\<forall>f. f \<notin> {''sig'', ''v''} \<longrightarrow> map_of entry f = None \<longrightarrow> oprop e f = JUndef)"
proof -
  from assms(4) obtain sealed key blob where sealed: "sealed_entry sign g h entry = Some sealed"
    and key: "b64_dec hk = Some key" and blob: "encryptBlob enc iv key (utf8_enc (stringify (JObj sealed))) = Some blob"
    and payload: "payload = b64_enc blob"
    by (auto simp: sealLogEntry_def bind_eq_Some_conv simp del: stringify.simps)
  from sealed_entry_SomeD [OF sealed assms(3)] obtain s where s: "sign (entrySigningBytes g h sealed) = Some s"
    "map_of sealed ''sig'' = Some (JStr (b64_enc s))" "whole (JObj sealed)"
    "\<And>f v. f \<noteq> ''sig'' \<Longrightarrow> map_of entry f = Some v \<Longrightarrow> map_of sealed f = Some v"
    "\<And>f. f \<notin> {''sig'', ''v''} \<Longrightarrow> map_of sealed f = map_of entry f" by blast
  then have d: "distinct (map fst sealed)" by simp
  let ?e = "JObj (tidied sealed)"
  have "openLogEntry dec hk payload = Some ?e"
    using blob_roundtrip [OF assms(1,2) blob] parse_stringify [OF s(3)] key
    by (simp add: openLogEntry_def payload b64_enc_dec utf8_enc_dec del: stringify.simps)
  moreover have f: "oprop ?e f = tidy v" if "f \<noteq> ''sig''" "map_of entry f = Some v" "\<not> is_undef v" for f v
    using that s(4) by (simp add: oprop_tidied [OF d] del: oprop.simps)
  moreover have "oprop ?e f = JUndef" if "f \<notin> {''sig'', ''v''}" "map_of entry f = None" for f
    using that s(5) [OF that(1)] by (simp add: oprop_tidied [OF d] del: oprop.simps)
  moreover have "verdict_of g h ks ok ?e = Some Signed"
  proof -
    have "oprop ?e ''sig'' = JStr (b64_enc s)" by (simp add: oprop_tidied [OF d] s(2) del: oprop.simps)
    moreover have "oprop ?e ''sender'' = JStr who" using f [OF _ assms(5)] by simp
    moreover have "key_for ks (JStr who) = Some (Some (b64_enc pk))"
      using assms(6,7) by (simp add: key_for_def dget_def b64_enc_nonempty)
    ultimately show ?thesis
      using assms(8) s(1) by (simp add: verdict_of_def judge_entry_def b64_enc_dec signing_bytes_tidied [OF s(3)] del: oprop.simps)
  qed
  ultimately show ?thesis by (intro exI [of _ ?e]) (simp del: oprop.simps)
qed

text \<open>
  What a member seals, another member reads and can attribute. With a cipher that decrypts what it
  encrypted and a signature the author's listed key verifies, opening a sealed entry under the room key gives
  back every field the author wrote, and the reader's verdict on it is \<open>Signed\<close>.
\<close>

theorem sealed_entry_reads_back_signed:
  assumes "aead_opens enc dec" and "length iv = 12" and "whole (JObj entry)"
    and "sealLogEntry enc iv hk g h entry sign = Some payload"
    and "map_of entry ''sender'' = Some (JStr who)" and "map_of ks who = Some (b64_enc pk)" and "pk \<noteq> []"
    and "\<forall>m s. sign m = Some s \<longrightarrow> ok \<lparr>chk_key = pk, chk_message = m, chk_sig = s\<rparr>"
  shows "\<exists>e. openLogEntry dec hk payload = Some e \<and> verifyEntries g h [e] ks (\<lambda>cs. Some (map ok cs)) = Some [Signed] \<and>
    (\<forall>f v. f \<noteq> ''sig'' \<longrightarrow> map_of entry f = Some v \<longrightarrow> \<not> is_undef v \<longrightarrow> oprop e f = tidy v)"
  using sealed_entry_opens [OF assms] by (fastforce simp: verifyEntries_each)

definition example_cipher :: cipher where
  "example_cipher k iv p = Some (rev p)"

definition example_line :: "jsval dict" where
  "example_line = [(''k'', JStr ''chat''), (''sender'', JStr ''ann''), (''ts'', JNum (Fin 5)), (''text'', JStr ''hi'')]"

theorem sealed_entry_reads_back_signed_witness:
  "\<exists>payload e. sealLogEntry example_cipher (replicate 12 (CHR ''n'')) (b64_enc ''room'') ''c'' ''log'' example_line (\<lambda>m. Some (rev m)) = Some payload \<and>
     openLogEntry example_cipher (b64_enc ''room'') payload = Some e \<and>
     verifyEntries ''c'' ''log'' [e] [(''ann'', b64_enc ''key'')] (\<lambda>cs. Some (map (\<lambda>c. chk_sig c = rev (chk_message c)) cs)) = Some [Signed]"
proof -
  have aead: "aead_opens example_cipher example_cipher" by (simp add: aead_opens_def example_cipher_def)
  have w: "whole (JObj example_line)" by (simp add: example_line_def)
  obtain payload where run: "sealLogEntry example_cipher (replicate 12 (CHR ''n'')) (b64_enc ''room'') ''c'' ''log'' example_line (\<lambda>m. Some (rev m)) = Some payload"
    by (simp add: sealLogEntry_def sealed_entry_def Let_def b64_enc_dec encryptBlob_def example_cipher_def del: stringify.simps)
  have who: "map_of example_line ''sender'' = Some (JStr ''ann'')" by (simp add: example_line_def)
  from sealed_entry_reads_back_signed [OF aead _ w run who, of "[(''ann'', b64_enc ''key'')]" "''key''" "\<lambda>c. chk_sig c = rev (chk_message c)"] run
  show ?thesis by fastforce
qed

lemma backup_roundtrip:
  assumes "aead_opens enc dec" and "length iv = 12" and "whole rec" and "sealBackup sha enc iv identity rec = Some payload"
  shows "openBackup sha dec identity payload = Some (tidy rec)"
proof -
  from assms(4) obtain blob where blob: "encryptBlob enc iv (deriveBackupKey sha identity) (utf8_enc (stringify rec)) = Some blob"
    and payload: "payload = b64_enc blob" by (auto simp: sealBackup_def bind_eq_Some_conv simp del: stringify.simps)
  from blob_roundtrip [OF assms(1,2) blob] parse_stringify [OF assms(3)] show ?thesis
    by (simp add: openBackup_def payload b64_enc_dec utf8_enc_dec)
qed

end
