(* ===== verification/Search.thy ===== *)
theory Search
  imports JS_Prelude
begin

text \<open>
  Local message search, \<open>client/src/lib/search.js\<close>: splitting a query into terms, matching, the preview line, and
  the ranked, truncated list of hits. The ellipsis the preview uses is not among the 256 characters of
  \<open>char\<close> and is a parameter.
\<close>

section \<open>Queries\<close>

definition SEARCH_LIMIT :: nat where "SEARCH_LIMIT = 40"
definition MIN_QUERY :: nat where "MIN_QUERY = 2"
definition SNIPPET_WIDTH :: nat where "SNIPPET_WIDTH = 72"

function scan_terms :: "string \<Rightarrow> string list" where
  \<comment> \<open>the matches of \<open>/"([^"]*)"|(\S+)/g\<close>, the group or the run\<close>
  "scan_terms s =
     (case s of [] \<Rightarrow> []
      | c # t \<Rightarrow>
          if is_space c then scan_terms t
          else if c = CHR 0x22 \<and> CHR 0x22 \<in> set t
          then takeWhile (\<lambda>x. x \<noteq> CHR 0x22) t # scan_terms (tl (dropWhile (\<lambda>x. x \<noteq> CHR 0x22) t))
          else (c # takeWhile (\<lambda>x. \<not> is_space x) t) # scan_terms (dropWhile (\<lambda>x. \<not> is_space x) t))"
  by pat_completeness auto

termination
  by (relation "measure length") (auto intro!: le_imp_less_Suc order_trans [OF diff_le_self] length_dropWhile_le)

declare scan_terms.simps [simp del]

definition parseQuery :: "string \<Rightarrow> string list" where
  "parseQuery query = filter (\<lambda>t. t \<noteq> []) (map toLowerCase (scan_terms query))"

fun indexOf :: "string \<Rightarrow> string \<Rightarrow> nat option" where
  \<comment> \<open>\<open>hay.indexOf(t)\<close>, \<open>None\<close> for \<open>-1\<close>\<close>
  "indexOf [] t = (if t = [] then Some 0 else None)"
| "indexOf (c # hay) t = (if take (length t) (c # hay) = t then Some 0 else map_option Suc (indexOf hay t))"

definition has_text :: "string \<Rightarrow> string \<Rightarrow> bool" where
  "has_text hay t \<longleftrightarrow> indexOf hay t \<noteq> None"

definition matchesTerms :: "string \<Rightarrow> string list \<Rightarrow> bool" where
  "matchesTerms txt terms = (if terms = [] then False else list_all (has_text (toLowerCase txt)) terms)"

section \<open>The preview line\<close>

definition firstHit :: "string \<Rightarrow> string list \<Rightarrow> nat option" where
  "firstHit txt terms =
     (let hay = toLowerCase txt
      in fold (\<lambda>t best. case indexOf hay t of
                 None \<Rightarrow> best
               | Some i \<Rightarrow> (case best of None \<Rightarrow> Some i | Some b \<Rightarrow> Some (if i < b then i else b))) terms None)"

function collapse :: "string \<Rightarrow> string" where
  \<comment> \<open>\<open>replace(/\s+/g, ' ')\<close>\<close>
  "collapse s =
     (case s of [] \<Rightarrow> []
      | c # t \<Rightarrow> if is_space c then CHR '' '' # collapse (dropWhile is_space t) else c # collapse t)"
  by pat_completeness auto

termination
  by (relation "measure length") (auto intro!: le_imp_less_Suc length_dropWhile_le)

declare collapse.simps [simp del]

record preview =
  pv_before :: string
  pv_match :: string
  pv_after :: string

definition longest :: "string list \<Rightarrow> string" where
  "longest ts = fold (\<lambda>b a. if length a < length b then b else a) ts []"

definition slice :: "nat \<Rightarrow> nat \<Rightarrow> string \<Rightarrow> string" where
  "slice i j s = take (j - i) (drop i s)"

definition snippet :: "string \<Rightarrow> string \<Rightarrow> string list \<Rightarrow> nat \<Rightarrow> preview" where
  "snippet dots txt terms width =
     (let src = trim (collapse txt)
      in case firstHit src terms of
           None \<Rightarrow> \<lparr>pv_before = (if width < length src then take width src @ dots else src), pv_match = [], pv_after = []\<rparr>
         | Some i \<Rightarrow>
             (let hit = longest (filter (\<lambda>t. take (length t) (drop i (toLowerCase src)) = t) terms);
                  pad = (width - length hit) div 2;
                  start = i - pad;
                  stop = min (length src) (i + length hit + pad)
              in \<lparr>pv_before = (if 0 < start then dots else []) @ slice start i src,
                  pv_match = slice i (i + length hit) src,
                  pv_after = slice (i + length hit) stop src @ (if stop < length src then dots else [])\<rparr>))"

section \<open>Ranking\<close>

definition searchableText :: "jsval \<Rightarrow> string throws" where
  "searchableText m =
     do { parts \<leftarrow> mapM to_str (filter truthy [oprop m ''text'', oprop (oprop m ''file'') ''name'']); Some (join '' '' parts) }"

record search_row =
  row_server :: string
  row_channel :: string
  row_message :: jsval

record search_hit =
  hit_server :: string
  hit_channel :: string
  hit_sender :: jsval
  hit_ts :: jsnum
  hit_snippet :: preview

definition hit_of :: "string \<Rightarrow> string list \<Rightarrow> search_row \<Rightarrow> search_hit option throws" where
  "hit_of dots terms row =
     (let m = row_message row
      in if \<not> truthy m \<or> truthy (oprop m ''system'') then Some None
         else do { txt \<leftarrow> searchableText m;
                   if \<not> matchesTerms txt terms then Some None
                   else do { ts \<leftarrow> num_prop m ''ts'';
                             Some (Some \<lparr>hit_server = row_server row, hit_channel = row_channel row,
                               hit_sender = oprop m ''sender'', hit_ts = (if num_truthy ts then ts else Fin 0),
                               hit_snippet = snippet dots txt terms SNIPPET_WIDTH\<rparr>) } })"

record results =
  res_hits :: "search_hit list"
  res_truncated :: bool

definition rankHits :: "string \<Rightarrow> search_row list \<Rightarrow> string \<Rightarrow> nat \<Rightarrow> results throws" where
  "rankHits dots rows query limit =
     (let terms = parseQuery query
      in if terms = [] \<or> length (trim query) < MIN_QUERY then Some \<lparr>res_hits = [], res_truncated = False\<rparr>
         else do { hs \<leftarrow> mapM (hit_of dots terms) rows;
                   let hits = sort_key (\<lambda>h. num_neg (hit_ts h)) (present hs);
                   Some \<lparr>res_hits = take limit hits, res_truncated = limit < length hits\<rparr> })"

section \<open>Indices\<close>

lemma indexOf_Some: "indexOf hay t = Some i \<Longrightarrow> take (length t) (drop i hay) = t \<and> i + length t \<le> length hay"
proof (induction hay arbitrary: i)
  case (Cons c hay)
  show ?case
  proof (cases "take (length t) (c # hay) = t")
    case True
    then have "length t \<le> length (c # hay)" by (metis length_take min.cobounded1)
    with True Cons.prems show ?thesis by auto
  next
    case False
    with Cons show ?thesis by auto
  qed
qed (auto split: if_splits)

lemma indexOf_least: "take (length t) (drop i hay) = t \<Longrightarrow> i \<le> length hay \<Longrightarrow> \<exists>j \<le> i. indexOf hay t = Some j"
proof (induction hay arbitrary: i)
  case (Cons c hay)
  show ?case
  proof (cases i)
    case 0
    with Cons.prems show ?thesis by simp
  next
    case (Suc k)
    with Cons.IH [of k] Cons.prems show ?thesis by auto
  qed
qed simp

lemma has_text_iff: "has_text hay t \<longleftrightarrow> (\<exists>i \<le> length hay. take (length t) (drop i hay) = t)"
  using indexOf_Some indexOf_least unfolding has_text_def by (metis add_leD1 not_None_eq)

lemma matchesTerms_append: "ts \<noteq> [] \<Longrightarrow> us \<noteq> [] \<Longrightarrow> matchesTerms x (ts @ us) \<longleftrightarrow> matchesTerms x ts \<and> matchesTerms x us"
  by (simp add: matchesTerms_def)

section \<open>What a search returns\<close>

definition found :: "string list \<Rightarrow> search_row \<Rightarrow> bool" where
  \<comment> \<open>a line somebody wrote that contains every term\<close>
  "found terms row \<longleftrightarrow> truthy (row_message row) \<and> \<not> truthy (oprop (row_message row) ''system'') \<and>
     (\<exists>txt. searchableText (row_message row) = Some txt \<and> matchesTerms txt terms)"

lemma hit_of_found: "hit_of dots terms row = Some h \<Longrightarrow> (h \<noteq> None) = found terms row"
  by (auto simp: hit_of_def found_def Let_def bind_eq_Some_conv split: if_splits)

lemma hit_of_place:
  "hit_of dots terms row = Some (Some h) \<Longrightarrow>
     hit_server h = row_server row \<and> hit_channel h = row_channel row \<and> hit_sender h = oprop (row_message row) ''sender''"
  by (auto simp: hit_of_def Let_def bind_eq_Some_conv split: if_splits)

lemma length_present_found: "mapM (hit_of dots terms) rows = Some hs \<Longrightarrow> length (present hs) = length (filter (found terms) rows)"
proof (induction rows arbitrary: hs)
  case (Cons r rows)
  then obtain h hs' where h: "hit_of dots terms r = Some h" "mapM (hit_of dots terms) rows = Some hs'" "hs = h # hs'"
    by (auto simp: bind_eq_Some_conv)
  with Cons.IH [OF h(2)] hit_of_found [OF h(1)] show ?case by (cases h) auto
qed simp

lemma rankHits_returns: "mapM (hit_of dots (parseQuery query)) rows = Some hs \<Longrightarrow> \<exists>r. rankHits dots rows query limit = Some r"
  by (simp add: rankHits_def Let_def)

lemma num_neg_le: "a \<noteq> NaN \<Longrightarrow> b \<noteq> NaN \<Longrightarrow> num_neg a \<le> num_neg b \<longleftrightarrow> b \<le> a"
  by (cases a; cases b) (simp_all add: less_eq_jsnum_def)

lemma hit_ts_number: "hit_of dots terms row = Some (Some h) \<Longrightarrow> hit_ts h \<noteq> NaN"
  by (auto simp: hit_of_def Let_def bind_eq_Some_conv num_truthy_def split: if_splits)

text \<open>
  Search is exact and honest about its cut. Every hit is a line somebody wrote that contains every term of
  the query, at its own place; hits come newest first and at most \<open>limit\<close> of them; the result says it was cut
  exactly when more lines match than are shown; and one more word never finds more.
\<close>

theorem search_is_exact:
  assumes "rankHits dots rows query limit = Some r" and "parseQuery query \<noteq> []" and "MIN_QUERY \<le> length (trim query)"
  shows "(\<forall>h \<in> set (res_hits r). \<exists>row \<in> set rows. found (parseQuery query) row \<and>
        hit_server h = row_server row \<and> hit_channel h = row_channel row \<and> hit_sender h = oprop (row_message row) ''sender'') \<and>
    sorted_wrt (\<lambda>a b. hit_ts b \<le> hit_ts a) (res_hits r) \<and>
    length (res_hits r) = min limit (length (filter (found (parseQuery query)) rows)) \<and>
    (res_truncated r \<longleftrightarrow> limit < length (filter (found (parseQuery query)) rows)) \<and>
    (\<forall>more row. found (parseQuery query @ more) row \<longrightarrow> found (parseQuery query) row)"
proof -
  let ?ts = "parseQuery query"
  from assms obtain hs where hs: "mapM (hit_of dots ?ts) rows = Some hs"
    and r: "r = \<lparr>res_hits = take limit (sort_key (\<lambda>h. num_neg (hit_ts h)) (present hs)),
      res_truncated = limit < length (sort_key (\<lambda>h. num_neg (hit_ts h)) (present hs))\<rparr>"
    by (auto simp: rankHits_def Let_def bind_eq_Some_conv)
  have each: "\<exists>row \<in> set rows. hit_of dots ?ts row = Some (Some h)" if "h \<in> set (present hs)" for h
    using that mapM_Some_set [OF hs] by simp
  have hits: "\<exists>row \<in> set rows. found ?ts row \<and> hit_server h = row_server row \<and> hit_channel h = row_channel row \<and>
      hit_sender h = oprop (row_message row) ''sender''" if "h \<in> set (res_hits r)" for h
  proof -
    have "h \<in> set (present hs)" using that by (auto simp: r simp del: set_present dest: in_set_takeD)
    from each [OF this] obtain row where "row \<in> set rows" and row: "hit_of dots ?ts row = Some (Some h)" by blast
    with hit_of_found [OF row] hit_of_place [OF row] show ?thesis by auto
  qed
  let ?s = "sort_key (\<lambda>h. num_neg (hit_ts h)) (present hs)"
  have "sorted_wrt (\<lambda>a b. num_neg (hit_ts a) \<le> num_neg (hit_ts b)) ?s"
    using sorted_sort_key [of "\<lambda>h. num_neg (hit_ts h)" "present hs"] by (simp add: sorted_wrt_map)
  moreover have "\<forall>h \<in> set ?s. hit_ts h \<noteq> NaN" unfolding set_sort using each hit_ts_number by blast
  ultimately have "sorted_wrt (\<lambda>a b. hit_ts b \<le> hit_ts a) ?s"
    using sorted_wrt_mono_rel [of ?s "\<lambda>a b. num_neg (hit_ts a) \<le> num_neg (hit_ts b)" "\<lambda>a b. hit_ts b \<le> hit_ts a"] num_neg_le by blast
  then have "sorted_wrt (\<lambda>a b. hit_ts b \<le> hit_ts a) (res_hits r)" by (simp add: r sorted_wrt_take)
  moreover have "found ?ts row" if "found (?ts @ more) row" for more row
    using that assms(2) matchesTerms_append [of ?ts more] by (cases "more = []") (auto simp: found_def)
  ultimately show ?thesis using hits length_present_found [OF hs] by (auto simp: r)
qed

theorem search_is_exact_witness:
  "\<exists>r. rankHits [] [\<lparr>row_server = ''c'', row_channel = ''general'', row_message = JObj [(''text'', JStr ''Hello there''), (''ts'', JNum (Fin 5))]\<rparr>] ''hello'' 40 = Some r \<and>
     \<not> res_truncated r"
proof -
  let ?row = "\<lparr>row_server = ''c'', row_channel = ''general'', row_message = JObj [(''text'', JStr ''Hello there''), (''ts'', JNum (Fin 5))]\<rparr>"
  have q: "parseQuery ''hello'' = [''hello'']"
    by (simp add: parseQuery_def scan_terms.simps is_space_def toLowerCase_def lower_char_def)
  have "\<exists>h. hit_of [] [''hello''] ?row = Some h"
    by (cases "matchesTerms ''Hello there'' [''hello'']") (simp_all add: hit_of_def searchableText_def num_prop_def Let_def)
  then obtain h where "hit_of [] [''hello''] ?row = Some h" by blast
  then have "mapM (hit_of [] [''hello'']) [?row] = Some [h]" by simp
  then obtain r where run: "rankHits [] [?row] ''hello'' 40 = Some r" using rankHits_returns [of _ "''hello''"] unfolding q by blast
  from search_is_exact [OF run] have "res_truncated r \<longleftrightarrow> 40 < length (filter (found [''hello'']) [?row])"
    by (simp add: q MIN_QUERY_def trim_def is_space_def)
  moreover have "length (filter (found [''hello'']) [?row]) \<le> length [?row]" by (rule length_filter_le)
  ultimately show ?thesis using run by (intro exI [of _ r]) simp
qed

end
