(* ===== verification/Calls.thy ===== *)
theory Calls
  imports JS_Prelude
begin

text \<open>
  The contract the relay connection and the worker client share: calls are numbered, each number is handed out
  once, and a step settles some of the calls it found pending or just issued and leaves the others pending.
  What follows for whole histories is proved once here, for any client of that contract.
\<close>

fun run_steps :: "('e \<Rightarrow> 's \<Rightarrow> 's \<times> 'o list) \<Rightarrow> 'e list \<Rightarrow> 's \<Rightarrow> 's \<times> 'o list" where
  \<comment> \<open>a history of events, with everything the client put out along the way\<close>
  "run_steps step [] s = (s, [])"
| "run_steps step (e # es) s = (let (s', os) = step e s; (s'', os') = run_steps step es s' in (s'', os @ os'))"

definition settled_by :: "('o \<Rightarrow> nat option) \<Rightarrow> 'o list \<Rightarrow> nat list" where
  "settled_by settles os = present (map settles os)"

lemma present_append: "present (a @ b) = present a @ present b"
proof (induction a)
  case (Cons x a)
  then show ?case by (cases x) simp_all
qed simp

lemma settled_by_append [simp]: "settled_by settles (a @ b) = settled_by settles a @ settled_by settles b"
  by (simp add: settled_by_def present_append)

lemma run_steps_append:
  "run_steps step (es @ es') s =
     (let (s', os) = run_steps step es s; (s'', os') = run_steps step es' s' in (s'', os @ os'))"
  by (induction es arbitrary: s) (simp_all add: Let_def case_prod_unfold)

lemma count_list_distinct: "distinct xs \<Longrightarrow> x \<in> set xs \<Longrightarrow> count_list xs x = 1"
  by (induction xs) (auto simp: count_list_0_iff)

locale numbered_calls =
  fixes step :: "'e \<Rightarrow> 's \<Rightarrow> 's \<times> 'o list"
    and pend :: "'s \<Rightarrow> nat list"
    and next_id :: "'s \<Rightarrow> nat"
    and settles :: "'o \<Rightarrow> nat option"
    and start :: 's
    and ends :: "'e \<Rightarrow> nat \<Rightarrow> bool"
  assumes start_empty: "pend start = []"
    and start_id: "next_id start = 1"
    and ids_grow: "next_id s \<le> next_id (fst (step e s))"
    and keeps_order: "distinct (pend s) \<Longrightarrow> set (pend s) \<subseteq> {1..<next_id s} \<Longrightarrow> 1 \<le> next_id s \<Longrightarrow> distinct (pend (fst (step e s)))"
    and accounts: "distinct (pend s) \<Longrightarrow> set (pend s) \<subseteq> {1..<next_id s} \<Longrightarrow> 1 \<le> next_id s \<Longrightarrow>
      distinct (present (map settles (snd (step e s)))) \<and>
      set (present (map settles (snd (step e s)))) \<inter> set (pend (fst (step e s))) = {} \<and>
      set (present (map settles (snd (step e s)))) \<union> set (pend (fst (step e s))) = set (pend s) \<union> {next_id s..<next_id (fst (step e s))}"
    and ends_settles: "distinct (pend s) \<Longrightarrow> set (pend s) \<subseteq> {1..<next_id s} \<Longrightarrow> 1 \<le> next_id s \<Longrightarrow> ends e r \<Longrightarrow>
      r < next_id s \<Longrightarrow> r \<notin> set (pend (fst (step e s)))"
begin

definition account_ok :: "'s \<Rightarrow> nat list \<Rightarrow> bool" where
  \<comment> \<open>every number handed out is pending or settled, never both, and settled at most once\<close>
  "account_ok s done \<longleftrightarrow> distinct (pend s) \<and> distinct done \<and> 1 \<le> next_id s \<and>
     set done \<inter> set (pend s) = {} \<and> set done \<union> set (pend s) = {1..<next_id s}"

lemma account_step:
  assumes "account_ok s done"
  shows "account_ok (fst (step e s)) (done @ settled_by settles (snd (step e s)))"
proof -
  let ?s = "fst (step e s)" and ?new = "settled_by settles (snd (step e s))"
  from assms have a: "distinct (pend s)" "distinct done" "1 \<le> next_id s" "set (pend s) \<subseteq> {1..<next_id s}"
    "set done \<inter> set (pend s) = {}" "set done \<union> set (pend s) = {1..<next_id s}"
    by (auto simp: account_ok_def)
  note acc = accounts [OF a(1,4,3), of e, folded settled_by_def] and d = keeps_order [OF a(1,4,3), of e]
  have grow: "next_id s \<le> next_id ?s" by (rule ids_grow)
  have fresh: "set ?new \<inter> set done = {}" "set (pend ?s) \<inter> set done = {}"
  proof -
    have "set ?new \<union> set (pend ?s) = set (pend s) \<union> {next_id s..<next_id ?s}" using acc by blast
    moreover have "set done \<inter> {next_id s..<next_id ?s} = {}"
    proof -
      have "set done \<subseteq> {1..<next_id s}" using a(6) by blast
      then show ?thesis by (auto simp: disjoint_iff)
    qed
    ultimately show "set ?new \<inter> set done = {}" "set (pend ?s) \<inter> set done = {}" using a(5) by blast+
  qed
  have "set done \<union> set ?new \<union> set (pend ?s) = {1..<next_id s} \<union> {next_id s..<next_id ?s}"
    using acc a(6) by blast
  also have "\<dots> = {1..<next_id ?s}" using grow a(3) by auto
  finally show ?thesis
    using acc d a(2,3) fresh grow by (auto simp: account_ok_def)
qed

lemma account_run:
  "account_ok s done \<Longrightarrow> account_ok (fst (run_steps step es s)) (done @ settled_by settles (snd (run_steps step es s)))"
proof (induction es arbitrary: s "done")
  case Nil
  then show ?case by (simp add: settled_by_def)
next
  case (Cons e es)
  from Cons.IH [OF account_step [OF Cons.prems, of e]] show ?case
    by (simp add: case_prod_unfold Let_def)
qed

lemma account_start: "account_ok start []"
  by (simp add: account_ok_def start_empty start_id)

lemma once:
  assumes "run_steps step es start = (s, os)"
  shows "distinct (settled_by settles os) \<and> set (settled_by settles os) \<inter> set (pend s) = {} \<and>
    set (settled_by settles os) \<union> set (pend s) = {1..<next_id s}"
  using account_run [OF account_start, of es] assms by (simp add: account_ok_def)

lemma account_facts: "account_ok s done \<Longrightarrow> distinct (pend s) \<and> set (pend s) \<subseteq> {1..<next_id s} \<and> 1 \<le> next_id s"
  by (auto simp: account_ok_def)

lemma stays_settled:
  assumes "account_ok s done" and "r \<in> set done"
  shows "r \<notin> set (pend (fst (run_steps step es s)))"
proof -
  have "account_ok (fst (run_steps step es s)) (done @ settled_by settles (snd (run_steps step es s)))"
    by (rule account_run [OF assms(1)])
  then show ?thesis using assms(2) by (auto simp: account_ok_def)
qed

lemma ends_run:
  assumes "account_ok s done" and "r \<in> {1..<next_id s}" and "e \<in> set es" and "ends e r"
  shows "r \<in> set (done @ settled_by settles (snd (run_steps step es s)))"
  using assms
proof (induction es arbitrary: s "done")
  case (Cons d es)
  let ?s = "fst (step d s)" and ?done = "done @ settled_by settles (snd (step d s))"
  have ok: "account_ok ?s ?done" by (rule account_step [OF Cons.prems(1)])
  have grow: "r \<in> {1..<next_id ?s}" using Cons.prems(2) ids_grow [of s d] by auto
  have outs: "snd (run_steps step (d # es) s) = snd (step d s) @ snd (run_steps step es ?s)"
    by (simp add: Let_def case_prod_unfold)
  show ?case
  proof (cases "e = d")
    case True
    have "r \<notin> set (pend ?s)"
      using ends_settles [of s d r] account_facts [OF Cons.prems(1)] Cons.prems(2,4) True by simp
    moreover have "r \<in> set ?done \<union> set (pend ?s)" using ok grow by (simp add: account_ok_def)
    ultimately show ?thesis unfolding outs by auto
  next
    case False
    with Cons.IH [OF ok grow] Cons.prems(3,4) show ?thesis unfolding outs by auto
  qed
qed simp

lemma settled_exactly_once:
  assumes "run_steps step es start = (s, os)" and "r \<in> {1..<next_id s}"
    and "run_steps step es' s = (s', os')" and "e \<in> set es'" and "ends e r"
  shows "count_list (settled_by settles (os @ os')) r = 1"
proof -
  have ok: "account_ok s (settled_by settles os)" using account_run [OF account_start, of es] assms(1) by simp
  from ends_run [OF ok assms(2,4,5)] have "r \<in> set (settled_by settles (os @ os'))" using assms(3) by simp
  moreover have "distinct (settled_by settles (os @ os'))"
    using account_run [OF ok, of es'] assms(3) by (simp add: account_ok_def)
  ultimately show ?thesis by (rule count_list_distinct [rotated])
qed

end

end
