(* ===== verification/RelayClient.thy ===== *)
theory RelayClient
  imports Calls Base64 Json
begin

text \<open>
  The connection to the relay, \<open>client/src/lib/relay.js\<close>, and the client of the crypto worker,
  \<open>client/src/lib/rpc.js\<close>. Each is a state and one operation per callback: what happens (a socket opening, a
  message, a timer firing, a call) is an event, and what the client does in answer (sending, settling a
  promise, arming a timer, telling the app) is its output. The promises of \<open>getPubkey\<close> and \<open>sign\<close> are taken to
  be fulfilled before the next event of the same socket.
\<close>

section \<open>The relay connection\<close>

definition AUTH_CONTEXT :: string where "AUTH_CONTEXT = ''relay-auth-v2''"
definition REQUEST_TIMEOUT_MS :: nat where "REQUEST_TIMEOUT_MS = 20000"
definition PROTOCOL_VERSION :: nat where "PROTOCOL_VERSION = 1"

record relay_opts =
  opt_name :: string
  opt_pubkey :: bytes
  opt_sign :: "bytes \<Rightarrow> bytes"
  opt_invite :: "string option"
  opt_dash :: string \<comment> \<open>the em dash of a message, which has no \<open>char\<close>\<close>

record relay =
  ready :: bool
  nextRid :: nat
  pending :: "nat list"
  backoff :: nat
  closed :: bool
  heartbeat :: bool

datatype outcome = Resolved jsval | Rejected jsval

datatype relay_out =
    Dial
  | Status string
  | SendFrame jsval
  | Deliver jsval
  | AuthError jsval
  | Settle nat outcome
  | RefuseOffline
  | ArmTimer nat nat
  | ArmDeadline nat nat
  | Redial nat
  | CloseSocket

datatype relay_event =
    Connect
  | Open
  | Message string
  | Closed
  | Request "jsval dict"
  | TimerFires nat string
  | HeartbeatTick
  | DeadlineFires
  | CloseCall

definition new_relay :: relay where
  "new_relay = \<lparr>ready = False, nextRid = 1, pending = [], backoff = 500, closed = False, heartbeat = False\<rparr>"

definition connect :: "relay \<Rightarrow> relay \<times> relay_out list" where
  "connect r = (if closed r then (r, []) else (r, [Status ''connecting'', Dial]))"

definition on_open :: "relay_opts \<Rightarrow> relay \<Rightarrow> relay \<times> relay_out list" where
  "on_open opts r =
     (r, [SendFrame (JObj [(''t'', JStr ''hello''), (''user'', JStr (opt_name opts)), (''pubkey'', JStr (b64_enc (opt_pubkey opts))),
        (''invite'', case opt_invite opts of Some i \<Rightarrow> JStr i | None \<Rightarrow> JNull), (''v'', JNum (Fin (of_nat PROTOCOL_VERSION)))])])"

definition be32 :: "nat \<Rightarrow> bytes" where
  \<comment> \<open>\<open>setUint32(0, n, false)\<close>: big endian, modulo \<open>2^32\<close>\<close>
  "be32 n = map (\<lambda>i. char_of (n div 256 ^ i mod 256)) [3, 2, 1, 0]"

definition auth_bytes :: "bytes \<Rightarrow> string \<Rightarrow> bytes" where
  "auth_bytes nonce name = utf8_enc AUTH_CONTEXT @ nonce @ be32 (length (utf8_enc name)) @ utf8_enc name"

definition rid_of :: "relay \<Rightarrow> jsval \<Rightarrow> nat option" where
  \<comment> \<open>\<open>msg.rid !== undefined && pending.has(msg.rid)\<close>\<close>
  "rid_of r msg = find (\<lambda>i. oprop msg ''rid'' = JNum (Fin (of_nat i))) (pending r)"

definition on_frame :: "relay_opts \<Rightarrow> jsval \<Rightarrow> relay \<Rightarrow> relay \<times> relay_out list" where
  \<comment> \<open>a parsed message; a challenge whose nonce is not base64 rejects the handler and changes nothing\<close>
  "on_frame opts msg r =
     (let t = oprop msg ''t''
      in if t = JStr ''error'' \<and> \<not> ready r then (r\<lparr>closed := True\<rparr>, [AuthError (oprop msg ''message'')])
         else if t = JStr ''challenge'' then
           (case do { s \<leftarrow> to_str (oprop msg ''nonce''); b64_dec s } of
              None \<Rightarrow> (r, [])
            | Some nonce \<Rightarrow>
                (r, [SendFrame (JObj [(''t'', JStr ''auth''), (''sig'', JStr (b64_enc (opt_sign opts (auth_bytes nonce (opt_name opts)))))])]))
         else if t = JStr ''ready'' then (r\<lparr>ready := True, backoff := 500, heartbeat := True\<rparr>, [Status ''online'', Deliver msg])
         else case rid_of r msg of
           Some i \<Rightarrow> (r\<lparr>pending := filter (\<lambda>j. j \<noteq> i) (pending r)\<rparr>,
              [Settle i (if t = JStr ''error'' then Rejected (oprop msg ''message'') else Resolved msg)])
         | None \<Rightarrow> (r, [Deliver msg]))"

definition on_message :: "relay_opts \<Rightarrow> string \<Rightarrow> relay \<Rightarrow> relay \<times> relay_out list" where
  \<comment> \<open>data that is not JSON, or is the document \<open>null\<close>, throws in the handler\<close>
  "on_message opts data r =
     (case parse_json data of None \<Rightarrow> (r, []) | Some msg \<Rightarrow> if nullish msg then (r, []) else on_frame opts msg r)"

definition on_close :: "string \<Rightarrow> relay \<Rightarrow> relay \<times> relay_out list" where
  "on_close dash r =
     (r\<lparr>ready := False, heartbeat := False, pending := [], backoff := (if closed r then backoff r else min (backoff r * 2) 15000)\<rparr>,
      map (\<lambda>i. Settle i (Rejected (JStr (''the connection dropped '' @ dash @ '' reconnecting'')))) (pending r) @ [Status ''offline''] @ (if closed r then [] else [Redial (backoff r)]))"

definition request :: "jsval dict \<Rightarrow> relay \<Rightarrow> relay \<times> relay_out list" where
  "request msg r =
     (if \<not> ready r then (r, [RefuseOffline])
      else (r\<lparr>nextRid := nextRid r + 1, pending := pending r @ [nextRid r]\<rparr>,
        [ArmTimer (nextRid r) REQUEST_TIMEOUT_MS,
         SendFrame (JObj (AList.update ''rid'' (JNum (Fin (of_nat (nextRid r)))) msg))]))"

definition on_timer :: "nat \<Rightarrow> string \<Rightarrow> relay \<Rightarrow> relay \<times> relay_out list" where
  \<comment> \<open>the timer of a call; \<open>kind\<close> is the \<open>t\<close> of its message\<close>
  "on_timer i kind r =
     (if i \<in> set (pending r)
      then (r\<lparr>pending := filter (\<lambda>j. j \<noteq> i) (pending r)\<rparr>,
        [Settle i (Rejected (JStr (''the relay did not answer '' @ [CHR 0x22] @ kind @ [CHR 0x22] @ '' in time'')))])
      else (r, []))"

definition heartbeat_tick :: "relay \<Rightarrow> relay \<times> relay_out list" where
  "heartbeat_tick r =
     (if \<not> heartbeat r \<or> \<not> ready r then (r, [])
      else let (r', os) = request [(''t'', JStr ''ping'')] r in (r', ArmDeadline (nextRid r) 10000 # os))"

definition close :: "relay \<Rightarrow> relay \<times> relay_out list" where
  "close r = (r\<lparr>closed := True, heartbeat := False\<rparr>, [CloseSocket])"

fun relay_step :: "relay_opts \<Rightarrow> relay_event \<Rightarrow> relay \<Rightarrow> relay \<times> relay_out list" where
  "relay_step opts Connect r = connect r"
| "relay_step opts Open r = on_open opts r"
| "relay_step opts (Message d) r = on_message opts d r"
| "relay_step opts Closed r = on_close (opt_dash opts) r"
| "relay_step opts (Request m) r = request m r"
| "relay_step opts (TimerFires i k) r = on_timer i k r"
| "relay_step opts HeartbeatTick r = heartbeat_tick r"
| "relay_step opts DeadlineFires r = (r, [CloseSocket])"
| "relay_step opts CloseCall r = close r"

fun settles_call :: "relay_out \<Rightarrow> nat option" where
  "settles_call (Settle i _) = Some i"
| "settles_call _ = None"

fun ends_call :: "relay_event \<Rightarrow> nat \<Rightarrow> bool" where
  \<comment> \<open>the timer of the call, or the socket closing\<close>
  "ends_call Closed i = True"
| "ends_call (TimerFires j k) i = (j = i)"
| "ends_call _ i = False"

section \<open>The worker client\<close>

record crypto_rpc =
  rpc_next :: nat
  rpc_pending :: "nat list"
  rpc_dead :: "string option"

datatype rpc_out = Post nat string | Answer nat outcome | FailFast string

datatype rpc_event = Call string | Reply "nat option" bool jsval | WorkerError "string option" | MessageError

definition new_crypto :: crypto_rpc where
  "new_crypto = \<lparr>rpc_next = 1, rpc_pending = [], rpc_dead = None\<rparr>"

definition killAll :: "string \<Rightarrow> crypto_rpc \<Rightarrow> crypto_rpc \<times> rpc_out list" where
  "killAll msg c =
     (c\<lparr>rpc_dead := Some msg, rpc_pending := []\<rparr>, map (\<lambda>i. Answer i (Rejected (JStr msg))) (rpc_pending c))"

fun rpc_step :: "rpc_event \<Rightarrow> crypto_rpc \<Rightarrow> crypto_rpc \<times> rpc_out list" where
  "rpc_step (Call cmd) c =
     (case rpc_dead c of
        Some msg \<Rightarrow> (c, [FailFast msg])
      | None \<Rightarrow> (c\<lparr>rpc_next := rpc_next c + 1, rpc_pending := rpc_pending c @ [rpc_next c]\<rparr>, [Post (rpc_next c) cmd]))"
| "rpc_step (Reply i ok res) c =
     (case i of
        None \<Rightarrow> (c, [])
      | Some n \<Rightarrow>
          if n \<in> set (rpc_pending c)
          then (c\<lparr>rpc_pending := filter (\<lambda>j. j \<noteq> n) (rpc_pending c)\<rparr>, [Answer n (if ok then Resolved res else Rejected res)])
          else (c, []))"
| "rpc_step (WorkerError m) c =
     killAll (''the encryption worker failed to start: '' @ (case m of Some s \<Rightarrow> s | None \<Rightarrow> ''unknown error'')) c"
| "rpc_step MessageError c = killAll ''the encryption worker sent an unreadable message'' c"

fun answers_call :: "rpc_out \<Rightarrow> nat option" where
  "answers_call (Answer i _) = Some i"
| "answers_call _ = None"

fun ends_rpc :: "rpc_event \<Rightarrow> nat \<Rightarrow> bool" where
  "ends_rpc (Reply j _ _) i = (j = Some i)"
| "ends_rpc (WorkerError _) i = True"
| "ends_rpc MessageError i = True"
| "ends_rpc _ i = False"

section \<open>Both keep the contract\<close>

lemma rid_of_pending: "rid_of r msg = Some i \<Longrightarrow> i \<in> set (pending r)"
  by (auto simp: rid_of_def find_Some_iff)

lemmas relay_defs = connect_def on_open_def on_message_def on_frame_def on_close_def request_def on_timer_def
  heartbeat_tick_def close_def

lemma present_settles_map: "present (map settles_call (map (\<lambda>i. Settle i (f i)) is)) = is"
  by (induction "is") simp_all

lemma present_answers_map: "present (map answers_call (map (\<lambda>i. Answer i (f i)) is)) = is"
  by (induction "is") simp_all

lemma close_settles: "present (map settles_call (snd (on_close dash r))) = pending r"
  unfolding on_close_def snd_conv map_append present_append present_settles_map by simp

text \<open>A step is one of four things as far as calls go.\<close>

inductive call_step :: "nat list \<Rightarrow> nat \<Rightarrow> nat list \<Rightarrow> nat \<Rightarrow> nat list \<Rightarrow> bool" where
  idle: "call_step ps n ps n []"
| issue: "call_step ps n (ps @ [n]) (Suc n) []"
| answer: "i \<in> set ps \<Longrightarrow> call_step ps n (filter (\<lambda>j. j \<noteq> i) ps) n [i]"
| drop_all: "call_step ps n [] n ps"

inductive_cases call_stepE: "call_step ps n ps' n' done"

lemma call_step_accounts:
  assumes "call_step ps n ps' n' fin" and "distinct ps" and "set ps \<subseteq> {1..<n}" and "1 \<le> n"
  shows "n \<le> n' \<and> distinct ps' \<and> distinct fin \<and> set fin \<inter> set ps' = {} \<and> set fin \<union> set ps' = set ps \<union> {n..<n'}"
  using assms(1) by (elim call_stepE) (use assms(2-4) in auto)

lemma relay_call_step:
  "call_step (pending r) (nextRid r) (pending (fst (relay_step opts e r))) (nextRid (fst (relay_step opts e r)))
     (present (map settles_call (snd (relay_step opts e r))))"
proof (cases e)
  case (Message d)
  show ?thesis
  proof (cases "parse_json d")
    case (Some msg)
    show ?thesis
    proof (cases "rid_of r msg")
      case None
      with Some Message show ?thesis by (auto simp: relay_defs Let_def split: option.split intro: call_step.intros)
    next
      case (Some i)
      with \<open>parse_json d = Some msg\<close> Message rid_of_pending [OF Some] show ?thesis
        by (auto simp: relay_defs Let_def split: option.split intro: call_step.intros)
    qed
  qed (simp add: Message relay_defs call_step.idle)
next
  case Closed
  have "call_step (pending r) (nextRid r) [] (nextRid r) (pending r)" by (rule call_step.drop_all)
  then show ?thesis unfolding Closed relay_step.simps close_settles by (simp add: on_close_def)
qed (auto simp: relay_defs Let_def intro: call_step.intros)

lemma rpc_call_step:
  "call_step (rpc_pending c) (rpc_next c) (rpc_pending (fst (rpc_step e c))) (rpc_next (fst (rpc_step e c)))
     (present (map answers_call (snd (rpc_step e c))))"
proof (cases e)
  case (Reply i ok res)
  then show ?thesis by (cases i) (auto intro: call_step.intros)
next
  case (WorkerError m)
  then show ?thesis using present_answers_map by (simp add: killAll_def call_step.drop_all)
next
  case MessageError
  then show ?thesis using present_answers_map by (simp add: killAll_def call_step.drop_all)
qed (auto intro: call_step.intros split: option.split)

interpretation relay_calls: numbered_calls "relay_step opts" pending nextRid settles_call new_relay ends_call for opts
proof unfold_locales
  fix s :: relay and e r
  show "pending new_relay = []" "nextRid new_relay = 1" by (simp_all add: new_relay_def)
  note step = relay_call_step [of s opts e]
  show "nextRid s \<le> nextRid (fst (relay_step opts e s))" using step by (elim call_stepE) auto
  assume wf: "distinct (pending s)" "set (pending s) \<subseteq> {1..<nextRid s}" "1 \<le> nextRid s"
  from call_step_accounts [OF step wf]
  show "distinct (pending (fst (relay_step opts e s)))"
    and "distinct (present (map settles_call (snd (relay_step opts e s)))) \<and>
      set (present (map settles_call (snd (relay_step opts e s)))) \<inter> set (pending (fst (relay_step opts e s))) = {} \<and>
      set (present (map settles_call (snd (relay_step opts e s)))) \<union> set (pending (fst (relay_step opts e s))) =
        set (pending s) \<union> {nextRid s..<nextRid (fst (relay_step opts e s))}" by blast+
  assume "ends_call e r"
  then show "r \<notin> set (pending (fst (relay_step opts e s)))" by (cases e) (auto simp: relay_defs)
qed

interpretation rpc_calls: numbered_calls rpc_step rpc_pending rpc_next answers_call new_crypto ends_rpc
proof unfold_locales
  fix c :: crypto_rpc and e r
  show "rpc_pending new_crypto = []" "rpc_next new_crypto = 1" by (simp_all add: new_crypto_def)
  note step = rpc_call_step [of c e]
  show "rpc_next c \<le> rpc_next (fst (rpc_step e c))" using step by (elim call_stepE) auto
  assume wf: "distinct (rpc_pending c)" "set (rpc_pending c) \<subseteq> {1..<rpc_next c}" "1 \<le> rpc_next c"
  from call_step_accounts [OF step wf]
  show "distinct (rpc_pending (fst (rpc_step e c)))"
    and "distinct (present (map answers_call (snd (rpc_step e c)))) \<and>
      set (present (map answers_call (snd (rpc_step e c)))) \<inter> set (rpc_pending (fst (rpc_step e c))) = {} \<and>
      set (present (map answers_call (snd (rpc_step e c)))) \<union> set (rpc_pending (fst (rpc_step e c))) =
        set (rpc_pending c) \<union> {rpc_next c..<rpc_next (fst (rpc_step e c))}" by blast+
  assume "ends_rpc e r"
  then show "r \<notin> set (rpc_pending (fst (rpc_step e c)))" by (cases e) (auto simp: killAll_def)
qed

section \<open>What callers can rely on\<close>

text \<open>
  C37: a call over the relay connection settles, once. In every history of the connection (drops, reconnects,
  late and repeated answers, timers, messages that are not JSON) each request ever numbered is either still
  pending or settled, never both and never twice; and once its timer has fired or the socket has closed it has
  been settled exactly once, so no caller waits for ever.
\<close>

theorem relay_requests_settle_once:
  assumes "run_steps (relay_step opts) es new_relay = (s, os)" and "run_steps (relay_step opts) es' s = (s', os')"
  shows "distinct (settled_by settles_call os) \<and> set (settled_by settles_call os) \<inter> set (pending s) = {} \<and>
    set (settled_by settles_call os) \<union> set (pending s) = {1..<nextRid s} \<and>
    (\<forall>e \<in> set es'. \<forall>r \<in> {1..<nextRid s}. ends_call e r \<longrightarrow> count_list (settled_by settles_call (os @ os')) r = 1)"
  using relay_calls.once [OF assms(1)] relay_calls.settled_exactly_once [OF assms(1) _ assms(2)] by blast

definition example_opts :: relay_opts where
  "example_opts = \<lparr>opt_name = ''ann'', opt_pubkey = ''pk'', opt_sign = rev, opt_invite = None, opt_dash = []\<rparr>"

definition example_calls :: "relay_event list" where
  "example_calls = [Connect, Open, Message (stringify (JObj [(''t'', JStr ''ready'')])), Request [(''t'', JStr ''ping'')]]"

lemma example_ready: "parse_json (stringify (JObj [(''t'', JStr ''ready'')])) = Some (JObj [(''t'', JStr ''ready'')])"
  by (subst parse_stringify) (simp_all add: entries_def is_index_def is_digit_def digit_chars_def)

lemma example_run:
  "\<exists>os. run_steps (relay_step example_opts) example_calls new_relay =
     (\<lparr>ready = True, nextRid = 2, pending = [1], backoff = 500, closed = False, heartbeat = True\<rparr>, os)"
  by (simp add: example_calls_def relay_defs example_ready Let_def rid_of_def new_relay_def del: stringify.simps)

theorem relay_requests_settle_once_witness:
  "\<exists>s os s' os'. run_steps (relay_step example_opts) example_calls new_relay = (s, os) \<and>
     run_steps (relay_step example_opts) [Closed] s = (s', os') \<and> count_list (settled_by settles_call (os @ os')) 1 = 1"
proof -
  obtain s os where run: "run_steps (relay_step example_opts) example_calls new_relay = (s, os)" and s: "nextRid s = 2"
    using example_run by (metis relay.select_convs(2))
  obtain s' os' where run': "run_steps (relay_step example_opts) [Closed] s = (s', os')" by fastforce
  from relay_requests_settle_once [OF run run'] s have "count_list (settled_by settles_call (os @ os')) 1 = 1"
    by (metis atLeastLessThan_iff ends_call.simps(1) le_refl list.set_intros(1) one_less_numeral_iff semiring_norm(76))
  with run run' show ?thesis by blast
qed

text \<open>
  A worker that dies takes no caller with it. Whatever happened before, when the worker fails every call
  ever made has been answered exactly once, and every later call is refused at once instead of waiting.
\<close>

theorem dead_worker_answers_everyone:
  assumes "run_steps rpc_step es new_crypto = (c, os)" and "e \<in> {WorkerError m, MessageError}"
    and "rpc_step e c = (c', os')"
  shows "mset (settled_by answers_call (os @ os')) = mset [1..<rpc_next c] \<and> rpc_pending c' = [] \<and>
    (\<exists>msg. \<forall>cmd. rpc_step (Call cmd) c' = (c', [FailFast msg]))"
proof -
  have run: "run_steps rpc_step (es @ [e]) new_crypto = (c', os @ os')"
    using assms(1,3) by (simp add: run_steps_append)
  have c': "rpc_pending c' = []" "rpc_next c' = rpc_next c" "\<exists>msg. rpc_dead c' = Some msg"
    using assms(2,3) by (auto simp: killAll_def)
  from rpc_calls.once [OF run] c' have "distinct (settled_by answers_call (os @ os'))"
    "set (settled_by answers_call (os @ os')) = set [1..<rpc_next c]" by auto
  then have "mset (settled_by answers_call (os @ os')) = mset [1..<rpc_next c]"
    by (metis distinct_upt set_eq_iff_mset_eq_distinct)
  with c' show ?thesis by auto
qed

theorem dead_worker_answers_everyone_witness:
  "\<exists>c os c' os'. run_steps rpc_step [Call ''sign'', Call ''seal'', Reply (Some 2) True JNull] new_crypto = (c, os) \<and>
     rpc_step (WorkerError None) c = (c', os') \<and> mset (settled_by answers_call (os @ os')) = mset [1, 2]"
proof -
  let ?es = "[Call ''sign'', Call ''seal'', Reply (Some 2) True JNull]"
  obtain c os where run: "run_steps rpc_step ?es new_crypto = (c, os)" and n: "rpc_next c = 3"
    by (simp add: new_crypto_def numeral_2_eq_2 numeral_3_eq_3)
  obtain c' os' where step: "rpc_step (WorkerError None) c = (c', os')" by fastforce
  from dead_worker_answers_everyone [OF run _ step] have "mset (settled_by answers_call (os @ os')) = mset [1..<rpc_next c]" by blast
  moreover have "[1..<3] = [1, 2 :: nat]" by (simp add: upt_rec)
  ultimately have "mset (settled_by answers_call (os @ os')) = mset [1, 2]" unfolding n by metis
  with run step show ?thesis by blast
qed

section \<open>Reconnecting\<close>

definition redials :: "relay_out \<Rightarrow> bool" where
  "redials out = (case out of Dial \<Rightarrow> True | Redial _ \<Rightarrow> True | _ \<Rightarrow> False)"

lemma closed_step: "closed r \<Longrightarrow> closed (fst (relay_step opts e r)) \<and> (\<forall>out \<in> set (snd (relay_step opts e r)). \<not> redials out)"
  by (cases e) (auto simp: relay_defs redials_def Let_def split: option.split)

lemma closed_never_redials:
  "closed r \<Longrightarrow> closed (fst (run_steps (relay_step opts) es r)) \<and>
     (\<forall>out \<in> set (snd (run_steps (relay_step opts) es r)). \<not> redials out)"
proof (induction es arbitrary: r)
  case (Cons e es)
  from closed_step [OF Cons.prems, of opts e] Cons.IH [of "fst (relay_step opts e r)"] show ?case
    by (auto simp: Let_def case_prod_unfold)
qed simp

lemma backoff_step: "500 \<le> backoff r \<Longrightarrow> backoff r \<le> 15000 \<Longrightarrow>
    500 \<le> backoff (fst (relay_step opts e r)) \<and> backoff (fst (relay_step opts e r)) \<le> 15000"
  by (cases e) (auto simp: relay_defs Let_def split: option.split)

lemma backoff_run: "500 \<le> backoff r \<Longrightarrow> backoff r \<le> 15000 \<Longrightarrow>
    500 \<le> backoff (fst (run_steps (relay_step opts) es r)) \<and> backoff (fst (run_steps (relay_step opts) es r)) \<le> 15000"
proof (induction es arbitrary: r)
  case (Cons e es)
  from backoff_step [OF Cons.prems, of opts e] Cons.IH [of "fst (relay_step opts e r)"] show ?case
    by (simp add: Let_def case_prod_unfold)
qed simp

lemma auth_bytes_name:
  assumes "auth_bytes nonce name = auth_bytes nonce' name'" and "length nonce = length nonce'"
  shows "nonce = nonce' \<and> name = name'"
proof -
  have "nonce @ be32 (length (utf8_enc name)) @ utf8_enc name = nonce' @ be32 (length (utf8_enc name')) @ utf8_enc name'"
    using assms(1) by (simp add: auth_bytes_def)
  then have n: "nonce = nonce'" and r: "be32 (length (utf8_enc name)) @ utf8_enc name = be32 (length (utf8_enc name')) @ utf8_enc name'"
    using assms(2) by simp_all
  have "length (be32 k) = 4" for k by (simp add: be32_def)
  with r have "utf8_enc name = utf8_enc name'" by (metis append_eq_append_conv)
  with n show ?thesis by (simp add: utf8_enc_inj)
qed

end
