(* ===== verification/Actions.thy ===== *)
theory Actions
  imports Envelope_Boards History Circles
begin

text \<open>
  What a member does to a circle, from \<open>client/src/lib/controller.js\<close>: opening, renaming and deleting
  rooms, their settings and room keys, the home base, the boards and the membership ledger, as the
  acting device runs them. An action changes the record first and then runs its calls one after the
  other; the model is the changed record with the list of those calls. What a peer makes of the
  envelopes sent is \<open>applyEnvelope\<close>; the theorems here show the two agree.
\<close>

section \<open>Calls\<close>

datatype act =
    Send jsval                       \<comment> \<open>\<open>sendContent\<close>: encrypt for the group and send\<close>
  | Request jsval                    \<comment> \<open>\<open>relay.request\<close>\<close>
  | Say string jsval                 \<comment> \<open>\<open>addSystemMessage\<close> in a channel\<close>
  | PersistCircle
  | ShowServers                      \<comment> \<open>\<open>dispatch({ type: 'servers', .. })\<close>\<close>
  | ShowMessages                     \<comment> \<open>\<open>dispatch({ type: 'refreshMessages' })\<close>\<close>
  | RetainLog jsval                  \<comment> \<open>\<open>applyRetention\<close>\<close>
  | RenameLog jsval jsval
  | ForgetLog jsval
  | LeaveCall
  | MlsCreate string
  | AdmitIfCarried string
  | Deliver string                   \<comment> \<open>\<open>addMember\<close>\<close>
  | Withdraw string

type_synonym action = "(circle \<times> act list) throws"

definition general :: jsval where "general = JStr ''general''"

section \<open>Names\<close>

definition word_char :: "char \<Rightarrow> bool" where
  \<comment> \<open>\<open>[a-z0-9]\<close>\<close>
  "word_char c \<longleftrightarrow> c \<in> set ''abcdefghijklmnopqrstuvwxyz0123456789''"

function dash_runs :: "(char \<Rightarrow> bool) \<Rightarrow> string \<Rightarrow> string" where
  \<comment> \<open>\<open>s.replace(/[^..]+/g, '-')\<close>\<close>
  "dash_runs keep [] = []"
| "dash_runs keep (c # cs) =
     (if keep c then c # dash_runs keep cs else CHR ''-'' # dash_runs keep (dropWhile (\<lambda>d. \<not> keep d) cs))"
  by pat_completeness auto
termination
  by (relation "measure (\<lambda>(keep, s). length s)") (auto simp: le_imp_less_Suc length_dropWhile_le)

definition slug :: "string \<Rightarrow> string" where
  \<comment> \<open>\<open>s.toLowerCase().replace(/[^a-z0-9-]+/g, '-')\<close>\<close>
  "slug s = dash_runs (\<lambda>c. word_char c \<or> c = CHR ''-'') (toLowerCase s)"

definition strip_dashes :: "string \<Rightarrow> string" where
  \<comment> \<open>\<open>s.replace(/^-+|-+$/g, '')\<close>\<close>
  "strip_dashes s = rev (dropWhile (\<lambda>c. c = CHR ''-'') (rev (dropWhile (\<lambda>c. c = CHR ''-'') s)))"

definition slugChannel :: "string \<Rightarrow> string" where
  "slugChannel s = strip_dashes (slug s)"

definition drop_dash :: "string \<Rightarrow> string" where
  \<comment> \<open>\<open>s.replace(/^-|-$/g, '')\<close>: one dash at either end\<close>
  "drop_dash s =
     (let t = (case s of CHR ''-'' # cs \<Rightarrow> cs | _ \<Rightarrow> s)
      in if t \<noteq> [] \<and> last t = CHR ''-'' then butlast t else t)"

definition server_id :: "string \<Rightarrow> string \<Rightarrow> string" where
  \<comment> \<open>the circle's id: its name as a slug, and four random characters\<close>
  "server_id nm rnd =
     (let base = drop_dash (dash_runs word_char (toLowerCase nm))
      in (if base = [] then ''server'' else base) @ ''-'' @ rnd)"

section \<open>Room keys\<close>

definition ensureChannelKeys :: "circle \<Rightarrow> string \<Rightarrow> bytes \<Rightarrow> bytes \<Rightarrow> (circle \<times> jsval option) throws" where
  \<comment> \<open>the fresh bytes are those \<open>generateHistoryId\<close> and \<open>generateHistoryKey\<close> draw\<close>
  "ensureChannelKeys r ch hidBytes keyBytes =
     do { meta \<leftarrow> chan_meta_at r (JStr ch);
          if truthy (oprop meta ''hid'') \<and> truthy (oprop meta ''hkey'') then Some (r, None)
          else do {
            let new = JObj (dmerge (own_entries meta)
              [(''hid'', coalesce (oprop meta ''hid'') (JStr (generateHistoryId hidBytes))),
               (''hkey'', coalesce (oprop meta ''hkey'') (JStr (generateHistoryKey keyBytes)))]);
            Some (r\<lparr>chanMeta := Some (AList.update ch new (dict_or_empty (chanMeta r)))\<rparr>, Some new) } }"

definition rotate_one :: "string \<times> jsval \<Rightarrow> bytes \<Rightarrow> jsval dict \<Rightarrow> (jsval dict \<times> bool) throws" where
  \<comment> \<open>one channel of \<open>rotateHistoryKeys\<close>: a fresh key, the old one archived in front of the archive\<close>
  "rotate_one e keyBytes d =
     (if truthy (oprop (snd e) ''hid'') \<and> truthy (oprop (snd e) ''hkey'')
      then do {
        old \<leftarrow> js_iter (coalesce (oprop (snd e) ''hkeys'') (JArr []));
        Some (AList.update (fst e)
          (JObj (dmerge (own_entries (snd e))
            [(''hkey'', JStr (generateHistoryKey keyBytes)),
             (''hkeys'', JArr (oprop (snd e) ''hkey'' # old))])) d, True) }
      else Some (d, False))"

fun rotate_all :: "(string \<times> jsval) list \<Rightarrow> bytes list \<Rightarrow> jsval dict \<Rightarrow> (jsval dict \<times> string list) throws" where
  "rotate_all [] draws d = Some (d, [])"
| "rotate_all (e # es) draws d =
     do { (d', did) \<leftarrow> rotate_one e (case draws of [] \<Rightarrow> [] | b # _ \<Rightarrow> b) d;
          (d'', rotated) \<leftarrow> rotate_all es (if did then tl draws else draws) d';
          Some (d'', (if did then fst e # rotated else rotated)) }"

definition rotateHistoryKeys :: "circle \<Rightarrow> bytes list \<Rightarrow> (circle \<times> string list) throws" where
  \<comment> \<open>\<open>draws\<close> are the keys \<open>generateHistoryKey\<close> gives one after the other\<close>
  "rotateHistoryKeys r draws =
     do { (d, rotated) \<leftarrow> rotate_all (entries (dict_or_empty (chanMeta r))) draws (dict_or_empty (chanMeta r));
          Some (if rotated = [] then r else r\<lparr>chanMeta := Some d\<rparr>, rotated) }"

definition js_array :: "jsval \<Rightarrow> jsval list throws" where
  \<comment> \<open>\<open>v.map(..)\<close>: throws on what is no array\<close>
  "js_array v = (case v of JArr vs \<Rightarrow> Some vs | _ \<Rightarrow> None)"

definition channelKeys :: "jsval \<Rightarrow> jsval list throws" where
  \<comment> \<open>every key that may open an entry: the current one, the archived ones, those of other logs\<close>
  "channelKeys meta =
     do { hk \<leftarrow> js_iter (coalesce (oprop meta ''hkeys'') (JArr []));
          al \<leftarrow> js_array (coalesce (oprop meta ''alts'') (JArr []));
          Some (filter truthy (oprop meta ''hkey'' # hk @ map (\<lambda>a. oprop a ''hkey'') al)) }"

section \<open>Stored data as the JSON it is\<close>

definition opt_field :: "string \<Rightarrow> ('a \<Rightarrow> jsval) \<Rightarrow> 'a option \<Rightarrow> jsval dict" where
  \<comment> \<open>\<open>...(v ? { k: v } : {})\<close>\<close>
  "opt_field k f v = (case v of None \<Rightarrow> [] | Some x \<Rightarrow> [(k, f x)])"

definition rat_json :: "rat \<Rightarrow> jsval" where "rat_json x = JNum (Fin x)"
definition nat_json :: "nat \<Rightarrow> jsval" where "nat_json n = JNum (Fin (of_nat n))"

definition offer_json :: "offer \<Rightarrow> jsval" where
  "offer_json f = JObj ([(''id'', JStr (off_id f)), (''text'', JStr (off_text f))] @ opt_field ''note'' JStr (off_note f) @
     [(''seats'', nat_json (off_seats f)), (''ts'', rat_json (off_ts f)), (''author'', JStr (off_author f)),
      (''takers'', JArr (map JStr (off_takers f)))])"

definition proposal_json :: "proposal \<Rightarrow> jsval" where
  "proposal_json p = JObj ([(''id'', JStr (prop_id p)), (''handle'', JStr (prop_handle p))] @ opt_field ''why'' JStr (prop_why p) @
     [(''by'', JStr (prop_by p)), (''at'', rat_json (prop_at p)),
      (''signatures'', JArr (map (\<lambda>s. JObj [(''who'', JStr (sig_who s)), (''at'', rat_json (sig_at s))]) (signatures p))),
      (''objections'', JArr (map (\<lambda>b. JObj [(''who'', JStr (obj_who b)), (''why'', JStr (obj_why b)), (''at'', rat_json (obj_at b))])
        (objections p)))])"

definition rsvp_json :: "rsvp \<Rightarrow> jsval" where
  "rsvp_json a = JObj [(''at'', rat_json (rsvp_at a)), (''ts'', JNum (rsvp_ts a))]"

definition kind_json :: "game_kind \<Rightarrow> jsval" where
  "kind_json k = JStr (case k of Activity \<Rightarrow> ''activity'' | Server \<Rightarrow> ''server'')"

definition game_json :: "game \<Rightarrow> jsval" where
  "game_json g = JObj ([(''id'', JStr (game_id g)), (''name'', JStr (game_name g)), (''url'', JStr (game_url g)),
     (''kind'', kind_json (game_kind_of g))] @ opt_field ''note'' JStr (game_note g) @ opt_field ''glyph'' JStr (game_glyph g))"

definition event_json :: "event \<Rightarrow> jsval" where
  "event_json e = JObj ([(''id'', JStr (ev_id e)), (''title'', JStr (ev_title e)), (''at'', rat_json (ev_at e))] @
     opt_field ''note'' JStr (ev_note e) @ opt_field ''gameId'' JStr (ev_game e))"

definition overview_json :: "overview \<Rightarrow> jsval" where
  "overview_json v = JObj ([(''blurb'', JStr (ov_blurb v)),
     (''links'', JArr (map (\<lambda>l. JObj [(''label'', JStr (link_label l)), (''url'', JStr (link_url l))]) (ov_links v)))] @
     opt_field ''glyph'' JStr (ov_glyph v) @
     opt_field ''events'' (\<lambda>es. JArr (map event_json es)) (nonempty (ov_events v)) @
     opt_field ''event'' (\<lambda>l. JObj ([(''title'', JStr (leg_title l)), (''at'', rat_json (leg_at l))] @
       opt_field ''note'' JStr (leg_note l))) (ov_event v) @
     opt_field ''games'' (\<lambda>gs. JArr (map game_json gs)) (nonempty (ov_games v)))"

definition null_or :: "('a \<Rightarrow> jsval) \<Rightarrow> 'a option \<Rightarrow> jsval" where
  "null_or f v = (case v of None \<Rightarrow> JNull | Some x \<Rightarrow> f x)"

definition metaContent :: "circle \<Rightarrow> jsval" where
  "metaContent r = JObj
     [(''k'', JStr ''meta''), (''name'', c_name r), (''channels'', JArr (channels r)), (''voiceChannels'', JArr (voice_rooms r)),
      (''chanMeta'', JObj (dict_or_empty (chanMeta r))), (''overview'', null_or overview_json (overview r)),
      (''notices'', JArr (map notice_wire (list_or_empty (notices r)))),
      (''offers'', JArr (map offer_json (list_or_empty (offers r)))),
      (''proposals'', JArr (map proposal_json (list_or_empty (proposals r)))),
      (''threshold'', threshold_value r),
      (''rsvps'', JObj (map (\<lambda>(h, a). (h, rsvp_json a)) (dict_or_empty (rsvps r))))]"

definition chan_content :: "string \<Rightarrow> string \<Rightarrow> jsval" where
  \<comment> \<open>\<open>{ k, ch }\<close>\<close>
  "chan_content k ch = JObj [(''k'', JStr k), (''ch'', JStr ch)]"

definition rename_content :: "string \<Rightarrow> string \<Rightarrow> string \<Rightarrow> jsval" where
  "rename_content k a b = JObj [(''k'', JStr k), (''ch'', JStr a), (''to'', JStr b)]"

definition chanset_content :: "string \<Rightarrow> jsval \<Rightarrow> jsval" where
  "chanset_content ch meta = JObj [(''k'', JStr ''chanset''), (''ch'', JStr ch), (''meta'', meta)]"

section \<open>Rooms\<close>

definition createServer :: "string \<Rightarrow> string \<Rightarrow> string \<Rightarrow> rat \<Rightarrow> bytes \<Rightarrow> bytes \<Rightarrow> action" where
  "createServer me nm rnd now hidBytes keyBytes =
     do { let i = server_id nm rnd;
          let r0 = (empty_circle i)\<lparr>c_name := JStr nm, channels := [general], voiceChannels := Some [JStr ''lounge''],
                members := [me], roles := [(me, ''admin'')], epoch := Some 0, lastSeq := Some 0, joinedAt := Some now\<rparr>;
          (r, minted) \<leftarrow> ensureChannelKeys r0 ''general'' hidBytes keyBytes;
          Some (r, [MlsCreate i, Request (JObj [(''t'', JStr ''create_group''), (''group'', JStr i)]),
                    PersistCircle, ShowServers]) }"

definition createChannel :: "circle \<Rightarrow> string \<Rightarrow> bytes \<Rightarrow> bytes \<Rightarrow> action" where
  "createChannel r channel hidBytes keyBytes =
     (let ch = slug channel
      in if ch = [] \<or> JStr ch \<in> set (channels r) then Some (r, [])
         else do {
           (r', minted) \<leftarrow> ensureChannelKeys (clearChannelDeleted (r\<lparr>channels := channels r @ [JStr ch]\<rparr>) (JStr ch)) ch hidBytes keyBytes;
           meta \<leftarrow> chan_meta_at r' (JStr ch);
           Some (r', [Send (chan_content ''chan'' ch), Send (chanset_content ch meta), Send (metaContent r'),
                      PersistCircle, ShowServers]) })"

definition renameChannel :: "circle \<Rightarrow> string \<Rightarrow> string \<Rightarrow> action" where
  "renameChannel r from to =
     (let ch = slugChannel to
      in if ch = [] \<or> ch = from \<or> JStr from \<notin> set (channels r) \<or> JStr ch \<in> set (channels r) then Some (r, [])
         else do {
           r' \<leftarrow> move_meta (clearChannelDeleted (markChannelDeleted
                   (r\<lparr>channels := rename_in (JStr from) (JStr ch) (channels r)\<rparr>) (JStr from)) (JStr ch)) (JStr from) (JStr ch);
           Some (r', [RenameLog (JStr from) (JStr ch), Send (rename_content ''chan-ren'' from ch),
                      Say (''#'' @ from @ '' renamed to #'' @ ch) (JStr ch), PersistCircle, ShowServers, ShowMessages]) })"

definition deleteChannel :: "circle \<Rightarrow> string \<Rightarrow> string + (circle \<times> act list)" where
  \<comment> \<open>the error is the one thrown for a circle's last channel\<close>
  "deleteChannel r channel =
     (if JStr channel \<notin> set (channels r) then Inr (r, [])
      else if length (channels r) \<le> 1 then Inl ''a server needs at least one channel''
      else let r1 = markChannelDeleted (r\<lparr>channels := filter (\<lambda>c. c \<noteq> JStr channel) (channels r)\<rparr>) (JStr channel);
               r2 = (case drop_meta r1 (JStr channel) of Some q \<Rightarrow> q | None \<Rightarrow> r1)
           in Inr (r2, [ForgetLog (JStr channel), Send (chan_content ''chan-del'' channel), PersistCircle, ShowServers]))"

definition createVoiceChannel :: "circle \<Rightarrow> string \<Rightarrow> circle \<times> act list" where
  "createVoiceChannel r channel =
     (let ch = slug channel; rooms = voice_rooms r
      in if ch = [] \<or> JStr ch \<in> set rooms then (r, [])
         else let r' = clearVoiceDeleted (r\<lparr>voiceChannels := Some (rooms @ [JStr ch])\<rparr>) (JStr ch)
              in (r', [Send (chan_content ''vchan'' ch), Send (metaContent r'), PersistCircle, ShowServers]))"

definition leave_room :: "(string \<times> jsval) option \<Rightarrow> circle \<Rightarrow> string \<Rightarrow> act list" where
  \<comment> \<open>\<open>active\<close> is the circle and room of the call this device is in\<close>
  "leave_room active r room = (if active = Some (c_id r, JStr room) then [LeaveCall] else [])"

definition renameVoiceChannel :: "(string \<times> jsval) option \<Rightarrow> circle \<Rightarrow> string \<Rightarrow> string \<Rightarrow> circle \<times> act list" where
  "renameVoiceChannel active r from to =
     (let rooms = voice_rooms r; ch = slugChannel to
      in if ch = [] \<or> ch = from \<or> JStr from \<notin> set rooms \<or> JStr ch \<in> set rooms then (r, [])
         else (clearVoiceDeleted (markVoiceDeleted (r\<lparr>voiceChannels := Some (rename_in (JStr from) (JStr ch) rooms)\<rparr>) (JStr from)) (JStr ch),
               leave_room active r from @
               [Send (rename_content ''vchan-ren'' from ch),
                Say (room_text from @ '' renamed to '' @ [CHR 0x22] @ ch @ [CHR 0x22]) general, PersistCircle, ShowServers]))"

definition deleteVoiceChannel :: "(string \<times> jsval) option \<Rightarrow> circle \<Rightarrow> string \<Rightarrow> circle \<times> act list" where
  "deleteVoiceChannel active r channel =
     (let rooms = voice_rooms r
      in if JStr channel \<notin> set rooms then (r, [])
         else (markVoiceDeleted (r\<lparr>voiceChannels := Some (filter (\<lambda>c. c \<noteq> JStr channel) rooms)\<rparr>) (JStr channel),
               leave_room active r channel @
               [Send (chan_content ''vchan-del'' channel), Say (room_text channel @ '' deleted'') general, PersistCircle, ShowServers]))"

definition set_or_drop :: "string \<Rightarrow> jsval \<Rightarrow> jsval dict \<Rightarrow> jsval dict" where
  \<comment> \<open>\<open>if (v !== undefined) { if (v) m.k = v; else delete m.k; }\<close>\<close>
  "set_or_drop k v d = (if v = JUndef then d else if truthy v then AList.update k v d else AList.delete k d)"

definition setChannelSettings :: "circle \<Rightarrow> string \<Rightarrow> jsval \<Rightarrow> jsval \<Rightarrow> bytes \<Rightarrow> bytes \<Rightarrow> rat \<Rightarrow> action" where
  "setChannelSettings r channel topic retention hidBytes keyBytes now =
     do { prev0 \<leftarrow> chan_meta_at r (JStr channel);
          let prev = coalesce prev0 (JObj []);
          let m1 = set_or_drop ''retention'' retention (set_or_drop ''topic'' topic (own_entries prev));
          let hid = oprop (JObj m1) ''hid'';
          let hkey = oprop (JObj m1) ''hkey'';
          let m2 = (if truthy hid \<and> truthy hkey then m1
                    else AList.update ''hkey'' (coalesce hkey (JStr (generateHistoryKey keyBytes)))
                           (AList.update ''hid'' (coalesce hid (JStr (generateHistoryId hidBytes))) m1));
          let meta = JObj m2;
          d \<leftarrow> describeChanMeta meta;
          secs \<leftarrow> to_num (oprop meta ''retention'');
          Some (r\<lparr>chanMeta := Some (AList.update channel meta (dict_or_empty (chanMeta r)))\<rparr>,
            [Send (chanset_content channel meta), Say (''#'' @ channel @ '' settings changed by you'' @ d) (JStr channel)] @
            (if truthy (oprop meta ''hid'') \<and> truthy (oprop meta ''retention'') \<and> oprop meta ''retention'' \<noteq> oprop prev ''retention''
             then [Request (JObj [(''t'', JStr ''history_prune''), (''group'', JStr (c_id r)), (''hid'', oprop meta ''hid''),
                     (''before_ts'', JNum (case secs of Fin x \<Rightarrow> Fin (rat_of_int \<lfloor>now / 1000\<rfloor> - x)
                        | PosInf \<Rightarrow> NegInf | NegInf \<Rightarrow> PosInf | NaN \<Rightarrow> NaN))])]
             else []) @
            [RetainLog (JStr channel), PersistCircle, ShowServers, ShowMessages]) }"

definition renameServer :: "circle \<Rightarrow> jsval \<Rightarrow> action" where
  "renameServer r nm =
     do { s \<leftarrow> to_str (coalesce nm (JStr []));
          let new = take 60 (trim s);
          Some (if new = [] \<or> JStr new = c_name r then (r, [])
                else let r' = r\<lparr>c_name := JStr new\<rparr>
                     in (r', [Send (metaContent r'), Say (''circle renamed to '' @ [CHR 0x22] @ new @ [CHR 0x22] @ '' by you'') general,
                              PersistCircle, ShowServers])) }"

section \<open>The home base and the boards\<close>

definition setOverview :: "circle \<Rightarrow> jsval \<Rightarrow> rat \<Rightarrow> action" where
  "setOverview r ov now =
     do { v \<leftarrow> normalizeOverview ov now;
          Some (r\<lparr>overview := v\<rparr>,
            [Send (JObj [(''k'', JStr ''overview''), (''ov'', null_or overview_json v)]),
             Say ''home base updated by you'' general, PersistCircle, ShowServers]) }"

definition board_content :: "string \<Rightarrow> string \<Rightarrow> jsval dict \<Rightarrow> jsval" where
  "board_content k op rest = JObj ([(''k'', JStr k), (''op'', JStr op)] @ rest)"

definition addNotice :: "string \<Rightarrow> circle \<Rightarrow> jsval \<Rightarrow> bytes \<Rightarrow> rat \<Rightarrow> action" where
  "addNotice me r text idBytes now =
     do { let i = b64url_enc idBytes;
          n \<leftarrow> normalizeNotice (JObj [(''id'', JStr i), (''text'', text), (''ts'', rat_json now)]) (JStr me) now;
          Some (case n of None \<Rightarrow> (r, [])
            | Some x \<Rightarrow> (r\<lparr>notices := Some (upsertNotice (notices r) (Some x))\<rparr>,
                [Send (board_content ''notice'' ''add'' [(''n'', JObj [(''id'', JStr i), (''text'', JStr (not_text x)), (''ts'', rat_json (not_ts x))])]),
                 PersistCircle, ShowServers])) }"

definition removeNotice :: "circle \<Rightarrow> string \<Rightarrow> circle \<times> act list" where
  "removeNotice r i =
     (r\<lparr>notices := Some (filter (\<lambda>n. not_id n \<noteq> i) (list_or_empty (notices r)))\<rparr>,
      [Send (board_content ''notice'' ''del'' [(''id'', JStr i)]), PersistCircle, ShowServers])"

definition addOffer :: "string \<Rightarrow> circle \<Rightarrow> jsval \<Rightarrow> jsval \<Rightarrow> jsval \<Rightarrow> bytes \<Rightarrow> rat \<Rightarrow> action" where
  "addOffer me r text seats note idBytes now =
     do { let i = b64url_enc idBytes;
          x \<leftarrow> normalizeOffer (JObj [(''id'', JStr i), (''text'', text), (''seats'', seats), (''note'', note), (''ts'', rat_json now)]) (JStr me) now;
          Some (case x of None \<Rightarrow> (r, [])
            | Some f \<Rightarrow> (r\<lparr>offers := Some (upsertOffer (offers r) (Some f))\<rparr>,
                [Send (board_content ''offer'' ''add'' [(''o'', JObj [(''id'', JStr i), (''text'', JStr (off_text f)),
                   (''note'', JStr (case off_note f of None \<Rightarrow> [] | Some s \<Rightarrow> s)), (''seats'', nat_json (off_seats f)), (''ts'', rat_json (off_ts f))])]),
                 PersistCircle, ShowServers])) }"

definition takeOffer :: "string \<Rightarrow> circle \<Rightarrow> string \<Rightarrow> bool \<Rightarrow> circle \<times> act list" where
  "takeOffer me r i taking =
     (r\<lparr>offers := Some (applyTake (offers r) (JStr i) me taking)\<rparr>,
      [Send (board_content ''offer'' ''take'' [(''id'', JStr i), (''taking'', JBool taking)]), PersistCircle, ShowServers])"

definition removeOffer :: "circle \<Rightarrow> string \<Rightarrow> circle \<times> act list" where
  "removeOffer r i =
     (r\<lparr>offers := Some (filter (\<lambda>f. off_id f \<noteq> i) (list_or_empty (offers r)))\<rparr>,
      [Send (board_content ''offer'' ''del'' [(''id'', JStr i)]), PersistCircle, ShowServers])"

definition rsvp_answer :: "string \<Rightarrow> circle \<Rightarrow> rat \<Rightarrow> bool \<Rightarrow> rat \<Rightarrow> circle \<times> act list" where
  \<comment> \<open>\<open>rsvp(serverId, at, going)\<close>\<close>
  "rsvp_answer me r t going now =
     (let old = dict_or_empty (rsvps r)
      in (r\<lparr>rsvps := Some (if going then dput old me \<lparr>rsvp_at = t, rsvp_ts = Fin now\<rparr> else ddel old me)\<rparr>,
          [PersistCircle, ShowServers, Send (JObj [(''k'', JStr ''rsvp''), (''at'', rat_json t), (''going'', JBool going)])]))"

section \<open>Who gets in\<close>

definition thresholdFor :: "circle \<Rightarrow> nat throws" where
  "thresholdFor r = normalizeThreshold (threshold_value r) (length (members r))"

definition proposeMember :: "string \<Rightarrow> circle \<Rightarrow> jsval \<Rightarrow> jsval \<Rightarrow> bytes \<Rightarrow> rat \<Rightarrow> action" where
  "proposeMember me r handle why idBytes now =
     do { h \<leftarrow> to_str (coalesce handle (JStr []));
          let who = toLowerCase (trim h);
          if who = [] \<or> who \<in> set (members r) then Some (r, [])
          else do {
            let i = b64url_enc idBytes;
            p \<leftarrow> normalizeProposal (JObj [(''id'', JStr i), (''handle'', JStr who), (''why'', why), (''at'', rat_json now)]) (JStr me) now;
            Some (case p of None \<Rightarrow> (r, [])
              | Some q \<Rightarrow> (r\<lparr>proposals := Some (upsertProposal (proposals r) (Some q))\<rparr>,
                  [Send (board_content ''quorum'' ''propose'' [(''p'', JObj [(''id'', JStr i), (''handle'', JStr who),
                     (''why'', JStr (case prop_why q of None \<Rightarrow> [] | Some s \<Rightarrow> s)), (''at'', rat_json (prop_at q))])]),
                   PersistCircle, ShowServers, AdmitIfCarried i])) } }"

definition signProposal :: "string \<Rightarrow> circle \<Rightarrow> string \<Rightarrow> rat \<Rightarrow> circle \<times> act list" where
  "signProposal me r i now =
     (r\<lparr>proposals := Some (applySignature (proposals r) (JStr i) me now)\<rparr>,
      [Send (board_content ''quorum'' ''sign'' [(''id'', JStr i)]), PersistCircle, ShowServers, AdmitIfCarried i])"

definition objectToProposal :: "string \<Rightarrow> circle \<Rightarrow> string \<Rightarrow> jsval \<Rightarrow> rat \<Rightarrow> action" where
  "objectToProposal me r i why now =
     do { ps \<leftarrow> applyObjection (proposals r) (JStr i) me why now;
          s \<leftarrow> to_str (coalesce why (JStr []));
          Some (r\<lparr>proposals := Some ps\<rparr>,
            [Send (board_content ''quorum'' ''object'' [(''id'', JStr i), (''why'', JStr s)]), PersistCircle, ShowServers]) }"

definition withdrawProposal :: "circle \<Rightarrow> string \<Rightarrow> circle \<times> act list" where
  "withdrawProposal r i =
     (r\<lparr>proposals := Some (filter (\<lambda>p. prop_id p \<noteq> i) (list_or_empty (proposals r)))\<rparr>,
      [Send (board_content ''quorum'' ''withdraw'' [(''id'', JStr i)]), PersistCircle, ShowServers])"

definition setThreshold :: "circle \<Rightarrow> jsval \<Rightarrow> action" where
  "setThreshold r n =
     do { t \<leftarrow> normalizeThreshold n (length (members r));
          Some (r\<lparr>threshold := Some t\<rparr>,
            [Send (JObj [(''k'', JStr ''threshold''), (''n'', nat_json t)]), PersistCircle, ShowServers]) }"

definition admitIfCarried :: "string \<Rightarrow> circle \<Rightarrow> string \<Rightarrow> act list throws" where
  \<comment> \<open>the calls made when the proposal carried and this device is the one to act\<close>
  "admitIfCarried me r i =
     (case find (\<lambda>p. prop_id p = i) (list_or_empty (proposals r)) of
        None \<Rightarrow> Some []
      | Some p \<Rightarrow> do {
          t \<leftarrow> thresholdFor r;
          Some (if \<not> isCarried p t (members r) then []
                else if admitter (roles r) (members r) \<noteq> Some me then []
                else if prop_handle p \<in> set (members r) then []
                else [Deliver (prop_handle p), Withdraw i]) })"

section \<open>What peers make of it\<close>

definition hear :: "ctx \<Rightarrow> string \<Rightarrow> jsval \<Rightarrow> circle \<Rightarrow> circle throws" where
  \<comment> \<open>a peer receives the JSON text of an envelope\<close>
  "hear x sender content p = map_option fst (applyEnvelope p sender (parseEnvelope (stringify content)) x)"

definition sends :: "act list \<Rightarrow> jsval list" where
  "sends acts = concat (map (\<lambda>a. case a of Send c \<Rightarrow> [c] | _ \<Rightarrow> []) acts)"

definition gated :: "act list \<Rightarrow> jsval list" where
  \<comment> \<open>the envelopes a peer applies only from an admin\<close>
  "gated acts = filter (\<lambda>c. oprop c ''k'' \<noteq> JStr ''meta'') (sends acts)"

datatype room_action =
    OpenText string bytes bytes | RenameText string string | DropText string
  | OpenVoice string | RenameVoice string string | DropVoice string

fun do_room :: "room_action \<Rightarrow> circle \<Rightarrow> action" where
  "do_room (OpenText n h k) r = createChannel r n h k"
| "do_room (RenameText a b) r = renameChannel r a b"
| "do_room (DropText a) r = (case deleteChannel r a of Inl e \<Rightarrow> None | Inr out \<Rightarrow> Some out)"
| "do_room (OpenVoice n) r = Some (createVoiceChannel r n)"
| "do_room (RenameVoice a b) r = Some (renameVoiceChannel None r a b)"
| "do_room (DropVoice a) r = Some (deleteVoiceChannel None r a)"

fun fresh_room :: "room_action \<Rightarrow> circle \<Rightarrow> bool" where
  \<comment> \<open>a channel opened has no settings yet, and its key material is drawn at its length\<close>
  "fresh_room (OpenText n h k) r \<longleftrightarrow> length h = 12 \<and> length k = 32 \<and> slug n \<notin> fst ` set (dict_or_empty (chanMeta r))"
| "fresh_room _ r \<longleftrightarrow> True"

definition same_shape :: "circle \<Rightarrow> circle \<Rightarrow> bool" where
  "same_shape r p \<longleftrightarrow> channels p = channels r \<and> voice_rooms p = voice_rooms r \<and>
     deletedChannels p = deletedChannels r \<and> deletedVoice p = deletedVoice r \<and> chanMeta p = chanMeta r"

lemma no_index_fields:
  "\<not> is_index ''k''" "\<not> is_index ''ch''" "\<not> is_index ''to''" "\<not> is_index ''meta''" "\<not> is_index ''hid''" "\<not> is_index ''hkey''"
  by (simp_all add: is_index_def is_digit_def digit_chars_def)

lemma entries_plain: "\<forall>kv \<in> set d. \<not> is_index (fst kv) \<Longrightarrow> entries d = d"
  by (induction d) (simp_all add: entries_def)

lemma wire_contents:
  "parseEnvelope (stringify (chan_content k ch)) = chan_content k ch"
  "parseEnvelope (stringify (rename_content k a b)) = rename_content k a b"
  "parseEnvelope (stringify (chanset_content ch (JObj [(''hid'', JStr h), (''hkey'', JStr q)]))) =
     chanset_content ch (JObj [(''hid'', JStr h), (''hkey'', JStr q)])"
  by (subst parseEnvelope_sent; simp add: chan_content_def rename_content_def chanset_content_def entries_plain no_index_fields)+

definition fresh_meta :: "bytes \<Rightarrow> bytes \<Rightarrow> jsval" where
  "fresh_meta h k = JObj [(''hid'', JStr (generateHistoryId h)), (''hkey'', JStr (generateHistoryKey k))]"

lemma fresh_meta_truthy:
  assumes "length h = 12" "length k = 32"
  shows "generateHistoryId h \<noteq> []" "generateHistoryKey k \<noteq> []"
proof -
  have "h \<noteq> []" "k \<noteq> []" using assms by auto
  then show "generateHistoryId h \<noteq> []" "generateHistoryKey k \<noteq> []"
    by (simp_all add: generateHistoryId_def generateHistoryKey_def b64url_enc_key b64_enc_nonempty)
qed

lemma fresh_chan_meta:
  assumes "ch \<notin> fst ` set (dict_or_empty (chanMeta r))"
  obtains m where "chan_meta_at r (JStr ch) = Some m" "m = JUndef \<or> m = JObj []"
proof -
  have "map_of (dict_or_empty (chanMeta r)) ch = None" using assms by (simp only: map_of_eq_None_iff not_False_eq_True)
  then show thesis using that
    by (cases "chanMeta r") (simp_all only: chan_meta_at_def dget_def dict_or_empty_def option.case to_str.simps Option.bind.simps slot.case if_distrib split: if_split, auto)
qed

lemma ensure_fresh:
  assumes "ch \<notin> fst ` set (dict_or_empty (chanMeta r))"
  shows "ensureChannelKeys r ch h k =
    Some (r\<lparr>chanMeta := Some (AList.update ch (fresh_meta h k) (dict_or_empty (chanMeta r)))\<rparr>, Some (fresh_meta h k))"
proof -
  obtain m where "chan_meta_at r (JStr ch) = Some m" "m = JUndef \<or> m = JObj []" using fresh_chan_meta [OF assms] .
  then show ?thesis
    by (auto simp: ensureChannelKeys_def fresh_meta_def dmerge_def entries_def Let_def)
qed

lemma note_fresh:
  assumes "h \<noteq> []" "k \<noteq> []"
  shows "note_side (JObj [(''hid'', JStr h), (''hkey'', JStr k)]) [] = Some [(JStr h, [JStr k])]"
  using assms by (simp add: note_side_def note_log_def set_add_def)

lemma merge_fresh:
  assumes "m = JUndef \<or> m = JObj []" "length h = 12" "length k = 32"
  shows "mergeChanKeys m (fresh_meta h k) False = Some (fresh_meta h k)"
proof -
  let ?h = "generateHistoryId h" and ?k = "generateHistoryKey k"
  have t: "?h \<noteq> []" "?k \<noteq> []" using fresh_meta_truthy assms by auto
  have "settings_of (fresh_meta h k) = []"
    by (simp add: settings_of_def fresh_meta_def key_fields_def entries_plain no_index_fields)
  moreover have "settings_of m = []" using assms(1) by (auto simp: settings_of_def entries_def)
  moreover have "note_side m [] = Some []" using assms(1) by (auto simp: note_side_def note_log_def)
  moreover have "note_side (fresh_meta h k) [] = Some [(JStr ?h, [JStr ?k])]"
    using note_fresh [OF t] by (simp add: fresh_meta_def)
  moreover have "sort_by_string [JStr ?h] = Some [JStr ?h]" "sort_by_string [JStr ?k] = Some [JStr ?k]"
    by (simp_all add: sort_by_string_def)
  moreover have "write_key m (fresh_meta h k) [(JStr ?h, [JStr ?k])] (JStr ?h) = Some (JStr ?k)"
    using assms(1) t calculation(6) by (auto simp: write_key_def fresh_meta_def)
  moreover have "merged_fields [(JStr ?h, [JStr ?k])] [JStr ?h] (JStr ?k) = [(''hid'', JStr ?h), (''hkey'', JStr ?k)]"
    using t by (simp add: merged_fields_def uniq_def)
  ultimately show ?thesis by (simp add: mergeChanKeys_def dmerge_def) (simp add: fresh_meta_def)
qed

definition heard_like :: "circle \<Rightarrow> circle \<Rightarrow> bool" where
  \<comment> \<open>a peer's rooms, tombstones and room keys are the sender's\<close>
  "heard_like r p \<longleftrightarrow> channels p = channels r \<and> voice_rooms p = voice_rooms r \<and>
     deletedChannels p = deletedChannels r \<and> deletedVoice p = deletedVoice r \<and>
     (\<forall>ch. holds_keys (chanMeta p) ch = holds_keys (chanMeta r) ch)"

lemma hear_kind:
  assumes "parseEnvelope (stringify c) = c" and "ctx_isAdmin x" and "oprop c ''k'' = JStr k" and "handle_kind k p sender c x = Some (p', es)"
  shows "hear x sender c p = Some p'"
proof -
  have "\<not> nullish c" using assms(3) by (cases c) auto
  with assms show ?thesis by (simp add: hear_def applyEnvelope_def refused_def split: option.split)
qed

lemma content_kind [simp]:
  "oprop (metaContent r) ''k'' = JStr ''meta''" "oprop (chan_content k ch) ''k'' = JStr k"
  "oprop (rename_content k a b) ''k'' = JStr k" "oprop (chanset_content ch meta) ''k'' = JStr ''chanset''"
  by (simp_all add: metaContent_def chan_content_def rename_content_def chanset_content_def)

lemma peers_open_text:
  assumes "do_room (OpenText n h k) r = Some (r', acts)" and x: "ctx_isAdmin x" and fresh: "fresh_room (OpenText n h k) r" and p: "same_shape r p"
  shows "\<exists>p'. foldM (hear x me) (gated acts) p = Some p' \<and> heard_like r' p'"
proof (cases "slug n = [] \<or> JStr (slug n) \<in> set (channels r)")
  case True
  with assms(1) p show ?thesis
    by (auto simp: createChannel_def gated_def sends_def heard_like_def same_shape_def)
next
  case False
  let ?ch = "slug n"
  let ?c = "(clearChannelDeleted p (JStr ?ch))\<lparr>channels := channels p @ [JStr ?ch]\<rparr>"
  let ?r1 = "clearChannelDeleted (r\<lparr>channels := channels r @ [JStr ?ch]\<rparr>) (JStr ?ch)"
  have meta: "chanMeta ?r1 = chanMeta r" "chanMeta ?c = chanMeta r"
    using p by (simp_all add: clearChannelDeleted_def same_shape_def)
  have nb: "?ch \<notin> fst ` set (dict_or_empty (chanMeta ?r1))" "?ch \<notin> fst ` set (dict_or_empty (chanMeta ?c))"
    using fresh meta by simp_all
  let ?d = "AList.update ?ch (fresh_meta h k) (dict_or_empty (chanMeta r))"
  have "chan_meta_at (?r1\<lparr>chanMeta := Some ?d\<rparr>) (JStr ?ch) = Some (fresh_meta h k)"
    by (simp add: chan_meta_at_def dget_def update_conv')
  then have "do_room (OpenText n h k) r = Some (?r1\<lparr>chanMeta := Some ?d\<rparr>,
      [Send (chan_content ''chan'' ?ch), Send (chanset_content ?ch (fresh_meta h k)),
       Send (metaContent (?r1\<lparr>chanMeta := Some ?d\<rparr>)), PersistCircle, ShowServers])"
    using False unfolding do_room.simps createChannel_def Let_def ensure_fresh [OF nb(1)] meta by simp
  note out = trans [OF assms(1) [symmetric] this, unfolded option.inject]
  have r': "r' = ?r1\<lparr>chanMeta := Some ?d\<rparr>" using arg_cong [OF out, of fst] unfolding fst_conv .
  have acts: "acts = [Send (chan_content ''chan'' ?ch), Send (chanset_content ?ch (fresh_meta h k)),
       Send (metaContent (?r1\<lparr>chanMeta := Some ?d\<rparr>)), PersistCircle, ShowServers]"
    using arg_cong [OF out, of snd] unfolding snd_conv .
  have acts: "gated acts = [chan_content ''chan'' ?ch, chanset_content ?ch (fresh_meta h k)]"
    unfolding acts by (simp add: gated_def sends_def)
  have "handle_kind ''chan'' p me (chan_content ''chan'' ?ch) x =
      Some (?c, [SystemMessage (c_id p) (''#'' @ ?ch @ '' created by '' @ me) (Some (JStr ?ch)), Backup])"
    using False p by (simp add: handle_kind_def apply_chan_def chan_content_def clearChannelDeleted_def same_shape_def Let_def)
  from hear_kind [OF wire_contents(1) x content_kind(2) this]
  have h1: "hear x me (chan_content ''chan'' ?ch) p = Some ?c" .
  obtain m where m: "chan_meta_at ?c (JStr ?ch) = Some m" "m = JUndef \<or> m = JObj []" using fresh_chan_meta [OF nb(2)] .
  obtain d where d: "describeChanMeta (fresh_meta h k) = Some d"
    by (simp add: describeChanMeta_def fresh_meta_def jget_def)
  have "mergeChanKeys m (fresh_meta h k) False = Some (fresh_meta h k)" using merge_fresh [OF m(2)] fresh by simp
  then have "handle_kind ''chanset'' ?c me (chanset_content ?ch (fresh_meta h k)) x =
     Some (?c\<lparr>chanMeta := Some ?d\<rparr>, [SystemMessage (c_id ?c) (''#'' @ ?ch @ '' settings changed by '' @ me @ d) (Some (JStr ?ch)),
       ApplyRetention (JStr ?ch), BackfillHistory, Backup])"
    using m(1) d meta by (simp add: handle_kind_def apply_chanset_def chanset_content_def fresh_meta_def clearChannelDeleted_def Let_def)
  from hear_kind [OF wire_contents(3) [of ?ch "generateHistoryId h" "generateHistoryKey k", folded fresh_meta_def] x content_kind(4) this]
  have h2: "hear x me (chanset_content ?ch (fresh_meta h k)) ?c = Some (?c\<lparr>chanMeta := Some ?d\<rparr>)" .
  show ?thesis
    unfolding acts r' using h1 h2 p
    by (auto simp: heard_like_def same_shape_def voice_rooms_def clearChannelDeleted_def)
qed

lemma peers_rename_text:
  assumes "do_room (RenameText a b) r = Some (r', acts)" and x: "ctx_isAdmin x" and p: "same_shape r p"
  shows "\<exists>p'. foldM (hear x me) (gated acts) p = Some p' \<and> heard_like r' p'"
proof (cases "slugChannel b = [] \<or> slugChannel b = a \<or> JStr a \<notin> set (channels r) \<or> JStr (slugChannel b) \<in> set (channels r)")
  case True
  with assms(1) p show ?thesis
    by (auto simp: renameChannel_def Let_def gated_def sends_def heard_like_def same_shape_def)
next
  case False
  let ?ch = "slugChannel b"
  let ?base = "\<lambda>q. clearChannelDeleted (markChannelDeleted (q\<lparr>channels := rename_in (JStr a) (JStr ?ch) (channels q)\<rparr>) (JStr a)) (JStr ?ch)"
  from assms(1) False have mv: "move_meta (?base r) (JStr a) (JStr ?ch) = Some r'" and acts: "gated acts = [rename_content ''chan-ren'' a ?ch]"
    by (auto simp: renameChannel_def Let_def gated_def sends_def bind_eq_Some_conv)
  have eq: "chanMeta (?base p) = chanMeta (?base r)" using p by (simp add: same_shape_def mark_defs)
  obtain p' where mp: "move_meta (?base p) (JStr a) (JStr ?ch) = Some p'" and meta: "chanMeta p' = chanMeta r'"
    using mv eq by (auto simp: move_meta_def chan_meta_at_def bind_eq_Some_conv split: option.splits if_splits)
  have "handle_kind ''chan-ren'' p me (rename_content ''chan-ren'' a ?ch) x =
      Some (p', [RenameMessages (c_id p) (JStr a) (JStr ?ch), SystemMessage (c_id p) (''#'' @ a @ '' renamed to #'' @ ?ch) (Some (JStr ?ch)),
        RefreshMessages, Backup])"
    using False p mp by (simp add: handle_kind_def apply_chan_ren_def rename_content_def same_shape_def Let_def)
  from hear_kind [OF wire_contents(2) x content_kind(3) this]
  have "hear x me (rename_content ''chan-ren'' a ?ch) p = Some p'" .
  moreover have "shape p' = shape (?base p)" "shape r' = shape (?base r)" using mp mv move_meta_shape by blast+
  ultimately show ?thesis
    unfolding acts using p meta by (auto simp: heard_like_def same_shape_def shape_def voice_rooms_def mark_defs)
qed

lemma drop_meta_string: "\<exists>r'. drop_meta r (JStr ch) = Some r'"
  by (auto simp: drop_meta_def chan_meta_at_def split: option.split)

lemma peers_drop_text:
  assumes "do_room (DropText a) r = Some (r', acts)" and x: "ctx_isAdmin x" and p: "same_shape r p"
  shows "\<exists>p'. foldM (hear x me) (gated acts) p = Some p' \<and> heard_like r' p'"
proof (cases "JStr a \<in> set (channels r)")
  case False
  with assms(1) p show ?thesis
    by (auto simp: deleteChannel_def gated_def sends_def heard_like_def same_shape_def)
next
  case True
  let ?base = "\<lambda>q. markChannelDeleted (q\<lparr>channels := filter (\<lambda>c. c \<noteq> JStr a) (channels q)\<rparr>) (JStr a)"
  obtain rr where rr: "drop_meta (?base r) (JStr a) = Some rr" using drop_meta_string by blast
  from assms(1) True rr have r': "r' = rr" and len: "1 < length (channels r)" and acts: "gated acts = [chan_content ''chan-del'' a]"
    by (auto simp: deleteChannel_def gated_def sends_def Let_def split: if_splits)
  have eq: "chanMeta (?base p) = chanMeta (?base r)" using p by (simp add: same_shape_def mark_defs)
  obtain p' where mp: "drop_meta (?base p) (JStr a) = Some p'" and meta: "chanMeta p' = chanMeta r'"
    using rr r' eq by (auto simp: drop_meta_def chan_meta_at_def bind_eq_Some_conv split: option.splits if_splits)
  have "handle_kind ''chan-del'' p me (chan_content ''chan-del'' a) x =
      Some (p', [DeleteMessages (c_id p) (JStr a), SystemMessage (c_id p) (''#'' @ a @ '' deleted by '' @ me) None, Backup])"
    using True p mp len by (simp add: handle_kind_def apply_chan_del_def chan_content_def same_shape_def Let_def)
  from hear_kind [OF wire_contents(1) x content_kind(2) this]
  have "hear x me (chan_content ''chan-del'' a) p = Some p'" .
  moreover have "shape p' = shape (?base p)" "shape r' = shape (?base r)" using mp rr r' drop_meta_shape by blast+
  ultimately show ?thesis
    unfolding acts using p meta by (auto simp: heard_like_def same_shape_def shape_def voice_rooms_def mark_defs)
qed

lemma peers_voice:
  assumes "do_room v r = Some (r', acts)" and x: "ctx_isAdmin x" and p: "same_shape r p"
    and v: "v = OpenVoice a \<or> v = RenameVoice a b \<or> v = DropVoice a"
  shows "\<exists>p'. foldM (hear x me) (gated acts) p = Some p' \<and> heard_like r' p'"
proof -
  have one: "\<exists>p'. foldM (hear x me) [c] p = Some p' \<and> heard_like r' p'"
    if "parseEnvelope (stringify c) = c" "oprop c ''k'' = JStr k" "\<exists>p' es. handle_kind k p me c x = Some (p', es) \<and> heard_like r' p'" for c k
    using that hear_kind [OF that(1) x that(2)] by auto
  note defs = handle_kind_def Let_def heard_like_def same_shape_def voice_rooms_def mark_defs gated_def sends_def leave_room_def
  consider "v = OpenVoice a" | "v = RenameVoice a b" | "v = DropVoice a" using v by blast
  then show ?thesis
  proof cases
    case 1
    show ?thesis
    proof (cases "slug a = [] \<or> JStr (slug a) \<in> set (voice_rooms r)")
      case False
      with assms(1) 1 have r': "r' = clearVoiceDeleted (r\<lparr>voiceChannels := Some (voice_rooms r @ [JStr (slug a)])\<rparr>) (JStr (slug a))"
        and acts: "gated acts = [chan_content ''vchan'' (slug a)]" by (auto simp: createVoiceChannel_def gated_def sends_def Let_def)
      show ?thesis unfolding acts
        by (rule one [OF wire_contents(1) content_kind(2)]) (use False p in \<open>auto simp: r' apply_vchan_def chan_content_def defs\<close>)
    qed (use assms(1) p 1 in \<open>auto simp: createVoiceChannel_def defs\<close>)
  next
    case 2
    show ?thesis
    proof (cases "slugChannel b = [] \<or> slugChannel b = a \<or> JStr a \<notin> set (voice_rooms r) \<or> JStr (slugChannel b) \<in> set (voice_rooms r)")
      case False
      with assms(1) 2 have r': "r' = clearVoiceDeleted (markVoiceDeleted (r\<lparr>voiceChannels := Some (rename_in (JStr a) (JStr (slugChannel b)) (voice_rooms r))\<rparr>) (JStr a)) (JStr (slugChannel b))"
        and acts: "gated acts = [rename_content ''vchan-ren'' a (slugChannel b)]"
        by (auto simp: renameVoiceChannel_def gated_def sends_def leave_room_def Let_def)
      show ?thesis unfolding acts
        by (rule one [OF wire_contents(2) content_kind(3)]) (use False p in \<open>auto simp: r' apply_vchan_ren_def rename_content_def defs\<close>)
    qed (use assms(1) p 2 in \<open>auto simp: renameVoiceChannel_def defs\<close>)
  next
    case 3
    show ?thesis
    proof (cases "JStr a \<in> set (voice_rooms r)")
      case True
      with assms(1) 3 have r': "r' = markVoiceDeleted (r\<lparr>voiceChannels := Some (filter (\<lambda>c. c \<noteq> JStr a) (voice_rooms r))\<rparr>) (JStr a)"
        and acts: "gated acts = [chan_content ''vchan-del'' a]"
        by (auto simp: deleteVoiceChannel_def gated_def sends_def leave_room_def Let_def)
      show ?thesis unfolding acts
        by (rule one [OF wire_contents(1) content_kind(2)]) (use True p in \<open>auto simp: r' apply_vchan_del_def chan_content_def defs\<close>)
    qed (use assms(1) p 3 in \<open>auto simp: deleteVoiceChannel_def defs\<close>)
  qed
qed


definition example_room :: room_action where
  "example_room = OpenText ''plans & ideas'' (replicate 12 (CHR ''a'')) (replicate 32 (CHR ''b''))"


section \<open>The acting device's own record stays sound\<close>

lemma ensureChannelKeys_shape: "ensureChannelKeys r ch h k = Some (r', m) \<Longrightarrow> shape r' = shape r"
  by (auto simp: ensureChannelKeys_def shape_def run_simps split: if_splits)

lemma rooms_ok_open: "rooms_ok r \<Longrightarrow> ch \<notin> set (channels r) \<Longrightarrow> rooms_ok (clearChannelDeleted (r\<lparr>channels := channels r @ [ch]\<rparr>) ch)"
  by (simp add: rooms_ok_def voice_rooms_def clearChannelDeleted_def tomb_ok_untombstone)

lemma createChannel_SomeD:
  assumes "createChannel r n h k = Some (r', acts)" and "\<not> (slug n = [] \<or> JStr (slug n) \<in> set (channels r))"
  shows "\<exists>m. ensureChannelKeys (clearChannelDeleted (r\<lparr>channels := channels r @ [JStr (slug n)]\<rparr>) (JStr (slug n))) (slug n) h k = Some (r', m)"
proof (cases "ensureChannelKeys (clearChannelDeleted (r\<lparr>channels := channels r @ [JStr (slug n)]\<rparr>) (JStr (slug n))) (slug n) h k")
  case None
  show ?thesis using assms unfolding createChannel_def Let_def None by simp
next
  case (Some q)
  show ?thesis
    using assms unfolding createChannel_def Let_def Some by (cases q) (auto simp: bind_eq_Some_conv)
qed

lemma own_rooms_ok:
  assumes "do_room a r = Some (r', acts)" and "rooms_ok r"
  shows "rooms_ok r'"
proof (cases a)
  case (OpenText n h k)
  show ?thesis
  proof (cases "slug n = [] \<or> JStr (slug n) \<in> set (channels r)")
    case True
    with assms OpenText show ?thesis by (simp add: createChannel_def Let_def)
  next
    case False
    obtain m where
      "ensureChannelKeys (clearChannelDeleted (r\<lparr>channels := channels r @ [JStr (slug n)]\<rparr>) (JStr (slug n))) (slug n) h k = Some (r', m)"
      using createChannel_SomeD [OF assms(1) [unfolded OpenText do_room.simps] False] by blast
    from shapeD(7) [OF ensureChannelKeys_shape [OF this]] rooms_ok_open [OF assms(2), of "JStr (slug n)"] False show ?thesis by simp
  qed
next
  case (RenameText b c)
  show ?thesis
  proof (cases "slugChannel c = [] \<or> slugChannel c = b \<or> JStr b \<notin> set (channels r) \<or> JStr (slugChannel c) \<in> set (channels r)")
    case True
    with assms RenameText show ?thesis by (auto simp: renameChannel_def Let_def)
  next
    case False
    let ?base = "clearChannelDeleted (markChannelDeleted (r\<lparr>channels := rename_in (JStr b) (JStr (slugChannel c)) (channels r)\<rparr>) (JStr b)) (JStr (slugChannel c))"
    from False assms(1) RenameText have mv: "move_meta ?base (JStr b) (JStr (slugChannel c)) = Some r'"
      by (simp add: renameChannel_def run_simps)
    have "rooms_ok ?base" using assms(2) False
      by (simp add: rooms_ok_def voice_rooms_def mark_defs tomb_ok_untombstone tomb_ok_tombstone distinct_rename_in) (simp add: rename_in_def)
    then show ?thesis using shapeD(7) [OF move_meta_shape [OF mv]] by simp
  qed
next
  case (DropText b)
  obtain q where q: "drop_meta (markChannelDeleted (r\<lparr>channels := filter (\<lambda>c. c \<noteq> JStr b) (channels r)\<rparr>) (JStr b)) (JStr b) = Some q"
    using drop_meta_string by blast
  have "rooms_ok q" if "1 < length (channels r)"
    using assms(2) that filter_other_nonempty [of "channels r" "JStr b"]
    unfolding shapeD(7) [OF drop_meta_shape [OF q]]
    by (simp add: rooms_ok_def voice_rooms_def markChannelDeleted_def tomb_ok_tombstone)
  with DropText assms q show ?thesis by (auto simp: deleteChannel_def Let_def split: if_splits)
next
  case (OpenVoice b)
  with assms show ?thesis
    by (auto simp: createVoiceChannel_def rooms_ok_def voice_rooms_def clearVoiceDeleted_def tomb_ok_untombstone Let_def split: if_splits)
next
  case (RenameVoice b c)
  with assms show ?thesis
    by (auto simp: renameVoiceChannel_def rooms_ok_def voice_rooms_def mark_defs tomb_ok_untombstone tomb_ok_tombstone
        distinct_rename_in Let_def split: if_splits)
next
  case (DropVoice b)
  with assms show ?thesis
    by (auto simp: deleteVoiceChannel_def rooms_ok_def voice_rooms_def markVoiceDeleted_def tomb_ok_tombstone Let_def split: if_splits)
qed

section \<open>Rotating room keys\<close>

definition keyed :: "jsval \<Rightarrow> bool" where
  "keyed m \<longleftrightarrow> truthy (oprop m ''hid'') \<and> truthy (oprop m ''hkey'')"

lemma oprop_dmerge: "oprop (JObj (dmerge d kvs)) f = (case map_of (rev kvs) f of Some v \<Rightarrow> v | None \<Rightarrow> oprop (JObj d) f)"
proof -
  have "map_of (dmerge d kvs) = map_of d ++ map_of (rev kvs)"
    by (induction kvs arbitrary: d) (auto simp: dmerge_def update_conv' map_add_def fun_eq_iff split: option.split)
  then show ?thesis by (simp add: map_add_def split: option.split)
qed

lemma map_of_filter_key: "(\<And>v. P (k, v)) \<Longrightarrow> map_of (filter P xs) k = map_of xs k"
  by (induction xs) auto

lemma map_of_sort_key: "map_of (sort_key (\<lambda>kv. f (fst kv)) xs) k = map_of xs k"
proof -
  let ?P = "\<lambda>kv. f (fst kv) = f k"
  have "map_of (sort_key (\<lambda>kv. f (fst kv)) xs) k = map_of (filter ?P (sort_key (\<lambda>kv. f (fst kv)) xs)) k"
    by (rule map_of_filter_key [symmetric]) simp
  also have "\<dots> = map_of (filter ?P xs) k" by (simp add: sort_key_stable)
  also have "\<dots> = map_of xs k" by (rule map_of_filter_key) simp
  finally show ?thesis .
qed

lemma map_of_entries: "map_of (entries d) k = map_of d k"
proof (cases "is_index k")
  case True
  then have "map_of (filter (\<lambda>kv. \<not> is_index (fst kv)) d) k = None" by (induction d) auto
  moreover have "map_of (filter (\<lambda>kv. is_index (fst kv)) d) k = map_of d k" using True by (intro map_of_filter_key) simp
  ultimately show ?thesis by (simp add: entries_def map_of_sort_key map_add_def split: option.split)
next
  case False
  then have "map_of (filter (\<lambda>kv. is_index (fst kv)) d) k = None" by (induction d) auto
  moreover have "map_of (filter (\<lambda>kv. \<not> is_index (fst kv)) d) k = map_of d k" using False by (intro map_of_filter_key) simp
  ultimately show ?thesis by (simp add: entries_def map_of_sort_key map_add_def split: option.split)
qed

definition rotated_meta :: "jsval \<Rightarrow> bytes \<Rightarrow> jsval" where
  \<comment> \<open>a channel's entry after a rotation\<close>
  "rotated_meta m b = JObj (dmerge (own_entries m)
     [(''hkey'', JStr (generateHistoryKey b)), (''hkeys'', JArr (oprop m ''hkey'' # side_list m ''hkeys''))])"

lemma rotated_meta_fields:
  assumes "keyed m"
  shows "oprop (rotated_meta m b) ''hkey'' = JStr (generateHistoryKey b)"
    "oprop (rotated_meta m b) ''hkeys'' = JArr (oprop m ''hkey'' # side_list m ''hkeys'')"
    "f \<noteq> ''hkey'' \<Longrightarrow> f \<noteq> ''hkeys'' \<Longrightarrow> oprop (rotated_meta m b) f = oprop m f"
proof -
  obtain kvs where m: "m = JObj kvs" using assms by (cases m) (auto simp: keyed_def)
  have "oprop (JObj (entries kvs)) f = oprop (JObj kvs) f" for f by (simp add: map_of_entries)
  then show "oprop (rotated_meta m b) ''hkey'' = JStr (generateHistoryKey b)"
    "oprop (rotated_meta m b) ''hkeys'' = JArr (oprop m ''hkey'' # side_list m ''hkeys'')"
    "f \<noteq> ''hkey'' \<Longrightarrow> f \<noteq> ''hkeys'' \<Longrightarrow> oprop (rotated_meta m b) f = oprop m f"
    unfolding rotated_meta_def oprop_dmerge m own_entries.simps by (simp_all only: map_of.simps rev.simps append.simps fst_conv snd_conv fun_upd_apply option.case if_True if_False list.distinct list.inject char.inject simp_thms)
qed

lemma rotate_one_keyed:
  "rotate_one e b d = Some (d', did) \<Longrightarrow> did = keyed (snd e) \<and> d' = (if did then AList.update (fst e) (rotated_meta (snd e) b) d else d)"
  by (auto simp: rotate_one_def keyed_def rotated_meta_def side_list_def bind_eq_Some_conv split: if_splits)

lemma rotate_all_spec:
  assumes "rotate_all es draws d = Some (d', rotated)" and "distinct (map fst es)"
    and "length (filter (\<lambda>e. keyed (snd e)) es) \<le> length draws"
  shows "rotated = map fst (filter (\<lambda>e. keyed (snd e)) es) \<and>
    (\<forall>c m. (c, m) \<in> set es \<longrightarrow> keyed m \<longrightarrow> (\<exists>b \<in> set draws. map_of d' c = Some (rotated_meta m b))) \<and>
    (\<forall>c. c \<notin> set rotated \<longrightarrow> map_of d' c = map_of d c)"
  using assms
proof (induction es arbitrary: draws d rotated)
  case (Cons e es)
  let ?b = "case draws of [] \<Rightarrow> [] | b # _ \<Rightarrow> b"
  from Cons.prems(1) obtain d1 did rot where one: "rotate_one e ?b d = Some (d1, did)"
    and more: "rotate_all es (if did then tl draws else draws) d1 = Some (d', rot)"
    and rotated: "rotated = (if did then fst e # rot else rot)"
    by (auto simp: bind_eq_Some_conv split: prod.splits)
  from rotate_one_keyed [OF one] have did: "did = keyed (snd e)"
    and d1: "d1 = (if did then AList.update (fst e) (rotated_meta (snd e) ?b) d else d)" by auto
  have len: "length (filter (\<lambda>e. keyed (snd e)) es) \<le> length (if did then tl draws else draws)"
    using Cons.prems(3) did by auto
  from Cons.IH [OF more _ len] Cons.prems(2)
  have IH: "rot = map fst (filter (\<lambda>e. keyed (snd e)) es)"
    "\<And>c m. (c, m) \<in> set es \<Longrightarrow> keyed m \<Longrightarrow> \<exists>b \<in> set (if did then tl draws else draws). map_of d' c = Some (rotated_meta m b)"
    "\<And>c. c \<notin> set rot \<Longrightarrow> map_of d' c = map_of d1 c" by auto
  have fresh: "fst e \<notin> set rot" using Cons.prems(2) IH(1) by auto
  have b: "?b \<in> set draws" if did using Cons.prems(3) did that by (cases draws) auto
  have "\<exists>b \<in> set draws. map_of d' (fst e) = Some (rotated_meta (snd e) b)" if "keyed (snd e)"
    using IH(3) [OF fresh] d1 did that b by (auto simp: update_conv' intro!: bexI [of _ ?b])
  moreover have "set (if did then tl draws else draws) \<subseteq> set draws" by (cases draws) auto
  ultimately have "\<forall>c m. (c, m) \<in> set (e # es) \<longrightarrow> keyed m \<longrightarrow> (\<exists>b \<in> set draws. map_of d' c = Some (rotated_meta m b))"
    using IH(2) by (auto simp del: if_split) (meson subsetD)
  moreover have "\<forall>c. c \<notin> set rotated \<longrightarrow> map_of d' c = map_of d c"
    using IH(3) d1 rotated did by (auto simp: update_conv')
  ultimately show ?case using rotated did IH(1) by simp
qed simp

lemma channelKeys_rotated:
  assumes "keyed m" and "channelKeys m = Some ks"
  shows "\<exists>ks'. channelKeys (rotated_meta m b) = Some ks' \<and> set ks \<subseteq> set ks' \<and> (b \<noteq> [] \<longrightarrow> hd ks' = JStr (generateHistoryKey b))"
proof -
  from assms(2) obtain hk al where hk: "js_iter (coalesce (oprop m ''hkeys'') (JArr [])) = Some hk"
    and al: "js_array (coalesce (oprop m ''alts'') (JArr [])) = Some al"
    and ks: "ks = filter truthy (oprop m ''hkey'' # hk @ map (\<lambda>a. oprop a ''hkey'') al)"
    by (auto simp: channelKeys_def bind_eq_Some_conv)
  have "side_list m ''hkeys'' = hk" by (simp add: side_list_def hk)
  then have "channelKeys (rotated_meta m b) =
      Some (filter truthy (JStr (generateHistoryKey b) # (oprop m ''hkey'' # hk) @ map (\<lambda>a. oprop a ''hkey'') al))"
    using rotated_meta_fields [OF assms(1), where b = b] al by (simp add: channelKeys_def del: oprop.simps)
  then show ?thesis using ks b64_enc_nonempty by (auto simp: generateHistoryKey_def)
qed

lemma rotation_spec:
  assumes "rotateHistoryKeys r draws = Some (r', rotated)" and "distinct (map fst (dict_or_empty (chanMeta r)))"
    and "length (filter (\<lambda>e. keyed (snd e)) (dict_or_empty (chanMeta r))) \<le> length draws" and "[] \<notin> set draws"
    and "map_of (dict_or_empty (chanMeta r)) ch = Some m"
  shows "\<exists>m'. map_of (dict_or_empty (chanMeta r')) ch = Some m' \<and>
    (if keyed m then ch \<in> set rotated \<and> oprop m' ''hid'' = oprop m ''hid'' \<and>
       (\<exists>b \<in> set draws. oprop m' ''hkey'' = JStr (generateHistoryKey b)) \<and>
       (\<forall>ks. channelKeys m = Some ks \<longrightarrow>
          (\<exists>ks'. channelKeys m' = Some ks' \<and> set ks \<subseteq> set ks' \<and> hd ks' = oprop m' ''hkey''))
     else ch \<notin> set rotated \<and> m' = m)"
proof -
  let ?d = "dict_or_empty (chanMeta r)"
  from assms(1) obtain d where all: "rotate_all (entries ?d) draws ?d = Some (d, rotated)"
    and r': "r' = (if rotated = [] then r else r\<lparr>chanMeta := Some d\<rparr>)"
    by (auto simp: rotateHistoryKeys_def bind_eq_Some_conv)
  have "mset (filter (\<lambda>e. keyed (snd e)) (entries ?d)) = mset (filter (\<lambda>e. keyed (snd e)) ?d)" by (simp add: mset_entries)
  from mset_eq_length [OF this] rotate_all_spec [OF all] assms(2,3)
  have spec: "rotated = map fst (filter (\<lambda>e. keyed (snd e)) (entries ?d))"
    "\<And>c m. (c, m) \<in> set ?d \<Longrightarrow> keyed m \<Longrightarrow> \<exists>b \<in> set draws. map_of d c = Some (rotated_meta m b)"
    "\<And>c. c \<notin> set rotated \<Longrightarrow> map_of d c = map_of ?d c" by (auto simp: distinct_map_fst_entries)
  have look: "map_of (dict_or_empty (chanMeta r')) ch = (if rotated = [] then Some m else map_of d ch)"
    using assms(5) by (simp add: r' dict_or_empty_def)
  have inm: "(ch, m) \<in> set ?d" using assms(5) by (rule map_of_SomeD)
  show ?thesis
  proof (cases "keyed m")
    case True
    then have rot: "ch \<in> set rotated" unfolding spec(1) using inm by force
    from spec(2) [OF inm True] obtain b where b: "b \<in> set draws" "map_of d ch = Some (rotated_meta m b)" by blast
    have "b \<noteq> []" using b(1) assms(4) by blast
    with channelKeys_rotated [OF True, of _ b] rotated_meta_fields [OF True, where b = b]
    have "\<forall>ks. channelKeys m = Some ks \<longrightarrow>
          (\<exists>ks'. channelKeys (rotated_meta m b) = Some ks' \<and> set ks \<subseteq> set ks' \<and> hd ks' = oprop (rotated_meta m b) ''hkey'')" by auto
    moreover have "rotated \<noteq> []" using rot by auto
    ultimately show ?thesis using True rot b rotated_meta_fields [OF True, where b = b] look by auto
  next
    case False
    have "m'' = m" if "(ch, m'') \<in> set ?d" for m'' using that assms(2,5) by (metis map_of_is_SomeI option.inject)
    then have "ch \<notin> set rotated" unfolding spec(1) using False by auto
    with spec(3) look assms(5) False show ?thesis by auto
  qed
qed

text \<open>
  A removal changes the key that is written under and no key that is read with. After \<open>rotateHistoryKeys\<close>, every
  channel that had a log keeps it and writes under one of the fresh draws, the keys that open its entries
  include every key that opened them before, and the other channels are left as they were.
\<close>

theorem rotation_keeps_the_past:
  assumes "rotateHistoryKeys r draws = Some (r', rotated)" and "distinct (map fst (dict_or_empty (chanMeta r)))"
    and "length (filter (\<lambda>e. keyed (snd e)) (dict_or_empty (chanMeta r))) \<le> length draws" and "[] \<notin> set draws"
    and "map_of (dict_or_empty (chanMeta r)) ch = Some m"
  shows "\<exists>m'. map_of (dict_or_empty (chanMeta r')) ch = Some m' \<and>
    (if keyed m then ch \<in> set rotated \<and> oprop m' ''hid'' = oprop m ''hid'' \<and>
       (\<exists>b \<in> set draws. oprop m' ''hkey'' = JStr (generateHistoryKey b)) \<and>
       (\<forall>ks. channelKeys m = Some ks \<longrightarrow>
          (\<exists>ks'. channelKeys m' = Some ks' \<and> set ks \<subseteq> set ks' \<and> hd ks' = oprop m' ''hkey''))
     else ch \<notin> set rotated \<and> m' = m)"
  using assms by (rule rotation_spec)

definition example_rotation :: circle where
  "example_rotation = (empty_circle ''c'')\<lparr>chanMeta := Some [(''general'', example_side ''log'' ''old'')]\<rparr>"

theorem rotation_keeps_the_past_witness:
  "\<exists>r' rotated m'. rotateHistoryKeys example_rotation [''fresh''] = Some (r', rotated) \<and>
     map_of (dict_or_empty (chanMeta r')) ''general'' = Some m' \<and> oprop m' ''hkey'' = JStr (generateHistoryKey ''fresh'') \<and>
     (\<exists>ks. channelKeys m' = Some ks \<and> JStr ''old'' \<in> set ks)"
proof -
  let ?m = "example_side ''log'' ''old''"
  have k: "keyed ?m" by (simp add: keyed_def example_side_def)
  have ks: "channelKeys ?m = Some [JStr ''old'']" by (simp add: channelKeys_def example_side_def js_array_def)
  have d: "dict_or_empty (chanMeta example_rotation) = [(''general'', ?m)]" by (simp add: example_rotation_def dict_or_empty_def)
  have "rotate_one (''general'', ?m) ''fresh'' [(''general'', ?m)] =
      Some (AList.update ''general'' (rotated_meta ?m ''fresh'') [(''general'', ?m)], True)"
    by (simp add: rotate_one_def rotated_meta_def side_list_def example_side_def)
  then obtain r' rotated where run: "rotateHistoryKeys example_rotation [''fresh''] = Some (r', rotated)"
    by (auto simp: rotateHistoryKeys_def d entries_plain is_index_def is_digit_def digit_chars_def)
  from rotation_keeps_the_past [OF run, of "''general''" ?m] k ks d
  obtain m' where "map_of (dict_or_empty (chanMeta r')) ''general'' = Some m'"
    "oprop m' ''hkey'' = JStr (generateHistoryKey ''fresh'')" "\<exists>ks'. channelKeys m' = Some ks' \<and> JStr ''old'' \<in> set ks'"
    by (auto simp del: oprop.simps)
  with run show ?thesis by blast
qed

section \<open>One device admits\<close>

lemma admitIfCarried_actor:
  assumes "admitIfCarried me r i = Some acts" and "acts \<noteq> []"
  shows "\<exists>p t. find (\<lambda>p. prop_id p = i) (list_or_empty (proposals r)) = Some p \<and> thresholdFor r = Some t \<and>
    isCarried p t (members r) \<and> admitter (roles r) (members r) = Some me \<and> prop_handle p \<notin> set (members r) \<and>
    acts = [Deliver (prop_handle p), Withdraw i]"
  using assms by (auto simp: admitIfCarried_def bind_eq_Some_conv split: option.splits if_splits)

text \<open>
  One device admits. When the devices of two members hold the same proposal, threshold, roles and roster, in whatever
  order the roster is listed, and both would act on it, they are the same member's: the circle re-keys once. Whoever acts is
  an admin, adds the person proposed, and only when the signatures of current members reach the threshold.
\<close>

theorem one_device_admits:
  assumes "admitIfCarried a r i = Some acts" and "acts \<noteq> []" and "admitIfCarried b q i = Some acts'" and "acts' \<noteq> []"
    and "roles q = roles r" and "mset (members q) = mset (members r)"
  shows "a = b \<and> dget (roles r) a = Own ''admin'' \<and> a \<in> set (members r) \<and>
    (\<exists>p t. p \<in> set (list_or_empty (proposals r)) \<and> prop_id p = i \<and> thresholdFor r = Some t \<and>
       t \<le> length (standingSignatures p (members r)) \<and> acts = [Deliver (prop_handle p), Withdraw i])"
proof -
  from admitIfCarried_actor [OF assms(1,2)] obtain p t where p: "find (\<lambda>p. prop_id p = i) (list_or_empty (proposals r)) = Some p"
    "thresholdFor r = Some t" "isCarried p t (members r)" "admitter (roles r) (members r) = Some a" "acts = [Deliver (prop_handle p), Withdraw i]"
    by blast
  from admitIfCarried_actor [OF assms(3,4)] have "admitter (roles q) (members q) = Some b" by blast
  moreover have "sort (filter P (members q)) = sort (filter P (members r))" for P
    using assms(6) by (metis mset_filter sorted_list_of_multiset_mset)
  ultimately have "a = b" using p(4) assms(5) by (simp add: admitter_def)
  moreover have "a \<in> set (members r) \<and> dget (roles r) a = Own ''admin''"
  proof -
    obtain as where "sort (filter (\<lambda>m. dget (roles r) m = Own ''admin'') (members r)) = a # as"
      using p(4) by (auto simp: admitter_def Let_def split: list.splits)
    then have "a \<in> set (sort (filter (\<lambda>m. dget (roles r) m = Own ''admin'') (members r)))" by (metis list.set_intros(1))
    then show ?thesis by simp
  qed
  moreover have "p \<in> set (list_or_empty (proposals r)) \<and> prop_id p = i"
    using p(1) by (metis (mono_tags, lifting) find_Some_iff nth_mem)
  ultimately show ?thesis using p(2,3,5) by (auto simp: isCarried_def)
qed

definition example_carried :: "string list \<Rightarrow> circle" where
  "example_carried ms = (empty_circle ''c'')\<lparr>members := ms, roles := [(''ann'', ''admin''), (''bob'', ''admin'')],
     threshold := Some 2, proposals := Some [\<lparr>prop_id = ''p'', prop_handle = ''eve'', prop_why = None, prop_by = ''ann'', prop_at = 5,
       signatures = [\<lparr>sig_who = ''ann'', sig_at = 5\<rparr>, \<lparr>sig_who = ''bob'', sig_at = 6\<rparr>], objections = []\<rparr>]\<rparr>"

theorem one_device_admits_witness:
  "\<exists>acts. admitIfCarried ''ann'' (example_carried [''bob'', ''ann'']) ''p'' = Some acts \<and> acts = [Deliver ''eve'', Withdraw ''p''] \<and>
     dget (roles (example_carried [''bob'', ''ann''])) ''ann'' = Own ''admin''"
proof -
  let ?r = "example_carried [''bob'', ''ann'']" and ?q = "example_carried [''ann'', ''bob'']"
  have run: "admitIfCarried ''ann'' ?r ''p'' = Some [Deliver ''eve'', Withdraw ''p'']"
    "admitIfCarried ''ann'' ?q ''p'' = Some [Deliver ''eve'', Withdraw ''p'']"
    by (simp_all add: admitIfCarried_def example_carried_def empty_circle_def thresholdFor_def threshold_value_def normalizeThreshold_def
        isCarried_def standingSignatures_def admitter_def dget_def Let_def list_or_empty_def)
  from one_device_admits [OF run(1) _ run(2)] run(1) show ?thesis
    by (auto simp: example_carried_def)
qed

section \<open>Posting\<close>

datatype posting = PostNotice jsval bytes | PostOffer jsval jsval jsval bytes | TakeSeat string bool

fun do_post :: "string \<Rightarrow> rat \<Rightarrow> posting \<Rightarrow> circle \<Rightarrow> action" where
  "do_post me now (PostNotice text b) r = addNotice me r text b now"
| "do_post me now (PostOffer text seats note b) r = addOffer me r text seats note b now"
| "do_post me now (TakeSeat i taking) r = Some (takeOffer me r i taking)"

lemma board_fields:
  "\<not> is_index ''op''" "\<not> is_index ''n''" "\<not> is_index ''o''" "\<not> is_index ''id''" "\<not> is_index ''text''" "\<not> is_index ''ts''"
  "\<not> is_index ''note''" "\<not> is_index ''seats''" "\<not> is_index ''taking''"
  by (simp_all add: is_index_def is_digit_def digit_chars_def)

lemma whole_nat: "snd (quotient_of (rat_of_nat n)) = 1"
  by simp

lemma wire_board:
  assumes "snd (quotient_of t) = 1"
  shows "parseEnvelope (stringify (board_content k op [(''n'', JObj [(''id'', JStr i), (''text'', JStr s), (''ts'', rat_json t)])])) =
      board_content k op [(''n'', JObj [(''id'', JStr i), (''text'', JStr s), (''ts'', rat_json t)])]"
    and "parseEnvelope (stringify (board_content k op [(''o'', JObj [(''id'', JStr i), (''text'', JStr s), (''note'', JStr nt), (''seats'', nat_json z), (''ts'', rat_json t)])])) =
      board_content k op [(''o'', JObj [(''id'', JStr i), (''text'', JStr s), (''note'', JStr nt), (''seats'', nat_json z), (''ts'', rat_json t)])]"
    and "parseEnvelope (stringify (board_content k op [(''id'', JStr i), (''taking'', JBool b)])) = board_content k op [(''id'', JStr i), (''taking'', JBool b)]"
proof -
  have t: "tidy (rat_json t) = rat_json t" "tidy (nat_json z) = nat_json z" "whole (rat_json t)" "whole (nat_json z)"
    "\<not> is_undef (rat_json t)" "\<not> is_undef (nat_json z)" for z
    using assms by (simp_all add: rat_json_def nat_json_def whole_nat)
  note fields = entries_plain no_index_fields board_fields t
  show "parseEnvelope (stringify (board_content k op [(''n'', JObj [(''id'', JStr i), (''text'', JStr s), (''ts'', rat_json t)])])) =
      board_content k op [(''n'', JObj [(''id'', JStr i), (''text'', JStr s), (''ts'', rat_json t)])]"
    unfolding board_content_def by (subst parseEnvelope_sent) (simp_all add: fields)
  show "parseEnvelope (stringify (board_content k op [(''o'', JObj [(''id'', JStr i), (''text'', JStr s), (''note'', JStr nt), (''seats'', nat_json z), (''ts'', rat_json t)])])) =
      board_content k op [(''o'', JObj [(''id'', JStr i), (''text'', JStr s), (''note'', JStr nt), (''seats'', nat_json z), (''ts'', rat_json t)])]"
    unfolding board_content_def by (subst parseEnvelope_sent) (simp_all add: fields)
  show "parseEnvelope (stringify (board_content k op [(''id'', JStr i), (''taking'', JBool b)])) = board_content k op [(''id'', JStr i), (''taking'', JBool b)]"
    unfolding board_content_def by (subst parseEnvelope_sent) (simp_all add: fields)
qed

lemma notice_wire_again:
  assumes "normalizeNotice (JObj [(''id'', JStr i), (''text'', text), (''ts'', rat_json now)]) (JStr me) now = Some (Some x)"
    and "0 < now" and "now \<le> clock + 60000"
  shows "normalizeNotice (JObj [(''id'', JStr i), (''text'', JStr (not_text x)), (''ts'', rat_json (not_ts x))]) (JStr me) clock = Some (Some x)"
    and "not_ts x = now"
proof -
  from normalizeNotice_SomeD [OF assms(1)] have x: "not_text x \<noteq> []" "length (not_text x) \<le> NOTICE_MAX" "trim (not_text x) = not_text x" by auto
  from assms(1) have f: "not_id x = take 40 i" "not_ts x = now" "not_author x = me" "take 40 i \<noteq> []"
    using assms(2) by (auto simp: normalizeNotice_def bind_eq_Some_conv Let_def rat_json_def sane_ts_def num_prop_def str_prop_def split: if_splits)
  then show "not_ts x = now" by simp
  show "normalizeNotice (JObj [(''id'', JStr i), (''text'', JStr (not_text x)), (''ts'', rat_json (not_ts x))]) (JStr me) clock = Some (Some x)"
    using x f assms(2,3) by (simp add: normalizeNotice_def rat_json_def sane_ts_def num_prop_def str_prop_def)
qed

lemma normalizeSeats_idem: "normalizeSeats (Fin (of_nat (normalizeSeats n))) = normalizeSeats n"
  by (cases n) (auto simp: normalizeSeats_def offer_consts)

lemma offer_wire_again:
  assumes "normalizeOffer (JObj [(''id'', JStr i), (''text'', text), (''seats'', seats), (''note'', note), (''ts'', rat_json now)]) (JStr me) now = Some (Some x)"
    and "0 < now" and "now \<le> clock + 60000"
  shows "normalizeOffer (JObj [(''id'', JStr i), (''text'', JStr (off_text x)), (''note'', JStr (case off_note x of None \<Rightarrow> [] | Some s \<Rightarrow> s)),
      (''seats'', nat_json (off_seats x)), (''ts'', rat_json (off_ts x))]) (JStr me) clock = Some (Some x)"
    and "off_ts x = now"
proof -
  from assms(1) obtain t0 n0 z where f: "off_id x = take 40 i" "off_ts x = now" "off_author x = me" "off_takers x = []" "take 40 i \<noteq> []"
    "off_text x = trim (take OFFER_MAX t0)" "off_note x = nonempty (trim (take OFFER_MAX n0))" "off_seats x = normalizeSeats z" "off_text x \<noteq> []"
    using assms(2) by (auto simp: normalizeOffer_def bind_eq_Some_conv Let_def rat_json_def sane_ts_def num_prop_def str_prop_def split: if_splits)
  then show "off_ts x = now" by simp
  have tt: "trim (take OFFER_MAX (off_text x)) = off_text x" using f(6) length_trim_take [of OFFER_MAX t0] by simp
  have nn: "nonempty (trim (take OFFER_MAX (case off_note x of None \<Rightarrow> [] | Some s \<Rightarrow> s))) = off_note x"
    using f(7) length_trim_take [of OFFER_MAX n0] by (simp add: nonempty_def)
  have ss: "normalizeSeats (Fin (rat_of_nat (off_seats x))) = off_seats x" using f(8) normalizeSeats_idem by simp
  show "normalizeOffer (JObj [(''id'', JStr i), (''text'', JStr (off_text x)), (''note'', JStr (case off_note x of None \<Rightarrow> [] | Some s \<Rightarrow> s)),
      (''seats'', nat_json (off_seats x)), (''ts'', rat_json (off_ts x))]) (JStr me) clock = Some (Some x)"
    using f(1-5,9) tt nn ss assms(2,3)
    by (simp add: normalizeOffer_def rat_json_def nat_json_def sane_ts_def num_prop_def str_prop_def)
qed

lemma peer_posts:
  assumes "parseEnvelope (stringify c) = c" and "oprop c ''k'' = JStr k" and "adminRequirement c = None" and "handle_kind k p me c x = Some (p', es)"
  shows "hear x me c p = Some p'"
proof -
  have "\<not> nullish c" using assms(2) by (cases c) auto
  with assms show ?thesis by (simp add: hear_def applyEnvelope_def refused_def)
qed

text \<open>
  What a member posts reaches the others as posted. A notice, an offer or a claim on a seat, sent as JSON text and applied
  by a peer that held the same boards and whose clock is at most a minute behind, leaves the peer's boards equal to the poster's own,
  with the poster as author; no admin is needed.
\<close>

theorem postings_reach_peers:
  assumes "do_post me now a r = Some (r', acts)" and "0 < now" and "snd (quotient_of now) = 1" and "now \<le> ctx_clock x + 60000"
    and "notices p = notices r" and "offers p = offers r"
  shows "\<exists>p'. foldM (hear x me) (sends acts) p = Some p' \<and>
    list_or_empty (notices p') = list_or_empty (notices r') \<and> list_or_empty (offers p') = list_or_empty (offers r')"
proof (cases a)
  case (PostNotice wording b)
  from assms(1) PostNotice obtain n where n: "normalizeNotice (JObj [(''id'', JStr (b64url_enc b)), (''text'', wording), (''ts'', rat_json now)]) (JStr me) now = Some n"
    by (auto simp: addNotice_def Let_def bind_eq_Some_conv)
  show ?thesis
  proof (cases n)
    case None
    with assms(1,5,6) n PostNotice show ?thesis by (simp add: addNotice_def sends_def)
  next
    case (Some y)
    let ?c = "board_content ''notice'' ''add'' [(''n'', JObj [(''id'', JStr (b64url_enc b)), (''text'', JStr (not_text y)), (''ts'', rat_json (not_ts y))])]"
    note again = notice_wire_again [OF n [unfolded Some] assms(2,4)]
    have r': "r' = r\<lparr>notices := Some (upsertNotice (notices r) (Some y))\<rparr>" "sends acts = [?c]"
      using assms(1) n Some PostNotice by (auto simp: addNotice_def sends_def)
    have "hear x me ?c p = Some (p\<lparr>notices := Some (upsertNotice (notices p) (Some y))\<rparr>)"
      by (rule peer_posts [OF wire_board(1), where k = "''notice''" and es = "[Backup]"])
        (use assms(3) again in \<open>simp_all add: board_content_def adminRequirement_def Let_def handle_kind_def apply_notice_def del: map_of.simps\<close>)
    with r' assms(5,6) show ?thesis by simp
  qed
next
  case (PostOffer wording seats nt b)
  from assms(1) PostOffer obtain n where n: "normalizeOffer (JObj [(''id'', JStr (b64url_enc b)), (''text'', wording), (''seats'', seats), (''note'', nt), (''ts'', rat_json now)]) (JStr me) now = Some n"
    by (auto simp: addOffer_def Let_def bind_eq_Some_conv)
  show ?thesis
  proof (cases n)
    case None
    with assms(1,5,6) n PostOffer show ?thesis by (simp add: addOffer_def sends_def)
  next
    case (Some y)
    let ?c = "board_content ''offer'' ''add'' [(''o'', JObj [(''id'', JStr (b64url_enc b)), (''text'', JStr (off_text y)),
       (''note'', JStr (case off_note y of None \<Rightarrow> [] | Some s \<Rightarrow> s)), (''seats'', nat_json (off_seats y)), (''ts'', rat_json (off_ts y))])]"
    note again = offer_wire_again [OF n [unfolded Some] assms(2,4)]
    have r': "r' = r\<lparr>offers := Some (upsertOffer (offers r) (Some y))\<rparr>" "sends acts = [?c]"
      using assms(1) n Some PostOffer by (auto simp: addOffer_def sends_def)
    have "hear x me ?c p = Some (p\<lparr>offers := Some (upsertOffer (offers p) (Some y))\<rparr>)"
      by (rule peer_posts [OF wire_board(2), where k = "''offer''" and es = "[Backup]"])
        (use assms(3) again in \<open>simp_all add: board_content_def adminRequirement_def Let_def handle_kind_def apply_offer_def\<close>)
    with r' assms(5,6) show ?thesis by simp
  qed
next
  case (TakeSeat i taking)
  let ?c = "board_content ''offer'' ''take'' [(''id'', JStr i), (''taking'', JBool taking)]"
  have r': "r' = r\<lparr>offers := Some (applyTake (offers r) (JStr i) me taking)\<rparr>" "sends acts = [?c]"
    using assms(1) TakeSeat by (auto simp: takeOffer_def sends_def)
  have "hear x me ?c p = Some (p\<lparr>offers := Some (applyTake (offers p) (JStr i) me taking)\<rparr>)"
    by (rule peer_posts [OF wire_board(3) [OF assms(3)], where k = "''offer''" and es = "[Backup]"])
      (simp_all add: board_content_def adminRequirement_def Let_def handle_kind_def apply_offer_def)
  with r' assms(5,6) show ?thesis by simp
qed

theorem postings_reach_peers_witness:
  "\<exists>r' acts p'. do_post ''ann'' 7 (PostNotice (JStr ''tea at five'') [CHR ''x'']) (empty_circle ''c'') = Some (r', acts) \<and>
     foldM (hear (example_ctx False) ''ann'') (sends acts) (empty_circle ''c'') = Some p' \<and>
     list_or_empty (notices p') = list_or_empty (notices r') \<and> map not_author (list_or_empty (notices r')) = [''ann'']"
proof -
  have id: "take 40 (b64url_enc [CHR ''x'']) \<noteq> []" using b64url_enc_key [of "[CHR ''x'']"] by simp
  have "\<exists>y. normalizeNotice (JObj [(''id'', JStr (b64url_enc [CHR ''x''])), (''text'', JStr ''tea at five''), (''ts'', rat_json 7)]) (JStr ''ann'') 7 = Some (Some y) \<and> not_author y = ''ann''"
    using id by (simp add: normalizeNotice_def str_prop_def num_prop_def rat_json_def NOTICE_MAX_def trim_def is_space_def)
  then obtain r' acts where run: "do_post ''ann'' 7 (PostNotice (JStr ''tea at five'') [CHR ''x'']) (empty_circle ''c'') = Some (r', acts)"
    "map not_author (list_or_empty (notices r')) = [''ann'']"
    by (auto simp: addNotice_def empty_circle_def upsertNotice_def newest_first_def NOTICES_MAX_def)
  have "snd (quotient_of 7) = 1" using whole_nat [of 7] by simp
  from postings_reach_peers [OF run(1) _ this, of "example_ctx False" "empty_circle ''c''"] run show ?thesis
    by (auto simp: example_ctx_def)
qed

end
