(* ===== verification/Parking.thy ===== *)
theory Parking
  imports Actions Calls
begin

text \<open>
  The circles on the relay, from \<open>client/src/lib/controller.js\<close>: when the blob is re-parked (\<open>scheduleBackup\<close>,
  \<open>flushBackup\<close>), the compare-and-swap upload with its one retry (\<open>uploadBackup\<close>), reading it back
  (\<open>fetchBackup\<close>, \<open>readCircles\<close>) and adopting circles (\<open>adoptCircles\<close>); and the relay's end of it, the
  in-memory store of \<open>relay/src/store.rs\<close> behind the two messages of \<open>relay/src/server.rs\<close>.
  Versions are natural numbers where the relay has 64-bit integers. An upload runs against the relay's blob with
  the writes of other devices between its calls; the device's own records are those it started with.
\<close>

section \<open>The relay's store\<close>

type_synonym parked = "(bytes \<times> nat) option"

definition set_backup :: "bytes \<Rightarrow> nat option \<Rightarrow> parked \<Rightarrow> (nat \<times> parked) option" where
  \<comment> \<open>\<open>None\<close> is \<open>StoreError::BackupConflict\<close>\<close>
  "set_backup payload expected p =
     (let current = map_option snd p
      in if current \<noteq> expected then None
         else let n = (case current of None \<Rightarrow> 0 | Some v \<Rightarrow> v) + 1 in Some (n, Some (payload, n)))"

datatype set_reply = SetOk nat | SetConflict | SetInvalid

definition relay_set :: "string \<Rightarrow> nat \<Rightarrow> parked \<Rightarrow> set_reply \<times> parked" where
  \<comment> \<open>\<open>BackupSet\<close>: version 0 stands for no blob\<close>
  "relay_set payload version p =
     (case b64_dec payload of None \<Rightarrow> (SetInvalid, p)
      | Some bs \<Rightarrow> (case set_backup bs (if 0 < version then Some version else None) p of
            None \<Rightarrow> (SetConflict, p) | Some (v, p') \<Rightarrow> (SetOk v, p')))"

definition relay_get :: "parked \<Rightarrow> string option \<times> nat" where
  "relay_get p = (map_option (\<lambda>(b, v). b64_enc b) p, case p of None \<Rightarrow> 0 | Some (b, v) \<Rightarrow> v)"

definition version_of :: "parked \<Rightarrow> nat" where
  "version_of p = snd (relay_get p)"

section \<open>The device\<close>

definition BACKUP_VERSION :: nat where "BACKUP_VERSION = 2"
definition BACKUP_DEBOUNCE :: rat where "BACKUP_DEBOUNCE = 3000"
definition BACKUP_MAX_WAIT :: rat where "BACKUP_MAX_WAIT = 8000"

record device =
  servers :: "(jsval \<times> jsval) list"
  deviceState :: "jsval dict"
  mlsGroups :: "jsval list"
  circlesLoaded :: bool
  backupVersion :: nat
  parkedShape :: "string option"
  backupPendingSince :: "rat option"
  backupDirty :: bool
  backupInFlight :: bool
  backupRetry :: bool
  backupTimer :: "rat option"          \<comment> \<open>when the timer set last fires\<close>
  uploading :: string                  \<comment> \<open>the shape an upload in flight is sealing\<close>

definition circleShape :: "device \<Rightarrow> string" where
  "circleShape d = stringify (JArr (map (\<lambda>(i, r). JArr [oprop r ''id'', oprop r ''name'',
     coalesce (oprop r ''channels'') (JArr []), coalesce (oprop r ''voiceChannels'') (JArr [])]) (servers d)))"

definition scheduleBackup :: "rat \<Rightarrow> device \<Rightarrow> device" where
  "scheduleBackup now d =
     (let d1 = d\<lparr>backupDirty := True\<rparr>
      in if backupInFlight d1 then d1
         else let since = (case backupPendingSince d1 of None \<Rightarrow> now | Some t \<Rightarrow> t);
                  structural = (Some (circleShape d1) \<noteq> parkedShape d1);
                  wait = (if structural \<and> \<not> backupRetry d1 then 0
                          else max 0 (min BACKUP_DEBOUNCE (since + BACKUP_MAX_WAIT - now)))
              in d1\<lparr>backupPendingSince := Some since, backupTimer := Some (now + wait)\<rparr>)"

definition flush_begin :: "device \<Rightarrow> device" where
  \<comment> \<open>\<open>flushBackup\<close> up to its \<open>await\<close>\<close>
  "flush_begin d = d\<lparr>backupTimer := None, backupPendingSince := None, backupDirty := False, backupInFlight := True,
     uploading := circleShape d\<rparr>"

datatype upload = Declined | Written | Failed

definition flush_end :: "upload \<Rightarrow> rat \<Rightarrow> device \<Rightarrow> device" where
  \<comment> \<open>\<open>flushBackup\<close> from the upload's answer on\<close>
  "flush_end u now d =
     (let d1 = (case u of
            Declined \<Rightarrow> d\<lparr>backupDirty := True, backupRetry := False\<rparr>
          | Written \<Rightarrow> d\<lparr>parkedShape := Some (uploading d), backupRetry := False\<rparr>
          | Failed \<Rightarrow> d\<lparr>backupDirty := True, backupRetry := True\<rparr>);
          d2 = d1\<lparr>backupInFlight := False\<rparr>
      in if backupDirty d2 then scheduleBackup now d2 else d2)"

section \<open>Reading and writing the blob\<close>

record backup_env =
  be_sha :: "bytes \<Rightarrow> bytes"
  be_enc :: cipher
  be_dec :: cipher
  be_identity :: bytes

definition blob_of :: "jsval list \<Rightarrow> jsval" where
  \<comment> \<open>\<open>{ v: BACKUP_VERSION, servers }\<close>\<close>
  "blob_of ss = JObj [(''v'', nat_json BACKUP_VERSION), (''servers'', JArr ss)]"

definition fetchBackup :: "backup_env \<Rightarrow> parked \<Rightarrow> (jsval \<times> nat) throws" where
  "fetchBackup e p =
     (case relay_get p of (payload, version) \<Rightarrow>
        if payload = None \<or> payload = Some [] then Some (JArr [], version)
        else do {
          backup \<leftarrow> openBackup (be_sha e) (be_dec e) (be_identity e) (the payload);
          v \<leftarrow> jget backup ''v'';
          n \<leftarrow> to_num v;
          if js_lt (Fin (of_nat BACKUP_VERSION)) n then None
          else Some (coalesce (oprop backup ''servers'') (JArr []), version) })"

definition adopt_one :: "rat \<Rightarrow> jsval \<Rightarrow> device \<times> jsval list \<Rightarrow> (device \<times> jsval list) throws" where
  "adopt_one now s acc =
     (case acc of (d, fresh) \<Rightarrow>
        let i = oprop s ''id''
        in if \<not> truthy i \<or> i \<in> fst ` set (servers d) then Some (d, fresh)
           else do {
             k \<leftarrow> to_str i;
             rec \<leftarrow> hydrate s (case dget (deviceState d) k of Own v \<Rightarrow> v | Proto \<Rightarrow> JObj [] | Absent \<Rightarrow> JUndef) now (i \<in> set (mlsGroups d));
             ov \<leftarrow> normalizeOverview (oprop s ''overview'') now;
             ns \<leftarrow> normalizeNotices (array_or_empty (oprop s ''notices'')) now;
             let r = JObj (AList.update ''notices'' (JArr (map notice_wire ns)) (AList.update ''overview'' (null_or overview_json ov) rec));
             Some (d\<lparr>servers := servers d @ [(i, r)]\<rparr>, fresh @ [r]) })"

definition adoptCircles :: "rat \<Rightarrow> jsval list \<Rightarrow> device \<Rightarrow> (device \<times> jsval list) throws" where
  "adoptCircles now ss d = foldM (adopt_one now) ss (d, [])"

definition readCircles :: "backup_env \<Rightarrow> rat \<Rightarrow> parked \<Rightarrow> device \<Rightarrow> (device \<times> jsval list) throws" where
  \<comment> \<open>the system lines and the name cache written for fresh circles are not part of the state here\<close>
  "readCircles e now p d =
     do { (ss, version) \<leftarrow> fetchBackup e p;
          list \<leftarrow> js_iter ss;
          adoptCircles now list (d\<lparr>backupVersion := version, circlesLoaded := True\<rparr>) }"

definition retry_upload ::
  "backup_env \<Rightarrow> rat \<Rightarrow> bytes \<Rightarrow> (parked \<Rightarrow> parked) \<Rightarrow> jsval list \<Rightarrow> device \<Rightarrow> parked \<Rightarrow> upload \<times> device \<times> parked" where
  \<comment> \<open>\<open>uploadBackup\<close> after a conflict: re-read, fold ours over theirs, try once more\<close>
  "retry_upload e now iv others mine d p =
     (case fetchBackup e p of None \<Rightarrow> (Failed, d, p)
      | Some (theirs, v) \<Rightarrow>
          let d1 = d\<lparr>backupVersion := v\<rparr>
          in (case do { merged \<leftarrow> mergeBackups (JArr mine) theirs;
                        payload \<leftarrow> sealBackup (be_sha e) (be_enc e) iv (be_identity e) (blob_of merged);
                        Some (merged, payload) } of
                None \<Rightarrow> (Failed, d1, p)
              | Some (merged, payload) \<Rightarrow>
                  (case relay_set payload v (others p) of
                     (SetOk v', p') \<Rightarrow>
                       (case adoptCircles now merged (d1\<lparr>backupVersion := v'\<rparr>) of
                          None \<Rightarrow> (Failed, d1\<lparr>backupVersion := v'\<rparr>, p')
                        | Some (d2, fresh) \<Rightarrow> (Written, d2, p'))
                   | (_, p') \<Rightarrow> (Failed, d1, p'))))"

definition uploadBackup ::
  "backup_env \<Rightarrow> bool \<Rightarrow> rat \<Rightarrow> bytes \<Rightarrow> bytes \<Rightarrow> (parked \<Rightarrow> parked) \<Rightarrow> (parked \<Rightarrow> parked) \<Rightarrow> device \<Rightarrow> parked \<Rightarrow> upload \<times> device \<times> parked" where
  \<comment> \<open>\<open>ready\<close> is \<open>relay?.ready\<close>; \<open>others\<close> are the writes of other devices before the re-read and before the second attempt\<close>
  "uploadBackup e ready now iv1 iv2 others1 others2 d p =
     (if \<not> ready \<or> \<not> circlesLoaded d then (Declined, d, p)
      else case do { mine \<leftarrow> mapM (\<lambda>(i, r). map_option JObj (sharedHalf r)) (servers d);
                     payload \<leftarrow> sealBackup (be_sha e) (be_enc e) iv1 (be_identity e) (blob_of mine);
                     Some (mine, payload) } of
             None \<Rightarrow> (Failed, d, p)
           | Some (mine, payload) \<Rightarrow>
               (case relay_set payload (backupVersion d) p of
                  (SetOk v, p') \<Rightarrow> (Written, d\<lparr>backupVersion := v\<rparr>, p')
                | (SetInvalid, p') \<Rightarrow> (Failed, d, p')
                | (SetConflict, p') \<Rightarrow> retry_upload e now iv2 others2 mine d (others1 p')))"

section \<open>The schedule\<close>

definition new_device :: device where
  "new_device = \<lparr>servers = [], deviceState = [], mlsGroups = [], circlesLoaded = False, backupVersion = 0, parkedShape = None,
     backupPendingSince = None, backupDirty = False, backupInFlight = False, backupRetry = False, backupTimer = None, uploading = []\<rparr>"

inductive parking_run :: "device \<Rightarrow> rat \<Rightarrow> bool" where
  start: "parking_run new_device t"
| mutate: "parking_run d t \<Longrightarrow> t \<le> now \<Longrightarrow> parking_run (scheduleBackup now (d\<lparr>servers := ss\<rparr>)) now"
| load: "parking_run d t \<Longrightarrow> t \<le> now \<Longrightarrow> \<not> backupInFlight d \<Longrightarrow>
    parking_run (d\<lparr>servers := ss, circlesLoaded := True, backupVersion := v\<rparr>) now"
| fire: "parking_run d t \<Longrightarrow> backupTimer d = Some due \<Longrightarrow> t \<le> now \<Longrightarrow> due \<le> now \<Longrightarrow> parking_run (flush_begin d) now"
| finish: "parking_run d t \<Longrightarrow> backupInFlight d \<Longrightarrow> t \<le> now \<Longrightarrow> (circlesLoaded d \<or> u = Declined) \<Longrightarrow>
    parking_run (flush_end u now (d\<lparr>servers := ss, backupVersion := v\<rparr>)) now"

inductive_cases parking_runE: "parking_run d t"

definition schedule_sound :: "device \<Rightarrow> rat \<Rightarrow> bool" where
  \<comment> \<open>a change waits for a timer or an upload, never for both or neither, and the timer is never far off\<close>
  "schedule_sound d t \<longleftrightarrow>
     (backupDirty d \<longrightarrow> (backupInFlight d \<longleftrightarrow> backupTimer d = None)) \<and>
     (backupInFlight d \<longrightarrow> backupTimer d = None) \<and>
     (\<forall>due. backupTimer d = Some due \<longrightarrow> due \<le> t + BACKUP_DEBOUNCE \<and>
        (\<exists>since. backupPendingSince d = Some since \<and> since \<le> t \<and> due \<le> max t (since + BACKUP_MAX_WAIT)))"

lemmas wait_consts = BACKUP_DEBOUNCE_def BACKUP_MAX_WAIT_def

lemma schedule_sound_scheduled:
  assumes "backupInFlight d \<longrightarrow> backupTimer d = None" and "\<forall>since. backupPendingSince d = Some since \<longrightarrow> since \<le> now"
  shows "schedule_sound (scheduleBackup now d) now"
  using assms by (auto simp: schedule_sound_def scheduleBackup_def Let_def wait_consts split: option.splits)

lemma schedule_sound_later: "schedule_sound d t \<Longrightarrow> t \<le> now \<Longrightarrow> schedule_sound d now"
  unfolding schedule_sound_def by (fastforce simp: max_def split: if_splits)

definition pending_past :: "device \<Rightarrow> rat \<Rightarrow> bool" where
  "pending_past d t \<longleftrightarrow> (\<forall>since. backupPendingSince d = Some since \<longrightarrow> since \<le> t)"

lemma schedule_sound_finish:
  assumes "pending_past d now" and "backupInFlight d \<longrightarrow> backupTimer d = None" and "backupInFlight d"
  shows "schedule_sound (flush_end u now (d\<lparr>servers := ss, backupVersion := v\<rparr>)) now"
proof (cases "u = Written \<and> \<not> backupDirty d")
  case True
  with assms show ?thesis by (simp add: schedule_sound_def flush_end_def Let_def)
next
  case False
  then show ?thesis
    unfolding flush_end_def Let_def using assms
    by (cases u) (auto intro!: schedule_sound_scheduled simp: pending_past_def)
qed

lemma pending_past_simps:
  "pending_past d now \<Longrightarrow> pending_past (scheduleBackup now (d\<lparr>servers := ss\<rparr>)) now"
  "pending_past (flush_begin d) now"
  "pending_past d now \<Longrightarrow> pending_past (flush_end u now (d\<lparr>servers := ss, backupVersion := v\<rparr>)) now"
  by (cases u; auto simp: pending_past_def scheduleBackup_def flush_begin_def flush_end_def Let_def split: option.splits)+

lemma parking_run_sound: "parking_run d t \<Longrightarrow> schedule_sound d t \<and> pending_past d t"
proof (induction rule: parking_run.induct)
  case (start t)
  show ?case by (simp add: new_device_def schedule_sound_def pending_past_def)
next
  case (mutate d t now ss)
  then have past: "pending_past d now" by (auto simp: pending_past_def)
  have "schedule_sound (scheduleBackup now (d\<lparr>servers := ss\<rparr>)) now"
    by (rule schedule_sound_scheduled) (use mutate past in \<open>auto simp: schedule_sound_def pending_past_def\<close>)
  with pending_past_simps(1) [OF past] show ?case by blast
next
  case (load d t now ss v)
  from schedule_sound_later [of d t now] load have "schedule_sound d now" "pending_past d now" by (auto simp: pending_past_def)
  then show ?case by (simp add: schedule_sound_def pending_past_def)
next
  case (fire d t due now)
  show ?case using pending_past_simps(2) by (simp add: schedule_sound_def flush_begin_def pending_past_def)
next
  case (finish d t now u ss v)
  then have past: "pending_past d now" by (auto simp: pending_past_def)
  have "backupTimer d = None" using finish by (simp add: schedule_sound_def)
  with schedule_sound_finish [OF past] finish.hyps pending_past_simps(3) [OF past] show ?case by blast
qed

text \<open>
  C38: no change to the circles is left unparked. Through every sequence of changes, loads, timers and finished uploads, a device
  with an unparked change has a timer set or an upload in flight, never both, so one upload runs at a time; the timer fires
  within the debounce of the last change and within the ceiling of the first one however many follow.
\<close>

theorem changes_are_always_scheduled:
  assumes "parking_run d t"
  shows "(backupDirty d \<longrightarrow> (backupInFlight d \<longleftrightarrow> backupTimer d = None)) \<and> (backupInFlight d \<longrightarrow> backupTimer d = None) \<and>
    (\<forall>due. backupTimer d = Some due \<longrightarrow> due \<le> t + BACKUP_DEBOUNCE \<and>
       (\<exists>since. backupPendingSince d = Some since \<and> since \<le> t \<and> due \<le> max t (since + BACKUP_MAX_WAIT)))"
  using parking_run_sound [OF assms] by (simp add: schedule_sound_def)

theorem changes_are_always_scheduled_witness:
  "parking_run (scheduleBackup 5 (new_device\<lparr>servers := [(JStr ''c'', JObj [])]\<rparr>)) 5 \<and>
   backupDirty (scheduleBackup 5 (new_device\<lparr>servers := [(JStr ''c'', JObj [])]\<rparr>)) \<and>
   backupTimer (scheduleBackup 5 (new_device\<lparr>servers := [(JStr ''c'', JObj [])]\<rparr>)) \<noteq> None"
proof -
  let ?d = "scheduleBackup 5 (new_device\<lparr>servers := [(JStr ''c'', JObj [])]\<rparr>)"
  have run: "parking_run ?d 5" using parking_run.mutate [OF parking_run.start, of 5 5] by simp
  have "backupDirty ?d" "\<not> backupInFlight ?d" by (simp_all add: scheduleBackup_def new_device_def Let_def)
  with changes_are_always_scheduled [OF run] run show ?thesis by blast
qed

text \<open>
  A structural change is parked at once: nothing else is waited for, unless the last upload failed.
\<close>

lemma structural_change_parks_now:
  assumes "Some (circleShape d) \<noteq> parkedShape d" and "\<not> backupInFlight d" and "\<not> backupRetry d"
  shows "backupTimer (scheduleBackup now d) = Some now"
  using assms by (simp add: scheduleBackup_def circleShape_def Let_def)

lemma in_flight_seals_current:
  "parking_run d t \<Longrightarrow> backupInFlight d \<Longrightarrow> \<not> backupDirty d \<Longrightarrow> uploading d = circleShape d"
proof (induction rule: parking_run.induct)
  case (finish d t now u ss v)
  then show ?case by (cases u) (auto simp: flush_end_def scheduleBackup_def Let_def split: if_splits)
qed (auto simp: new_device_def scheduleBackup_def flush_begin_def circleShape_def Let_def split: if_splits)

text \<open>
  An upload that declines, because the relay is away or no load has succeeded, is tried again at once for as long as the
  parked shape differs: the timer set on its return is due the moment it is set.
\<close>

theorem declined_upload_spins:
  assumes "backupInFlight d" and "Some (circleShape d) \<noteq> parkedShape d"
  shows "backupTimer (flush_end Declined now d) = Some now \<and> \<not> backupInFlight (flush_end Declined now d)"
  using assms by (simp add: flush_end_def scheduleBackup_def circleShape_def Let_def)

section \<open>What a write leaves on the relay\<close>

definition parked_list :: "backup_env \<Rightarrow> parked \<Rightarrow> jsval list" where
  \<comment> \<open>the circles a device of the account reads from the relay\<close>
  "parked_list e p = (case fetchBackup e p of None \<Rightarrow> []
     | Some (ss, v) \<Rightarrow> (case js_iter ss of None \<Rightarrow> [] | Some l \<Rightarrow> l))"

definition names_in :: "jsval list \<Rightarrow> string set" where
  "names_in cs = {i. i \<noteq> [] \<and> (\<exists>c \<in> set cs. oprop c ''id'' = JStr i)}"

definition parked_names :: "backup_env \<Rightarrow> parked \<Rightarrow> string set" where
  "parked_names e p = names_in (parked_list e p)"

definition held_names :: "device \<Rightarrow> string set" where
  "held_names d = {i. i \<noteq> [] \<and> JStr i \<in> fst ` set (servers d)}"

definition run_writes :: "(string \<times> nat) list \<Rightarrow> parked \<Rightarrow> parked" where
  \<comment> \<open>the writes of other devices, in the order the relay receives them\<close>
  "run_writes ws p = fold (\<lambda>(payload, v) q. snd (relay_set payload v q)) ws p"

definition keyed_by_id :: "device \<Rightarrow> bool" where
  "keyed_by_id d \<longleftrightarrow> (\<forall>(i, r) \<in> set (servers d). oprop r ''id'' = i \<and> whole r)"

lemma names_in_ids: "names_in cs = {i. JStr i \<in> circle_ids cs}"
  by (auto simp: names_in_def circle_ids_def)

lemma oprop_tidy:
  assumes "whole c"
  shows "oprop (tidy c) f = JStr i \<longleftrightarrow> oprop c f = JStr i"
proof (cases c)
  case (JObj kvs)
  have d: "distinct (map fst kvs)" using assms JObj by simp
  have "map_of (map (\<lambda>(k, v). (k, tidy v)) (filter (\<lambda>(k, v). \<not> is_undef v) kvs)) f =
      (case map_of kvs f of None \<Rightarrow> None | Some v \<Rightarrow> if is_undef v then None else Some (tidy v))"
    using d
  proof (induction kvs)
    case (Cons kv kvs)
    show ?case
    proof (cases "fst kv = f")
      case True
      with Cons.prems have "map_of kvs f = None" by (simp only: map_of_eq_None_iff) auto
      with Cons True show ?thesis by (cases kv) simp
    qed (use Cons in \<open>cases kv; simp\<close>)
  qed simp
  moreover have t: "tidy v = JStr i \<longleftrightarrow> v = JStr i" for v by (cases v) simp_all
  ultimately show ?thesis by (cases "map_of kvs f") (simp_all add: JObj map_of_entries, cases "the (map_of kvs f)", simp_all)
qed auto

lemma names_in_tidy: "list_all whole cs \<Longrightarrow> names_in (map tidy cs) = names_in cs"
  by (auto simp: names_in_def list_all_iff oprop_tidy)

lemma sealed_payload:
  assumes "length iv = 12" and "sealBackup sha enc iv identity rec = Some payload"
  obtains blob where "payload = b64_enc blob" "b64_dec payload = Some blob" "payload \<noteq> []"
proof -
  from assms(2) obtain blob where blob: "encryptBlob enc iv (deriveBackupKey sha identity) (utf8_enc (stringify rec)) = Some blob"
    and payload: "payload = b64_enc blob" by (auto simp: sealBackup_def bind_eq_Some_conv simp del: stringify.simps)
  from blob have "blob \<noteq> []" using assms(1) by (auto simp: encryptBlob_def bind_eq_Some_conv)
  with payload b64_enc_nonempty b64_enc_dec that show thesis by blast
qed

lemma parked_after_write:
  assumes "aead_opens (be_enc e) (be_dec e)" and "length iv = 12" and "list_all whole ss"
    and "sealBackup (be_sha e) (be_enc e) iv (be_identity e) (blob_of ss) = Some payload" and "relay_set payload v p = (SetOk v', p')"
  shows "parked_list e p' = map tidy ss" and "version_of p' = v'" and "version_of p = v"
proof -
  obtain blob where b: "payload = b64_enc blob" "b64_dec payload = Some blob" "payload \<noteq> []" using sealed_payload [OF assms(2,4)] .
  from assms(5) b(2) have p': "p' = Some (blob, v')" and cur: "map_option snd p = (if 0 < v then Some v else None)"
    by (auto simp: relay_set_def set_backup_def Let_def split: option.splits if_splits)
  have w: "whole (blob_of ss)" using assms(3) by (simp add: blob_of_def nat_json_def whole_nat)
  have "tidy (blob_of ss) = JObj [(''v'', nat_json BACKUP_VERSION), (''servers'', JArr (map tidy ss))]"
    by (simp add: blob_of_def nat_json_def entries_plain is_index_def is_digit_def digit_chars_def)
  with backup_roundtrip [OF assms(1,2) w assms(4)] b
  have "fetchBackup e p' = Some (JArr (map tidy ss), v')"
    by (simp add: fetchBackup_def relay_get_def p' jget_def nat_json_def js_lt_def)
  then show "parked_list e p' = map tidy ss" by (simp add: parked_list_def)
  show "version_of p' = v'" by (simp add: version_of_def relay_get_def p')
  show "version_of p = v" using cur by (cases p) (auto simp: version_of_def relay_get_def split: if_splits)
qed

lemma sharedHalf_id:
  assumes "sharedHalf r = Some sh"
  shows "oprop (JObj sh) ''id'' = oprop r ''id''"
proof -
  from assms obtain chans voice where "sh = assign (pick r SHARED_FIELDS)
     [(''channels'', JArr chans), (''voiceChannels'', JArr voice), (''chanMeta'', coalesce (oprop r ''chanMeta'') (JObj [])),
      (''keys'', coalesce (oprop r ''keys'') (JObj [])), (''notices'', coalesce (oprop r ''notices'') (JArr [])),
      (''rsvps'', coalesce (oprop r ''rsvps'') (JObj [])), (''invites'', coalesce (oprop r ''invites'') (JArr [])),
      (''overview'', coalesce (oprop r ''overview'') JNull)]"
    by (auto simp: sharedHalf_def bind_eq_Some_conv simp del: oprop.simps)
  then show ?thesis by (simp add: oprop_assign oprop_pick SHARED_FIELDS_def del: oprop.simps)
qed

lemma whole_oprop: "whole v \<Longrightarrow> whole (oprop v f)"
  by (cases v) (auto simp: list_all_iff split: option.split dest!: map_of_SomeD)

lemma whole_coalesce: "whole v \<Longrightarrow> whole d \<Longrightarrow> whole (coalesce v d)"
  by (simp add: coalesce_def)

lemma whole_iter: "whole v \<Longrightarrow> js_iter v = Some vs \<Longrightarrow> list_all whole vs"
  by (cases v) (auto simp: list_all_iff)

lemma whole_assign:
  assumes "whole (JObj d)" and "list_all (\<lambda>kv. whole (snd kv)) kvs"
  shows "whole (JObj (assign d kvs))"
  using assms
proof (induction kvs arbitrary: d)
  case (Cons kv kvs)
  have "whole (JObj (AList.update (fst kv) (snd kv) d))"
    using Cons.prems set_update [of "fst kv" "snd kv" d] by (auto simp: list_all_iff distinct_update)
  with Cons.IH Cons.prems show ?case by (simp add: assign_def split_beta)
qed (simp add: assign_def)

lemma whole_pick:
  assumes "whole r" and "distinct fs"
  shows "whole (JObj (pick r fs))"
proof -
  have "map fst (pick r fs) = filter (\<lambda>f. oprop r f \<noteq> JUndef) fs" by (induction fs) (simp_all add: pick_def)
  moreover have "whole v" if "(k, v) \<in> set (pick r fs)" for k v using that whole_oprop [OF assms(1)] by (auto simp: pick_def)
  ultimately show ?thesis using assms(2) by (auto simp: list_all_iff)
qed

lemma whole_sharedHalf:
  assumes "sharedHalf r = Some sh" and "whole r"
  shows "whole (JObj sh)"
proof -
  from assms(1) obtain cv cs vs where c: "jget r ''channels'' = Some cv" "(if length_truthy cv then js_iter cv else Some [JStr ''general'']) = Some cs"
    and v: "js_iter (coalesce (oprop r ''voiceChannels'') (JArr [JStr ''lounge''])) = Some vs"
    and sh: "sh = assign (pick r SHARED_FIELDS)
     [(''channels'', JArr cs), (''voiceChannels'', JArr vs), (''chanMeta'', coalesce (oprop r ''chanMeta'') (JObj [])),
      (''keys'', coalesce (oprop r ''keys'') (JObj [])), (''notices'', coalesce (oprop r ''notices'') (JArr [])),
      (''rsvps'', coalesce (oprop r ''rsvps'') (JObj [])), (''invites'', coalesce (oprop r ''invites'') (JArr [])),
      (''overview'', coalesce (oprop r ''overview'') JNull)]"
    by (auto simp: sharedHalf_def bind_eq_Some_conv simp del: oprop.simps)
  have "whole cv" using c(1) whole_oprop [OF assms(2)] by (auto simp: jget_def simp del: oprop.simps split: if_splits)
  then have "list_all whole cs" using c(2) whole_iter by (auto split: if_splits)
  moreover have "list_all whole vs" using whole_iter [OF whole_coalesce [OF whole_oprop [OF assms(2)]] v] by simp
  moreover have "whole (JObj (pick r SHARED_FIELDS))" using whole_pick [OF assms(2)] by (simp add: SHARED_FIELDS_def)
  ultimately show ?thesis unfolding sh using whole_oprop [OF assms(2)]
    by (intro whole_assign) (simp_all add: whole_coalesce del: oprop.simps)
qed

lemma adopt_one_holds:
  assumes "adopt_one now s (d, fr) = Some (d', fr')"
  shows "fst ` set (servers d) \<subseteq> fst ` set (servers d')" and "truthy (oprop s ''id'') \<Longrightarrow> oprop s ''id'' \<in> fst ` set (servers d')"
  using assms by (auto simp: adopt_one_def Let_def bind_eq_Some_conv simp del: oprop.simps split: if_splits)

lemma adoptCircles_holds:
  assumes "foldM (adopt_one now) ss (d, fr) = Some (d', fr')"
  shows "fst ` set (servers d) \<union> circle_ids ss \<subseteq> fst ` set (servers d')"
  using assms
proof (induction ss arbitrary: d fr)
  case (Cons s ss)
  from Cons.prems obtain d1 fr1 where one: "adopt_one now s (d, fr) = Some (d1, fr1)" and more: "foldM (adopt_one now) ss (d1, fr1) = Some (d', fr')"
    by (auto simp: bind_eq_Some_conv)
  have "circle_ids (s # ss) \<subseteq> (if truthy (oprop s ''id'') then {oprop s ''id''} else {}) \<union> circle_ids ss"
    by (auto simp: circle_ids_def simp del: oprop.simps)
  moreover have "(if truthy (oprop s ''id'') then {oprop s ''id''} else {}) \<subseteq> fst ` set (servers d1)"
    using adopt_one_holds(2) [OF one] by (simp del: oprop.simps)
  ultimately show ?case using adopt_one_holds(1) [OF one] Cons.IH [OF more] by blast
qed (simp add: circle_ids_def)

lemma mine_names:
  assumes "keyed_by_id d" and "mapM (\<lambda>(i, r). map_option JObj (sharedHalf r)) (servers d) = Some mine"
  shows "names_in mine = held_names d" and "list_all whole mine"
proof -
  have ex: "\<exists>ir \<in> set (servers d). map_option JObj (sharedHalf (snd ir)) = Some c" if "c \<in> set mine" for c
    using mapM_Some_set [OF assms(2) that] by force
  have half: "\<exists>c \<in> set mine. map_option JObj (sharedHalf (snd ir)) = Some c" if mem: "ir \<in> set (servers d)" for ir
  proof -
    from assms(2) have all: "list_all2 (\<lambda>ir c. map_option JObj (sharedHalf (snd ir)) = Some c) (servers d) mine"
      unfolding mapM_Some_iff by (rule list_all2_mono) (simp split: prod.splits)
    obtain n where n: "n < length (servers d)" "servers d ! n = ir" using mem unfolding in_set_conv_nth by blast
    have "mine ! n \<in> set mine" using n(1) list_all2_lengthD [OF all] by simp
    with list_all2_nthD [OF all n(1)] n(2) show ?thesis by auto
  qed
  have ids: "oprop c ''id'' = fst ir" "whole c" if "ir \<in> set (servers d)" "map_option JObj (sharedHalf (snd ir)) = Some c" for ir c
    using that assms(1) sharedHalf_id whole_sharedHalf by (auto simp: keyed_by_id_def split_beta simp del: oprop.simps)
  show "list_all whole mine" unfolding list_all_iff using ex ids(2) by blast
  show "names_in mine = held_names d"
  proof (intro equalityI subsetI)
    fix i assume "i \<in> names_in mine"
    then obtain c where c: "i \<noteq> []" "c \<in> set mine" "oprop c ''id'' = JStr i" by (auto simp: names_in_def)
    from ex [OF c(2)] obtain ir where ir: "ir \<in> set (servers d)" "map_option JObj (sharedHalf (snd ir)) = Some c" by blast
    have "JStr i = fst ir" using ids(1) [OF ir] c(3) by simp
    with ir(1) c(1) show "i \<in> held_names d" unfolding held_names_def by (metis (mono_tags, lifting) image_eqI mem_Collect_eq)
  next
    fix i assume "i \<in> held_names d"
    then obtain ir where ir: "i \<noteq> []" "ir \<in> set (servers d)" "JStr i = fst ir" by (auto simp: held_names_def)
    from half [OF ir(2)] obtain c where c: "c \<in> set mine" "map_option JObj (sharedHalf (snd ir)) = Some c" by blast
    have "oprop c ''id'' = JStr i" using ids(1) [OF ir(2) c(2)] ir(3) by simp
    with ir(1) c(1) show "i \<in> names_in mine" by (auto simp: names_in_def simp del: oprop.simps)
  qed
qed

lemma relay_set_conflict: "relay_set payload v p = (SetConflict, p') \<Longrightarrow> p' = p"
  by (auto simp: relay_set_def split: option.splits if_splits)

lemma relay_set_version: "p' = snd (relay_set payload v p) \<Longrightarrow> p' = p \<or> version_of p < version_of p'"
  by (auto simp: relay_set_def set_backup_def version_of_def relay_get_def Let_def split: option.splits if_splits)

lemma run_writes_version: "run_writes ws p = p \<or> version_of p < version_of (run_writes ws p)"
proof (induction ws arbitrary: p)
  case (Cons w ws)
  obtain payload v where w: "w = (payload, v)" by (cases w)
  let ?q = "snd (relay_set payload v p)"
  have "run_writes (w # ws) p = run_writes ws ?q" by (simp add: run_writes_def w)
  with Cons.IH [of ?q] relay_set_version [of ?q payload v p] show ?case by auto
qed (simp add: run_writes_def)

lemma retry_names:
  assumes env: "aead_opens (be_enc e) (be_dec e)" "length iv = 12" and mine: "list_all whole mine" and theirs: "list_all whole (parked_list e p)"
    and run: "retry_upload e now iv (run_writes ws) mine d p = (Written, d', p')"
  shows "parked_names e p' = names_in mine \<union> parked_names e p \<and> run_writes ws p = p \<and> parked_names e p' \<subseteq> held_names d'"
proof -
  from run obtain ts v merged payload v' fr where f: "fetchBackup e p = Some (ts, v)"
    and mg: "mergeBackups (JArr mine) ts = Some merged"
    and sl: "sealBackup (be_sha e) (be_enc e) iv (be_identity e) (blob_of merged) = Some payload"
    and st: "relay_set payload v (run_writes ws p) = (SetOk v', p')"
    and ad: "adoptCircles now merged (d\<lparr>backupVersion := v'\<rparr>) = Some (d', fr)"
    by (auto simp: retry_upload_def Let_def bind_eq_Some_conv split: option.splits prod.splits set_reply.splits)
  have nn: "\<not> nullish ts" using f by (auto simp: fetchBackup_def bind_eq_Some_conv coalesce_def split: prod.splits if_splits)
  from mg obtain ms where ms: "js_iter ts = Some ms" using nn by (auto simp: mergeBackups_def bind_eq_Some_conv)
  have mg': "mergeBackups (JArr mine) (JArr ms) = Some merged" using mg ms nn by (simp add: mergeBackups_def)
  have pl: "parked_list e p = ms" by (simp add: parked_list_def f ms)
  have wm: "list_all whole merged" using mergeBackups_ids(2) [OF mg'] mine theirs pl by (auto simp: list_all_iff)
  note after = parked_after_write [OF env wm sl st]
  have "version_of p = v" using f by (auto simp: fetchBackup_def version_of_def bind_eq_Some_conv split: prod.splits if_splits)
  with after(3) run_writes_version [of ws p] have same: "run_writes ws p = p" by auto
  have names: "parked_names e p' = names_in merged" using after(1) names_in_tidy [OF wm] by (simp add: parked_names_def)
  moreover have "names_in merged = names_in mine \<union> parked_names e p"
    using mergeBackups_ids(1) [OF mg'] by (auto simp: names_in_ids parked_names_def pl)
  moreover have "names_in merged \<subseteq> held_names d'"
    using adoptCircles_holds [OF ad [unfolded adoptCircles_def]] by (auto simp: names_in_ids held_names_def circle_ids_def)
  ultimately show ?thesis using same by simp
qed

text \<open>
  C15: parking never loses a circle. When an upload reports success, every circle this device holds is in the blob it leaves on
  the relay; and unless it wrote over the very version it had last seen, every circle of the blob it replaced, whatever the account's other devices
  wrote in the meantime, is there too and is shown on this device from then on.
\<close>

theorem parking_loses_no_circle:
  assumes "aead_opens (be_enc e) (be_dec e)" and "length iv1 = 12" and "length iv2 = 12" and "keyed_by_id d"
    and "list_all whole (parked_list e (run_writes ws1 p))"
    and "uploadBackup e ready now iv1 iv2 (run_writes ws1) (run_writes ws2) d p = (Written, d', p')"
  shows "circlesLoaded d \<and> held_names d \<subseteq> parked_names e p' \<and>
    (version_of p = backupVersion d \<or>
     parked_names e (run_writes ws2 (run_writes ws1 p)) \<subseteq> parked_names e p' \<and> parked_names e p' \<subseteq> held_names d')"
proof -
  from assms(6) obtain mine payload where loaded: "circlesLoaded d"
    and m: "mapM (\<lambda>(i, r). map_option JObj (sharedHalf r)) (servers d) = Some mine"
    and sl: "sealBackup (be_sha e) (be_enc e) iv1 (be_identity e) (blob_of mine) = Some payload"
    by (auto simp: uploadBackup_def bind_eq_Some_conv split: if_splits option.splits prod.splits)
  note names = mine_names [OF assms(4) m]
  obtain reply q where st: "relay_set payload (backupVersion d) p = (reply, q)" by fastforce
  show ?thesis
  proof (cases reply)
    case (SetOk v)
    then have "p' = q" using assms(6) loaded m sl st by (auto simp: uploadBackup_def split: if_splits)
    with parked_after_write [OF assms(1,2) names(2) sl st [unfolded SetOk]] names(1) names_in_tidy [OF names(2)] loaded
    show ?thesis by (simp add: parked_names_def)
  next
    case SetConflict
    have "q = p" using relay_set_conflict st SetConflict by blast
    then have "retry_upload e now iv2 (run_writes ws2) mine d (run_writes ws1 p) = (Written, d', p')"
      using assms(6) loaded m sl st SetConflict by (auto simp: uploadBackup_def split: if_splits)
    from retry_names [OF assms(1,3) names(2) assms(5) this] names(1) loaded show ?thesis by auto
  next
    case SetInvalid
    then show ?thesis using assms(6) loaded m sl st by (auto simp: uploadBackup_def split: if_splits)
  qed
qed

definition example_backup_env :: backup_env where
  "example_backup_env = \<lparr>be_sha = id, be_enc = example_cipher, be_dec = example_cipher, be_identity = ''me''\<rparr>"

definition example_record :: "string \<Rightarrow> jsval" where
  "example_record i = JObj [(''id'', JStr i), (''channels'', JArr [JStr ''general''])]"

definition example_device :: device where
  "example_device = new_device\<lparr>servers := [(JStr ''a'', example_record ''a'')], circlesLoaded := True\<rparr>"

abbreviation example_iv :: bytes where "example_iv \<equiv> replicate 12 (CHR ''n'')"

lemma example_seals: "\<exists>payload. sealBackup (be_sha example_backup_env) (be_enc example_backup_env) iv (be_identity example_backup_env) rec = Some payload"
  by (simp add: sealBackup_def encryptBlob_def example_backup_env_def example_cipher_def)

theorem parking_loses_no_circle_witness:
  "\<exists>d' p'. uploadBackup example_backup_env True 9 example_iv example_iv (run_writes []) (run_writes []) example_device None = (Written, d', p') \<and>
     ''a'' \<in> parked_names example_backup_env p'"
proof -
  let ?e = example_backup_env
  obtain sh where sh: "sharedHalf (example_record ''a'') = Some sh"
    by (simp add: sharedHalf_def example_record_def jget_def)
  obtain payload where sl: "sealBackup (be_sha ?e) (be_enc ?e) example_iv (be_identity ?e) (blob_of [JObj sh]) = Some payload"
    using example_seals by blast
  obtain blob where b: "b64_dec payload = Some blob" using sealed_payload [OF _ sl] by auto
  have run: "uploadBackup ?e True 9 example_iv example_iv (run_writes []) (run_writes []) example_device None =
      (Written, example_device\<lparr>backupVersion := 1\<rparr>, Some (blob, 1))"
    using sh sl b by (simp add: uploadBackup_def example_device_def new_device_def relay_set_def set_backup_def)
  have k: "keyed_by_id example_device" by (simp add: keyed_by_id_def example_device_def example_record_def)
  have aead: "aead_opens (be_enc ?e) (be_dec ?e)" by (simp add: aead_opens_def example_backup_env_def example_cipher_def)
  have fresh: "list_all whole (parked_list ?e (run_writes [] None))" by (simp add: run_writes_def parked_list_def fetchBackup_def relay_get_def)
  have "''a'' \<in> held_names example_device" by (simp add: held_names_def example_device_def)
  with parking_loses_no_circle [OF aead _ _ k fresh run] run show ?thesis by auto
qed

end
