(* ===== verification/Paging.thy ===== *)
theory Paging
  imports Actions Log_Order Trust
begin

text \<open>
  Reading a channel's log back from the relay, from \<open>client/src/lib/controller.js\<close>: the working copies a session
  keeps (\<open>channelLog\<close>, \<open>forgetChannelLog\<close>, \<open>renameChannelLog\<close>), opening and authenticating a page (\<open>openPage\<close>), paging
  back, catching up and draining the logs a channel has beside its own (\<open>fetchPage\<close>, \<open>loadOlderMessages\<close>,
  \<open>catchUpLogs\<close>, \<open>drainAlternateLogs\<close>); and the relay's end, the in-memory store of \<open>relay/src/store.rs\<close> behind
  the handler of \<open>relay/src/server.rs\<close>. A call runs against the relay as it is when the call starts;
  what an exception leaves half done is not modelled. Sequence
  numbers are natural numbers where the relay has 64-bit ones; a log id reaches the relay as the value the record holds.
\<close>

section \<open>The relay's log\<close>

record hist_row =
  row_seq :: nat
  row_ts :: nat
  row_expires :: "nat option"
  row_payload :: bytes
  row_author :: string

record hist_log =
  last_seq :: nat
  rows :: "hist_row list"

datatype hist_page = After nat nat | Before nat nat

definition append_history :: "string \<Rightarrow> nat \<Rightarrow> nat option \<Rightarrow> bytes \<Rightarrow> hist_log \<Rightarrow> nat \<times> hist_log" where
  "append_history author ts expires payload l =
     (let seq = last_seq l + 1
      in (seq, l\<lparr>last_seq := seq,
                 rows := rows l @ [\<lparr>row_seq = seq, row_ts = ts, row_expires = expires, row_payload = payload, row_author = author\<rparr>]\<rparr>))"

definition unexpired :: "nat \<Rightarrow> hist_row \<Rightarrow> bool" where
  "unexpired now e \<longleftrightarrow> (case row_expires e of None \<Rightarrow> True | Some t \<Rightarrow> \<not> t < now)"

definition history_page :: "hist_page \<Rightarrow> nat \<Rightarrow> hist_log \<Rightarrow> (hist_row list \<times> bool) \<times> hist_log" where
  "history_page page now l =
     (let l' = l\<lparr>rows := filter (unexpired now) (rows l)\<rparr>
      in (case page of
            After after limit \<Rightarrow>
              let matching = filter (\<lambda>e. after < row_seq e) (rows l')
              in (take limit matching, after = 0 \<and> length matching \<le> limit)
          | Before before limit \<Rightarrow>
              let matching = filter (\<lambda>e. row_seq e < before) (rows l')
              in (drop (length matching - limit) matching, length matching \<le> limit), l'))"

definition HISTORY_PAGE_MAX :: nat where "HISTORY_PAGE_MAX = 200"

record page_entry =
  pe_seq :: nat
  pe_payload :: string

record history_reply =
  hr_entries :: "page_entry list"
  hr_complete :: bool

record fetch_req =
  fr_hid :: jsval
  fr_after :: nat
  fr_before :: "nat option"
  fr_limit :: nat

definition wire :: "hist_row \<Rightarrow> page_entry" where
  "wire e = \<lparr>pe_seq = row_seq e, pe_payload = b64_enc (row_payload e)\<rparr>"

definition history_fetch :: "nat \<Rightarrow> (string \<Rightarrow> hist_log option) \<Rightarrow> fetch_req \<Rightarrow> history_reply option" where
  \<comment> \<open>\<open>HistoryFetch\<close> for a member; a request that is no message of the protocol is refused, a log never written is empty\<close>
  "history_fetch now logs q =
     (case fr_hid q of
        JStr hid \<Rightarrow>
          let limit = max 1 (min HISTORY_PAGE_MAX (fr_limit q));
              page = (case fr_before q of Some b \<Rightarrow> Before (min b (2 ^ 63 - 1)) limit | None \<Rightarrow> After (min (fr_after q) (2 ^ 63 - 1)) limit)
          in Some (case logs hid of
                     None \<Rightarrow> \<lparr>hr_entries = [], hr_complete = True\<rparr>
                   | Some l \<Rightarrow>
                       let ((es, done), l') = history_page page now l
                       in \<lparr>hr_entries = map wire es, hr_complete = done\<rparr>)
      | _ \<Rightarrow> None)"

section \<open>Working copies\<close>

definition HISTORY_PAGE :: nat where "HISTORY_PAGE = 50"
definition LOG_SEP :: string where "LOG_SEP = [CHR 0x00]"

definition logKey :: "string \<Rightarrow> string \<Rightarrow> string" where
  "logKey serverId channel = serverId @ LOG_SEP @ channel"

record open_log =
  ol_log :: channel_log
  ol_loaded :: bool            \<comment> \<open>\<open>log.loaded\<close>, set by \<open>loadMessages\<close>\<close>

type_synonym session = "(string \<times> open_log) list"

definition fresh_log :: open_log where
  "fresh_log = \<lparr>ol_log = createChannelLog, ol_loaded = False\<rparr>"

definition channelLog :: "string \<Rightarrow> string \<Rightarrow> session \<Rightarrow> open_log \<times> session" where
  "channelLog serverId channel s =
     (case map_of s (logKey serverId channel) of
        Some l \<Rightarrow> (l, s)
      | None \<Rightarrow> (fresh_log, AList.update (logKey serverId channel) fresh_log s))"

definition put_log :: "string \<Rightarrow> string \<Rightarrow> channel_log \<Rightarrow> session \<Rightarrow> session" where
  \<comment> \<open>a change to the working copy, which the code makes in place\<close>
  "put_log serverId channel l s =
     AList.update (logKey serverId channel) ((fst (channelLog serverId channel s))\<lparr>ol_log := l\<rparr>) s"

definition forgetChannelLog :: "string \<Rightarrow> string \<Rightarrow> session \<Rightarrow> session" where
  "forgetChannelLog serverId channel s = AList.delete (logKey serverId channel) s"

definition forgetCircleLogs :: "string \<Rightarrow> session \<Rightarrow> session" where
  "forgetCircleLogs serverId s = filter (\<lambda>(k, l). take (length (serverId @ LOG_SEP)) k \<noteq> serverId @ LOG_SEP) s"

definition renameChannelLog :: "string \<Rightarrow> string \<Rightarrow> string \<Rightarrow> session \<Rightarrow> session" where
  "renameChannelLog serverId from to s =
     (case map_of s (logKey serverId from) of
        None \<Rightarrow> s
      | Some l \<Rightarrow>
          let moved = l\<lparr>ol_log := (ol_log l)\<lparr>base := map (\<lambda>(i, m). (i, m\<lparr>msg_channel := to\<rparr>)) (base (ol_log l))\<rparr>\<rparr>
          in AList.update (logKey serverId to) moved (AList.delete (logKey serverId from) s))"

definition applyLiveEntry :: "string \<Rightarrow> string \<Rightarrow> jsval \<Rightarrow> session \<Rightarrow> (session \<times> act list) throws" where
  "applyLiveEntry serverId channel entry s =
     (if \<not> truthy (oprop entry ''sender'') \<or> \<not> truthy (oprop entry ''ts'') then Some (s, [])
      else let (l, s1) = channelLog serverId channel s
           in do { (l', n) \<leftarrow> addLocalEntry (ol_log l) entry \<lparr>pl_server = serverId, pl_channel = channel\<rparr>;
                   Some (put_log serverId channel l' s1, [ShowMessages]) })"

definition applyRetention :: "circle \<Rightarrow> string \<Rightarrow> rat \<Rightarrow> session \<Rightarrow> session throws" where
  "applyRetention r channel now s =
     do { meta \<leftarrow> chan_meta_at r (JStr channel);
          let retention = oprop meta ''retention'';
          if \<not> truthy retention then Some s
          else case map_of s (logKey (c_id r) channel) of
                 None \<Rightarrow> Some s
               | Some l \<Rightarrow>
                   do { secs \<leftarrow> to_num retention;
                        let cut = (case secs of Fin x \<Rightarrow> Fin (now - x * 1000) | NaN \<Rightarrow> NaN | PosInf \<Rightarrow> NegInf | NegInf \<Rightarrow> PosInf);
                        (l', n) \<leftarrow> pruneLog (ol_log l) cut;
                        Some (put_log (c_id r) channel l' s) } }"

section \<open>Opening a page\<close>

record reader =
  rd_dec :: cipher
  rd_verify :: "check list \<Rightarrow> bool list throws"

definition worker_verify :: "(check \<Rightarrow> bool throws) \<Rightarrow> check list \<Rightarrow> bool list" where
  \<comment> \<open>the worker's \<open>verifyEntries\<close>: one answer per item, in order; a check that throws is \<open>false\<close>\<close>
  "worker_verify verify items = map (\<lambda>it. case verify it of Some b \<Rightarrow> b | None \<Rightarrow> False) items"

definition device_reader :: "cipher \<Rightarrow> (check \<Rightarrow> bool throws) \<Rightarrow> reader" where
  "device_reader dec verify = \<lparr>rd_dec = dec, rd_verify = (\<lambda>items. Some (worker_verify verify items))\<rparr>"

definition try_key :: "cipher \<Rightarrow> string \<Rightarrow> jsval \<Rightarrow> jsval throws" where
  "try_key dec payload key = do { k \<leftarrow> to_str key; openLogEntry dec k payload }"

fun first_open :: "cipher \<Rightarrow> string \<Rightarrow> jsval list \<Rightarrow> jsval option" where
  \<comment> \<open>the loop over the keys: the first that opens the payload\<close>
  "first_open dec payload [] = None"
| "first_open dec payload (k # ks) = (case try_key dec payload k of Some e \<Rightarrow> Some e | None \<Rightarrow> first_open dec payload ks)"

definition open_entries :: "cipher \<Rightarrow> jsval list \<Rightarrow> page_entry list \<Rightarrow> (nat \<times> jsval) list" where
  "open_entries dec ks es =
     List.map_filter (\<lambda>e. case first_open dec (pe_payload e) ks of
        Some v \<Rightarrow> if truthy v then Some (pe_seq e, v) else None | None \<Rightarrow> None) es"

definition openPage :: "reader \<Rightarrow> circle \<Rightarrow> string \<Rightarrow> page_entry list \<Rightarrow> jsval \<Rightarrow> item list throws" where
  \<comment> \<open>\<open>hid\<close> is \<open>null\<close> for the channel's own log; a log id is turned into text to be signed\<close>
  "openPage rd r channel es hid =
     do { meta \<leftarrow> chan_meta_at r (JStr channel);
          if \<not> truthy (oprop meta ''hid'') then Some []
          else do {
            ks \<leftarrow> channelKeys meta;
            let opened = open_entries (rd_dec rd) ks es;
            h \<leftarrow> to_str (coalesce hid (oprop meta ''hid''));
            auths \<leftarrow> verifyEntries (c_id r) h (map snd opened) (keyDirectory (Some r)) (rd_verify rd);
            Some (map (\<lambda>((q, e), a). \<lparr>it_seq = Some q, it_entry = e, it_auth = a, it_local = False\<rparr>) (zip opened auths)) } }"

type_synonym ask = "fetch_req \<Rightarrow> history_reply option"

definition fetchPage ::
  "ask \<Rightarrow> reader \<Rightarrow> circle \<Rightarrow> string \<Rightarrow> nat option \<Rightarrow> nat \<Rightarrow> nat \<Rightarrow> session \<Rightarrow> session \<times> (nat \<times> bool) throws" where
  \<comment> \<open>how many entries were new and whether the start of the log was reached; \<open>None\<close> is a rejection\<close>
  "fetchPage ask rd r channel before after limit s =
     (case chan_meta_at r (JStr channel) of
        None \<Rightarrow> (s, None)
      | Some meta \<Rightarrow>
          if \<not> truthy (oprop meta ''hid'') \<or> \<not> truthy (oprop meta ''hkey'') then (s, Some (0, True))
          else let (l, s1) = channelLog (c_id r) channel s
               in (case ask \<lparr>fr_hid = oprop meta ''hid'', fr_after = after, fr_before = before, fr_limit = limit\<rparr> of
                     None \<Rightarrow> (s1, Some (0, False))
                   | Some reply \<Rightarrow>
                       (case do { items \<leftarrow> openPage rd r channel (hr_entries reply) JNull;
                                  addEntries (ol_log l) items \<lparr>pl_server = c_id r, pl_channel = channel\<rparr> } of
                          None \<Rightarrow> (s1, None)
                        | Some (l', added) \<Rightarrow>
                            (put_log (c_id r) channel
                               (if before \<noteq> None \<and> hr_complete reply then l'\<lparr>complete := True\<rparr> else l') s1,
                             Some (added, hr_complete reply)))))"

section \<open>Loading a room\<close>

definition MAX_SAFE_INTEGER :: nat where "MAX_SAFE_INTEGER = 2 ^ 53 - 1"

fun drain_pages ::
  "nat \<Rightarrow> ask \<Rightarrow> reader \<Rightarrow> circle \<Rightarrow> string \<Rightarrow> jsval \<Rightarrow> nat \<Rightarrow> channel_log \<Rightarrow> channel_log throws" where
  \<comment> \<open>the rounds of \<open>for (let page = 0; page < 20; page++)\<close> that are left\<close>
  "drain_pages 0 ask rd r channel hid after l = Some l"
| "drain_pages (Suc n) ask rd r channel hid after l =
     (case ask \<lparr>fr_hid = hid, fr_after = after, fr_before = None, fr_limit = HISTORY_PAGE\<rparr> of
        None \<Rightarrow> Some l
      | Some reply \<Rightarrow>
          if hr_entries reply = [] then Some l
          else do {
            items \<leftarrow> openPage rd r channel (hr_entries reply) hid;
            (l', added) \<leftarrow> addEntries l (map (\<lambda>it. it\<lparr>it_seq := None\<rparr>) items) \<lparr>pl_server = c_id r, pl_channel = channel\<rparr>;
            drain_pages n ask rd r channel hid (pe_seq (last (hr_entries reply))) l' })"

definition DRAIN_PAGES :: nat where "DRAIN_PAGES = 20"

definition drainAlternateLogs :: "ask \<Rightarrow> reader \<Rightarrow> circle \<Rightarrow> string \<Rightarrow> session \<Rightarrow> session throws" where
  "drainAlternateLogs ask rd r channel s =
     do { meta \<leftarrow> chan_meta_at r (JStr channel);
          alts \<leftarrow> js_iter (coalesce (oprop meta ''alts'') (JArr []));
          if alts = [] then Some s
          else let (l, s1) = channelLog (c_id r) channel s
               in do { l' \<leftarrow> foldM (\<lambda>alt l. if truthy (oprop alt ''hid'')
                         then drain_pages DRAIN_PAGES ask rd r channel (oprop alt ''hid'') 0 l else Some l) alts (ol_log l);
                       Some (put_log (c_id r) channel l' s1) } }"

definition loadMessages :: "ask \<Rightarrow> reader \<Rightarrow> circle \<Rightarrow> string \<Rightarrow> rat \<Rightarrow> session \<Rightarrow> session \<times> message list throws" where
  "loadMessages ask rd r channel now s =
     (let (l, s1) = channelLog (c_id r) channel s;
          finish = (\<lambda>s. case applyRetention r channel now s of None \<Rightarrow> (s, None)
                     | Some s' \<Rightarrow> (s', renderLog (ol_log (fst (channelLog (c_id r) channel s')))))
      in if ol_loaded l then finish s1
         else let s2 = AList.update (logKey (c_id r) channel) (l\<lparr>ol_loaded := True\<rparr>) s1;
                  (s3, page) = fetchPage ask rd r channel (Some MAX_SAFE_INTEGER) 0 HISTORY_PAGE s2
              in if page = None then (s3, None)
                 else finish (case drainAlternateLogs ask rd r channel s3 of None \<Rightarrow> s3 | Some s4 \<Rightarrow> s4))"

definition loadOlderMessages :: "ask \<Rightarrow> reader \<Rightarrow> circle \<Rightarrow> string \<Rightarrow> session \<Rightarrow> session \<times> bool throws" where
  \<comment> \<open>whether anything older remains\<close>
  "loadOlderMessages ask rd r channel s =
     (let (l, s1) = channelLog (c_id r) channel s
      in if complete (ol_log l) then (s1, Some False)
         else let (s2, page) = fetchPage ask rd r channel
                    (Some (case oldest (ol_log l) of Some q \<Rightarrow> q | None \<Rightarrow> MAX_SAFE_INTEGER)) 0 HISTORY_PAGE s1
              in (s2, map_option (\<lambda>(added, done). \<not> done) page))"

definition hasOlderMessages :: "string \<Rightarrow> string \<Rightarrow> session \<Rightarrow> bool" where
  "hasOlderMessages serverId channel s =
     (case map_of s (logKey serverId channel) of None \<Rightarrow> False | Some l \<Rightarrow> ol_loaded l \<and> \<not> complete (ol_log l))"

fun catch_up :: "ask \<Rightarrow> reader \<Rightarrow> circle \<Rightarrow> jsval list \<Rightarrow> session \<Rightarrow> session \<times> nat throws" where
  "catch_up ask rd r [] s = (s, Some 0)"
| "catch_up ask rd r (c # cs) s =
     (case to_str c of
        None \<Rightarrow> (s, None)
      | Some channel \<Rightarrow>
          (case map_of s (logKey (c_id r) channel) of
             None \<Rightarrow> catch_up ask rd r cs s
           | Some l \<Rightarrow>
               if \<not> ol_loaded l then catch_up ask rd r cs s
               else (case fetchPage ask rd r channel None (newest (ol_log l)) HISTORY_PAGE s of
                       (s1, None) \<Rightarrow> (s1, None)
                     | (s1, Some (added, done)) \<Rightarrow>
                         (case catch_up ask rd r cs s1 of (s2, tot) \<Rightarrow> (s2, map_option (\<lambda>t. added + t) tot)))))"

definition catchUpLogs :: "ask \<Rightarrow> reader \<Rightarrow> circle \<Rightarrow> session \<Rightarrow> session \<times> act list throws" where
  "catchUpLogs ask rd r s =
     (case catch_up ask rd r (channels r) s of (s', tot) \<Rightarrow> (s', map_option (\<lambda>n. if 0 < n then [ShowMessages] else []) tot))"

end
