(* ===== verification/Paging_Rules.thy ===== *)
theory Paging_Rules
  imports Paging
begin

text \<open>
  What paging gives: opening a page is opening its entries one by one; paging back from a fresh working copy reaches
  the start of the relay's log and folds in every entry of it; the logs beside a channel's own are read up to a
  thousand entries; and what happens when no entry of a page can be read.
\<close>

section \<open>A page is its entries\<close>

definition checks_out :: "(check \<Rightarrow> bool throws) \<Rightarrow> check \<Rightarrow> bool" where
  "checks_out v c \<longleftrightarrow> v c = Some True"

definition row_item :: "cipher \<Rightarrow> (check \<Rightarrow> bool throws) \<Rightarrow> circle \<Rightarrow> jsval list \<Rightarrow> string \<Rightarrow> page_entry \<Rightarrow> item option" where
  \<comment> \<open>what one entry of a page becomes, on its own\<close>
  "row_item dec v r ks h e =
     do { x \<leftarrow> first_open dec (pe_payload e) ks;
          a \<leftarrow> verdict_of (c_id r) h (keyDirectory (Some r)) (checks_out v) x;
          if truthy x then Some \<lparr>it_seq = Some (pe_seq e), it_entry = x, it_auth = a, it_local = False\<rparr> else None }"

lemma worker_verify_map: "worker_verify v cs = map (checks_out v) cs"
  by (auto simp: worker_verify_def checks_out_def split: option.split)

lemma open_entries_Cons:
  "open_entries dec ks (e # es) =
     (case first_open dec (pe_payload e) ks of Some x \<Rightarrow> if truthy x then [(pe_seq e, x)] else [] | None \<Rightarrow> []) @ open_entries dec ks es"
  by (simp add: open_entries_def List.map_filter_simps split: option.split)

lemma openPage_items:
  assumes "chan_meta_at r (JStr ch) = Some m" and "truthy (oprop m ''hid'')" and "channelKeys m = Some ks"
    and "to_str (coalesce hid (oprop m ''hid'')) = Some h"
    and "\<forall>e \<in> set es. row_item dec v r ks h e \<noteq> None"
  shows "openPage (device_reader dec v) r ch es hid = Some (map (\<lambda>e. the (row_item dec v r ks h e)) es)"
proof -
  let ?opened = "open_entries dec ks es"
  let ?verdict = "verdict_of (c_id r) h (keyDirectory (Some r)) (checks_out v)"
  have "\<exists>auths. mapM ?verdict (map snd ?opened) = Some auths \<and>
      map (\<lambda>((q, e), a). \<lparr>it_seq = Some q, it_entry = e, it_auth = a, it_local = False\<rparr>) (zip ?opened auths) =
      map (\<lambda>e. the (row_item dec v r ks h e)) es"
    using assms(5)
  proof (induction es)
    case Nil
    then show ?case by (simp add: open_entries_def List.map_filter_simps)
  next
    case (Cons e es)
    from Cons.prems obtain x a where x: "first_open dec (pe_payload e) ks = Some x" "truthy x" "?verdict x = Some a"
      by (auto simp: row_item_def bind_eq_Some_conv split: if_splits option.splits)
    from Cons obtain auths where "mapM ?verdict (map snd (open_entries dec ks es)) = Some auths"
      "map (\<lambda>((q, e), a). \<lparr>it_seq = Some q, it_entry = e, it_auth = a, it_local = False\<rparr>) (zip (open_entries dec ks es) auths) =
        map (\<lambda>e. the (row_item dec v r ks h e)) es" by auto
    then show ?case by (intro exI [of _ "a # auths"]) (simp add: open_entries_Cons x row_item_def)
  qed
  then show ?thesis
    using assms(1-4) by (auto simp: openPage_def device_reader_def worker_verify_map [abs_def] verifyEntries_each Let_def)
qed

section \<open>Cursors\<close>

definition counted :: "item \<Rightarrow> bool" where
  "counted it \<longleftrightarrow> truthy (it_entry it) \<and> it_auth it \<noteq> Forged \<and> it_seq it \<noteq> None"

lemma foldM_oldest:
  assumes "foldM (add_entry pl) items (l, n) = Some (l', n')" and "\<forall>it \<in> set items. counted it"
    and "items \<noteq> []"
  shows "oldest l' = Some (Min (set_option (oldest l) \<union> (\<lambda>it. the (it_seq it)) ` set items))"
  using assms
proof (induction items arbitrary: l n)
  case (Cons it items)
  from Cons.prems(1) obtain l1 n1 where 1: "add_entry pl it (l, n) = Some (l1, n1)"
    and 2: "foldM (add_entry pl) items (l1, n1) = Some (l', n')" by (auto simp: run_simps)
  from Cons.prems(2) obtain q where q: "it_seq it = Some q" and it: "truthy (it_entry it)" "it_auth it \<noteq> Forged"
    by (auto simp: counted_def)
  have o1: "oldest l1 = Some (Min (set_option (oldest l) \<union> {q}))"
    using add_entry_seqs [OF 1] it q by (cases "oldest l") (simp_all add: note_seq_def min.commute)
  show ?case
  proof (cases "items = []")
    case True
    with 2 o1 q show ?thesis by simp
  next
    case False
    with Cons.IH [OF 2] Cons.prems(2) have *: "oldest l' = Some (Min (set_option (oldest l1) \<union> (\<lambda>it. the (it_seq it)) ` set items))" by simp
    have "Min (insert (Min A) B) = Min (A \<union> B)" if "finite A" "A \<noteq> {}" "finite B" "B \<noteq> {}" for A B :: "nat set"
      using that by (simp add: Min_Un Min_insert)
    from this [of "set_option (oldest l) \<union> {q}" "(\<lambda>it. the (it_seq it)) ` set items"] False
    show ?thesis by (simp add: * o1 q)
  qed
qed simp

lemma add_entry_complete: "add_entry pl it (l, n) = Some (l', n') \<Longrightarrow> complete l' = complete l"
proof -
  assume run: "add_entry pl it (l, n) = Some (l', n')"
  have c: "add_content pl it (a, n) = Some (l', n') \<Longrightarrow> complete l' = complete a" for a
    by (cases "entryToMessage (it_entry it) pl (it_auth it) (it_seq it)")
      (auto simp: add_content_def Let_def split: option.splits if_splits)
  have m: "add_mutation it (a, n) = Some (l', n') \<Longrightarrow> complete l' = complete a" for a
    by (auto simp: add_mutation_def run_simps split: if_splits option.splits)
  have "complete (note_seq q l) = complete l" for q by (simp add: note_seq_def split: option.split)
  with run c m show "complete l' = complete l" by (auto simp: add_entry_def Let_def split: if_splits)
qed

lemma add_entries_complete: "addEntries l items pl = Some (l', n) \<Longrightarrow> complete l' = complete l"
proof -
  have "foldM (add_entry pl) items (l, k) = Some (l', n) \<Longrightarrow> complete l' = complete l" for k
  proof (induction items arbitrary: l k)
    case (Cons it items)
    then obtain l1 k1 where "add_entry pl it (l, k) = Some (l1, k1)" "foldM (add_entry pl) items (l1, k1) = Some (l', n)"
      by (auto simp: run_simps)
    with Cons.IH add_entry_complete show ?case by metis
  qed simp
  then show "addEntries l items pl = Some (l', n) \<Longrightarrow> complete l' = complete l" by (simp add: addEntries_def)
qed

section \<open>Paging back\<close>

abbreviation room_place :: "circle \<Rightarrow> string \<Rightarrow> place" where
  "room_place r ch \<equiv> \<lparr>pl_server = c_id r, pl_channel = ch\<rparr>"

definition readable :: "cipher \<Rightarrow> (check \<Rightarrow> bool throws) \<Rightarrow> circle \<Rightarrow> string \<Rightarrow> jsval list \<Rightarrow> string \<Rightarrow> page_entry \<Rightarrow> bool" where
  \<comment> \<open>a key of the channel opens it, its signature is not forged, and its fields can be read\<close>
  "readable dec v r ch ks h e \<longleftrightarrow>
     (case row_item dec v r ks h e of None \<Rightarrow> False
      | Some it \<Rightarrow> it_auth it \<noteq> Forged \<and> add_entry (room_place r ch) it (createChannelLog, 0) \<noteq> None)"

lemma readable_item:
  assumes "readable dec v r ch ks h e"
  obtains it where "row_item dec v r ks h e = Some it" "counted it" "it_seq it = Some (pe_seq e)"
    "\<forall>s. add_entry (room_place r ch) it s \<noteq> None"
proof -
  from assms obtain it where it: "row_item dec v r ks h e = Some it" "it_auth it \<noteq> Forged"
    and add: "add_entry (room_place r ch) it (createChannelLog, 0) \<noteq> None"
    by (auto simp: readable_def split: option.splits)
  from it have "counted it" "it_seq it = Some (pe_seq e)"
    by (auto simp: row_item_def counted_def bind_eq_Some_conv split: if_splits)
  moreover have "add_entry (room_place r ch) it s \<noteq> None" for s
    using add add_entry_total [of "room_place r ch" it s "(createChannelLog, 0)"] by simp
  ultimately show thesis using it(1) that by blast
qed

definition room_keys :: "circle \<Rightarrow> string \<Rightarrow> jsval \<Rightarrow> jsval list \<Rightarrow> string \<Rightarrow> bool" where
  \<comment> \<open>the room has a log \<open>h\<close> and keys \<open>ks\<close>\<close>
  "room_keys r ch m ks h \<longleftrightarrow> chan_meta_at r (JStr ch) = Some m \<and> oprop m ''hid'' = JStr h \<and> h \<noteq> [] \<and>
     truthy (oprop m ''hkey'') \<and> channelKeys m = Some ks"

lemma addEntries_readable:
  assumes "\<forall>e \<in> set es. readable dec v r ch ks h e"
  shows "\<exists>l' n. addEntries l (map (\<lambda>e. the (row_item dec v r ks h e)) es) (room_place r ch) = Some (l', n)"
proof -
  have "\<not> (\<exists>it \<in> set (map (\<lambda>e. the (row_item dec v r ks h e)) es). add_entry (room_place r ch) it (l, 0) = None)"
    using assms by (auto elim!: readable_item)
  then have "foldM (add_entry (room_place r ch)) (map (\<lambda>e. the (row_item dec v r ks h e)) es) (l, 0) \<noteq> None"
    using foldM_total [of "add_entry (room_place r ch)", OF add_entry_total] by blast
  then show ?thesis by (auto simp: addEntries_def)
qed

lemma fetchPage_reads:
  assumes "room_keys r ch m ks h" and "\<forall>e \<in> set (hr_entries reply). readable dec v r ch ks h e"
    and "ask \<lparr>fr_hid = JStr h, fr_after = after, fr_before = before, fr_limit = limit\<rparr> = Some reply"
    and "channelLog (c_id r) ch s = (l, s1)"
    and "addEntries (ol_log l) (map (\<lambda>e. the (row_item dec v r ks h e)) (hr_entries reply)) (room_place r ch) = Some (l', n)"
  shows "fetchPage ask (device_reader dec v) r ch before after limit s =
    (put_log (c_id r) ch (if before \<noteq> None \<and> hr_complete reply then l'\<lparr>complete := True\<rparr> else l') s1, Some (n, hr_complete reply))"
proof -
  have "row_item dec v r ks h e \<noteq> None" if "e \<in> set (hr_entries reply)" for e
    using assms(2) that by (auto elim!: readable_item)
  then have "openPage (device_reader dec v) r ch (hr_entries reply) JNull =
      Some (map (\<lambda>e. the (row_item dec v r ks h e)) (hr_entries reply))"
    using assms(1) by (intro openPage_items) (auto simp: room_keys_def coalesce_def)
  then show ?thesis using assms by (simp add: fetchPage_def room_keys_def)
qed

lemma channelLog_put [simp]: "fst (channelLog i c (put_log i c l s)) = (fst (channelLog i c s))\<lparr>ol_log := l\<rparr>"
  by (simp add: channelLog_def put_log_def update_conv')

lemma channelLog_again [simp]: "channelLog i c (snd (channelLog i c s)) = (fst (channelLog i c s), snd (channelLog i c s))"
  by (cases "map_of s (logKey i c)") (simp_all add: channelLog_def update_conv')

lemma filter_below:
  assumes "sorted_wrt (<) (map f xs)" and "n < length xs"
  shows "filter (\<lambda>x. f x < (f (xs ! n) :: nat)) xs = take n xs"
proof -
  have lt: "f (xs ! i) < f (xs ! j)" if "i < j" "j < length xs" for i j
    using assms(1) that by (auto simp: sorted_wrt_iff_nth_less)
  have "\<forall>x \<in> set (take n xs). f x < f (xs ! n)" using lt assms(2) by (auto simp: in_set_conv_nth)
  moreover have "\<forall>x \<in> set (drop n xs). \<not> f x < f (xs ! n)"
  proof
    fix x assume "x \<in> set (drop n xs)"
    then obtain j where "x = xs ! (n + j)" "n + j < length xs" by (auto simp: in_set_conv_nth)
    then show "\<not> f x < f (xs ! n)" using lt [of n "n + j"] by (cases j) auto
  qed
  ultimately have "filter (\<lambda>x. f x < f (xs ! n)) (take n xs @ drop n xs) = take n xs"
    unfolding filter_append by (simp add: filter_empty_conv)
  then show ?thesis by simp
qed

definition room_on_relay ::
  "cipher \<Rightarrow> (check \<Rightarrow> bool throws) \<Rightarrow> circle \<Rightarrow> string \<Rightarrow> jsval list \<Rightarrow> string \<Rightarrow> nat \<Rightarrow> hist_log \<Rightarrow> bool" where
  \<comment> \<open>a log the relay holds for the room: numbered upwards, nothing expired, every entry readable\<close>
  "room_on_relay dec v r ch ks h now l \<longleftrightarrow> sorted_wrt (<) (map row_seq (rows l)) \<and>
     (\<forall>e \<in> set (rows l). unexpired now e \<and> row_seq e < MAX_SAFE_INTEGER \<and> readable dec v r ch ks h (wire e))"

definition read_down :: "cipher \<Rightarrow> (check \<Rightarrow> bool throws) \<Rightarrow> circle \<Rightarrow> string \<Rightarrow> jsval list \<Rightarrow> string \<Rightarrow> hist_log \<Rightarrow> nat \<Rightarrow> channel_log \<Rightarrow> bool" where
  \<comment> \<open>all but the first \<open>k\<close> rows are folded in, and the cursor stands there\<close>
  "read_down dec v r ch ks h l k clog \<longleftrightarrow> k \<le> length (rows l) \<and>
     (\<forall>e \<in> set (drop k (rows l)). settled (room_place r ch) (the (row_item dec v r ks h (wire e))) clog) \<and>
     oldest clog = (if k < length (rows l) then Some (row_seq (rows l ! k)) else None)"

lemma settled_complete [simp]: "settled pl it (l\<lparr>complete := b\<rparr>) = settled pl it l"
  by (simp add: settled_def)

lemma read_down_complete [simp]: "read_down dec v r ch ks h l k (clog\<lparr>complete := b\<rparr>) = read_down dec v r ch ks h l k clog"
  by (simp add: read_down_def)

abbreviation cursor :: "channel_log \<Rightarrow> nat" where
  "cursor clog \<equiv> (case oldest clog of Some q \<Rightarrow> q | None \<Rightarrow> MAX_SAFE_INTEGER)"

lemma page_before:
  assumes "room_on_relay dec v r ch ks h now l" and "read_down dec v r ch ks h l k clog" and "logs h = Some l"
  shows "history_fetch now logs \<lparr>fr_hid = JStr h, fr_after = 0, fr_before = Some (cursor clog), fr_limit = HISTORY_PAGE\<rparr> =
    Some \<lparr>hr_entries = map wire (drop (k - HISTORY_PAGE) (take k (rows l))), hr_complete = (k \<le> HISTORY_PAGE)\<rparr>"
proof -
  have k: "k \<le> length (rows l)" and o: "oldest clog = (if k < length (rows l) then Some (row_seq (rows l ! k)) else None)"
    using assms(2) by (simp_all add: read_down_def)
  have s: "sorted_wrt (<) (map row_seq (rows l))" and u: "\<forall>e \<in> set (rows l). unexpired now e"
    and b: "\<forall>e \<in> set (rows l). row_seq e < MAX_SAFE_INTEGER" using assms(1) by (auto simp: room_on_relay_def)
  have big: "q < MAX_SAFE_INTEGER \<Longrightarrow> min q (2 ^ 63 - 1) = q" "min MAX_SAFE_INTEGER (2 ^ 63 - 1) = MAX_SAFE_INTEGER" for q
    by (simp_all add: MAX_SAFE_INTEGER_def)
  have "filter (\<lambda>e. row_seq e < min (cursor clog) (2 ^ 63 - 1)) (rows l) = take k (rows l)"
  proof (cases "k < length (rows l)")
    case True
    with b have "row_seq (rows l ! k) < MAX_SAFE_INTEGER" by simp
    with True o have "min (cursor clog) (2 ^ 63 - 1) = row_seq (rows l ! k)" using big(1) by simp
    then show ?thesis using filter_below [OF s True] by (simp only:)
  next
    case False
    with o have "min (cursor clog) (2 ^ 63 - 1) = MAX_SAFE_INTEGER" using big(2) by simp
    with False b k show ?thesis by (simp only:) (simp add: filter_id_conv)
  qed
  moreover have "filter (unexpired now) (rows l) = rows l" using u by (simp add: filter_id_conv)
  moreover have "max 1 (min HISTORY_PAGE_MAX HISTORY_PAGE) = HISTORY_PAGE" by (simp add: HISTORY_PAGE_def HISTORY_PAGE_MAX_def)
  moreover have "min k (length (rows l)) = k" using k by simp
  ultimately show ?thesis using assms(3) by (simp add: history_fetch_def history_page_def Let_def)
qed

lemma drop_take_page: "set (drop (k - p) xs) = set (drop (k - p) (take k xs)) \<union> set (drop k xs)"
proof (cases "k \<le> length xs")
  case True
  then have "drop (k - p) (take k xs @ drop k xs) = drop (k - p) (take k xs) @ drop k xs" by (simp del: append_take_drop_id)
  then show ?thesis by (metis append_take_drop_id set_append)
qed simp

lemma read_down_step:
  assumes "room_on_relay dec v r ch ks h now l" and "read_down dec v r ch ks h l k clog"
    and "addEntries clog (map (\<lambda>e. the (row_item dec v r ks h e)) (map wire (drop (k - p) (take k (rows l))))) (room_place r ch) = Some (clog', n)"
    and "0 < p"
  shows "read_down dec v r ch ks h l (k - p) clog'"
proof -
  let ?page = "drop (k - p) (take k (rows l))" and ?item = "\<lambda>e. the (row_item dec v r ks h (wire e))"
  from assms(3) have run: "foldM (add_entry (room_place r ch)) (map ?item ?page) (clog, 0) = Some (clog', n)"
    by (simp add: addEntries_def comp_def)
  have k: "k \<le> length (rows l)" and s: "sorted_wrt (<) (map row_seq (rows l))" using assms(1,2) by (simp_all add: read_down_def room_on_relay_def)
  have item: "counted (?item e)" "it_seq (?item e) = Some (row_seq e)" if "e \<in> set (rows l)" for e
  proof -
    from that assms(1) have "readable dec v r ch ks h (wire e)" by (simp add: room_on_relay_def)
    then show "counted (?item e)" "it_seq (?item e) = Some (row_seq e)" by (auto elim!: readable_item simp: wire_def)
  qed
  have page: "set ?page \<subseteq> set (rows l)" by (meson order_trans set_drop_subset set_take_subset)
  have "settled (room_place r ch) (?item e) clog'" if "e \<in> set (drop (k - p) (rows l))" for e
  proof -
    from that drop_take_page [of k p "rows l"] consider "e \<in> set ?page" | "e \<in> set (drop k (rows l))" by blast
    then show ?thesis
    proof cases
      case 1
      then have "?item e \<in> set (map ?item ?page)" by simp
      then show ?thesis by (rule foldM_settles [OF run])
    next
      case 2
      with assms(2) have "settled (room_place r ch) (?item e) clog" by (simp add: read_down_def)
      then show ?thesis using foldM_covers [OF run] by (rule settled_covers)
    qed
  qed
  moreover have "oldest clog' = (if k - p < length (rows l) then Some (row_seq (rows l ! (k - p))) else None)"
  proof (cases "k = 0")
    case True
    then show ?thesis using run assms(2) by (simp add: read_down_def)
  next
    case False
    have lt: "row_seq (rows l ! i) < row_seq (rows l ! j)" if "i < j" "j < length (rows l)" for i j
      using s that by (auto simp: sorted_wrt_iff_nth_less)
    let ?A = "set_option (oldest clog) \<union> (\<lambda>it. the (it_seq it)) ` set (map ?item ?page)"
    have "\<forall>it \<in> set (map ?item ?page). counted it" using item(1) page by auto
    then have old: "oldest clog' = Some (Min ?A)" using foldM_oldest [OF run] False assms(4) k by simp
    have seqs: "(\<lambda>it. the (it_seq it)) ` set (map ?item ?page) = row_seq ` set ?page"
      using item(2) page by (force simp: image_iff)
    have "Min ?A = row_seq (rows l ! (k - p))"
    proof (rule Min_eqI)
      fix y assume "y \<in> ?A"
      then consider "oldest clog = Some y" | e where "e \<in> set ?page" "y = row_seq e" unfolding seqs by auto
      then obtain j where "k - p \<le> j" "j < length (rows l)" "y = row_seq (rows l ! j)"
      proof cases
        case 1
        with assms(2) have "k < length (rows l)" "y = row_seq (rows l ! k)" by (auto simp: read_down_def split: if_splits)
        then show thesis using that [of k] by simp
      next
        case 2
        then obtain i where "i < length ?page" "e = ?page ! i" by (auto simp: in_set_conv_nth)
        then show thesis using that [of "k - p + i"] 2 k by simp
      qed
      then show "row_seq (rows l ! (k - p)) \<le> y" using lt [of "k - p" j] by (cases "j = k - p") auto
    next
      have "rows l ! (k - p) = ?page ! 0" "0 < length ?page" using False assms(4) k by simp_all
      then have "rows l ! (k - p) \<in> set ?page" by (metis nth_mem)
      then show "row_seq (rows l ! (k - p)) \<in> ?A" unfolding seqs by blast
    qed simp
    with old False k assms(4) show ?thesis by simp
  qed
  ultimately show ?thesis using k by (simp add: read_down_def)
qed

abbreviation log_of :: "circle \<Rightarrow> string \<Rightarrow> session \<Rightarrow> channel_log" where
  "log_of r ch s \<equiv> ol_log (fst (channelLog (c_id r) ch s))"

definition older :: "nat \<Rightarrow> (string \<Rightarrow> hist_log option) \<Rightarrow> cipher \<Rightarrow> (check \<Rightarrow> bool throws) \<Rightarrow> circle \<Rightarrow> string \<Rightarrow> session \<Rightarrow> session" where
  \<comment> \<open>asking once for older messages\<close>
  "older now logs dec v r ch s = fst (loadOlderMessages (history_fetch now logs) (device_reader dec v) r ch s)"

lemma older_step:
  assumes "room_keys r ch m ks h" and "room_on_relay dec v r ch ks h now l" and "logs h = Some l"
    and "read_down dec v r ch ks h l k (log_of r ch s)" and "\<not> complete (log_of r ch s)"
  shows "read_down dec v r ch ks h l (k - HISTORY_PAGE) (log_of r ch (older now logs dec v r ch s)) \<and>
    complete (log_of r ch (older now logs dec v r ch s)) = (k \<le> HISTORY_PAGE) \<and>
    snd (loadOlderMessages (history_fetch now logs) (device_reader dec v) r ch s) = Some (\<not> k \<le> HISTORY_PAGE)"
proof -
  obtain ol s1 where c: "channelLog (c_id r) ch s = (ol, s1)" by fastforce
  then have c1: "channelLog (c_id r) ch s1 = (ol, s1)" using channelLog_again [of "c_id r" ch s] by simp
  let ?page = "map wire (drop (k - HISTORY_PAGE) (take k (rows l)))"
  let ?reply = "\<lparr>hr_entries = ?page, hr_complete = (k \<le> HISTORY_PAGE)\<rparr>"
  from page_before [where logs = logs, OF assms(2,4,3)] c have ask: "history_fetch now logs
      \<lparr>fr_hid = JStr h, fr_after = 0, fr_before = Some (cursor (ol_log ol)), fr_limit = HISTORY_PAGE\<rparr> = Some ?reply" by simp
  have rd: "\<forall>e \<in> set (hr_entries ?reply). readable dec v r ch ks h e"
    using assms(2) by (auto simp: room_on_relay_def dest!: in_set_dropD in_set_takeD)
  then obtain l' n where add: "addEntries (ol_log ol) (map (\<lambda>e. the (row_item dec v r ks h e)) (hr_entries ?reply)) (room_place r ch) = Some (l', n)"
    using addEntries_readable by blast
  from add have run: "addEntries (log_of r ch s) (map (\<lambda>e. the (row_item dec v r ks h e)) ?page) (room_place r ch) = Some (l', n)" by (simp add: c)
  have "0 < HISTORY_PAGE" by (simp add: HISTORY_PAGE_def)
  from read_down_step [OF assms(2,4) run this] have "read_down dec v r ch ks h l (k - HISTORY_PAGE) l'" .
  moreover have "complete l' = complete (ol_log ol)"
    using add_entries_complete add by blast
  moreover from fetchPage_reads [where ask = "history_fetch now logs", OF assms(1) rd ask c1 add]
  have "loadOlderMessages (history_fetch now logs) (device_reader dec v) r ch s =
      (put_log (c_id r) ch (if k \<le> HISTORY_PAGE then l'\<lparr>complete := True\<rparr> else l') s1, Some (\<not> k \<le> HISTORY_PAGE))"
    using assms(5) by (simp add: loadOlderMessages_def c)
  ultimately show ?thesis using assms(5) c by (cases "k \<le> HISTORY_PAGE") (simp_all add: older_def)
qed

lemma older_done:
  assumes "complete (log_of r ch s)"
  shows "log_of r ch (older now logs dec v r ch s) = log_of r ch s"
proof -
  obtain ol s1 where c: "channelLog (c_id r) ch s = (ol, s1)" by fastforce
  then have "channelLog (c_id r) ch s1 = (ol, s1)" using channelLog_again [of "c_id r" ch s] by simp
  with c assms show ?thesis by (simp add: older_def loadOlderMessages_def)
qed

lemma older_run:
  assumes "room_keys r ch m ks h" and "room_on_relay dec v r ch ks h now l" and "logs h = Some l"
    and "oldest (log_of r ch s) = None" and "\<not> complete (log_of r ch s)"
  shows "read_down dec v r ch ks h l (length (rows l) - k * HISTORY_PAGE) (log_of r ch ((older now logs dec v r ch ^^ k) s)) \<and>
    complete (log_of r ch ((older now logs dec v r ch ^^ k) s)) = (0 < k \<and> length (rows l) \<le> k * HISTORY_PAGE)"
proof (induction k)
  case 0
  then show ?case using assms(4,5) by (simp add: read_down_def)
next
  case (Suc k)
  let ?s = "(older now logs dec v r ch ^^ k) s"
  have eq: "length (rows l) - k * HISTORY_PAGE - HISTORY_PAGE = length (rows l) - Suc k * HISTORY_PAGE" by simp
  show ?case
  proof (cases "complete (log_of r ch ?s)")
    case True
    then have "log_of r ch (older now logs dec v r ch ?s) = log_of r ch ?s" by (rule older_done)
    moreover have "length (rows l) - k * HISTORY_PAGE = 0" "length (rows l) - Suc k * HISTORY_PAGE = 0" using Suc True by auto
    ultimately show ?thesis using Suc True by simp
  next
    case False
    from older_step [where logs = logs, OF assms(1-3) conjunct1 [OF Suc] False] show ?thesis unfolding eq by auto
  qed
qed


section \<open>A page nobody here can read\<close>

lemma open_entries_none:
  "\<forall>e \<in> set es. first_open dec (pe_payload e) ks = None \<Longrightarrow> open_entries dec ks es = []"
  by (induction es) (simp_all add: open_entries_Cons open_entries_def List.map_filter_simps)

lemma older_stuck:
  assumes "room_keys r ch m ks h" and "\<not> complete (log_of r ch s)"
    and "history_fetch now logs \<lparr>fr_hid = JStr h, fr_after = 0, fr_before = Some (cursor (log_of r ch s)), fr_limit = HISTORY_PAGE\<rparr> = Some reply"
    and "\<not> hr_complete reply" and "\<forall>e \<in> set (hr_entries reply). first_open dec (pe_payload e) ks = None"
  shows "log_of r ch (older now logs dec v r ch s) = log_of r ch s \<and>
    snd (loadOlderMessages (history_fetch now logs) (device_reader dec v) r ch s) = Some True"
proof -
  obtain ol s1 where c: "channelLog (c_id r) ch s = (ol, s1)" by fastforce
  then have c1: "channelLog (c_id r) ch s1 = (ol, s1)" using channelLog_again [of "c_id r" ch s] by simp
  have "openPage (device_reader dec v) r ch (hr_entries reply) JNull = Some []"
    using assms(1) open_entries_none [OF assms(5)]
    by (simp add: openPage_def room_keys_def device_reader_def coalesce_def verifyEntries_def)
  then have "fetchPage (history_fetch now logs) (device_reader dec v) r ch (Some (cursor (ol_log ol))) 0 HISTORY_PAGE s1 =
      (put_log (c_id r) ch (ol_log ol) s1, Some (0, False))"
    using assms(1,3,4) c c1 by (simp add: fetchPage_def room_keys_def addEntries_def)
  with assms(2) c c1 show ?thesis by (simp add: older_def loadOlderMessages_def)
qed

text \<open>
  A page of which no entry opens stops paging back for good. The cursor only moves with entries that were read, so
  every later call asks for the same page, changes nothing and still answers that there is more.
\<close>

theorem unreadable_page_stops_paging:
  assumes "room_keys r ch m ks h" and "\<not> complete (log_of r ch s)"
    and "history_fetch now logs \<lparr>fr_hid = JStr h, fr_after = 0, fr_before = Some (cursor (log_of r ch s)), fr_limit = HISTORY_PAGE\<rparr> = Some reply"
    and "\<not> hr_complete reply" and "\<forall>e \<in> set (hr_entries reply). first_open dec (pe_payload e) ks = None"
  shows "log_of r ch ((older now logs dec v r ch ^^ k) s) = log_of r ch s \<and>
    snd (loadOlderMessages (history_fetch now logs) (device_reader dec v) r ch ((older now logs dec v r ch ^^ k) s)) = Some True"
proof -
  have same: "log_of r ch ((older now logs dec v r ch ^^ k) s) = log_of r ch s" for k
  proof (induction k)
    case (Suc k)
    from older_stuck [where s = "(older now logs dec v r ch ^^ k) s" and logs = logs, OF assms(1) _ _ assms(4,5), of now v] assms(2,3) Suc
    show ?case by simp
  qed simp
  from older_stuck [where s = "(older now logs dec v r ch ^^ k) s" and logs = logs, OF assms(1) _ _ assms(4,5), of now v] assms(2,3) same [of k]
  show ?thesis by simp
qed

section \<open>Logs beside the channel's own\<close>

definition unseq :: "item \<Rightarrow> item" where
  "unseq it = it\<lparr>it_seq := None\<rparr>"

lemma add_entry_unseq:
  assumes "add_entry pl it s \<noteq> None"
  shows "add_entry pl (unseq it) s' \<noteq> None"
proof -
  have e: "entryToMessage x pl a q = None \<longleftrightarrow> entryToMessage x pl a None = None" for x a q
    by (simp add: entryToMessage_def Let_def bind_eq_None_conv split: option.splits)
  have c: "add_content pl i t = None \<longleftrightarrow> entryToMessage (it_entry i) pl (it_auth i) (it_seq i) = None" for i t
    by (cases t; cases "entryToMessage (it_entry i) pl (it_auth i) (it_seq i)")
      (auto simp: add_content_def Let_def split: option.splits)
  have m: "add_mutation i t = None \<longleftrightarrow> it_auth i = Signed \<and> mutationId (it_entry i) = None" for i t
    by (cases t; cases "mutationId (it_entry i)") (auto simp: add_mutation_def split: option.splits)
  have none: "add_entry pl i t = None \<longleftrightarrow> truthy (it_entry i) \<and> it_auth i \<noteq> Forged \<and>
      (if kind_of_entry (it_entry i) \<in> set CONTENT_KINDS then entryToMessage (it_entry i) pl (it_auth i) (it_seq i) = None
       else kind_of_entry (it_entry i) \<in> set MUTATION_KINDS \<and> it_auth i = Signed \<and> mutationId (it_entry i) = None)" for i t
    by (simp add: add_entry_def Let_def c m)
  show ?thesis using assms e [of "it_entry it" "it_auth it" "it_seq it"] unfolding none unseq_def by (auto split: if_splits)
qed

lemma foldM_log_only:
  assumes "foldM (add_entry pl) items (l, n) = Some (l', k)"
  shows "\<exists>k'. foldM (add_entry pl) items (l, n') = Some (l', k')"
  using assms
proof (induction items arbitrary: l n n')
  case (Cons it items)
  then obtain l1 n1 where 1: "add_entry pl it (l, n) = Some (l1, n1)" and 2: "foldM (add_entry pl) items (l1, n1) = Some (l', k)"
    by (auto simp: run_simps)
  have c: "\<exists>k. add_content pl it (a, n') = Some (l1, k)" if "add_content pl it (a, n) = Some (l1, n1)" for a
    using that by (cases "entryToMessage (it_entry it) pl (it_auth it) (it_seq it)")
      (auto simp: add_content_def Let_def split: option.splits if_splits)
  have m: "\<exists>k. add_mutation it (a, n') = Some (l1, k)" if "add_mutation it (a, n) = Some (l1, n1)" for a
    using that by (cases "mutationId (it_entry it)") (auto simp: add_mutation_def split: if_splits option.splits)
  obtain k1 where "add_entry pl it (l, n') = Some (l1, k1)"
    using 1 c m by (fastforce simp: add_entry_def Let_def split: if_splits)
  with Cons.IH [OF 2] show ?case by auto
qed simp

lemma filter_above:
  assumes "sorted_wrt (<) (map f xs)" and "n \<le> length xs" and "\<forall>x \<in> set xs. (0 :: nat) < f x"
  shows "filter (\<lambda>x. (if n = 0 then 0 else f (xs ! (n - 1))) < f x) xs = drop n xs"
proof (cases n)
  case 0
  then show ?thesis using assms(3) by simp
next
  case (Suc k)
  have lt: "f (xs ! i) < f (xs ! j)" if "i < j" "j < length xs" for i j
    using assms(1) that by (auto simp: sorted_wrt_iff_nth_less)
  have "\<forall>x \<in> set (take n xs). \<not> f (xs ! k) < f x"
  proof
    fix x assume "x \<in> set (take n xs)"
    then obtain i where "i < n" "x = xs ! i" "i < length xs" by (auto simp: in_set_conv_nth)
    then show "\<not> f (xs ! k) < f x" using lt [of i k] Suc assms(2) by (cases "i = k") auto
  qed
  moreover have "\<forall>x \<in> set (drop n xs). f (xs ! k) < f x" using lt Suc assms(2) by (auto simp: in_set_conv_nth)
  ultimately have "filter (\<lambda>x. f (xs ! k) < f x) (take n xs @ drop n xs) = drop n xs"
    unfolding filter_append by (simp add: filter_empty_conv filter_id_conv)
  with Suc show ?thesis by simp
qed

lemma page_after:
  assumes "room_on_relay dec v r ch ks h now l" and "logs h = Some l" and "\<forall>e \<in> set (rows l). 0 < row_seq e"
    and "j \<le> length (rows l)"
  shows "history_fetch now logs \<lparr>fr_hid = JStr h, fr_after = (if j = 0 then 0 else row_seq (rows l ! (j - 1))), fr_before = None, fr_limit = HISTORY_PAGE\<rparr> =
    Some \<lparr>hr_entries = map wire (take HISTORY_PAGE (drop j (rows l))), hr_complete = (j = 0 \<and> length (rows l) \<le> HISTORY_PAGE)\<rparr>"
proof -
  let ?after = "if j = 0 then 0 else row_seq (rows l ! (j - 1))"
  have s: "sorted_wrt (<) (map row_seq (rows l))" and u: "filter (unexpired now) (rows l) = rows l"
    using assms(1) by (auto simp: room_on_relay_def filter_id_conv)
  have mem: "rows l ! (j - 1) \<in> set (rows l)" if "j \<noteq> 0" using that assms(4) by simp
  then have "?after < MAX_SAFE_INTEGER" using assms(1) by (auto simp: room_on_relay_def MAX_SAFE_INTEGER_def)
  then have "min ?after (2 ^ 63 - 1) = ?after" by (simp add: MAX_SAFE_INTEGER_def)
  moreover have "?after = 0 \<longleftrightarrow> j = 0" using mem assms(3) by auto
  moreover have "max 1 (min HISTORY_PAGE_MAX HISTORY_PAGE) = HISTORY_PAGE" by (simp add: HISTORY_PAGE_def HISTORY_PAGE_MAX_def)
  ultimately show ?thesis
    using assms(2) filter_above [OF s assms(4,3)] u by (auto simp: history_fetch_def history_page_def Let_def)
qed

lemma foldM_unseq_cursors:
  assumes "foldM (add_entry pl) items (l, n) = Some (l', n')" and "\<forall>it \<in> set items. it_seq it = None"
  shows "oldest l' = oldest l \<and> newest l' = newest l"
  using assms
proof (induction items arbitrary: l n)
  case (Cons it items)
  then obtain l1 n1 where 1: "add_entry pl it (l, n) = Some (l1, n1)" and 2: "foldM (add_entry pl) items (l1, n1) = Some (l', n')"
    by (auto simp: run_simps)
  with Cons.IH [OF 2] Cons.prems(2) add_entry_seqs [OF 1] show ?case by (auto simp: note_seq_def)
qed simp

abbreviation beside :: "cipher \<Rightarrow> (check \<Rightarrow> bool throws) \<Rightarrow> circle \<Rightarrow> jsval list \<Rightarrow> string \<Rightarrow> hist_row \<Rightarrow> item" where
  \<comment> \<open>what an entry of another log is folded in as: without a sequence number of this one\<close>
  "beside dec v r ks h e \<equiv> unseq (the (row_item dec v r ks h (wire e)))"

lemma beside_adds:
  assumes "\<forall>e \<in> set es. readable dec v r ch ks h (wire e)"
  shows "\<exists>l' n. addEntries l (map (beside dec v r ks h) es) (room_place r ch) = Some (l', n)"
proof -
  have "add_entry (room_place r ch) (beside dec v r ks h e) (l, 0) \<noteq> None" if "e \<in> set es" for e
  proof -
    from assms that have "readable dec v r ch ks h (wire e)" by blast
    then obtain it where it: "row_item dec v r ks h (wire e) = Some it" "counted it"
      "it_seq it = Some (pe_seq (wire e))" "\<forall>s. add_entry (room_place r ch) it s \<noteq> None"
      by (rule readable_item)
    from add_entry_unseq [OF spec [OF it(4)]] it(1) show ?thesis by simp
  qed
  then have "\<not> (\<exists>it \<in> set (map (beside dec v r ks h) es). add_entry (room_place r ch) it (l, 0) = None)" by auto
  then have "foldM (add_entry (room_place r ch)) (map (beside dec v r ks h) es) (l, 0) \<noteq> None"
    using foldM_total [of "add_entry (room_place r ch)", OF add_entry_total] by blast
  then show ?thesis by (auto simp: addEntries_def)
qed

lemma drain_pages_reads:
  assumes "chan_meta_at r (JStr ch) = Some m" and "truthy (oprop m ''hid'')" and "channelKeys m = Some ks"
    and "room_on_relay dec v r ch ks h now l" and "logs h = Some l" and "\<forall>e \<in> set (rows l). 0 < row_seq e"
    and "j \<le> length (rows l)"
  shows "\<exists>c. addEntries clog (map (beside dec v r ks h) (take (n * HISTORY_PAGE) (drop j (rows l)))) (room_place r ch) =
      map_option (\<lambda>clog'. (clog', c))
        (drain_pages n (history_fetch now logs) (device_reader dec v) r ch (JStr h) (if j = 0 then 0 else row_seq (rows l ! (j - 1))) clog)"
  using assms(7)
proof (induction n arbitrary: j clog)
  case 0
  then show ?case by (simp add: addEntries_def)
next
  case (Suc n)
  let ?page = "take HISTORY_PAGE (drop j (rows l))" and ?j = "min (length (rows l)) (j + HISTORY_PAGE)"
  note ask = page_after [where logs = logs, OF assms(4-6) Suc.prems]
  show ?case
  proof (cases "j = length (rows l)")
    case True
    with ask show ?thesis by (simp add: addEntries_def)
  next
    case False
    with Suc.prems have ne: "?page \<noteq> []" by (simp add: HISTORY_PAGE_def)
    have rd: "\<forall>e \<in> set ?page. readable dec v r ch ks h (wire e)"
      using assms(4) by (auto simp: room_on_relay_def dest!: in_set_takeD in_set_dropD)
    then have some: "\<forall>e \<in> set (map wire ?page). row_item dec v r ks h e \<noteq> None" by (auto elim!: readable_item)
    have op: "openPage (device_reader dec v) r ch (map wire ?page) (JStr h) = Some (map (\<lambda>e. the (row_item dec v r ks h e)) (map wire ?page))"
      using assms(1-3) some by (intro openPage_items) (auto simp: coalesce_def)
    obtain clog1 n1 where add: "addEntries clog (map (beside dec v r ks h) ?page) (room_place r ch) = Some (clog1, n1)"
      using beside_adds [OF rd] by blast
    have last: "pe_seq (last (map wire ?page)) = (if ?j = 0 then 0 else row_seq (rows l ! (?j - 1)))"
    proof -
      have "last ?page = rows l ! (j + length ?page - 1)" using ne Suc.prems False by (simp add: last_conv_nth)
      moreover have "j + length ?page = ?j" using Suc.prems by simp
      ultimately show ?thesis using ne by (auto simp: last_map wire_def min_def split: if_splits)
    qed
    have split: "take (Suc n * HISTORY_PAGE) (drop j (rows l)) = ?page @ take (n * HISTORY_PAGE) (drop ?j (rows l))"
    proof -
      have "drop ?j (rows l) = drop HISTORY_PAGE (drop j (rows l))" by (auto simp: min_def add.commute)
      then show ?thesis by (simp add: take_add)
    qed
    have "?j \<le> length (rows l)" by simp
    from Suc.IH [OF this, of clog1] last obtain c where
      c: "addEntries clog1 (map (beside dec v r ks h) (take (n * HISTORY_PAGE) (drop ?j (rows l)))) (room_place r ch) =
        map_option (\<lambda>clog'. (clog', c)) (drain_pages n (history_fetch now logs) (device_reader dec v) r ch (JStr h)
          (pe_seq (last (map wire ?page))) clog1)" by auto
    have step: "drain_pages (Suc n) (history_fetch now logs) (device_reader dec v) r ch (JStr h) (if j = 0 then 0 else row_seq (rows l ! (j - 1))) clog =
        drain_pages n (history_fetch now logs) (device_reader dec v) r ch (JStr h) (pe_seq (last (map wire ?page))) clog1"
      using ask ne op add by (simp add: unseq_def [abs_def] comp_def)
    show ?thesis
    proof (cases "drain_pages n (history_fetch now logs) (device_reader dec v) r ch (JStr h) (pe_seq (last (map wire ?page))) clog1")
      case None
      have "\<forall>e \<in> set (take (n * HISTORY_PAGE) (drop ?j (rows l))). readable dec v r ch ks h (wire e)"
        using assms(4) by (auto simp: room_on_relay_def dest!: in_set_takeD in_set_dropD)
      from beside_adds [OF this, of clog1] c None show ?thesis by simp
    next
      case (Some clog2)
      with c obtain c' where "foldM (add_entry (room_place r ch)) (map (beside dec v r ks h) (take (n * HISTORY_PAGE) (drop ?j (rows l)))) (clog1, n1) = Some (clog2, c')"
        using foldM_log_only unfolding addEntries_def by fastforce
      with add have "addEntries clog (map (beside dec v r ks h) (take (Suc n * HISTORY_PAGE) (drop j (rows l)))) (room_place r ch) = Some (clog2, c')"
        unfolding split map_append by (simp add: addEntries_def foldM_append)
      with step Some show ?thesis by auto
    qed
  qed
qed

text \<open>
  A log beside the channel's own is read whole up to a thousand entries. A channel whose key two admins minted at the
  same moment keeps a second log; opening the room folds every entry of it into the working copy, in at most twenty
  requests, and leaves the cursors of the channel's own log where they were.
\<close>

theorem alternate_log_is_drained:
  assumes "chan_meta_at r (JStr ch) = Some m" and "truthy (oprop m ''hid'')" and "channelKeys m = Some ks"
    and "room_on_relay dec v r ch ks h now l" and "logs h = Some l" and "\<forall>e \<in> set (rows l). 0 < row_seq e"
    and "length (rows l) \<le> 1000"
  shows "\<exists>clog'. drain_pages DRAIN_PAGES (history_fetch now logs) (device_reader dec v) r ch (JStr h) 0 clog = Some clog' \<and>
    (\<forall>e \<in> set (rows l). \<exists>it. row_item dec v r ks h (wire e) = Some it \<and> settled (room_place r ch) (unseq it) clog') \<and>
    oldest clog' = oldest clog \<and> newest clog' = newest clog \<and> complete clog' = complete clog"
proof -
  have rd: "\<forall>e \<in> set (rows l). readable dec v r ch ks h (wire e)" using assms(4) by (simp add: room_on_relay_def)
  obtain clog' n where add: "addEntries clog (map (beside dec v r ks h) (rows l)) (room_place r ch) = Some (clog', n)"
    using beside_adds [OF rd] by blast
  from drain_pages_reads [where logs = logs and j = 0 and n = DRAIN_PAGES and clog = clog, OF assms(1-6)] assms(7) add
  have "drain_pages DRAIN_PAGES (history_fetch now logs) (device_reader dec v) r ch (JStr h) 0 clog = Some clog'"
    by (cases "drain_pages DRAIN_PAGES (history_fetch now logs) (device_reader dec v) r ch (JStr h) 0 clog")
      (auto simp: DRAIN_PAGES_def HISTORY_PAGE_def)
  moreover have "\<exists>it. row_item dec v r ks h (wire e) = Some it \<and> settled (room_place r ch) (unseq it) clog'" if "e \<in> set (rows l)" for e
  proof -
    from rd that obtain it where "row_item dec v r ks h (wire e) = Some it" using readable_item by blast
    moreover have "settled (room_place r ch) (beside dec v r ks h e) clog'"
      using add that unfolding addEntries_def by (intro foldM_settles) auto
    ultimately show ?thesis by simp
  qed
  moreover have "oldest clog' = oldest clog \<and> newest clog' = newest clog"
    using add unfolding addEntries_def by (intro foldM_unseq_cursors) (auto simp: unseq_def)
  moreover have "complete clog' = complete clog" using add by (rule add_entries_complete)
  ultimately show ?thesis by blast
qed

section \<open>What is written is read\<close>

definition aead_rejects :: "cipher \<Rightarrow> cipher \<Rightarrow> bool" where
  \<comment> \<open>authenticated encryption, idealised: another key does not open it\<close>
  "aead_rejects enc dec \<longleftrightarrow> (\<forall>k k' iv p c. enc k iv p = Some c \<longrightarrow> k' \<noteq> k \<longrightarrow> dec k' iv c = None)"

lemma first_open_unique:
  assumes "\<forall>k \<in> set ks. try_key dec payload k \<in> {None, Some e}" and "k0 \<in> set ks" and "try_key dec payload k0 = Some e"
  shows "first_open dec payload ks = Some e"
  using assms by (induction ks) (auto split: option.split)

lemma other_keys_fail:
  assumes "aead_opens enc dec" and "aead_rejects enc dec" and "length iv = 12"
    and "sealLogEntry enc iv hk g h entry sign = Some payload" and "openLogEntry dec hk payload = Some e"
  shows "try_key dec payload k \<in> {None, Some e}"
proof -
  from assms(4) obtain sealed key blob where key: "b64_dec hk = Some key"
    and blob: "encryptBlob enc iv key (utf8_enc (stringify (JObj sealed))) = Some blob" and payload: "payload = b64_enc blob"
    by (auto simp: sealLogEntry_def bind_eq_Some_conv simp del: stringify.simps)
  have "decryptBlob dec kb blob = None" if "kb \<noteq> key" for kb
    using that blob assms(2,3) by (auto simp: encryptBlob_def decryptBlob_def aead_rejects_def bind_eq_Some_conv simp del: stringify.simps)
  then have "openLogEntry dec s payload = None \<or> openLogEntry dec s payload = openLogEntry dec hk payload" for s
    by (cases "b64_dec s = b64_dec hk"; cases "b64_dec s") (auto simp: openLogEntry_def payload b64_enc_dec key)
  then show ?thesis using assms(5) by (cases "to_str k") (auto simp: try_key_def)
qed

lemma page_reads_back:
  assumes "aead_opens enc dec" and "aead_rejects enc dec" and "length iv = 12" and "whole (JObj entry)"
    and "sealLogEntry enc iv hk (c_id r) h entry sign = Some payload" and "room_keys r ch m ks h" and "JStr hk \<in> set ks"
    and "map_of entry ''sender'' = Some (JStr who)" and "map_of (keyDirectory (Some r)) who = Some (b64_enc pk)" and "pk \<noteq> []"
    and "\<forall>x s. sign x = Some s \<longrightarrow> v \<lparr>chk_key = pk, chk_message = x, chk_sig = s\<rparr> = Some True"
  shows "\<exists>it. openPage (device_reader dec v) r ch [\<lparr>pe_seq = q, pe_payload = payload\<rparr>] JNull = Some [it] \<and>
    it_auth it = Signed \<and> it_seq it = Some q \<and>
    (\<forall>f x. f \<noteq> ''sig'' \<longrightarrow> map_of entry f = Some x \<longrightarrow> \<not> is_undef x \<longrightarrow> oprop (it_entry it) f = tidy x) \<and>
    truthy (it_entry it) \<and> \<not> it_local it \<and> (\<forall>f. f \<notin> {''sig'', ''v''} \<longrightarrow> map_of entry f = None \<longrightarrow> oprop (it_entry it) f = JUndef)"
proof -
  have "\<forall>x s. sign x = Some s \<longrightarrow> checks_out v \<lparr>chk_key = pk, chk_message = x, chk_sig = s\<rparr>"
    using assms(11) by (simp add: checks_out_def)
  from sealed_entry_opens [OF assms(1,3,4,5,8,9,10) this] obtain e where e: "openLogEntry dec hk payload = Some e" "truthy e"
    "verdict_of (c_id r) h (keyDirectory (Some r)) (checks_out v) e = Some Signed"
    "\<forall>f x. f \<noteq> ''sig'' \<longrightarrow> map_of entry f = Some x \<longrightarrow> \<not> is_undef x \<longrightarrow> oprop e f = tidy x"
    "\<forall>f. f \<notin> {''sig'', ''v''} \<longrightarrow> map_of entry f = None \<longrightarrow> oprop e f = JUndef" by blast
  have "try_key dec payload (JStr hk) = Some e" using e(1) by (simp add: try_key_def)
  with other_keys_fail [OF assms(1-3,5) e(1)] assms(7) have "first_open dec payload ks = Some e" by (intro first_open_unique) auto
  then have it: "row_item dec v r ks h \<lparr>pe_seq = q, pe_payload = payload\<rparr> = Some \<lparr>it_seq = Some q, it_entry = e, it_auth = Signed, it_local = False\<rparr>"
    using e(2,3) by (simp add: row_item_def)
  then have "openPage (device_reader dec v) r ch [\<lparr>pe_seq = q, pe_payload = payload\<rparr>] JNull =
      Some (map (\<lambda>e. the (row_item dec v r ks h e)) [\<lparr>pe_seq = q, pe_payload = payload\<rparr>])"
    using assms(6) by (intro openPage_items) (auto simp: room_keys_def coalesce_def)
  with it e(2,4,5) show ?thesis by simp
qed


section \<open>Examples\<close>

definition keyed_enc :: cipher where
  "keyed_enc k iv p = (if length k = 4 then Some (k @ p) else None)"

definition keyed_dec :: cipher where
  "keyed_dec k iv c = (if length k = 4 \<and> take 4 c = k then Some (drop 4 c) else None)"

definition example_keys :: jsval where
  "example_keys = JObj [(''hid'', JStr ''log''), (''hkey'', JStr (b64_enc ''new!'')), (''hkeys'', JArr [JStr (b64_enc ''room'')])]"

definition example_reader :: circle where
  "example_reader = (empty_circle ''c'')\<lparr>chanMeta := Some [(''general'', example_keys)], keys := Some [(''ann'', b64_enc ''key'')]\<rparr>"

lemma keyed_cipher: "aead_opens keyed_enc keyed_dec" "aead_rejects keyed_enc keyed_dec"
  by (auto simp: aead_opens_def aead_rejects_def keyed_enc_def keyed_dec_def split: if_splits)

lemma example_room_keys: "room_keys example_reader ''general'' example_keys [JStr (b64_enc ''new!''), JStr (b64_enc ''room'')] ''log''"
  by (simp add: room_keys_def chan_meta_at_def dget_def example_reader_def example_keys_def channelKeys_def js_array_def
      coalesce_def b64_enc_nonempty)


definition clear_cipher :: cipher where
  \<comment> \<open>what is encrypted is left as it is\<close>
  "clear_cipher k iv p = Some p"

definition example_row :: "nat \<Rightarrow> hist_row" where
  "example_row q = \<lparr>row_seq = q, row_ts = 5, row_expires = None,
     row_payload = replicate 12 (CHR ''n'') @ utf8_enc (stringify (JObj History.example_line)), row_author = ''ann''\<rparr>"

definition example_hist :: "nat list \<Rightarrow> hist_log" where
  "example_hist qs = \<lparr>last_seq = 60, rows = map example_row qs\<rparr>"

lemma example_row_opens:
  "first_open clear_cipher (pe_payload (wire (example_row q))) [JStr (b64_enc ''new!''), JStr (b64_enc ''room'')] = Some (JObj History.example_line)"
proof -
  have w: "whole (JObj History.example_line)" by (simp add: History.example_line_def)
  have "openLogEntry clear_cipher (b64_enc ''new!'') (pe_payload (wire (example_row q))) = Some (tidy (JObj History.example_line))"
    using parse_stringify [OF w]
    by (simp add: openLogEntry_def wire_def example_row_def b64_enc_dec decryptBlob_def clear_cipher_def utf8_enc_dec del: stringify.simps)
  moreover have "tidy (JObj History.example_line) = JObj History.example_line" by code_simp
  ultimately show ?thesis by (simp add: try_key_def)
qed

lemma example_row_readable:
  "readable clear_cipher v example_reader ''general'' [JStr (b64_enc ''new!''), JStr (b64_enc ''room'')] ''log'' (wire (example_row q))"
proof -
  have "row_item clear_cipher v example_reader [JStr (b64_enc ''new!''), JStr (b64_enc ''room'')] ''log'' (wire (example_row q)) =
      Some \<lparr>it_seq = Some q, it_entry = JObj History.example_line, it_auth = Unsigned, it_local = False\<rparr>"
    unfolding row_item_def example_row_opens
    by (simp add: verdict_of_def judge_entry_def History.example_line_def wire_def example_row_def)
  then show ?thesis by (simp add: readable_def log_eval History.example_line_def)
qed

lemma example_room_on_relay:
  assumes "sorted_wrt (<) qs" and "\<forall>q \<in> set qs. q < MAX_SAFE_INTEGER"
  shows "room_on_relay clear_cipher v example_reader ''general'' [JStr (b64_enc ''new!''), JStr (b64_enc ''room'')] ''log'' 0 (example_hist qs)"
proof -
  have "map row_seq (rows (example_hist qs)) = qs" by (simp add: example_hist_def example_row_def comp_def)
  then show ?thesis using assms example_row_readable by (auto simp: room_on_relay_def example_hist_def example_row_def unexpired_def)
qed


theorem alternate_log_is_drained_witness:
  "\<exists>clog'. drain_pages DRAIN_PAGES (history_fetch 0 [''log'' \<mapsto> example_hist [1..<61]]) (device_reader clear_cipher (\<lambda>c. None))
     example_reader ''general'' (JStr ''log'') 0 createChannelLog = Some clog' \<and> oldest clog' = None"
proof -
  have rel: "room_on_relay clear_cipher (\<lambda>c. None) example_reader ''general'' [JStr (b64_enc ''new!''), JStr (b64_enc ''room'')] ''log'' 0 (example_hist [1..<61])"
    by (intro example_room_on_relay) (auto simp: MAX_SAFE_INTEGER_def)
  have pos: "\<forall>e \<in> set (rows (example_hist [1..<61])). 0 < row_seq e" by (auto simp: example_hist_def example_row_def)
  have len: "length (rows (example_hist [1..<61])) \<le> 1000" by (simp add: example_hist_def)
  have m: "chan_meta_at example_reader (JStr ''general'') = Some example_keys" "truthy (oprop example_keys ''hid'')"
    "channelKeys example_keys = Some [JStr (b64_enc ''new!''), JStr (b64_enc ''room'')]"
    using example_room_keys by (simp_all add: room_keys_def)
  from alternate_log_is_drained [where logs = "[''log'' \<mapsto> example_hist [1..<61]]" and clog = createChannelLog, OF m rel _ pos len]
  show ?thesis by (auto simp: createChannelLog_def)
qed

theorem unreadable_page_stops_paging_witness:
  "snd (loadOlderMessages (history_fetch 0 [''log'' \<mapsto> example_hist [1..<61]]) (device_reader (\<lambda>k iv c. None) (\<lambda>c. None)) example_reader ''general''
     ((older 0 [''log'' \<mapsto> example_hist [1..<61]] (\<lambda>k iv c. None) (\<lambda>c. None) example_reader ''general'' ^^ 9) [])) = Some True"
proof -
  let ?logs = "[''log'' \<mapsto> example_hist [1..<61]]" and ?none = "\<lambda>k iv c. None"
  have fresh: "cursor (log_of example_reader ''general'' []) = MAX_SAFE_INTEGER" "\<not> complete (log_of example_reader ''general'' [])"
    by (simp_all add: channelLog_def fresh_log_def createChannelLog_def)
  have closed: "first_open ?none p [JStr (b64_enc ''new!''), JStr (b64_enc ''room'')] = None" for p
    by (cases "b64_dec p") (simp_all add: try_key_def openLogEntry_def b64_enc_dec decryptBlob_def)
  have rel: "room_on_relay clear_cipher (\<lambda>c. None) example_reader ''general'' [JStr (b64_enc ''new!''), JStr (b64_enc ''room'')] ''log'' 0 (example_hist [1..<61])"
    by (intro example_room_on_relay) (auto simp: MAX_SAFE_INTEGER_def)
  have down: "read_down clear_cipher (\<lambda>c. None) example_reader ''general'' [JStr (b64_enc ''new!''), JStr (b64_enc ''room'')] ''log'' (example_hist [1..<61]) 60 (log_of example_reader ''general'' [])"
    by (simp add: read_down_def example_hist_def channelLog_def fresh_log_def createChannelLog_def)
  from page_before [where logs = ?logs, OF rel down] obtain reply where
    reply: "history_fetch 0 ?logs \<lparr>fr_hid = JStr ''log'', fr_after = 0, fr_before = Some (cursor (log_of example_reader ''general'' [])), fr_limit = HISTORY_PAGE\<rparr> = Some reply"
    "\<not> hr_complete reply" by (auto simp: HISTORY_PAGE_def)
  from unreadable_page_stops_paging [where logs = ?logs and dec = ?none and v = "\<lambda>c. None" and k = 9, OF example_room_keys fresh(2) reply] closed
  show ?thesis by simp
qed

end
