(* ===== verification/Commits.thy ===== *)
theory Commits
  imports Actions Search "HOL-Library.Sublist"
begin

text \<open>
  How a membership change becomes the group's next epoch: the commands of the crypto worker
  (\<open>client/public/worker.js\<close>), which stage a commit and merge or discard it, the compare-and-swap of the relay's log on
  the epoch (\<open>append_message\<close> in \<open>relay/src/store.rs\<close>), and \<open>publishCommit\<close> of \<open>client/src/lib/controller.js\<close> between
  the two. MLS itself, a library, is a parameter: its operations are a record, and what the code relies on is stated by
  \<open>mls_laws\<close>, over the list of commits a group state has gone through, the commit it has staged, and the commits a commit
  was made after.
\<close>

section \<open>The worker\<close>

datatype mls_event =
    Application string string                    \<comment> \<open>sender and text\<close>
  | MembershipChange string "string list" nat    \<comment> \<open>sender, members, epoch\<close>
  | OtherEvent

record 'g mls =
  m_epoch :: "'g \<Rightarrow> nat"
  m_members :: "'g \<Rightarrow> string list"
  m_add :: "'g \<Rightarrow> bytes \<Rightarrow> string \<Rightarrow> bytes \<Rightarrow> (bytes \<times> bytes \<times> 'g) throws"
  m_remove :: "'g \<Rightarrow> string \<Rightarrow> (bytes \<times> 'g) throws"
  m_merge :: "'g \<Rightarrow> 'g throws"
  m_discard :: "'g \<Rightarrow> 'g throws"
  m_receive :: "'g \<Rightarrow> bytes \<Rightarrow> (mls_event \<times> 'g) throws"

record staged =
  sg_commit :: bytes
  sg_welcome :: "bytes option"
  sg_epoch :: nat

definition worker_addMember :: "'g mls \<Rightarrow> 'g \<Rightarrow> bytes \<Rightarrow> string \<Rightarrow> bytes \<Rightarrow> (staged \<times> 'g) throws" where
  "worker_addMember M g keyPackage expectIdentity expectKey =
     do { (c, w, g') \<leftarrow> m_add M g keyPackage expectIdentity expectKey;
          Some (\<lparr>sg_commit = c, sg_welcome = Some w, sg_epoch = m_epoch M g' + 1\<rparr>, g') }"

definition worker_removeMember :: "'g mls \<Rightarrow> 'g \<Rightarrow> string \<Rightarrow> (staged \<times> 'g) throws" where
  "worker_removeMember M g name =
     do { (c, g') \<leftarrow> m_remove M g name;
          Some (\<lparr>sg_commit = c, sg_welcome = None, sg_epoch = m_epoch M g' + 1\<rparr>, g') }"

definition mergeStagedCommit :: "'g mls \<Rightarrow> 'g \<Rightarrow> (nat \<times> string list \<times> 'g) throws" where
  "mergeStagedCommit M g = do { g' \<leftarrow> m_merge M g; Some (m_epoch M g', m_members M g', g') }"

definition discardStagedCommit :: "'g mls \<Rightarrow> 'g \<Rightarrow> (nat \<times> string list \<times> 'g) throws" where
  "discardStagedCommit M g = do { g' \<leftarrow> m_discard M g; Some (m_epoch M g', m_members M g', g') }"

section \<open>The relay's log\<close>

record stored_message =
  sm_seq :: nat
  sm_epoch :: nat
  sm_sender :: string
  sm_payload :: bytes

record group_data =
  gd_epoch :: nat
  gd_log :: "stored_message list"

definition append_message :: "nat \<Rightarrow> string \<Rightarrow> bytes \<Rightarrow> bool \<Rightarrow> group_data \<Rightarrow> (nat \<times> group_data) option" where
  \<comment> \<open>\<open>None\<close> is \<open>StoreError::EpochConflict\<close>\<close>
  "append_message ep sender payload commit d =
     (if commit \<and> ep \<noteq> gd_epoch d + 1 then None
      else let seq = length (gd_log d) + 1
           in Some (seq, d\<lparr>gd_epoch := (if commit then ep else gd_epoch d),
                gd_log := gd_log d @ [\<lparr>sm_seq = seq, sm_epoch = ep, sm_sender = sender, sm_payload = payload\<rparr>]\<rparr>))"

definition messages_after :: "nat \<Rightarrow> group_data \<Rightarrow> stored_message list" where
  "messages_after after d = filter (\<lambda>m. after < sm_seq m) (gd_log d)"

section \<open>Publishing\<close>

datatype send_reply = Accepted nat | Rejected_with string     \<comment> \<open>what \<open>relay.request\<close> settles to\<close>

definition is_conflict :: "string \<Rightarrow> bool" where
  \<comment> \<open>\<open>/epoch conflict/i\<close>\<close>
  "is_conflict msg = has_text (toLowerCase msg) ''epoch conflict''"

definition CONFLICT_TEXT :: "string \<Rightarrow> string" where
  "CONFLICT_TEXT dash = ''someone else changed this circle at the same moment '' @ dash @ '' nothing was applied, try again''"

definition publishCommit :: "'g mls \<Rightarrow> string \<Rightarrow> send_reply \<Rightarrow> 'g \<Rightarrow> (string + nat) \<times> 'g" where
  \<comment> \<open>after the relay's answer: its sequence number, or the error thrown, and the state as persisted\<close>
  "publishCommit M dash rep g =
     (case rep of
        Accepted seq \<Rightarrow> (Inr seq, g)
      | Rejected_with msg \<Rightarrow>
          (case discardStagedCommit M g of
             None \<Rightarrow> (Inl msg, g)
           | Some (e, ms, g') \<Rightarrow> (Inl (if is_conflict msg then CONFLICT_TEXT dash else msg), g')))"

section \<open>What the code relies on\<close>

record 'g history =
  hist :: "'g \<Rightarrow> bytes list"          \<comment> \<open>the commits a state has gone through\<close>
  pending :: "'g \<Rightarrow> bytes option"    \<comment> \<open>the commit staged in it\<close>
  after :: "bytes \<Rightarrow> bytes list"      \<comment> \<open>the commits a commit was made after\<close>
  owner :: "'g \<Rightarrow> string"
  author :: "bytes \<Rightarrow> string"
  is_commit :: "bytes \<Rightarrow> bool"

definition stages :: "'g history \<Rightarrow> 'g \<Rightarrow> bytes \<Rightarrow> 'g \<Rightarrow> bool" where
  "stages H g c g' \<longleftrightarrow> hist H g' = hist H g \<and> pending H g' = Some c \<and> owner H g' = owner H g \<and>
     after H c = hist H g \<and> author H c = owner H g \<and> is_commit H c"

definition mls_laws :: "'g mls \<Rightarrow> 'g history \<Rightarrow> bool" where
  "mls_laws M H \<longleftrightarrow>
     (\<forall>g. m_epoch M g = length (hist H g)) \<and>
     (\<forall>g kp i k c w g'. m_add M g kp i k = Some (c, w, g') \<longrightarrow> pending H g = None \<and> stages H g c g') \<and>
     (\<forall>g u c g'. m_remove M g u = Some (c, g') \<longrightarrow> pending H g = None \<and> stages H g c g') \<and>
     (\<forall>g g'. m_merge M g = Some g' \<longrightarrow> pending H g' = None \<and> owner H g' = owner H g \<and>
        hist H g' = hist H g @ (case pending H g of None \<Rightarrow> [] | Some c \<Rightarrow> [c])) \<and>
     (\<forall>g g'. m_discard M g = Some g' \<longrightarrow> pending H g' = None \<and> hist H g' = hist H g \<and> owner H g' = owner H g) \<and>
     (\<forall>g b e g'. m_receive M g b = Some (e, g') \<longrightarrow> owner H g' = owner H g \<and>
        (hist H g' = hist H g \<and> pending H g' = pending H g \<or>
         is_commit H b \<and> after H b = hist H g \<and> author H b \<noteq> owner H g \<and> hist H g' = hist H g @ [b] \<and> pending H g' = None))"

lemma mls_lawsD:
  assumes "mls_laws M H"
  shows "m_epoch M g = length (hist H g)"
    and "m_add M g kp i k = Some (c, w, g') \<Longrightarrow> pending H g = None \<and> stages H g c g'"
    and "m_remove M g u = Some (c, g') \<Longrightarrow> pending H g = None \<and> stages H g c g'"
    and "m_merge M g = Some g' \<Longrightarrow> pending H g' = None \<and> owner H g' = owner H g \<and>
      hist H g' = hist H g @ (case pending H g of None \<Rightarrow> [] | Some c \<Rightarrow> [c])"
    and "m_discard M g = Some g' \<Longrightarrow> pending H g' = None \<and> hist H g' = hist H g \<and> owner H g' = owner H g"
    and "m_receive M g b = Some (e, g') \<Longrightarrow> owner H g' = owner H g \<and>
      (hist H g' = hist H g \<and> pending H g' = pending H g \<or>
       is_commit H b \<and> after H b = hist H g \<and> author H b \<noteq> owner H g \<and> hist H g' = hist H g @ [b] \<and> pending H g' = None)"
  using assms unfolding mls_laws_def by blast+

section \<open>Devices around one relay\<close>

datatype phase =
    Idle
  | InFlight bytes nat        \<comment> \<open>a commit on its way to the relay, with the epoch it will make\<close>
  | Answered send_reply       \<comment> \<open>the answer on its way back, or the error the socket settled to\<close>

record 'g net =
  relay_data :: group_data
  accepted :: "bytes list"    \<comment> \<open>the commits the relay has let in, in order\<close>
  node_of :: "string \<Rightarrow> 'g"
  phase_of :: "string \<Rightarrow> phase"

inductive commit_step :: "'g mls \<Rightarrow> 'g history \<Rightarrow> 'g net \<Rightarrow> 'g net \<Rightarrow> bool" for M H where
  stage_remove: "phase_of s n = Idle \<Longrightarrow> worker_removeMember M (node_of s n) u = Some (sg, g) \<Longrightarrow>
     commit_step M H s (s\<lparr>node_of := (node_of s)(n := g), phase_of := (phase_of s)(n := InFlight (sg_commit sg) (sg_epoch sg))\<rparr>)"
| stage_add: "phase_of s n = Idle \<Longrightarrow> worker_addMember M (node_of s n) kp u k = Some (sg, g) \<Longrightarrow>
     commit_step M H s (s\<lparr>node_of := (node_of s)(n := g), phase_of := (phase_of s)(n := InFlight (sg_commit sg) (sg_epoch sg))\<rparr>)"
| relay_takes: "phase_of s n = InFlight c ep \<Longrightarrow> append_message ep n c True (relay_data s) = Some (seq, d) \<Longrightarrow>
     commit_step M H s (s\<lparr>relay_data := d, accepted := accepted s @ [c], phase_of := (phase_of s)(n := Answered (Accepted seq))\<rparr>)"
| relay_refuses: "phase_of s n = InFlight c ep \<Longrightarrow> append_message ep n c True (relay_data s) = None \<Longrightarrow>
     commit_step M H s (s\<lparr>phase_of := (phase_of s)(n := Answered (Rejected_with ''epoch conflict''))\<rparr>)"
| socket_drops: "phase_of s n \<noteq> Idle \<Longrightarrow> commit_step M H s (s\<lparr>phase_of := (phase_of s)(n := Answered (Rejected_with msg))\<rparr>)"
| settle_accepted: "phase_of s n = Answered (Accepted seq) \<Longrightarrow> publishCommit M dash (Accepted seq) (node_of s n) = (Inr q, g) \<Longrightarrow>
     mergeStagedCommit M g = Some (e, ms, g') \<Longrightarrow>
     commit_step M H s (s\<lparr>node_of := (node_of s)(n := g'), phase_of := (phase_of s)(n := Idle)\<rparr>)"
| settle_rejected: "phase_of s n = Answered (Rejected_with msg) \<Longrightarrow> publishCommit M dash (Rejected_with msg) (node_of s n) = (Inl err, g) \<Longrightarrow>
     commit_step M H s (s\<lparr>node_of := (node_of s)(n := g), phase_of := (phase_of s)(n := Idle)\<rparr>)"
| say: "\<not> is_commit H b \<Longrightarrow> append_message ep n b False (relay_data s) = Some (seq, d) \<Longrightarrow> commit_step M H s (s\<lparr>relay_data := d\<rparr>)"
| hear: "x \<in> set (gd_log (relay_data s)) \<Longrightarrow> m_receive M (node_of s n) (sm_payload x) = Some (ev, g) \<Longrightarrow>
     commit_step M H s (s\<lparr>node_of := (node_of s)(n := g)\<rparr>)"

inductive net_step :: "'g mls \<Rightarrow> 'g history \<Rightarrow> 'g net \<Rightarrow> 'g net \<Rightarrow> bool" for M H where
  acts: "commit_step M H s s' \<Longrightarrow> net_step M H s s'"
| welcomed: "phase_of s n = Idle \<Longrightarrow> c \<in> set (accepted s) \<Longrightarrow> hist H g = after H c @ [c] \<Longrightarrow> pending H g = None \<Longrightarrow> owner H g = n \<Longrightarrow>
     net_step M H s (s\<lparr>node_of := (node_of s)(n := g)\<rparr>)"

definition in_step :: "'g history \<Rightarrow> 'g net \<Rightarrow> bool" where
  \<comment> \<open>where a run starts: the devices hold one state, nothing is under way, the relay has its epoch\<close>
  "in_step H s \<longleftrightarrow> gd_epoch (relay_data s) = length (accepted s) \<and> (\<forall>x \<in> set (gd_log (relay_data s)). is_commit H (sm_payload x) \<longrightarrow> sm_payload x \<in> set (accepted s)) \<and>
     (\<forall>i < length (accepted s). after H (accepted s ! i) = take i (accepted s)) \<and>
     (\<forall>n. hist H (node_of s n) = accepted s \<and> pending H (node_of s n) = None \<and> owner H (node_of s n) = n \<and> phase_of s n = Idle)"

definition node_ok :: "'g history \<Rightarrow> bytes list \<Rightarrow> string \<Rightarrow> 'g \<Rightarrow> phase \<Rightarrow> bool" where
  "node_ok H cs n g p \<longleftrightarrow> owner H g = n \<and> prefix (hist H g) cs \<and>
     (\<forall>c. pending H g = Some c \<longrightarrow> after H c = hist H g) \<and>
     (case p of
        Idle \<Rightarrow> True
      | InFlight c ep \<Rightarrow> ep = length (after H c) + 1 \<and> prefix (after H c) cs \<and> is_commit H c \<and> pending H g \<in> {None, Some c}
      | Answered (Accepted q) \<Rightarrow> (\<forall>c. pending H g = Some c \<longrightarrow> prefix (hist H g @ [c]) cs)
      | Answered (Rejected_with msg) \<Rightarrow> True)"

definition net_ok :: "'g history \<Rightarrow> 'g net \<Rightarrow> bool" where
  "net_ok H s \<longleftrightarrow> gd_epoch (relay_data s) = length (accepted s) \<and>
     (\<forall>x \<in> set (gd_log (relay_data s)). is_commit H (sm_payload x) \<longrightarrow> sm_payload x \<in> set (accepted s)) \<and>
     (\<forall>i < length (accepted s). after H (accepted s ! i) = take i (accepted s)) \<and>
     (\<forall>n. node_ok H (accepted s) n (node_of s n) (phase_of s n))"

lemma in_step_ok: "in_step H s \<Longrightarrow> net_ok H s"
  by (auto simp: in_step_def net_ok_def node_ok_def)

lemma node_ok_grows: "node_ok H cs n g p \<Longrightarrow> node_ok H (cs @ [c]) n g p"
  by (auto simp: node_ok_def split: phase.splits send_reply.splits intro: prefix_prefix)

lemma net_ok_update:
  assumes "net_ok H s" and "node_ok H (accepted s) n g p"
  shows "net_ok H (s\<lparr>node_of := (node_of s)(n := g), phase_of := (phase_of s)(n := p)\<rparr>)"
  using assms by (simp add: net_ok_def)

lemma net_ok_state:
  assumes "net_ok H s" and "node_ok H (accepted s) n g (phase_of s n)"
  shows "net_ok H (s\<lparr>node_of := (node_of s)(n := g)\<rparr>)"
  using assms by (simp add: net_ok_def)

lemma net_ok_phase:
  assumes "net_ok H s" and "node_ok H (accepted s) n (node_of s n) p"
  shows "net_ok H (s\<lparr>phase_of := (phase_of s)(n := p)\<rparr>)"
  using assms by (simp add: net_ok_def)

lemma staged_ok:
  assumes "mls_laws M H" and "node_ok H cs n g Idle" and "pending H g = None" and "stages H g c g'"
  shows "node_ok H cs n g' (InFlight c (m_epoch M g' + 1))"
  using assms(2-4) mls_lawsD(1) [OF assms(1)] by (simp add: node_ok_def stages_def)

lemma accepted_place:
  assumes "net_ok H s" and "b \<in> set (accepted s)"
  shows "prefix (after H b @ [b]) (accepted s)"
proof -
  from assms(2) obtain i where i: "i < length (accepted s)" "b = accepted s ! i" by (auto simp: in_set_conv_nth)
  with assms(1) have "after H b = take i (accepted s)" by (simp add: net_ok_def)
  then have "after H b @ [b] = take (Suc i) (accepted s)" using i by (simp add: take_Suc_conv_app_nth)
  then show ?thesis by (simp add: take_is_prefix)
qed

lemma relay_takes_ok:
  assumes "net_ok H s" and "phase_of s n = InFlight c ep" and "append_message ep n c True (relay_data s) = Some (seq, d)"
  shows "net_ok H (s\<lparr>relay_data := d, accepted := accepted s @ [c], phase_of := (phase_of s)(n := Answered (Accepted seq))\<rparr>)"
proof -
  from assms(1,2) have n: "ep = length (after H c) + 1" "prefix (after H c) (accepted s)" "pending H (node_of s n) \<in> {None, Some c}"
    and node: "node_ok H (accepted s) n (node_of s n) (InFlight c ep)"
    by (auto simp: net_ok_def node_ok_def split: phase.splits)
  from assms(3) have d: "ep = gd_epoch (relay_data s) + 1" "gd_epoch d = ep"
    "gd_log d = gd_log (relay_data s) @ [\<lparr>sm_seq = length (gd_log (relay_data s)) + 1, sm_epoch = ep, sm_sender = n, sm_payload = c\<rparr>]"
    by (auto simp: append_message_def Let_def split: if_splits)
  have "length (after H c) = length (accepted s)" using n(1) d(1) assms(1) by (simp add: net_ok_def)
  with n(2) have all: "after H c = accepted s" by (auto elim: prefixE)
  have "node_ok H (accepted s @ [c]) n (node_of s n) (Answered (Accepted seq))"
    using node n(3) all by (auto simp: node_ok_def intro: prefix_prefix)
  moreover have "node_ok H (accepted s @ [c]) k (node_of s k) (phase_of s k)" for k
    using assms(1) by (simp add: net_ok_def node_ok_grows)
  ultimately show ?thesis
    using assms(1) d all by (auto simp: net_ok_def nth_append)
qed

lemma rejected_ok:
  assumes "mls_laws M H" and "node_ok H cs n g (Answered (Rejected_with msg))"
    and "publishCommit M dash (Rejected_with msg) g = (Inl err, g')"
  shows "node_ok H cs n g' Idle"
proof (cases "m_discard M g")
  case None
  then show ?thesis using assms(2,3) by (auto simp: publishCommit_def discardStagedCommit_def node_ok_def)
next
  case (Some g1)
  then have "g' = g1" using assms(3) by (auto simp: publishCommit_def discardStagedCommit_def)
  with mls_lawsD(5) [OF assms(1) Some] assms(2) show ?thesis by (auto simp: node_ok_def)
qed

lemma heard_ok:
  assumes "mls_laws M H" and "net_ok H s" and "x \<in> set (gd_log (relay_data s))"
    and "m_receive M (node_of s n) (sm_payload x) = Some (ev, g)"
  shows "node_ok H (accepted s) n g (phase_of s n)"
proof -
  let ?g = "node_of s n" and ?b = "sm_payload x"
  have node: "node_ok H (accepted s) n ?g (phase_of s n)" using assms(2) by (simp add: net_ok_def)
  from mls_lawsD(6) [OF assms(1,4)] have ow: "owner H g = owner H ?g" and
    alt: "hist H g = hist H ?g \<and> pending H g = pending H ?g \<or>
      is_commit H ?b \<and> after H ?b = hist H ?g \<and> author H ?b \<noteq> owner H ?g \<and> hist H g = hist H ?g @ [?b] \<and> pending H g = None" by simp_all
  from alt show ?thesis
  proof
    assume "hist H g = hist H ?g \<and> pending H g = pending H ?g"
    then show ?thesis using node ow by (auto simp: node_ok_def split: phase.splits send_reply.splits)
  next
    assume new: "is_commit H ?b \<and> after H ?b = hist H ?g \<and> author H ?b \<noteq> owner H ?g \<and> hist H g = hist H ?g @ [?b] \<and> pending H g = None"
    then have "?b \<in> set (accepted s)" using assms(2,3) by (auto simp: net_ok_def)
    from accepted_place [OF assms(2) this] new have "prefix (hist H g) (accepted s)" by simp
    then show ?thesis using node ow new by (auto simp: node_ok_def split: phase.splits send_reply.splits)
  qed
qed

lemma commit_step_ok:
  assumes "commit_step M H s s'" and "mls_laws M H" and "net_ok H s"
  shows "net_ok H s'"
proof -
  note laws = mls_lawsD [OF assms(2)]
  have node: "node_ok H (accepted s) n (node_of s n) (phase_of s n)" for n using assms(3) by (simp add: net_ok_def)
  from assms(1) show ?thesis
  proof cases
    case (stage_remove n u sg g)
    then obtain c where c: "m_remove M (node_of s n) u = Some (c, g)" "sg_commit sg = c" "sg_epoch sg = m_epoch M g + 1"
      by (auto simp: worker_removeMember_def bind_eq_Some_conv)
    with laws(3) [OF c(1)] staged_ok [OF assms(2)] node [of n] stage_remove show ?thesis
      by (auto intro: net_ok_update [OF assms(3)])
  next
    case (stage_add n kp u k sg g)
    then obtain c w where c: "m_add M (node_of s n) kp u k = Some (c, w, g)" "sg_commit sg = c" "sg_epoch sg = m_epoch M g + 1"
      by (auto simp: worker_addMember_def bind_eq_Some_conv)
    with laws(2) [OF c(1)] staged_ok [OF assms(2)] node [of n] stage_add show ?thesis
      by (auto intro: net_ok_update [OF assms(3)])
  next
    case (relay_takes n c ep seq d)
    then show ?thesis using relay_takes_ok [OF assms(3)] by simp
  next
    case (relay_refuses n c ep)
    then show ?thesis using node [of n] by (auto intro!: net_ok_phase [OF assms(3)] simp: node_ok_def)
  next
    case (socket_drops n msg)
    then show ?thesis using node [of n] by (auto intro!: net_ok_phase [OF assms(3)] simp: node_ok_def)
  next
    case (settle_accepted n seq dash q g e ms g')
    then have "m_merge M (node_of s n) = Some g'" by (auto simp: publishCommit_def mergeStagedCommit_def bind_eq_Some_conv)
    from laws(4) [OF this] node [of n] settle_accepted(2) have "node_ok H (accepted s) n g' Idle"
      by (auto simp: node_ok_def split: option.splits)
    then show ?thesis using settle_accepted(1) by (auto intro: net_ok_update [OF assms(3)])
  next
    case (settle_rejected n msg dash err g)
    from rejected_ok [OF assms(2) _ settle_rejected(3)] node [of n] settle_rejected(2) have "node_ok H (accepted s) n g Idle" by simp
    then show ?thesis using settle_rejected(1) by (auto intro: net_ok_update [OF assms(3)])
  next
    case (say b ep n seq d)
    then have "gd_epoch d = gd_epoch (relay_data s)" "\<exists>m. gd_log d = gd_log (relay_data s) @ [m] \<and> sm_payload m = b"
      by (auto simp: append_message_def Let_def)
    then show ?thesis using say assms(3) by (auto simp: net_ok_def)
  next
    case (hear x n ev g)
    then show ?thesis using heard_ok [OF assms(2,3) hear(2,3)] by (auto intro: net_ok_state [OF assms(3)])
  qed
qed

lemma net_step_ok:
  assumes "net_step M H s s'" and "mls_laws M H" and "net_ok H s"
  shows "net_ok H s'"
  using assms(1)
proof cases
  case acts
  then show ?thesis using assms(2,3) by (rule commit_step_ok)
next
  case (welcomed n c g)
  from accepted_place [OF assms(3) welcomed(3)] welcomed have "node_ok H (accepted s) n g (phase_of s n)"
    by (simp add: node_ok_def)
  then show ?thesis using welcomed(1) by (auto intro: net_ok_state [OF assms(3)])
qed

lemma net_run_ok:
  assumes "(net_step M H)\<^sup>*\<^sup>* s s'" and "mls_laws M H" and "net_ok H s"
  shows "net_ok H s'"
  using assms(1) by (induction rule: rtranclp_induct) (auto intro: net_step_ok assms(2,3))


section \<open>An answer that never arrives\<close>

definition left_behind :: "'g history \<Rightarrow> string \<Rightarrow> bytes list \<Rightarrow> 'g net \<Rightarrow> bool" where
  \<comment> \<open>the relay has let in a commit of \<open>n\<close> that \<open>n\<close> itself no longer holds\<close>
  "left_behind H n h s \<longleftrightarrow> net_ok H s \<and> hist H (node_of s n) = h \<and> length h < length (accepted s) \<and>
     author H (accepted s ! length h) = n \<and>
     (case phase_of s n of Idle \<Rightarrow> True | InFlight c ep \<Rightarrow> ep = length h + 1 | Answered (Accepted q) \<Rightarrow> False | Answered (Rejected_with m) \<Rightarrow> True)"

lemma left_behind_other:
  assumes "left_behind H n h s" and "net_ok H s'" and "node_of s' n = node_of s n" and "phase_of s' n = phase_of s n"
    and "prefix (accepted s) (accepted s')"
  shows "left_behind H n h s'"
  using assms by (auto simp: left_behind_def nth_append elim!: prefixE)

lemma left_behind_stage:
  assumes "left_behind H n h s" and "mls_laws M H" and "net_ok H s'" and "stages H (node_of s n) c g" and "ep = m_epoch M g + 1"
    and "s' = s\<lparr>node_of := (node_of s)(n := g), phase_of := (phase_of s)(n := InFlight c ep)\<rparr>"
  shows "left_behind H n h s'"
  using assms mls_lawsD(1) [OF assms(2), of g] by (simp add: left_behind_def stages_def)

lemma behind_hears_nothing:
  assumes "left_behind H n h s" and "mls_laws M H" and "x \<in> set (gd_log (relay_data s))"
    and "m_receive M (node_of s n) (sm_payload x) = Some (ev, g)"
  shows "hist H g = h"
proof -
  have ok: "net_ok H s" and h: "hist H (node_of s n) = h" "author H (accepted s ! length h) = n"
    using assms(1) by (simp_all add: left_behind_def)
  then have own: "owner H (node_of s n) = n" by (simp add: net_ok_def node_ok_def)
  have "\<not> (is_commit H (sm_payload x) \<and> after H (sm_payload x) = h \<and> author H (sm_payload x) \<noteq> n)"
  proof
    assume b: "is_commit H (sm_payload x) \<and> after H (sm_payload x) = h \<and> author H (sm_payload x) \<noteq> n"
    then have "sm_payload x \<in> set (accepted s)" using ok assms(3) by (auto simp: net_ok_def)
    from accepted_place [OF ok this] b have "accepted s ! length h = sm_payload x" by (auto elim!: prefixE simp: nth_append)
    with h(2) b show False by simp
  qed
  with mls_lawsD(6) [OF assms(2,4)] h(1) own show ?thesis by auto
qed

lemma left_behind_step:
  assumes "commit_step M H s s'" and "mls_laws M H" and "left_behind H n h s"
  shows "left_behind H n h s'"
proof -
  have ok: "net_ok H s" and h: "hist H (node_of s n) = h" "length h < length (accepted s)" "author H (accepted s ! length h) = n"
    and ph: "case phase_of s n of Idle \<Rightarrow> True | InFlight c ep \<Rightarrow> ep = length h + 1 | Answered (Accepted q) \<Rightarrow> False | Answered (Rejected_with m) \<Rightarrow> True"
    using assms(3) by (simp_all add: left_behind_def)
  note ok' = commit_step_ok [OF assms(1,2) ok] and laws = mls_lawsD [OF assms(2)]
  have other: "left_behind H n h s'" if "node_of s' n = node_of s n" "phase_of s' n = phase_of s n" "prefix (accepted s) (accepted s')"
    using that by (rule left_behind_other [OF assms(3) ok'])
  from assms(1) show ?thesis
  proof cases
    case (stage_remove m u sg g)
    show ?thesis
    proof (cases "m = n")
      case True
      with stage_remove obtain c where c: "m_remove M (node_of s n) u = Some (c, g)" "sg_commit sg = c" "sg_epoch sg = m_epoch M g + 1"
        by (auto simp: worker_removeMember_def bind_eq_Some_conv)
      from laws(3) [OF c(1)] c True stage_remove(1) show ?thesis by (intro left_behind_stage [OF assms(3,2) ok']) auto
    next
      case False
      then show ?thesis using stage_remove by (intro other) simp_all
    qed
  next
    case (stage_add m kp u k sg g)
    show ?thesis
    proof (cases "m = n")
      case True
      with stage_add obtain c w where c: "m_add M (node_of s n) kp u k = Some (c, w, g)" "sg_commit sg = c" "sg_epoch sg = m_epoch M g + 1"
        by (auto simp: worker_addMember_def bind_eq_Some_conv)
      from laws(2) [OF c(1)] c True stage_add(1) show ?thesis by (intro left_behind_stage [OF assms(3,2) ok']) auto
    next
      case False
      then show ?thesis using stage_add by (intro other) simp_all
    qed
  next
    case (relay_takes m c ep seq d)
    have "m \<noteq> n"
    proof
      assume "m = n"
      with relay_takes ph have "ep = length h + 1" by simp
      moreover have "ep = length (accepted s) + 1" using relay_takes ok by (auto simp: append_message_def net_ok_def Let_def split: if_splits)
      ultimately show False using h(2) by simp
    qed
    then show ?thesis using relay_takes by (intro other) simp_all
  next
    case (relay_refuses m c ep)
    show ?thesis
    proof (cases "m = n")
      case True
      then show ?thesis using relay_refuses h ok' by (simp add: left_behind_def)
    next
      case False
      then show ?thesis using relay_refuses by (intro other) simp_all
    qed
  next
    case (socket_drops m msg)
    show ?thesis
    proof (cases "m = n")
      case True
      then show ?thesis using socket_drops h ok' by (simp add: left_behind_def)
    next
      case False
      then show ?thesis using socket_drops by (intro other) simp_all
    qed
  next
    case (settle_accepted m seq dash q g e ms g')
    then have "m \<noteq> n" using ph by auto
    then show ?thesis using settle_accepted by (intro other) simp_all
  next
    case (settle_rejected m msg dash err g)
    show ?thesis
    proof (cases "m = n")
      case True
      have "hist H g = h"
        using settle_rejected(3) True h(1) laws(5) by (cases "m_discard M (node_of s n)") (auto simp: publishCommit_def discardStagedCommit_def)
      with settle_rejected True h ok' show ?thesis by (simp add: left_behind_def)
    next
      case False
      then show ?thesis using settle_rejected by (intro other) simp_all
    qed
  next
    case (say b ep m seq d)
    then show ?thesis by (intro other) simp_all
  next
    case (hear x m ev g)
    show ?thesis
    proof (cases "m = n")
      case True
      then have "hist H g = h" using behind_hears_nothing [OF assms(3,2) hear(2)] hear(3) by simp
      with hear True h ph ok' show ?thesis by (simp add: left_behind_def)
    next
      case False
      then show ?thesis using hear by (intro other) simp_all
    qed
  qed
qed

text \<open>
  A committer whose answer is lost stays behind. When the relay lets a commit in and the connection drops before the
  answer arrives, \<open>publishCommit\<close> discards the staged commit; the device cannot open its own commit when the log is
  replayed, so whatever happens from then on, short of being added again, it never leaves its epoch.
\<close>

theorem lost_answer_strands_the_committer:
  assumes "mls_laws M H" and "net_ok H s" and "phase_of s n = Answered (Accepted q)" and "pending H (node_of s n) = Some c"
    and "author H c = n" and "m_discard M (node_of s n) \<noteq> None"
    and "publishCommit M dash (Rejected_with msg) (node_of s n) = (Inl err, g)"
    and "(commit_step M H)\<^sup>*\<^sup>* (s\<lparr>node_of := (node_of s)(n := g), phase_of := (phase_of s)(n := Idle)\<rparr>) s'"
  shows "commit_step M H s (s\<lparr>phase_of := (phase_of s)(n := Answered (Rejected_with msg))\<rparr>) \<and>
    m_epoch M (node_of s' n) = m_epoch M (node_of s n) \<and> m_epoch M (node_of s' n) < length (accepted s')"
proof -
  let ?h = "hist H (node_of s n)" and ?s1 = "s\<lparr>phase_of := (phase_of s)(n := Answered (Rejected_with msg))\<rparr>"
  have drop: "commit_step M H s ?s1" using assms(3) by (intro socket_drops) simp
  obtain g1 where g1: "m_discard M (node_of s n) = Some g1" using assms(6) by blast
  have g: "g = g1" using assms(7) g1 by (auto simp: publishCommit_def discardStagedCommit_def)
  have hg: "hist H g = ?h" using mls_lawsD(5) [OF assms(1) g1] g by simp
  have "prefix (?h @ [c]) (accepted s)" using assms(2-4) by (auto simp: net_ok_def node_ok_def split: phase.splits) fastforce
  then have at: "length ?h < length (accepted s)" "accepted s ! length ?h = c" by (auto elim!: prefixE simp: nth_append)
  have "commit_step M H ?s1 (?s1\<lparr>node_of := (node_of ?s1)(n := g), phase_of := (phase_of ?s1)(n := Idle)\<rparr>)"
    using assms(7) by (intro settle_rejected) simp_all
  then have "net_ok H (s\<lparr>node_of := (node_of s)(n := g), phase_of := (phase_of s)(n := Idle)\<rparr>)"
    using commit_step_ok [OF _ assms(1) commit_step_ok [OF drop assms(1,2)]] by fastforce
  then have "left_behind H n ?h (s\<lparr>node_of := (node_of s)(n := g), phase_of := (phase_of s)(n := Idle)\<rparr>)"
    using hg at assms(5) by (simp add: left_behind_def)
  with assms(8) have "left_behind H n ?h s'" by (induction rule: rtranclp_induct) (auto intro: left_behind_step assms(1))
  then show ?thesis using drop mls_lawsD(1) [OF assms(1)] by (simp add: left_behind_def)
qed

section \<open>An example\<close>

type_synonym counter = "nat \<times> bool \<times> string"     \<comment> \<open>epoch, whether a commit is staged, whose state it is\<close>

definition nth_commit :: "nat \<Rightarrow> bytes" where
  "nth_commit k = replicate (Suc k) (CHR ''x'')"

definition counter_mls :: "counter mls" where
  "counter_mls = \<lparr>m_epoch = fst, m_members = (\<lambda>g. []), m_add = (\<lambda>g kp i k. None),
     m_remove = (\<lambda>(k, b, w) u. if \<not> b \<and> w = ''ann'' then Some (nth_commit k, (k, True, w)) else None),
     m_merge = (\<lambda>(k, b, w). Some (if b then k + 1 else k, False, w)),
     m_discard = (\<lambda>(k, b, w). Some (k, False, w)),
     m_receive = (\<lambda>(k, b, w) c. if w \<noteq> ''ann'' \<and> c = nth_commit k then Some (OtherEvent, (k + 1, False, w)) else None)\<rparr>"

definition counter_history :: "counter history" where
  "counter_history = \<lparr>hist = (\<lambda>(k, b, w). map nth_commit [0..<k]), pending = (\<lambda>(k, b, w). if b then Some (nth_commit k) else None),
     after = (\<lambda>c. map nth_commit [0..<length c - 1]), owner = (\<lambda>(k, b, w). w), author = (\<lambda>c. ''ann''), is_commit = (\<lambda>c. c \<noteq> [])\<rparr>"

lemma counter_laws: "mls_laws counter_mls counter_history"
  by (auto simp: mls_laws_def counter_mls_def counter_history_def stages_def nth_commit_def split: if_splits)

definition example_net :: "nat \<Rightarrow> bool \<Rightarrow> nat \<Rightarrow> nat \<Rightarrow> phase \<Rightarrow> counter net" where
  \<comment> \<open>ann at her epoch, with or without a commit staged; the others at theirs; what the relay let in; what ann waits for\<close>
  "example_net a st b r p = \<lparr>relay_data = \<lparr>gd_epoch = r,
       gd_log = map (\<lambda>k. \<lparr>sm_seq = Suc k, sm_epoch = Suc k, sm_sender = ''ann'', sm_payload = nth_commit k\<rparr>) [0..<r]\<rparr>,
     accepted = map nth_commit [0..<r],
     node_of = (\<lambda>n. (b, False, n))(''ann'' := (a, st, ''ann'')), phase_of = (\<lambda>n. Idle)(''ann'' := p)\<rparr>"

lemma example_start: "in_step counter_history (example_net 0 False 0 0 Idle)"
  by (auto simp: in_step_def example_net_def counter_history_def)

lemma example_stage: "commit_step counter_mls counter_history (example_net 0 False 0 0 Idle) (example_net 0 True 0 0 (InFlight (nth_commit 0) 1))"
proof -
  let ?s = "example_net 0 False 0 0 Idle"
  have "worker_removeMember counter_mls (node_of ?s ''ann'') ''bob'' =
      Some (\<lparr>sg_commit = nth_commit 0, sg_welcome = None, sg_epoch = 1\<rparr>, (0, True, ''ann''))"
    by (simp add: worker_removeMember_def counter_mls_def example_net_def)
  from stage_remove [OF _ this, where H = counter_history] show ?thesis by (simp add: example_net_def fun_upd_def cong: if_cong)
qed

lemma example_take: "commit_step counter_mls counter_history (example_net 0 True 0 0 (InFlight (nth_commit 0) 1)) (example_net 0 True 0 1 (Answered (Accepted 1)))"
proof -
  let ?s = "example_net 0 True 0 0 (InFlight (nth_commit 0) 1)"
  have ph: "phase_of ?s ''ann'' = InFlight (nth_commit 0) 1" by (simp add: example_net_def)
  have "append_message 1 ''ann'' (nth_commit 0) True (relay_data ?s) =
      Some (1, relay_data (example_net 0 True 0 1 Idle))"
    by (simp add: append_message_def example_net_def)
  from relay_takes [OF ph this, where H = counter_history and M = counter_mls] show ?thesis
    by (simp add: example_net_def fun_upd_def cong: if_cong)
qed

lemma example_merge: "commit_step counter_mls counter_history (example_net 0 True 0 1 (Answered (Accepted 1))) (example_net 1 False 0 1 Idle)"
proof -
  let ?s = "example_net 0 True 0 1 (Answered (Accepted 1))"
  have ph: "phase_of ?s ''ann'' = Answered (Accepted 1)" by (simp add: example_net_def)
  have pub: "publishCommit counter_mls [] (Accepted 1) (node_of ?s ''ann'') = (Inr 1, (0, True, ''ann''))"
    by (simp add: publishCommit_def example_net_def)
  have "mergeStagedCommit counter_mls (0, True, ''ann'') = Some (1, [], (1, False, ''ann''))"
    by (simp add: mergeStagedCommit_def counter_mls_def)
  from settle_accepted [OF ph pub this, where H = counter_history] show ?thesis
    by (simp add: example_net_def fun_upd_def cong: if_cong)
qed


theorem lost_answer_strands_the_committer_witness:
  "m_epoch counter_mls (node_of (example_net 0 False 0 1 Idle) ''ann'') < length (accepted (example_net 0 False 0 1 Idle))"
proof -
  let ?s = "example_net 0 True 0 1 (Answered (Accepted 1))" and ?t = "example_net 0 False 0 1 Idle"
  have ok: "net_ok counter_history ?s"
    using commit_step_ok [OF example_take counter_laws commit_step_ok [OF example_stage counter_laws in_step_ok [OF example_start]]] .
  have s: "phase_of ?s ''ann'' = Answered (Accepted 1)" "pending counter_history (node_of ?s ''ann'') = Some (nth_commit 0)"
    "author counter_history (nth_commit 0) = ''ann''" "m_discard counter_mls (node_of ?s ''ann'') \<noteq> None"
    by (simp_all add: example_net_def counter_history_def counter_mls_def)
  have pub: "publishCommit counter_mls [] (Rejected_with ''closed'') (node_of ?s ''ann'') =
      (Inl (if is_conflict ''closed'' then CONFLICT_TEXT [] else ''closed''), (0, False, ''ann''))"
    by (simp add: publishCommit_def discardStagedCommit_def counter_mls_def example_net_def)
  have "?s\<lparr>node_of := (node_of ?s)(''ann'' := (0, False, ''ann'')), phase_of := (phase_of ?s)(''ann'' := Idle)\<rparr> = ?t"
    by (simp add: example_net_def fun_upd_def cong: if_cong)
  with lost_answer_strands_the_committer [OF counter_laws ok s pub, of ?t] show ?thesis by simp
qed

end
