(* ===== verification/Membership.thy ===== *)
theory Membership
  imports Commits Trust Fork Envelope_Rules
begin

text \<open>
  Who is in a circle and who may change it, from \<open>client/src/lib/controller.js\<close>: adding and removing members
  (\<open>addMember\<close>, \<open>removeMember\<close>, \<open>revokeAllInvites\<close>, \<open>deleteServer\<close>), joining (\<open>onWelcome\<close>, the record of
  \<open>redeemPendingInvite\<close>), the relay's roles (\<open>refreshRoles\<close>, \<open>senderIsAdmin\<close>, \<open>setRole\<close>) in front of the reducer
  (\<open>onContent\<close>), safety numbers (\<open>revalidateVerified\<close>) and the handling of one group message (\<open>onGroupMessage\<close>).
  A device is its circle record, its MLS state and the snapshot of that state last written to storage. The answers of the
  relay are arguments. An application message turns a ratchet but goes through no commit, so sending one is only modelled
  by its writing the snapshot. \<open>dash\<close> is the em dash of the texts.
\<close>

section \<open>Deeds\<close>

datatype deed =
    Do act
  | Toast string
  | PersistDevice
  | SaveState               \<comment> \<open>\<open>persistState\<close> of the ratchet as it is then\<close>
  | CatchUp                 \<comment> \<open>\<open>catchUpLogs\<close>, not waited for\<close>
  | PullRoles               \<comment> \<open>\<open>refreshRoles\<close>, not waited for\<close>
  | Forget                  \<comment> \<open>\<open>forgetServerLocal\<close>\<close>
  | RefreshInvite jsval
  | TellVoice "string list"
  | Run effect

record 'g node =
  nd_rec :: circle
  nd_mls :: 'g
  nd_saved :: 'g

definition req :: "string \<Rightarrow> jsval dict \<Rightarrow> deed" where
  "req t fs = Do (Request (JObj ((''t'', JStr t) # fs)))"

definition bump_seq :: "nat \<Rightarrow> circle \<Rightarrow> circle" where
  \<comment> \<open>\<open>Math.max(record.lastSeq, seq)\<close>; without a cursor it stays none\<close>
  "bump_seq seq r = r\<lparr>lastSeq := map_option (max seq) (lastSeq r)\<rparr>"

section \<open>Adding and removing\<close>

record kp_reply =
  kp_payload :: string
  kp_pubkey :: string

record add_answers =
  an_kp :: kp_reply
  an_send :: send_reply
  an_allow :: "string option"      \<comment> \<open>the error, if the request was refused\<close>
  an_welcome :: "string option"
  an_mls :: string                 \<comment> \<open>the text of an error of the worker\<close>

definition no_account :: "string \<Rightarrow> string \<Rightarrow> string" where
  "no_account dash user = ''no account called '' @ user @ '' on this relay '' @ dash @ '' check the spelling, or ask them to sign up''"

definition no_key :: "string \<Rightarrow> string \<Rightarrow> string" where
  "no_key dash user = ''the relay didn't give an identity key for '' @ user @ '', so they can't be added yet '' @ dash @ '' try again in a moment''"

definition welcome_request :: "circle \<Rightarrow> string \<Rightarrow> nat \<Rightarrow> staged \<Rightarrow> deed" where
  "welcome_request r user seq sg = req ''welcome'' [(''to'', JStr user), (''group'', JStr (c_id r)), (''after'', nat_json seq),
     (''payload'', JStr (case sg_welcome sg of Some w \<Rightarrow> b64_enc w | None \<Rightarrow> []))]"

definition addMember :: "'g mls \<Rightarrow> string \<Rightarrow> string \<Rightarrow> add_answers \<Rightarrow> 'g node \<Rightarrow> (string + unit) \<times> 'g node \<times> deed list" where
  "addMember M dash user a n =
     (if kp_payload (an_kp a) = [] then (Inl (no_account dash user), n, [])
      else if kp_pubkey (an_kp a) = [] then (Inl (no_key dash user), n, [])
      else case do { p \<leftarrow> b64_dec (kp_payload (an_kp a)); k \<leftarrow> b64_dec (kp_pubkey (an_kp a)); worker_addMember M (nd_mls n) p user k } of
        None \<Rightarrow> (Inl (an_mls a), n, [])
      | Some (sg, g1) \<Rightarrow>
          (case publishCommit M dash (an_send a) g1 of
             (Inl e, g2) \<Rightarrow> (Inl e, n\<lparr>nd_mls := g2, nd_saved := g2\<rparr>, [])
           | (Inr seq, g2) \<Rightarrow>
               (case mergeStagedCommit M g2 of
                  None \<Rightarrow> (Inl (an_mls a), n\<lparr>nd_mls := g2, nd_saved := g1\<rparr>, [])
                | Some (e, ms, g3) \<Rightarrow>
                    let r1 = bump_seq seq (nd_rec n);
                        allow = req ''allow'' [(''group'', JStr (c_id r1)), (''user'', JStr user)];
                        welcome = welcome_request r1 user seq sg;
                        merged = n\<lparr>nd_rec := r1, nd_mls := g3, nd_saved := g1\<rparr>
                    in (case an_allow a of Some err \<Rightarrow> (Inl err, merged, [allow])
                        | None \<Rightarrow>
                            (case an_welcome a of Some err \<Rightarrow> (Inl err, merged, [allow, welcome])
                             | None \<Rightarrow>
                                 let r2 = r1\<lparr>members := ms, epoch := Some (sg_epoch sg)\<rparr>
                                 in (Inr (), n\<lparr>nd_rec := r2, nd_mls := g3, nd_saved := g3\<rparr>,
                                     [allow, welcome, Do (Say (user @ '' added '' @ dash @ '' unverified until you check their safety number'') general),
                                      Do (Send (metaContent r2)), PersistDevice, Do ShowServers, PullRoles]))))))"

definition revokeAllInvites :: "(jsval \<Rightarrow> bool) \<Rightarrow> circle \<Rightarrow> circle \<times> nat \<times> deed list" where
  \<comment> \<open>whether the relay grants the revocation of an invite is an argument\<close>
  "revokeAllInvites grants r =
     (let invs = list_or_empty (invites r)
      in if invs = [] then (r, 0, [])
         else (r\<lparr>invites := Some []\<rparr>, length (filter (\<lambda>i. grants (oprop i ''id'')) invs),
               map (\<lambda>i. req ''revoke_invite'' [(''invite'', oprop i ''id'')]) invs))"

record remove_answers =
  rm_send :: send_reply
  rm_grants :: "jsval \<Rightarrow> bool"
  rm_draws :: "bytes list"         \<comment> \<open>the fresh keys\<close>
  rm_mls :: string

definition rotated_text :: "string \<Rightarrow> string list \<Rightarrow> string \<Rightarrow> string" where
  "rotated_text dash chs user = ''new history key for '' @ join '', '' (map (\<lambda>c. ''#'' @ c) chs) @ '' '' @ dash @ '' '' @ user @ '' cannot read anything kept from here on''"

definition revoked_text :: "string \<Rightarrow> nat \<Rightarrow> string \<Rightarrow> string" where
  "revoked_text dash n user = nat_str n @ '' invite link'' @ (if n = 1 then [] else ''s'') @ '' revoked, in case '' @ user @
     '' still held one '' @ dash @ '' share a new link to invite anyone else''"

definition drop_role :: "string \<Rightarrow> circle \<Rightarrow> circle" where
  "drop_role user r = (if slot_set (dget (roles r) user) then r\<lparr>roles := ddel (roles r) user\<rparr> else r)"

definition close_doors :: "string \<Rightarrow> string \<Rightarrow> remove_answers \<Rightarrow> circle \<Rightarrow> (circle \<times> bool \<times> deed list) throws" where
  \<comment> \<open>\<open>removeMember\<close> after the commit: fresh keys, no links, and telling the members; whether an envelope was sent\<close>
  "close_doors dash user a r =
     do { (r1, rotated) \<leftarrow> rotateHistoryKeys r (rm_draws a);
          let (r2, revoked, revokes) = revokeAllInvites (rm_grants a) r1;
          let tells = (rotated \<noteq> [] \<or> 0 < revoked);
          Some (r2, tells,
            revokes @ (if tells then [Do (Send (metaContent r2))] else []) @
            (if rotated \<noteq> [] then [Do (Say (rotated_text dash rotated user) general)] else []) @
            (if 0 < revoked then [Do (Say (revoked_text dash revoked user) general)] else [])) }"

definition removeMember :: "'g mls \<Rightarrow> string \<Rightarrow> string \<Rightarrow> string \<Rightarrow> remove_answers \<Rightarrow> 'g node \<Rightarrow> (string + unit) \<times> 'g node \<times> deed list" where
  "removeMember M dash me user a n =
     (if user = me then (Inr (), n, [])
      else case worker_removeMember M (nd_mls n) user of
        None \<Rightarrow> (Inl (rm_mls a), n, [])
      | Some (sg, g1) \<Rightarrow>
          (case publishCommit M dash (rm_send a) g1 of
             (Inl e, g2) \<Rightarrow> (Inl e, n\<lparr>nd_mls := g2, nd_saved := g2\<rparr>, [])
           | (Inr seq, g2) \<Rightarrow>
               (case mergeStagedCommit M g2 of
                  None \<Rightarrow> (Inl (rm_mls a), n\<lparr>nd_mls := g2, nd_saved := g1\<rparr>, [])
                | Some (e, ms, g3) \<Rightarrow>
                    let r1 = drop_role user ((bump_seq seq (nd_rec n))\<lparr>members := ms, epoch := Some (sg_epoch sg)\<rparr>);
                        first = [req ''disallow'' [(''group'', JStr (c_id r1)), (''user'', JStr user)],
                                 Do (Say (user @ '' was removed from the circle by you'') general)]
                    in (case close_doors dash user a r1 of
                          None \<Rightarrow> (Inl (rm_mls a), n\<lparr>nd_rec := r1, nd_mls := g3, nd_saved := g1\<rparr>, first)
                        | Some (r2, tells, rest) \<Rightarrow>
                            (Inr (), n\<lparr>nd_rec := r2, nd_mls := g3, nd_saved := (if tells then g3 else g1)\<rparr>,
                             first @ rest @ [Do PersistCircle, Do ShowServers])))))"

fun evict_all :: "'g mls \<Rightarrow> string list \<Rightarrow> 'g \<Rightarrow> staged list \<times> 'g" where
  \<comment> \<open>the loop of \<open>deleteServer\<close>: what is sent, without a claim to the epoch; a failure is only warned about\<close>
  "evict_all M [] g = ([], g)"
| "evict_all M (u # us) g =
     (case worker_removeMember M g u of
        None \<Rightarrow> evict_all M us g
      | Some (sg, g') \<Rightarrow> (case evict_all M us g' of (sgs, g'') \<Rightarrow> (sg # sgs, g'')))"

definition deleteServer :: "'g mls \<Rightarrow> string \<Rightarrow> 'g node \<Rightarrow> staged list \<times> 'g \<times> deed list" where
  \<comment> \<open>the commits made for the others, the MLS state, and what follows; the record is forgotten\<close>
  "deleteServer M me n =
     (let (sgs, g) = evict_all M (filter (\<lambda>m. m \<noteq> me) (members (nd_rec n))) (nd_mls n)
      in (sgs, g, map (\<lambda>sg. req ''send'' [(''group'', JStr (c_id (nd_rec n))), (''epoch'', nat_json (sg_epoch sg)), (''payload'', JStr (b64_enc (sg_commit sg)))]) sgs @
            [req ''delete_group'' [(''group'', JStr (c_id (nd_rec n)))], Forget]))"

definition leaveServer :: "string \<Rightarrow> circle \<Rightarrow> deed list" where
  "leaveServer me r = [req ''disallow'' [(''group'', JStr (c_id r)), (''user'', JStr me)], Forget]"

section \<open>Roles\<close>

type_synonym roster = "(string \<times> string) list"

definition refreshRoles :: "roster option \<Rightarrow> circle \<Rightarrow> circle \<times> deed list" where
  "refreshRoles answer r =
     (case answer of
        None \<Rightarrow> (r, [])
      | Some ms \<Rightarrow>
          let r1 = r\<lparr>roles := fold (\<lambda>(u, role) d. AList.update u role d) ms []\<rparr>
          in (if restored r1 then r1\<lparr>members := map fst ms\<rparr> else r1, [Do ShowServers]))"

definition senderIsAdmin :: "roster option \<Rightarrow> circle \<Rightarrow> string \<Rightarrow> bool \<Rightarrow> bool \<times> circle" where
  "senderIsAdmin answer r sender destr =
     (if dget (roles r) sender = Own ''admin'' then (True, r)
      else let r1 = fst (refreshRoles answer r); fresh = dget (roles r1) sender
           in ((if fresh = Own ''admin'' then True else if slot_set fresh then False else \<not> destr), r1))"

definition setRole :: "roster option \<Rightarrow> string \<Rightarrow> string \<Rightarrow> circle \<Rightarrow> circle \<times> deed list" where
  "setRole answer user role r =
     (let (r1, ds) = refreshRoles answer r
      in (r1, [req ''set_role'' [(''group'', JStr (c_id r)), (''user'', JStr user), (''role'', JStr role)],
               Do (Send (JObj [(''k'', JStr ''role''), (''user'', JStr user), (''role'', JStr role)])),
               Do (Say (user @ '' is now '' @ (if role = ''admin'' then ''an admin'' else ''a regular member'') @ '' (changed by you)'') general)] @ ds))"

definition onContent :: "roster option \<Rightarrow> ctx \<Rightarrow> circle \<Rightarrow> string \<Rightarrow> string \<Rightarrow> outcome" where
  \<comment> \<open>the admin answer is looked up only for the kinds that need it; \<open>x\<close> holds the clocks and the call\<close>
  "onContent answer x r sender raw =
     (let content = parseEnvelope raw
      in case adminRequirement content of
           None \<Rightarrow> applyEnvelope r sender content (x\<lparr>ctx_isAdmin := False\<rparr>)
         | Some need \<Rightarrow>
             (case senderIsAdmin answer r sender (destructive need) of
                (adm, r1) \<Rightarrow> applyEnvelope r1 sender content (x\<lparr>ctx_isAdmin := adm\<rparr>)))"

section \<open>Joining\<close>

definition joined_record :: "circle option \<Rightarrow> string \<Rightarrow> string list \<Rightarrow> nat \<Rightarrow> nat \<Rightarrow> jsval list option \<Rightarrow> rat \<Rightarrow> circle" where
  \<comment> \<open>the record \<open>onWelcome\<close> and \<open>redeemPendingInvite\<close> build over what was known of the circle\<close>
  "joined_record prior grp ms ep seq voice now =
     (empty_circle grp)\<lparr>
       c_name := (case prior of Some p \<Rightarrow> coalesce (c_name p) (JStr grp) | None \<Rightarrow> JStr grp),
       channels := (case prior of Some p \<Rightarrow> channels p | None \<Rightarrow> [general]),
       voiceChannels := (case prior of Some p \<Rightarrow> (if voiceChannels p = None then voice else voiceChannels p) | None \<Rightarrow> voice),
       chanMeta := Some (case prior of Some p \<Rightarrow> dict_or_empty (chanMeta p) | None \<Rightarrow> []),
       overview := (case prior of Some p \<Rightarrow> overview p | None \<Rightarrow> None),
       notices := Some (case prior of Some p \<Rightarrow> list_or_empty (notices p) | None \<Rightarrow> []),
       seen := Some (case prior of Some p \<Rightarrow> dict_or_empty (seen p) | None \<Rightarrow> []),
       verified := (case prior of Some p \<Rightarrow> verified p | None \<Rightarrow> None),
       verifiedSn := (case prior of Some p \<Rightarrow> verifiedSn p | None \<Rightarrow> None),
       mismatched := (case prior of Some p \<Rightarrow> mismatched p | None \<Rightarrow> None),
       members := ms, epoch := Some ep, lastSeq := Some seq,
       joinedAt := Some (case prior of Some p \<Rightarrow> (case joinedAt p of Some t \<Rightarrow> t | None \<Rightarrow> now) | None \<Rightarrow> now),
       pendingMetaSync := True\<rparr>"

definition onWelcome :: "string \<Rightarrow> circle option \<Rightarrow> string \<Rightarrow> string list \<Rightarrow> nat \<Rightarrow> nat \<Rightarrow> rat \<Rightarrow> circle \<times> deed list" where
  "onWelcome dash prior grp ms ep seq now =
     (joined_record prior grp ms ep seq (Some [JStr ''lounge'']) now,
      [Do PersistCircle,
       Do (Say (if (case prior of Some p \<Rightarrow> restored p | None \<Rightarrow> False) then ''you were re-added '' @ dash @ '' this device can send again''
                else ''you joined '' @ dash @ '' history before this point does not exist for you'') general),
       Do ShowServers, req ''subscribe'' [(''group'', JStr grp), (''after'', nat_json seq)], PullRoles, CatchUp])"

section \<open>Safety numbers\<close>

definition markVerified :: "string \<Rightarrow> string \<Rightarrow> circle \<Rightarrow> circle \<times> deed list" where
  "markVerified peer sn r = (applyVerified r peer sn, [PersistDevice, Do ShowServers])"

definition markMismatch :: "string \<Rightarrow> string \<Rightarrow> circle \<Rightarrow> circle \<times> deed list" where
  "markMismatch peer sn r = (applyMismatch r peer sn, [PersistDevice, Do ShowServers])"

definition possessive :: string where "possessive = [CHR 0x27, CHR ''s'']"

definition cleared_text :: "string \<Rightarrow> string \<Rightarrow> string" where
  "cleared_text dash peer = peer @ possessive @ '' key changed since you found a mismatch '' @ dash @
     '' the warning is cleared, but nothing has been verified. Compare again before trusting them.''"

definition changed_text :: "string \<Rightarrow> string \<Rightarrow> string" where
  "changed_text dash peer = peer @ possessive @ '' safety number changed '' @ dash @
     '' verification cleared. Check it again before trusting this device.''"

definition reset_text :: "string \<Rightarrow> string" where
  "reset_text dash = ''verification badges were reset '' @ dash @
     '' safety numbers are now checked against the key that was verified. Please re-check the members you trust.''"

fun retire_all :: "string \<Rightarrow> (string \<Rightarrow> string throws) \<Rightarrow> string list \<Rightarrow> circle \<Rightarrow> circle \<times> bool \<times> deed list" where
  \<comment> \<open>the loop over the recorded mismatches; \<open>number\<close> is the worker's \<open>safetyNumber\<close>\<close>
  "retire_all dash number [] r = (r, False, [])"
| "retire_all dash number (peer # peers) r =
     (case number peer of
        None \<Rightarrow> retire_all dash number peers r
      | Some now \<Rightarrow>
          (case retireMismatch r peer now of
             (r1, False) \<Rightarrow> retire_all dash number peers r1
           | (r1, True) \<Rightarrow>
               (case retire_all dash number peers r1 of (r2, ch, ds) \<Rightarrow> (r2, True, Do (Say (cleared_text dash peer) general) # ds))))"

fun recheck :: "string \<Rightarrow> (string \<Rightarrow> string throws) \<Rightarrow> string list \<Rightarrow> (string \<times> string) list \<Rightarrow> string dict \<Rightarrow> string dict \<times> bool \<times> deed list" where
  \<comment> \<open>the loop over the stored safety numbers\<close>
  "recheck dash number ms [] stored = (stored, False, [])"
| "recheck dash number ms ((peer, was) # rest) stored =
     (if peer \<notin> set ms then recheck dash number ms rest stored
      else case number peer of
        None \<Rightarrow> recheck dash number ms rest stored
      | Some now \<Rightarrow>
          if now = was then recheck dash number ms rest stored
          else (case recheck dash number ms rest (ddel stored peer) of (st, ch, ds) \<Rightarrow>
                  (st, True, Do (Say (changed_text dash peer) general) # ds)))"

definition revalidateVerified :: "string \<Rightarrow> (string \<Rightarrow> string throws) \<Rightarrow> circle \<Rightarrow> circle \<times> bool \<times> deed list" where
  "revalidateVerified dash number r =
     (if verifiedSn r = None \<and> list_or_empty (verified r) \<noteq> []
      then (r\<lparr>verifiedSn := Some [], verified := Some []\<rparr>, True, [Do (Say (reset_text dash) general)])
      else let (r1, ch1, ds1) = retire_all dash number (keys_of_dict (dict_or_empty (mismatched r))) r
           in (case verifiedSn r1 of
                 None \<Rightarrow> (r1, ch1, ds1)
               | Some stored \<Rightarrow>
                   if stored = [] then (r1, ch1, ds1)
                   else let (st, ch2, ds2) = recheck dash number (members r1) (entries stored) stored;
                            r2 = r1\<lparr>verifiedSn := Some st\<rparr>
                        in (if ch1 \<or> ch2 then r2\<lparr>verified := Some (keys_of_dict st)\<rparr> else r2, ch1 \<or> ch2, ds1 @ ds2)))"

definition refreshKeyDirectory :: "bytes dict throws \<Rightarrow> circle \<Rightarrow> circle \<times> deed list" where
  "refreshKeyDirectory roster r =
     (if restored r then (r, [])
      else case roster of
        None \<Rightarrow> (r, [])
      | Some ks \<Rightarrow>
          let (r1, changed, conflicts) = mergeKeyDirectory r (Some ks);
              ms = keys_of_dict ks;
              r2 = (if ms \<noteq> [] then r1\<lparr>members := ms\<rparr> else r1)
          in (r2, (if ms \<noteq> [] then [Do ShowServers] else []) @ (if changed then [Do PersistCircle] else [])))"

section \<open>One group message\<close>

record 'g desk =
  dk_rec :: circle
  dk_mls :: 'g
  dk_watch :: fork_watch
  dk_warned :: "string list"          \<comment> \<open>\<open>forkWarned\<close>\<close>
  dk_outOfSync :: bool
  dk_linkJoined :: "string list"

record group_msg =
  gm_seq :: nat
  gm_sender :: string
  gm_epoch :: "nat option"
  gm_payload :: string

record surroundings =
  su_dash :: string
  su_me :: string
  su_catchUpTo :: nat
  su_roster :: "roster option"               \<comment> \<open>the relay's answer on roles\<close>
  su_ctx :: ctx
  su_number :: "string \<Rightarrow> string throws"
  su_keys :: "bytes dict throws"
  su_told :: bool                            \<comment> \<open>whether the metadata could be rebroadcast\<close>
  su_why :: string                           \<comment> \<open>the text of an error thrown while applying\<close>

definition fork_key :: "circle \<Rightarrow> verdict_rec \<Rightarrow> string" where
  "fork_key r v = c_id r @ '':'' @ (if outOfSync v then ''self'' else join '','' (stranded v))"

definition noteFork :: "string \<Rightarrow> 'g desk \<Rightarrow> ('g desk \<times> deed list) throws" where
  "noteFork dash d =
     (let r = dk_rec d; v = verdict (dk_watch d) (c_id r)
      in if forkMessage dash v [] = None then Some (d, [])
         else do {
           name \<leftarrow> to_str (coalesce (c_name r) (JStr (c_id r)));
           let txt = (case forkMessage dash v name of Some t \<Rightarrow> t | None \<Rightarrow> []);
           let d1 = d\<lparr>dk_outOfSync := outOfSync v\<rparr>;
           let shown = (if dk_outOfSync d \<noteq> outOfSync v then [Do ShowServers] else []);
           Some (if fork_key r v \<in> set (dk_warned d) then (d1, shown)
                 else (d1\<lparr>dk_warned := dk_warned d @ [fork_key r v]\<rparr>, shown @ [Toast txt, Do (Say txt general)])) })"

definition unsaved_toast :: "surroundings \<Rightarrow> deed" where
  "unsaved_toast e = Toast (''a message could not be saved: '' @ su_why e)"

definition membership_change :: "surroundings \<Rightarrow> string \<Rightarrow> string list \<Rightarrow> nat \<Rightarrow> 'g desk \<Rightarrow> 'g desk \<times> deed list" where
  \<comment> \<open>the branch of \<open>onGroupMessage\<close> for a commit that keeps this member\<close>
  "membership_change e sender ms ep d =
     (let r = dk_rec d; r1 = r\<lparr>members := ms, epoch := Some ep\<rparr>;
          linked = (sender \<in> set ms \<and> sender \<notin> set (members r));
          d1 = (if linked then d\<lparr>dk_rec := r1, dk_linkJoined := set_add (uniq (dk_linkJoined d)) sender\<rparr> else d\<lparr>dk_rec := r1\<rparr>);
          tells = (linked \<and> list_or_empty (invites r1) \<noteq> []);
          said = (if linked then [Do (Say (sender @ '' joined via invite link '' @ su_dash e @ '' unverified until someone checks their safety number'') general)]
                  else [Do (Say (''members now: '' @ join '', '' ms @ '' (epoch '' @ nat_str ep @ '')'') general)]) @
                 (if tells then [Do (Send (metaContent r1))] else [])
      in if tells \<and> \<not> su_told e then (d1, said @ [unsaved_toast e])
         else let (r2, ch, ds1) = revalidateVerified (su_dash e) (su_number e) r1;
                  (r3, ds2) = refreshKeyDirectory (su_keys e) r2
              in (d1\<lparr>dk_rec := r3\<rparr>, said @ ds1 @ ds2 @ map RefreshInvite (list_or_empty (invites r3)) @ [PullRoles, TellVoice ms]))"

definition persist_after :: "'g desk \<times> deed list \<Rightarrow> 'g desk option \<times> deed list" where
  \<comment> \<open>\<open>persistDevice\<close> and the cursor first, \<open>persistState\<close> and the ratchet second\<close>
  "persist_after out = (Some (fst out), snd out @ [PersistDevice, SaveState, Do ShowServers])"

definition onGroupMessage :: "'g mls \<Rightarrow> surroundings \<Rightarrow> group_msg \<Rightarrow> 'g desk \<Rightarrow> ('g desk option \<times> deed list) throws" where
  \<comment> \<open>\<open>None\<close> for the desk: the circle was forgotten\<close>
  "onGroupMessage M e msg d0 =
     (let d = d0\<lparr>dk_rec := bump_seq (gm_seq msg) (dk_rec d0)\<rparr>; r = dk_rec d
      in case do { b \<leftarrow> b64_dec (gm_payload msg); m_receive M (dk_mls d) b } of
           None \<Rightarrow>
             let (w, why) = failed (dk_watch d) (c_id r) \<lparr>fi_sender = gm_sender msg, fi_epoch = gm_epoch msg, fi_me = su_me e,
                    fi_groupEpoch = epoch r, fi_restored = restored r, fi_replay = (gm_seq msg \<le> su_catchUpTo e)\<rparr>
             in do { out \<leftarrow> noteFork (su_dash e) (d\<lparr>dk_watch := w\<rparr>);
                     Some (Some (fst out), snd out @ [PersistDevice, Do ShowServers]) }
         | Some (ev, g) \<Rightarrow>
             let d1 = d\<lparr>dk_mls := g, dk_watch := succeeded (dk_watch d) (c_id r) (gm_sender msg)\<rparr>
             in Some (case ev of
                  Application sender txt \<Rightarrow>
                    (case onContent (su_roster e) (su_ctx e) r sender txt of
                       None \<Rightarrow> persist_after (d1, [unsaved_toast e])
                     | Some (r1, effs) \<Rightarrow> persist_after (d1\<lparr>dk_rec := r1\<rparr>, map Run effs))
                | MembershipChange sender ms ep \<Rightarrow>
                    if su_me e \<notin> set ms then
                      (case to_str (c_name r) of
                         None \<Rightarrow> persist_after (d1, [unsaved_toast e])
                       | Some name \<Rightarrow> (None, [Toast (''you were removed from '' @ [CHR 0x22] @ name @ [CHR 0x22]), Forget, SaveState]))
                    else persist_after (membership_change e sender ms ep d1)
                | OtherEvent \<Rightarrow> persist_after (d1, [])))"

end
