(* ===== verification/Membership_Rules.thy ===== *)
theory Membership_Rules
  imports Membership
begin

text \<open>
  What membership rests on: a refused commit changes nothing, a removal closes every door, an envelope that destroys is
  applied only from a sender the relay's roster confirms, badges follow the keys they were granted for, every blob moves
  the cursor, and the cursor is stored before the ratchet. Two defects are stated too: deleting a circle evicts at most
  one member, and a removal may leave the merged state unsaved.
\<close>

section \<open>The admin gate\<close>

lemma senderIsAdmin_destructive:
  "senderIsAdmin answer r sender True = (adm, r1) \<Longrightarrow> adm \<Longrightarrow> dget (roles r1) sender = Own ''admin''"
  by (auto simp: senderIsAdmin_def Let_def split: if_splits)

lemma destructive_kinds:
  assumes "adminRequirement content = Some need"
  obtains k where "oprop content ''k'' = JStr k" "k \<noteq> ''meta''" "authorMayPass need \<Longrightarrow> k \<in> board_kinds"
  using assms by (auto simp: adminRequirement_def board_kinds_def Let_def split: if_splits)

lemma gate_keeps_governed:
  assumes "adminRequirement content = Some need" and "\<not> ctx_isAdmin x" and "applyEnvelope r sender content x = Some (r', es)"
  shows "governed r' = governed r"
proof (cases "authorMayPass need")
  case True
  from destructive_kinds [OF assms(1)] True obtain k where k: "oprop content ''k'' = JStr k" "k \<in> board_kinds" by metis
  show ?thesis
  proof (cases "refused content x")
    case False
    with assms(3) k(1) have "handle_kind k r sender content x = Some (r', es)"
      by (auto simp: applyEnvelope_def split: if_splits)
    with k(2) show ?thesis by (rule board_step)
  qed (use assms(3) in \<open>auto simp: applyEnvelope_def\<close>)
next
  case False
  with assms(1,2) have "refused content x" by (simp add: refused_def)
  with assms(3) show ?thesis by (simp add: applyEnvelope_def)
qed

text \<open>
  C7: an envelope that destroys needs a confirmed admin. Renaming or deleting a room, a channel's settings and retention, and
  the threshold are applied only from a sender whom the roster this device holds, or the one the relay gives when asked,
  names as an admin; a sender of unknown role changes none of what admins govern, and the record is left as the roster
  lookup made it.
\<close>

theorem unconfirmed_sender_destroys_nothing:
  assumes "onContent answer x r sender raw = Some (r', es)" and "adminRequirement (parseEnvelope raw) = Some need" and "destructive need"
    and "dget (roles r) sender \<noteq> Own ''admin''" and "dget (roles (fst (refreshRoles answer r))) sender \<noteq> Own ''admin''"
  shows "governed r' = governed (fst (refreshRoles answer r)) \<and> (\<not> authorMayPass need \<longrightarrow> r' = fst (refreshRoles answer r) \<and> es = [])"
proof -
  let ?r1 = "fst (refreshRoles answer r)"
  have "senderIsAdmin answer r sender True = (False, ?r1)" using assms(4,5) by (simp add: senderIsAdmin_def Let_def)
  with assms(1-3) have run: "applyEnvelope ?r1 sender (parseEnvelope raw) (x\<lparr>ctx_isAdmin := False\<rparr>) = Some (r', es)"
    by (simp add: onContent_def)
  then have "governed r' = governed ?r1" by (intro gate_keeps_governed [OF assms(2)]) auto
  moreover have "r' = ?r1 \<and> es = []" if "\<not> authorMayPass need"
    using run that assms(2) by (simp add: applyEnvelope_def refused_def)
  ultimately show ?thesis by blast
qed

section \<open>Commits\<close>

text \<open>
  C28: a refused membership change is not applied. When the relay does not take the commit of an \<open>addMember\<close> or
  \<open>removeMember\<close>, an error is thrown, nothing was asked of the relay or said in the circle, the record is the one
  before, and the MLS state has gone through the commits it had gone through, with nothing staged, on disk as in memory.
\<close>

theorem refused_commit_changes_nothing:
  assumes "mls_laws M H" and "pending H (nd_mls n) = None" and "nd_saved n = nd_mls n" and "\<forall>g. m_discard M g \<noteq> None"
    and "out = addMember M dash user a n \<and> an_send a = Rejected_with msg \<or>
         out = removeMember M dash me user b n \<and> rm_send b = Rejected_with msg \<and> user \<noteq> me"
  shows "\<exists>e n'. out = (Inl e, n', []) \<and> nd_rec n' = nd_rec n \<and> hist H (nd_mls n') = hist H (nd_mls n) \<and>
    pending H (nd_mls n') = None \<and> nd_saved n' = nd_mls n'"
proof -
  have undone: "\<exists>e g'. publishCommit M dash (Rejected_with msg) g = (Inl e, g') \<and> hist H g' = hist H g \<and> pending H g' = None" for g
  proof -
    obtain g' where "m_discard M g = Some g'" using assms(4) by blast
    with mls_lawsD(5) [OF assms(1) this] show ?thesis by (auto simp: publishCommit_def discardStagedCommit_def)
  qed
  have staged: "\<exists>e n'. (case publishCommit M dash (Rejected_with msg) g1 of (Inl e, g2) \<Rightarrow> (Inl e, n\<lparr>nd_mls := g2, nd_saved := g2\<rparr>, []) | (Inr s, g2) \<Rightarrow> other s g2) = (Inl e, n', []) \<and>
      nd_rec n' = nd_rec n \<and> hist H (nd_mls n') = hist H (nd_mls n) \<and> pending H (nd_mls n') = None \<and> nd_saved n' = nd_mls n'"
    if "hist H g1 = hist H (nd_mls n)" for g1 other
    using undone [of g1] that by auto
  have add: "hist H g1 = hist H (nd_mls n)" if "worker_addMember M (nd_mls n) p user k = Some (sg, g1)" for p k sg g1
    using that mls_lawsD(2) [OF assms(1)] by (fastforce simp: worker_addMember_def stages_def bind_eq_Some_conv)
  have rem: "hist H g1 = hist H (nd_mls n)" if "worker_removeMember M (nd_mls n) user = Some (sg, g1)" for sg g1
    using that mls_lawsD(3) [OF assms(1)] by (fastforce simp: worker_removeMember_def stages_def bind_eq_Some_conv)
  from assms(5) show ?thesis
  proof
    assume o: "out = addMember M dash user a n \<and> an_send a = Rejected_with msg"
    show ?thesis
    proof (cases "kp_payload (an_kp a) = [] \<or> kp_pubkey (an_kp a) = [] \<or>
        do { p \<leftarrow> b64_dec (kp_payload (an_kp a)); k \<leftarrow> b64_dec (kp_pubkey (an_kp a)); worker_addMember M (nd_mls n) p user k } = None")
      case True
      then show ?thesis using o assms(2,3) by (auto simp: addMember_def)
    next
      case False
      then obtain p k sg g1 where k: "b64_dec (kp_payload (an_kp a)) = Some p" "b64_dec (kp_pubkey (an_kp a)) = Some k"
        "worker_addMember M (nd_mls n) p user k = Some (sg, g1)" by (auto simp: bind_eq_Some_conv)
      from staged [OF add [OF k(3)]] k False o show ?thesis by (simp add: addMember_def)
    qed
  next
    assume o: "out = removeMember M dash me user b n \<and> rm_send b = Rejected_with msg \<and> user \<noteq> me"
    show ?thesis
    proof (cases "worker_removeMember M (nd_mls n) user")
      case None
      then show ?thesis using o assms(2,3) by (auto simp: removeMember_def)
    next
      case (Some sg1)
      then obtain sg g1 where k: "worker_removeMember M (nd_mls n) user = Some (sg, g1)" by (cases sg1) auto
      from staged [OF rem [OF k]] k o show ?thesis by (simp add: removeMember_def)
    qed
  qed
qed

section \<open>Removing someone\<close>

lemma removeMember_done:
  assumes "removeMember M dash me user a n = (Inr (), n', ds)" and "user \<noteq> me"
  obtains sg g1 seq e ms g3 tells rest where "worker_removeMember M (nd_mls n) user = Some (sg, g1)" "mergeStagedCommit M g1 = Some (e, ms, g3)"
    "close_doors dash user a (drop_role user ((bump_seq seq (nd_rec n))\<lparr>members := ms, epoch := Some (sg_epoch sg)\<rparr>)) = Some (nd_rec n', tells, rest)"
    "nd_mls n' = g3" "nd_saved n' = (if tells then g3 else g1)"
    "ds = [req ''disallow'' [(''group'', JStr (c_id (nd_rec n))), (''user'', JStr user)], Do (Say (user @ '' was removed from the circle by you'') general)] @
      rest @ [Do PersistCircle, Do ShowServers]"
proof -
  from assms obtain sg g1 where w: "worker_removeMember M (nd_mls n) user = Some (sg, g1)"
    by (cases "worker_removeMember M (nd_mls n) user") (auto simp: removeMember_def)
  with assms obtain seq where q: "rm_send a = Accepted seq"
    by (cases "rm_send a"; cases "discardStagedCommit M g1") (auto simp: removeMember_def publishCommit_def)
  with assms w obtain e ms g3 where m: "mergeStagedCommit M g1 = Some (e, ms, g3)"
    by (cases "mergeStagedCommit M g1") (auto simp: removeMember_def publishCommit_def)
  let ?r1 = "drop_role user ((bump_seq seq (nd_rec n))\<lparr>members := ms, epoch := Some (sg_epoch sg)\<rparr>)"
  have i: "c_id ?r1 = c_id (nd_rec n)" by (simp add: drop_role_def bump_seq_def)
  from assms w q m obtain r2 tells rest where c: "close_doors dash user a ?r1 = Some (r2, tells, rest)"
    by (cases "close_doors dash user a ?r1") (auto simp: removeMember_def publishCommit_def Let_def)
  from assms w q m c i show thesis
    by (intro that [OF w m, of seq tells rest]) (auto simp: removeMember_def publishCommit_def Let_def)
qed

lemma close_doors_done:
  assumes "close_doors dash user a r = Some (r', tells, rest)"
  obtains r1 rotated where "rotateHistoryKeys r (rm_draws a) = Some (r1, rotated)" "roles r' = roles r" "chanMeta r' = chanMeta r1"
    "list_or_empty (invites r') = []" "\<forall>i \<in> set (list_or_empty (invites r)). req ''revoke_invite'' [(''invite'', oprop i ''id'')] \<in> set rest"
    "rotated \<noteq> [] \<longrightarrow> Do (Send (metaContent r')) \<in> set rest"
proof -
  from assms obtain r1 rotated where rot: "rotateHistoryKeys r (rm_draws a) = Some (r1, rotated)"
    by (auto simp: close_doors_def bind_eq_Some_conv)
  then have same: "roles r1 = roles r" "invites r1 = invites r"
    by (auto simp: rotateHistoryKeys_def bind_eq_Some_conv)
  from assms rot same show thesis
    by (intro that [OF rot]) (auto simp: close_doors_def revokeAllInvites_def Let_def list_or_empty_def split: if_splits option.splits)
qed

text \<open>
  C8: a removal closes every door. When the relay takes the commit, the removed member loses the role and the relay's
  access, every invite link of the circle is revoked and forgotten, every channel that had a log goes on under a fresh
  key, which the others are told in a metadata envelope of the record as it then is, and every key that opened the past is
  kept.
\<close>

theorem removal_closes_every_door:
  assumes "removeMember M dash me user a n = (Inr (), n', ds)" and "user \<noteq> me" and "user \<notin> set proto_names"
    and "distinct (map fst (dict_or_empty (chanMeta (nd_rec n))))"
    and "length (filter (\<lambda>e. keyed (snd e)) (dict_or_empty (chanMeta (nd_rec n)))) \<le> length (rm_draws a)" and "[] \<notin> set (rm_draws a)"
  shows "\<not> slot_set (dget (roles (nd_rec n')) user) \<and> list_or_empty (invites (nd_rec n')) = [] \<and>
    req ''disallow'' [(''group'', JStr (c_id (nd_rec n))), (''user'', JStr user)] \<in> set ds \<and>
    (\<forall>i \<in> set (list_or_empty (invites (nd_rec n))). req ''revoke_invite'' [(''invite'', oprop i ''id'')] \<in> set ds) \<and>
    (\<forall>ch m. map_of (dict_or_empty (chanMeta (nd_rec n))) ch = Some m \<longrightarrow> keyed m \<longrightarrow>
      Do (Send (metaContent (nd_rec n'))) \<in> set ds \<and>
      (\<exists>m'. map_of (dict_or_empty (chanMeta (nd_rec n'))) ch = Some m' \<and>
        (\<exists>b \<in> set (rm_draws a). oprop m' ''hkey'' = JStr (generateHistoryKey b)) \<and>
        (\<forall>ks. channelKeys m = Some ks \<longrightarrow> (\<exists>ks'. channelKeys m' = Some ks' \<and> set ks \<subseteq> set ks'))))"
proof -
  obtain sg g1 seq e ms g3 tells rest where "worker_removeMember M (nd_mls n) user = Some (sg, g1)" "mergeStagedCommit M g1 = Some (e, ms, g3)"
    and close: "close_doors dash user a (drop_role user ((bump_seq seq (nd_rec n))\<lparr>members := ms, epoch := Some (sg_epoch sg)\<rparr>)) = Some (nd_rec n', tells, rest)"
    and "nd_mls n' = g3" "nd_saved n' = (if tells then g3 else g1)"
    and ds: "ds = [req ''disallow'' [(''group'', JStr (c_id (nd_rec n))), (''user'', JStr user)], Do (Say (user @ '' was removed from the circle by you'') general)] @
      rest @ [Do PersistCircle, Do ShowServers]" by (rule removeMember_done [OF assms(1,2)])
  let ?r = "drop_role user ((bump_seq seq (nd_rec n))\<lparr>members := ms, epoch := Some (sg_epoch sg)\<rparr>)"
  have r: "chanMeta ?r = chanMeta (nd_rec n)" "invites ?r = invites (nd_rec n)" by (simp_all add: drop_role_def bump_seq_def)
  have role: "\<not> slot_set (dget (roles ?r) user)"
    using assms(3) by (auto simp: drop_role_def bump_seq_def dget_def map_of_ddel slot_set_def split: option.splits)
  from close obtain r1 rotated where rot: "rotateHistoryKeys ?r (rm_draws a) = Some (r1, rotated)"
    and c: "roles (nd_rec n') = roles ?r" "chanMeta (nd_rec n') = chanMeta r1" "list_or_empty (invites (nd_rec n')) = []"
      "\<forall>i \<in> set (list_or_empty (invites ?r)). req ''revoke_invite'' [(''invite'', oprop i ''id'')] \<in> set rest"
      "rotated \<noteq> [] \<longrightarrow> Do (Send (metaContent (nd_rec n'))) \<in> set rest" by (rule close_doors_done)
  have keys: "Do (Send (metaContent (nd_rec n'))) \<in> set ds \<and>
      (\<exists>m'. map_of (dict_or_empty (chanMeta (nd_rec n'))) ch = Some m' \<and>
        (\<exists>b \<in> set (rm_draws a). oprop m' ''hkey'' = JStr (generateHistoryKey b)) \<and>
        (\<forall>ks. channelKeys m = Some ks \<longrightarrow> (\<exists>ks'. channelKeys m' = Some ks' \<and> set ks \<subseteq> set ks')))"
    if "map_of (dict_or_empty (chanMeta (nd_rec n))) ch = Some m" "keyed m" for ch m
    using rotation_spec [OF rot, of ch m] that assms(4-6) c(2,5) ds by (fastforce simp: r)
  show ?thesis using role c(1,3,4) ds keys by (auto simp: r)
qed

section \<open>Deleting a circle\<close>

lemma evict_pending:
  assumes "mls_laws M H" and "pending H g \<noteq> None"
  shows "evict_all M us g = ([], g)"
proof -
  have "worker_removeMember M g u = None" for u
    using mls_lawsD(3) [OF assms(1), of g u] assms(2) by (cases "m_remove M g u") (auto simp: worker_removeMember_def)
  then show ?thesis by (induction us) simp_all
qed

text \<open>
  Deleting a circle evicts at most one member. The loop over the other members stages a removal for each and never
  merges, and MLS stages nothing while a commit is pending; so one commit at most is made and sent, and every other
  member's device is never told that the circle is gone.
\<close>

theorem delete_evicts_at_most_one:
  assumes "mls_laws M H" and "deleteServer M me n = (sgs, g, ds)"
  shows "length sgs \<le> 1"
proof -
  have "length (fst (evict_all M us g)) \<le> 1" for us g
  proof (induction us)
    case (Cons u us)
    show ?case
    proof (cases "worker_removeMember M g u")
      case (Some x)
      then obtain sg g' where x: "x = (sg, g')" "m_remove M g u = Some (sg_commit sg, g')"
        by (cases x) (auto simp: worker_removeMember_def bind_eq_Some_conv)
      from mls_lawsD(3) [OF assms(1) x(2)] have "pending H g' \<noteq> None" by (simp add: stages_def)
      with Some x(1) evict_pending [OF assms(1)] show ?thesis by simp
    qed (use Cons in simp)
  qed simp
  from this [of "filter (\<lambda>m. m \<noteq> me) (members (nd_rec n))" "nd_mls n"] assms(2) show ?thesis
    by (auto simp: deleteServer_def split: prod.splits)
qed

section \<open>Unsaved\<close>

text \<open>
  A removal from a circle without room keys and invite links leaves the merged state unsaved: what is on disk is the state
  with the commit still staged, and a reload before the next message goes back to it.
\<close>

lemma merged_state_unsaved:
  assumes "removeMember M dash me user a n = (Inr (), n', ds)" and "user \<noteq> me"
    and "chanMeta (nd_rec n) = None" and "invites (nd_rec n) = None" and "mls_laws M H"
  shows "pending H (nd_saved n') \<noteq> None \<and> pending H (nd_mls n') = None"
proof -
  obtain sg g1 seq e ms g3 tells rest where w: "worker_removeMember M (nd_mls n) user = Some (sg, g1)" and m: "mergeStagedCommit M g1 = Some (e, ms, g3)"
    and close: "close_doors dash user a (drop_role user ((bump_seq seq (nd_rec n))\<lparr>members := ms, epoch := Some (sg_epoch sg)\<rparr>)) = Some (nd_rec n', tells, rest)"
    and saved: "nd_mls n' = g3" "nd_saved n' = (if tells then g3 else g1)"
    and "ds = [req ''disallow'' [(''group'', JStr (c_id (nd_rec n))), (''user'', JStr user)], Do (Say (user @ '' was removed from the circle by you'') general)] @
      rest @ [Do PersistCircle, Do ShowServers]" by (rule removeMember_done [OF assms(1,2)])
  have "\<not> tells"
    using close assms(3,4) by (auto simp: close_doors_def rotateHistoryKeys_def revokeAllInvites_def drop_role_def bump_seq_def
        dict_or_empty_def list_or_empty_def entries_def split: if_splits)
  moreover have "pending H g1 \<noteq> None"
    using w mls_lawsD(3) [OF assms(5)] by (fastforce simp: worker_removeMember_def stages_def bind_eq_Some_conv)
  moreover have "pending H g3 = None"
    using m mls_lawsD(4) [OF assms(5)] by (fastforce simp: mergeStagedCommit_def bind_eq_Some_conv)
  ultimately show ?thesis using saved by simp
qed

section \<open>Badges\<close>

lemma recheck_spec:
  assumes "recheck dash number ms es stored = (st, ch, ds)"
  shows "map_of st p = (if \<exists>w. (p, w) \<in> set es \<and> p \<in> set ms \<and> number p \<noteq> None \<and> number p \<noteq> Some w then None else map_of stored p)"
  using assms
proof (induction es arbitrary: stored ch ds st)
  case (Cons e es)
  obtain q w where e: "e = (q, w)" by fastforce
  show ?case
  proof (cases "q \<in> set ms \<and> number q \<noteq> None \<and> number q \<noteq> Some w")
    case True
    with Cons.prems e obtain ch' ds' where "recheck dash number ms es (ddel stored q) = (st, ch', ds')"
      by (auto split: prod.splits)
    from Cons.IH [OF this] True e show ?thesis by (auto simp: map_of_ddel)
  next
    case False
    with Cons.prems e have "recheck dash number ms es stored = (st, ch, ds)" by (auto split: option.splits if_splits)
    from Cons.IH [OF this] False e show ?thesis by auto
  qed
qed simp

lemma retire_all_frame:
  "retire_all dash number ps r = (r', ch, ds) \<Longrightarrow> members r' = members r \<and> verifiedSn r' = verifiedSn r \<and> lastSeq r' = lastSeq r \<and> invites r' = invites r"
proof (induction ps arbitrary: r ch ds)
  case (Cons p ps)
  have frame: "members (fst (retireMismatch r p w)) = members r" "verifiedSn (fst (retireMismatch r p w)) = verifiedSn r"
    "lastSeq (fst (retireMismatch r p w)) = lastSeq r" "invites (fst (retireMismatch r p w)) = invites r" for w
    by (auto simp: retireMismatch_def)
  show ?case
  proof (cases "number p")
    case None
    with Cons show ?thesis by simp
  next
    case (Some w)
    obtain r1 b where r1: "retireMismatch r p w = (r1, b)" by fastforce
    with Cons.prems Some obtain ch' ds' where "retire_all dash number ps r1 = (r', ch', ds')"
      by (cases b) (auto split: prod.splits)
    from Cons.IH [OF this] frame [of w] r1 show ?thesis by simp
  qed
qed simp

lemma revalidate_frame:
  "revalidateVerified dash number r = (r', ch, ds) \<Longrightarrow> members r' = members r \<and> lastSeq r' = lastSeq r \<and> invites r' = invites r"
  by (auto simp: revalidateVerified_def Let_def split: if_splits prod.splits option.splits dest!: retire_all_frame)


section \<open>The cursor\<close>

lemma governed_lastSeq: "governed r' = governed r \<Longrightarrow> lastSeq r' = lastSeq r"
  by (drule arg_cong [where f = lastSeq]) (simp add: governed_def)

lemma room_lastSeq:
  "apply_chan_ren r sender content = Some (r', es) \<Longrightarrow> lastSeq r' = lastSeq r"
  "apply_chan_del r sender content = Some (r', es) \<Longrightarrow> lastSeq r' = lastSeq r"
  by (auto simp: apply_chan_ren_def apply_chan_del_def move_meta_def drop_meta_def run_simps mark_defs split: if_splits)

lemma admin_step_lastSeq:
  assumes "k \<in> admin_kinds" and "handle_kind k r sender content x = Some (r', es)"
  shows "lastSeq r' = lastSeq r"
  using assms room_lastSeq
  by (auto simp: admin_kinds_def handle_kind_def apply_chan_def apply_vchan_def apply_vchan_ren_def apply_vchan_del_def
      apply_chanset_def apply_overview_def apply_threshold_def run_simps mark_defs split: if_splits)

lemma meta_parts_lastSeq:
  "meta_rooms r content = Some (r', es) \<Longrightarrow> lastSeq r' = lastSeq r"
  "meta_overview r content t = Some (r', es) \<Longrightarrow> lastSeq r' = lastSeq r"
  "meta_notices r content t = Some (r', es) \<Longrightarrow> lastSeq r' = lastSeq r"
  "meta_offers r content t = Some (r', es) \<Longrightarrow> lastSeq r' = lastSeq r"
  "meta_ledger r content t = Some (r', es) \<Longrightarrow> lastSeq r' = lastSeq r"
  "meta_rsvps r content t = Some (r', es) \<Longrightarrow> lastSeq r' = lastSeq r"
  "meta_chans r content = Some (r', es) \<Longrightarrow> lastSeq r' = lastSeq r"
  by (auto simp: meta_rooms_def meta_overview_def meta_notices_def meta_offers_def meta_ledger_def meta_rsvps_def meta_chans_def
      run_simps split: if_splits option.splits prod.splits)

lemma applyMeta_lastSeq:
  assumes "applyMeta r content t = Some (r', es)"
  shows "lastSeq r' = lastSeq r"
proof -
  have "lastSeq r2 = lastSeq r1" if "meta_union r1 content t = Some (r2, es')" for r1 r2 es'
    using that unfolding meta_union_def by (elim andThen_SomeD) (metis meta_parts_lastSeq)
  moreover have "lastSeq r2 = lastSeq r1" if "meta_sync r1 content t = Some (r2, es')" for r1 r2 es'
    using that by (auto simp: meta_sync_def adopt_patch_def run_simps)
  ultimately show ?thesis using assms by (fastforce simp: applyMeta_def Let_def split: if_splits)
qed

lemma applyEnvelope_lastSeq:
  assumes "applyEnvelope r sender content x = Some (r', es)"
  shows "lastSeq r' = lastSeq r"
  using assms
proof (cases rule: applyEnvelope_cases)
  case (kind k)
  consider "k = ''meta''" | "k \<in> admin_kinds" | "k \<in> say_kinds" | "k \<in> board_kinds"
    | "k \<notin> say_kinds \<union> board_kinds \<union> admin_kinds \<union> {''meta''}" by blast
  then show ?thesis
  proof cases
    case 1
    with kind(3) applyMeta_lastSeq show ?thesis by (simp add: handle_kind_def)
  next
    case 2
    from admin_step_lastSeq [OF this kind(3)] show ?thesis .
  next
    case 3
    from say_step [OF this kind(3)] show ?thesis by (auto simp: ensureChannel_def)
  next
    case 4
    from governed_lastSeq [OF board_step [OF this kind(3)]] show ?thesis .
  next
    case 5
    from quiet_step [OF kind(3) 5] show ?thesis by simp
  qed
qed simp

lemma onContent_lastSeq: "onContent answer x r sender raw = Some (r', es) \<Longrightarrow> lastSeq r' = lastSeq r"
  by (auto simp: onContent_def senderIsAdmin_def refreshRoles_def Let_def dest!: applyEnvelope_lastSeq
      split: option.splits if_splits prod.splits)

lemma membership_change_lastSeq: "lastSeq (dk_rec (fst (membership_change e sender ms ep d))) = lastSeq (dk_rec d)"
proof -
  have "lastSeq (fst (mergeKeyDirectory r ks)) = lastSeq r" for r ks
    by (simp add: mergeKeyDirectory_def Let_def split: prod.splits option.splits)
  then have keys: "lastSeq r' = lastSeq r" if "refreshKeyDirectory ks r = (r', ds)" for ks r r' ds
    using that by (auto simp: refreshKeyDirectory_def Let_def split: if_splits option.splits prod.splits) (metis fst_conv)+
  show ?thesis
    by (auto simp: membership_change_def Let_def split: prod.splits dest!: keys revalidate_frame)
qed

lemma noteFork_rec: "noteFork dash d = Some (d', ds) \<Longrightarrow> dk_rec d' = dk_rec d \<and> SaveState \<notin> set ds"
  by (auto simp: noteFork_def Let_def bind_eq_Some_conv split: if_splits)


section \<open>Examples\<close>

definition example_circle :: circle where
  "example_circle = (empty_circle ''c'')\<lparr>members := [''ann'', ''bob'', ''cat''], lastSeq := Some 3, roles := [(''ann'', ''admin'')],
     chanMeta := Some [(''general'', example_side ''log'' ''old'')], invites := Some [JObj [(''id'', JStr ''i'')]],
     verified := Some [''bob''], verifiedSn := Some [(''bob'', ''12'')]\<rparr>"

definition example_node :: "counter node" where
  "example_node = \<lparr>nd_rec = example_circle, nd_mls = (0, False, ''ann''), nd_saved = (0, False, ''ann'')\<rparr>"

definition example_answers :: "send_reply \<Rightarrow> remove_answers" where
  "example_answers s = \<lparr>rm_send = s, rm_grants = (\<lambda>i. True), rm_draws = [''fresh''], rm_mls = []\<rparr>"

definition example_threshold :: string where
  "example_threshold = (let q = [CHR 0x22] in ''{'' @ q @ ''k'' @ q @ '':'' @ q @ ''threshold'' @ q @ '',''  @ q @ ''kind'' @ q @ '':'' @ q @ ''admit'' @ q @ ''}'')"

definition example_ctx :: ctx where
  "example_ctx = \<lparr>ctx_isAdmin = True, ctx_now = 0, ctx_clock = 0, ctx_inCall = None\<rparr>"

lemma example_refresh: "refreshRoles None r = (r, [])"
  by (simp add: refreshRoles_def)

theorem unconfirmed_sender_destroys_nothing_witness:
  "\<exists>r' es. onContent None example_ctx example_circle ''eve'' example_threshold = Some (r', es) \<and> r' = example_circle \<and> es = []"
proof -
  have p: "parseEnvelope example_threshold = JObj [(''k'', JStr ''threshold''), (''kind'', JStr ''admit'')]" by code_simp
  have need: "adminRequirement (parseEnvelope example_threshold) = Some \<lparr>destructive = True, authorMayPass = False\<rparr>"
    by (simp add: p adminRequirement_def)
  have role: "dget (roles example_circle) ''eve'' \<noteq> Own ''admin''" by (simp add: example_circle_def dget_def proto_names_def)
  have "onContent None example_ctx example_circle ''eve'' example_threshold = Some (example_circle, [])"
    using role by (simp add: onContent_def need senderIsAdmin_def example_refresh applyEnvelope_def refused_def)
  with unconfirmed_sender_destroys_nothing [OF _ need] role show ?thesis by (fastforce simp: example_refresh)
qed

theorem refused_commit_changes_nothing_witness:
  "\<exists>e n'. removeMember counter_mls [] ''ann'' ''bob'' (example_answers (Rejected_with ''gone'')) example_node = (Inl e, n', []) \<and>
     nd_rec n' = example_circle \<and> pending counter_history (nd_mls n') = None"
proof -
  let ?a = "example_answers (Rejected_with ''gone'')"
  have d: "\<forall>g. m_discard counter_mls g \<noteq> None" by (auto simp: counter_mls_def split: prod.splits)
  have p: "pending counter_history (nd_mls example_node) = None" by (simp add: example_node_def counter_history_def)
  have eq: "nd_saved example_node = nd_mls example_node" "nd_rec example_node = example_circle" "rm_send ?a = Rejected_with ''gone''" "''bob'' \<noteq> ''ann''"
    by (simp_all add: example_node_def example_answers_def)
  show ?thesis
    using refused_commit_changes_nothing [OF counter_laws p eq(1) d, of "removeMember counter_mls [] ''ann'' ''bob'' ?a example_node"
        "[]" "''bob''" undefined "''gone''" "''ann''" ?a] eq by metis
qed

theorem removal_closes_every_door_witness:
  "\<exists>n' ds. removeMember counter_mls [] ''ann'' ''bob'' (example_answers (Accepted 4)) example_node = (Inr (), n', ds) \<and>
     list_or_empty (invites (nd_rec n')) = [] \<and> Do (Send (metaContent (nd_rec n'))) \<in> set ds \<and>
     req ''revoke_invite'' [(''invite'', JStr ''i'')] \<in> set ds"
proof -
  let ?m = "example_side ''log'' ''old''"
  have k: "keyed ?m" by (simp add: keyed_def example_side_def)
  have rot: "rotate_one (''general'', ?m) ''fresh'' [(''general'', ?m)] =
      Some (AList.update ''general'' (rotated_meta ?m ''fresh'') [(''general'', ?m)], True)"
    by (simp add: rotate_one_def rotated_meta_def side_list_def example_side_def)
  have d: "dict_or_empty (chanMeta (nd_rec example_node)) = [(''general'', ?m)]"
    by (simp add: example_node_def example_circle_def dict_or_empty_def)
  have close: "close_doors [] ''bob'' (example_answers (Accepted 4)) r \<noteq> None" if "chanMeta r = Some [(''general'', ?m)]" for r
    using that rot by (auto simp: close_doors_def rotateHistoryKeys_def dict_or_empty_def example_answers_def entries_plain
        is_index_def is_digit_def digit_chars_def Let_def split: prod.splits)
  have cm: "chanMeta (drop_role ''bob'' ((bump_seq 4 example_circle)\<lparr>members := [], epoch := Some (Suc 0)\<rparr>)) = Some [(''general'', ?m)]"
    by (simp add: drop_role_def bump_seq_def example_circle_def)
  have "fst (removeMember counter_mls [] ''ann'' ''bob'' (example_answers (Accepted 4)) example_node) = Inr ()"
    using close [OF cm] by (auto simp: removeMember_def worker_removeMember_def counter_mls_def example_node_def publishCommit_def
        example_answers_def mergeStagedCommit_def Let_def split: option.splits)
  then obtain n' ds where run: "removeMember counter_mls [] ''ann'' ''bob'' (example_answers (Accepted 4)) example_node = (Inr (), n', ds)"
    by (metis prod.collapse)
  have c: "invites (nd_rec example_node) = Some [JObj [(''id'', JStr ''i'')]]" "rm_draws (example_answers (Accepted 4)) = [''fresh'']"
    by (simp_all add: example_node_def example_circle_def example_answers_def)
  have g: "map_of (dict_or_empty (chanMeta (nd_rec example_node))) ''general'' = Some ?m" by (simp add: d)
  have i: "JObj [(''id'', JStr ''i'')] \<in> set (list_or_empty (invites (nd_rec example_node)))" by (simp add: c list_or_empty_def)
  have "''bob'' \<noteq> ''ann''" "''bob'' \<notin> set proto_names" "distinct (map fst (dict_or_empty (chanMeta (nd_rec example_node))))"
    "length (filter (\<lambda>e. keyed (snd e)) (dict_or_empty (chanMeta (nd_rec example_node)))) \<le> length (rm_draws (example_answers (Accepted 4)))"
    "[] \<notin> set (rm_draws (example_answers (Accepted 4)))" by (simp_all add: proto_names_def d c)
  note shut = removal_closes_every_door [OF run this]
  from shut g k have "Do (Send (metaContent (nd_rec n'))) \<in> set ds" by blast
  moreover from shut i have "req ''revoke_invite'' [(''invite'', oprop (JObj [(''id'', JStr ''i'')]) ''id'')] \<in> set ds" by blast
  ultimately show ?thesis using run shut by (intro exI [of _ n'] exI [of _ ds]) simp
qed

theorem delete_evicts_at_most_one_witness:
  "\<exists>sgs g ds. deleteServer counter_mls ''ann'' example_node = (sgs, g, ds) \<and> sgs \<noteq> [] \<and> length sgs \<le> 1"
proof -
  obtain sgs g ds where run: "deleteServer counter_mls ''ann'' example_node = (sgs, g, ds)" by (metis prod_cases3)
  then have "sgs \<noteq> []"
    by (auto simp: deleteServer_def worker_removeMember_def counter_mls_def example_node_def example_circle_def Let_def split: prod.splits)
  with run delete_evicts_at_most_one [OF counter_laws run] show ?thesis by blast
qed


definition example_surroundings :: surroundings where
  "example_surroundings = \<lparr>su_dash = [], su_me = ''bob'', su_catchUpTo = 0, su_roster = None, su_ctx = example_ctx,
     su_number = (\<lambda>p. None), su_keys = None, su_told = True, su_why = []\<rparr>"

definition example_desk :: "counter desk" where
  "example_desk = \<lparr>dk_rec = example_circle, dk_mls = (0, False, ''bob''), dk_watch = new_watch 2, dk_warned = [], dk_outOfSync = False, dk_linkJoined = []\<rparr>"


end
