(* ===== verification/Signaling.thy ===== *)
theory Signaling
  imports JS_Prelude
begin

text \<open>
  One leg of a call, from \<open>client/src/lib/voice.js\<close>: \<open>renegotiate\<close>, \<open>handleSignal\<close> and \<open>onsignalingstatechange\<close> on one
  peer connection, and two such ends that offer to each other over ordered channels. Of the browser's connection the model
  keeps what the code reads: the signaling state, the tracks added to it and the description last applied. A description
  is the list of streams it describes; an answer adds none, since it can only fill the media sections it was offered.
  A call of \<open>createOffer\<close> and the application of an answer take time: \<open>building\<close> counts the offers being built and
  \<open>applying\<close> tells whether an answer is being applied. The other operations are waited for in one step.
\<close>

section \<open>One end\<close>

datatype signaling = Stable | HaveLocalOffer

datatype signal = Offer "string list" | Answer | Candidate string

record peer =
  signalingState :: signaling
  localTracks :: "string list"
  remoteTracks :: "string list option"      \<comment> \<open>\<open>remoteDescription\<close>, by the streams it describes\<close>
  makingOffer :: bool
  renegotiateNeeded :: bool
  building :: nat
  applying :: bool
  pendingCandidates :: "string list"
  candidates :: "string list"               \<comment> \<open>given to \<open>addIceCandidate\<close>\<close>

definition new_peer :: "string list \<Rightarrow> peer" where
  "new_peer tracks = \<lparr>signalingState = Stable, localTracks = tracks, remoteTracks = None, makingOffer = False,
     renegotiateNeeded = False, building = 0, applying = False, pendingCandidates = [], candidates = []\<rparr>"

definition renegotiate :: "peer \<Rightarrow> peer" where
  \<comment> \<open>up to \<open>await peer.pc.createOffer()\<close>\<close>
  "renegotiate p = p\<lparr>makingOffer := True, building := Suc (building p)\<rparr>"

definition offer_built :: "peer \<Rightarrow> peer \<times> signal list" where
  \<comment> \<open>the rest of \<open>renegotiate\<close>\<close>
  "offer_built p =
     (if signalingState p \<noteq> Stable
      then (p\<lparr>renegotiateNeeded := True, makingOffer := False, building := building p - 1\<rparr>, [])
      else (p\<lparr>renegotiateNeeded := False, signalingState := HaveLocalOffer, makingOffer := False, building := building p - 1\<rparr>,
            [Offer (localTracks p)]))"

definition onsignalingstatechange :: "peer \<Rightarrow> peer" where
  "onsignalingstatechange p =
     (if signalingState p = Stable \<and> renegotiateNeeded p \<and> \<not> makingOffer p
      then renegotiate (p\<lparr>renegotiateNeeded := False\<rparr>) else p)"

definition flush :: "peer \<Rightarrow> peer" where
  \<comment> \<open>\<open>for (const c of peer.pendingCandidates.splice(0)) await peer.pc.addIceCandidate(c)\<close>\<close>
  "flush p = p\<lparr>candidates := candidates p @ pendingCandidates p, pendingCandidates := []\<rparr>"

definition answer_applied :: "peer \<Rightarrow> peer" where
  "answer_applied p =
     flush (onsignalingstatechange (p\<lparr>signalingState := Stable, applying := False, remoteTracks := Some (list_or_empty (remoteTracks p))\<rparr>))"

definition kick :: "peer \<Rightarrow> peer" where
  \<comment> \<open>the end of the offer case: the postponed re-offer goes out\<close>
  "kick p = (if renegotiateNeeded p \<and> signalingState p = Stable then renegotiate (p\<lparr>renegotiateNeeded := False\<rparr>) else p)"

definition handle_offer :: "string \<Rightarrow> string \<Rightarrow> string list \<Rightarrow> peer \<Rightarrow> peer \<times> signal list" where
  \<comment> \<open>the connection works off what it was asked in order: an answer still being applied is applied before the offer\<close>
  "handle_offer me sender tracks p =
     (let collision = (makingOffer p \<or> signalingState p \<noteq> Stable)
      in if collision \<and> \<not> sender < me then (p, [])
         else let p1 = (if collision then p\<lparr>renegotiateNeeded := True\<rparr> else p);
                  p2 = (if applying p1 then answer_applied p1 else p1);
                  p3 = flush (p2\<lparr>remoteTracks := Some tracks\<rparr>)
              in (kick (onsignalingstatechange (p3\<lparr>signalingState := Stable\<rparr>)), [Answer]))"

definition handle_answer :: "peer \<Rightarrow> peer" where
  "handle_answer p = (if signalingState p \<noteq> HaveLocalOffer then p else p\<lparr>applying := True\<rparr>)"

definition handle_candidate :: "string \<Rightarrow> peer \<Rightarrow> peer" where
  "handle_candidate c p =
     (if remoteTracks p \<noteq> None then p\<lparr>candidates := candidates p @ [c]\<rparr> else p\<lparr>pendingCandidates := pendingCandidates p @ [c]\<rparr>)"

fun take_signal :: "string \<Rightarrow> string \<Rightarrow> signal \<Rightarrow> peer \<Rightarrow> peer \<times> signal list" where
  \<comment> \<open>\<open>handleSignal\<close> with the peer there\<close>
  "take_signal me sender (Offer tracks) p = handle_offer me sender tracks p"
| "take_signal me sender Answer p = (handle_answer p, [])"
| "take_signal me sender (Candidate c) p = (handle_candidate c p, [])"

section \<open>Two ends\<close>

datatype side = Small | Large        \<comment> \<open>by the order of their names\<close>

fun other :: "side \<Rightarrow> side" where
  "other Small = Large"
| "other Large = Small"

record leg =
  ends :: "side \<Rightarrow> peer"
  inbox :: "side \<Rightarrow> signal list"

inductive settle_step :: "bool \<Rightarrow> (side \<Rightarrow> string) \<Rightarrow> leg \<Rightarrow> leg \<Rightarrow> bool" for serial name where
  built: "building (ends s x) > 0 \<Longrightarrow> offer_built (ends s x) = (p, out) \<Longrightarrow>
    settle_step serial name s (s\<lparr>ends := (ends s)(x := p), inbox := (inbox s)(other x := inbox s (other x) @ out)\<rparr>)"
| deliver: "inbox s x = m # ms \<Longrightarrow> (serial \<longrightarrow> \<not> applying (ends s x)) \<Longrightarrow> take_signal (name x) (name (other x)) m (ends s x) = (p, out) \<Longrightarrow>
    settle_step serial name s (s\<lparr>ends := (ends s)(x := p), inbox := (inbox s)(x := ms, other x := inbox s (other x) @ out)\<rparr>)"
| applied: "applying (ends s x) \<Longrightarrow> settle_step serial name s (s\<lparr>ends := (ends s)(x := answer_applied (ends s x))\<rparr>)"

inductive call_step :: "bool \<Rightarrow> (side \<Rightarrow> string) \<Rightarrow> leg \<Rightarrow> leg \<Rightarrow> bool" for serial name where
  works: "settle_step serial name s s' \<Longrightarrow> call_step serial name s s'"
| changes: \<comment> \<open>\<open>startVideo\<close> or \<open>stopVideo\<close>: a track is added or removed, then \<open>renegotiate\<close>\<close>
    "call_step serial name s (s\<lparr>ends := (ends s)(x := renegotiate ((ends s x)\<lparr>localTracks := tracks\<rparr>))\<rparr>)"
| gathers: \<comment> \<open>\<open>onicecandidate\<close>\<close>
    "call_step serial name s (s\<lparr>inbox := (inbox s)(other x := inbox s (other x) @ [Candidate c])\<rparr>)"

definition connected :: "leg \<Rightarrow> bool" where
  \<comment> \<open>the first negotiation is over and each end knows what the other sends\<close>
  "connected s \<longleftrightarrow> (\<forall>x. inbox s x = [] \<and> signalingState (ends s x) = Stable \<and> \<not> makingOffer (ends s x) \<and> building (ends s x) = 0 \<and>
     \<not> applying (ends s x) \<and> remoteTracks (ends s x) = Some (localTracks (ends s (other x))))"

section \<open>Shapes\<close>

definition is_candidate :: "signal \<Rightarrow> bool" where
  "is_candidate m \<longleftrightarrow> (\<exists>c. m = Candidate c)"

definition due :: "side \<Rightarrow> leg \<Rightarrow> signal list" where
  \<comment> \<open>the descriptions an end has yet to take, an answer being applied first\<close>
  "due x s = (if applying (ends s x) then [Answer] else []) @ filter (\<lambda>m. \<not> is_candidate m) (inbox s x)"

definition known :: "peer \<Rightarrow> string list option \<Rightarrow> bool" where
  "known p seen \<longleftrightarrow> building p > 0 \<or> seen = Some (localTracks p)"

definition owed :: "peer \<Rightarrow> string list option \<Rightarrow> bool" where
  "owed p seen \<longleftrightarrow> building p > 0 \<or> renegotiateNeeded p \<or> seen = Some (localTracks p)"

definition idle_end :: "peer \<Rightarrow> string list option \<Rightarrow> bool" where
  "idle_end p seen \<longleftrightarrow> signalingState p = Stable \<and> known p seen"

abbreviation offering :: "peer \<Rightarrow> bool" where
  "offering p \<equiv> signalingState p = HaveLocalOffer"

inductive shape :: "peer \<Rightarrow> peer \<Rightarrow> signal list \<Rightarrow> signal list \<Rightarrow> bool" where
  \<comment> \<open>the smaller name's end, the larger name's end, what each has yet to take\<close>
  rest: "idle_end a (remoteTracks b) \<Longrightarrow> idle_end b (remoteTracks a) \<Longrightarrow> shape a b [] []"
| b_offers: "idle_end a (remoteTracks b) \<Longrightarrow> offering b \<Longrightarrow> owed b (Some t) \<Longrightarrow> shape a b [Offer t] []"
| b_ignored: "idle_end a (remoteTracks b) \<Longrightarrow> offering b \<Longrightarrow> building a > 0 \<Longrightarrow> shape a b [] []"
| b_answered: "idle_end a (remoteTracks b) \<Longrightarrow> offering b \<Longrightarrow> owed b (remoteTracks a) \<Longrightarrow> shape a b [] [Answer]"
| a_offers: "offering a \<Longrightarrow> owed a (Some u) \<Longrightarrow> idle_end b (remoteTracks a) \<Longrightarrow> shape a b [] [Offer u]"
| glare: "offering a \<Longrightarrow> owed a (Some u) \<Longrightarrow> offering b \<Longrightarrow> owed b (Some t) \<Longrightarrow> shape a b [Offer t] [Offer u]"
| b_lost: "offering a \<Longrightarrow> owed a (Some u) \<Longrightarrow> offering b \<Longrightarrow> shape a b [] [Offer u]"
| both: "offering a \<Longrightarrow> owed a (Some u) \<Longrightarrow> offering b \<Longrightarrow> owed b (remoteTracks a) \<Longrightarrow> shape a b [] [Answer, Offer u]"
| a_answered: "offering a \<Longrightarrow> owed a (remoteTracks b) \<Longrightarrow> idle_end b (remoteTracks a) \<Longrightarrow> shape a b [Answer] []"
| a_answered_stale: "offering a \<Longrightarrow> owed a (remoteTracks b) \<Longrightarrow> idle_end b (remoteTracks a) \<Longrightarrow> shape a b [Offer t, Answer] []"
| re_offer: "offering a \<Longrightarrow> owed a (remoteTracks b) \<Longrightarrow> offering b \<Longrightarrow> owed b (Some t) \<Longrightarrow> shape a b [Answer, Offer t] []"
| re_offer_stale: "offering a \<Longrightarrow> owed a (remoteTracks b) \<Longrightarrow> offering b \<Longrightarrow> owed b (Some t) \<Longrightarrow> shape a b [Offer t', Answer, Offer t] []"

definition sound_end :: "peer \<Rightarrow> bool" where
  "sound_end p \<longleftrightarrow> (makingOffer p \<longrightarrow> building p > 0) \<and> remoteTracks p \<noteq> None"

definition leg_ok :: "leg \<Rightarrow> bool" where
  "leg_ok s \<longleftrightarrow> sound_end (ends s Small) \<and> sound_end (ends s Large) \<and> shape (ends s Small) (ends s Large) (due Small s) (due Large s)"

lemma connected_ok: "connected s \<Longrightarrow> leg_ok s"
  by (auto simp: connected_def leg_ok_def due_def sound_end_def idle_end_def known_def all_conj_distrib intro!: rest)

lemmas end_defs = known_def owed_def idle_end_def

lemmas peer_defs = renegotiate_def offer_built_def onsignalingstatechange_def flush_def answer_applied_def kick_def
  handle_offer_def handle_answer_def handle_candidate_def

lemma is_candidate_simps [simp]: "\<not> is_candidate (Offer t)" "\<not> is_candidate Answer" "is_candidate (Candidate c)"
  by (simp_all add: is_candidate_def)

lemma built_small:
  assumes "shape a b q r" and "building a > 0" and "offer_built a = (p, out)"
  shows "shape p b q (r @ out)"
  using assms by cases (auto simp: offer_built_def end_defs shape.simps)

lemma built_large:
  assumes "shape a b q r" and "building b > 0" and "offer_built b = (p, out)"
  shows "shape a p (q @ out) r"
  using assms by cases (auto simp: offer_built_def end_defs shape.simps)


lemma offer_small:
  assumes "shape a b (Offer t # q) r" and "sound_end a" and "\<not> applying a" and "\<not> sender < me" and "handle_offer me sender t a = (p, out)"
  shows "shape p b q (r @ out)"
  using assms by cases (auto simp: peer_defs end_defs sound_end_def shape.simps Let_def split: if_splits)

lemma offer_large:
  assumes "shape a b q (Offer u # r)" and "sound_end b" and "\<not> applying b" and "sender < me" and "handle_offer me sender u b = (p, out)"
  shows "shape a p (q @ out) r"
  using assms by cases (auto simp: peer_defs end_defs sound_end_def shape.simps Let_def split: if_splits)

lemma applied_small:
  assumes "shape a b (Answer # q) r" and "sound_end a"
  shows "shape (answer_applied a) b q r"
  using assms by cases (auto simp: peer_defs end_defs sound_end_def shape.simps split: if_splits)

lemma applied_large:
  assumes "shape a b q (Answer # r)" and "sound_end b"
  shows "shape a (answer_applied b) q r"
  using assms by cases (auto simp: peer_defs end_defs sound_end_def shape.simps split: if_splits)


definition same_end :: "peer \<Rightarrow> peer \<Rightarrow> bool" where
  "same_end p p' \<longleftrightarrow> signalingState p' = signalingState p \<and> localTracks p' = localTracks p \<and> remoteTracks p' = remoteTracks p \<and>
     building p' = building p \<and> renegotiateNeeded p' = renegotiateNeeded p"

lemma shape_cong: "shape a b q r \<Longrightarrow> same_end a a' \<Longrightarrow> same_end b b' \<Longrightarrow> shape a' b' q r"
  by (auto simp: shape.simps same_end_def end_defs)

lemma same_end_refl [simp]: "same_end p p"
  by (simp add: same_end_def)

lemma sound_ends:
  assumes "sound_end p"
  shows "sound_end (renegotiate p)" "sound_end (answer_applied p)" "building p > 0 \<Longrightarrow> sound_end (fst (offer_built p))"
    "sound_end (fst (handle_offer me sender t p))" "sound_end (handle_answer p)" "sound_end (handle_candidate c p)"
    "sound_end (p\<lparr>localTracks := tracks\<rparr>)"
  using assms by (auto simp: sound_end_def peer_defs Let_def)

lemma answer_expected:
  "shape a b (Answer # q) r \<Longrightarrow> handle_answer a = a\<lparr>applying := True\<rparr>" "shape a b q (Answer # r) \<Longrightarrow> handle_answer b = b\<lparr>applying := True\<rparr>"
  by (auto simp: shape.simps handle_answer_def)

lemma due_update [simp]:
  "due x (s\<lparr>inbox := i\<rparr>) = (if applying (ends s x) then [Answer] else []) @ filter (\<lambda>m. \<not> is_candidate m) (i x)"
  "due x (s\<lparr>ends := e, inbox := i\<rparr>) = (if applying (e x) then [Answer] else []) @ filter (\<lambda>m. \<not> is_candidate m) (i x)"
  "due x (s\<lparr>ends := e\<rparr>) = (if applying (e x) then [Answer] else []) @ filter (\<lambda>m. \<not> is_candidate m) (inbox s x)"
  by (simp_all add: due_def)

lemma applying_simps [simp]:
  "applying (renegotiate p) = applying p" "applying (answer_applied p) = False" "applying (fst (offer_built p)) = applying p"
  "\<not> applying p \<Longrightarrow> \<not> applying (fst (handle_offer me sender t p))" "applying (handle_candidate c p) = applying p"
  by (auto simp: peer_defs Let_def)

lemma offer_descriptions: "handle_offer me sender t p = (p', out) \<Longrightarrow> filter (\<lambda>m. \<not> is_candidate m) out = out"
  by (auto simp: handle_offer_def Let_def split: if_splits)

lemma deliver_small:
  assumes ok: "leg_ok s" and m: "inbox s Small = m # ms" "\<not> applying (ends s Small)" "name Small < name Large"
    and run: "take_signal (name Small) (name Large) m (ends s Small) = (p, out)"
  shows "leg_ok (s\<lparr>ends := (ends s)(Small := p), inbox := (inbox s)(Small := ms, Large := inbox s Large @ out)\<rparr>)"
proof (cases m)
  case (Offer t)
  with run have p: "handle_offer (name Small) (name Large) t (ends s Small) = (p, out)" by simp
  from ok have sound: "sound_end (ends s Small)" "sound_end (ends s Large)" by (simp_all add: leg_ok_def)
  have "shape (ends s Small) (ends s Large) (Offer t # filter (\<lambda>m. \<not> is_candidate m) ms) (due Large s)"
    using ok m Offer by (simp add: leg_ok_def due_def)
  from offer_small [OF this sound(1) m(2) _ p] m(3)
  have "shape p (ends s Large) (filter (\<lambda>m. \<not> is_candidate m) ms) (due Large s @ out)" by simp
  moreover have "\<not> applying p" "sound_end p"
    using applying_simps(4) [OF m(2)] sound_ends(4) [OF sound(1)] p by (metis fst_conv)+
  ultimately show ?thesis using offer_descriptions [OF p] sound(2) by (simp add: leg_ok_def due_def [of _ s])
next
  case Answer
  with ok m have sh: "shape (ends s Small) (ends s Large) (Answer # filter (\<lambda>m. \<not> is_candidate m) ms) (due Large s)" by (simp add: leg_ok_def due_def)
  with Answer run have "p = (ends s Small)\<lparr>applying := True\<rparr>" "out = []" by (auto dest: answer_expected)
  with ok sh show ?thesis by (auto simp: leg_ok_def due_def [of _ s] same_end_def sound_end_def elim!: shape_cong)
next
  case (Candidate c)
  with ok m run show ?thesis using sound_ends(6) [of "ends s Small" c]
    by (auto simp: leg_ok_def due_def [of _ s] handle_candidate_def same_end_def elim!: shape_cong)
qed

lemma deliver_large:
  assumes ok: "leg_ok s" and m: "inbox s Large = m # ms" "\<not> applying (ends s Large)" "name Small < name Large"
    and run: "take_signal (name Large) (name Small) m (ends s Large) = (p, out)"
  shows "leg_ok (s\<lparr>ends := (ends s)(Large := p), inbox := (inbox s)(Large := ms, Small := inbox s Small @ out)\<rparr>)"
proof (cases m)
  case (Offer t)
  with run have p: "handle_offer (name Large) (name Small) t (ends s Large) = (p, out)" by simp
  from ok have sound: "sound_end (ends s Small)" "sound_end (ends s Large)" by (simp_all add: leg_ok_def)
  have "shape (ends s Small) (ends s Large) (due Small s) (Offer t # filter (\<lambda>m. \<not> is_candidate m) ms)"
    using ok m Offer by (simp add: leg_ok_def due_def)
  from offer_large [OF this sound(2) m(2) m(3) p]
  have "shape (ends s Small) p (due Small s @ out) (filter (\<lambda>m. \<not> is_candidate m) ms)" by simp
  moreover have "\<not> applying p" "sound_end p"
    using applying_simps(4) [OF m(2)] sound_ends(4) [OF sound(2)] p by (metis fst_conv)+
  ultimately show ?thesis using offer_descriptions [OF p] sound(1) by (simp add: leg_ok_def due_def [of _ s])
next
  case Answer
  with ok m have sh: "shape (ends s Small) (ends s Large) (due Small s) (Answer # filter (\<lambda>m. \<not> is_candidate m) ms)" by (simp add: leg_ok_def due_def)
  with Answer run have "p = (ends s Large)\<lparr>applying := True\<rparr>" "out = []" by (auto dest: answer_expected)
  with ok sh show ?thesis by (auto simp: leg_ok_def due_def [of _ s] same_end_def sound_end_def elim!: shape_cong)
next
  case (Candidate c)
  with ok m run show ?thesis using sound_ends(6) [of "ends s Large" c]
    by (auto simp: leg_ok_def due_def [of _ s] handle_candidate_def same_end_def elim!: shape_cong)
qed

lemma built_ok:
  assumes ok: "leg_ok s" and b: "building (ends s x) > 0" and p: "offer_built (ends s x) = (p, out)"
  shows "leg_ok (s\<lparr>ends := (ends s)(x := p), inbox := (inbox s)(other x := inbox s (other x) @ out)\<rparr>)"
proof -
  have "filter (\<lambda>m. \<not> is_candidate m) out = out" using p by (auto simp: offer_built_def split: if_splits)
  moreover have "applying p = applying (ends s x)" using applying_simps(3) [of "ends s x"] p by simp
  moreover have "sound_end p" using sound_ends(3) [OF _ b] ok p by (cases x) (auto simp: leg_ok_def)
  moreover have "shape p (ends s Large) (due Small s) (due Large s @ out)" if "x = Small"
    using built_small ok b p that by (auto simp: leg_ok_def)
  moreover have "shape (ends s Small) p (due Small s @ out) (due Large s)" if "x = Large"
    using built_large ok b p that by (auto simp: leg_ok_def)
  ultimately show ?thesis using ok by (cases x) (simp_all add: leg_ok_def due_def [of _ s])
qed

lemma track_changed:
  "shape a b q r \<Longrightarrow> shape (renegotiate (a\<lparr>localTracks := tracks\<rparr>)) b q r" "shape a b q r \<Longrightarrow> shape a (renegotiate (b\<lparr>localTracks := tracks\<rparr>)) q r"
  by (erule shape.cases; simp add: shape.simps end_defs renegotiate_def)+

lemma settle_step_ok:
  assumes "settle_step True name s s'" and "name Small < name Large" and "leg_ok s"
  shows "leg_ok s'"
  using assms(1)
proof cases
  case (built x p out)
  with assms(3) show ?thesis by (auto intro: built_ok)
next
  case (deliver x m ms p out)
  with assms(2,3) show ?thesis by (cases x) (auto intro!: deliver_small deliver_large)
next
  case (applied x)
  with assms(3) applied_small applied_large sound_ends(2) show ?thesis
    by (cases x) (auto simp: leg_ok_def due_def [of _ s])
qed

lemma call_step_ok:
  assumes "call_step True name s s'" and "name Small < name Large" and "leg_ok s"
  shows "leg_ok s'"
  using assms(1)
proof cases
  case works
  from settle_step_ok [OF this assms(2,3)] show ?thesis .
next
  case (changes x tracks)
  with assms(3) track_changed sound_ends(1) [OF sound_ends(7)] show ?thesis
    by (cases x) (simp_all add: leg_ok_def due_def [of _ s])
next
  case (gathers x c)
  with assms(3) show ?thesis by (cases x) (auto simp: leg_ok_def due_def [of _ s])
qed

section \<open>Coming to rest\<close>

fun cost :: "side \<Rightarrow> signal \<Rightarrow> nat" where
  "cost x (Offer t) = (case x of Small \<Rightarrow> 5 | Large \<Rightarrow> 10)"
| "cost x Answer = 3"
| "cost x (Candidate c) = 1"

definition work :: "side \<Rightarrow> peer \<Rightarrow> nat" where
  "work x p = (case x of Small \<Rightarrow> 11 | Large \<Rightarrow> 6) * building p + (if renegotiateNeeded p then (case x of Small \<Rightarrow> 10 | Large \<Rightarrow> 5) else 0) +
     (if applying p then 2 else 0)"

definition load :: "side \<Rightarrow> leg \<Rightarrow> nat" where
  "load x s = work x (ends s x) + sum_list (map (cost x) (inbox s x))"

definition remaining :: "leg \<Rightarrow> nat" where
  \<comment> \<open>an offer of the smaller name may cost the larger one a new offer, never the other way round\<close>
  "remaining s = load Small s + load Large s"

lemma offer_built_works: "building p > 0 \<Longrightarrow> offer_built p = (p', out) \<Longrightarrow> work x p' + sum_list (map (cost (other x)) out) < work x p"
  by (cases x) (auto simp: offer_built_def work_def diff_mult_distrib2 split: if_splits)

lemma take_signal_works:
  assumes "take_signal me sender m p = (p', out)" and "\<not> applying p" and "sender < me \<longleftrightarrow> x = Large"
  shows "work x p' + sum_list (map (cost (other x)) out) < work x p + cost x m"
  using assms by (cases m; cases x) (auto simp: peer_defs work_def Let_def split: if_splits)

lemma answer_applied_works: "applying p \<Longrightarrow> work x (answer_applied p) < work x p"
  by (cases x) (auto simp: peer_defs work_def)

lemma remaining_decreases:
  assumes "settle_step True name s s'" and "name Small < name Large"
  shows "remaining s' < remaining s"
  using assms(1)
proof cases
  case (built x p out)
  with offer_built_works [OF built(2,3), of x] show ?thesis by (cases x) (simp_all add: remaining_def load_def)
next
  case (deliver x m ms p out)
  have "name (other x) < name x \<longleftrightarrow> x = Large" using assms(2) by (cases x) auto
  from take_signal_works [OF deliver(4) _ this] deliver show ?thesis by (cases x) (simp_all add: remaining_def load_def)
next
  case (applied x)
  with answer_applied_works [of "ends s x" x] show ?thesis by (cases x) (simp_all add: remaining_def load_def)
qed

lemma rest_agrees:
  assumes "leg_ok s" and "\<nexists>t. settle_step True name s t"
  shows "inbox s x = [] \<and> signalingState (ends s x) = Stable \<and> remoteTracks (ends s x) = Some (localTracks (ends s (other x)))"
proof -
  have app: "\<not> applying (ends s y)" for y using assms(2) applied by blast
  have build: "building (ends s y) = 0" for y
    using assms(2) built [of s y] by (cases "offer_built (ends s y)") blast
  have empty: "inbox s y = []" for y
    using assms(2) deliver [of s y _ _ True name] app by (cases "inbox s y"; cases "take_signal (name y) (name (other y)) (hd (inbox s y)) (ends s y)") auto
  from assms(1) have "shape (ends s Small) (ends s Large) [] []" by (simp add: leg_ok_def due_def app empty)
  then show ?thesis using empty build by (cases x) (auto simp: shape.simps end_defs)
qed


section \<open>Out of turn\<close>

definition leg_of :: "peer \<Rightarrow> peer \<Rightarrow> signal list \<Rightarrow> signal list \<Rightarrow> leg" where
  "leg_of a b q r = \<lparr>ends = case_side a b, inbox = case_side q r\<rparr>"

lemma leg_of_simps [simp]:
  "ends (leg_of a b q r) Small = a" "ends (leg_of a b q r) Large = b" "inbox (leg_of a b q r) Small = q" "inbox (leg_of a b q r) Large = r"
  by (simp_all add: leg_of_def)

lemma leg_of_upd [simp]:
  "(leg_of a b q r)\<lparr>ends := (ends (leg_of a' b' q' r'))(Small := p)\<rparr> = leg_of p b' q r"
  "(leg_of a b q r)\<lparr>ends := (ends (leg_of a' b' q' r'))(Large := p)\<rparr> = leg_of a' p q r"
  "(leg_of a b q r)\<lparr>inbox := (inbox (leg_of a' b' q' r'))(Small := i)\<rparr> = leg_of a b i r'"
  "(leg_of a b q r)\<lparr>inbox := (inbox (leg_of a' b' q' r'))(Large := i)\<rparr> = leg_of a b q' i"
  "(leg_of a b q r)\<lparr>inbox := (inbox (leg_of a' b' q' r'))(Small := i, Large := j)\<rparr> = leg_of a b i j"
  "(leg_of a b q r)\<lparr>inbox := (inbox (leg_of a' b' q' r'))(Large := j, Small := i)\<rparr> = leg_of a b i j"
  by (auto simp: leg_of_def fun_eq_iff split: side.splits)

lemma leg_steps:
  "call_step serial name (leg_of a b q r) (leg_of (renegotiate (a\<lparr>localTracks := t\<rparr>)) b q r)"
  "call_step serial name (leg_of a b q r) (leg_of a (renegotiate (b\<lparr>localTracks := t\<rparr>)) q r)"
  "building a > 0 \<Longrightarrow> call_step serial name (leg_of a b q r) (leg_of (fst (offer_built a)) b q (r @ snd (offer_built a)))"
  "building b > 0 \<Longrightarrow> call_step serial name (leg_of a b q r) (leg_of a (fst (offer_built b)) (q @ snd (offer_built b)) r)"
  "call_step False name (leg_of a b (m # q) r)
     (leg_of (fst (take_signal (name Small) (name Large) m a)) b q (r @ snd (take_signal (name Small) (name Large) m a)))"
  "call_step False name (leg_of a b q (m # r))
     (leg_of a (fst (take_signal (name Large) (name Small) m b)) (q @ snd (take_signal (name Large) (name Small) m b)) r)"
  "applying a \<Longrightarrow> call_step serial name (leg_of a b q r) (leg_of (answer_applied a) b q r)"
  using changes [of serial name "leg_of a b q r" Small t] changes [of serial name "leg_of a b q r" Large t]
    works [OF built [of "leg_of a b q r" Small "fst (offer_built a)" "snd (offer_built a)"]]
    works [OF built [of "leg_of a b q r" Large "fst (offer_built b)" "snd (offer_built b)"]]
    works [OF deliver [of "leg_of a b (m # q) r" Small m q False name
      "fst (take_signal (name Small) (name Large) m a)" "snd (take_signal (name Small) (name Large) m a)"]]
    works [OF deliver [of "leg_of a b q (m # r)" Large m r False name
      "fst (take_signal (name Large) (name Small) m b)" "snd (take_signal (name Large) (name Small) m b)"]]
    works [OF applied [of "leg_of a b q r" Small]]
  by simp_all

definition example_end :: "string list \<Rightarrow> string list \<Rightarrow> peer" where
  "example_end mine theirs = (new_peer mine)\<lparr>remoteTracks := Some theirs\<rparr>"

text \<open>
  Signals are not taken in turn: the handler of the next one may start while an answer is still being applied. Then a camera
  can be lost. When two offers collide, the larger name answers and offers again at once; if the smaller name takes that
  offer before the answer is applied, it still counts it as a collision and drops it, although its own offer has been
  answered. Both ends are left waiting for nothing, the larger one with an offer open, its camera unknown to the other.
\<close>

theorem offer_taken_out_of_turn_is_lost:
  "\<exists>s t name. connected s \<and> name Small < name Large \<and> (call_step False name)\<^sup>*\<^sup>* s t \<and> (\<nexists>v. settle_step False name t v) \<and>
     signalingState (ends t Large) = HaveLocalOffer \<and> remoteTracks (ends t Small) \<noteq> Some (localTracks (ends t Large))"
proof -
  let ?n = "case_side ''ann'' ''bob''" and ?e = "example_end [] []"
  let ?a1 = "renegotiate (?e\<lparr>localTracks := [''screen'']\<rparr>)" and ?b1 = "renegotiate (?e\<lparr>localTracks := [''camera'']\<rparr>)"
  let ?a2 = "fst (offer_built ?a1)" and ?b2 = "fst (offer_built ?b1)"
  let ?b3 = "fst (handle_offer ''bob'' ''ann'' [''screen''] ?b2)" and ?a3 = "handle_answer ?a2"
  let ?b4 = "fst (offer_built ?b3)" and ?a4 = "answer_applied ?a3"
  note defs = peer_defs example_end_def new_peer_def
  have run: "(call_step False ?n)\<^sup>*\<^sup>* (leg_of ?e ?e [] []) (leg_of ?a4 ?b4 [] [])"
  proof -
    have 1: "call_step False ?n (leg_of ?e ?e [] []) (leg_of ?e ?b1 [] [])" by (rule leg_steps)
    have 2: "call_step False ?n (leg_of ?e ?b1 [] []) (leg_of ?a1 ?b1 [] [])" by (rule leg_steps)
    have 3: "call_step False ?n (leg_of ?a1 ?b1 [] []) (leg_of ?a1 ?b2 [Offer [''camera'']] [])"
      using leg_steps(4) [of ?b1 False ?n ?a1 "[]" "[]"] by (simp add: defs)
    have 4: "call_step False ?n (leg_of ?a1 ?b2 [Offer [''camera'']] []) (leg_of ?a2 ?b2 [Offer [''camera'']] [Offer [''screen'']])"
      using leg_steps(3) [of ?a1 False ?n ?b2 "[Offer [''camera'']]" "[]"] by (simp add: defs)
    have 5: "call_step False ?n (leg_of ?a2 ?b2 [Offer [''camera'']] [Offer [''screen'']]) (leg_of ?a2 ?b2 [] [Offer [''screen'']])"
      using leg_steps(5) [of ?n ?a2 ?b2 "Offer [''camera'']" "[]" "[Offer [''screen'']]"] by (simp add: defs)
    have 6: "call_step False ?n (leg_of ?a2 ?b2 [] [Offer [''screen'']]) (leg_of ?a2 ?b3 [Answer] [])"
      using leg_steps(6) [of ?n ?a2 ?b2 "[]" "Offer [''screen'']" "[]"] by (simp add: defs)
    have 7: "call_step False ?n (leg_of ?a2 ?b3 [Answer] []) (leg_of ?a2 ?b4 [Answer, Offer [''camera'']] [])"
      using leg_steps(4) [of ?b3 False ?n ?a2 "[Answer]" "[]"] by (simp add: defs)
    have 8: "call_step False ?n (leg_of ?a2 ?b4 [Answer, Offer [''camera'']] []) (leg_of ?a3 ?b4 [Offer [''camera'']] [])"
      using leg_steps(5) [of ?n ?a2 ?b4 Answer "[Offer [''camera'']]" "[]"] by simp
    have 9: "call_step False ?n (leg_of ?a3 ?b4 [Offer [''camera'']] []) (leg_of ?a3 ?b4 [] [])"
      using leg_steps(5) [of ?n ?a3 ?b4 "Offer [''camera'']" "[]" "[]"] by (simp add: defs)
    have 10: "call_step False ?n (leg_of ?a3 ?b4 [] []) (leg_of ?a4 ?b4 [] [])" by (rule leg_steps) (simp add: defs)
    from 1 2 3 4 5 6 7 8 9 10 show ?thesis by (meson rtranclp.rtrancl_into_rtrancl rtranclp.rtrancl_refl)
  qed
  have "\<nexists>v. settle_step False ?n (leg_of ?a4 ?b4 [] []) v"
  proof
    assume "\<exists>v. settle_step False ?n (leg_of ?a4 ?b4 [] []) v"
    then obtain v where "settle_step False ?n (leg_of ?a4 ?b4 [] []) v" by blast
    then show False by cases (auto simp: defs leg_of_def split: side.splits)
  qed
  moreover have "connected (leg_of ?e ?e [] [])" by (auto simp: connected_def example_end_def new_peer_def leg_of_def split: side.splits)
  moreover have "signalingState ?b4 = HaveLocalOffer" "remoteTracks ?a4 \<noteq> Some (localTracks ?b4)" by (simp_all add: defs)
  ultimately show ?thesis using run by (intro exI [of _ "leg_of ?e ?e [] []"] exI [of _ "leg_of ?a4 ?b4 [] []"] exI [of _ ?n]) simp
qed


end
