(* ===== verification/Voice.thy ===== *)
theory Voice
  imports Signaling Invite
begin

text \<open>
  Calls, from the \<open>VoiceManager\<close> of \<open>client/src/lib/voice.js\<close>: who is in which room, joining and leaving, ringing one
  person, screens and cameras, and the mesh of connections, each of which is a \<open>peer\<close> of \<open>Signaling\<close>. A handler runs to
  its end in one step, except where the code waits for the browser: a capture, an offer being built and an answer being
  applied end in steps of their own. A media stream is its id. Envelopes carry the fields their sender writes; an absent
  text is empty. Sound, the loudness meter and the choice of devices are browser calls and are left out, apart from who
  is being metered. Sending succeeds; what is sent, said and shown is the list of outputs.
\<close>

section \<open>Envelopes and outputs\<close>

record voice_env =
  ve_ch :: string
  ve_action :: string
  ve_sharing :: bool
  ve_shareSid :: string
  ve_camera :: bool
  ve_cameraSid :: string
  ve_muted :: bool
  ve_sid :: string

datatype call_env =
    RingEnv string string string        \<comment> \<open>to, ch, action\<close>
  | VoiceEnv voice_env
  | RtcEnv string string signal         \<comment> \<open>to, ch\<close>

datatype wake = Nobody | Roster | Only "string list"

datatype vout =
    SendEph string call_env wake
  | Notify string
  | Announce string
  | Chime string
  | CallStarted string string string
  | StopStream string
  | Publish

definition plain_env :: "string \<Rightarrow> string \<Rightarrow> voice_env" where
  "plain_env ch action = \<lparr>ve_ch = ch, ve_action = action, ve_sharing = False, ve_shareSid = [], ve_camera = False, ve_cameraSid = [],
     ve_muted = False, ve_sid = []\<rparr>"

section \<open>The manager\<close>

datatype video = Screen | Camera

record in_call =
  cl_server :: string
  cl_channel :: string
  cl_stream :: string
  cl_since :: rat

record direct_call =
  dc_server :: string
  dc_room :: string
  dc_peer :: string

record manager =
  v_me :: string
  v_active :: "in_call option"
  v_listenOnly :: bool
  v_muted :: bool
  v_ring :: "direct_call option"
  v_dial :: "direct_call option"
  v_peers :: "(string \<times> peer) list"
  v_presence :: "(string \<times> string list) list"
  v_share :: "string option"
  v_shares :: "(string \<times> string) list"
  v_remoteScreens :: "(string \<times> string) list"
  v_camera :: "string option"
  v_cameras :: "(string \<times> string) list"
  v_remoteCameras :: "(string \<times> string) list"
  v_videoKind :: "(string \<times> video) list"
  v_unrouted :: "(string \<times> string) list"     \<comment> \<open>\<open>unroutedVideo\<close>: stream id to name\<close>
  v_mutedPeers :: "string list"
  v_metered :: "string list"                 \<comment> \<open>the keys of \<open>analysers\<close>\<close>
  v_speaking :: "string list"

definition new_manager :: "string \<Rightarrow> manager" where
  "new_manager me = \<lparr>v_me = me, v_active = None, v_listenOnly = False, v_muted = False, v_ring = None, v_dial = None, v_peers = [], v_presence = [],
     v_share = None, v_shares = [], v_remoteScreens = [], v_camera = None, v_cameras = [], v_remoteCameras = [], v_videoKind = [], v_unrouted = [],
     v_mutedPeers = [], v_metered = [], v_speaking = []\<rparr>"

section \<open>Rooms\<close>

definition MESH_LIMIT :: nat where "MESH_LIMIT = 8"

definition meshFull :: "nat \<Rightarrow> bool" where
  "meshFull n \<longleftrightarrow> MESH_LIMIT \<le> n"

definition meshFullMessage :: string where
  "meshFullMessage = ''this call is full ('' @ nat_str MESH_LIMIT @ '' people). calls are peer-to-peer, so every extra person costs everyone else bandwidth''"

definition room_key :: "string \<Rightarrow> string \<Rightarrow> string" where
  "room_key server channel = server @ [CHR 0x0A] @ channel"

definition in_server :: "string \<Rightarrow> string \<Rightarrow> bool" where
  \<comment> \<open>\<open>key.startsWith(`${server}\n`)\<close>\<close>
  "in_server server k \<longleftrightarrow> prefix (server @ [CHR 0x0A]) k"

definition members_at :: "manager \<Rightarrow> string \<Rightarrow> string list" where
  "members_at v k = (case map_of (v_presence v) k of None \<Rightarrow> [] | Some ns \<Rightarrow> ns)"

definition participants :: "manager \<Rightarrow> string \<Rightarrow> string \<Rightarrow> string list" where
  "participants v server channel = sort (members_at v (room_key server channel))"

definition track :: "string \<Rightarrow> string \<Rightarrow> string \<Rightarrow> bool \<Rightarrow> bool \<Rightarrow> manager \<Rightarrow> manager \<times> vout list" where
  "track server channel name inside announce v =
     (let k = room_key server channel; ns = members_at v k
      in (v\<lparr>v_presence := AList.update k (if inside then set_add ns name else removeAll name ns) (v_presence v)\<rparr>,
          if inside \<and> announce \<and> ns = [] then [CallStarted server channel name] else []))"

definition inChannel :: "string \<Rightarrow> string \<Rightarrow> manager \<Rightarrow> bool" where
  "inChannel server channel v = (case v_active v of None \<Rightarrow> False | Some c \<Rightarrow> cl_server c = server \<and> cl_channel c = channel)"

definition directRoom :: "string \<Rightarrow> string \<Rightarrow> string" where
  "directRoom a b = ''dm:'' @ join ''+'' (sort [a, b])"

definition directPeer :: "string \<Rightarrow> string \<Rightarrow> string option" where
  \<comment> \<open>the other party in a direct room\<close>
  "directPeer me channel = (if prefix ''dm:'' channel then find (\<lambda>n. n \<noteq> me) (split_on (CHR ''+'') (drop 3 channel)) else None)"

section \<open>Leaving\<close>

definition removeMeter :: "string \<Rightarrow> manager \<Rightarrow> manager" where
  "removeMeter name v = v\<lparr>v_metered := removeAll name (v_metered v), v_speaking := removeAll name (v_speaking v)\<rparr>"

definition addMeter :: "string \<Rightarrow> manager \<Rightarrow> manager" where
  "addMeter name v = v\<lparr>v_metered := set_add (v_metered v) name\<rparr>"

definition stop_share :: "string option \<Rightarrow> vout list" where
  "stop_share s = (case s of None \<Rightarrow> [] | Some sid \<Rightarrow> [StopStream sid])"

definition leave :: "manager \<Rightarrow> manager \<times> vout list" where
  "leave v =
     (case v_active v of
        None \<Rightarrow> (v, [])
      | Some c \<Rightarrow>
          let v1 = v\<lparr>v_peers := [], v_metered := [], v_speaking := [], v_share := None, v_camera := None, v_remoteScreens := [], v_remoteCameras := [],
                     v_cameras := [], v_videoKind := [], v_unrouted := [], v_mutedPeers := []\<rparr>;
              (v2, started) = track (cl_server c) (cl_channel c) (v_me v) False True v1
          in (v2\<lparr>v_active := None, v_muted := False, v_dial := None\<rparr>,
              [SendEph (cl_server c) (VoiceEnv (plain_env (cl_channel c) ''leave'')) Nobody, StopStream (cl_stream c)] @
              stop_share (v_share v) @ stop_share (v_camera v) @ [Publish]))"

definition dropPeer :: "string \<Rightarrow> manager \<Rightarrow> manager \<times> vout list" where
  \<comment> \<open>a \<open>leave\<close> it starts is over before the handler goes on\<close>
  "dropPeer name v =
     (if map_of (v_peers v) name = None then (v, [])
      else let v1 = removeMeter name (v\<lparr>v_peers := AList.delete name (v_peers v), v_remoteScreens := AList.delete name (v_remoteScreens v),
                 v_remoteCameras := AList.delete name (v_remoteCameras v), v_cameras := AList.delete name (v_cameras v),
                 v_mutedPeers := removeAll name (v_mutedPeers v)\<rparr>);
               over = (case v_active v1 of None \<Rightarrow> False
                       | Some c \<Rightarrow> directPeer (v_me v) (cl_channel c) = Some name \<and> v_peers v1 = []);
               (v2, out) = (if over then leave v1 else (v1, []))
           in (v2, out @ [Publish]))"

fun drop_all :: "string list \<Rightarrow> manager \<Rightarrow> manager \<times> vout list" where
  "drop_all [] v = (v, [])"
| "drop_all (n # ns) v = (let (v1, o1) = dropPeer n v; (v2, o2) = drop_all ns v1 in (v2, o1 @ o2))"

definition membershipChanged :: "string \<Rightarrow> string list \<Rightarrow> manager \<Rightarrow> manager \<times> vout list" where
  "membershipChanged server allowed v =
     (let (v1, out) = drop_all (filter (\<lambda>n. n \<notin> set allowed) (map fst (v_peers v))) v;
          here = (\<lambda>(n, k). \<not> (in_server server k \<and> n \<notin> set allowed))
      in (v1\<lparr>v_presence := map (\<lambda>(k, ns). (k, if in_server server k then filter (\<lambda>n. n \<in> set allowed) ns else ns)) (v_presence v1),
             v_shares := filter here (v_shares v1), v_cameras := filter here (v_cameras v1)\<rparr>, out @ [Publish]))"

definition probe :: "string \<Rightarrow> manager \<Rightarrow> manager \<times> vout list" where
  "probe server v =
     (let mine = (\<lambda>k n. n = v_me v \<and> (case v_active v of None \<Rightarrow> False | Some c \<Rightarrow> room_key (cl_server c) (cl_channel c) = k))
      in (v\<lparr>v_presence := map (\<lambda>(k, ns). (k, if in_server server k then filter (mine k) ns else ns)) (v_presence v),
            v_shares := filter (\<lambda>(n, k). \<not> in_server server k) (v_shares v), v_cameras := filter (\<lambda>(n, k). \<not> in_server server k) (v_cameras v)\<rparr>,
          [Publish, SendEph server (VoiceEnv (plain_env ''*'' ''probe'')) Nobody]))"

section \<open>Joining\<close>

definition join_call :: "string \<Rightarrow> string \<Rightarrow> string \<Rightarrow> bool \<Rightarrow> rat \<Rightarrow> manager \<Rightarrow> (string + unit) \<times> manager \<times> vout list" where
  \<comment> \<open>\<open>join\<close>, with the stream \<open>captureAudio\<close> gives, whether it is the silent one, and the clock\<close>
  "join_call server channel mic silent now v0 =
     (let (v, out) = leave v0; there = participants v server channel
      in if meshFull (length there) then (Inl meshFullMessage, v, out)
         else let startsCall = (there = [] \<and> directPeer (v_me v) channel = None);
                  v1 = addMeter (v_me v) (v\<lparr>v_listenOnly := silent, v_muted := False,
                         v_active := Some \<lparr>cl_server = server, cl_channel = channel, cl_stream = mic, cl_since = now\<rparr>\<rparr>);
                  (v2, started) = track server channel (v_me v) True True v1
              in (Inr (), v2, out @ started @ [SendEph server (VoiceEnv (plain_env channel ''join'')) (if startsCall then Roster else Nobody), Publish]))"

definition applyMute :: "bool \<Rightarrow> manager \<Rightarrow> manager \<times> vout list" where
  "applyMute m v = (v\<lparr>v_muted := m\<rparr>,
     (case v_active v of None \<Rightarrow> [] | Some c \<Rightarrow> [SendEph (cl_server c) (VoiceEnv (plain_env (cl_channel c) (if m then ''mute'' else ''unmute''))) Nobody]) @
     [Publish])"

definition callUser :: "string \<Rightarrow> string \<Rightarrow> string \<Rightarrow> bool \<Rightarrow> rat \<Rightarrow> manager \<Rightarrow> (string + unit) \<times> manager \<times> vout list" where
  "callUser server name mic silent now v =
     (if name = v_me v \<or> v_active v \<noteq> None \<or> v_dial v \<noteq> None then (Inr (), v, [])
      else let room = directRoom (v_me v) name;
               (res, v1, out) = join_call server room mic silent now (v\<lparr>v_dial := Some \<lparr>dc_server = server, dc_room = room, dc_peer = name\<rparr>\<rparr>)
           in (res, v1, SendEph server (RingEnv name room ''invite'') (Only [name]) # out))"

definition cancelCall :: "manager \<Rightarrow> manager \<times> vout list" where
  "cancelCall v =
     (case v_dial v of
        None \<Rightarrow> (v, [])
      | Some d \<Rightarrow>
          let (v1, out) = leave (v\<lparr>v_dial := None\<rparr>)
          in (v1, SendEph (dc_server d) (RingEnv (dc_peer d) (dc_room d) ''cancel'') Nobody # out))"

definition acceptRing :: "string \<Rightarrow> bool \<Rightarrow> rat \<Rightarrow> manager \<Rightarrow> (string + unit) \<times> manager \<times> vout list" where
  "acceptRing mic silent now v =
     (case v_ring v of
        None \<Rightarrow> (Inr (), v, [])
      | Some g \<Rightarrow>
          let (res, v1, out) = join_call (dc_server g) (dc_room g) mic silent now (v\<lparr>v_ring := None\<rparr>)
          in (res, v1, SendEph (dc_server g) (RingEnv (dc_peer g) (dc_room g) ''accept'') Nobody # out))"

definition declineRing :: "manager \<Rightarrow> manager \<times> vout list" where
  "declineRing v =
     (case v_ring v of
        None \<Rightarrow> (v, [])
      | Some g \<Rightarrow> (v\<lparr>v_ring := None\<rparr>, [SendEph (dc_server g) (RingEnv (dc_peer g) (dc_room g) ''decline'') Nobody, Publish]))"

section \<open>Screens and cameras\<close>

definition change_tracks :: "(peer \<Rightarrow> peer) \<Rightarrow> manager \<Rightarrow> manager" where
  \<comment> \<open>a track is added to or removed from every connection, which then renegotiates\<close>
  "change_tracks f v = v\<lparr>v_peers := map (\<lambda>(n, p). (n, f p)) (v_peers v)\<rparr>"

definition add_track :: "string \<Rightarrow> peer \<Rightarrow> peer" where
  "add_track sid p = renegotiate (p\<lparr>localTracks := localTracks p @ [sid]\<rparr>)"

definition remove_track :: "string \<Rightarrow> peer \<Rightarrow> peer" where
  \<comment> \<open>a connection that never got the track has no sender to remove\<close>
  "remove_track sid p = (if sid \<in> set (localTracks p) then renegotiate (p\<lparr>localTracks := removeAll sid (localTracks p)\<rparr>) else p)"

definition startVideo :: "video \<Rightarrow> string \<Rightarrow> string \<Rightarrow> manager \<Rightarrow> (string + unit) \<times> manager \<times> vout list" where
  "startVideo kind sid action v =
     (let v1 = v\<lparr>v_videoKind := AList.update sid kind (v_videoKind v)\<rparr>
      in case v_active v1 of
           None \<Rightarrow> (Inl ''TypeError'', v1, [])
         | Some c \<Rightarrow> (Inr (), change_tracks (add_track sid) v1,
             [SendEph (cl_server c) (VoiceEnv ((plain_env (cl_channel c) action)\<lparr>ve_sid := sid\<rparr>)) Nobody, Publish]))"

definition stopVideo :: "string \<Rightarrow> string \<Rightarrow> manager \<Rightarrow> manager \<times> vout list" where
  "stopVideo sid action v =
     (let v1 = v\<lparr>v_videoKind := AList.delete sid (v_videoKind v)\<rparr>
      in case v_active v1 of
           None \<Rightarrow> (v1, [Publish])
         | Some c \<Rightarrow> (change_tracks (remove_track sid) v1, [SendEph (cl_server c) (VoiceEnv (plain_env (cl_channel c) action)) Nobody, Publish]))"

definition share_asks :: "manager \<Rightarrow> bool" where
  \<comment> \<open>the guard of \<open>startShare\<close>: whether \<open>getDisplayMedia\<close> is asked\<close>
  "share_asks v \<longleftrightarrow> v_active v \<noteq> None \<and> v_share v = None"

definition camera_asks :: "manager \<Rightarrow> bool" where
  "camera_asks v \<longleftrightarrow> v_active v \<noteq> None \<and> v_camera v = None"

definition startShare :: "string \<Rightarrow> manager \<Rightarrow> (string + unit) \<times> manager \<times> vout list" where
  \<comment> \<open>the rest, once the capture \<open>sid\<close> is there\<close>
  "startShare sid v = startVideo Screen sid ''share'' (v\<lparr>v_share := Some sid\<rparr>)"

definition startCamera :: "string \<Rightarrow> manager \<Rightarrow> (string + unit) \<times> manager \<times> vout list" where
  "startCamera sid v = startVideo Camera sid ''camera'' (v\<lparr>v_camera := Some sid\<rparr>)"

definition stopShare :: "manager \<Rightarrow> manager \<times> vout list" where
  "stopShare v =
     (case v_share v of None \<Rightarrow> (v, [])
      | Some sid \<Rightarrow> let (v1, out) = stopVideo sid ''unshare'' (v\<lparr>v_share := None\<rparr>) in (v1, StopStream sid # out))"

definition stopCamera :: "manager \<Rightarrow> manager \<times> vout list" where
  "stopCamera v =
     (case v_camera v of None \<Rightarrow> (v, [])
      | Some sid \<Rightarrow> let (v1, out) = stopVideo sid ''uncamera'' (v\<lparr>v_camera := None\<rparr>) in (v1, StopStream sid # out))"

definition hereEnvelope :: "string \<Rightarrow> manager \<Rightarrow> voice_env" where
  "hereEnvelope channel v = (plain_env channel ''here'')\<lparr>ve_sharing := (v_share v \<noteq> None), ve_shareSid := (case v_share v of None \<Rightarrow> [] | Some s \<Rightarrow> s),
     ve_camera := (v_camera v \<noteq> None), ve_cameraSid := (case v_camera v of None \<Rightarrow> [] | Some s \<Rightarrow> s), ve_muted := v_muted v\<rparr>"

definition attachRemoteVideo :: "string \<Rightarrow> string \<Rightarrow> video option \<Rightarrow> manager \<Rightarrow> manager \<times> vout list" where
  "attachRemoteVideo name sid kind v =
     (case kind of
        None \<Rightarrow> (v\<lparr>v_unrouted := AList.update sid name (v_unrouted v)\<rparr>, [])
      | Some Camera \<Rightarrow> (v\<lparr>v_remoteCameras := AList.update name sid (v_remoteCameras v)\<rparr>, [Publish])
      | Some Screen \<Rightarrow> (v\<lparr>v_remoteScreens := AList.update name sid (v_remoteScreens v)\<rparr>, [Publish]))"

definition routeVideo :: "string \<Rightarrow> video \<Rightarrow> manager \<Rightarrow> manager \<times> vout list" where
  "routeVideo sid kind v =
     (if sid = [] then (v, [])
      else let v1 = v\<lparr>v_videoKind := AList.update sid kind (v_videoKind v)\<rparr>
           in case map_of (v_unrouted v1) sid of
                None \<Rightarrow> (v1, [])
              | Some name \<Rightarrow> attachRemoteVideo name sid (Some kind) (v1\<lparr>v_unrouted := AList.delete sid (v_unrouted v1)\<rparr>))"

section \<open>Connections\<close>

definition createPeer :: "in_call \<Rightarrow> manager \<Rightarrow> peer" where
  "createPeer c v = new_peer (cl_stream c # (case v_share v of None \<Rightarrow> [] | Some s \<Rightarrow> [s]) @ (case v_camera v of None \<Rightarrow> [] | Some s \<Rightarrow> [s]))"

definition ensurePeer :: "string \<Rightarrow> string \<Rightarrow> manager \<Rightarrow> manager \<times> vout list" where
  "ensurePeer server name v =
     (case (v_active v, map_of (v_peers v) name) of
        (Some c, None) \<Rightarrow>
          let p = createPeer c v
          in if v_me v < name
             then (v\<lparr>v_peers := AList.update name (p\<lparr>signalingState := HaveLocalOffer\<rparr>) (v_peers v)\<rparr>,
                   [SendEph server (RtcEnv name (cl_channel c) (Offer (localTracks p))) Nobody, Publish])
             else (v\<lparr>v_peers := AList.update name p (v_peers v)\<rparr>, [Publish])
      | _ \<Rightarrow> (v, []))"

definition handleSignal :: "string \<Rightarrow> string \<Rightarrow> string \<Rightarrow> signal \<Rightarrow> manager \<Rightarrow> manager \<times> vout list" where
  "handleSignal server sender ch m v =
     (let there = (case map_of (v_peers v) sender of
          Some p \<Rightarrow> Some p
        | None \<Rightarrow> (case (m, v_active v) of (Offer t, Some c) \<Rightarrow> Some (createPeer c v) | _ \<Rightarrow> None))
      in case there of
           None \<Rightarrow> (v, [])
         | Some p \<Rightarrow>
             let (p1, out) = take_signal (v_me v) sender m p
             in (v\<lparr>v_peers := AList.update sender p1 (v_peers v)\<rparr>, map (\<lambda>s. SendEph server (RtcEnv sender ch s) Nobody) out @ [Publish]))"

definition answer_done :: "string \<Rightarrow> manager \<Rightarrow> manager" where
  "answer_done name v =
     (case map_of (v_peers v) name of
        Some p \<Rightarrow> if applying p then v\<lparr>v_peers := AList.update name (answer_applied p) (v_peers v)\<rparr> else v
      | None \<Rightarrow> v)"

definition offer_done :: "string \<Rightarrow> manager \<Rightarrow> manager \<times> vout list" where
  "offer_done name v =
     (case (v_active v, map_of (v_peers v) name) of
        (Some c, Some p) \<Rightarrow>
          if 0 < building p
          then let (p1, out) = offer_built p
               in (v\<lparr>v_peers := AList.update name p1 (v_peers v)\<rparr>, map (\<lambda>s. SendEph (cl_server c) (RtcEnv name (cl_channel c) s) Nobody) out)
          else (v, [])
      | _ \<Rightarrow> (v, []))"

definition ontrack :: "string \<Rightarrow> string \<Rightarrow> bool \<Rightarrow> manager \<Rightarrow> manager \<times> vout list" where
  \<comment> \<open>a remote track of stream \<open>sid\<close> arrives on the connection to \<open>name\<close>\<close>
  "ontrack name sid is_video v =
     (if map_of (v_peers v) name = None then (v, [])
      else if is_video then attachRemoteVideo name sid (map_of (v_videoKind v) sid) v
      else (addMeter name v, []))"

section \<open>Incoming envelopes\<close>

definition on_ring :: "string \<Rightarrow> string \<Rightarrow> string \<Rightarrow> string \<Rightarrow> string \<Rightarrow> manager \<Rightarrow> manager \<times> vout list" where
  "on_ring server sender to ch action v =
     (if to \<noteq> v_me v then (v, [])
      else if action = ''invite'' then
        (if v_active v \<noteq> None \<or> v_ring v \<noteq> None then (v, [SendEph server (RingEnv sender ch ''decline'') Nobody])
         else (v\<lparr>v_ring := Some \<lparr>dc_server = server, dc_room = ch, dc_peer = sender\<rparr>\<rparr>, [Publish]))
      else if action = ''accept'' then (v\<lparr>v_dial := None\<rparr>, [Publish])
      else if action = ''decline'' then
        (case v_dial v of
           Some d \<Rightarrow>
             if dc_peer d = sender
             then (let (v1, out) = leave (v\<lparr>v_dial := None\<rparr>) in (v1, Notify (sender @ '' declined the call'') # out))
             else (v, [Publish])
         | None \<Rightarrow> (v, [Publish]))
      else if action = ''cancel'' then
        (case v_ring v of
           Some g \<Rightarrow> if dc_peer g = sender then (v\<lparr>v_ring := None\<rparr>, [Notify (''missed call from '' @ sender), Publish]) else (v, [Publish])
         | None \<Rightarrow> (v, [Publish]))
      else (v, [Publish]))"

definition note_share :: "string \<Rightarrow> string \<Rightarrow> voice_env \<Rightarrow> manager \<Rightarrow> manager \<times> vout list" where
  "note_share server sender e v =
     (if ve_sharing e then routeVideo (ve_shareSid e) Screen (v\<lparr>v_shares := AList.update sender (room_key server (ve_ch e)) (v_shares v)\<rparr>) else (v, []))"

definition note_camera :: "string \<Rightarrow> string \<Rightarrow> voice_env \<Rightarrow> manager \<Rightarrow> manager \<times> vout list" where
  "note_camera server sender e v =
     (if ve_camera e then routeVideo (ve_cameraSid e) Camera (v\<lparr>v_cameras := AList.update sender (room_key server (ve_ch e)) (v_cameras v)\<rparr>) else (v, []))"

definition note_mute :: "string \<Rightarrow> voice_env \<Rightarrow> manager \<Rightarrow> manager" where
  "note_mute sender e v =
     (if ve_muted e then v\<lparr>v_mutedPeers := set_add (v_mutedPeers v) sender\<rparr>
      else if ve_action e = ''join'' then v\<lparr>v_mutedPeers := removeAll sender (v_mutedPeers v)\<rparr> else v)"

definition meet :: "string \<Rightarrow> string \<Rightarrow> voice_env \<Rightarrow> manager \<Rightarrow> manager \<times> vout list" where
  \<comment> \<open>someone is in the room of the call: a joiner is told who is here, and there is a connection to them\<close>
  "meet server sender e v =
     (if inChannel server (ve_ch e) v
      then (let (v', out) = ensurePeer server sender v
            in (v', (if ve_action e = ''join'' then [Chime ''join'', Announce (sender @ '' joined the call''), SendEph server (VoiceEnv (hereEnvelope (ve_ch e) v)) Nobody] else []) @ out))
      else (v, []))"

definition on_here :: "string \<Rightarrow> string \<Rightarrow> voice_env \<Rightarrow> manager \<Rightarrow> manager \<times> vout list" where
  \<comment> \<open>the cases \<open>join\<close> and \<open>here\<close>\<close>
  "on_here server sender e v =
     (let (v1, o1) = track server (ve_ch e) sender True (ve_action e = ''join'') v;
          (v2, o2) = note_share server sender e v1;
          (v3, o3) = note_camera server sender e v2;
          (v4, o4) = meet server sender e (note_mute sender e v3)
      in (v4, o1 @ o2 @ o3 @ o4 @ [Publish]))"

definition on_leave :: "string \<Rightarrow> string \<Rightarrow> string \<Rightarrow> manager \<Rightarrow> manager \<times> vout list" where
  "on_leave server sender ch v =
     (let mine = inChannel server ch v;
          v1 = (fst (track server ch sender False True v))\<lparr>v_shares := AList.delete sender (v_shares v), v_cameras := AList.delete sender (v_cameras v)\<rparr>;
          (v2, o2) = dropPeer sender v1;
          over = (case v_active v2 of None \<Rightarrow> False
                  | Some c \<Rightarrow> ch = cl_channel c \<and> directPeer (v_me v) (cl_channel c) = Some sender \<and> v_peers v2 = []);
          (v3, o3) = (if over then leave v2 else (v2, []))
      in (v3, (if mine then [Chime ''leave'', Announce (sender @ '' left the call'')] else []) @ o2 @ o3 @ [Publish]))"

definition on_voice :: "string \<Rightarrow> string \<Rightarrow> voice_env \<Rightarrow> manager \<Rightarrow> manager \<times> vout list" where
  "on_voice server sender e v =
     (let k = room_key server (ve_ch e); show = (\<lambda>(v', out). (v', out @ [Publish]))
      in if ve_action e = ''join'' \<or> ve_action e = ''here'' then on_here server sender e v
         else if ve_action e = ''mute'' then show (v\<lparr>v_mutedPeers := set_add (v_mutedPeers v) sender\<rparr>, [])
         else if ve_action e = ''unmute'' then show (v\<lparr>v_mutedPeers := removeAll sender (v_mutedPeers v)\<rparr>, [])
         else if ve_action e = ''share'' then show (routeVideo (ve_sid e) Screen (v\<lparr>v_shares := AList.update sender k (v_shares v)\<rparr>))
         else if ve_action e = ''unshare'' then
           show (v\<lparr>v_shares := AList.delete sender (v_shares v), v_remoteScreens := AList.delete sender (v_remoteScreens v)\<rparr>, [])
         else if ve_action e = ''camera'' then show (routeVideo (ve_sid e) Camera (v\<lparr>v_cameras := AList.update sender k (v_cameras v)\<rparr>))
         else if ve_action e = ''uncamera'' then
           show (v\<lparr>v_cameras := AList.delete sender (v_cameras v), v_remoteCameras := AList.delete sender (v_remoteCameras v)\<rparr>, [])
         else if ve_action e = ''leave'' then on_leave server sender (ve_ch e) v
         else if ve_action e = ''probe'' then
           show (v, case v_active v of None \<Rightarrow> []
             | Some c \<Rightarrow> if cl_server c = server then [SendEph server (VoiceEnv (hereEnvelope (cl_channel c) v)) Nobody] else [])
         else show (v, []))"

definition handleEnvelope :: "string \<Rightarrow> string \<Rightarrow> call_env \<Rightarrow> manager \<Rightarrow> manager \<times> vout list" where
  "handleEnvelope server sender env v =
     (if sender = v_me v then (v, [])
      else case env of
        RingEnv to ch action \<Rightarrow> on_ring server sender to ch action v
      | VoiceEnv e \<Rightarrow> on_voice server sender e v
      | RtcEnv to ch m \<Rightarrow> if to = v_me v \<and> inChannel server ch v then handleSignal server sender ch m v else (v, []))"

section \<open>What is shown\<close>

record view =
  vw_active :: "in_call option"
  vw_sharing :: "string list"
  vw_cameras :: "string list"
  vw_direct :: "string option"

definition shown_in :: "(string \<times> string) list \<Rightarrow> string option \<Rightarrow> manager \<Rightarrow> string list" where
  "shown_in others mine v =
     (case v_active v of None \<Rightarrow> []
      | Some c \<Rightarrow> sort ((if mine = None then [] else [v_me v]) @ map fst (filter (\<lambda>(n, k). k = room_key (cl_server c) (cl_channel c)) others)))"

definition publish :: "manager \<Rightarrow> view" where
  "publish v = \<lparr>vw_active = v_active v, vw_sharing = shown_in (v_shares v) (v_share v) v, vw_cameras = shown_in (v_cameras v) (v_camera v) v,
     vw_direct = (case v_active v of None \<Rightarrow> None | Some c \<Rightarrow> directPeer (v_me v) (cl_channel c))\<rparr>"

end
