(* ===== verification/Voice_Rules.thy ===== *)
theory Voice_Rules
  imports Voice
begin

text \<open>
  What calls promise, over any sequence of things a person, the other members, the browser and the circle may do to a
  \<open>VoiceManager\<close>: no microphone, screen or camera is left running when the call is over; nobody outside the circle keeps a
  leg or a place in a room; both ends of a direct call derive the same room, and ringing ends with both in it and one
  connection between them. Two defects are stated: a capture granted after the call is over stays on, and a membership
  change in one circle drops the legs of a call in another.
\<close>

section \<open>Everything that happens to a manager\<close>

datatype vevent =
    Joins string string string bool rat
  | Leaves
  | Mutes bool
  | Calls string string string bool rat
  | Cancels
  | Accepts string bool rat
  | Declines
  | ShareGot string
  | ShareStops
  | CameraGot string
  | CameraStops
  | Probes string
  | Members string "string list"
  | Arrives string string call_env
  | AnswerDone string
  | OfferDone string
  | TrackArrives string string bool
  | LegFails string

fun vstep :: "vevent \<Rightarrow> manager \<Rightarrow> manager \<times> vout list" where
  "vstep (Joins s c mic silent now) v = snd (join_call s c mic silent now v)"
| "vstep Leaves v = leave v"
| "vstep (Mutes b) v = applyMute b v"
| "vstep (Calls s n mic silent now) v = snd (callUser s n mic silent now v)"
| "vstep Cancels v = cancelCall v"
| "vstep (Accepts mic silent now) v = snd (acceptRing mic silent now v)"
| "vstep Declines v = declineRing v"
| "vstep (ShareGot sid) v = snd (startShare sid v)"
| "vstep ShareStops v = stopShare v"
| "vstep (CameraGot sid) v = snd (startCamera sid v)"
| "vstep CameraStops v = stopCamera v"
| "vstep (Probes s) v = probe s v"
| "vstep (Members s ms) v = membershipChanged s ms v"
| "vstep (Arrives s sender env) v = handleEnvelope s sender env v"
| "vstep (AnswerDone n) v = (answer_done n v, [])"
| "vstep (OfferDone n) v = offer_done n v"
| "vstep (TrackArrives n sid is_video) v = ontrack n sid is_video v"
| "vstep (LegFails n) v = dropPeer n v"

fun runs :: "vevent list \<Rightarrow> manager \<Rightarrow> manager \<times> vout list" where
  "runs [] v = (v, [])"
| "runs (e # es) v = (let (v1, o1) = vstep e v; (v2, o2) = runs es v1 in (v2, o1 @ o2))"

definition in_time :: "vevent \<Rightarrow> manager \<Rightarrow> bool" where
  \<comment> \<open>a capture is granted while the guard that asked for it still holds\<close>
  "in_time e v = (case e of ShareGot sid \<Rightarrow> share_asks v | CameraGot sid \<Rightarrow> camera_asks v | _ \<Rightarrow> True)"

fun all_in_time :: "vevent list \<Rightarrow> manager \<Rightarrow> bool" where
  "all_in_time [] v = True"
| "all_in_time (e # es) v = (in_time e v \<and> all_in_time es (fst (vstep e v)))"

section \<open>Captures\<close>

definition captures :: "manager \<Rightarrow> string set" where
  "captures v = cl_stream ` set_option (v_active v) \<union> set_option (v_share v) \<union> set_option (v_camera v)"

definition stopped :: "vout list \<Rightarrow> string set" where
  "stopped out = {s. StopStream s \<in> set out}"

lemma stopped_simps [simp]: "stopped [] = {}" "stopped (xs @ ys) = stopped xs \<union> stopped ys"
  "stopped (x # xs) = (case x of StopStream s \<Rightarrow> {s} | _ \<Rightarrow> {}) \<union> stopped xs"
  by (auto simp: stopped_def split: vout.splits)

definition at_rest :: "manager \<Rightarrow> bool" where
  "at_rest v \<longleftrightarrow> v_peers v = [] \<and> v_share v = None \<and> v_camera v = None \<and> v_remoteScreens v = [] \<and> v_remoteCameras v = [] \<and> v_unrouted v = []"

definition tidy :: "manager \<Rightarrow> bool" where
  "tidy v \<longleftrightarrow> (v_active v = None \<longrightarrow> at_rest v)"

definition keeps :: "manager \<Rightarrow> manager \<times> vout list \<Rightarrow> bool" where
  \<comment> \<open>nothing is left behind, and no capture goes without being stopped\<close>
  "keeps v r \<longleftrightarrow> (tidy v \<longrightarrow> tidy (fst r)) \<and> captures v \<subseteq> captures (fst r) \<union> stopped (snd r)"

definition unmoved :: "manager \<Rightarrow> manager \<Rightarrow> bool" where
  "unmoved v v' \<longleftrightarrow> v_active v' = v_active v \<and> v_share v' = v_share v \<and> v_camera v' = v_camera v \<and> (tidy v \<longrightarrow> tidy v')"

lemma unmoved_keeps: "unmoved v (fst r) \<Longrightarrow> keeps v r"
  by (auto simp: unmoved_def keeps_def captures_def)

lemma unmoved_trans: "unmoved u v \<Longrightarrow> unmoved v w \<Longrightarrow> unmoved u w"
  by (auto simp: unmoved_def)

lemma unmoved_refl [simp]: "unmoved v v"
  by (simp add: unmoved_def)

lemma keeps_trans: "keeps u (v, o1) \<Longrightarrow> keeps v (w, o2) \<Longrightarrow> keeps u (w, o1 @ o2)"
  by (auto simp: keeps_def)

lemma keeps_more: "keeps v (v', out) \<Longrightarrow> set out \<subseteq> set out' \<Longrightarrow> keeps v (v', out')"
  by (auto simp: keeps_def stopped_def)

lemma keeps_after: "unmoved u v \<Longrightarrow> keeps v r \<Longrightarrow> keeps u r"
  by (auto simp: keeps_def unmoved_def captures_def)

lemmas quiet_defs = unmoved_def tidy_def at_rest_def

lemma unmoved_ops:
  "unmoved v (fst (track s c n b a v))" "unmoved v (removeMeter n v)" "unmoved v (addMeter n v)" "unmoved v (fst (applyMute b v))"
  "unmoved v (fst (declineRing v))" "unmoved v (fst (probe s v))" "unmoved v (fst (routeVideo sid k v))" "unmoved v (fst (ensurePeer s n v))"
  "unmoved v (answer_done n v)" "unmoved v (fst (offer_done n v))" "unmoved v (fst (ontrack n sid b v))"
  by (auto simp: quiet_defs track_def removeMeter_def addMeter_def applyMute_def declineRing_def probe_def routeVideo_def attachRemoteVideo_def
      ensurePeer_def answer_done_def offer_done_def ontrack_def Let_def split: option.splits prod.splits if_splits video.splits)

lemma unmoved_signal: "inChannel server ch v \<Longrightarrow> unmoved v (fst (handleSignal server sender ch m v))"
  by (auto simp: quiet_defs handleSignal_def inChannel_def Let_def split: option.splits prod.splits signal.splits)

lemma leave_keeps: "keeps v (leave v)"
  by (auto simp: keeps_def leave_def tidy_def at_rest_def captures_def track_def stop_share_def Let_def split: option.splits)

lemma leave_rest: "v_active (fst (leave v)) = None"
  by (simp add: leave_def track_def Let_def split: option.split)

lemma dropPeer_keeps: "keeps v (dropPeer n v)"
proof -
  let ?v1 = "removeMeter n (v\<lparr>v_peers := AList.delete n (v_peers v), v_remoteScreens := AList.delete n (v_remoteScreens v),
      v_remoteCameras := AList.delete n (v_remoteCameras v), v_cameras := AList.delete n (v_cameras v), v_mutedPeers := removeAll n (v_mutedPeers v)\<rparr>)"
  have u: "unmoved v ?v1" by (simp add: quiet_defs removeMeter_def)
  obtain v2 out where l: "leave ?v1 = (v2, out)" by fastforce
  have "keeps v (v2, out @ [Publish])" by (rule keeps_more [OF keeps_after [OF u leave_keeps [of ?v1, unfolded l]]]) auto
  moreover have "keeps v (?v1, [Publish])" using u by (intro unmoved_keeps) simp
  moreover have "keeps v (v, [])" by (simp add: unmoved_keeps)
  ultimately show ?thesis by (auto simp: dropPeer_def l Let_def split: option.splits)
qed

lemma drop_all_keeps: "keeps v (drop_all ns v)"
proof (induction ns arbitrary: v)
  case Nil
  show ?case by (simp add: unmoved_keeps)
next
  case (Cons n ns)
  obtain v1 o1 where d: "dropPeer n v = (v1, o1)" by fastforce
  obtain v2 o2 where r: "drop_all ns v1 = (v2, o2)" by fastforce
  from keeps_trans [OF dropPeer_keeps [of v n, unfolded d] Cons.IH [of v1, unfolded r]] show ?case by (simp add: d r)
qed

lemma membership_keeps: "keeps v (membershipChanged s ms v)"
proof -
  obtain v1 out where d: "drop_all (filter (\<lambda>n. n \<notin> set ms) (map fst (v_peers v))) v = (v1, out)" by fastforce
  have "unmoved v1 (fst (membershipChanged s ms v))" by (simp add: membershipChanged_def d quiet_defs Let_def)
  from keeps_trans [OF drop_all_keeps [of v "filter (\<lambda>n. n \<notin> set ms) (map fst (v_peers v))", unfolded d] unmoved_keeps [where r = "(fst (membershipChanged s ms v), [Publish])"]] this
  have "keeps v (fst (membershipChanged s ms v), out @ [Publish])" by (simp add: d)
  then show ?thesis by (simp add: membershipChanged_def d Let_def)
qed

lemma join_keeps: "keeps v (snd (join_call s c mic silent now v))"
proof -
  obtain v1 out where l: "leave v = (v1, out)" by fastforce
  have none: "v_active v1 = None" using leave_rest [of v] l by simp
  have k: "keeps v (v1, out)" using leave_keeps [of v] l by simp
  have "keeps v1 (v2, o2)" if "v_share v2 = v_share v1" "v_camera v2 = v_camera v1" "v_active v2 \<noteq> None" for v2 o2
    using that none by (auto simp: keeps_def tidy_def captures_def)
  from keeps_trans [OF k this] k show ?thesis
    by (auto simp: join_call_def l addMeter_def track_def Let_def)
qed

lemma call_keeps: "keeps v (snd (callUser s n mic silent now v))" "keeps v (cancelCall v)" "keeps v (snd (acceptRing mic silent now v))"
proof -
  have d: "unmoved v (v\<lparr>v_dial := d\<rparr>)" and g: "unmoved v (v\<lparr>v_ring := d\<rparr>)" for d by (simp_all add: quiet_defs)
  have cons: "keeps v (v', x # out)" if "keeps v (v', out)" for v' x out by (rule keeps_more [OF that]) auto
  show "keeps v (snd (callUser s n mic silent now v))"
    using keeps_after [OF d join_keeps] cons by (auto simp: callUser_def Let_def unmoved_keeps split: prod.split) (metis snd_conv)
  show "keeps v (cancelCall v)"
    using keeps_after [OF d leave_keeps] cons by (auto simp: cancelCall_def Let_def unmoved_keeps split: prod.split option.split) (metis snd_conv)
  show "keeps v (snd (acceptRing mic silent now v))"
    using keeps_after [OF g join_keeps] cons by (auto simp: acceptRing_def Let_def unmoved_keeps split: prod.split option.split) (metis snd_conv)
qed

lemma video_keeps:
  "share_asks v \<Longrightarrow> keeps v (snd (startShare sid v))" "camera_asks v \<Longrightarrow> keeps v (snd (startCamera sid v))" "keeps v (stopShare v)" "keeps v (stopCamera v)"
  by (auto simp: keeps_def tidy_def at_rest_def captures_def share_asks_def camera_asks_def startShare_def startCamera_def startVideo_def
      stopShare_def stopCamera_def stopVideo_def change_tracks_def Let_def split: option.splits)

lemma ring_keeps: "keeps v (on_ring s sender to ch action v)"
proof -
  have d: "unmoved v (v\<lparr>v_dial := d\<rparr>)" and g: "unmoved v (v\<lparr>v_ring := d\<rparr>)" for d by (simp_all add: quiet_defs)
  obtain v1 out where l: "leave (v\<lparr>v_dial := None\<rparr>) = (v1, out)" by fastforce
  have "keeps v (v1, Notify t # out)" for t
    using keeps_after [OF d leave_keeps] l by (metis keeps_more set_subset_Cons)
  then show ?thesis using d g by (auto simp: on_ring_def l unmoved_keeps split: option.splits)
qed

lemma unmoved_notes: "unmoved v (fst (note_share s sender e v))" "unmoved v (fst (note_camera s sender e v))" "unmoved v (note_mute sender e v)"
  "unmoved v (fst (meet s sender e v))"
proof -
  have fields: "unmoved u (u\<lparr>v_shares := x\<rparr>)" "unmoved u (u\<lparr>v_cameras := x\<rparr>)" for u x by (simp_all add: quiet_defs)
  from unmoved_trans [OF fields(1) unmoved_ops(7)] unmoved_trans [OF fields(2) unmoved_ops(7)]
  show "unmoved v (fst (note_share s sender e v))" "unmoved v (fst (note_camera s sender e v))" by (simp_all add: note_share_def note_camera_def)
  show "unmoved v (note_mute sender e v)" by (simp add: note_mute_def quiet_defs)
  show "unmoved v (fst (meet s sender e v))" using unmoved_ops(8) by (simp add: meet_def split_def Let_def)
qed

lemma here_keeps: "keeps v (on_here s sender e v)"
proof (rule unmoved_keeps)
  obtain v1 o1 where 1: "track s (ve_ch e) sender True (ve_action e = ''join'') v = (v1, o1)" by fastforce
  obtain v2 o2 where 2: "note_share s sender e v1 = (v2, o2)" by fastforce
  obtain v3 o3 where 3: "note_camera s sender e v2 = (v3, o3)" by fastforce
  have "unmoved v v1" "unmoved v1 v2" "unmoved v2 v3"
    using unmoved_ops(1) unmoved_notes(1,2) 1 2 3 by (metis fst_conv)+
  from unmoved_trans [OF this(1) unmoved_trans [OF this(2) unmoved_trans [OF this(3) unmoved_trans [OF unmoved_notes(3,4)]]]]
  show "unmoved v (fst (on_here s sender e v))" by (simp add: on_here_def 1 2 3 split_def Let_def)
qed

lemma left_keeps: "keeps v (on_leave s sender ch v)"
proof -
  let ?v1 = "(fst (track s ch sender False True v))\<lparr>v_shares := AList.delete sender (v_shares v), v_cameras := AList.delete sender (v_cameras v)\<rparr>"
  have u: "unmoved v ?v1" by (simp add: quiet_defs track_def Let_def)
  obtain v2 o2 where d: "dropPeer sender ?v1 = (v2, o2)" by fastforce
  obtain v3 o3 where l: "leave v2 = (v3, o3)" by fastforce
  have "keeps v (v2, o2)" using keeps_after [OF u dropPeer_keeps [of _ sender]] d by simp
  moreover from keeps_trans [OF this leave_keeps [of v2, unfolded l]] have "keeps v (v3, o2 @ o3)" .
  ultimately have "keeps v (v2, a @ o2 @ [Publish])" "keeps v (v3, a @ o2 @ o3 @ [Publish])" for a
    by (auto elim!: keeps_more)
  then show ?thesis by (simp add: on_leave_def d l Let_def del: append_assoc append.append_Cons append_Cons)
qed

lemma voice_keeps: "keeps v (on_voice s sender e v)"
proof -
  have fields: "unmoved u (u\<lparr>v_shares := x\<rparr>)" "unmoved u (u\<lparr>v_cameras := x\<rparr>)" "unmoved u (u\<lparr>v_mutedPeers := m\<rparr>)"
    "unmoved u (u\<lparr>v_shares := x, v_remoteScreens := AList.delete n (v_remoteScreens u)\<rparr>)"
    "unmoved u (u\<lparr>v_cameras := x, v_remoteCameras := AList.delete n (v_remoteCameras u)\<rparr>)" for u x m n
    by (simp_all add: quiet_defs)
  have routed: "unmoved v (fst (routeVideo sid k (v\<lparr>v_shares := x\<rparr>)))" "unmoved v (fst (routeVideo sid k (v\<lparr>v_cameras := x\<rparr>)))" for sid k x
    by (rule unmoved_trans [OF fields(1) unmoved_ops(7)], rule unmoved_trans [OF fields(2) unmoved_ops(7)])
  show ?thesis
    using fields [of v] routed here_keeps left_keeps by (auto simp: on_voice_def Let_def split_def intro!: unmoved_keeps)
qed

lemma vstep_keeps:
  assumes "in_time e v"
  shows "keeps v (vstep e v)"
proof (cases e)
  case (ShareGot sid)
  with assms video_keeps(1) show ?thesis by (simp add: in_time_def)
next
  case (CameraGot sid)
  with assms video_keeps(2) show ?thesis by (simp add: in_time_def)
next
  case (Arrives s sender env)
  then show ?thesis
    by (auto simp: handleEnvelope_def intro: ring_keeps voice_keeps unmoved_keeps unmoved_signal split: call_env.split)
qed (simp_all add: join_keeps leave_keeps call_keeps video_keeps(3,4) membership_keeps dropPeer_keeps unmoved_keeps unmoved_ops)

lemma runs_keeps: "all_in_time es v \<Longrightarrow> keeps v (runs es v)"
proof (induction es arbitrary: v)
  case Nil
  show ?case by (simp add: unmoved_keeps)
next
  case (Cons e es)
  obtain v1 o1 where s: "vstep e v = (v1, o1)" by fastforce
  obtain v2 o2 where r: "runs es v1 = (v2, o2)" by fastforce
  from Cons.prems s have "in_time e v" "all_in_time es v1" by simp_all
  from keeps_trans [OF vstep_keeps [OF this(1), unfolded s] Cons.IH [OF this(2), unfolded r]] show ?case by (simp add: s r)
qed

lemma runs_append: "runs (xs @ ys) v = (let (v1, o1) = runs xs v; (v2, o2) = runs ys v1 in (v2, o1 @ o2))"
  by (induction xs arbitrary: v) (auto simp: Let_def split: prod.splits)

lemma all_in_time_append: "all_in_time (xs @ ys) v \<longleftrightarrow> all_in_time xs v \<and> all_in_time ys (fst (runs xs v))"
  by (induction xs arbitrary: v) (auto simp: Let_def split: prod.splits)



text \<open>
  A capture granted too late stays on. The picker for a screen is open while the call ends; when the screen is granted
  then, the code keeps it as the running share before it notices that there is no call, and throws: the person is in no
  call, and the screen is captured until the share is stopped by hand.
\<close>

lemma late_capture_outlives_the_call:
  assumes "share_asks v" and "leave v = (v1, out)"
  shows "\<exists>v2. startShare sid v1 = (Inl ''TypeError'', v2, []) \<and> v_active v2 = None \<and> captures v2 = {sid}"
proof -
  have "v_active v1 = None" "v_camera v1 = None"
    using assms by (auto simp: leave_def share_asks_def track_def Let_def)
  then show ?thesis by (auto simp: startShare_def startVideo_def captures_def Let_def)
qed

section \<open>Who may stay\<close>

lemma dropPeer_peers: "set (v_peers (fst (dropPeer n v))) \<subseteq> {(m, p) \<in> set (v_peers v). m \<noteq> n}"
proof -
  have "v_peers (fst (leave u)) \<in> {[], v_peers u}" for u by (auto simp: leave_def track_def Let_def split: option.splits)
  then have l: "set (v_peers (fst (leave u))) \<subseteq> set (v_peers u)" for u by (metis empty_iff insert_iff list.set(1) subsetI)
  show ?thesis
  proof (cases "map_of (v_peers v) n")
    case None
    then show ?thesis by (auto simp: dropPeer_def map_of_eq_None_iff image_iff)
  next
    case (Some p)
    let ?v1 = "removeMeter n (v\<lparr>v_peers := AList.delete n (v_peers v), v_remoteScreens := AList.delete n (v_remoteScreens v),
      v_remoteCameras := AList.delete n (v_remoteCameras v), v_cameras := AList.delete n (v_cameras v), v_mutedPeers := removeAll n (v_mutedPeers v)\<rparr>)"
    have "set (v_peers ?v1) \<subseteq> {(m, p) \<in> set (v_peers v). m \<noteq> n}" by (auto simp: removeMeter_def AList.delete_eq)
    moreover have "fst (dropPeer n v) = ?v1 \<or> fst (dropPeer n v) = fst (leave ?v1)"
      using Some by (simp add: dropPeer_def Let_def split_def)
    ultimately show ?thesis using l [of ?v1] by auto
  qed
qed

lemma drop_all_peers: "set (v_peers (fst (drop_all ns v))) \<subseteq> {(m, p) \<in> set (v_peers v). m \<notin> set ns}"
proof (induction ns arbitrary: v)
  case (Cons n ns)
  obtain v1 o1 where d: "dropPeer n v = (v1, o1)" by fastforce
  obtain v2 o2 where r: "drop_all ns v1 = (v2, o2)" by fastforce
  from Cons.IH [of v1] dropPeer_peers [of n v] show ?case by (auto simp: d r)
qed simp

text \<open>
  C30: nobody outside the circle stays. After a membership change the device has no connection to anyone who is not a member,
  shows none of them in any room of the circle, and takes none of them to be sharing a screen or a camera there.
\<close>

theorem outsiders_are_dropped:
  "let v' = fst (membershipChanged server ms v)
   in fst ` set (v_peers v') \<subseteq> set ms \<and>
      (\<forall>k ns. (k, ns) \<in> set (v_presence v') \<longrightarrow> in_server server k \<longrightarrow> set ns \<subseteq> set ms) \<and>
      (\<forall>n k. (n, k) \<in> set (v_shares v') \<union> set (v_cameras v') \<longrightarrow> in_server server k \<longrightarrow> n \<in> set ms)"
proof -
  let ?gone = "filter (\<lambda>n. n \<notin> set ms) (map fst (v_peers v))"
  obtain v1 out where d: "drop_all ?gone v = (v1, out)" by fastforce
  have "fst ` set (v_peers v1) \<subseteq> set ms" using drop_all_peers [of ?gone v] d by force
  then show ?thesis by (auto simp: membershipChanged_def d Let_def split: if_splits)
qed

theorem outsiders_are_dropped_witness:
  "fst ` set (v_peers (fst (membershipChanged ''c'' [''ann''] ((new_manager ''ann'')\<lparr>v_peers := [(''eve'', new_peer [])]\<rparr>)))) \<subseteq> {''ann''}"
  using outsiders_are_dropped [of "''c''" "[''ann'']" "(new_manager ''ann'')\<lparr>v_peers := [(''eve'', new_peer [])]\<rparr>"] by (simp add: Let_def)

text \<open>
  A membership change in one circle tears down a call in another: the connections are not compared with the circle the call
  is in, so a member of the call who is not in the other circle loses the leg.
\<close>

lemma another_circle_drops_the_leg:
  assumes "v_active v = Some c" and "cl_server c \<noteq> server" and "n \<notin> set ms"
  shows "n \<notin> fst ` set (v_peers (fst (membershipChanged server ms v)))"
  using outsiders_are_dropped [of server ms v] assms(3) by (auto simp: Let_def)

text \<open>
  A probe starts from nothing: right after it, the only person shown in any room of the circle is this one, in the room
  of the call, so that everyone shown later has answered or joined since.
\<close>

lemma probe_forgets:
  assumes "(k, ns) \<in> set (v_presence (fst (probe server v)))" and "in_server server k" and "n \<in> set ns"
  shows "n = v_me v \<and> (\<exists>c. v_active v = Some c \<and> room_key (cl_server c) (cl_channel c) = k)"
  using assms by (auto simp: probe_def Let_def split: option.splits if_splits)

section \<open>Direct calls\<close>

lemma sort_two: "sort [a, b] = (if a \<le> b then [a, b] else [b, a])" for a :: "'a :: linorder"
  by simp

lemma split_on_free: "d \<notin> set s \<Longrightarrow> split_on d s = [s]"
  by (induction s) auto

lemma split_on_pair: "d \<notin> set s \<Longrightarrow> split_on d (s @ d # t) = s # split_on d t"
  by (induction s) auto

lemma directRoom_shape: "directRoom a b = ''dm:'' @ (if a \<le> b then a @ ''+'' @ b else b @ ''+'' @ a)"
  by (simp add: directRoom_def)

lemma directPeer_room:
  assumes "a \<noteq> b" and "CHR ''+'' \<notin> set a" and "CHR ''+'' \<notin> set b"
  shows "directPeer a (directRoom a b) = Some b"
  using assms by (auto simp: directPeer_def directRoom_shape split_on_pair split_on_free)

lemma directRoom_commute: "directRoom a b = directRoom b a"
  by (auto simp: directRoom_shape)

fun sent :: "vout list \<Rightarrow> call_env list" where
  "sent [] = []"
| "sent (SendEph s e w # out) = e # sent out"
| "sent (x # out) = sent out"

lemma sent_append [simp]: "sent (xs @ ys) = sent xs @ sent ys"
  by (induction xs rule: sent.induct) auto

fun deliver_all :: "string \<Rightarrow> string \<Rightarrow> call_env list \<Rightarrow> manager \<Rightarrow> manager \<times> vout list" where
  "deliver_all s sender [] v = (v, [])"
| "deliver_all s sender (e # es) v = (let (v1, o1) = handleEnvelope s sender e v; (v2, o2) = deliver_all s sender es v1 in (v2, o1 @ o2))"

definition ring_through :: "string \<Rightarrow> string \<Rightarrow> string \<Rightarrow> string \<Rightarrow> string \<Rightarrow> manager \<Rightarrow> manager \<Rightarrow> manager \<times> manager" where
  \<comment> \<open>one calls, the other accepts, and every envelope sent is delivered until none is left\<close>
  "ring_through s a b mic1 mic2 v w =
     (let (r1, v1, o1) = callUser s b mic1 False 0 v;
          (w1, o2) = deliver_all s a (sent o1) w;
          (r2, w2, o3) = acceptRing mic2 False 0 w1;
          (v2, o4) = deliver_all s b (sent o3) v1;
          (w3, o5) = deliver_all s a (sent o4) w2;
          (v3, o6) = deliver_all s b (sent o5) v2;
          (w4, o7) = deliver_all s a (sent o6) w3
      in (answer_done b v3, answer_done a w4))"

definition idle :: "string \<Rightarrow> string \<Rightarrow> manager \<Rightarrow> bool" where
  "idle me k v \<longleftrightarrow> v_me v = me \<and> v_active v = None \<and> v_ring v = None \<and> v_dial v = None \<and> v_peers v = [] \<and> v_share v = None \<and> v_camera v = None \<and>
     v_muted v = False \<and> members_at v k = []"

definition dials :: "string \<Rightarrow> string \<Rightarrow> string \<Rightarrow> string \<Rightarrow> manager \<Rightarrow> bool" where
  \<comment> \<open>in the room, alone\<close>
  "dials s me room mic v \<longleftrightarrow> v_me v = me \<and> (\<exists>t. v_active v = Some \<lparr>cl_server = s, cl_channel = room, cl_stream = mic, cl_since = t\<rparr>) \<and> v_peers v = [] \<and>
     v_share v = None \<and> v_camera v = None \<and> v_muted v = False"

lemma call_out:
  assumes "idle a (room_key s room) v" and "a \<noteq> b" and "room = directRoom a b" and "directPeer a room = Some b"
  shows "\<exists>v1 o1. callUser s b mic False 0 v = (Inr (), v1, o1) \<and> sent o1 = [RingEnv b room ''invite'', VoiceEnv (plain_env room ''join'')] \<and>
    dials s a room mic v1 \<and> v_ring v1 = None"
  using assms by (auto simp: callUser_def join_call_def leave_def idle_def dials_def participants_def members_at_def meshFull_def MESH_LIMIT_def
      addMeter_def track_def Let_def)

lemma ring_in:
  assumes "idle b (room_key s room) w" and "a \<noteq> b"
  shows "\<exists>w1 out. deliver_all s a [RingEnv b room ''invite'', VoiceEnv (plain_env room ''join'')] w = (w1, out) \<and>
    v_ring w1 = Some \<lparr>dc_server = s, dc_room = room, dc_peer = a\<rparr> \<and> idle b [] (w1\<lparr>v_ring := None, v_presence := []\<rparr>) \<and> members_at w1 (room_key s room) = [a]"
  using assms by (auto simp: handleEnvelope_def on_ring_def on_voice_def on_here_def note_share_def note_camera_def note_mute_def meet_def
      inChannel_def idle_def track_def plain_env_def members_at_def set_add_def update_conv' Let_def split: option.splits)

lemma accept_in:
  assumes "v_ring w1 = Some \<lparr>dc_server = s, dc_room = room, dc_peer = a\<rparr>" and "idle b [] (w1\<lparr>v_ring := None, v_presence := []\<rparr>)"
    and "members_at w1 (room_key s room) = [a]"
  shows "\<exists>w2 out. acceptRing mic False 0 w1 = (Inr (), w2, out) \<and> sent out = [RingEnv a room ''accept'', VoiceEnv (plain_env room ''join'')] \<and>
    dials s b room mic w2 \<and> v_ring w2 = None \<and> v_dial w2 = None"
  using assms by (auto simp: acceptRing_def join_call_def leave_def idle_def dials_def participants_def members_at_def meshFull_def MESH_LIMIT_def
      addMeter_def track_def Let_def split: option.splits)

definition linked :: "string \<Rightarrow> string \<Rightarrow> string \<Rightarrow> string \<Rightarrow> string \<Rightarrow> peer \<Rightarrow> manager \<Rightarrow> bool" where
  \<comment> \<open>in the room with one connection, to the other\<close>
  "linked s me them room mic p v \<longleftrightarrow> v_me v = me \<and> (\<exists>t. v_active v = Some \<lparr>cl_server = s, cl_channel = room, cl_stream = mic, cl_since = t\<rparr>) \<and>
     v_peers v = [(them, p)] \<and> v_share v = None \<and> v_camera v = None \<and> v_muted v = False \<and> v_ring v = None \<and> v_dial v = None"

definition first_peer :: "string \<Rightarrow> string \<Rightarrow> string \<Rightarrow> peer" where
  "first_peer me them mic = (if me < them then (new_peer [mic])\<lparr>signalingState := HaveLocalOffer\<rparr> else new_peer [mic])"

lemma meets:
  assumes "dials s a room mic v" and "a \<noteq> b" and "v_ring v = None"
  shows "\<exists>v2 out. deliver_all s b [RingEnv a room ''accept'', VoiceEnv (plain_env room ''join'')] v = (v2, out) \<and>
    sent out = VoiceEnv (plain_env room ''here'') # (if a < b then [RtcEnv b room (Offer [mic])] else []) \<and> linked s a b room mic (first_peer a b mic) v2"
  using assms by (auto simp: handleEnvelope_def on_ring_def on_voice_def on_here_def note_share_def note_camera_def note_mute_def meet_def
      inChannel_def dials_def linked_def first_peer_def track_def plain_env_def ensurePeer_def createPeer_def hereEnvelope_def new_peer_def Let_def)

lemma here_in:
  assumes "dials s b room mic w" and "a \<noteq> b" and "v_ring w = None" and "v_dial w = None"
  shows "\<exists>w2 out. handleEnvelope s a (VoiceEnv (plain_env room ''here'')) w = (w2, out) \<and>
    sent out = (if b < a then [RtcEnv a room (Offer [mic])] else []) \<and> linked s b a room mic (first_peer b a mic) w2"
  using assms by (auto simp: handleEnvelope_def on_voice_def on_here_def note_share_def note_camera_def note_mute_def meet_def
      inChannel_def dials_def linked_def first_peer_def track_def plain_env_def ensurePeer_def createPeer_def new_peer_def Let_def)

lemma signal_in:
  assumes "linked s me them room mic p v" and "me \<noteq> them" and "take_signal me them m p = (p', ms)"
  shows "\<exists>v2 out. handleEnvelope s them (RtcEnv me room m) v = (v2, out) \<and> sent out = map (RtcEnv them room) ms \<and> linked s me them room mic p' v2"
proof -
  have "sent (map (\<lambda>m. SendEph s (RtcEnv them room m) Nobody) ms) = map (RtcEnv them room) ms" by (induction ms) auto
  with assms show ?thesis by (auto simp: handleEnvelope_def inChannel_def handleSignal_def linked_def Let_def)
qed

lemma answer_in:
  assumes "linked s me them room mic p v" and "applying p"
  shows "linked s me them room mic (answer_applied p) (answer_done them v)"
  using assms by (simp add: linked_def answer_done_def)

lemma not_applying: "linked s me them room mic p v \<Longrightarrow> \<not> applying p \<Longrightarrow> answer_done them v = v"
  by (simp add: linked_def answer_done_def)

lemma first_offer:
  assumes "x < y"
  shows "take_signal y x (Offer [m]) (first_peer y x n) = ((new_peer [n])\<lparr>remoteTracks := Some [m]\<rparr>, [Answer])"
    and "take_signal x y Answer (first_peer x y m) = ((first_peer x y m)\<lparr>applying := True\<rparr>, [])"
    and "answer_applied ((first_peer x y m)\<lparr>applying := True\<rparr>) = (new_peer [m])\<lparr>remoteTracks := Some []\<rparr>"
  using assms by (auto simp: first_peer_def new_peer_def peer_defs Let_def)

text \<open>
  C29: a direct call connects. Of two people who are in no call, one rings the other, who accepts. When every envelope this
  sends has been delivered, nobody is ringing any more, both are in the room that either derives from the two names, each
  has exactly one connection, to the other, and both connections are stable: the smaller name has offered and the larger
  has answered, knowing the microphone it was offered.
\<close>

theorem direct_call_connects:
  assumes "idle a (room_key s (directRoom a b)) v" and "idle b (room_key s (directRoom a b)) w" and "a \<noteq> b"
    and "CHR ''+'' \<notin> set a" and "CHR ''+'' \<notin> set b" and "ring_through s a b mic1 mic2 v w = (v', w')"
  shows "\<exists>p q. linked s a b (directRoom a b) mic1 p v' \<and> linked s b a (directRoom b a) mic2 q w' \<and>
    signalingState p = Stable \<and> signalingState q = Stable \<and> (if a < b then remoteTracks q = Some [mic1] else remoteTracks p = Some [mic2])"
proof -
  let ?r = "directRoom a b"
  have peer: "directPeer a ?r = Some b" using assms(3-5) by (rule directPeer_room)
  obtain v1 o1 where 1: "callUser s b mic1 False 0 v = (Inr (), v1, o1)" "sent o1 = [RingEnv b ?r ''invite'', VoiceEnv (plain_env ?r ''join'')]"
    "dials s a ?r mic1 v1" "v_ring v1 = None" using call_out [OF assms(1,3) refl peer] by blast
  obtain w1 o2 where 2: "deliver_all s a (sent o1) w = (w1, o2)" "v_ring w1 = Some \<lparr>dc_server = s, dc_room = ?r, dc_peer = a\<rparr>"
    "idle b [] (w1\<lparr>v_ring := None, v_presence := []\<rparr>)" "members_at w1 (room_key s ?r) = [a]" using ring_in [OF assms(2,3)] 1(2) by auto
  obtain w2 o3 where 3: "acceptRing mic2 False 0 w1 = (Inr (), w2, o3)" "sent o3 = [RingEnv a ?r ''accept'', VoiceEnv (plain_env ?r ''join'')]"
    "dials s b ?r mic2 w2" "v_ring w2 = None" "v_dial w2 = None" using accept_in [OF 2(2-4)] by blast
  obtain v2 o4 where 4: "deliver_all s b (sent o3) v1 = (v2, o4)"
    "sent o4 = VoiceEnv (plain_env ?r ''here'') # (if a < b then [RtcEnv b ?r (Offer [mic1])] else [])" "linked s a b ?r mic1 (first_peer a b mic1) v2"
    using meets [OF 1(3) assms(3) 1(4)] 3(2) by auto
  obtain w3 o5 where 5: "handleEnvelope s a (VoiceEnv (plain_env ?r ''here'')) w2 = (w3, o5)"
    "sent o5 = (if b < a then [RtcEnv a ?r (Offer [mic2])] else [])" "linked s b a ?r mic2 (first_peer b a mic2) w3"
    using here_in [OF 3(3) assms(3) 3(4,5)] by blast
  have ba: "directRoom b a = ?r" by (rule directRoom_commute)
  consider "a < b" | "b < a" using assms(3) by fastforce
  then show ?thesis
  proof cases
    case lt: 1
    obtain w4 o6 where 6: "handleEnvelope s a (RtcEnv b ?r (Offer [mic1])) w3 = (w4, o6)" "sent o6 = [RtcEnv a ?r Answer]"
      "linked s b a ?r mic2 ((new_peer [mic2])\<lparr>remoteTracks := Some [mic1]\<rparr>) w4"
      using signal_in [OF 5(3) _ first_offer(1) [OF lt, of mic1]] assms(3) by auto
    obtain v3 o7 where 7: "handleEnvelope s b (RtcEnv a ?r Answer) v2 = (v3, o7)" "sent o7 = []"
      "linked s a b ?r mic1 ((first_peer a b mic1)\<lparr>applying := True\<rparr>) v3" using signal_in [OF 4(3) _ first_offer(2) [OF lt]] assms(3) by auto
    have "ring_through s a b mic1 mic2 v w = (answer_done b v3, answer_done a w4)"
      using lt less_not_sym [OF lt] 1 2(1) 3 4 5 6 7 by (simp add: ring_through_def)
    with assms(6) have e: "v' = answer_done b v3" "w' = answer_done a w4" by auto
    have "linked s a b ?r mic1 ((new_peer [mic1])\<lparr>remoteTracks := Some []\<rparr>) v'" using answer_in [OF 7(3)] first_offer(3) [OF lt] e by simp
    moreover have "w' = w4" using not_applying [OF 6(3)] e by (simp add: new_peer_def)
    ultimately show ?thesis using 6(3) lt ba by (intro exI [of _ "(new_peer [mic1])\<lparr>remoteTracks := Some []\<rparr>"] exI [of _ "(new_peer [mic2])\<lparr>remoteTracks := Some [mic1]\<rparr>"]) (simp add: new_peer_def)
  next
    case gt: 2
    obtain v3 o6 where 6: "handleEnvelope s b (RtcEnv a ?r (Offer [mic2])) v2 = (v3, o6)" "sent o6 = [RtcEnv b ?r Answer]"
      "linked s a b ?r mic1 ((new_peer [mic1])\<lparr>remoteTracks := Some [mic2]\<rparr>) v3"
      using signal_in [OF 4(3) assms(3) first_offer(1) [OF gt, of mic2]] by auto
    obtain w4 o7 where 7: "handleEnvelope s a (RtcEnv b ?r Answer) w3 = (w4, o7)" "sent o7 = []"
      "linked s b a ?r mic2 ((first_peer b a mic2)\<lparr>applying := True\<rparr>) w4" using signal_in [OF 5(3) _ first_offer(2) [OF gt]] assms(3) by auto
    have "ring_through s a b mic1 mic2 v w = (answer_done b v3, answer_done a w4)"
      using gt less_not_sym [OF gt] 1 2(1) 3 4 5 6 7 by (simp add: ring_through_def)
    with assms(6) have e: "v' = answer_done b v3" "w' = answer_done a w4" by auto
    have "linked s b a ?r mic2 ((new_peer [mic2])\<lparr>remoteTracks := Some []\<rparr>) w'" using answer_in [OF 7(3)] first_offer(3) [OF gt] e by simp
    moreover have "v' = v3" using not_applying [OF 6(3)] e by (simp add: new_peer_def)
    ultimately show ?thesis using 6(3) gt ba by (intro exI [of _ "(new_peer [mic1])\<lparr>remoteTracks := Some [mic2]\<rparr>"] exI [of _ "(new_peer [mic2])\<lparr>remoteTracks := Some []\<rparr>"]) (simp add: new_peer_def less_not_sym)
  qed
qed

theorem direct_call_connects_witness:
  "\<exists>v w p. ring_through ''c'' ''ann'' ''bob'' ''m'' ''n'' (new_manager ''ann'') (new_manager ''bob'') = (v, w) \<and>
     linked ''c'' ''ann'' ''bob'' (directRoom ''ann'' ''bob'') ''m'' p v \<and> signalingState p = Stable"
proof -
  obtain v w where run: "ring_through ''c'' ''ann'' ''bob'' ''m'' ''n'' (new_manager ''ann'') (new_manager ''bob'') = (v, w)" by fastforce
  have i: "idle ''ann'' k (new_manager ''ann'')" "idle ''bob'' k (new_manager ''bob'')" for k by (simp_all add: idle_def new_manager_def members_at_def)
  from direct_call_connects [OF i _ _ _ run] run show ?thesis by auto
qed

text \<open>
  Who joins late may not see the screen. The one who shares has the larger name, so the joiner offers; the answer fills the
  sections of that offer, the track of the screen is in none of them, and no offer of the sharer's own is made or marked
  as needed.
\<close>

lemma late_joiner_misses_the_screen:
  assumes "v_active v = Some c" and "v_share v = Some sid" and "map_of (v_peers v) joiner = None" and "joiner < v_me v"
  shows "\<exists>p. handleSignal s joiner ch (Offer [mic]) v = (v\<lparr>v_peers := AList.update joiner p (v_peers v)\<rparr>, [SendEph s (RtcEnv joiner ch Answer) Nobody, Publish]) \<and>
    sid \<in> set (localTracks p) \<and> signalingState p = Stable \<and> building p = 0 \<and> \<not> renegotiateNeeded p"
  using assms by (auto simp: handleSignal_def createPeer_def new_peer_def peer_defs Let_def)

end
