(* ===== verification/Sdp.thy ===== *)
theory Sdp
  imports Search Invite
begin

text \<open>
  The rewriting of session descriptions, from \<open>client/src/lib/voice.js\<close>: \<open>mergeOpusParams\<close> and \<open>tuneOpus\<close>, with the
  configuration of a connection (\<open>hasTurn\<close>, \<open>peerConfig\<close>). Shown: the rewriting touches only the parameter lines of Opus
  payloads, and afterwards every Opus payload has a parameter line with all the settings the client asks for.
\<close>

section \<open>Parameters\<close>

definition OPUS_PARAMS :: "string dict" where
  "OPUS_PARAMS = [(''useinbandfec'', ''1''), (''usedtx'', ''1''), (''maxaveragebitrate'', ''32000''), (''stereo'', ''0''), (''sprop-stereo'', ''0'')]"

definition read_param :: "string \<Rightarrow> string option dict \<Rightarrow> string option dict" where
  \<comment> \<open>one round of the loop over \<open>existing.split(';')\<close>; a parameter without a value is kept as null\<close>
  "read_param kv params =
     (let t = trim kv
      in if t = [] then params
         else case index_from 0 t (CHR ''='') of
           None \<Rightarrow> dput params t None
         | Some eq \<Rightarrow> dput params (take eq t) (Some (drop (eq + 1) t)))"

definition show_param :: "string \<times> string option \<Rightarrow> string" where
  "show_param e = (case snd e of None \<Rightarrow> fst e | Some v \<Rightarrow> fst e @ ''='' @ v)"

definition mergeOpusParams :: "string \<Rightarrow> string" where
  "mergeOpusParams existing =
     (let params = fold read_param (split_on (CHR '';'') existing) [];
          merged = fold (\<lambda>(k, v) d. dput d k (Some v)) OPUS_PARAMS params
      in join '';'' (map show_param (entries merged)))"

section \<open>Lines\<close>

fun sdp_lines :: "string \<Rightarrow> string list" where
  \<comment> \<open>\<open>sdp.split(/\r?\n/)\<close>\<close>
  "sdp_lines [] = [[]]"
| "sdp_lines (c # s) =
     (if c = CHR 0x0A then [] # sdp_lines s
      else if c = CHR 0x0D \<and> s \<noteq> [] \<and> hd s = CHR 0x0A then [] # sdp_lines (tl s)
      else case sdp_lines s of [] \<Rightarrow> [[c]] | l # ls \<Rightarrow> (c # l) # ls)"

definition digits_after :: "string \<Rightarrow> string \<Rightarrow> (string \<times> string) option" where
  \<comment> \<open>the digits after a prefix, and what follows the space after them\<close>
  "digits_after pre l =
     (if \<not> prefix pre l then None
      else let r = drop (length pre) l; ds = takeWhile (is_digit 10) r; t = dropWhile (is_digit 10) r
           in if ds \<noteq> [] \<and> t \<noteq> [] \<and> hd t = CHR '' '' then Some (ds, tl t) else None)"

definition opus_pt :: "string \<Rightarrow> string option" where
  \<comment> \<open>\<open>/^a=rtpmap:(\d+) opus\/48000/i.exec(l)\<close>\<close>
  "opus_pt l = (case digits_after ''a=rtpmap:'' (toLowerCase l) of
     Some (pt, r) \<Rightarrow> if prefix ''opus/48000'' r then Some pt else None | None \<Rightarrow> None)"

definition fmtp :: "string \<Rightarrow> (string \<times> string) option" where
  \<comment> \<open>\<open>/^a=fmtp:(\d+) (.*)$/.exec(line)\<close>\<close>
  "fmtp l = (case digits_after ''a=fmtp:'' l of
     Some (pt, r) \<Rightarrow> if CHR 0x0A \<notin> set r \<and> CHR 0x0D \<notin> set r then Some (pt, r) else None | None \<Rightarrow> None)"

definition fmtp_line :: "string \<Rightarrow> string \<Rightarrow> string" where
  "fmtp_line pt params = ''a=fmtp:'' @ pt @ '' '' @ params"

definition tune_line :: "string list \<Rightarrow> string \<Rightarrow> string" where
  "tune_line pts l = (case fmtp l of Some (pt, r) \<Rightarrow> if pt \<in> set pts then fmtp_line pt (mergeOpusParams r) else l | None \<Rightarrow> l)"

definition is_rtpmap :: "string \<Rightarrow> string \<Rightarrow> bool" where
  \<comment> \<open>\<open>new RegExp(`^a=rtpmap:${pt} opus`, 'i').test(l)\<close>\<close>
  "is_rtpmap pt l \<longleftrightarrow> prefix (''a=rtpmap:'' @ pt @ '' opus'') (toLowerCase l)"

fun insert_after :: "('a \<Rightarrow> bool) \<Rightarrow> 'a \<Rightarrow> 'a list \<Rightarrow> 'a list" where
  \<comment> \<open>\<open>findIndex\<close> and, if found, \<open>splice\<close>\<close>
  "insert_after P x [] = []"
| "insert_after P x (y # ys) = (if P y then y # x # ys else y # insert_after P x ys)"

definition tune_lines :: "string list \<Rightarrow> string list" where
  "tune_lines ls =
     (let pts = present (map opus_pt ls); handled = map fst (filter (\<lambda>(pt, r). pt \<in> set pts) (present (map fmtp ls)));
          out = map (tune_line pts) ls
      in fold (\<lambda>pt out. if pt \<in> set handled then out else insert_after (is_rtpmap pt) (fmtp_line pt (mergeOpusParams [])) out) pts out)"

definition tuneOpus :: "string \<Rightarrow> string" where
  "tuneOpus sdp =
     (let ls = sdp_lines sdp
      in if sdp = [] \<or> \<not> has_text (toLowerCase sdp) ''opus/48000'' \<or> present (map opus_pt ls) = [] then sdp
         else join (if sublist [CHR 0x0D, CHR 0x0A] sdp then [CHR 0x0D, CHR 0x0A] else [CHR 0x0A]) (tune_lines ls))"

section \<open>Connection settings\<close>

definition is_turn :: "jsval \<Rightarrow> bool" where
  \<comment> \<open>\<open>typeof u === 'string' && /^turns?:/i.test(u.trim())\<close>\<close>
  "is_turn u = (case u of JStr s \<Rightarrow> prefix ''turn:'' (toLowerCase (trim s)) \<or> prefix ''turns:'' (toLowerCase (trim s)) | _ \<Rightarrow> False)"

definition hasTurn :: "jsval list \<Rightarrow> bool" where
  "hasTurn servers = list_ex (\<lambda>s. list_ex is_turn (case oprop s ''urls'' of JArr us \<Rightarrow> us | u \<Rightarrow> [u])) servers"

definition DEFAULT_ICE :: "jsval" where
  "DEFAULT_ICE = JArr [JObj [(''urls'', JStr ''stun:stun.l.google.com:19302'')]]"

definition peerConfig :: "jsval \<Rightarrow> bool \<Rightarrow> jsval" where
  "peerConfig iceServers relayOnly =
     JObj ((''iceServers'', coalesce iceServers DEFAULT_ICE) # (if relayOnly then [(''iceTransportPolicy'', JStr ''relay'')] else []))"

section \<open>What is rewritten\<close>

definition clean :: "char set \<Rightarrow> string option dict \<Rightarrow> bool" where
  \<comment> \<open>the characters a parameter list is written with\<close>
  "clean C d \<longleftrightarrow> (\<forall>(k, v) \<in> set d. set k \<subseteq> C \<and> (case v of None \<Rightarrow> True | Some s \<Rightarrow> set s \<subseteq> C))"

lemma clean_dput:
  assumes "clean C d" and "set k \<subseteq> C" and "case v of None \<Rightarrow> True | Some s \<Rightarrow> set s \<subseteq> C"
  shows "clean C (dput d k v)"
proof -
  have "e \<in> set d \<or> e = (k, v)" if "e \<in> set (dput d k v)" for e
    using that set_update [of k v d] by (auto simp: dput_def split: if_splits)
  with assms show ?thesis unfolding clean_def by (metis (mono_tags, lifting) case_prod_conv)
qed

lemma set_trim: "set (trim s) \<subseteq> set s"
  unfolding trim_def by (auto dest!: set_dropWhileD)

lemma clean_read_param:
  assumes "clean C d" and "set kv \<subseteq> C"
  shows "clean C (read_param kv d)"
proof -
  have t: "set (trim kv) \<subseteq> C" using set_trim assms(2) by blast
  then have "set (take n (trim kv)) \<subseteq> C" "set (drop n (trim kv)) \<subseteq> C" for n by (meson order.trans set_take_subset set_drop_subset)+
  with t assms(1) show ?thesis by (auto simp: read_param_def Let_def intro!: clean_dput split: option.split)
qed

lemma split_on_chars: "w \<in> set (split_on d s) \<Longrightarrow> set w \<subseteq> set s - {d}"
proof (induction s arbitrary: w)
  case (Cons c s)
  then show ?case by (cases "split_on d s") (fastforce split: if_splits)+
qed simp

lemma split_on_join:
  "xs \<noteq> [] \<Longrightarrow> \<forall>x \<in> set xs. d \<notin> set x \<Longrightarrow> split_on d (join [d] xs) = xs"
proof (induction xs)
  case (Cons x xs)
  have one: "d \<notin> set x \<Longrightarrow> split_on d x = [x]" by (induction x) auto
  have more: "d \<notin> set x \<Longrightarrow> split_on d (x @ d # t) = x # split_on d t" for t by (induction x) auto
  from Cons one more show ?case by (cases xs) auto
qed simp

definition merged_params :: "string \<Rightarrow> string option dict" where
  "merged_params existing = fold (\<lambda>(k, v) d. dput d k (Some v)) OPUS_PARAMS (fold read_param (split_on (CHR '';'') existing) [])"

lemma clean_fold:
  assumes "clean C d" and "\<And>x e. x \<in> set xs \<Longrightarrow> clean C e \<Longrightarrow> clean C (f x e)"
  shows "clean C (fold f xs d)"
  using assms by (induction xs arbitrary: d) auto

lemma merged_clean:
  assumes "set existing - {CHR '';''} \<subseteq> C" and "\<And>k v. (k, v) \<in> set OPUS_PARAMS \<Longrightarrow> set k \<subseteq> C \<and> set v \<subseteq> C"
  shows "clean C (merged_params existing)"
  unfolding merged_params_def
proof (intro clean_fold)
  show "clean C []" by (simp add: clean_def)
  show "clean C (read_param w e)" if "w \<in> set (split_on (CHR '';'') existing)" "clean C e" for w e
    using that split_on_chars [of w] assms(1) by (intro clean_read_param) auto
  show "clean C ((\<lambda>(k, v) d. dput d k (Some v)) x e)" if "x \<in> set OPUS_PARAMS" "clean C e" for x e
    using that assms(2) [of "fst x" "snd x"] by (simp add: clean_dput split_def)
qed

lemma knobs:
  assumes "(k, v) \<in> set OPUS_PARAMS"
  shows "(k, Some v) \<in> set (merged_params existing)"
proof -
  have "map_of (merged_params existing) k = Some (Some v)"
    using assms by (auto simp: merged_params_def OPUS_PARAMS_def map_of_dput)
  then show ?thesis by (rule map_of_SomeD)
qed

abbreviation plain_chars :: "char set" where
  "plain_chars \<equiv> - {CHR '';'', CHR 0x0A, CHR 0x0D}"

lemma merged_plain:
  assumes "CHR 0x0A \<notin> set existing" and "CHR 0x0D \<notin> set existing"
  shows "clean plain_chars (merged_params existing)"
  using assms by (intro merged_clean) (auto simp: OPUS_PARAMS_def)

lemma show_plain: "clean plain_chars d \<Longrightarrow> e \<in> set d \<Longrightarrow> set (show_param e) \<subseteq> plain_chars"
  by (fastforce simp: clean_def show_param_def split: option.splits)

lemma merge_eq: "mergeOpusParams r = join '';'' (map show_param (entries (merged_params r)))"
  by (simp add: mergeOpusParams_def merged_params_def Let_def)

lemma set_join: "set (join sep xs) \<subseteq> set sep \<union> \<Union> (set ` set xs)"
  by (induction sep xs rule: join.induct) auto

lemma merge_one_line:
  assumes "CHR 0x0A \<notin> set r" and "CHR 0x0D \<notin> set r"
  shows "CHR 0x0A \<notin> set (mergeOpusParams r) \<and> CHR 0x0D \<notin> set (mergeOpusParams r)"
proof -
  have "set (mergeOpusParams r) \<subseteq> {CHR '';''} \<union> plain_chars"
    using set_join [of "'';''" "map show_param (entries (merged_params r))"] show_plain [OF merged_plain [OF assms]] by (fastforce simp: merge_eq)
  then show ?thesis by auto
qed

lemma merge_knobs:
  assumes "CHR 0x0A \<notin> set r" and "CHR 0x0D \<notin> set r" and "(k, v) \<in> set OPUS_PARAMS"
  shows "k @ ''='' @ v \<in> set (split_on (CHR '';'') (mergeOpusParams r))"
proof -
  let ?ps = "map show_param (entries (merged_params r))"
  have k: "k @ ''='' @ v \<in> set ?ps" using knobs [OF assms(3)] by (force simp: show_param_def)
  have "\<forall>x \<in> set ?ps. CHR '';'' \<notin> set x" using show_plain [OF merged_plain [OF assms(1,2)]] by fastforce
  with k split_on_join [of ?ps "CHR '';''"] show ?thesis by (fastforce simp: merge_eq)
qed

section \<open>The lines\<close>

lemma digits_afterE:
  assumes "digits_after pre l = Some (pt, r)"
  obtains "l = pre @ pt @ '' '' @ r" "pt \<noteq> []" "list_all (is_digit 10) pt"
proof -
  let ?t = "drop (length pre) l"
  from assms have p: "prefix pre l" "pt = takeWhile (is_digit 10) ?t" "pt \<noteq> []" "dropWhile (is_digit 10) ?t \<noteq> []"
    "hd (dropWhile (is_digit 10) ?t) = CHR '' ''" "r = tl (dropWhile (is_digit 10) ?t)"
    by (auto simp: digits_after_def Let_def split: if_splits)
  have "?t = pt @ CHR '' '' # r" using p takeWhile_dropWhile_id [of "is_digit 10" ?t] by (metis list.collapse)
  moreover have "l = pre @ ?t" using p(1) by (auto simp: prefix_def)
  moreover have "list_all (is_digit 10) pt" using p(2) by (auto simp: list_all_iff dest: set_takeWhileD)
  ultimately show thesis using that p(3) by simp
qed

lemma digits_after_intro: "pt \<noteq> [] \<Longrightarrow> list_all (is_digit 10) pt \<Longrightarrow> digits_after pre (pre @ pt @ '' '' @ r) = Some (pt, r)"
proof -
  have "\<not> is_digit 10 (CHR '' '')" by (simp add: is_digit_def digit_chars_def)
  moreover assume "pt \<noteq> []" "list_all (is_digit 10) pt"
  ultimately show ?thesis by (auto simp: digits_after_def list_all_iff takeWhile_append2 dropWhile_append2)
qed

lemma fmtpE:
  assumes "fmtp l = Some (pt, r)"
  obtains "digits_after ''a=fmtp:'' l = Some (pt, r)" "CHR 0x0A \<notin> set r" "CHR 0x0D \<notin> set r"
  using assms by (auto simp: fmtp_def split: option.splits if_splits)

lemma fmtp_line: "pt \<noteq> [] \<Longrightarrow> list_all (is_digit 10) pt \<Longrightarrow> CHR 0x0A \<notin> set r \<Longrightarrow> CHR 0x0D \<notin> set r \<Longrightarrow> fmtp (fmtp_line pt r) = Some (pt, r)"
  using digits_after_intro [of pt "''a=fmtp:''" r] by (simp add: fmtp_def fmtp_line_def)

lemma opus_ptE:
  assumes "opus_pt l = Some pt"
  obtains "is_rtpmap pt l" "pt \<noteq> []" "list_all (is_digit 10) pt" "fmtp l = None"
proof -
  from assms obtain r where d: "digits_after ''a=rtpmap:'' (toLowerCase l) = Some (pt, r)" "prefix ''opus/48000'' r"
    by (auto simp: opus_pt_def split: option.splits if_splits)
  from digits_afterE [OF d(1)] have l: "toLowerCase l = ''a=rtpmap:'' @ pt @ '' '' @ r" "pt \<noteq> []" "list_all (is_digit 10) pt" by blast+
  have "is_rtpmap pt l" using l(1) d(2) by (auto simp: is_rtpmap_def prefix_def)
  moreover have "fmtp l = None"
  proof (rule ccontr)
    assume "fmtp l \<noteq> None"
    then obtain q s where "fmtp l = Some (q, s)" by auto
    then have "l = ''a=fmtp:'' @ q @ '' '' @ s" by (metis fmtpE digits_afterE)
    then have "toLowerCase l ! 2 = lower_char (CHR ''f'')" by (simp add: toLowerCase_def)
    then show False using l(1) by (simp add: lower_char_def)
  qed
  ultimately show thesis using that l by blast
qed

definition opus_params :: "string list \<Rightarrow> string \<Rightarrow> bool" where
  \<comment> \<open>a parameter line of one of the payloads\<close>
  "opus_params pts l = (case fmtp l of Some (pt, r) \<Rightarrow> pt \<in> set pts | None \<Rightarrow> False)"

lemma tune_line_params:
  assumes "fmtp l = Some (pt, r)" and "pt \<in> set pts"
  shows "fmtp (tune_line pts l) = Some (pt, mergeOpusParams r)"
proof -
  from assms(1) have f: "digits_after ''a=fmtp:'' l = Some (pt, r)" "CHR 0x0A \<notin> set r" "CHR 0x0D \<notin> set r" by (metis fmtpE)+
  then have "pt \<noteq> []" "list_all (is_digit 10) pt" by (metis digits_afterE)+
  with fmtp_line merge_one_line [OF f(2,3)] assms show ?thesis by (simp add: tune_line_def)
qed

lemma insert_after_filter: "\<not> Q x \<Longrightarrow> filter Q (insert_after P x ys) = filter Q ys"
  by (induction ys) auto

lemma set_insert_after: "set ys \<subseteq> set (insert_after P x ys)" "\<exists>y \<in> set ys. P y \<Longrightarrow> x \<in> set (insert_after P x ys)"
  by (induction ys) auto

definition add_params :: "string list \<Rightarrow> string \<Rightarrow> string list \<Rightarrow> string list" where
  "add_params handled pt out = (if pt \<in> set handled then out else insert_after (is_rtpmap pt) (fmtp_line pt (mergeOpusParams [])) out)"

lemma tune_lines_eq: "tune_lines ls = (let pts = present (map opus_pt ls); handled = map fst (filter (\<lambda>(pt, r). pt \<in> set pts) (present (map fmtp ls)))
   in fold (add_params handled) pts (map (tune_line pts) ls))"
  by (simp add: tune_lines_def add_params_def [abs_def] Let_def)

lemma empty_line: "pt \<noteq> [] \<Longrightarrow> list_all (is_digit 10) pt \<Longrightarrow> fmtp (fmtp_line pt (mergeOpusParams [])) = Some (pt, mergeOpusParams [])"
  using fmtp_line merge_one_line [of "[]"] by simp

lemma add_params_keeps:
  assumes "\<forall>pt \<in> set qs. pt \<in> set pts \<and> pt \<noteq> [] \<and> list_all (is_digit 10) pt"
  shows "filter (\<lambda>l. \<not> opus_params pts l) (fold (add_params handled) qs out) = filter (\<lambda>l. \<not> opus_params pts l) out"
    and "set out \<subseteq> set (fold (add_params handled) qs out)"
    and "\<lbrakk>pt \<in> set qs; pt \<notin> set handled; \<exists>y \<in> set out. is_rtpmap pt y\<rbrakk> \<Longrightarrow> fmtp_line pt (mergeOpusParams []) \<in> set (fold (add_params handled) qs out)"
proof -
  have keep: "set out \<subseteq> set (add_params handled q out)" for q out by (simp add: add_params_def set_insert_after(1))
  then have keeps: "set out \<subseteq> set (fold (add_params handled) qs out)" for qs out
    by (induction qs arbitrary: out) (auto, blast)
  show "set out \<subseteq> set (fold (add_params handled) qs out)" by (rule keeps)
  show "filter (\<lambda>l. \<not> opus_params pts l) (fold (add_params handled) qs out) = filter (\<lambda>l. \<not> opus_params pts l) out"
    using assms by (induction qs arbitrary: out) (auto simp: add_params_def insert_after_filter opus_params_def empty_line)
  show "fmtp_line pt (mergeOpusParams []) \<in> set (fold (add_params handled) qs out)"
    if "pt \<in> set qs" "pt \<notin> set handled" "\<exists>y \<in> set out. is_rtpmap pt y"
    using that
  proof (induction qs arbitrary: out)
    case (Cons q qs)
    show ?case
    proof (cases "q = pt")
      case True
      with Cons.prems have "fmtp_line pt (mergeOpusParams []) \<in> set (add_params handled q out)"
        by (simp add: add_params_def set_insert_after(2))
      with keeps [of "add_params handled q out" qs] show ?thesis by auto
    next
      case False
      with Cons.prems keep [of out q] show ?thesis by (auto intro!: Cons.IH)
    qed
  qed simp
qed

text \<open>
  Rewriting a session description touches nothing but the parameters of Opus: every other line is kept, in order; and
  afterwards every Opus payload has a parameter line that carries each of the five settings, whatever it said before.
\<close>

theorem opus_settings_are_asked_for:
  assumes "pts = present (map opus_pt ls)"
  shows "filter (\<lambda>l. \<not> opus_params pts l) (tune_lines ls) = filter (\<lambda>l. \<not> opus_params pts l) ls \<and>
    (\<forall>pt \<in> set pts. \<exists>l \<in> set (tune_lines ls). \<exists>r. fmtp l = Some (pt, r) \<and>
       (\<forall>(k, v) \<in> set OPUS_PARAMS. k @ ''='' @ v \<in> set (split_on (CHR '';'') r)))"
proof -
  let ?handled = "map fst (filter (\<lambda>(pt, r). pt \<in> set pts) (present (map fmtp ls)))" and ?out = "map (tune_line pts) ls"
  have out: "tune_lines ls = fold (add_params ?handled) pts ?out" by (simp add: tune_lines_eq assms Let_def)
  have digits: "\<forall>pt \<in> set pts. pt \<in> set pts \<and> pt \<noteq> [] \<and> list_all (is_digit 10) pt" 
  proof
    fix pt assume "pt \<in> set pts"
    then obtain l where "opus_pt l = Some pt" using assms by fastforce
    then show "pt \<in> set pts \<and> pt \<noteq> [] \<and> list_all (is_digit 10) pt" using \<open>pt \<in> set pts\<close> by (metis opus_ptE)
  qed
  have same: "opus_params pts (tune_line pts l) = opus_params pts l \<and> (\<not> opus_params pts l \<longrightarrow> tune_line pts l = l)" for l
    using tune_line_params [of l _ _ pts] by (auto simp: opus_params_def tune_line_def split: option.splits if_splits)
  have "filter (\<lambda>l. \<not> opus_params pts l) ?out = filter (\<lambda>l. \<not> opus_params pts l) ls"
    by (induction ls) (simp_all add: same)
  moreover have "\<exists>l \<in> set (tune_lines ls). \<exists>r. fmtp l = Some (pt, r) \<and> (\<forall>(k, v) \<in> set OPUS_PARAMS. k @ ''='' @ v \<in> set (split_on (CHR '';'') r))"
    if pt: "pt \<in> set pts" for pt
  proof (cases "pt \<in> set ?handled")
    case True
    then obtain l r where l: "l \<in> set ls" "fmtp l = Some (pt, r)" by (auto dest: sym)
    then have "tune_line pts l \<in> set (tune_lines ls)" using add_params_keeps(2) [OF digits, of ?out ?handled] out by auto
    moreover have "CHR 0x0A \<notin> set r" "CHR 0x0D \<notin> set r" using l(2) by (metis fmtpE)+
    ultimately show ?thesis using tune_line_params [OF l(2) pt] merge_knobs by blast
  next
    case False
    from pt assms obtain l where l: "l \<in> set ls" "opus_pt l = Some pt" by (auto dest: sym)
    then have "is_rtpmap pt l" "fmtp l = None" by (metis opus_ptE)+
    then have "tune_line pts l = l" "is_rtpmap pt l" by (simp_all add: tune_line_def)
    then have "\<exists>y \<in> set ?out. is_rtpmap pt y" using l(1) by (metis image_eqI set_map)
    from add_params_keeps(3) [OF digits pt False this] out have "fmtp_line pt (mergeOpusParams []) \<in> set (tune_lines ls)" by simp
    moreover have "fmtp (fmtp_line pt (mergeOpusParams [])) = Some (pt, mergeOpusParams [])" using digits pt by (simp add: empty_line)
    ultimately show ?thesis using merge_knobs [of "[]"] by fastforce
  qed
  ultimately show ?thesis using add_params_keeps(1) [OF digits, of ?handled ?out] out by simp
qed

theorem opus_settings_are_asked_for_witness:
  "\<exists>l \<in> set (tune_lines [''m=audio 9 RTP/SAVPF 111'', ''a=rtpmap:111 opus/48000/2'']). \<exists>r. fmtp l = Some (''111'', r) \<and>
     ''usedtx=1'' \<in> set (split_on (CHR '';'') r)"
proof -
  let ?ls = "[''m=audio 9 RTP/SAVPF 111'', ''a=rtpmap:111 opus/48000/2'']"
  have "present (map opus_pt ?ls) = [''111'']" by code_simp
  then have "[''111''] = present (map opus_pt ?ls)" by simp
  from opus_settings_are_asked_for [OF this] have "\<exists>l \<in> set (tune_lines ?ls). \<exists>r. fmtp l = Some (''111'', r) \<and>
       (\<forall>(k, v) \<in> set OPUS_PARAMS. k @ ''='' @ v \<in> set (split_on (CHR '';'') r))" by simp
  moreover have "(''usedtx'', ''1'') \<in> set OPUS_PARAMS" by (simp add: OPUS_PARAMS_def)
  ultimately show ?thesis by fastforce
qed

end
