(* ===== verification/Conversation.thy ===== *)
theory Conversation
  imports Paging Membership
begin

text \<open>
  Saying something in a room, from \<open>client/src/lib/controller.js\<close>: every line, edit, deletion and reaction is written twice,
  as a sealed entry of the channel's log (\<open>appendLog\<close>) and as an envelope to whoever is online (\<open>sendContent\<close>); and the
  receiving end, the interpreter of what the reducer decided (\<open>runEffects\<close>) and of what is fanned out without a log
  (\<open>onEphemeral\<close>). Attachments are uploaded as ciphertext beside the log.
  The relay, the worker and the clock are the arguments in \<open>line_env\<close>; a request is given with the answer it gets.
  An exception is \<open>None\<close>, and what it leaves half done is not modelled.
\<close>

section \<open>State\<close>

datatype out =
    Act act
  | Toast string
  | NewLine out_message                  \<comment> \<open>\<open>dispatch({ type: 'newMessage', .. })\<close>\<close>
  | SystemLine string string string      \<comment> \<open>the same for a notice: circle, channel, words\<close>
  | SyncRoles string                     \<comment> \<open>\<open>refreshRoles\<close>, not awaited\<close>
  | CatchUp string                       \<comment> \<open>\<open>catchUpLogs\<close>, not awaited\<close>
  | ScheduleBackup
  | CheckProposal string jsval           \<comment> \<open>\<open>admitIfCarried\<close>, not awaited\<close>
  | ForVoice string string jsval         \<comment> \<open>\<open>voice.handleEnvelope\<close>: circle, sender, content\<close>
  | Fanout string jsval "string list" "string option"   \<comment> \<open>an \<open>ephemeral\<close> request: circle, content, whom to wake, as what\<close>
  | Upload string bytes

record talk =
  tk_me :: string
  tk_circles :: "(string \<times> circle) list"
  tk_logs :: session
  livePresence :: "(string \<times> claim dict) list"
  liveWants :: "(string \<times> claim dict) list"
  liveTyping :: "(string \<times> (string \<times> rat) dict) list"
  typingSentAt :: "(string \<times> rat) list"

record line_env =
  le_enc :: cipher
  le_iv :: bytes
  le_sign :: "bytes \<Rightarrow> bytes throws"
  le_append :: "jsval \<Rightarrow> nat throws"      \<comment> \<open>the answer to \<open>history_append\<close>\<close>
  le_send :: "jsval \<Rightarrow> nat throws"        \<comment> \<open>encrypting and sending an envelope\<close>
  le_now :: rat
  le_hid :: bytes
  le_key :: bytes

definition put_circle :: "string \<Rightarrow> circle \<Rightarrow> talk \<Rightarrow> talk" where
  \<comment> \<open>the record is changed in place\<close>
  "put_circle server r k = k\<lparr>tk_circles := AList.update server r (tk_circles k)\<rparr>"

section \<open>What is said, in its two forms\<close>

datatype utterance =
    Chat string "reply option"
  | Card game_ref
  | Attachment jsval
  | Edit jsnum string
  | Delete jsnum
  | Reaction string jsnum string bool    \<comment> \<open>whose line, its timestamp, the emoji, whether it is put on\<close>

definition reply_json :: "reply \<Rightarrow> jsval" where
  "reply_json q = JObj [(''sender'', JStr (rep_sender q)), (''ts'', JNum (Fin (rep_ts q))), (''text'', JStr (rep_text q))]"

definition reply_field :: "reply option \<Rightarrow> jsval dict" where
  \<comment> \<open>\<open>...(quote ? { reply: quote } : {})\<close>\<close>
  "reply_field q = (case q of None \<Rightarrow> [] | Some q \<Rightarrow> [(''reply'', reply_json q)])"

definition ref_json :: "game_ref \<Rightarrow> jsval" where
  "ref_json g = JObj [(''id'', JStr (ref_id g)), (''name'', JStr (ref_name g)), (''kind'', kind_json (ref_kind g))]"

definition to_field :: "jsnum \<Rightarrow> jsval" where
  "to_field t = JObj [(''ts'', JNum t)]"

definition react_to_field :: "string \<Rightarrow> jsnum \<Rightarrow> jsval" where
  "react_to_field who t = JObj [(''sender'', JStr who), (''ts'', JNum t)]"

definition op_json :: "bool \<Rightarrow> jsval" where
  "op_json adding = JStr (if adding then ''add'' else ''del'')"

fun logged :: "utterance \<Rightarrow> rat \<Rightarrow> jsval dict" where
  \<comment> \<open>the entry given to \<open>appendLog\<close>\<close>
  "logged (Chat txt q) t = [(''k'', JStr ''chat''), (''ts'', JNum (Fin t)), (''text'', JStr txt)] @ reply_field q"
| "logged (Card g) t = [(''k'', JStr ''game''), (''ts'', JNum (Fin t)), (''game'', ref_json g)]"
| "logged (Attachment f) t = [(''k'', JStr ''file''), (''ts'', JNum (Fin t)), (''file'', f)]"
| "logged (Edit to txt) t = [(''k'', JStr ''edit''), (''ts'', JNum (Fin t)), (''to'', to_field to), (''text'', JStr txt)]"
| "logged (Delete to) t = [(''k'', JStr ''del''), (''ts'', JNum (Fin t)), (''to'', to_field to)]"
| "logged (Reaction who to emo adding) t =
     [(''k'', JStr ''react''), (''ts'', JNum (Fin t)), (''to'', react_to_field who to), (''emo'', JStr emo), (''op'', op_json adding)]"

fun spoken :: "string \<Rightarrow> utterance \<Rightarrow> rat \<Rightarrow> jsval dict" where
  \<comment> \<open>the envelope given to \<open>sendContent\<close>\<close>
  "spoken ch (Chat txt q) t =
     [(''k'', JStr ''chat''), (''ch'', JStr ch), (''text'', JStr txt), (''ts'', JNum (Fin t))] @ reply_field q"
| "spoken ch (Card g) t = [(''k'', JStr ''game''), (''ch'', JStr ch), (''game'', ref_json g), (''ts'', JNum (Fin t))]"
| "spoken ch (Attachment f) t = [(''k'', JStr ''file''), (''ch'', JStr ch), (''file'', f), (''ts'', JNum (Fin t))]"
| "spoken ch (Edit to txt) t =
     [(''k'', JStr ''edit''), (''ch'', JStr ch), (''to'', to_field to), (''text'', JStr txt), (''ts'', JNum (Fin t))]"
| "spoken ch (Delete to) t = [(''k'', JStr ''del''), (''ch'', JStr ch), (''to'', to_field to), (''ts'', JNum (Fin t))]"
| "spoken ch (Reaction who to emo adding) t =
     [(''k'', JStr ''react''), (''ch'', JStr ch), (''to'', react_to_field who to), (''emo'', JStr emo), (''op'', op_json adding),
      (''ts'', JNum (Fin t))]"

section \<open>Writing to the log and to the group\<close>

definition js_plus :: "rat \<Rightarrow> jsval \<Rightarrow> jsval throws" where
  \<comment> \<open>\<open>x + v\<close> for a number \<open>x\<close>: text and objects are appended\<close>
  "js_plus x v =
     (case v of
        JStr s \<Rightarrow> Some (JStr (rat_str x @ s))
      | JArr _ \<Rightarrow> do { s \<leftarrow> to_str v; Some (JStr (rat_str x @ s)) }
      | JObj _ \<Rightarrow> do { s \<leftarrow> to_str v; Some (JStr (rat_str x @ s)) }
      | _ \<Rightarrow> do { n \<leftarrow> to_num v; Some (JNum (case n of Fin y \<Rightarrow> Fin (x + y) | _ \<Rightarrow> n)) })"

definition sendContent :: "line_env \<Rightarrow> jsval \<Rightarrow> circle \<Rightarrow> (circle \<times> out list) throws" where
  "sendContent e content r = do { seq \<leftarrow> le_send e content; Some (bump_seq seq r, [Act (Send content)]) }"

definition try_send :: "line_env \<Rightarrow> jsval \<Rightarrow> circle \<Rightarrow> circle \<times> out list" where
  \<comment> \<open>\<open>sendContent(..).catch(warn)\<close>\<close>
  "try_send e content r = (case sendContent e content r of None \<Rightarrow> (r, []) | Some res \<Rightarrow> res)"

datatype appended = NoCircle | NotSaved | Saved nat

definition append_request :: "line_env \<Rightarrow> string \<Rightarrow> jsval \<Rightarrow> jsval dict \<Rightarrow> rat \<Rightarrow> jsval throws" where
  \<comment> \<open>what stands in the \<open>try\<close> of \<open>appendLog\<close>, up to the answer\<close>
  "append_request e server meta full t =
     do { hk \<leftarrow> to_str (oprop meta ''hkey'');
          h \<leftarrow> to_str (oprop meta ''hid'');
          payload \<leftarrow> sealLogEntry (le_enc e) (le_iv e) hk server h full (le_sign e);
          let secs = of_int \<lfloor>t / 1000\<rfloor>;
          expires \<leftarrow> (if truthy (oprop meta ''retention'') then js_plus secs (oprop meta ''retention'') else Some JNull);
          Some (JObj [(''t'', JStr ''history_append''), (''group'', JStr server), (''hid'', oprop meta ''hid''),
            (''ts'', JNum (Fin secs)), (''expires_at'', expires), (''payload'', JStr payload)]) }"

definition announce_key :: "line_env \<Rightarrow> string \<Rightarrow> circle \<Rightarrow> jsval option \<Rightarrow> circle \<times> out list" where
  \<comment> \<open>a key that was just minted is told to the roster before anything is sealed under it\<close>
  "announce_key e ch r minted =
     (case minted of
        None \<Rightarrow> (r, [])
      | Some meta \<Rightarrow> (case try_send e (chanset_content ch meta) r of (r', os) \<Rightarrow> (r', os @ [Act PersistCircle])))"

definition appendLog :: "line_env \<Rightarrow> string \<Rightarrow> string \<Rightarrow> jsval dict \<Rightarrow> rat \<Rightarrow> talk \<Rightarrow> (appended \<times> talk \<times> out list) throws" where
  \<comment> \<open>\<open>t\<close> is \<open>entry.ts\<close>; the words of the toast carry the error, which is left out\<close>
  "appendLog e server ch entry t k =
     (case map_of (tk_circles k) server of
        None \<Rightarrow> Some (NoCircle, k, [])
      | Some r \<Rightarrow> do {
          (r1, minted) \<leftarrow> ensureChannelKeys r ch (le_hid e) (le_key e);
          meta \<leftarrow> chan_meta_at r1 (JStr ch);
          let (r2, o1) = announce_key e ch r1 minted;
          let full = (''sender'', JStr (tk_me k)) # entry;
          let (l, s1) = channelLog server ch (tk_logs k);
          (l', n) \<leftarrow> addLocalEntry (ol_log l) (JObj full) \<lparr>pl_server = server, pl_channel = ch\<rparr>;
          let k1 = (put_circle server r2 k)\<lparr>tk_logs := put_log server ch l' s1\<rparr>;
          let o2 = o1 @ [Act ShowMessages];
          Some (case append_request e server meta full t of
                  None \<Rightarrow> (NotSaved, k1, o2 @ [Toast ''a message could not be saved to the circle''])
                | Some rq \<Rightarrow>
                    (case le_append e rq of
                       None \<Rightarrow> (NotSaved, k1, o2 @ [Act (Request rq), Toast ''a message could not be saved to the circle''])
                     | Some seq \<Rightarrow> (Saved seq, k1, o2 @ [Act (Request rq)]))) })"

definition send_to :: "line_env \<Rightarrow> string \<Rightarrow> jsval \<Rightarrow> talk \<Rightarrow> (talk \<times> out list) throws" where
  \<comment> \<open>\<open>sendContent\<close> with the circle looked up; without one the worker knows no such group\<close>
  "send_to e server content k =
     (case map_of (tk_circles k) server of
        None \<Rightarrow> None
      | Some r \<Rightarrow> map_option (\<lambda>(r', os). (put_circle server r' k, os)) (sendContent e content r))"

definition markLocalState :: "string \<Rightarrow> string \<Rightarrow> rat \<Rightarrow> bool \<Rightarrow> talk \<Rightarrow> talk \<times> out list" where
  "markLocalState server ch t bad k =
     (case map_of (tk_logs k) (logKey server ch) of
        None \<Rightarrow> (k, [])
      | Some l \<Rightarrow>
          (let i = messageId (tk_me k) (Fin t)
           in case map_of (base (ol_log l)) i of
                None \<Rightarrow> (k, [])
              | Some m \<Rightarrow>
                  (k\<lparr>tk_logs := put_log server ch ((ol_log l)\<lparr>base := AList.update i (m\<lparr>msg_failed := bad\<rparr>) (base (ol_log l))\<rparr>) (tk_logs k)\<rparr>,
                   [Act ShowMessages])))"

definition NOT_WRITTEN :: string where "NOT_WRITTEN = ''the message could not be written to the circle''"

definition deliverChat :: "line_env \<Rightarrow> string \<Rightarrow> string \<Rightarrow> string \<Rightarrow> rat \<Rightarrow> jsval \<Rightarrow> talk \<Rightarrow> ((string + unit) \<times> talk \<times> out list) throws" where
  "deliverChat e server ch txt t reply k =
     do { q \<leftarrow> normalizeReply reply;
          (seq, k1, o1) \<leftarrow> appendLog e server ch (logged (Chat txt q) t) t k;
          let (k2, o2) = markLocalState server ch t (seq = NotSaved) k1;
          Some (if seq = NotSaved then (Inl NOT_WRITTEN, k2, o1 @ o2)
                else case send_to e server (JObj (spoken ch (Chat txt q) t)) k2 of
                       None \<Rightarrow> (Inr (), k2, o1 @ o2)
                     | Some (k3, o3) \<Rightarrow> (Inr (), k3, o1 @ o2 @ o3)) }"

definition sendChat :: "line_env \<Rightarrow> string \<Rightarrow> string \<Rightarrow> string \<Rightarrow> jsval \<Rightarrow> talk \<Rightarrow> ((string + unit) \<times> talk \<times> out list) throws" where
  \<comment> \<open>the quote is normalised here and once more in \<open>deliverChat\<close>\<close>
  "sendChat e server ch txt reply k =
     do { q \<leftarrow> normalizeReply reply;
          deliverChat e server ch txt (le_now e) (case q of None \<Rightarrow> JNull | Some q \<Rightarrow> reply_json q) k }"

definition retryMessage :: "line_env \<Rightarrow> string \<Rightarrow> string \<Rightarrow> string \<Rightarrow> rat \<Rightarrow> reply option \<Rightarrow> talk \<Rightarrow> ((string + unit) \<times> talk \<times> out list) throws" where
  \<comment> \<open>\<open>message.text\<close>, \<open>message.ts\<close> and \<open>message.reply\<close> of the line that failed\<close>
  "retryMessage e server ch txt t q k =
     (let (k1, o1) = markLocalState server ch t False k
      in do { (res, k2, o2) \<leftarrow> deliverChat e server ch txt t (case q of None \<Rightarrow> JUndef | Some q \<Rightarrow> reply_json q) k1;
              Some (res, k2, o1 @ o2) })"

definition post :: "line_env \<Rightarrow> string \<Rightarrow> string \<Rightarrow> utterance \<Rightarrow> talk \<Rightarrow> (talk \<times> out list) throws" where
  \<comment> \<open>\<open>appendLog\<close> and then \<open>sendContent\<close>, whatever became of the first\<close>
  "post e server ch u k =
     do { (seq, k1, o1) \<leftarrow> appendLog e server ch (logged u (le_now e)) (le_now e) k;
          (k2, o2) \<leftarrow> send_to e server (JObj (spoken ch u (le_now e))) k1;
          Some (k2, o1 @ o2) }"

definition sendGameCard :: "line_env \<Rightarrow> string \<Rightarrow> string \<Rightarrow> jsval \<Rightarrow> talk \<Rightarrow> (talk \<times> out list) throws" where
  "sendGameCard e server ch game k =
     do { g \<leftarrow> normalizeGameRef game;
          case g of None \<Rightarrow> Some (k, []) | Some g \<Rightarrow> post e server ch (Card g) k }"

definition react_to :: "line_env \<Rightarrow> string \<Rightarrow> string \<Rightarrow> string \<Rightarrow> jsnum \<Rightarrow> string \<Rightarrow> talk \<Rightarrow> (talk \<times> out list) throws" where
  \<comment> \<open>an emoji that names an inherited method is found on a line that has reactions, and has no \<open>includes\<close>\<close>
  "react_to e server ch who t emo k =
     (case map_of (tk_circles k) server of
        None \<Rightarrow> Some (k, [])
      | Some r \<Rightarrow>
          (let (l, s1) = channelLog server ch (tk_logs k)
           in do { ms \<leftarrow> renderLog (ol_log l);
                   let rs = (case find (\<lambda>m. msg_sender m = who \<and> msg_ts m = t) ms of None \<Rightarrow> [] | Some m \<Rightarrow> msg_reacts m);
                   mine \<leftarrow> (case dget rs emo of Absent \<Rightarrow> Some True | Own ws \<Rightarrow> Some (JStr (tk_me k) \<notin> set ws)
                             | Proto \<Rightarrow> if rs = [] then Some True else None);
                   post e server ch (Reaction who t emo mine) (k\<lparr>tk_logs := s1\<rparr>) }))"

definition editMessage :: "line_env \<Rightarrow> string \<Rightarrow> string \<Rightarrow> message \<Rightarrow> jsval \<Rightarrow> talk \<Rightarrow> (talk \<times> out list) throws" where
  "editMessage e server ch m txt k =
     (if map_of (tk_circles k) server = None \<or> msg_sender m \<noteq> tk_me k then Some (k, [])
      else do {
        s \<leftarrow> to_str (coalesce txt (JStr []));
        let new = trim s;
        if new = [] \<or> msg_body m = Some (TextBody (JStr new)) then Some (k, [])
        else post e server ch (Edit (msg_ts m) new) k })"

definition redact_request :: "string \<Rightarrow> jsval \<Rightarrow> nat \<Rightarrow> jsval" where
  "redact_request server hid seq =
     JObj [(''t'', JStr ''history_redact''), (''group'', JStr server), (''hid'', hid), (''seq'', JNum (Fin (of_nat seq)))]"

definition deleteMessage :: "line_env \<Rightarrow> string \<Rightarrow> string \<Rightarrow> message \<Rightarrow> talk \<Rightarrow> (talk \<times> out list) throws" where
  \<comment> \<open>a redaction that fails is only reported\<close>
  "deleteMessage e server ch m k =
     (if map_of (tk_circles k) server = None \<or> msg_sender m \<noteq> tk_me k then Some (k, [])
      else do {
        (seq, k1, o1) \<leftarrow> appendLog e server ch (logged (Delete (msg_ts m)) (le_now e)) (le_now e) k;
        meta \<leftarrow> (case map_of (tk_circles k1) server of None \<Rightarrow> Some JUndef | Some r \<Rightarrow> chan_meta_at r (JStr ch));
        let o2 = (case msg_seq m of
            Some q \<Rightarrow> if truthy (oprop meta ''hid'') then [Act (Request (redact_request server (oprop meta ''hid'') q))] else []
          | None \<Rightarrow> []);
        (k2, o3) \<leftarrow> send_to e server (JObj (spoken ch (Delete (msg_ts m)) (le_now e))) k1;
        Some (k2, o1 @ o2 @ o3) })"

section \<open>Attachments\<close>

definition FILE_MAX :: nat where "FILE_MAX = 20 * 1024 * 1024"

record picked_file =
  pf_name :: string
  pf_type :: string
  pf_data :: bytes

definition file_json :: "picked_file \<Rightarrow> string \<Rightarrow> bytes \<Rightarrow> jsval" where
  "file_json f blobId key =
     JObj [(''name'', JStr (pf_name f)), (''size'', JNum (Fin (of_nat (length (pf_data f))))),
       (''mime'', JStr (if pf_type f = [] then ''application/octet-stream'' else pf_type f)),
       (''blob'', JStr blobId), (''key'', JStr (b64_enc key))]"

definition sendFile ::
  "line_env \<Rightarrow> bytes \<Rightarrow> bytes \<Rightarrow> (string \<Rightarrow> bytes \<Rightarrow> bool) \<Rightarrow> string \<Rightarrow> string \<Rightarrow> picked_file \<Rightarrow> talk \<Rightarrow> (talk \<times> out list) throws" where
  \<comment> \<open>\<open>key\<close> and \<open>ident\<close> are the random draws; \<open>stored\<close> tells whether the relay gives a ticket and takes the upload\<close>
  "sendFile e key ident stored server ch f k =
     (if FILE_MAX < length (pf_data f) then None
      else do {
        blob \<leftarrow> encryptBlob (le_enc e) (le_iv e) key (pf_data f);
        let blobId = b64url_enc ident;
        if \<not> stored blobId blob then None
        else do {
          (k', os) \<leftarrow> post e server ch (Attachment (file_json f blobId key)) k;
          Some (k', [Act (Request (JObj [(''t'', JStr ''blob_ticket''), (''id'', JStr blobId)])), Upload blobId blob] @ os) } })"

definition fetchFile :: "cipher \<Rightarrow> (string \<Rightarrow> bytes option) \<Rightarrow> jsval \<Rightarrow> bytes throws" where
  \<comment> \<open>\<open>blobs\<close> is what the relay answers under \<open>/blobs/\<close>\<close>
  "fetchFile dec blobs f =
     do { i \<leftarrow> to_str (oprop f ''blob'');
          blob \<leftarrow> blobs i;
          k \<leftarrow> to_str (oprop f ''key'');
          key \<leftarrow> b64_dec k;
          decryptBlob dec key blob }"

section \<open>Who is here, playing or typing\<close>

definition TYPING_TTL_MS :: rat where "TYPING_TTL_MS = 6000"
definition TYPING_HEARTBEAT_MS :: rat where "TYPING_HEARTBEAT_MS = 3000"

definition freshTyping :: "(string \<times> rat) option \<Rightarrow> rat \<Rightarrow> bool" where
  "freshTyping entry now = (case entry of None \<Rightarrow> False | Some (ch, t) \<Rightarrow> now - t < TYPING_TTL_MS)"

definition of_circle :: "string \<Rightarrow> (string \<times> 'v dict) list \<Rightarrow> 'v dict" where
  \<comment> \<open>\<open>this.live..?.get(server) ?? {}\<close>\<close>
  "of_circle server m = (case map_of m server of None \<Rightarrow> [] | Some d \<Rightarrow> d)"

definition setLivePresence :: "string \<Rightarrow> string \<Rightarrow> claim \<Rightarrow> talk \<Rightarrow> talk \<times> out list" where
  "setLivePresence server handle c k =
     (k\<lparr>livePresence := AList.update server (dput (of_circle server (livePresence k)) handle c) (livePresence k)\<rparr>, [Act ShowServers])"

definition setLiveWant :: "string \<Rightarrow> string \<Rightarrow> claim \<Rightarrow> talk \<Rightarrow> talk \<times> out list" where
  "setLiveWant server handle c k =
     (k\<lparr>liveWants := AList.update server (dput (of_circle server (liveWants k)) handle c) (liveWants k)\<rparr>, [Act ShowServers])"

definition setLiveTyping :: "rat \<Rightarrow> string \<Rightarrow> string \<Rightarrow> jsval \<Rightarrow> talk \<Rightarrow> (talk \<times> out list) throws" where
  "setLiveTyping now server handle ch k =
     (if handle = tk_me k then Some (k, [])
      else do {
        c \<leftarrow> to_str (coalesce ch (JStr []));
        Some (k\<lparr>liveTyping := AList.update server (dput (of_circle server (liveTyping k)) handle (c, now)) (liveTyping k)\<rparr>, [Act ShowServers]) })"

definition clearTyping :: "string \<Rightarrow> string \<Rightarrow> talk \<Rightarrow> talk \<times> out list" where
  \<comment> \<open>\<open>handle in map\<close> also holds for an inherited name\<close>
  "clearTyping server handle k =
     (case map_of (liveTyping k) server of
        None \<Rightarrow> (k, [])
      | Some d \<Rightarrow>
          if dget d handle = Absent then (k, [])
          else (k\<lparr>liveTyping := AList.update server (ddel d handle) (liveTyping k)\<rparr>, [Act ShowServers]))"

definition sendEphemeral :: "string \<Rightarrow> jsval \<Rightarrow> bool \<Rightarrow> string list \<Rightarrow> string option \<Rightarrow> talk \<Rightarrow> out list" where
  \<comment> \<open>\<open>notify\<close> is the whole roster (\<open>'*'\<close>) or the given names; the kind goes along only when somebody is woken\<close>
  "sendEphemeral server content everyone names kind k =
     (let ws = (if everyone then (case map_of (tk_circles k) server of None \<Rightarrow> [] | Some r \<Rightarrow> filter (\<lambda>m. m \<noteq> tk_me k) (members r)) else names)
      in [Fanout server content ws (if ws = [] then None else kind)])"

definition claim_json :: "string \<Rightarrow> string \<Rightarrow> game_ref option \<Rightarrow> rat \<Rightarrow> jsval" where
  "claim_json k f g t = JObj [(''k'', JStr k), (f, case g of None \<Rightarrow> JNull | Some g \<Rightarrow> ref_json g), (''ts'', JNum (Fin t))]"

definition asked_ref :: "jsval \<Rightarrow> game_ref option throws" where
  \<comment> \<open>\<open>gameRef ? normalizeGameRef(gameRef) : null\<close>\<close>
  "asked_ref g = (if truthy g then normalizeGameRef g else Some None)"

definition setPlaying :: "rat \<Rightarrow> string \<Rightarrow> jsval \<Rightarrow> talk \<Rightarrow> (talk \<times> out list) throws" where
  "setPlaying now server game k =
     (if map_of (tk_circles k) server = None then Some (k, [])
      else do {
        g \<leftarrow> asked_ref game;
        let (k1, o1) = setLivePresence server (tk_me k) \<lparr>claim_game = g, claim_ts = now\<rparr> k;
        Some (k1, o1 @ sendEphemeral server (claim_json ''pres'' ''playing'' g now) False [] None k1) })"

definition setWant :: "rat \<Rightarrow> string \<Rightarrow> jsval \<Rightarrow> talk \<Rightarrow> (talk \<times> out list) throws" where
  "setWant now server game k =
     (if map_of (tk_circles k) server = None then Some (k, [])
      else do {
        g \<leftarrow> asked_ref game;
        let (k1, o1) = setLiveWant server (tk_me k) \<lparr>claim_game = g, claim_ts = now\<rparr> k;
        Some (k1, o1 @ sendEphemeral server (claim_json ''want'' ''want'' g now) (g \<noteq> None) [] (Some ''rally'') k1) })"

definition typing :: "rat \<Rightarrow> string \<Rightarrow> string \<Rightarrow> talk \<Rightarrow> talk \<times> out list" where
  "typing now server ch k =
     (if map_of (tk_circles k) server = None then (k, [])
      else let key = server @ ''/'' @ ch;
               prev = (case map_of (typingSentAt k) key of None \<Rightarrow> 0 | Some t \<Rightarrow> t)
           in if now - prev < TYPING_HEARTBEAT_MS then (k, [])
              else (k\<lparr>typingSentAt := AList.update key now (typingSentAt k)\<rparr>,
                    sendEphemeral server (JObj [(''k'', JStr ''type''), (''ch'', JStr ch)]) False [] None k))"

definition onEphemeral :: "rat \<Rightarrow> string \<Rightarrow> string \<Rightarrow> string \<Rightarrow> talk \<Rightarrow> talk \<times> out list" where
  \<comment> \<open>a message of the group that the worker has opened: its circle, its sender and its text;
     whatever cannot be read is only reported\<close>
  "onEphemeral now server sender raw k =
     (if map_of (tk_circles k) server = None then (k, [])
      else case do {
             content \<leftarrow> parse_json raw;
             kind \<leftarrow> jget content ''k'';
             if kind \<in> {JStr ''voice'', JStr ''rtc'', JStr ''ring''} then Some (k, [ForVoice server sender content])
             else if kind = JStr ''pres'' then do { c \<leftarrow> normalizePresence content now; Some (setLivePresence server sender c k) }
             else if kind = JStr ''want'' then do { c \<leftarrow> normalizeWant content now; Some (setLiveWant server sender c k) }
             else if kind = JStr ''type'' then setLiveTyping now server sender (oprop content ''ch'') k
             else Some (k, []) } of
             None \<Rightarrow> (k, [])
           | Some res \<Rightarrow> res)"

section \<open>Carrying out what an envelope means\<close>

definition system_line :: "rat \<Rightarrow> string \<Rightarrow> string \<Rightarrow> string \<Rightarrow> talk \<Rightarrow> talk \<times> out list" where
  \<comment> \<open>the method \<open>addSystemMessage\<close> of the controller\<close>
  "system_line now server txt ch k =
     (let (l, s1) = channelLog server ch (tk_logs k);
          (l', i) = addSystemMessage (ol_log l) \<lparr>pl_server = server, pl_channel = ch\<rparr> txt now
      in (k\<lparr>tk_logs := put_log server ch l' s1\<rparr>, [SystemLine server ch txt]))"

definition announceCallStarted :: "rat \<Rightarrow> string \<Rightarrow> string \<Rightarrow> string \<Rightarrow> talk \<Rightarrow> (talk \<times> out list) throws" where
  "announceCallStarted now server room name k =
     (case map_of (tk_circles k) server of
        None \<Rightarrow> Some (k, [])
      | Some r \<Rightarrow> do {
          ch \<leftarrow> to_str (coalesce (first_or_undef (channels r)) general);
          Some (system_line now server ((if name = tk_me k then ''you'' else name) @ '' started a call in '' @ room) ch k) })"

fun live_body :: "body \<Rightarrow> jsval dict" where
  \<comment> \<open>\<open>e.message.file ? .. : e.message.game ? .. : ..\<close>; a message has one of the three\<close>
  "live_body (FileBody f) = (if truthy f then [(''file'', f)] else [(''text'', JUndef)])"
| "live_body (GameBody g) = [(''game'', ref_json g)]"
| "live_body (TextBody t) = [(''text'', t)]"

fun live_kind :: "body \<Rightarrow> string" where
  "live_kind (FileBody f) = (if truthy f then ''file'' else ''chat'')"
| "live_kind (GameBody g) = ''game''"
| "live_kind (TextBody t) = ''chat''"

fun live_entry :: "effect \<Rightarrow> (string \<times> jsval \<times> jsval dict) option" where
  \<comment> \<open>the circle, the channel and the entry given to \<open>applyLiveEntry\<close>\<close>
  "live_entry (StoreMessage m) =
     Some (om_server m, om_channel m, [(''k'', JStr (live_kind (om_body m))), (''sender'', JStr (om_sender m)), (''ts'', JNum (Fin (om_ts m)))]
       @ live_body (om_body m) @ reply_field (om_reply m))"
| "live_entry (ReactionEffect server ch (who, n) emo op by t) =
     Some (server, JStr ch, [(''k'', JStr ''react''), (''sender'', JStr by), (''ts'', JNum (Fin t)), (''to'', react_to_field who n),
       (''emo'', JStr emo), (''op'', op_json (op \<noteq> ReactDel))])"
| "live_entry (EditMessage server ch by n txt t) =
     Some (server, JStr ch, [(''k'', JStr ''edit''), (''sender'', JStr by), (''ts'', JNum (Fin t)), (''to'', to_field n), (''text'', JStr txt)])"
| "live_entry (DeleteMessage server ch by n t) =
     Some (server, JStr ch, [(''k'', JStr ''del''), (''sender'', JStr by), (''ts'', JNum (Fin t)), (''to'', to_field n)])"
| "live_entry _ = None"

fun shown :: "effect \<Rightarrow> out list" where
  "shown (StoreMessage m) = [NewLine m]"
| "shown _ = []"

fun other_effect :: "rat \<Rightarrow> string \<Rightarrow> effect \<Rightarrow> talk \<Rightarrow> (talk \<times> out list) throws" where
  "other_effect now i (SystemMessage server txt ch) k =
     do { c \<leftarrow> to_str (case ch of None \<Rightarrow> general | Some v \<Rightarrow> if v = JUndef then general else v); Some (system_line now server txt c k) }"
| "other_effect now i (RenameMessages server from to) k =
     do { f \<leftarrow> to_str from; t \<leftarrow> to_str to; Some (k\<lparr>tk_logs := renameChannelLog server f t (tk_logs k)\<rparr>, []) }"
| "other_effect now i (DeleteMessages server ch) k =
     do { c \<leftarrow> to_str ch; Some (k\<lparr>tk_logs := forgetChannelLog server c (tk_logs k)\<rparr>, []) }"
| "other_effect now i (ApplyRetention ch) k =
     do { c \<leftarrow> to_str ch;
          case map_of (tk_circles k) i of None \<Rightarrow> Some (k, [])
          | Some r \<Rightarrow> do { s \<leftarrow> applyRetention r c now (tk_logs k); Some (k\<lparr>tk_logs := s\<rparr>, []) } }"
| "other_effect now i RefreshMessages k = Some (k, [Act ShowMessages])"
| "other_effect now i (RefreshRoles server) k = Some (k, [SyncRoles server])"
| "other_effect now i (ClearTyping server sender) k = Some (clearTyping server sender k)"
| "other_effect now i (PresenceEffect server sender c) k = Some (setLivePresence server sender c k)"
| "other_effect now i (WantEffect server sender c) k = Some (setLiveWant server sender c k)"
| "other_effect now i (TypingEffect server sender ch) k = setLiveTyping now server sender ch k"
| "other_effect now i LeaveVoice k = Some (k, [Act LeaveCall])"
| "other_effect now i BackfillHistory k = Some (k, [CatchUp i])"
| "other_effect now i Backup k = Some (k, [ScheduleBackup])"
| "other_effect now i (QuorumCheck p) k = Some (k, [CheckProposal i p])"
| "other_effect now i _ k = Some (k, [])"

definition run_effect :: "rat \<Rightarrow> string \<Rightarrow> effect \<Rightarrow> talk \<times> out list \<Rightarrow> (talk \<times> out list) throws" where
  \<comment> \<open>one round of the loop; a channel that is no text is kept under its text\<close>
  "run_effect now i f = (\<lambda>(k, os).
     (case live_entry f of
        Some (server, ch, entry) \<Rightarrow>
          do { c \<leftarrow> to_str ch;
               (s, acts) \<leftarrow> applyLiveEntry server c (JObj entry) (tk_logs k);
               Some (k\<lparr>tk_logs := s\<rparr>, os @ map Act acts @ shown f) }
      | None \<Rightarrow> do { (k', o') \<leftarrow> other_effect now i f k; Some (k', os @ o') }))"

definition runEffects :: "rat \<Rightarrow> string \<Rightarrow> effect list \<Rightarrow> talk \<Rightarrow> (talk \<times> out list) throws" where
  "runEffects now i fs k = foldM (run_effect now i) fs (k, [])"

definition receive :: "roster option \<Rightarrow> ctx \<Rightarrow> string \<Rightarrow> string \<Rightarrow> string \<Rightarrow> talk \<Rightarrow> (talk \<times> out list) throws" where
  \<comment> \<open>\<open>onContent\<close> with its effects carried out\<close>
  "receive answer x server sender raw k =
     (case map_of (tk_circles k) server of
        None \<Rightarrow> Some (k, [])
      | Some r \<Rightarrow> do { (r', fs) \<leftarrow> onContent answer x r sender raw; runEffects (ctx_clock x) server fs (put_circle server r' k) })"

end
