(* ===== verification/Conversation_Rules.thy ===== *)
theory Conversation_Rules
  imports Conversation Paging_Rules
begin

text \<open>
  What is said is shown once. The copy of a line that arrives live and the copy read back from the channel's log are the same
  event, so whoever gets both shows one line; a line whose saving failed is marked and can be sent again; what was uploaded is
  what is fetched. And two defects: an edit heard live outranks a later edit read from the log, and a line this session wrote
  is never redacted.
\<close>

section \<open>The two copies of one event\<close>

fun said :: "utterance \<Rightarrow> bool" where
  \<comment> \<open>what the actions of the controller let through\<close>
  "said (Chat txt q) = (case q of None \<Rightarrow> True | Some q \<Rightarrow> normalizeReply (reply_json q) = Some (Some q))"
| "said (Card g) = (normalizeGameRef (ref_json g) = Some (Some g))"
| "said (Attachment f) = (truthy f \<and> tidy f = f)"
| "said (Edit to txt) = (is_finite to \<and> txt \<noteq> [])"
| "said (Delete to) = is_finite to"
| "said (Reaction who to emo adding) = (who \<noteq> [] \<and> is_finite to \<and> trim (take 8 emo) \<noteq> [])"

definition written :: "string \<Rightarrow> utterance \<Rightarrow> rat \<Rightarrow> jsval dict" where
  \<comment> \<open>the entry as it is sealed: \<open>{ sender: this.me, ...entry }\<close>\<close>
  "written me u t = (''sender'', JStr me) # logged u t"

definition entry_fields :: "string set" where
  "entry_fields = {''k'', ''sender'', ''ts'', ''text'', ''reply'', ''game'', ''file'', ''to'', ''emo'', ''op''}"

definition same_event :: "jsval \<Rightarrow> jsval \<Rightarrow> bool" where
  "same_event e e' \<longleftrightarrow> kind_of_entry e = kind_of_entry e' \<and> truthy e = truthy e' \<and> (\<forall>pl a q. entryToMessage e pl a q = entryToMessage e' pl a q) \<and>
     mutationId e = mutationId e' \<and> apply_mutation e = apply_mutation e'"

lemma same_eventI:
  assumes "\<And>f. f \<in> entry_fields \<Longrightarrow> oprop e f = oprop e' f" and "truthy e" and "truthy e'"
  shows "same_event e e'"
proof -
  have f: "oprop e ''k'' = oprop e' ''k''" "oprop e ''sender'' = oprop e' ''sender''" "oprop e ''ts'' = oprop e' ''ts''"
    "oprop e ''text'' = oprop e' ''text''" "oprop e ''reply'' = oprop e' ''reply''" "oprop e ''game'' = oprop e' ''game''"
    "oprop e ''file'' = oprop e' ''file''" "oprop e ''to'' = oprop e' ''to''" "oprop e ''emo'' = oprop e' ''emo''"
    "oprop e ''op'' = oprop e' ''op''" by (rule assms(1), simp add: entry_fields_def)+
  show ?thesis
    unfolding same_event_def kind_of_entry_def entryToMessage_def mutationId_def apply_mutation_def applyEdit_def
      applyDelete_def applyReaction_def target_id_def str_prop_def num_prop_def fun_eq_iff
    by (simp only: f assms(2,3)) simp
qed

lemma same_event_trans: "same_event a b \<Longrightarrow> same_event b c \<Longrightarrow> same_event a c"
  by (simp add: same_event_def)

lemma same_event_sym: "same_event a b \<Longrightarrow> same_event b a"
  by (simp add: same_event_def)

lemma normalizeReply_idem:
  assumes "normalizeReply v = Some (Some q)"
  shows "normalizeReply (reply_json q) = Some (Some q)"
proof -
  from assms obtain s n where "str_prop v ''sender'' = Some s" "num_prop v ''ts'' = Some n"
    by (auto simp: normalizeReply_def bind_eq_Some_conv split: if_splits)
  with assms obtain x w where "q = \<lparr>rep_sender = trim (take 64 s), rep_ts = x, rep_text = take REPLY_TEXT_MAX w\<rparr>"
    "trim (take 64 s) \<noteq> []" "0 < x"
    by (cases n) (auto simp: normalizeReply_def bind_eq_Some_conv not_le Let_def split: if_splits)
  with length_trim_take [of 64 s] show ?thesis
    by (simp add: normalizeReply_def reply_json_def str_prop_def num_prop_def is_object_def)
qed

lemma normalizeGameRef_idem:
  assumes "normalizeGameRef v = Some (Some g)"
  shows "normalizeGameRef (ref_json g) = Some (Some g)"
proof -
  from assms obtain i nm where "g = \<lparr>ref_id = take 40 i, ref_name = trim (take GAME_NAME_MAX nm), ref_kind = kind_of (oprop v ''kind'')\<rparr>"
    "take 40 i \<noteq> []" "trim (take GAME_NAME_MAX nm) \<noteq> []"
    by (auto simp: normalizeGameRef_def bind_eq_Some_conv Let_def split: if_splits)
  moreover have "kind_of (kind_json k) = k" for k by (cases k) (simp_all add: kind_of_def kind_json_def)
  ultimately show ?thesis using length_trim_take [of GAME_NAME_MAX nm]
    by (simp add: normalizeGameRef_def ref_json_def str_prop_def is_object_def Let_def)
qed

lemma tidy_object: "list_all (\<lambda>kv. \<not> is_index (fst kv) \<and> \<not> is_undef (snd kv) \<and> tidy (snd kv) = snd kv) d \<Longrightarrow> tidy (JObj d) = JObj d"
proof -
  assume d: "list_all (\<lambda>kv. \<not> is_index (fst kv) \<and> \<not> is_undef (snd kv) \<and> tidy (snd kv) = snd kv) d"
  then have "filter (\<lambda>(k, v). \<not> is_undef v) d = d" by (simp add: list_all_iff case_prod_unfold)
  moreover have "map (\<lambda>(k, v). (k, tidy v)) d = d" using d by (intro map_idI) (auto simp: list_all_iff)
  moreover have "entries d = d" using d by (auto simp: entries_def list_all_iff filter_empty_conv filter_id_conv)
  ultimately show ?thesis by simp
qed

lemma field_names:
  "\<not> is_index ''k''" "\<not> is_index ''ch''" "\<not> is_index ''ts''" "\<not> is_index ''text''" "\<not> is_index ''reply''" "\<not> is_index ''game''"
  "\<not> is_index ''file''" "\<not> is_index ''to''" "\<not> is_index ''emo''" "\<not> is_index ''op''" "\<not> is_index ''sender''" "\<not> is_index ''id''"
  "\<not> is_index ''name''" "\<not> is_index ''kind''"
  by code_simp+

lemma tidy_parts:
  "is_finite n \<Longrightarrow> tidy (to_field n) = to_field n" "is_finite n \<Longrightarrow> tidy (react_to_field who n) = react_to_field who n"
  "tidy (reply_json q) = reply_json q" "tidy (ref_json g) = ref_json g" "tidy (op_json b) = op_json b"
  by (simp_all add: to_field_def react_to_field_def reply_json_def ref_json_def op_json_def kind_json_def is_finite_def tidy_object field_names del: tidy.simps(4))

lemma parts_defined:
  "\<not> is_undef (to_field n)" "\<not> is_undef (react_to_field who n)" "\<not> is_undef (reply_json q)" "\<not> is_undef (ref_json g)" "\<not> is_undef (op_json b)"
  by (simp_all add: to_field_def react_to_field_def reply_json_def ref_json_def op_json_def)

lemma truthy_defined: "truthy v \<Longrightarrow> \<not> is_undef v"
  by (cases v) simp_all

lemma spoken_tidy: "said u \<Longrightarrow> tidy (JObj (spoken ch u t)) = JObj (spoken ch u t)"
  by (rule tidy_object, cases u) (auto simp: reply_field_def tidy_parts parts_defined field_names truthy_defined is_finite_def split: option.splits)

lemmas line_eval = applyEnvelope_def refused_def adminRequirement_def handle_kind_def apply_chat_def apply_game_def apply_file_def
  apply_edit_def apply_del_def apply_react_def store_message_def messageTs_def reply_field_def List.map_filter_simps written_def
  str_prop_def num_prop_def

lemma entryToMessage_cong:
  assumes "oprop e ''sender'' = oprop e' ''sender''" "oprop e ''ts'' = oprop e' ''ts''" "oprop e ''text'' = oprop e' ''text''"
    "oprop e ''reply'' = oprop e' ''reply''" "oprop e ''game'' = oprop e' ''game''" "oprop e ''file'' = oprop e' ''file''"
  shows "entryToMessage e pl a q = entryToMessage e' pl a q"
  unfolding entryToMessage_def str_prop_def num_prop_def by (simp only: assms)

lemma applyReaction_cong:
  assumes "oprop e ''to'' = oprop e' ''to''" "oprop e ''sender'' = oprop e' ''sender''" "oprop e ''op'' = oprop e' ''op''"
    and "str_prop e ''emo'' = Some a" "str_prop e' ''emo'' = Some b" "trim (take 8 a) = trim (take 8 b)"
  shows "applyReaction e ms = applyReaction e' ms"
  unfolding applyReaction_def by (simp only: assms Option.bind.simps)

lemma same_reaction:
  assumes "trim (take 8 emo) \<noteq> []"
  shows "same_event (JObj [(''k'', JStr ''react''), (''sender'', s), (''ts'', t), (''to'', to), (''emo'', JStr (trim (take 8 emo))), (''op'', op)])
    (JObj [(''sender'', s), (''k'', JStr ''react''), (''ts'', t), (''to'', to), (''emo'', JStr emo), (''op'', op)])" (is "same_event ?e ?f")
proof -
  have "applyReaction ?e ms = applyReaction ?f ms" for ms
    using length_trim_take [of 8 emo] by (intro applyReaction_cong [where a = "trim (take 8 emo)" and b = emo]) (simp_all add: str_prop_def)
  then show ?thesis unfolding same_event_def
    by (intro conjI allI entryToMessage_cong ext) (simp_all add: kind_of_entry_def mutationId_def apply_mutation_def)
qed

fun quiet :: "effect \<Rightarrow> bool" where
  "quiet RefreshMessages = True"
| "quiet (ClearTyping s w) = True"
| "quiet f = (live_entry f \<noteq> None)"

lemma live_copy:
  assumes "said u" and "0 < t"
  shows "\<exists>r' fs e. applyEnvelope r me (JObj (spoken ch u t)) x = Some (r', fs) \<and>
    List.map_filter live_entry fs = [(c_id r, JStr ch, e)] \<and> same_event (JObj e) (JObj (written me u t)) \<and> list_all quiet fs \<and>
    oprop (JObj e) ''sender'' = JStr me \<and> oprop (JObj e) ''ts'' = JNum (Fin t)"
proof (cases u)
  case (Chat w q)
  have "normalizeReply JUndef = Some None" by (simp add: normalizeReply_def is_object_def)
  with Chat assms show ?thesis
    by (cases q) (auto simp: line_eval entry_fields_def intro!: same_eventI)
next
  case (Card g)
  with assms show ?thesis by (auto simp: line_eval entry_fields_def intro!: same_eventI)
next
  case (Attachment f)
  with assms show ?thesis by (auto simp: line_eval entry_fields_def intro!: same_eventI)
next
  case (Edit to w)
  with assms show ?thesis by (auto simp: line_eval to_field_def entry_fields_def intro!: same_eventI)
next
  case (Delete to)
  with assms show ?thesis by (auto simp: line_eval to_field_def entry_fields_def intro!: same_eventI)
next
  case (Reaction who to emo adding)
  with assms same_reaction [of emo "JStr me" "JNum (Fin t)" "react_to_field who to" "op_json adding"] show ?thesis
    by (auto simp: line_eval react_to_field_def op_json_def)
qed

section \<open>Folding both copies\<close>

fun is_line :: "utterance \<Rightarrow> bool" where
  "is_line (Chat w q) = True"
| "is_line (Card g) = True"
| "is_line (Attachment f) = True"
| "is_line _ = False"

fun kind_name :: "utterance \<Rightarrow> string" where
  "kind_name (Chat w q) = ''chat''"
| "kind_name (Card g) = ''game''"
| "kind_name (Attachment f) = ''file''"
| "kind_name (Edit to w) = ''edit''"
| "kind_name (Delete to) = ''del''"
| "kind_name (Reaction who to emo adding) = ''react''"

definition unheard :: "string \<Rightarrow> utterance \<Rightarrow> rat \<Rightarrow> nat \<Rightarrow> channel_log \<Rightarrow> bool" where
  \<comment> \<open>the working copy does not have the event, and what would come after entry \<open>q\<close> is not there yet\<close>
  "unheard me u t q l \<longleftrightarrow>
     (if is_line u then map_of (base l) (messageId me (Fin t)) = None
      else map_of (mutations l) (me @ '':'' @ kind_name u @ '':'' @ num_str (Fin t)) = None \<and>
           (\<forall>m \<in> snd ` set (mutations l). mut_seq m \<le> q \<and> mut_seq m \<le> localSeq l))"

lemma written_kind:
  "kind_of_entry (JObj (written me u t)) = JStr (kind_name u)" "truthy (JObj (written me u t))"
  "mutationId (JObj (written me u t)) = Some (me @ '':'' @ kind_name u @ '':'' @ num_str (Fin t))"
  by (cases u; simp add: written_def kind_of_entry_def mutationId_def)+

lemma written_message:
  assumes "said u" and "is_line u" and "me \<noteq> []" and "0 < t"
  shows "\<exists>m. entryToMessage (JObj (written me u t)) pl a q = Some (Some m) \<and> msg_sender m = me \<and> msg_ts m = Fin t \<and> msg_local m = False"
proof -
  have "normalizeReply JUndef = Some None" by (simp add: normalizeReply_def is_object_def)
  then show ?thesis using assms
    by (cases u) (auto simp: written_def entryToMessage_def str_prop_def num_prop_def reply_field_def num_or0_def num_truthy_def ref_json_def split: option.splits)
qed

lemma kinds: "JStr (kind_name u) \<in> set CONTENT_KINDS \<longleftrightarrow> is_line u" "JStr (kind_name u) \<in> set MUTATION_KINDS \<longleftrightarrow> \<not> is_line u"
  by (cases u; simp add: CONTENT_KINDS_def MUTATION_KINDS_def)+

definition copy_of :: "string \<Rightarrow> utterance \<Rightarrow> rat \<Rightarrow> nat option \<Rightarrow> item \<Rightarrow> bool" where
  \<comment> \<open>an authenticated copy of the event: from the relay with its number, or live without\<close>
  "copy_of me u t seq it \<longleftrightarrow> same_event (it_entry it) (JObj (written me u t)) \<and> it_auth it = Signed \<and> it_seq it = seq \<and> it_local it = (seq = None)"

lemma copy_line:
  assumes "copy_of me u t seq it" and "said u" and "is_line u" and "me \<noteq> []" and "0 < t"
  shows "\<exists>m. content_of pl it = Some (messageId me (Fin t), m) \<and> msg_local m = (seq = None)" "mutation_of it = None"
    "content_of pl it = content_of pl (it\<lparr>it_entry := JObj (written me u t)\<rparr>)"
  using assms(1,3) written_message [OF assms(2-5), of pl Signed seq] kinds [of u]
  by (auto simp: copy_of_def same_event_def content_of_def mutation_of_def written_kind)

lemma copy_mutation:
  assumes "copy_of me u t seq it" and "\<not> is_line u"
  shows "mutation_of it = Some (me @ '':'' @ kind_name u @ '':'' @ num_str (Fin t), it_entry it)" "content_of pl it = None"
    "apply_mutation (it_entry it) = apply_mutation (JObj (written me u t))"
  using assms kinds [of u] by (auto simp: copy_of_def same_event_def content_of_def mutation_of_def written_kind)

lemma copy_taken:
  assumes "copy_of me u t seq it" and "said u" and "me \<noteq> []" and "0 < t"
  shows "\<exists>l' n. addEntries l [it] pl = Some (l', n)"
proof -
  have "add_entry pl it (l, 0) \<noteq> None"
  proof (cases "is_line u")
    case True
    with assms written_message [OF assms(2) True assms(3,4), of pl Signed seq] kinds [of u] show ?thesis
      by (auto simp: copy_of_def same_event_def add_entry_def written_kind add_content_def Let_def split: option.splits)
  next
    case False
    with assms kinds [of u] show ?thesis
      by (auto simp: copy_of_def same_event_def add_entry_def written_kind add_mutation_def Let_def split: option.splits)
  qed
  then show ?thesis by (auto simp: addEntries_def)
qed

lemma addEntries_one: "addEntries l [it] pl = Some (l', n) \<Longrightarrow> add_entry pl it (l, 0) = Some (l', n)"
  by (simp add: addEntries_def bind_eq_Some_conv)

lemma update_last: "map_of xs i = None \<Longrightarrow> AList.update i w (xs @ [(i, v)]) = xs @ [(i, w)]"
  by (induction xs) auto

lemma sort_key_snoc: "\<forall>x \<in> set xs. f x \<le> f y \<Longrightarrow> sort_key f (xs @ [y]) = sort_key f xs @ [y]"
proof -
  assume le: "\<forall>x \<in> set xs. f x \<le> f y"
  have "filter (\<lambda>x. k = f x) (sort_key f xs) = filter (\<lambda>x. k = f x) xs" for k
    using sort_key_stable [of f k xs] by (simp only: eq_commute [of _ k])
  with le show ?thesis by (intro properties_for_sort_key) (auto simp: sorted_append)
qed

lemma foldM_last:
  assumes "apply_mutation a = apply_mutation b"
  shows "foldM apply_mutation (xs @ [a]) s = foldM apply_mutation (xs @ [b]) s"
  by (simp add: foldM_append assms)

lemma twice_is_once:
  assumes "copy_of me u t None it0" and "copy_of me u t (Some q) it" and "said u" and "me \<noteq> []" and "0 < t" and "unheard me u t q l"
    and "addEntries l [it0] pl = Some (l1, n1)" and "addEntries l1 [it] pl = Some (l2, n2)" and "addEntries l [it] pl = Some (l3, n3)"
  shows "base l2 = base l3 \<and> renderLog l2 = renderLog l3"
proof -
  note r = addEntries_one [OF assms(7)] addEntries_one [OF assms(8)] addEntries_one [OF assms(9)]
  note b = add_entry_base [OF r(1)] add_entry_base [OF r(2)] add_entry_base [OF r(3)]
  note m = add_entry_mutations [OF r(1)] add_entry_mutations [OF r(2)] add_entry_mutations [OF r(3)]
  show ?thesis
  proof (cases "is_line u")
    case True
    from copy_line(1) [OF assms(1,3) True assms(4,5)] obtain x where x: "content_of pl it0 = Some (messageId me (Fin t), x)" "msg_local x" by auto
    from copy_line(1) [OF assms(2,3) True assms(4,5)] obtain y where y: "content_of pl it = Some (messageId me (Fin t), y)" "\<not> msg_local y" by auto
    note mu = copy_line(2) [OF assms(1,3) True assms(4,5)] copy_line(2) [OF assms(2,3) True assms(4,5)]
    have new: "map_of (base l) (messageId me (Fin t)) = None" using assms(6) True by (simp add: unheard_def)
    have "\<not> it_local it" using assms(2) by (simp add: copy_of_def)
    then have "base l2 = base l3" using new x y b by (simp add: takes_over_def update_conv' update_fresh update_last map_add_def)
    moreover have "mutations l2 = mutations l3" using mu m by simp
    ultimately show ?thesis by (simp add: renderLog_def replay_def)
  next
    case False
    let ?i = "me @ '':'' @ kind_name u @ '':'' @ num_str (Fin t)"
    note c = copy_mutation [OF assms(1) False] copy_mutation [OF assms(2) False]
    have new: "map_of (mutations l) ?i = None" "\<forall>x \<in> set (map snd (mutations l)). mut_seq x \<le> q \<and> mut_seq x \<le> localSeq l"
      using assms(6) False by (auto simp: unheard_def)
    have base: "base l2 = base l" "base l3 = base l" using b c by simp_all
    have "it_seq it0 = None" "it_seq it = Some q" using assms(1,2) by (simp_all add: copy_of_def)
    then have "mutations l1 = mutations l @ [(?i, \<lparr>mut_seq = localSeq l, mut_entry = it_entry it0\<rparr>)]"
      "mutations l3 = mutations l @ [(?i, \<lparr>mut_seq = q, mut_entry = it_entry it\<rparr>)]" using m(1,3) c new(1) by (simp_all add: update_fresh)
    moreover from this have "mutations l2 = mutations l1" using m(2) c by simp
    ultimately have "replay l2 = replay l3" unfolding replay_def base
      using new(2) c by (simp add: sort_key_snoc foldM_last [of "it_entry it0" "it_entry it"])
    then show ?thesis by (simp add: base renderLog_def)
  qed
qed

section \<open>From the sender's hand to the reader's screen\<close>

abbreviation log_at :: "string \<Rightarrow> string \<Rightarrow> talk \<Rightarrow> channel_log" where
  "log_at server ch k \<equiv> ol_log (fst (channelLog server ch (tk_logs k)))"

lemma quiet_other: "quiet f \<Longrightarrow> live_entry f = None \<Longrightarrow> \<exists>k' os. other_effect now i f k = Some (k', os) \<and> tk_logs k' = tk_logs k"
  by (cases f) (auto simp: clearTyping_def split: option.splits)

lemma run_quiet:
  assumes "list_all quiet fs" and "List.map_filter live_entry fs = map (\<lambda>(server, ch, e). (server, JStr ch, e)) es"
    and "foldM (\<lambda>(server, ch, e) s. map_option fst (applyLiveEntry server ch (JObj e) s)) es (tk_logs k) = Some s"
  shows "\<exists>k' os'. foldM (run_effect now i) fs (k, os) = Some (k', os') \<and> tk_logs k' = s"
  using assms
proof (induction fs arbitrary: es k os)
  case (Cons f fs)
  show ?case
  proof (cases "live_entry f")
    case None
    with Cons.prems(1) quiet_other obtain k1 o1 where "other_effect now i f k = Some (k1, o1)" "tk_logs k1 = tk_logs k" by fastforce
    with Cons.IH [of es k1 "os @ o1"] Cons.prems None show ?thesis by (simp add: run_effect_def List.map_filter_simps)
  next
    case (Some a)
    with Cons.prems(2) obtain server ch e es' where es: "es = (server, ch, e) # es'" "a = (server, JStr ch, e)"
      "List.map_filter live_entry fs = map (\<lambda>(server, ch, e). (server, JStr ch, e)) es'" by (cases es) (auto simp: List.map_filter_simps)
    with Cons.prems(3) obtain s1 acts where s1: "applyLiveEntry server ch (JObj e) (tk_logs k) = Some (s1, acts)"
      "foldM (\<lambda>(server, ch, e) s. map_option fst (applyLiveEntry server ch (JObj e) s)) es' s1 = Some s"
      by (auto simp: bind_eq_Some_conv)
    with Cons.IH [of es' "k\<lparr>tk_logs := s1\<rparr>"] Cons.prems(1) es Some show ?thesis by (simp add: run_effect_def)
  qed
qed simp

lemma heard:
  assumes "said u" and "0 < t" and "me \<noteq> []" and "whole (JObj (spoken ch u t))" and "map_of (tk_circles k) server = Some r" and "c_id r = server"
  shows "\<exists>k1 os it0 n. receive answer x server me (stringify (JObj (spoken ch u t))) k = Some (k1, os) \<and> copy_of me u t None it0 \<and>
    addEntries (log_at server ch k) [it0] \<lparr>pl_server = server, pl_channel = ch\<rparr> = Some (log_at server ch k1, n)"
proof -
  let ?x = "x\<lparr>ctx_isAdmin := False\<rparr>" and ?pl = "\<lparr>pl_server = server, pl_channel = ch\<rparr>"
  from live_copy [OF assms(1,2), of r me ch ?x] assms(6) obtain r' fs e where e: "applyEnvelope r me (JObj (spoken ch u t)) ?x = Some (r', fs)"
    "List.map_filter live_entry fs = [(server, JStr ch, e)]" "same_event (JObj e) (JObj (written me u t))" "list_all quiet fs"
    "oprop (JObj e) ''sender'' = JStr me" "oprop (JObj e) ''ts'' = JNum (Fin t)" by auto
  let ?it = "\<lparr>it_seq = None, it_entry = JObj e, it_auth = Signed, it_local = True\<rparr>"
  have copy: "copy_of me u t None ?it" using e(3) by (simp add: copy_of_def)
  obtain l s1 where l: "channelLog server ch (tk_logs k) = (l, s1)" by fastforce
  from copy_taken [OF copy assms(1,3,2), of "ol_log l" ?pl] obtain l' n where l': "addEntries (ol_log l) [?it] ?pl = Some (l', n)" by blast
  then have live: "applyLiveEntry server ch (JObj e) (tk_logs k) = Some (put_log server ch l' s1, [ShowMessages])"
    using assms(2,3) e(5,6) l by (simp add: applyLiveEntry_def addLocalEntry_def num_truthy_def del: oprop.simps)
  have "adminRequirement (JObj (spoken ch u t)) = None" by (cases u) (simp_all add: adminRequirement_def)
  then have on: "onContent answer x r me (stringify (JObj (spoken ch u t))) = Some (r', fs)"
    using e(1) by (simp add: onContent_def parseEnvelope_sent [OF assms(4)] spoken_tidy [OF assms(1)] del: stringify.simps tidy.simps)
  have "foldM (\<lambda>(server, ch, e) s. map_option fst (applyLiveEntry server ch (JObj e) s)) [(server, ch, e)] (tk_logs (put_circle server r' k)) =
      Some (put_log server ch l' s1)" using live by (simp add: put_circle_def)
  from run_quiet [OF e(4) _ this, of "ctx_clock x" server "[]"] e(2) obtain k1 os where
    "runEffects (ctx_clock x) server fs (put_circle server r' k) = Some (k1, os)" "tk_logs k1 = put_log server ch l' s1"
    by (auto simp: runEffects_def)
  moreover have "log_at server ch k1 = l'" using calculation(2) l by simp
  ultimately show ?thesis using on assms(5) copy l l' by (fastforce simp: receive_def simp del: stringify.simps)
qed

lemma written_whole: "whole (JObj (spoken ch u t)) \<Longrightarrow> whole (JObj (written me u t))"
  by (cases u) (auto simp: written_def reply_field_def split: option.splits)

lemma written_tidy:
  assumes "said u" and "map_of (written me u t) f = Some v"
  shows "\<not> is_undef v \<and> tidy v = v"
  using assms by (cases u) (auto simp: written_def reply_field_def tidy_parts parts_defined truthy_defined is_finite_def split: if_splits option.splits)

lemma read_back:
  assumes "aead_opens enc dec" and "aead_rejects enc dec" and "length iv = 12" and "said u" and "whole (JObj (spoken ch u t))"
    and "sealLogEntry enc iv hk (c_id r) h (written me u t) sign = Some payload" and "room_keys r ch m ks h" and "JStr hk \<in> set ks"
    and "map_of (keyDirectory (Some r)) me = Some (b64_enc pk)" and "pk \<noteq> []"
    and "\<forall>x s. sign x = Some s \<longrightarrow> v \<lparr>chk_key = pk, chk_message = x, chk_sig = s\<rparr> = Some True"
  shows "\<exists>it. openPage (device_reader dec v) r ch [\<lparr>pe_seq = q, pe_payload = payload\<rparr>] JNull = Some [it] \<and> copy_of me u t (Some q) it"
proof -
  have sender: "map_of (written me u t) ''sender'' = Some (JStr me)" by (simp add: written_def)
  from page_reads_back [OF assms(1-3) written_whole [OF assms(5)] assms(6-8) sender assms(9-11), of q] obtain it where it:
    "openPage (device_reader dec v) r ch [\<lparr>pe_seq = q, pe_payload = payload\<rparr>] JNull = Some [it]" "it_auth it = Signed" "it_seq it = Some q"
    "\<forall>f x. f \<noteq> ''sig'' \<longrightarrow> map_of (written me u t) f = Some x \<longrightarrow> \<not> is_undef x \<longrightarrow> oprop (it_entry it) f = tidy x"
    "truthy (it_entry it)" "\<not> it_local it"
    "\<forall>f. f \<notin> {''sig'', ''v''} \<longrightarrow> map_of (written me u t) f = None \<longrightarrow> oprop (it_entry it) f = JUndef" by (elim exE conjE)
  have "oprop (it_entry it) f = oprop (JObj (written me u t)) f" if "f \<in> entry_fields" for f
  proof -
    have f: "f \<notin> {''sig'', ''v''}" using that by (auto simp: entry_fields_def)
    show ?thesis
    proof (cases "map_of (written me u t) f")
      case None
      with it(7) f show ?thesis by simp
    next
      case (Some y)
      with it(4) f written_tidy [OF assms(4) Some] show ?thesis by simp
    qed
  qed
  then have "same_event (it_entry it) (JObj (written me u t))" using it(5) by (intro same_eventI) simp_all
  with it(1-3,6) show ?thesis by (auto simp: copy_of_def)
qed


definition example_talk :: talk where
  "example_talk = \<lparr>tk_me = ''bob'', tk_circles = [(''c'', example_reader)], tk_logs = [], livePresence = [], liveWants = [], liveTyping = [], typingSentAt = []\<rparr>"

definition example_ctx :: ctx where
  "example_ctx = \<lparr>ctx_isAdmin = False, ctx_now = 9, ctx_clock = 9, ctx_inCall = None\<rparr>"


section \<open>A line that could not be saved\<close>

lemma append_request_kind: "append_request e server meta full t = Some rq \<Longrightarrow> oprop rq ''t'' = JStr ''history_append''"
  by (auto simp: append_request_def bind_eq_Some_conv Let_def)

lemma appendLog_log:
  assumes "appendLog e server ch entry t k = Some (seq, k1, os)" and "map_of (tk_circles k) server = Some r"
  shows "\<exists>n. addLocalEntry (log_at server ch k) (JObj ((''sender'', JStr (tk_me k)) # entry)) \<lparr>pl_server = server, pl_channel = ch\<rparr> = Some (log_at server ch k1, n)"
    "tk_me k1 = tk_me k" "seq \<noteq> NoCircle" "map_of (tk_logs k1) (logKey server ch) \<noteq> None" "\<exists>r'. map_of (tk_circles k1) server = Some r'"
    "Act (Send (JObj (spoken ch (Chat w q) t'))) \<notin> set os" "Act (Request (redact_request server' hid n')) \<notin> set os"
    "Upload i blob \<notin> set os"
proof -
  obtain l s1 where l: "channelLog server ch (tk_logs k) = (l, s1)" by fastforce
  from assms obtain r1 minted where r1: "ensureChannelKeys r ch (le_hid e) (le_key e) = Some (r1, minted)"
    by (auto simp: appendLog_def bind_eq_Some_conv)
  obtain r2 o1 where o1: "announce_key e ch r1 minted = (r2, o1)" by fastforce
  then have quiet: "Act (Send (JObj (spoken ch (Chat w q) t'))) \<notin> set o1" "Act (Request (redact_request server' hid n')) \<notin> set o1"
    "Upload i blob \<notin> set o1" by (auto simp: announce_key_def try_send_def sendContent_def chanset_content_def bind_eq_Some_conv split: option.splits if_splits prod.splits)
  from assms r1 o1 l obtain meta l' n where run: "chan_meta_at r1 (JStr ch) = Some meta"
    "addLocalEntry (ol_log l) (JObj ((''sender'', JStr (tk_me k)) # entry)) \<lparr>pl_server = server, pl_channel = ch\<rparr> = Some (l', n)"
    by (auto simp: appendLog_def bind_eq_Some_conv Let_def)
  have res: "k1 = (put_circle server r2 k)\<lparr>tk_logs := put_log server ch l' s1\<rparr>" "seq \<noteq> NoCircle"
    "set os \<subseteq> set o1 \<union> {Act ShowMessages, Toast ''a message could not be saved to the circle''} \<union> {Act (Request rq) | rq. oprop rq ''t'' = JStr ''history_append''}"
    using assms r1 o1 l run append_request_kind by (auto simp: appendLog_def Let_def simp del: oprop.simps split: option.splits)
  from run(2) l res(1) show "\<exists>n. addLocalEntry (log_at server ch k) (JObj ((''sender'', JStr (tk_me k)) # entry)) \<lparr>pl_server = server, pl_channel = ch\<rparr> = Some (log_at server ch k1, n)"
    by simp
  from res(1) show "tk_me k1 = tk_me k" "map_of (tk_logs k1) (logKey server ch) \<noteq> None" "\<exists>r'. map_of (tk_circles k1) server = Some r'"
    by (simp_all add: put_circle_def put_log_def update_conv')
  from res(2) show "seq \<noteq> NoCircle" .
  from quiet(1) res(3) show "Act (Send (JObj (spoken ch (Chat w q) t'))) \<notin> set os" by blast
  from quiet(2) res(3) show "Act (Request (redact_request server' hid n')) \<notin> set os" by (auto simp: redact_request_def)
  from quiet(3) res(3) show "Upload i blob \<notin> set os" by auto
qed

lemma mark_log:
  assumes "markLocalState server ch t bad k = (k1, os)" and "map_of (tk_logs k) (logKey server ch) \<noteq> None"
    and "map_of (base (log_at server ch k)) (messageId (tk_me k) (Fin t)) = Some m"
  shows "base (log_at server ch k1) = AList.update (messageId (tk_me k) (Fin t)) (m\<lparr>msg_failed := bad\<rparr>) (base (log_at server ch k))"
    "tk_me k1 = tk_me k" "tk_circles k1 = tk_circles k" "map_of (tk_logs k1) (logKey server ch) \<noteq> None" "set os \<subseteq> {Act ShowMessages}"
  using assms by (auto simp: markLocalState_def channelLog_def put_log_def update_conv' split: option.splits)

lemma send_to_log: "send_to e server content k = Some (k1, os) \<Longrightarrow> tk_logs k1 = tk_logs k \<and> tk_me k1 = tk_me k"
  by (auto simp: send_to_def put_circle_def split: option.splits)

lemma chat_message:
  assumes "entryToMessage (JObj (written me (Chat w q) t)) pl a seq = Some (Some m)"
  shows "msg_body m = Some (TextBody (JStr w)) \<and> msg_seq m = seq"
  using assms by (cases q) (auto simp: written_def entryToMessage_def str_prop_def num_prop_def Let_def bind_eq_Some_conv reply_field_def split: if_splits)

lemma send_to_circles: "send_to e server content k = Some (k1, os) \<Longrightarrow> map_of (tk_circles k1) server \<noteq> None"
  by (auto simp: send_to_def put_circle_def update_conv' split: option.splits)

lemma deliver_line:
  assumes "deliverChat e server ch w t reply k = Some (res, k1, os)" and "map_of (tk_circles k) server = Some r" and "tk_me k \<noteq> []" and "0 < t"
  defines "i \<equiv> messageId (tk_me k) (Fin t)"
  shows "\<exists>m. (case map_of (base (log_at server ch k)) i of
        None \<Rightarrow> base (log_at server ch k1) = base (log_at server ch k) @ [(i, m)] \<and> msg_body m = Some (TextBody (JStr w)) \<and> msg_seq m = None
      | Some m0 \<Rightarrow> m = m0\<lparr>msg_failed := res \<noteq> Inr ()\<rparr> \<and> base (log_at server ch k1) = AList.update i m (base (log_at server ch k))) \<and>
      msg_failed m = (res \<noteq> Inr ())"
    "tk_me k1 = tk_me k" "map_of (tk_circles k1) server \<noteq> None" "map_of (tk_logs k1) (logKey server ch) \<noteq> None"
    "res = Inr () \<or> res = Inl NOT_WRITTEN" "res \<noteq> Inr () \<Longrightarrow> Act (Send (JObj (spoken ch (Chat w' q') t'))) \<notin> set os"
proof -
  let ?pl = "\<lparr>pl_server = server, pl_channel = ch\<rparr>"
  from assms(1) obtain q seq k0 o0 where q: "normalizeReply reply = Some q" and app: "appendLog e server ch (logged (Chat w q) t) t k = Some (seq, k0, o0)"
    by (auto simp: deliverChat_def bind_eq_Some_conv)
  obtain k2 o2 where mark: "markLocalState server ch t (seq = NotSaved) k0 = (k2, o2)" by fastforce
  note a = appendLog_log [OF app assms(2)]
  let ?it = "\<lparr>it_seq = None, it_entry = JObj (written (tk_me k) (Chat w q) t), it_auth = Signed, it_local = True\<rparr>"
  from a(1) obtain n where add: "addEntries (log_at server ch k) [?it] ?pl = Some (log_at server ch k0, n)"
    by (auto simp: addLocalEntry_def written_def)
  have said: "said (Chat w q)" using q normalizeReply_idem by (auto split: option.split)
  have copy: "copy_of (tk_me k) (Chat w q) t None ?it" by (simp add: copy_of_def same_event_def)
  from copy_line(1) [OF copy said _ assms(3,4), of ?pl] obtain m where m: "content_of ?pl ?it = Some (i, m)" "msg_local m" by (auto simp: i_def)
  then have body: "msg_body m = Some (TextBody (JStr w))" "msg_seq m = None"
    by (auto simp: content_of_def dest!: chat_message split: option.splits if_splits)
  have base0: "base (log_at server ch k0) = (if map_of (base (log_at server ch k)) i = None then base (log_at server ch k) @ [(i, m)] else base (log_at server ch k))"
    using add_entry_base [OF addEntries_one [OF add]] m by (simp add: takes_over_def update_fresh split: option.split)
  then obtain m1 where m1: "map_of (base (log_at server ch k0)) i = Some m1"
    "m1 = (case map_of (base (log_at server ch k)) i of None \<Rightarrow> m | Some m0 \<Rightarrow> m0)"
    by (cases "map_of (base (log_at server ch k)) i") (simp_all add: map_add_def)
  note k2 = mark_log [OF mark a(4) m1(1) [unfolded i_def a(2) [symmetric]]]
  have res: "res = (if seq = NotSaved then Inl NOT_WRITTEN else Inr ())" "base (log_at server ch k1) = base (log_at server ch k2)"
    "tk_logs k1 = tk_logs k2" "tk_me k1 = tk_me k2" "map_of (tk_circles k1) server \<noteq> None"
    using assms(1) q app mark a(5) k2(3) send_to_log send_to_circles
    by (fastforce simp: deliverChat_def split: if_splits option.splits)+
  show "\<exists>m. (case map_of (base (log_at server ch k)) i of
        None \<Rightarrow> base (log_at server ch k1) = base (log_at server ch k) @ [(i, m)] \<and> msg_body m = Some (TextBody (JStr w)) \<and> msg_seq m = None
      | Some m0 \<Rightarrow> m = m0\<lparr>msg_failed := res \<noteq> Inr ()\<rparr> \<and> base (log_at server ch k1) = AList.update i m (base (log_at server ch k))) \<and>
      msg_failed m = (res \<noteq> Inr ())"
    using res(1,2) k2(1) base0 m1 body by (intro exI [of _ "m1\<lparr>msg_failed := seq = NotSaved\<rparr>"])
      (auto simp: i_def a(2) update_last split: option.split)
  show "tk_me k1 = tk_me k" "map_of (tk_circles k1) server \<noteq> None" "map_of (tk_logs k1) (logKey server ch) \<noteq> None" "res = Inr () \<or> res = Inl NOT_WRITTEN"
    using res a(2) k2(2,4) by auto
  show "Act (Send (JObj (spoken ch (Chat w' q') t'))) \<notin> set os" if "res \<noteq> Inr ()"
    using that res(1) assms(1) q app mark appendLog_log(6) [OF app assms(2)] k2(5) by (auto simp: deliverChat_def split: if_splits)
qed

definition has_keys :: "circle \<Rightarrow> string \<Rightarrow> bool" where
  "has_keys r ch \<longleftrightarrow> (\<exists>meta. chan_meta_at r (JStr ch) = Some meta \<and> truthy (oprop meta ''hid'') \<and> truthy (oprop meta ''hkey''))"

lemma appendLog_returns:
  assumes "map_of (tk_circles k) server = Some r" and "has_keys r ch"
    and "addLocalEntry (log_at server ch k) (JObj ((''sender'', JStr (tk_me k)) # entry)) \<lparr>pl_server = server, pl_channel = ch\<rparr> \<noteq> None"
  shows "\<exists>seq k1 os. appendLog e server ch entry t k = Some (seq, k1, os) \<and> map_of (tk_circles k1) server = Some r \<and>
    ((\<forall>rq. le_append e rq = None) \<longrightarrow> seq = NotSaved)"
proof -
  obtain l s1 where l: "channelLog server ch (tk_logs k) = (l, s1)" by fastforce
  from assms(2) obtain meta where "chan_meta_at r (JStr ch) = Some meta" "ensureChannelKeys r ch (le_hid e) (le_key e) = Some (r, None)"
    by (auto simp: has_keys_def ensureChannelKeys_def)
  with assms(1,3) l show ?thesis
    by (auto simp: appendLog_def announce_key_def put_circle_def Let_def update_conv' split: option.splits) blast
qed

lemma deliver_returns:
  assumes "map_of (tk_circles k) server = Some r" and "has_keys r ch" and "tk_me k \<noteq> []" and "0 < t" and "normalizeReply reply = Some q"
  shows "\<exists>res k1 os r'. deliverChat e server ch w t reply k = Some (res, k1, os) \<and> map_of (tk_circles k1) server = Some r' \<and> has_keys r' ch \<and>
    ((\<forall>rq. le_append e rq = None) \<longrightarrow> res = Inl NOT_WRITTEN)"
proof -
  let ?it = "\<lparr>it_seq = None, it_entry = JObj (written (tk_me k) (Chat w q) t), it_auth = Signed, it_local = True\<rparr>"
  have said: "said (Chat w q)" using assms(5) normalizeReply_idem by (auto split: option.split)
  have "copy_of (tk_me k) (Chat w q) t None ?it" by (simp add: copy_of_def same_event_def)
  from copy_taken [OF this said assms(3,4)] have "addLocalEntry (log_at server ch k) (JObj ((''sender'', JStr (tk_me k)) # logged (Chat w q) t)) \<lparr>pl_server = server, pl_channel = ch\<rparr> \<noteq> None"
    by (simp add: addLocalEntry_def written_def)
  from appendLog_returns [OF assms(1,2) this] obtain seq k0 o0 where app: "appendLog e server ch (logged (Chat w q) t) t k = Some (seq, k0, o0)"
    "map_of (tk_circles k0) server = Some r" "(\<forall>rq. le_append e rq = None) \<longrightarrow> seq = NotSaved" by blast
  obtain k2 o2 where mark: "markLocalState server ch t (seq = NotSaved) k0 = (k2, o2)" by fastforce
  then have c: "tk_circles k2 = tk_circles k0" by (auto simp: markLocalState_def Let_def split: option.splits)
  have sent: "map_of (tk_circles k3) server = Some (bump_seq n r)" if "send_to e server x k2 = Some (k3, o3)" "le_send e x = Some n" for x k3 o3 n
    using that c app(2) by (auto simp: send_to_def sendContent_def put_circle_def update_conv')
  have keys: "has_keys (bump_seq n r) ch" for n using assms(2) by (simp add: has_keys_def bump_seq_def chan_meta_at_def)
  show ?thesis
  proof (cases "seq = NotSaved \<or> le_send e (JObj (spoken ch (Chat w q) t)) = None")
    case True
    with assms(2,5) app mark c show ?thesis
      by (auto simp: deliverChat_def send_to_def sendContent_def simp del: spoken.simps)
  next
    case False
    then obtain n where n: "le_send e (JObj (spoken ch (Chat w q) t)) = Some n" by blast
    then obtain k3 o3 where "send_to e server (JObj (spoken ch (Chat w q) t)) k2 = Some (k3, o3)"
      using c app(2) by (simp add: send_to_def sendContent_def del: spoken.simps)
    with sent [OF this n] keys False assms(5) app mark show ?thesis by (auto simp: deliverChat_def simp del: spoken.simps)
  qed
qed

text \<open>
  C27: a line that could not be saved is shown as failed, is told to nobody, and is not doubled by trying again. A new line is put
  on the author's screen once; it is marked as failed exactly when sending it reports an error, and then no envelope with a
  line has gone out. Trying again changes nothing but the mark, which is gone exactly when the second attempt succeeds.
\<close>

theorem failed_line_is_kept:
  assumes "map_of (tk_circles k) server = Some r" and "tk_me k \<noteq> []" and "0 < t"
    and "map_of (base (log_at server ch k)) (messageId (tk_me k) (Fin t)) = None"
    and "deliverChat e server ch w t reply k = Some (res, k1, os)" and "retryMessage e' server ch w t q k1 = Some (res', k2, os')"
  shows "\<exists>m. base (log_at server ch k1) = base (log_at server ch k) @ [(messageId (tk_me k) (Fin t), m)] \<and>
    msg_body m = Some (TextBody (JStr w)) \<and> msg_failed m = (res \<noteq> Inr ()) \<and>
    (res \<noteq> Inr () \<longrightarrow> (\<forall>w' q' t'. Act (Send (JObj (spoken ch (Chat w' q') t'))) \<notin> set os)) \<and>
    base (log_at server ch k2) = base (log_at server ch k) @ [(messageId (tk_me k) (Fin t), m\<lparr>msg_failed := res' \<noteq> Inr ()\<rparr>)]"
proof -
  let ?i = "messageId (tk_me k) (Fin t)"
  note d = deliver_line [OF assms(5,1-3)]
  from d(1) assms(4) obtain m where m: "base (log_at server ch k1) = base (log_at server ch k) @ [(?i, m)]"
    "msg_body m = Some (TextBody (JStr w))" "msg_failed m = (res \<noteq> Inr ())" by auto
  obtain k1' o1' where mark: "markLocalState server ch t False k1 = (k1', o1')" by fastforce
  have at: "map_of (base (log_at server ch k1)) (messageId (tk_me k1) (Fin t)) = Some m" using m(1) assms(4) d(2) by (simp add: map_add_def)
  note k1' = mark_log [OF mark d(4) at]
  have base': "base (log_at server ch k1') = base (log_at server ch k) @ [(?i, m\<lparr>msg_failed := False\<rparr>)]"
    using k1'(1) m(1) d(2) assms(4) by (simp add: update_last)
  from assms(6) mark obtain rep o2 where again: "deliverChat e' server ch w t rep k1' = Some (res', k2, o2)"
    by (auto simp: retryMessage_def bind_eq_Some_conv)
  obtain r' where r': "map_of (tk_circles k1') server = Some r'" using d(3) k1'(3) by auto
  have me: "tk_me k1' = tk_me k" using k1'(2) d(2) by simp
  from deliver_line(1) [OF again r' _ assms(3)] assms(2) me base' assms(4)
  have "base (log_at server ch k2) = base (log_at server ch k) @ [(?i, m\<lparr>msg_failed := res' \<noteq> Inr ()\<rparr>)]"
    by (auto simp: map_add_def update_last)
  with m d(6) show ?thesis by (intro exI [of _ m]) (simp del: spoken.simps)
qed

definition example_env :: "bool \<Rightarrow> line_env" where
  "example_env works = \<lparr>le_enc = keyed_enc, le_iv = replicate 12 (CHR ''n''), le_sign = (\<lambda>m. Some (rev m)),
     le_append = (\<lambda>rq. if works then Some 7 else None), le_send = (\<lambda>c. Some 3), le_now = 5, le_hid = ''h'', le_key = ''key!''\<rparr>"

theorem failed_line_is_kept_witness:
  "\<exists>k1 os res' k2 os' m. deliverChat (example_env False) ''c'' ''general'' ''hi'' 5 JNull example_talk = Some (Inl NOT_WRITTEN, k1, os) \<and>
     retryMessage (example_env True) ''c'' ''general'' ''hi'' 5 None k1 = Some (res', k2, os') \<and>
     base (log_at ''c'' ''general'' k1) = [(messageId ''bob'' (Fin 5), m)] \<and> msg_failed m \<and>
     base (log_at ''c'' ''general'' k2) = [(messageId ''bob'' (Fin 5), m\<lparr>msg_failed := res' \<noteq> Inr ()\<rparr>)]"
proof -
  have c: "map_of (tk_circles example_talk) ''c'' = Some example_reader" and me: "tk_me example_talk = ''bob''" by (simp_all add: example_talk_def)
  have keys: "has_keys example_reader ''general''"
    by (simp add: has_keys_def example_reader_def chan_meta_at_def dget_def example_keys_def b64_enc_nonempty)
  have none: "normalizeReply JNull = Some None" "normalizeReply JUndef = Some None" by (simp_all add: normalizeReply_def is_object_def)
  have new: "base (log_at ''c'' ''general'' example_talk) = []" by (simp add: example_talk_def channelLog_def fresh_log_def createChannelLog_def)
  from deliver_returns [OF c keys _ _ none(1), of 5 "example_env False" "''hi''"] me obtain k1 os r' where
    run: "deliverChat (example_env False) ''c'' ''general'' ''hi'' 5 JNull example_talk = Some (Inl NOT_WRITTEN, k1, os)"
    and r': "map_of (tk_circles k1) ''c'' = Some r'" "has_keys r' ''general''" by (auto simp: example_env_def)
  obtain k1' o1' where mark: "markLocalState ''c'' ''general'' 5 False k1 = (k1', o1')" by fastforce
  then have "tk_circles k1' = tk_circles k1" "tk_me k1' = tk_me k1" by (auto simp: markLocalState_def Let_def split: option.splits)
  moreover have "tk_me k1 = ''bob''" using deliver_line(2) [OF run c] me by simp
  ultimately obtain res' k2 o2 where "deliverChat (example_env True) ''c'' ''general'' ''hi'' 5 JUndef k1' = Some (res', k2, o2)"
    using deliver_returns [of k1' "''c''" r' "''general''" 5 JUndef None "example_env True" "''hi''"] r' none(2) by auto
  with mark have retry: "retryMessage (example_env True) ''c'' ''general'' ''hi'' 5 None k1 = Some (res', k2, o1' @ o2)"
    by (simp add: retryMessage_def)
  have "tk_me example_talk \<noteq> []" "(0 :: rat) < 5" "map_of (base (log_at ''c'' ''general'' example_talk)) (messageId (tk_me example_talk) (Fin 5)) = None"
    using me new by simp_all
  from failed_line_is_kept [OF c this run retry] me new run retry show ?thesis by auto
qed

section \<open>Attachments\<close>

text \<open>
  An attachment that was sent is fetched back. What the relay was given under the id the message carries decrypts, with the key
  that travels only inside the message, to the bytes of the file; a file over the limit is not sent at all.
\<close>

theorem attachment_roundtrip:
  assumes "aead_opens (le_enc e) dec" and "length (le_iv e) = 12" and "sendFile e key ident stored server ch f k = Some (k1, os)"
    and "\<forall>i blob. Upload i blob \<in> set os \<longrightarrow> blobs i = Some blob"
  shows "length (pf_data f) \<le> FILE_MAX \<and> (\<exists>m. Act (Send (JObj (spoken ch (Attachment m) (le_now e)))) \<in> set os \<and> fetchFile dec blobs m = Some (pf_data f))"
proof -
  from assms(3) obtain blob os' where blob: "length (pf_data f) \<le> FILE_MAX" "encryptBlob (le_enc e) (le_iv e) key (pf_data f) = Some blob"
    and post: "post e server ch (Attachment (file_json f (b64url_enc ident) key)) k = Some (k1, os')"
    and sent: "os = [Act (Request (JObj [(''t'', JStr ''blob_ticket''), (''id'', JStr (b64url_enc ident))])), Upload (b64url_enc ident) blob] @ os'"
    by (auto simp: sendFile_def bind_eq_Some_conv Let_def not_less split: if_splits)
  have os: "Upload (b64url_enc ident) blob \<in> set os" "set os' \<subseteq> set os" using sent by auto
  have "fetchFile dec blobs (file_json f (b64url_enc ident) key) = decryptBlob dec key blob"
    using os(1) assms(4) by (simp add: fetchFile_def file_json_def b64_enc_dec)
  then have "fetchFile dec blobs (file_json f (b64url_enc ident) key) = Some (pf_data f)" using blob_roundtrip [OF assms(1,2) blob(2)] by simp
  moreover have "Act (Send (JObj (spoken ch (Attachment (file_json f (b64url_enc ident) key)) (le_now e)))) \<in> set os"
    using post os(2) by (auto simp: post_def send_to_def sendContent_def bind_eq_Some_conv split: option.splits)
  ultimately show ?thesis using blob(1) by blast
qed

definition example_pick :: picked_file where
  "example_pick = \<lparr>pf_name = ''a.txt'', pf_type = [], pf_data = ''hello''\<rparr>"

lemma post_returns:
  assumes "map_of (tk_circles k) server = Some r" and "has_keys r ch" and "said u" and "tk_me k \<noteq> []" and "0 < le_now e" and "\<And>c. le_send e c \<noteq> None"
  shows "\<exists>k1 os. post e server ch u k = Some (k1, os)"
proof -
  let ?t = "le_now e"
  let ?it = "\<lparr>it_seq = None, it_entry = JObj (written (tk_me k) u ?t), it_auth = Signed, it_local = True\<rparr>"
  have "copy_of (tk_me k) u ?t None ?it" by (simp add: copy_of_def same_event_def)
  from copy_taken [OF this assms(3-5)] have "addLocalEntry (log_at server ch k) (JObj ((''sender'', JStr (tk_me k)) # logged u ?t)) \<lparr>pl_server = server, pl_channel = ch\<rparr> \<noteq> None"
    by (simp add: addLocalEntry_def written_def)
  from appendLog_returns [OF assms(1,2) this, of e ?t] obtain seq k0 o0 where "appendLog e server ch (logged u ?t) ?t k = Some (seq, k0, o0)"
    "map_of (tk_circles k0) server = Some r" by blast
  moreover obtain n where "le_send e (JObj (spoken ch u ?t)) = Some n" using assms(6) by fastforce
  ultimately show ?thesis by (simp add: post_def send_to_def sendContent_def)
qed

theorem attachment_roundtrip_witness:
  "\<exists>k1 os blob m. sendFile (example_env True) ''key!'' ''id'' (\<lambda>i b. True) ''c'' ''general'' example_pick example_talk = Some (k1, os) \<and>
     encryptBlob keyed_enc (replicate 12 (CHR ''n'')) ''key!'' ''hello'' = Some blob \<and>
     Act (Send (JObj (spoken ''general'' (Attachment m) 5))) \<in> set os \<and> fetchFile keyed_dec (\<lambda>i. Some blob) m = Some ''hello''"
proof -
  let ?e = "example_env True" and ?m = "file_json example_pick (b64url_enc ''id'') ''key!''"
  obtain blob where blob: "encryptBlob keyed_enc (replicate 12 (CHR ''n'')) ''key!'' ''hello'' = Some blob" by (simp add: encryptBlob_def keyed_enc_def)
  have c: "map_of (tk_circles example_talk) ''c'' = Some example_reader" and me: "tk_me example_talk \<noteq> []" by (simp_all add: example_talk_def)
  have keys: "has_keys example_reader ''general''"
    by (simp add: has_keys_def example_reader_def chan_meta_at_def dget_def example_keys_def b64_enc_nonempty)
  have names: "\<not> is_index ''size''" "\<not> is_index ''mime''" "\<not> is_index ''blob''" "\<not> is_index ''key''" by code_simp+
  have said: "said (Attachment ?m)" by (simp add: file_json_def tidy_object field_names names is_finite_def del: tidy.simps(4))
  from post_returns [OF c keys said me, of ?e] obtain k1 os' where post: "post ?e ''c'' ''general'' (Attachment ?m) example_talk = Some (k1, os')"
    by (auto simp: example_env_def)
  then have run: "sendFile ?e ''key!'' ''id'' (\<lambda>i b. True) ''c'' ''general'' example_pick example_talk =
      Some (k1, [Act (Request (JObj [(''t'', JStr ''blob_ticket''), (''id'', JStr (b64url_enc ''id''))])), Upload (b64url_enc ''id'') blob] @ os')"
    using blob by (simp add: sendFile_def FILE_MAX_def example_pick_def example_env_def Let_def)
  have "Upload i b \<notin> set os'" for i b
    using post appendLog_log(8) [OF _ c] by (auto simp: post_def send_to_def sendContent_def bind_eq_Some_conv split: option.splits)
  then have up: "\<forall>i b. Upload i b \<in> set ([Act (Request (JObj [(''t'', JStr ''blob_ticket''), (''id'', JStr (b64url_enc ''id''))])), Upload (b64url_enc ''id'') blob] @ os') \<longrightarrow> Some blob = Some b"
    by auto
  have "aead_opens (le_enc ?e) keyed_dec" "length (le_iv ?e) = 12" by (simp_all add: example_env_def keyed_cipher(1))
  from attachment_roundtrip [OF this run, of "\<lambda>i. Some blob"] up run blob show ?thesis by (fastforce simp: example_pick_def example_env_def simp del: spoken.simps)
qed

section \<open>Two defects\<close>

definition example_edit :: "string \<Rightarrow> rat \<Rightarrow> nat option \<Rightarrow> item" where
  "example_edit w t seq = \<lparr>it_seq = seq, it_entry = JObj (written ''ann'' (Edit (Fin 5) w) t), it_auth = Signed, it_local = (seq = None)\<rparr>"

definition shown_text :: "channel_log \<Rightarrow> body option list throws" where
  "shown_text l = map_option (map msg_body) (renderLog l)"

text \<open>
  A live edit outranks a later one. The first edit arrives live, the second one only with a page of the log: the first keeps its
  local place, after everything the relay numbers, although the page also carries the relay's copy of it. The reader shows the
  first edit; a reader who only reads the page shows the second.
\<close>

lemma live_edit_outranks_later_edit:
  "let pl = \<lparr>pl_server = ''c'', pl_channel = ''general''\<rparr>;
       line = \<lparr>it_seq = Some 1, it_entry = JObj (written ''ann'' (Chat ''a'' None) 5), it_auth = Signed, it_local = False\<rparr>;
       page = [line, example_edit ''b'' 6 (Some 2), example_edit ''c'' 7 (Some 3)]
   in do { (l, n) \<leftarrow> addEntries createChannelLog page pl; shown_text l } = Some [Some (TextBody (JStr ''c''))] \<and>
      do { (l1, n1) \<leftarrow> addEntries createChannelLog [line, example_edit ''b'' 6 None] pl; (l2, n2) \<leftarrow> addEntries l1 page pl; shown_text l2 }
        = Some [Some (TextBody (JStr ''b''))]"
  by (simp add: log_eval example_edit_def written_def to_field_def reply_field_def shown_text_def renderLog_def replay_def apply_mutation_def applyEdit_def
      target_id_def messageId_def rat_str_inj is_text_def is_object_def)

text \<open>
  The ciphertext of a line stays when its author deletes it in the session that wrote it: the line on the author's screen has no
  number of the relay, so no redaction is asked for.
\<close>

lemma no_number_no_redaction:
  assumes "deleteMessage e server ch m k = Some (k1, os)" and "msg_seq m = None"
  shows "Act (Request (redact_request server' hid q)) \<notin> set os"
proof (cases "map_of (tk_circles k) server = None \<or> msg_sender m \<noteq> tk_me k")
  case False
  then obtain r where r: "map_of (tk_circles k) server = Some r" by auto
  from assms False obtain seq k0 o0 k2 o3 where run: "appendLog e server ch (logged (Delete (msg_ts m)) (le_now e)) (le_now e) k = Some (seq, k0, o0)"
    "send_to e server (JObj (spoken ch (Delete (msg_ts m)) (le_now e))) k0 = Some (k2, o3)" "os = o0 @ o3"
    by (auto simp: deleteMessage_def bind_eq_Some_conv)
  have "Act (Request (redact_request server' hid q)) \<notin> set o3" using run(2) by (auto simp: send_to_def sendContent_def bind_eq_Some_conv split: option.splits)
  with run(3) appendLog_log(7) [OF run(1) r] show ?thesis by simp
qed (use assms in \<open>simp add: deleteMessage_def\<close>)

lemma own_line_is_not_redacted:
  assumes "map_of (tk_circles k) server = Some r" and "tk_me k \<noteq> []" and "0 < t"
    and "map_of (base (log_at server ch k)) (messageId (tk_me k) (Fin t)) = None"
    and "deliverChat e server ch w t reply k = Some (Inr (), k1, os)"
  shows "\<exists>m. map_of (base (log_at server ch k1)) (messageId (tk_me k) (Fin t)) = Some m \<and>
    (\<forall>e' k2 os' hid q. deleteMessage e' server ch m k1 = Some (k2, os') \<longrightarrow> Act (Request (redact_request server hid q)) \<notin> set os')"
proof -
  from deliver_line(1) [OF assms(5,1-3)] assms(4) obtain m where m: "map_of (base (log_at server ch k1)) (messageId (tk_me k) (Fin t)) = Some m" "msg_seq m = None"
    by (auto simp: map_add_def)
  with no_number_no_redaction show ?thesis by blast
qed

end
