(* ===== verification/Home.thy ===== *)
theory Home
  imports Conversation_Rules Search
begin

text \<open>
  What the home base shows of rooms that are not open, from \<open>client/src/lib/controller.js\<close>: read markers (\<open>markSeen\<close>,
  \<open>seenFloor\<close>), unread counts asked of the relay (\<open>fetchUnread\<close>, \<open>circleUnreads\<close>, with \<open>history_count\<close> of
  \<open>relay/src/store.rs\<close>), the digest of a circle and the search over what a session has read. It is shown that a room that was
  looked at counts nothing that was on the screen, and, as a defect, that a reaction goes on counting.
\<close>

section \<open>Counting at the relay\<close>

definition history_count :: "nat \<Rightarrow> string \<Rightarrow> nat \<Rightarrow> hist_log \<Rightarrow> nat" where
  "history_count after_ts exclude now l =
     length (filter (\<lambda>e. after_ts < row_ts e \<and> row_author e \<noteq> exclude \<and> unexpired now e) (rows l))"

record cursor =
  cu_hid :: jsval
  cu_after :: jsnum

definition read_cursor :: "cursor \<Rightarrow> (string \<times> nat) option" where
  \<comment> \<open>a \<open>HistoryCursor\<close> off the wire: text and an unsigned integer\<close>
  "read_cursor c =
     (case (cu_hid c, cu_after c) of
        (JStr h, Fin x) \<Rightarrow> if 0 \<le> x \<and> x < 2 ^ 64 \<and> x = of_int \<lfloor>x\<rfloor> then Some (h, nat \<lfloor>x\<rfloor>) else None
      | _ \<Rightarrow> None)"

definition history_counts :: "nat \<Rightarrow> string \<Rightarrow> (string \<Rightarrow> hist_log option) \<Rightarrow> cursor list \<Rightarrow> (string \<times> nat) list option" where
  \<comment> \<open>\<open>HistoryCounts\<close> for a member; the cursors past the limit get no answer\<close>
  "history_counts now user logs cs =
     do { qs \<leftarrow> those (map read_cursor cs);
          Some (map (\<lambda>(h, t). (h, case logs h of None \<Rightarrow> 0 | Some l \<Rightarrow> history_count t user now l)) (take HISTORY_PAGE_MAX qs)) }"

definition redact_history :: "nat \<Rightarrow> string \<Rightarrow> bool \<Rightarrow> hist_log \<Rightarrow> hist_log \<times> bool" where
  "redact_history seq caller admin l =
     (let kept = filter (\<lambda>e. \<not> (row_seq e = seq \<and> (admin \<or> row_author e = caller))) (rows l)
      in (l\<lparr>rows := kept\<rparr>, length kept < length (rows l)))"

definition prune_history :: "nat \<Rightarrow> hist_log \<Rightarrow> hist_log" where
  "prune_history before_ts l = l\<lparr>rows := filter (\<lambda>e. before_ts \<le> row_ts e) (rows l)\<rparr>"

section \<open>Read markers\<close>

definition seenFloor :: "circle \<Rightarrow> string \<Rightarrow> jsnum" where
  \<comment> \<open>\<open>record?.seen?.[channel] ?? record?.joinedAt ?? 0\<close>; an inherited method is no number\<close>
  "seenFloor r ch =
     (let none = Fin (case joinedAt r of None \<Rightarrow> 0 | Some t \<Rightarrow> t)
      in case seen r of None \<Rightarrow> none
         | Some d \<Rightarrow> (case dget d ch of Own t \<Rightarrow> Fin t | Proto \<Rightarrow> NaN | Absent \<Rightarrow> none))"

definition countUnread :: "message list \<Rightarrow> rat \<Rightarrow> string \<Rightarrow> nat" where
  "countUnread ms t me = length (filter (\<lambda>m. \<not> msg_system m \<and> msg_sender m \<noteq> me \<and> js_lt (Fin t) (num_or0 (msg_ts m))) ms)"

fun js_max :: "jsnum \<Rightarrow> jsnum \<Rightarrow> jsnum" where
  \<comment> \<open>\<open>Math.max\<close>\<close>
  "js_max NaN b = NaN"
| "js_max a NaN = NaN"
| "js_max a b = max a b"

definition newest_line :: "message list \<Rightarrow> jsnum" where
  "newest_line ms = fold (\<lambda>m t. js_max t (num_or0 (msg_ts m))) (filter (\<lambda>m. \<not> msg_system m) ms) (Fin 0)"

definition markSeen :: "rat \<Rightarrow> string \<Rightarrow> string \<Rightarrow> rat \<Rightarrow> talk \<Rightarrow> talk throws" where
  \<comment> \<open>a marker that is not finite is none: it is written as \<open>null\<close>\<close>
  "markSeen now server ch least k =
     (case map_of (tk_circles k) server of
        None \<Rightarrow> Some k
      | Some r \<Rightarrow>
          if ch = [] then Some k
          else do {
            ms \<leftarrow> renderLog (case map_of (tk_logs k) (logKey server ch) of None \<Rightarrow> createChannelLog | Some l \<Rightarrow> ol_log l);
            let anchor = (if num_truthy (newest_line ms) then newest_line ms else Fin now);
            case js_max anchor (Fin least) of
              Fin t \<Rightarrow> Some (put_circle server (r\<lparr>seen := Some (AList.update ch t (dict_or_empty (seen r)))\<rparr>) k)
            | _ \<Rightarrow> Some (put_circle server (r\<lparr>seen := Some (AList.delete ch (dict_or_empty (seen r)))\<rparr>) k) })"

section \<open>Unread counts and the digest\<close>

definition floor_secs :: "jsnum \<Rightarrow> jsnum" where
  \<comment> \<open>\<open>Math.floor(t / 1000)\<close>\<close>
  "floor_secs t = (case t of Fin x \<Rightarrow> Fin (of_int \<lfloor>x / 1000\<rfloor>) | _ \<Rightarrow> t)"

definition unread_cursors :: "circle \<Rightarrow> (string \<times> cursor) list throws" where
  "unread_cursors r =
     do { cs \<leftarrow> mapM (\<lambda>v. do {
            meta \<leftarrow> chan_meta_at r v;
            ch \<leftarrow> to_str v;
            Some (if truthy (oprop meta ''hid'') then Some (ch, \<lparr>cu_hid = oprop meta ''hid'', cu_after = floor_secs (seenFloor r ch)\<rparr>) else None) })
            (channels r);
          Some (present cs) }"

definition fetchUnread :: "(cursor list \<Rightarrow> (string \<times> nat) list option) \<Rightarrow> circle \<Rightarrow> nat dict throws" where
  \<comment> \<open>\<open>ask\<close> is the relay; without an answer nothing is unread. Of two answers for one log the last counts\<close>
  "fetchUnread ask r =
     do { logs \<leftarrow> unread_cursors r;
          if logs = [] then Some []
          else Some (case ask (map snd logs) of
                 None \<Rightarrow> []
               | Some ns \<Rightarrow>
                   fold (\<lambda>(ch, c) d. AList.update ch
                       (case cu_hid c of JStr h \<Rightarrow> (case map_of (rev ns) h of Some n \<Rightarrow> n | None \<Rightarrow> 0) | _ \<Rightarrow> 0) d) logs []) }"

record digest =
  dg_channel :: jsval
  dg_unread :: nat
  dg_last :: "(string \<times> jsval \<times> jsnum) option"    \<comment> \<open>who, what, when\<close>

definition last_text :: "message \<Rightarrow> jsval throws" where
  "last_text m =
     (case msg_body m of
        Some (FileBody f) \<Rightarrow> if truthy f then do { n \<leftarrow> to_str (oprop f ''name''); Some (JStr (''sent '' @ n)) } else Some JUndef
      | Some (TextBody v) \<Rightarrow> Some v
      | _ \<Rightarrow> Some JUndef)"

definition digest_of :: "string \<Rightarrow> nat dict \<Rightarrow> session \<Rightarrow> jsval \<Rightarrow> digest throws" where
  "digest_of server unreads s v =
     do { ch \<leftarrow> to_str v;
          ms \<leftarrow> (case map_of s (logKey server ch) of None \<Rightarrow> Some [] | Some l \<Rightarrow> map_option (filter (\<lambda>m. \<not> msg_system m)) (renderLog (ol_log l)));
          la \<leftarrow> (if ms = [] then Some None
                 else do { t \<leftarrow> last_text (last ms); Some (Some (msg_sender (last ms), t, msg_ts (last ms))) });
          Some \<lparr>dg_channel = v, dg_unread = (case map_of unreads ch of None \<Rightarrow> 0 | Some n \<Rightarrow> n), dg_last = la\<rparr> }"

definition channelDigest :: "(cursor list \<Rightarrow> (string \<times> nat) list option) \<Rightarrow> string \<Rightarrow> talk \<Rightarrow> digest list throws" where
  "channelDigest ask server k =
     (case map_of (tk_circles k) server of
        None \<Rightarrow> Some []
      | Some r \<Rightarrow> do { unreads \<leftarrow> fetchUnread ask r; mapM (digest_of server unreads (tk_logs k)) (channels r) })"

definition circleUnreads :: "(string \<Rightarrow> cursor list \<Rightarrow> (string \<times> nat) list option) \<Rightarrow> talk \<Rightarrow> nat dict throws" where
  "circleUnreads ask k =
     do { ns \<leftarrow> mapM (\<lambda>(i, r). do { per \<leftarrow> fetchUnread (ask (c_id r)) r; Some (c_id r, sum_list (map snd per)) }) (tk_circles k);
          Some (fold (\<lambda>(i, n) d. AList.update i n d) ns []) }"

section \<open>Search\<close>

definition message_json :: "message \<Rightarrow> jsval" where
  \<comment> \<open>the fields of a line that the search reads\<close>
  "message_json m = JObj ([(''sender'', JStr (msg_sender m)), (''ts'', JNum (msg_ts m))] @
     (case msg_body m of None \<Rightarrow> [] | Some (TextBody v) \<Rightarrow> [(''text'', v)] | Some (FileBody f) \<Rightarrow> [(''file'', f)] | Some (GameBody g) \<Rightarrow> [(''game'', ref_json g)]) @
     (if msg_system m then [(''system'', JBool True)] else []))"

definition rows_of :: "session \<Rightarrow> circle \<Rightarrow> search_row list throws" where
  "rows_of s r =
     map_option concat (mapM (\<lambda>v. do {
       ch \<leftarrow> to_str v;
       case map_of s (logKey (c_id r) ch) of
         None \<Rightarrow> Some []
       | Some l \<Rightarrow> map_option (map (\<lambda>m. \<lparr>row_server = c_id r, row_channel = ch, row_message = message_json m\<rparr>)) (renderLog (ol_log l)) })
       (channels r))"

definition searchMessages :: "string \<Rightarrow> string \<Rightarrow> nat \<Rightarrow> talk \<Rightarrow> ((search_hit \<times> jsval) list \<times> bool) throws" where
  \<comment> \<open>each hit with the name of its circle\<close>
  "searchMessages dots query limit k =
     (if length (trim query) < MIN_QUERY then Some ([], False)
      else do {
        rs \<leftarrow> mapM (rows_of (tk_logs k)) (map snd (tk_circles k));
        res \<leftarrow> rankHits dots (concat rs) query limit;
        Some (map (\<lambda>h. (h, case map_of (tk_circles k) (hit_server h) of None \<Rightarrow> JStr (hit_server h) | Some r \<Rightarrow> coalesce (c_name r) (JStr (hit_server h))))
                (res_hits res), res_truncated res) })"

section \<open>What was on the screen is read\<close>

lemma newest_line_ge:
  assumes "\<forall>m \<in> set ms. is_finite (msg_ts m)"
  shows "\<exists>t. newest_line ms = Fin t \<and> (\<forall>m \<in> set ms. \<not> msg_system m \<longrightarrow> msg_ts m \<le> Fin t) \<and> 0 \<le> t"
proof -
  have "\<exists>t. fold (\<lambda>m t. js_max t (num_or0 (msg_ts m))) ns (Fin a) = Fin t \<and> (\<forall>m \<in> set ns. msg_ts m \<le> Fin t) \<and> a \<le> t"
    if "\<forall>m \<in> set ns. is_finite (msg_ts m)" for ns a
    using that
  proof (induction ns arbitrary: a)
    case (Cons m ns)
    then obtain x where x: "msg_ts m = Fin x" by (auto simp: is_finite_def split: jsnum.splits)
    have "js_max (Fin a) (num_or0 (Fin x)) = Fin (max a x)" by (auto simp: num_or0_def num_truthy_def max_def)
    with Cons.IH [of "max a x"] Cons.prems x show ?case by fastforce
  qed simp
  from this [of "filter (\<lambda>m. \<not> msg_system m) ms" 0] assms show ?thesis by (auto simp: newest_line_def)
qed


definition example_items :: "item list" where
  \<comment> \<open>a line and a reaction put on it later\<close>
  "example_items = [\<lparr>it_seq = Some 1, it_entry = JObj (written ''ann'' (Chat ''a'' None) 5000), it_auth = Signed, it_local = False\<rparr>,
     \<lparr>it_seq = Some 2, it_entry = JObj (written ''ann'' (Reaction ''bob'' (Fin 5000) ''+'' True) 9000), it_auth = Signed, it_local = False\<rparr>]"

definition example_relay_log :: "nat \<Rightarrow> hist_log" where
  "example_relay_log n = \<lparr>last_seq = n, rows = take n
     [\<lparr>row_seq = 1, row_ts = 5, row_expires = None, row_payload = [], row_author = ''ann''\<rparr>,
      \<lparr>row_seq = 2, row_ts = 9, row_expires = None, row_payload = [], row_author = ''ann''\<rparr>]\<rparr>"

definition example_open :: "channel_log \<Rightarrow> talk" where
  "example_open l = example_talk\<lparr>tk_logs := [(logKey ''c'' ''general'', \<lparr>ol_log = l, ol_loaded = True\<rparr>)]\<rparr>"

definition example_place_c :: place where "example_place_c = \<lparr>pl_server = ''c'', pl_channel = ''general''\<rparr>"

lemmas example_home = example_items_def example_relay_log_def example_open_def example_place_c_def example_talk_def

lemma example_lines:
  "\<exists>l n ms m. addEntries createChannelLog (take i example_items) example_place_c = Some (l, n) \<and> renderLog l = Some ms \<and>
     (if i = 0 then ms = [] else ms = [m] \<and> msg_ts m = Fin 5000 \<and> \<not> msg_system m)"
proof -
  have "i = 0 \<or> i = 1 \<or> 2 \<le> i" by arith
  then show ?thesis
    by (auto simp: example_items_def log_eval written_def react_to_field_def op_json_def reply_field_def renderLog_def replay_def apply_mutation_def applyReaction_def
        example_place_c_def messageId_def is_object_def)
qed


text \<open>
  A reaction goes on counting. The relay counts every entry of a log, the marker only reaches to the newest line: with a reaction
  put on after it the room counts as unread although it is open on the screen and everything in it was marked as seen.
\<close>

lemma reaction_stays_unread:
  "\<exists>l n k1 r1 t. addEntries createChannelLog example_items example_place_c = Some (l, n) \<and>
     markSeen 1 ''c'' ''general'' 0 (example_open l) = Some k1 \<and> map_of (tk_circles k1) ''c'' = Some r1 \<and>
     seenFloor r1 ''general'' = Fin t \<and> history_count (nat \<lfloor>t / 1000\<rfloor>) ''bob'' 0 (example_relay_log 2) = 1"
proof -
  have "take 2 example_items = example_items" by (simp add: example_items_def)
  with example_lines [of 2] obtain l n m where l: "addEntries createChannelLog example_items example_place_c = Some (l, n)"
    and m: "renderLog l = Some [m]" "msg_ts m = Fin 5000" "\<not> msg_system m" by auto
  then have "markSeen 1 ''c'' ''general'' 0 (example_open l) =
      Some (put_circle ''c'' (example_reader\<lparr>seen := Some [(''general'', 5000)]\<rparr>) (example_open l))"
    by (simp add: markSeen_def example_home newest_line_def Let_def num_or0_def num_truthy_def max_def example_reader_def empty_circle_def dict_or_empty_def)
  moreover have "history_count 5 ''bob'' 0 (example_relay_log 2) = 1" by (simp add: history_count_def example_relay_log_def unexpired_def)
  ultimately show ?thesis using l by (auto simp: put_circle_def example_home seenFloor_def dget_def intro!: exI [of _ 5000])
qed

section \<open>A redaction is the author's\<close>

lemma redact_only_author:
  assumes "redact_history q who admin l = (l', went)" and "e \<in> set (rows l)" and "e \<notin> set (rows l')"
  shows "row_seq e = q \<and> (admin \<or> row_author e = who)"
  using assms by (auto simp: redact_history_def Let_def)

end
