(* ===== verification/Pane.thy ===== *)
theory Pane
  imports Circle ChannelLog
begin

text \<open>
  The state of the window, the reducer of \<open>client/src/App.jsx\<close>: which circle and room are open and the lines in the pane. The
  lines are those the log renders; ones that arrive live are put in as they come. It is shown that the pane stays in order,
  that it shows the open room only and loses no line that arrived while the room was open, and that a change of the circles
  never leaves a room open that is gone. Timestamps are compared as numbers; fields that nothing else reads are values.
\<close>

section \<open>State and actions\<close>

record spot =
  at_server :: "string option"
  at_channel :: jsval                  \<comment> \<open>a name, or \<open>null\<close> for the overview of the circle\<close>

record app =
  phase :: string
  fatal :: "string option"
  me_value :: jsval
  app_servers :: "circle list"
  active :: spot
  pane :: "message list"               \<comment> \<open>\<open>messages\<close>, of the open room\<close>
  connection :: string
  toast :: jsval
  announce :: jsval
  modal :: jsval
  voice_state :: jsval
  vault :: "jsval \<times> jsval"
  globalAdmin :: jsval
  circlesLoading :: jsval
  storageAtRisk :: "jsval option"
  messagesRev :: nat

definition nowhere :: spot where "nowhere = \<lparr>at_server = None, at_channel = JNull\<rparr>"

definition initial :: app where
  "initial = \<lparr>phase = ''loading'', fatal = None, me_value = JNull, app_servers = [], active = nowhere, pane = [], connection = ''connecting'',
     toast = JNull, announce = JUndef, modal = JNull, voice_state = JObj [(''active'', JNull), (''connections'', JObj []), (''presence'', JObj [])],
     vault = (JUndef, JBool True), globalAdmin = JBool False, circlesLoading = JBool True, storageAtRisk = None, messagesRev = 0\<rparr>"

definition body_text :: "message \<Rightarrow> string throws" where
  \<comment> \<open>\<open>m.text ?? ''\<close> in a template\<close>
  "body_text m = (case msg_body m of Some (TextBody v) \<Rightarrow> to_str (coalesce v (JStr [])) | _ \<Rightarrow> Some [])"

definition messageKey :: "message \<Rightarrow> string" where
  \<comment> \<open>the text of a notice is a string\<close>
  "messageKey m =
     (if msg_system m then ''s|'' @ msg_sender m @ ''|'' @ num_str (msg_ts m) @ ''|'' @ (case body_text m of Some w \<Rightarrow> w | None \<Rightarrow> [])
      else ''m|'' @ msg_sender m @ ''|'' @ num_str (msg_ts m))"

datatype app_action =
    Phase string
  | Fatal string
  | StorageAtRisk jsval
  | CirclesLoading jsval
  | Booted jsval "circle list"
  | Servers "circle list"
  | Select "string option" jsval
  | Messages string string "message list"     \<comment> \<open>a load that has come back, with the room it was for\<close>
  | NewMessage message
  | Connection string
  | ToastAct jsval
  | Announce jsval
  | ModalAct jsval
  | VoiceAct jsval
  | VaultAct jsval jsval
  | Admin jsval
  | RefreshPane
  | Unknown string

section \<open>The reducer\<close>

definition front_door :: "circle list \<Rightarrow> spot" where
  \<comment> \<open>the overview of the first circle\<close>
  "front_door ss = (case ss of [] \<Rightarrow> nowhere | r # _ \<Rightarrow> \<lparr>at_server = Some (c_id r), at_channel = JNull\<rparr>)"

definition follow :: "circle list \<Rightarrow> spot \<Rightarrow> spot" where
  \<comment> \<open>the case \<open>servers\<close>\<close>
  "follow ss a =
     (case at_server a of
        None \<Rightarrow> if ss \<noteq> [] then front_door ss else a
      | Some i \<Rightarrow>
          if i = [] then (if ss \<noteq> [] then front_door ss else a)
          else (case find (\<lambda>r. c_id r = i) ss of
                  None \<Rightarrow> front_door ss
                | Some r \<Rightarrow>
                    if truthy (at_channel a) \<and> at_channel a \<notin> set (channels r)
                    then a\<lparr>at_channel := (case channels r of [] \<Rightarrow> JUndef | c # _ \<Rightarrow> c)\<rparr> else a))"

definition in_room :: "string \<Rightarrow> string \<Rightarrow> message \<Rightarrow> bool" where
  "in_room server ch m \<longleftrightarrow> msg_server m = server \<and> msg_channel m = ch"

definition is_open :: "string \<Rightarrow> string \<Rightarrow> spot \<Rightarrow> bool" where
  "is_open server ch a \<longleftrightarrow> at_server a = Some server \<and> at_channel a = JStr ch"

definition merge_load :: "string \<Rightarrow> string \<Rightarrow> message list \<Rightarrow> message list \<Rightarrow> message list" where
  \<comment> \<open>the case \<open>messages\<close>: the load, and the live arrivals it missed\<close>
  "merge_load server ch loaded ms =
     sort_key msg_ts (loaded @ filter (\<lambda>m. in_room server ch m \<and> messageKey m \<notin> messageKey ` set loaded) ms)"

fun reducer :: "app \<Rightarrow> app_action \<Rightarrow> app" where
  "reducer s (Phase p) = s\<lparr>phase := p\<rparr>"
| "reducer s (Fatal w) = s\<lparr>phase := ''fatal'', fatal := Some w\<rparr>"
| "reducer s (StorageAtRisk v) = s\<lparr>storageAtRisk := Some v\<rparr>"
| "reducer s (CirclesLoading v) = s\<lparr>circlesLoading := v\<rparr>"
| "reducer s (Booted me ss) = s\<lparr>phase := ''ready'', me_value := me, app_servers := ss, active := front_door ss\<rparr>"
| "reducer s (Servers ss) = s\<lparr>app_servers := ss, active := follow ss (active s)\<rparr>"
| "reducer s (Select server ch) =
     s\<lparr>active := \<lparr>at_server = server, at_channel = ch\<rparr>,
       pane := (if at_server (active s) = server \<and> at_channel (active s) = ch then pane s else [])\<rparr>"
| "reducer s (Messages server ch loaded) =
     (if is_open server ch (active s) then s\<lparr>pane := merge_load server ch loaded (pane s)\<rparr> else s)"
| "reducer s (NewMessage m) =
     (if is_open (msg_server m) (msg_channel m) (active s) then s\<lparr>pane := sort_key msg_ts (pane s @ [m])\<rparr> else s)"
| "reducer s (Connection c) = s\<lparr>connection := c\<rparr>"
| "reducer s (ToastAct v) = s\<lparr>toast := v\<rparr>"
| "reducer s (Announce v) = s\<lparr>announce := v\<rparr>"
| "reducer s (ModalAct v) = s\<lparr>modal := v\<rparr>"
| "reducer s (VoiceAct v) = s\<lparr>voice_state := v\<rparr>"
| "reducer s (VaultAct v w) = s\<lparr>vault := (v, w)\<rparr>"
| "reducer s (Admin v) = s\<lparr>globalAdmin := v\<rparr>"
| "reducer s RefreshPane = s\<lparr>messagesRev := messagesRev s + 1\<rparr>"
| "reducer s (Unknown t) = s"

definition run_app :: "app_action list \<Rightarrow> app \<Rightarrow> app" where
  "run_app acts s = fold (\<lambda>a s. reducer s a) acts s"

lemma run_app_simps [simp]: "run_app [] s = s" "run_app (a # as) s = run_app as (reducer s a)"
  by (simp_all add: run_app_def)

section \<open>The room that is open is there\<close>

definition spot_exists :: "circle list \<Rightarrow> spot \<Rightarrow> bool" where
  "spot_exists ss a \<longleftrightarrow> (\<forall>r \<in> set ss. c_id r \<noteq> []) \<and>
     (case at_server a of
        None \<Rightarrow> True
      | Some i \<Rightarrow> \<exists>r \<in> set ss. c_id r = i \<and> (truthy (at_channel a) \<longrightarrow> at_channel a \<in> set (channels r)))"

definition open_exists :: "app \<Rightarrow> bool" where
  "open_exists s \<longleftrightarrow> spot_exists (app_servers s) (active s)"

definition picks_there :: "app \<Rightarrow> app_action \<Rightarrow> bool" where
  \<comment> \<open>what a member clicks on is on the screen; a circle has an id, and one circle has it\<close>
  "picks_there s a \<longleftrightarrow>
     (case a of
        Select server ch \<Rightarrow> open_exists (s\<lparr>active := \<lparr>at_server = server, at_channel = ch\<rparr>\<rparr>)
      | Servers ss \<Rightarrow> \<forall>r \<in> set ss. c_id r \<noteq> []
      | Booted me ss \<Rightarrow> \<forall>r \<in> set ss. c_id r \<noteq> []
      | _ \<Rightarrow> True)"

fun all_picks_there :: "app_action list \<Rightarrow> app \<Rightarrow> bool" where
  "all_picks_there [] s = True"
| "all_picks_there (a # as) s = (picks_there s a \<and> all_picks_there as (reducer s a))"

lemma front_door_exists: "\<forall>r \<in> set ss. c_id r \<noteq> [] \<Longrightarrow> open_exists (s\<lparr>app_servers := ss, active := front_door ss\<rparr>)"
  by (cases ss) (simp_all add: open_exists_def spot_exists_def front_door_def nowhere_def)

lemma follow_exists:
  assumes "open_exists s" and ids: "\<forall>r \<in> set ss. c_id r \<noteq> []"
  shows "open_exists (s\<lparr>app_servers := ss, active := follow ss (active s)\<rparr>)"
proof (cases "at_server (active s)")
  case None
  with front_door_exists [OF ids, where s = s] show ?thesis by (auto simp: follow_def open_exists_def spot_exists_def)
next
  case (Some i)
  with assms(1) have i: "i \<noteq> []" by (auto simp: open_exists_def spot_exists_def)
  show ?thesis
  proof (cases "find (\<lambda>r. c_id r = i) ss")
    case None
    with Some i front_door_exists [OF ids, where s = s] show ?thesis by (simp add: follow_def)
  next
    case (Some r)
    then have "r \<in> set ss" "c_id r = i" by (auto simp: find_Some_iff)
    with Some i \<open>at_server (active s) = Some i\<close> ids show ?thesis by (cases "channels r") (auto simp: follow_def open_exists_def spot_exists_def)
  qed
qed

lemma reducer_exists: "open_exists s \<Longrightarrow> picks_there s a \<Longrightarrow> open_exists (reducer s a)"
proof (cases a)
  case (Booted me ss)
  assume "picks_there s a"
  with Booted front_door_exists [of ss "s\<lparr>phase := ''ready'', me_value := me\<rparr>"] show ?thesis by (simp add: picks_there_def)
next
  case (Servers ss)
  assume "open_exists s" "picks_there s a"
  with Servers follow_exists [of s ss] show ?thesis by (simp add: picks_there_def)
next
  case (Select server ch)
  assume "picks_there s a"
  with Select show ?thesis by (simp add: picks_there_def open_exists_def)
qed (simp_all add: open_exists_def)

text \<open>
  The open room is always one there is. Whatever arrives while the window is open, rooms renamed or deleted, circles left or
  joined, as long as a member opens what is on the screen, the open circle is one of the circles and the open room, if one is
  open, one of its rooms.
\<close>

theorem open_room_exists:
  assumes "all_picks_there acts initial"
  shows "open_exists (run_app acts initial)"
proof -
  have "open_exists s \<Longrightarrow> all_picks_there acts s \<Longrightarrow> open_exists (run_app acts s)" for s
    by (induction acts arbitrary: s) (simp_all add: reducer_exists)
  moreover have "open_exists initial" by (simp add: open_exists_def spot_exists_def initial_def nowhere_def)
  ultimately show ?thesis using assms by blast
qed

definition example_rooms :: "jsval list \<Rightarrow> circle" where
  "example_rooms chs = (empty_circle ''c'')\<lparr>channels := chs\<rparr>"

theorem open_room_exists_witness:
  "let acts = [Booted (JStr ''bob'') [example_rooms [JStr ''general'', JStr ''garden'']], Select (Some ''c'') (JStr ''garden''),
       Servers [example_rooms [JStr ''general'', JStr ''yard'']]]
   in all_picks_there acts initial \<and> open_exists (run_app acts initial) \<and> at_channel (active (run_app acts initial)) = JStr ''general''"
  using open_room_exists [of "[Booted (JStr ''bob'') [example_rooms [JStr ''general'', JStr ''garden'']], Select (Some ''c'') (JStr ''garden''),
       Servers [example_rooms [JStr ''general'', JStr ''yard'']]]"]
  by (simp add: picks_there_def open_exists_def spot_exists_def initial_def nowhere_def front_door_def follow_def example_rooms_def empty_circle_def)

section \<open>The pane\<close>

definition steady :: "app \<Rightarrow> app_action \<Rightarrow> bool" where
  \<comment> \<open>a load carries lines of its room, and a change of the circles leaves the open room or finds an empty pane\<close>
  "steady s a \<longleftrightarrow>
     (case a of
        Messages server ch ms \<Rightarrow> \<forall>m \<in> set ms. in_room server ch m
      | Servers ss \<Rightarrow> follow ss (active s) = active s \<or> pane s = []
      | Booted me ss \<Rightarrow> front_door ss = active s \<or> pane s = []
      | _ \<Rightarrow> True)"

fun all_steady :: "app_action list \<Rightarrow> app \<Rightarrow> bool" where
  "all_steady [] s = True"
| "all_steady (a # as) s = (steady s a \<and> all_steady as (reducer s a))"

fun stays_put :: "app_action list \<Rightarrow> app \<Rightarrow> bool" where
  \<comment> \<open>no action moves to another room\<close>
  "stays_put [] s = True"
| "stays_put (a # as) s = (active (reducer s a) = active s \<and> stays_put as (reducer s a))"

definition pane_ok :: "app \<Rightarrow> bool" where
  "pane_ok s \<longleftrightarrow> sorted (map msg_ts (pane s)) \<and> (\<forall>m \<in> set (pane s). is_open (msg_server m) (msg_channel m) (active s))"

lemma reducer_pane: "pane_ok s \<Longrightarrow> steady s a \<Longrightarrow> pane_ok (reducer s a)"
  by (cases a) (auto simp: pane_ok_def steady_def merge_load_def in_room_def is_open_def split: if_splits)

lemma key_kept:
  assumes "m \<in> set (pane s)" and "in_room server ch m" and "is_open server ch (active s)" and "active (reducer s a) = active s"
  shows "messageKey m \<in> messageKey ` set (pane (reducer s a))"
proof (cases a)
  case (Messages server' ch' loaded)
  with assms show ?thesis by (cases "is_open server' ch' (active s)") (auto simp: merge_load_def is_open_def)
next
  case (Select sv c)
  with assms(4) have "active s = \<lparr>at_server = sv, at_channel = c\<rparr>" by simp
  with Select assms(1) show ?thesis by simp
qed (use assms in auto)

lemma key_stays:
  assumes "stays_put acts s" and "messageKey m \<in> messageKey ` set (pane s)" and "pane_ok s" and "all_steady acts s"
  shows "messageKey m \<in> messageKey ` set (pane (run_app acts s))"
  using assms
proof (induction acts arbitrary: s)
  case (Cons a acts)
  from Cons.prems(2) obtain x where x: "x \<in> set (pane s)" "messageKey x = messageKey m" by auto
  with Cons.prems(3) have "is_open (msg_server x) (msg_channel x) (active s)" by (simp add: pane_ok_def)
  from key_kept [OF x(1) _ this] Cons.prems(1) x(2) have "messageKey m \<in> messageKey ` set (pane (reducer s a))" by (simp add: in_room_def)
  with Cons reducer_pane show ?case by simp
qed simp


definition example_message :: "string \<Rightarrow> string \<Rightarrow> rat \<Rightarrow> message" where
  "example_message ch who t = \<lparr>msg_server = ''c'', msg_channel = ch, msg_sender = who, msg_ts = Fin t, msg_body = Some (TextBody (JStr ''hi'')),
     msg_reply = None, msg_auth = None, msg_seq = None, msg_local = False, msg_edited = False, msg_deleted = False, msg_system = False,
     msg_reacts = [], msg_failed = False\<rparr>"

abbreviation example_arrival :: app_action where
  "example_arrival \<equiv> NewMessage (example_message ''general'' ''ann'' 7)"


text \<open>
  The provision cannot be dropped: when the open room is deleted the window falls back to another room and keeps the lines of the
  room that is gone in the pane until the next load.
\<close>

lemma fallback_keeps_the_old_lines:
  "let s = run_app [Booted (JStr ''bob'') [example_rooms [JStr ''general'', JStr ''garden'']], Select (Some ''c'') (JStr ''garden''),
         NewMessage (example_message ''garden'' ''ann'' 7), Servers [example_rooms [JStr ''general'']]] initial
   in is_open ''c'' ''general'' (active s) \<and> pane s = [example_message ''garden'' ''ann'' 7]"
  by (simp add: initial_def nowhere_def front_door_def follow_def example_rooms_def empty_circle_def example_message_def is_open_def)

end
