(* ===== verification/Session.thy ===== *)
theory Session
  imports Parking Paging Fork Commits
begin

text \<open>
  A session of the app, from \<open>client/src/lib/controller.js\<close>: starting from what the device has stored (\<open>boot\<close>), making or restoring
  an identity, signing out, what the relay's \<open>ready\<close> sets off, joining by an invite link, and forgetting a circle. The MLS
  snapshot in IndexedDB is known here by what the worker's \<open>boot\<close> reports of it, the name and the groups; the Rust core that
  makes clients out of names and identity bundles is the parameter \<open>core\<close>. Circle records are values, as in \<open>Parking\<close>.
\<close>

section \<open>State\<close>

record ratchet =
  rt_name :: string
  rt_groups :: "string list"

record core =
  newClient :: "string \<Rightarrow> ratchet"
  fromIdentity :: "bytes \<Rightarrow> ratchet throws"
  exportIdentity :: "ratchet \<Rightarrow> bytes"

record disk =
  kv_session :: bool
  kv_mls :: "ratchet option"
  kv_device :: "jsval dict option"
  kv_names :: "jsval dict"
  kv_secured :: "bool option"
  ls_identity :: "string option"       \<comment> \<open>\<open>localStorage\<close>, beside IndexedDB\<close>

definition blank_disk :: disk where
  "blank_disk = \<lparr>kv_session = False, kv_mls = None, kv_device = None, kv_names = [], kv_secured = None, ls_identity = None\<rparr>"

record seat =
  dev :: device
  s_me :: "string option"
  s_worker :: "ratchet option"         \<comment> \<open>the client the worker holds\<close>
  s_logs :: session
  s_forks :: fork_watch
  s_warned :: "string list"
  s_call :: "string option"            \<comment> \<open>\<open>voice.active.server\<close>\<close>
  s_invite :: "(string \<times> string) option"
  s_healed :: bool
  s_catchUp :: "(string \<times> nat) list"
  s_authError :: "string option"
  s_disk :: disk

definition new_seat :: "disk \<Rightarrow> seat" where
  \<comment> \<open>a page that was just opened\<close>
  "new_seat k = \<lparr>dev = new_device, s_me = None, s_worker = None, s_logs = [], s_forks = new_watch FORK_THRESHOLD, s_warned = [], s_call = None,
     s_invite = None, s_healed = False, s_catchUp = [], s_authError = None, s_disk = k\<rparr>"

datatype sout =
    ShowPhase string
  | ShowBooted string
  | ShowLoading bool
  | ShowCircles
  | ShowAdmin bool
  | Notice string                      \<comment> \<open>a toast\<close>
  | SystemIn string string             \<comment> \<open>a line in the first channel of a circle\<close>
  | AskDurable                         \<comment> \<open>\<open>requestPersistentStorage\<close>\<close>
  | Connect
  | StartPush                          \<comment> \<open>\<open>setupServiceWorker\<close>\<close>
  | Park                               \<comment> \<open>\<open>scheduleBackup\<close>\<close>
  | HangUp
  | Roles string
  | Directory string
  | Ask jsval                          \<comment> \<open>a request to the relay\<close>
  | PublishKeys nat                    \<comment> \<open>so many new key packages\<close>
  | ProbeCalls string
  | CatchUpOn string
  | Heal string                        \<comment> \<open>send the meta snapshot of a circle\<close>
  | CheckVault
  | Reload

section \<open>Storage\<close>

definition persistState :: "ratchet \<Rightarrow> seat \<Rightarrow> seat" where
  "persistState rt s = s\<lparr>s_worker := Some rt, s_disk := (s_disk s)\<lparr>kv_mls := Some rt\<rparr>\<rparr>"

definition loadDeviceState :: "seat \<Rightarrow> seat" where
  "loadDeviceState s = s\<lparr>dev := (dev s)\<lparr>deviceState := dict_or_empty (kv_device (s_disk s))\<rparr>\<rparr>"

definition persistDevice :: "jsval \<Rightarrow> seat \<Rightarrow> seat throws" where
  "persistDevice rec s =
     (if \<not> truthy (oprop rec ''id'') then Some s
      else do {
        i \<leftarrow> to_str (oprop rec ''id'');
        half \<leftarrow> deviceHalf rec;
        let d = AList.update i (JObj half) (deviceState (dev s));
        Some (s\<lparr>dev := (dev s)\<lparr>deviceState := d\<rparr>, s_disk := (s_disk s)\<lparr>kv_device := Some d\<rparr>\<rparr>) })"

definition circle_names :: "device \<Rightarrow> jsval dict throws" where
  "circle_names d = foldM (\<lambda>(i, r) acc. do { k \<leftarrow> to_str (oprop r ''id''); Some (dput acc k (oprop r ''name'')) }) (servers d) []"

definition persistCircleNames :: "seat \<Rightarrow> seat throws" where
  "persistCircleNames s = do { ns \<leftarrow> circle_names (dev s); Some (s\<lparr>s_disk := (s_disk s)\<lparr>kv_names := ns\<rparr>\<rparr>) }"

definition persistCircle :: "jsval \<Rightarrow> seat \<Rightarrow> (seat \<times> sout list) throws" where
  "persistCircle rec s = do { s1 \<leftarrow> persistDevice rec s; s2 \<leftarrow> persistCircleNames s1; Some (s2, [Park]) }"

definition forgetDeviceState :: "string \<Rightarrow> seat \<Rightarrow> seat" where
  \<comment> \<open>an inherited name counts as there; deleting it from the copy changes nothing\<close>
  "forgetDeviceState i s =
     (case dget (deviceState (dev s)) i of
        Absent \<Rightarrow> s
      | Own v \<Rightarrow>
          if \<not> truthy v then s
          else let d = ddel (deviceState (dev s)) i
               in s\<lparr>dev := (dev s)\<lparr>deviceState := d\<rparr>, s_disk := (s_disk s)\<lparr>kv_device := Some d\<rparr>\<rparr>
      | Proto \<Rightarrow> s\<lparr>s_disk := (s_disk s)\<lparr>kv_device := Some (deviceState (dev s))\<rparr>\<rparr>)"

definition identityKeyString :: "seat \<Rightarrow> string option" where
  "identityKeyString s = ls_identity (s_disk s)"

definition identityBytes :: "seat \<Rightarrow> bytes throws" where
  "identityBytes s = (case identityKeyString s of None \<Rightarrow> None | Some k \<Rightarrow> if k = [] then None else b64_dec k)"

section \<open>Identities\<close>

definition adopt_client :: "ratchet \<Rightarrow> seat \<Rightarrow> seat" where
  \<comment> \<open>what follows every \<open>crypto('boot', ..)\<close>\<close>
  "adopt_client rt s = persistState rt (s\<lparr>s_me := Some (rt_name rt), dev := (dev s)\<lparr>mlsGroups := map JStr (rt_groups rt)\<rparr>\<rparr>)"

definition createIdentity :: "core \<Rightarrow> string \<Rightarrow> seat \<Rightarrow> seat \<times> bytes" where
  "createIdentity c name s =
     (let rt = newClient c name; s1 = adopt_client rt s; identity = exportIdentity c rt
      in (s1\<lparr>s_disk := (s_disk s1)\<lparr>ls_identity := Some (b64_enc identity)\<rparr>\<rparr>, identity))"

definition restoreIdentity :: "core \<Rightarrow> bytes \<Rightarrow> seat \<Rightarrow> seat throws" where
  "restoreIdentity c identity s =
     do { rt \<leftarrow> fromIdentity c identity;
          let s1 = adopt_client rt s;
          Some (s1\<lparr>s_disk := (s_disk s1)\<lparr>ls_identity := Some (b64_enc identity)\<rparr>\<rparr>) }"

definition completeOnboarding :: "bool \<Rightarrow> seat \<Rightarrow> seat \<times> sout list" where
  "completeOnboarding secured s =
     (let s1 = loadDeviceState (s\<lparr>s_disk := (s_disk s)\<lparr>kv_session := True, kv_secured := Some secured\<rparr>\<rparr>)
      in (s1, [AskDurable, ShowBooted (case s_me s of None \<Rightarrow> [] | Some m \<Rightarrow> m), ShowLoading True, Connect, StartPush]))"

definition adoptIdentity :: "core \<Rightarrow> bytes \<Rightarrow> seat \<Rightarrow> (seat \<times> sout list) throws" where
  "adoptIdentity c identity s = map_option (completeOnboarding True) (restoreIdentity c identity s)"

definition CLEARED_TEXT :: string where
  "CLEARED_TEXT = ''storage was cleared: your identity and your circles survived, but this device cannot send until someone re-adds you''"

definition boot :: "core \<Rightarrow> seat \<Rightarrow> (seat \<times> sout list) throws" where
  "boot c s =
     (case (if kv_session (s_disk s) then kv_mls (s_disk s) else None) of
        Some rt \<Rightarrow>
          Some (loadDeviceState (adopt_client rt s), [ShowBooted (rt_name rt), ShowLoading True, AskDurable, Connect, StartPush])
      | None \<Rightarrow>
          (case ls_identity (s_disk s) of
             None \<Rightarrow> Some (s, [ShowPhase ''onboarding''])
           | Some k \<Rightarrow>
               if k = [] then Some (s, [ShowPhase ''onboarding''])
               else do {
                 identity \<leftarrow> b64_dec k;
                 s1 \<leftarrow> restoreIdentity c identity s;
                 let (s2, os) = completeOnboarding True s1;
                 Some (s2, os @ [Notice CLEARED_TEXT]) }))"

definition logout :: "bool \<Rightarrow> seat \<Rightarrow> seat \<times> sout list" where
  \<comment> \<open>the key is removed, the database deleted and the page loaded anew; the page does not wait for a deletion that is blocked
     or fails, \<open>deleted\<close> says whether it came about\<close>
  "logout deleted s = (new_seat (if deleted then blank_disk else (s_disk s)\<lparr>ls_identity := None\<rparr>), [Reload])"

definition onAuthRejected :: "string \<Rightarrow> seat \<Rightarrow> seat \<times> sout list" where
  "onAuthRejected message s =
     (let s1 = (if has_text message ''invite-only''
                then s\<lparr>s_me := None, s_disk := (s_disk s)\<lparr>ls_identity := None, kv_session := False\<rparr>\<rparr> else s)
      in (s1\<lparr>s_authError := Some message\<rparr>, [ShowPhase ''onboarding'']))"

section \<open>Forgetting a circle\<close>

definition forget_group :: "string \<Rightarrow> seat \<Rightarrow> seat" where
  \<comment> \<open>the worker's \<open>forgetGroup\<close>, whose snapshot is stored\<close>
  "forget_group i s = (case s_worker s of None \<Rightarrow> s | Some rt \<Rightarrow> persistState (rt\<lparr>rt_groups := filter (\<lambda>g. g \<noteq> i) (rt_groups rt)\<rparr>) s)"

definition forgetServerLocal :: "rat \<Rightarrow> string \<Rightarrow> seat \<Rightarrow> (seat \<times> sout list) throws" where
  "forgetServerLocal now i s =
     (let d = (dev s)\<lparr>servers := filter (\<lambda>e. fst e \<noteq> JStr i) (servers (dev s)), mlsGroups := filter (\<lambda>g. g \<noteq> JStr i) (mlsGroups (dev s))\<rparr>;
          s1 = forget_group i (s\<lparr>dev := d, s_forks := clear (s_forks s) i,
                 s_warned := filter (\<lambda>k. take (Suc (length i)) k \<noteq> i @ '':'') (s_warned s)\<rparr>)
      in do { s2 \<leftarrow> persistCircleNames (forgetDeviceState i s1);
              let s3 = s2\<lparr>s_logs := forgetCircleLogs i (s_logs s2)\<rparr>;
              let (s4, o1) = (if s_call s3 = Some i then (s3\<lparr>s_call := None\<rparr>, [HangUp]) else (s3, []));
              Some (s4\<lparr>dev := scheduleBackup now (dev s4)\<rparr>, o1 @ [ShowCircles, Park]) })"

section \<open>When the relay is ready\<close>

definition KP_TOPUP :: nat where "KP_TOPUP = 2"

definition subscribe_request :: "string \<Rightarrow> jsval \<Rightarrow> jsval" where
  "subscribe_request i aft = JObj [(''t'', JStr ''subscribe''), (''group'', JStr i), (''after'', aft)]"

definition no_access :: "string \<Rightarrow> bool" where
  \<comment> \<open>\<open>/not a member|no such group/i\<close>\<close>
  "no_access message \<longleftrightarrow> has_text (toLowerCase message) ''not a member'' \<or> has_text (toLowerCase message) ''no such group''"

definition subscribe_one :: "rat \<Rightarrow> (string \<Rightarrow> string + nat) \<Rightarrow> jsval \<times> jsval \<Rightarrow> seat \<times> sout list \<Rightarrow> (seat \<times> sout list) throws" where
  \<comment> \<open>one circle of the loop; \<open>answer\<close> is the relay's to the subscription. The source does not wait for
     \<open>forgetServerLocal\<close>, whose later writes are put here where it starts\<close>
  "subscribe_one now answer e acc =
     (case acc of (s, os) \<Rightarrow>
        do { i \<leftarrow> to_str (oprop (snd e) ''id'');
             if truthy (oprop (snd e) ''restored'') then Some (s, os @ [Roles i])
             else let sent = os @ [Ask (subscribe_request i (oprop (snd e) ''lastSeq''))]
                  in (case answer i of
                        Inr seq \<Rightarrow> Some (s\<lparr>s_catchUp := AList.update i seq (s_catchUp s)\<rparr>, sent @ [Roles i, Directory i])
                      | Inl message \<Rightarrow>
                          if no_access message
                          then do { nm \<leftarrow> to_str (oprop (snd e) ''name'');
                                    (s1, o1) \<leftarrow> forgetServerLocal now i s;
                                    Some (s1, sent @ [Notice (''you no longer have access to '' @ [CHR 0x22] @ nm @ [CHR 0x22])] @ o1 @ [Roles i, Directory i]) }
                          else Some (s, sent @ [Notice (''subscribe '' @ i @ '': '' @ message), Roles i, Directory i])) })"

definition subscribe_all :: "rat \<Rightarrow> (string \<Rightarrow> string + nat) \<Rightarrow> seat \<Rightarrow> (seat \<times> sout list) throws" where
  "subscribe_all now answer s = foldM (subscribe_one now answer) (servers (dev s)) (s, [])"

definition live_ids :: "device \<Rightarrow> string list throws" where
  "live_ids d = mapM (\<lambda>e. to_str (oprop (snd e) ''id'')) (filter (\<lambda>e. \<not> truthy (oprop (snd e) ''restored'')) (servers d))"

definition heal_ids :: "device \<Rightarrow> string list throws" where
  "heal_ids d = mapM (\<lambda>e. to_str (oprop (snd e) ''id''))
     (filter (\<lambda>e. \<not> truthy (oprop (snd e) ''restored'') \<and> \<not> truthy (oprop (snd e) ''pendingMetaSync'')) (servers d))"

definition on_ready :: "backup_env \<Rightarrow> rat \<Rightarrow> parked \<Rightarrow> (string \<Rightarrow> string + nat) \<Rightarrow> bool \<Rightarrow> seat \<Rightarrow> (seat \<times> sout list) throws" where
  \<comment> \<open>the case \<open>ready\<close> of \<open>onRelayEvent\<close> up to the pending invite; the key packages and the ICE servers go to the worker and to
     the call manager, a load that fails is told and changes nothing\<close>
  "on_ready e now p answer admin s =
     do { let (s1, o1) = (case readCircles e now p (dev s) of
              None \<Rightarrow> (s, [Notice ''your circles could not be loaded'', ShowLoading False])
            | Some (d, newer) \<Rightarrow> (s\<lparr>dev := d\<rparr>, (if newer = [] then [] else [ShowCircles]) @ [ShowLoading False]));
          s2 \<leftarrow> (if readCircles e now p (dev s) = None then Some s1 else persistCircleNames s1);
          (s3, o2) \<leftarrow> subscribe_all now answer s2;
          live \<leftarrow> live_ids (dev s3);
          healed \<leftarrow> heal_ids (dev s3);
          ids \<leftarrow> mapM (\<lambda>e. to_str (oprop (snd e) ''id'')) (servers (dev s3));
          Some (s3\<lparr>s_healed := True\<rparr>,
                [ShowAdmin admin] @ o1 @ o2 @ [PublishKeys KP_TOPUP, Ask (JObj [(''t'', JStr ''ice_info'')])] @
                map ProbeCalls live @ map CatchUpOn ids @ (if s_healed s then [] else map Heal healed) @ [CheckVault]) }"

end
