(* ===== verification/Session_Rules.thy ===== *)
theory Session_Rules
  imports Session
begin

text \<open>
  Theorems about a session of the app (\<open>Session\<close>): whatever has happened on a device, the identity key beside the database
  brings the same person back when the database is cleared; a circle that is left leaves no trace on the device; and of the
  circles held when the relay answers, exactly those it refuses are forgotten.
\<close>

section \<open>One device, one person\<close>

definition core_laws :: "core \<Rightarrow> bool" where
  \<comment> \<open>what the client relies on in the Rust core: an exported identity is a non-empty bundle that yields a client of that name\<close>
  "core_laws c \<longleftrightarrow> fromIdentity c [] = None \<and>
     (\<forall>n. map_option rt_name (fromIdentity c (exportIdentity c (newClient c n))) = Some (rt_name (newClient c n)))"

definition wiped :: "disk \<Rightarrow> disk" where
  \<comment> \<open>the browser has dropped the database of the site and kept its \<open>localStorage\<close>\<close>
  "wiped k = blank_disk\<lparr>ls_identity := ls_identity k\<rparr>"

inductive lived :: "core \<Rightarrow> seat \<Rightarrow> bool" for c where
  unboxed: "lived c (new_seat blank_disk)"
| created: "lived c s \<Longrightarrow> lived c (fst (createIdentity c nm s))"
| restored: "lived c s \<Longrightarrow> restoreIdentity c b s = Some s' \<Longrightarrow> lived c s'"
| onboarded: "lived c s \<Longrightarrow> s_me s \<noteq> None \<Longrightarrow> lived c (fst (completeOnboarding q s))"
| refused: "lived c s \<Longrightarrow> lived c (fst (onAuthRejected m s))"
| departed: "lived c s \<Longrightarrow> forgetServerLocal now i s = Some (s', os) \<Longrightarrow> lived c s'"
| reopened: "lived c s \<Longrightarrow> boot c (new_seat (s_disk s)) = Some (s', os) \<Longrightarrow> lived c s'"
| cleared: "lived c s \<Longrightarrow> boot c (new_seat (wiped (s_disk s))) = Some (s', os) \<Longrightarrow> lived c s'"
| signed_out: "lived c s \<Longrightarrow> lived c (fst (logout deleted s))"

definition one_self :: "core \<Rightarrow> seat \<Rightarrow> bool" where
  \<comment> \<open>the stored key, the stored ratchets and the name shown are one person's\<close>
  "one_self c s \<longleftrightarrow>
     (\<forall>k. ls_identity (s_disk s) = Some k \<longrightarrow>
        (\<exists>b rt rt'. k = b64_enc b \<and> b \<noteq> [] \<and> fromIdentity c b = Some rt \<and> kv_mls (s_disk s) = Some rt' \<and> rt_name rt' = rt_name rt)) \<and>
     (\<forall>m. s_me s = Some m \<longrightarrow> map_option rt_name (kv_mls (s_disk s)) = Some m) \<and>
     (\<forall>rt. s_worker s = Some rt \<longrightarrow> kv_mls (s_disk s) = Some rt)"

lemmas session_defs = persistState_def adopt_client_def loadDeviceState_def createIdentity_def restoreIdentity_def completeOnboarding_def

lemma new_seat_simps [simp]:
  "s_disk (new_seat k) = k" "s_me (new_seat k) = None" "s_worker (new_seat k) = None"
  by (simp_all add: new_seat_def)

lemma boot_from_key:
  assumes "\<not> kv_session k \<or> kv_mls k = None" and "ls_identity k = Some (b64_enc b)" and "b \<noteq> []"
  shows "boot c (new_seat k) = map_option (\<lambda>s1. (fst (completeOnboarding True s1), snd (completeOnboarding True s1) @ [Notice CLEARED_TEXT]))
    (restoreIdentity c b (new_seat k))"
  using assms by (cases "restoreIdentity c b (new_seat k)") (auto simp: boot_def b64_enc_dec b64_enc_nonempty split_beta)

lemma boot_at_gate:
  "\<not> kv_session k \<or> kv_mls k = None \<Longrightarrow> ls_identity k = None \<Longrightarrow> boot c (new_seat k) = Some (new_seat k, [ShowPhase ''onboarding''])"
  by (cases "kv_session k") (simp_all add: boot_def)

lemma one_self_new: "one_self c (new_seat blank_disk)"
  by (simp add: one_self_def new_seat_def blank_disk_def)

lemma one_self_create:
  assumes "core_laws c"
  shows "one_self c (fst (createIdentity c nm s))"
proof -
  let ?b = "exportIdentity c (newClient c nm)"
  obtain rt where rt: "fromIdentity c ?b = Some rt" "rt_name rt = rt_name (newClient c nm)"
    using assms by (auto simp: core_laws_def)
  then have "?b \<noteq> []" using assms by (auto simp: core_laws_def)
  then show ?thesis using rt by (auto simp: one_self_def session_defs Let_def)
qed

lemma one_self_restore:
  assumes "core_laws c" and "restoreIdentity c b s = Some s'"
  shows "one_self c s'"
proof -
  obtain rt where rt: "fromIdentity c b = Some rt" and s': "s' = (adopt_client rt s)\<lparr>s_disk := (s_disk (adopt_client rt s))\<lparr>ls_identity := Some (b64_enc b)\<rparr>\<rparr>"
    using assms(2) by (auto simp: restoreIdentity_def bind_eq_Some_conv Let_def)
  have "b \<noteq> []" using assms(1) rt by (auto simp: core_laws_def)
  then show ?thesis using rt by (auto simp: s' one_self_def session_defs)
qed

lemma one_self_onboard: "one_self c s \<Longrightarrow> one_self c (fst (completeOnboarding q s))"
  by (simp add: one_self_def session_defs Let_def)

lemma one_self_refused: "one_self c s \<Longrightarrow> one_self c (fst (onAuthRejected m s))"
  by (simp add: one_self_def onAuthRejected_def Let_def)

lemma forgetDeviceState_same [simp]:
  "ls_identity (s_disk (forgetDeviceState i s)) = ls_identity (s_disk s)"
  "kv_mls (s_disk (forgetDeviceState i s)) = kv_mls (s_disk s)"
  "s_me (forgetDeviceState i s) = s_me s" "s_worker (forgetDeviceState i s) = s_worker s"
  "servers (dev (forgetDeviceState i s)) = servers (dev s)" "mlsGroups (dev (forgetDeviceState i s)) = mlsGroups (dev s)"
  "s_logs (forgetDeviceState i s) = s_logs s" "s_call (forgetDeviceState i s) = s_call s"
  by (simp_all add: forgetDeviceState_def Let_def split: slot.split)

lemma forget_group_same [simp]:
  "ls_identity (s_disk (forget_group i s)) = ls_identity (s_disk s)" "s_me (forget_group i s) = s_me s"
  "dev (forget_group i s) = dev s" "s_logs (forget_group i s) = s_logs s" "s_call (forget_group i s) = s_call s"
  "kv_device (s_disk (forget_group i s)) = kv_device (s_disk s)"
  by (simp_all add: forget_group_def persistState_def split: option.split)

lemma one_self_forget_group: "one_self c s \<Longrightarrow> one_self c (forget_group i s)"
  by (auto simp: one_self_def forget_group_def persistState_def split: option.split)

lemma forgetServerLocal_parts:
  assumes "forgetServerLocal now i s = Some (s', os)"
  obtains ns s1 where "s1 = forgetDeviceState i (forget_group i (s\<lparr>dev := (dev s)\<lparr>servers := filter (\<lambda>e. fst e \<noteq> JStr i) (servers (dev s)),
        mlsGroups := filter (\<lambda>g. g \<noteq> JStr i) (mlsGroups (dev s))\<rparr>, s_forks := clear (s_forks s) i,
        s_warned := filter (\<lambda>k. take (Suc (length i)) k \<noteq> i @ '':'') (s_warned s)\<rparr>))"
    and "circle_names (dev s1) = Some ns"
    and "dev s' = scheduleBackup now (dev s1)" and "s_disk s' = (s_disk s1)\<lparr>kv_names := ns\<rparr>"
    and "s_me s' = s_me s1" and "s_worker s' = s_worker s1" and "s_logs s' = forgetCircleLogs i (s_logs s1)"
    and "s_call s' = (if s_call s1 = Some i then None else s_call s1)"
  using assms by (auto simp: forgetServerLocal_def persistCircleNames_def Let_def bind_eq_Some_conv split: if_splits)

lemma one_self_cong:
  "s_disk s' = (s_disk s)\<lparr>kv_names := ns\<rparr> \<Longrightarrow> s_me s' = s_me s \<Longrightarrow> s_worker s' = s_worker s \<Longrightarrow> one_self c s' = one_self c s"
  by (simp add: one_self_def)

lemma one_self_forget:
  assumes "one_self c s" and "forgetServerLocal now i s = Some (s', os)"
  shows "one_self c s'"
  using assms(2)
proof (rule forgetServerLocal_parts)
  fix ns s1
  let ?t = "s\<lparr>dev := (dev s)\<lparr>servers := filter (\<lambda>e. fst e \<noteq> JStr i) (servers (dev s)), mlsGroups := filter (\<lambda>g. g \<noteq> JStr i) (mlsGroups (dev s))\<rparr>,
        s_forks := clear (s_forks s) i, s_warned := filter (\<lambda>k. take (Suc (length i)) k \<noteq> i @ '':'') (s_warned s)\<rparr>"
  assume s1: "s1 = forgetDeviceState i (forget_group i ?t)"
    and eq: "s_disk s' = (s_disk s1)\<lparr>kv_names := ns\<rparr>" "s_me s' = s_me s1" "s_worker s' = s_worker s1"
  have "one_self c ?t" using assms(1) by (simp add: one_self_def)
  then have "one_self c (forget_group i ?t)" by (rule one_self_forget_group)
  then have "one_self c s1" by (simp add: s1 one_self_def)
  then show ?thesis using one_self_cong [OF eq] by simp
qed

lemma one_self_boot:
  assumes "core_laws c" and "one_self c s" and "k = s_disk s \<or> k = wiped (s_disk s)" and "boot c (new_seat k) = Some (s', os)"
  shows "one_self c s'"
proof (cases "if kv_session k then kv_mls k else None")
  case (Some rt)
  then have k: "kv_session k" "kv_mls k = Some rt" "k = s_disk s"
    using assms(3) by (auto simp: wiped_def blank_disk_def split: if_splits)
  then have "s' = loadDeviceState (adopt_client rt (new_seat k))" using assms(4) by (simp add: boot_def)
  then show ?thesis using assms(2) k by (auto simp: one_self_def session_defs)
next
  case None
  then have no: "\<not> kv_session k \<or> kv_mls k = None" by (simp split: if_splits)
  show ?thesis
  proof (cases "ls_identity k")
    case None': None
    then have "s' = new_seat k" using assms(4) boot_at_gate [OF no] by simp
    then show ?thesis using None' by (simp add: one_self_def)
  next
    case (Some w)
    then have "ls_identity (s_disk s) = Some w" using assms(3) by (auto simp: wiped_def)
    then obtain b where b: "w = b64_enc b" "b \<noteq> []" using assms(2) by (auto simp: one_self_def)
    obtain s1 where s1: "restoreIdentity c b (new_seat k) = Some s1" "s' = fst (completeOnboarding True s1)"
      using assms(4) Some b by (auto simp: boot_from_key [OF no])
    show ?thesis using one_self_onboard [OF one_self_restore [OF assms(1) s1(1)]] s1(2) by simp
  qed
qed

lemma one_self_logout: "one_self c (fst (logout deleted s))"
  by (simp add: one_self_def logout_def blank_disk_def)

lemma one_self_lived:
  assumes "core_laws c" and "lived c s"
  shows "one_self c s"
  using assms(2)
proof (induction rule: lived.induct)
  case unboxed
  show ?case by (rule one_self_new)
next
  case (created s nm)
  show ?case using assms(1) by (rule one_self_create)
next
  case (restored s b s')
  show ?case using assms(1) restored.hyps(2) by (rule one_self_restore)
next
  case (onboarded s q)
  then show ?case by (intro one_self_onboard)
next
  case (refused s m)
  then show ?case by (intro one_self_refused)
next
  case (departed s now i s' os)
  then show ?case by (intro one_self_forget [of c s now i s' os])
next
  case (reopened s s' os)
  then show ?case by (intro one_self_boot [OF assms(1), of s _ s' os]) auto
next
  case (cleared s s' os)
  then show ?case by (intro one_self_boot [OF assms(1), of s _ s' os]) auto
next
  case (signed_out s deleted)
  show ?case by (rule one_self_logout)
qed

text \<open>
  C12: whatever was done on a device, making, restoring or losing an identity, leaving circles, signing out, opening the page again:
  when someone is shown as signed in and the key is stored beside the database, a browser that drops the database brings
  the same person back, who is told of it and keeps the key; signing out, when the database is deleted, ends at the gate instead.
\<close>

theorem cleared_device_keeps_its_owner:
  assumes "core_laws c" and "lived c s" and "s_me s = Some m" and "ls_identity (s_disk s) = Some k"
  shows "(\<exists>s' os. boot c (new_seat (wiped (s_disk s))) = Some (s', os) \<and> s_me s' = Some m \<and> ls_identity (s_disk s') = Some k \<and>
      kv_session (s_disk s') \<and> Connect \<in> set os \<and> Notice CLEARED_TEXT \<in> set os) \<and>
    boot c (fst (logout True s)) = Some (new_seat blank_disk, [ShowPhase ''onboarding''])"
proof -
  have o: "one_self c s" using assms(1,2) by (rule one_self_lived)
  obtain b rt rt' where b: "k = b64_enc b" "b \<noteq> []" "fromIdentity c b = Some rt" "kv_mls (s_disk s) = Some rt'" "rt_name rt' = rt_name rt"
    using o assms(4) unfolding one_self_def by blast
  have m: "rt_name rt = m" using o assms(3) b(4,5) by (simp add: one_self_def)
  have "boot c (new_seat (wiped (s_disk s))) = map_option (\<lambda>s1. (fst (completeOnboarding True s1), snd (completeOnboarding True s1) @ [Notice CLEARED_TEXT]))
    (restoreIdentity c b (new_seat (wiped (s_disk s))))"
    using assms(4) b(1,2) by (intro boot_from_key) (simp_all add: wiped_def blank_disk_def)
  then have "\<exists>s' os. boot c (new_seat (wiped (s_disk s))) = Some (s', os) \<and> s_me s' = Some m \<and> ls_identity (s_disk s') = Some k \<and>
      kv_session (s_disk s') \<and> Connect \<in> set os \<and> Notice CLEARED_TEXT \<in> set os"
    using b m by (simp add: session_defs Let_def)
  moreover have "boot c (fst (logout True s)) = Some (new_seat blank_disk, [ShowPhase ''onboarding''])"
    by (simp add: logout_def boot_at_gate blank_disk_def)
  ultimately show ?thesis by (rule conjI)
qed

definition example_core :: core where
  \<comment> \<open>a bundle is the name behind a mark\<close>
  "example_core = \<lparr>newClient = \<lambda>n. \<lparr>rt_name = n, rt_groups = []\<rparr>,
     fromIdentity = \<lambda>b. case b of [] \<Rightarrow> None | x # n \<Rightarrow> Some \<lparr>rt_name = n, rt_groups = []\<rparr>,
     exportIdentity = \<lambda>rt. CHR ''i'' # rt_name rt\<rparr>"

definition example_seat :: seat where
  "example_seat = fst (completeOnboarding True (fst (createIdentity example_core ''ada'' (new_seat blank_disk))))"

lemma example_signed_in:
  "core_laws example_core" "lived example_core example_seat" "s_me example_seat = Some ''ada''"
  "ls_identity (s_disk example_seat) = Some (b64_enc ''iada'')"
proof -
  show "core_laws example_core" by (simp add: core_laws_def example_core_def)
  show "lived example_core example_seat" unfolding example_seat_def
    by (intro lived.onboarded lived.created lived.unboxed) (simp add: session_defs Let_def)
qed (simp_all add: example_seat_def example_core_def session_defs Let_def)

theorem cleared_device_keeps_its_owner_witness:
  "(\<exists>s' os. boot example_core (new_seat (wiped (s_disk example_seat))) = Some (s', os) \<and> s_me s' = Some ''ada'' \<and>
      ls_identity (s_disk s') = Some (b64_enc ''iada'') \<and> kv_session (s_disk s') \<and> Connect \<in> set os \<and> Notice CLEARED_TEXT \<in> set os) \<and>
   boot example_core (fst (logout True example_seat)) = Some (new_seat blank_disk, [ShowPhase ''onboarding''])"
  using cleared_device_keeps_its_owner [OF example_signed_in] .

text \<open>A deletion that fails or is still blocked when the page is loaded anew leaves the account signed in.\<close>

lemma wedged_sign_out_signs_back_in:
  assumes "kv_session (s_disk s)" and "kv_mls (s_disk s) = Some rt"
  shows "\<exists>s' os. boot c (fst (logout False s)) = Some (s', os) \<and> s_me s' = Some (rt_name rt) \<and> Connect \<in> set os"
  using assms by (simp add: boot_def logout_def session_defs)

section \<open>Leaving no trace\<close>

definition named_circles :: "device \<Rightarrow> bool" where
  "named_circles d \<longleftrightarrow> (\<forall>(k, r) \<in> set (servers d). \<exists>i. k = JStr i \<and> oprop r ''id'' = JStr i)"

definition in_step_with_disk :: "seat \<Rightarrow> bool" where
  "in_step_with_disk s \<longleftrightarrow> dict_or_empty (kv_device (s_disk s)) = deviceState (dev s) \<and> (\<forall>(k, v) \<in> set (deviceState (dev s)). truthy v) \<and>
     kv_mls (s_disk s) = s_worker s"

lemma scheduleBackup_same [simp]:
  "servers (scheduleBackup now d) = servers d" "mlsGroups (scheduleBackup now d) = mlsGroups d" "deviceState (scheduleBackup now d) = deviceState d"
  by (simp_all add: scheduleBackup_def Let_def)

lemma circle_names_keys:
  assumes "circle_names d = Some ns" and "named_circles d"
  shows "fst ` set ns \<subseteq> {i. JStr i \<in> fst ` set (servers d)}"
  using assms(1) unfolding circle_names_def
proof (rule foldM_invariant)
  fix x acc acc'
  assume x: "x \<in> set (servers d)" and acc: "fst ` set acc \<subseteq> {i. JStr i \<in> fst ` set (servers d)}"
    and step: "(case x of (i, r) \<Rightarrow> \<lambda>acc. do { k \<leftarrow> to_str (oprop r ''id''); Some (dput acc k (oprop r ''name'')) }) acc = Some acc'"
  obtain i r where xi: "x = (JStr i, r)" "oprop r ''id'' = JStr i" using x assms(2) by (force simp: named_circles_def)
  then have here: "JStr i \<in> fst ` set (servers d)" using x by (metis fst_conv image_eqI)
  have "acc' = dput acc i (oprop r ''name'')" using step xi by simp
  then have "fst ` set acc' \<subseteq> insert i (fst ` set acc)" by (simp add: dput_def dom_update subset_insertI)
  then show "fst ` set acc' \<subseteq> {i. JStr i \<in> fst ` set (servers d)}" using acc here by auto
qed simp

lemma forgetDeviceState_gone:
  assumes "dict_or_empty (kv_device (s_disk s)) = deviceState (dev s)" and "\<forall>(k, v) \<in> set (deviceState (dev s)). truthy v"
  shows "deviceState (dev (forgetDeviceState i s)) = AList.delete i (deviceState (dev s)) \<and>
    dict_or_empty (kv_device (s_disk (forgetDeviceState i s))) = deviceState (dev (forgetDeviceState i s))"
proof (cases "map_of (deviceState (dev s)) i")
  case None
  then have "AList.delete i (deviceState (dev s)) = deviceState (dev s)" by (simp add: map_of_eq_None_iff)
  then show ?thesis using assms(1) None by (simp add: forgetDeviceState_def dget_def dict_or_empty_def)
next
  case (Some v)
  then have "truthy v" using assms(2) map_of_SomeD by fastforce
  then show ?thesis using Some by (simp add: forgetDeviceState_def dget_def ddel_def dict_or_empty_def Let_def)
qed

lemma forgetCircleLogs_gone: "map_of (forgetCircleLogs i l) (logKey i ch) = None"
  by (auto simp: forgetCircleLogs_def logKey_def map_of_eq_None_iff)

lemma forgetServerLocal_facts:
  assumes "forgetServerLocal now i s = Some (s', os)" and "named_circles (dev s)" and "in_step_with_disk s"
  shows "servers (dev s') = filter (\<lambda>e. fst e \<noteq> JStr i) (servers (dev s))"
    and "mlsGroups (dev s') = filter (\<lambda>g. g \<noteq> JStr i) (mlsGroups (dev s))"
    and "map_option rt_groups (kv_mls (s_disk s')) = map_option (\<lambda>rt. filter (\<lambda>g. g \<noteq> i) (rt_groups rt)) (s_worker s)"
    and "deviceState (dev s') = AList.delete i (deviceState (dev s))"
    and "i \<notin> fst ` set (kv_names (s_disk s'))"
    and "map_of (s_logs s') (logKey i ch) = None" and "s_call s' \<noteq> Some i"
    and "named_circles (dev s')" and "in_step_with_disk s'"
proof -
  let ?d = "(dev s)\<lparr>servers := filter (\<lambda>e. fst e \<noteq> JStr i) (servers (dev s)), mlsGroups := filter (\<lambda>g. g \<noteq> JStr i) (mlsGroups (dev s))\<rparr>"
  let ?t = "s\<lparr>dev := ?d, s_forks := clear (s_forks s) i, s_warned := filter (\<lambda>k. take (Suc (length i)) k \<noteq> i @ '':'') (s_warned s)\<rparr>"
  obtain s1 ns where s1: "s1 = forgetDeviceState i (forget_group i ?t)" and ns: "circle_names (dev s1) = Some ns"
    and s': "dev s' = scheduleBackup now (dev s1)" "s_disk s' = (s_disk s1)\<lparr>kv_names := ns\<rparr>" "s_worker s' = s_worker s1"
      "s_logs s' = forgetCircleLogs i (s_logs s1)" "s_call s' = (if s_call s1 = Some i then None else s_call s1)"
    using forgetServerLocal_parts [OF assms(1)] by blast
  show srv: "servers (dev s') = filter (\<lambda>e. fst e \<noteq> JStr i) (servers (dev s))" by (simp add: s' s1)
  show "mlsGroups (dev s') = filter (\<lambda>g. g \<noteq> JStr i) (mlsGroups (dev s))" by (simp add: s' s1)
  have g: "map_option rt_groups (kv_mls (s_disk s1)) = map_option (\<lambda>rt. filter (\<lambda>g. g \<noteq> i) (rt_groups rt)) (s_worker s)"
    "kv_mls (s_disk s1) = s_worker s1"
    using assms(3) by (simp_all add: s1 in_step_with_disk_def forget_group_def persistState_def split: option.split)
  then show "map_option rt_groups (kv_mls (s_disk s')) = map_option (\<lambda>rt. filter (\<lambda>g. g \<noteq> i) (rt_groups rt)) (s_worker s)" by (simp add: s')
  have d1: "deviceState (dev s1) = AList.delete i (deviceState (dev s)) \<and> dict_or_empty (kv_device (s_disk s1)) = deviceState (dev s1)"
    using forgetDeviceState_gone [of "forget_group i ?t" i] assms(3) by (simp add: s1 in_step_with_disk_def)
  then show "deviceState (dev s') = AList.delete i (deviceState (dev s))" by (simp add: s')
  show named: "named_circles (dev s')" using assms(2) by (auto simp: named_circles_def srv)
  have "named_circles (dev s1)" using named by (simp add: named_circles_def s'(1))
  then have "fst ` set ns \<subseteq> {k. JStr k \<in> fst ` set (servers (dev s'))}" using circle_names_keys [OF ns] s'(1) by simp
  then show "i \<notin> fst ` set (kv_names (s_disk s'))" by (auto simp: s'(2) srv)
  show "map_of (s_logs s') (logKey i ch) = None" by (simp add: s'(4) forgetCircleLogs_gone)
  show "s_call s' \<noteq> Some i" by (simp add: s'(5))
  have "\<forall>(k, v) \<in> set (deviceState (dev s')). truthy v"
    using assms(3) d1 by (auto simp: in_step_with_disk_def s'(1) AList.delete_eq)
  then show "in_step_with_disk s'" using d1 g(2) by (simp add: in_step_with_disk_def s')
qed

definition example_left :: seat where
  "example_left = persistState \<lparr>rt_name = ''ada'', rt_groups = [''x'', ''y'']\<rparr> ((new_seat blank_disk)\<lparr>dev := new_device\<lparr>
     servers := [(JStr ''x'', JObj [(''id'', JStr ''x'')]), (JStr ''y'', JObj [(''id'', JStr ''y'')])]\<rparr>, s_call := Some ''x''\<rparr>)"


section \<open>When the relay answers\<close>

definition shut_out :: "(string \<Rightarrow> string + nat) \<Rightarrow> jsval \<times> jsval \<Rightarrow> bool" where
  "shut_out answer x \<longleftrightarrow> \<not> truthy (oprop (snd x) ''restored'') \<and> (\<exists>i m. fst x = JStr i \<and> answer i = Inl m \<and> no_access m)"

lemma forgetServerLocal_servers:
  assumes "forgetServerLocal now i s = Some (s', os)"
  shows "servers (dev s') = filter (\<lambda>e. fst e \<noteq> JStr i) (servers (dev s)) \<and> s_catchUp s' = s_catchUp s"
proof -
  have "s_catchUp (forgetDeviceState i t) = s_catchUp t" "s_catchUp (forget_group i t) = s_catchUp t" for t
    by (simp_all add: forgetDeviceState_def forget_group_def persistState_def Let_def split: slot.split option.split)
  then show ?thesis using assms
    by (auto simp: forgetServerLocal_def persistCircleNames_def Let_def bind_eq_Some_conv split: if_splits)
qed

lemma subscribe_one_step:
  assumes "subscribe_one now answer x (s, os) = Some (s', os')" and "fst x = JStr i" and "oprop (snd x) ''id'' = JStr i"
  shows "servers (dev s') = filter (\<lambda>e. shut_out answer x \<longrightarrow> fst e \<noteq> fst x) (servers (dev s))"
    and "set os \<subseteq> set os'"
    and "\<not> truthy (oprop (snd x) ''restored'') \<Longrightarrow> Ask (subscribe_request i (oprop (snd x) ''lastSeq'')) \<in> set os'"
    and "s_catchUp s' = (case answer i of Inl m \<Rightarrow> s_catchUp s
      | Inr n \<Rightarrow> if truthy (oprop (snd x) ''restored'') then s_catchUp s else AList.update i n (s_catchUp s))"
  using assms
  by (auto simp: subscribe_one_def shut_out_def Let_def bind_eq_Some_conv split: if_splits sum.splits dest!: forgetServerLocal_servers)

lemma subscribe_fold:
  assumes "foldM (subscribe_one now answer) xs (s, os) = Some (s', os')"
    and "\<forall>x \<in> set xs. \<exists>i. fst x = JStr i \<and> oprop (snd x) ''id'' = JStr i"
  shows "servers (dev s') = filter (\<lambda>e. \<forall>x \<in> set xs. shut_out answer x \<longrightarrow> fst e \<noteq> fst x) (servers (dev s)) \<and> set os \<subseteq> set os' \<and>
    (\<forall>i n. answer i = Inr n \<longrightarrow> map_of (s_catchUp s) i = Some n \<longrightarrow> map_of (s_catchUp s') i = Some n) \<and>
    (\<forall>(k, r) \<in> set xs. \<forall>i. k = JStr i \<longrightarrow> \<not> truthy (oprop r ''restored'') \<longrightarrow>
       Ask (subscribe_request i (oprop r ''lastSeq'')) \<in> set os' \<and> (\<forall>n. answer i = Inr n \<longrightarrow> map_of (s_catchUp s') i = Some n))"
  using assms
proof (induction xs arbitrary: s os)
  case (Cons x xs)
  obtain s1 os1 where one: "subscribe_one now answer x (s, os) = Some (s1, os1)"
    and rest: "foldM (subscribe_one now answer) xs (s1, os1) = Some (s', os')"
    using Cons.prems(1) by (auto simp: bind_eq_Some_conv)
  obtain i where i: "fst x = JStr i" "oprop (snd x) ''id'' = JStr i" using Cons.prems(2) by auto
  note step = subscribe_one_step [OF one i]
  have "\<forall>x \<in> set xs. \<exists>i. fst x = JStr i \<and> oprop (snd x) ''id'' = JStr i" using Cons.prems(2) by simp
  note IH = Cons.IH [OF rest this]
  have srv: "servers (dev s') = filter (\<lambda>e. \<forall>y \<in> set (x # xs). shut_out answer y \<longrightarrow> fst e \<noteq> fst y) (servers (dev s))"
    unfolding IH [THEN conjunct1] step(1) by (auto intro: filter_cong)
  have keep: "map_of (s_catchUp s') j = Some n" if "answer j = Inr n" "map_of (s_catchUp s1) j = Some n" for j n
    using IH that by blast
  have kept: "map_of (s_catchUp s1) j = Some n" if "answer j = Inr n" "map_of (s_catchUp s) j = Some n" for j n
    using that by (auto simp: step(4) update_conv' split: sum.split)
  have now: "Ask (subscribe_request i (oprop (snd x) ''lastSeq'')) \<in> set os' \<and> (\<forall>n. answer i = Inr n \<longrightarrow> map_of (s_catchUp s') i = Some n)"
    if "\<not> truthy (oprop (snd x) ''restored'')"
    using step(3) [OF that] IH keep that by (auto simp: step(4) update_conv')
  have others: "\<forall>(k, r) \<in> set xs. \<forall>i. k = JStr i \<longrightarrow> \<not> truthy (oprop r ''restored'') \<longrightarrow>
       Ask (subscribe_request i (oprop r ''lastSeq'')) \<in> set os' \<and> (\<forall>n. answer i = Inr n \<longrightarrow> map_of (s_catchUp s') i = Some n)"
    using IH by blast
  show ?case
    using srv step(2) IH keep kept now others i(1) by (cases x) auto
qed simp

text \<open>
  When the relay is ready, every circle this device can read is subscribed to from its own cursor, and where the relay answers, it is
  that answer the circle catches up to. Exactly the circles the relay refuses are forgotten: one it merely fails to
  serve stays, and so does one held read-only, which is not asked for at all.
\<close>

theorem only_refused_circles_go:
  assumes "subscribe_all now answer s = Some (s', os)" and "named_circles (dev s)" and "distinct (map fst (servers (dev s)))"
  shows "servers (dev s') = filter (\<lambda>e. \<not> shut_out answer e) (servers (dev s)) \<and>
    (\<forall>i r. (JStr i, r) \<in> set (servers (dev s)) \<longrightarrow> \<not> truthy (oprop r ''restored'') \<longrightarrow>
      Ask (subscribe_request i (oprop r ''lastSeq'')) \<in> set os \<and> (\<forall>n. answer i = Inr n \<longrightarrow> map_of (s_catchUp s') i = Some n))"
proof -
  have "\<forall>x \<in> set (servers (dev s)). \<exists>i. fst x = JStr i \<and> oprop (snd x) ''id'' = JStr i"
    using assms(2) by (auto simp: named_circles_def)
  note fold = subscribe_fold [OF assms(1) [unfolded subscribe_all_def] this]
  have "(\<forall>x \<in> set (servers (dev s)). shut_out answer x \<longrightarrow> fst e \<noteq> fst x) \<longleftrightarrow> \<not> shut_out answer e" if "e \<in> set (servers (dev s))" for e
    using that assms(3) by (metis distinct_map inj_onD)
  then have "servers (dev s') = filter (\<lambda>e. \<not> shut_out answer e) (servers (dev s))"
    unfolding fold [THEN conjunct1] by (intro filter_cong refl)
  moreover have "Ask (subscribe_request i (oprop r ''lastSeq'')) \<in> set os \<and> (\<forall>n. answer i = Inr n \<longrightarrow> map_of (s_catchUp s') i = Some n)"
    if "(JStr i, r) \<in> set (servers (dev s))" "\<not> truthy (oprop r ''restored'')" for i r
    using fold that by blast
  ultimately show ?thesis by blast
qed

definition example_answer :: "string \<Rightarrow> string + nat" where
  "example_answer i = (if i = ''x'' then Inl ''not a member of this group'' else Inr 9)"

theorem only_refused_circles_go_witness:
  "\<exists>s' os. subscribe_all 0 example_answer (example_left\<lparr>s_call := None\<rparr>) = Some (s', os) \<and>
     servers (dev s') = [(JStr ''y'', JObj [(''id'', JStr ''y'')])] \<and> map_of (s_catchUp s') ''y'' = Some 9"
proof -
  let ?s = "example_left\<lparr>s_call := None\<rparr>"
  have no: "no_access ''not a member of this group''" by code_simp
  obtain s' os where run: "subscribe_all 0 example_answer ?s = Some (s', os)"
    using no by (simp add: subscribe_all_def subscribe_one_def forgetServerLocal_def example_left_def new_seat_def new_device_def blank_disk_def
        persistState_def forget_group_def example_answer_def
        forgetDeviceState_def dget_def proto_names_def persistCircleNames_def circle_names_def Let_def split_beta)
  have ok: "named_circles (dev ?s)" "distinct (map fst (servers (dev ?s)))"
    by (simp_all add: named_circles_def example_left_def persistState_def)
  have "map_of (s_catchUp s') ''y'' = Some 9"
    using only_refused_circles_go [OF run ok, THEN conjunct2, rule_format, of "''y''" "JObj [(''id'', JStr ''y'')]"]
    by (simp add: example_left_def persistState_def example_answer_def)
  moreover have "servers (dev s') = [(JStr ''y'', JObj [(''id'', JStr ''y'')])]"
    using only_refused_circles_go [OF run ok, THEN conjunct1] no by (simp add: example_left_def persistState_def shut_out_def example_answer_def)
  ultimately show ?thesis using run by blast
qed

end
