(* ===== verification/Account.thy ===== *)
theory Account
  imports Session Handover
begin

text \<open>
  Accounts, from \<open>client/src/lib/account.js\<close> and \<open>webauthn.js\<close>, with the vaults of \<open>relay/src/account.rs\<close>, \<open>store.rs\<close> and
  \<open>server.rs\<close>: securing an identity under a password or a passkey, further devices, and signing in on a new one; and the
  hand-over of an identity through the blob store (\<open>controller.js\<close>, \<open>relay/src/blobs.rs\<close> and \<open>lib.rs\<close>). Argon2, SHA-256, AES-GCM, the
  browser's authenticator and the relay's WebAuthn library are the parameters \<open>site\<close>, \<open>authenticator\<close> and \<open>webauthn\<close>. A request here
  reaches the relay and is answered; a handle goes through the path of a URL unchanged.
\<close>

section \<open>Failures\<close>

datatype account_failure = Failure (fail_message: string) (linkFallback: bool)

type_synonym 'a attempt = "account_failure + 'a"

fun and_then :: "'a attempt \<Rightarrow> ('a \<Rightarrow> 'b attempt) \<Rightarrow> 'b attempt" where
  "and_then (Inl e) f = Inl e"
| "and_then (Inr x) f = f x"

definition fails :: "string \<Rightarrow> 'a attempt" where "fails msg = Inl (Failure msg False)"

definition or_fail :: "string \<Rightarrow> 'a throws \<Rightarrow> 'a attempt" where
  "or_fail msg x = (case x of None \<Rightarrow> fails msg | Some v \<Rightarrow> Inr v)"

definition PLATFORM :: string where "PLATFORM = ''an exception of the platform''"

section \<open>What \<open>account.js\<close> decides by text\<close>

definition MIN_PASSWORD :: nat where "MIN_PASSWORD = 8"
definition DEVICE_LABEL_MAX :: nat where "DEVICE_LABEL_MAX = 64"

fun first_hit_of :: "(string list \<times> string) list \<Rightarrow> string \<Rightarrow> string option" where
  \<comment> \<open>the name of the first row one of whose words occurs, in any case\<close>
  "first_hit_of [] ua = None"
| "first_hit_of ((ws, n) # rs) ua = (if list_ex (has_text (toLowerCase ua)) ws then Some n else first_hit_of rs ua)"

definition OS_TABLE :: "(string list \<times> string) list" where
  "OS_TABLE = [([''iphone'', ''ipad'', ''ipod''], ''iOS''), ([''android''], ''Android''), ([''mac os x'', ''macintosh''], ''macOS''),
     ([''windows''], ''Windows''), ([''cros''], ''ChromeOS''), ([''linux''], ''Linux'')]"

definition BROWSER_TABLE :: "(string list \<times> string) list" where
  "BROWSER_TABLE = [([''edg/''], ''Edge''), ([''opr/''], ''Opera''), ([''firefox/''], ''Firefox''), ([''chrome/''], ''Chrome''), ([''safari/''], ''Safari'')]"

definition deviceLabel :: "string \<Rightarrow> string" where
  "deviceLabel ua =
     (case (first_hit_of BROWSER_TABLE ua, first_hit_of OS_TABLE ua) of
        (Some b, Some os) \<Rightarrow> b @ '' on '' @ os
      | (Some b, None) \<Rightarrow> b
      | (None, Some os) \<Rightarrow> os
      | (None, None) \<Rightarrow> ''this device'')"

definition noPrfMessage :: string where
  "noPrfMessage = ''this browser did not provide the passkey PRF extension we need to encrypt your vault''"

definition accountError :: "nat \<Rightarrow> string \<Rightarrow> account_failure" where
  "accountError status txt = Failure (if status = 404 then ''no such account'' else if txt \<noteq> [] then txt else ''HTTP '' @ nat_str status) False"

definition isNoAccount :: "string \<Rightarrow> bool" where
  "isNoAccount message \<longleftrightarrow> list_ex (has_text (toLowerCase message)) [''no such account'', ''no vault'', ''404'']"

definition unlockableHereError :: account_failure where
  "unlockableHereError = Failure (''this device can'' @ [CHR 0x27] @ ''t unlock your vault with that passkey'') True"

section \<open>The relay's vaults\<close>

record vault =
  va_kind :: string
  va_salt :: bytes
  va_verifier :: bytes
  va_wrapped :: bytes
  va_credential :: "string option"

record passkey_wrap =
  pw_user :: string
  pw_credential :: string
  pw_salt :: bytes
  pw_wrapped :: bytes
  pw_label :: string
  pw_created :: nat

record accounts =
  vaults :: "(string \<times> vault) list"
  wraps :: "(string \<times> passkey_wrap) list"
  reg_states :: "(string \<times> string) list"       \<comment> \<open>the library's state of a registration, by handle\<close>
  auth_states :: "(string \<times> string) list"
  disco_states :: "(string \<times> string) list"     \<comment> \<open>by challenge\<close>

definition no_accounts :: accounts where
  "no_accounts = \<lparr>vaults = [], wraps = [], reg_states = [], auth_states = [], disco_states = []\<rparr>"

type_synonym 'a http = "(nat \<times> string) + 'a"

definition params_of :: "string \<Rightarrow> accounts \<Rightarrow> (string \<times> string) http" where
  "params_of user a =
     (case map_of (vaults a) user of
        Some v \<Rightarrow> Inr (va_kind v, b64_enc (va_salt v))
      | None \<Rightarrow> Inl (404, ''no vault for that user''))"

definition password_login :: "(bytes \<Rightarrow> bytes) \<Rightarrow> string \<Rightarrow> string \<Rightarrow> accounts \<Rightarrow> string http" where
  "password_login sha user authKey a =
     (case b64_dec authKey of
        None \<Rightarrow> Inl (400, ''bad base64'')
      | Some k \<Rightarrow>
          (case map_of (vaults a) user of
             None \<Rightarrow> Inl (404, ''no vault for that user'')
           | Some v \<Rightarrow>
               if va_kind v \<noteq> ''password'' then Inl (400, ''vault is not password-based'')
               else if sha k = va_verifier v then Inr (b64_enc (va_wrapped v))
               else Inl (403, ''wrong password'')))"

definition vault_set :: "string \<Rightarrow> string \<Rightarrow> string \<Rightarrow> string \<Rightarrow> string \<Rightarrow> string option \<Rightarrow> accounts \<Rightarrow> accounts attempt" where
  "vault_set user kind salt verifier wrapped cred a =
     (if kind \<noteq> ''password'' \<and> kind \<noteq> ''passkey'' then fails ''kind must be password or passkey''
      else case (b64_dec salt, b64_dec verifier, b64_dec wrapped) of
        (Some s, Some v, Some w) \<Rightarrow>
          Inr (a\<lparr>vaults := AList.update user \<lparr>va_kind = kind, va_salt = s, va_verifier = v, va_wrapped = w, va_credential = cred\<rparr> (vaults a)\<rparr>)
      | _ \<Rightarrow> fails ''invalid base64'')"

definition vault_status :: "string \<Rightarrow> accounts \<Rightarrow> string option" where
  "vault_status user a = map_option va_kind (map_of (vaults a) user)"

definition MAX_DEVICE_LABEL :: nat where "MAX_DEVICE_LABEL = 64"

definition wrap_add :: "nat \<Rightarrow> string \<Rightarrow> string \<Rightarrow> string \<Rightarrow> string \<Rightarrow> string \<Rightarrow> string \<Rightarrow> accounts \<Rightarrow> accounts attempt" where
  "wrap_add now user cid cred salt wrapped label a =
     (case (b64_dec salt, b64_dec wrapped) of
        (Some s, Some w) \<Rightarrow>
          if (case map_of (wraps a) cid of None \<Rightarrow> False | Some x \<Rightarrow> pw_user x \<noteq> user)
          then fails ''credential already enrolled by another account''
          else Inr (a\<lparr>wraps := AList.update cid \<lparr>pw_user = user, pw_credential = cred, pw_salt = s, pw_wrapped = w,
                 pw_label = take MAX_DEVICE_LABEL label, pw_created = now\<rparr> (wraps a)\<rparr>)
      | _ \<Rightarrow> fails ''invalid base64'')"

definition wrap_del :: "string \<Rightarrow> string \<Rightarrow> accounts \<Rightarrow> accounts attempt" where
  "wrap_del user cid a =
     (case map_of (wraps a) cid of
        None \<Rightarrow> fails ''no such device''
      | Some w \<Rightarrow> if pw_user w \<noteq> user then fails ''no such device'' else Inr (a\<lparr>wraps := AList.delete cid (wraps a)\<rparr>))"

record device_row =
  dr_cred :: string
  dr_label :: string
  dr_created :: nat

definition wrap_list :: "string \<Rightarrow> accounts \<Rightarrow> device_row list" where
  \<comment> \<open>newest first, then by id\<close>
  "wrap_list user a = sort_key (\<lambda>d. - int (dr_created d)) (sort_key dr_cred
     (map (\<lambda>(c, w). \<lparr>dr_cred = c, dr_label = pw_label w, dr_created = pw_created w\<rparr>) (filter (\<lambda>(c, w). pw_user w = user) (wraps a))))"

section \<open>WebAuthn\<close>

definition VAULT_PRF_SALT :: bytes where "VAULT_PRF_SALT = ''quorum/passkey-vault/prf/salt/v1''"

record creation_options =
  co_rest :: "(string \<times> jsval) list"              \<comment> \<open>the fields of \<open>publicKey\<close> that are passed on\<close>
  co_challenge :: bytes
  co_user :: "(string \<times> jsval) list \<times> bytes"
  co_exclude :: "((string \<times> jsval) list \<times> bytes) list"
  co_selection :: "jsval dict"
  co_prf :: "bytes option"

record request_options =
  ro_rest :: "(string \<times> jsval) list"
  ro_challenge :: bytes
  ro_allow :: "((string \<times> jsval) list \<times> bytes) list"
  ro_prf :: "bytes option"

record credential =
  cr_id :: string
  cr_rawId :: bytes
  cr_type :: string
  cr_attestation :: bytes
  cr_clientData :: bytes
  cr_prf :: "bytes option"                        \<comment> \<open>\<open>getClientExtensionResults()\<close>\<close>

record assertion =
  as_id :: string
  as_rawId :: bytes
  as_type :: string
  as_authData :: bytes
  as_clientData :: bytes
  as_signature :: bytes
  as_userHandle :: "bytes option"
  as_prf :: "bytes option"

definition b64u_dec :: "jsval \<Rightarrow> bytes throws" where
  \<comment> \<open>\<open>b64u.dec\<close>: only a string has \<open>replaceAll\<close>\<close>
  "b64u_dec v = (case v of JStr t \<Rightarrow> b64url_dec t | _ \<Rightarrow> None)"

definition map_able :: "jsval \<Rightarrow> jsval list throws" where
  \<comment> \<open>\<open>(v ?? []).map(..)\<close>\<close>
  "map_able v = (if nullish v then Some [] else case v of JArr vs \<Rightarrow> Some vs | _ \<Rightarrow> None)"

definition listed_credential :: "jsval \<Rightarrow> ((string \<times> jsval) list \<times> bytes) throws" where
  "listed_credential c = do { i \<leftarrow> jget c ''id''; b \<leftarrow> b64u_dec i; Some (own_entries c, b) }"

definition parseCreationOptions :: "jsval \<Rightarrow> bool \<Rightarrow> creation_options throws" where
  "parseCreationOptions json prf =
     do { pk \<leftarrow> jget json ''publicKey'';
          ch \<leftarrow> jget pk ''challenge'';
          challenge \<leftarrow> b64u_dec ch;
          uid \<leftarrow> jget (oprop pk ''user'') ''id'';
          u \<leftarrow> b64u_dec uid;
          ex \<leftarrow> map_able (oprop pk ''excludeCredentials'');
          exclude \<leftarrow> mapM listed_credential ex;
          Some \<lparr>co_rest = own_entries pk, co_challenge = challenge, co_user = (own_entries (oprop pk ''user''), u), co_exclude = exclude,
            co_selection = AList.update ''requireResidentKey'' (JBool True)
              (AList.update ''residentKey'' (JStr ''required'') (own_entries (oprop pk ''authenticatorSelection''))),
            co_prf = (if prf then Some VAULT_PRF_SALT else None)\<rparr> }"

definition serializeRegistration :: "credential \<Rightarrow> jsval" where
  "serializeRegistration c =
     JObj [(''id'', JStr (cr_id c)), (''rawId'', JStr (b64url_enc (cr_rawId c))), (''type'', JStr (cr_type c)), (''extensions'', JObj []),
       (''response'', JObj [(''attestationObject'', JStr (b64url_enc (cr_attestation c))), (''clientDataJSON'', JStr (b64url_enc (cr_clientData c)))])]"

definition parseRequestOptions :: "jsval \<Rightarrow> bytes \<Rightarrow> request_options throws" where
  "parseRequestOptions json prfSalt =
     do { pk \<leftarrow> jget json ''publicKey'';
          ch \<leftarrow> jget pk ''challenge'';
          challenge \<leftarrow> b64u_dec ch;
          al \<leftarrow> map_able (oprop pk ''allowCredentials'');
          allow \<leftarrow> mapM listed_credential al;
          Some \<lparr>ro_rest = own_entries pk, ro_challenge = challenge, ro_allow = allow, ro_prf = Some prfSalt\<rparr> }"

definition serializeAssertion :: "assertion \<Rightarrow> jsval" where
  "serializeAssertion c =
     JObj [(''id'', JStr (as_id c)), (''rawId'', JStr (b64url_enc (as_rawId c))), (''type'', JStr (as_type c)), (''extensions'', JObj []),
       (''response'', JObj [(''authenticatorData'', JStr (b64url_enc (as_authData c))), (''clientDataJSON'', JStr (b64url_enc (as_clientData c))),
          (''signature'', JStr (b64url_enc (as_signature c))),
          (''userHandle'', case as_userHandle c of None \<Rightarrow> JNull | Some h \<Rightarrow> JStr (b64url_enc h))])]"

record authenticator =
  au_create :: "creation_options \<Rightarrow> credential throws"
  au_get :: "request_options \<Rightarrow> assertion throws"

definition derivePrfSecret :: "authenticator \<Rightarrow> bytes \<Rightarrow> bytes \<Rightarrow> bytes \<Rightarrow> bytes option throws" where
  \<comment> \<open>\<open>challenge\<close> is 32 random bytes\<close>
  "derivePrfSecret au challenge rawId prfSalt =
     map_option as_prf (au_get au \<lparr>ro_rest = [(''userVerification'', JStr ''preferred'')], ro_challenge = challenge,
       ro_allow = [([(''type'', JStr ''public-key'')], rawId)], ro_prf = Some prfSalt\<rparr>)"

section \<open>The relay's side of a passkey\<close>

record webauthn =
  \<comment> \<open>webauthn-rs: the options and the state it hands out, what it makes of an answer, the id inside a passkey it serialised\<close>
  wa_register :: "string \<Rightarrow> jsval \<times> string"
  wa_registered :: "string \<Rightarrow> jsval \<Rightarrow> string option"
  wa_ask :: "string \<Rightarrow> jsval \<times> string"
  wa_answered :: "string \<Rightarrow> jsval \<Rightarrow> bool"
  wa_discover :: "jsval \<times> string"
  wa_discovered :: "string \<Rightarrow> jsval \<Rightarrow> string \<Rightarrow> bool"
  wa_cred_id :: "string \<Rightarrow> bytes option"

definition start_registration :: "webauthn \<Rightarrow> string \<Rightarrow> accounts \<Rightarrow> jsval \<times> accounts" where
  "start_registration wa user a =
     (case wa_register wa user of (ccr, st) \<Rightarrow> (ccr, a\<lparr>reg_states := AList.update user st (reg_states a)\<rparr>))"

definition finish_registration :: "webauthn \<Rightarrow> string \<Rightarrow> jsval \<Rightarrow> accounts \<Rightarrow> string attempt \<times> accounts" where
  "finish_registration wa user answer a =
     (case map_of (reg_states a) user of
        None \<Rightarrow> (fails ''no registration in progress (expired?)'', a)
      | Some st \<Rightarrow> (or_fail PLATFORM (wa_registered wa st answer), a\<lparr>reg_states := AList.delete user (reg_states a)\<rparr>))"

definition passkey_challenge :: "webauthn \<Rightarrow> string \<Rightarrow> accounts \<Rightarrow> jsval http \<times> accounts" where
  "passkey_challenge wa user a =
     (case map_of (vaults a) user of
        None \<Rightarrow> (Inl (404, ''no vault for that user''), a)
      | Some v \<Rightarrow>
          if va_kind v \<noteq> ''passkey'' then (Inl (400, ''vault is not passkey-based''), a)
          else (case va_credential v of
             None \<Rightarrow> (Inl (500, ''vault missing credential''), a)
           | Some c \<Rightarrow> (case wa_ask wa c of (rcr, st) \<Rightarrow> (Inr rcr, a\<lparr>auth_states := AList.update user st (auth_states a)\<rparr>))))"

definition passkey_login :: "webauthn \<Rightarrow> string \<Rightarrow> jsval \<Rightarrow> accounts \<Rightarrow> string http \<times> accounts" where
  "passkey_login wa user answer a =
     (case map_of (auth_states a) user of
        None \<Rightarrow> (Inl (403, ''no authentication in progress (expired?)''), a)
      | Some st \<Rightarrow>
          let a1 = a\<lparr>auth_states := AList.delete user (auth_states a)\<rparr>
          in if \<not> wa_answered wa st answer then (Inl (403, PLATFORM), a1)
             else (case map_of (vaults a1) user of
                None \<Rightarrow> (Inl (404, ''no vault for that user''), a1)
              | Some v \<Rightarrow> (Inr (b64_enc (va_wrapped v)), a1)))"

definition session_of :: "jsval \<Rightarrow> string option" where
  "session_of options = (case oprop (oprop options ''publicKey'') ''challenge'' of JStr c \<Rightarrow> Some c | _ \<Rightarrow> None)"

definition discover_challenge :: "webauthn \<Rightarrow> accounts \<Rightarrow> (string \<times> jsval) http \<times> accounts" where
  "discover_challenge wa a =
     (case wa_discover wa of (rcr, st) \<Rightarrow>
        case session_of rcr of
          None \<Rightarrow> (Inl (500, ''challenge missing from options''), a)
        | Some c \<Rightarrow> (Inr (c, rcr), a\<lparr>disco_states := AList.update c st (disco_states a)\<rparr>))"

definition finish_discoverable :: "webauthn \<Rightarrow> string \<Rightarrow> jsval \<Rightarrow> string \<Rightarrow> accounts \<Rightarrow> bool \<times> accounts" where
  "finish_discoverable wa sess answer cred a =
     (case map_of (disco_states a) sess of
        None \<Rightarrow> (False, a)
      | Some st \<Rightarrow> (wa_discovered wa st answer cred, a\<lparr>disco_states := AList.delete sess (disco_states a)\<rparr>))"

definition vault_by_cred :: "webauthn \<Rightarrow> bytes \<Rightarrow> accounts \<Rightarrow> (string \<times> vault) option" where
  \<comment> \<open>the scan of the passkey vaults\<close>
  "vault_by_cred wa cid a = find (\<lambda>(u, v). va_kind v = ''passkey'' \<and>
      (case va_credential v of None \<Rightarrow> False | Some c \<Rightarrow> wa_cred_id wa c = Some cid)) (vaults a)"

definition discover_login :: "webauthn \<Rightarrow> string \<Rightarrow> jsval \<Rightarrow> accounts \<Rightarrow> string http \<times> accounts" where
  "discover_login wa sess answer a =
     (case oprop answer ''rawId'' of
        JStr raw \<Rightarrow>
          (case map_of (wraps a) raw of
             Some w \<Rightarrow>
               (case finish_discoverable wa sess answer (pw_credential w) a of (ok, a1) \<Rightarrow>
                  (if ok then Inr (b64_enc (pw_wrapped w)) else Inl (403, PLATFORM), a1))
           | None \<Rightarrow>
               (case b64url_dec raw of
                  None \<Rightarrow> (Inl (400, ''rawId is not valid base64url''), a)
                | Some cid \<Rightarrow>
                    (case vault_by_cred wa cid a of
                       None \<Rightarrow> (Inl (403, ''unrecognized passkey''), a)
                     | Some (u, v) \<Rightarrow>
                         (case va_credential v of
                            None \<Rightarrow> (Inl (500, ''vault missing credential''), a)
                          | Some c \<Rightarrow>
                              (case finish_discoverable wa sess answer c a of (ok, a1) \<Rightarrow>
                                 (if ok then Inr (b64_enc (va_wrapped v)) else Inl (403, PLATFORM), a1))))))
      | _ \<Rightarrow> (Inl (400, ''assertion missing rawId''), a))"

section \<open>The account service\<close>

record site =
  si_kdf :: "string \<Rightarrow> bytes \<Rightarrow> bytes"         \<comment> \<open>Argon2id, 64 bytes\<close>
  si_sha :: "bytes \<Rightarrow> bytes"
  si_enc :: cipher
  si_dec :: cipher
  si_wa :: webauthn
  si_au :: "authenticator option"                 \<comment> \<open>\<open>navigator.credentials\<close>\<close>

definition http_result :: "'a http \<Rightarrow> 'a attempt" where
  \<comment> \<open>\<open>AccountService.fetch\<close>\<close>
  "http_result r = (case r of Inl (status, txt) \<Rightarrow> Inl (accountError status txt) | Inr x \<Rightarrow> Inr x)"

definition self :: "seat \<Rightarrow> string" where
  \<comment> \<open>the handle the socket is authenticated for\<close>
  "self s = (case s_me s of None \<Rightarrow> [] | Some m \<Rightarrow> m)"

definition status :: "seat \<Rightarrow> accounts \<Rightarrow> string option \<times> bool" where
  \<comment> \<open>what is dispatched: the kind of vault, and whether the key was saved elsewhere\<close>
  "status s a = (vault_status (self s) a, case kv_secured (s_disk s) of None \<Rightarrow> True | Some b \<Rightarrow> b)"

definition markSecuredLocal :: "seat \<Rightarrow> seat" where
  "markSecuredLocal s = s\<lparr>s_disk := (s_disk s)\<lparr>kv_secured := Some True\<rparr>\<rparr>"

definition NO_IDENTITY :: string where "NO_IDENTITY = ''no identity on this device''"

definition secureWithPassword :: "site \<Rightarrow> bytes \<Rightarrow> bytes \<Rightarrow> string \<Rightarrow> seat \<times> accounts \<Rightarrow> (seat \<times> accounts) attempt" where
  \<comment> \<open>\<open>salt\<close> is sixteen random bytes, \<open>iv\<close> the nonce\<close>
  "secureWithPassword si salt iv password sa =
     (case sa of (s, a) \<Rightarrow>
        if length password < MIN_PASSWORD then fails (''password: '' @ nat_str MIN_PASSWORD @ '' characters minimum'')
        else let keys = si_kdf si password salt
             in and_then (or_fail NO_IDENTITY (identityBytes s)) (\<lambda>identity.
                and_then (or_fail PLATFORM (encryptBlob (si_enc si) iv (drop 32 keys) identity)) (\<lambda>wrapped.
                and_then (vault_set (self s) ''password'' (b64_enc salt) (b64_enc (si_sha si (take 32 keys))) (b64_enc wrapped) None a) (\<lambda>a1.
                  Inr (markSecuredLocal s, a1)))))"

definition registerCredential :: "site \<Rightarrow> bytes \<Rightarrow> seat \<Rightarrow> accounts \<Rightarrow> (credential \<times> string \<times> bytes \<times> accounts) attempt" where
  "registerCredential si challenge s a =
     (case si_au si of
        None \<Rightarrow> fails ''WebAuthn unavailable in this browser''
      | Some au \<Rightarrow>
          (case start_registration (si_wa si) (self s) a of (ccr, a1) \<Rightarrow>
             and_then (or_fail PLATFORM (parseCreationOptions ccr True)) (\<lambda>opts.
             and_then (or_fail PLATFORM (au_create au opts)) (\<lambda>cred.
               case finish_registration (si_wa si) (self s) (serializeRegistration cred) a1 of (fin, a2) \<Rightarrow>
             and_then fin (\<lambda>payload.
             and_then (case cr_prf cred of
                 Some sec \<Rightarrow> Inr (Some sec)
               | None \<Rightarrow> or_fail PLATFORM (derivePrfSecret au challenge (cr_rawId cred) VAULT_PRF_SALT)) (\<lambda>secret.
               case secret of None \<Rightarrow> fails noPrfMessage | Some sec \<Rightarrow> Inr (cred, payload, sec, a2)))))))"

definition secureWithPasskey :: "site \<Rightarrow> bytes \<Rightarrow> bytes \<Rightarrow> seat \<times> accounts \<Rightarrow> (seat \<times> accounts) attempt" where
  "secureWithPasskey si challenge iv sa =
     (case sa of (s, a) \<Rightarrow>
        and_then (registerCredential si challenge s a) (\<lambda>(cred, payload, secret, a1).
        and_then (or_fail NO_IDENTITY (identityBytes s)) (\<lambda>identity.
        and_then (or_fail PLATFORM (encryptBlob (si_enc si) iv secret identity)) (\<lambda>wrapped.
        and_then (vault_set (self s) ''passkey'' (b64_enc VAULT_PRF_SALT) (b64_enc []) (b64_enc wrapped) (Some payload) a1) (\<lambda>a2.
          Inr (markSecuredLocal s, a2))))))"

definition enrollDevicePasskey :: "site \<Rightarrow> nat \<Rightarrow> bytes \<Rightarrow> bytes \<Rightarrow> string \<Rightarrow> seat \<times> accounts \<Rightarrow> (bytes \<times> seat \<times> accounts) attempt" where
  \<comment> \<open>the id of the new credential is returned too\<close>
  "enrollDevicePasskey si now challenge iv label sa =
     (case sa of (s, a) \<Rightarrow>
        and_then (registerCredential si challenge s a) (\<lambda>(cred, payload, secret, a1).
        and_then (or_fail NO_IDENTITY (identityBytes s)) (\<lambda>identity.
        and_then (or_fail PLATFORM (encryptBlob (si_enc si) iv secret identity)) (\<lambda>wrapped.
        and_then (wrap_add now (self s) (b64url_enc (cr_rawId cred)) payload (b64_enc VAULT_PRF_SALT) (b64_enc wrapped)
            (trim (take DEVICE_LABEL_MAX label)) a1) (\<lambda>a2.
          Inr (cr_rawId cred, markSecuredLocal s, a2))))))"

record enrolled =
  en_credId :: string
  en_label :: string
  en_createdAt :: nat

definition listDevices :: "seat \<Rightarrow> accounts \<Rightarrow> enrolled list" where
  "listDevices s a = map (\<lambda>d. \<lparr>en_credId = dr_cred d, en_label = dr_label d, en_createdAt = dr_created d * 1000\<rparr>) (wrap_list (self s) a)"

definition revokeDevice :: "string \<Rightarrow> seat \<times> accounts \<Rightarrow> (seat \<times> accounts) attempt" where
  "revokeDevice credId sa = (case sa of (s, a) \<Rightarrow> and_then (wrap_del (self s) credId a) (\<lambda>a1. Inr (s, a1)))"

definition accountKind :: "string \<Rightarrow> accounts \<Rightarrow> string option attempt" where
  "accountKind user a =
     (case http_result (params_of user a) of
        Inr (kind, salt) \<Rightarrow> Inr (Some kind)
      | Inl e \<Rightarrow> if isNoAccount (fail_message e) then Inr None else Inl e)"

definition CORRUPT :: string where "CORRUPT = ''could not decrypt vault: corrupt data''"

definition unlockWithPassword :: "site \<Rightarrow> string \<Rightarrow> string \<Rightarrow> accounts \<Rightarrow> bytes attempt" where
  "unlockWithPassword si user password a =
     and_then (http_result (params_of user a)) (\<lambda>(kind, salt64).
       if kind \<noteq> ''password'' then fails (''this account uses '' @ kind @ '' sign-in'')
       else and_then (or_fail PLATFORM (b64_dec salt64)) (\<lambda>salt.
         let keys = si_kdf si password salt
         in and_then (http_result (password_login (si_sha si) user (b64_enc (take 32 keys)) a)) (\<lambda>wrapped.
            and_then (or_fail PLATFORM (b64_dec wrapped)) (\<lambda>w. or_fail CORRUPT (decryptBlob (si_dec si) (drop 32 keys) w)))))"

definition NO_PASSKEYS :: string where "NO_PASSKEYS = ''this browser has no passkey support''"

definition unlockWithPasskey :: "site \<Rightarrow> string \<Rightarrow> accounts \<Rightarrow> bytes attempt \<times> accounts" where
  "unlockWithPasskey si user a =
     (case si_au si of
        None \<Rightarrow> (fails NO_PASSKEYS, a)
      | Some au \<Rightarrow>
          (case http_result (params_of user a) of
             Inl e \<Rightarrow> (Inl e, a)
           | Inr (kind, salt64) \<Rightarrow>
               if kind \<noteq> ''passkey'' then (fails (''this account uses '' @ kind @ '' sign-in, not a passkey''), a)
               else (case b64_dec salt64 of None \<Rightarrow> (fails PLATFORM, a) | Some prfSalt \<Rightarrow>
                 case passkey_challenge (si_wa si) user a of (ch, a1) \<Rightarrow>
                 case http_result ch of Inl e \<Rightarrow> (Inl e, a1) | Inr challenge \<Rightarrow>
                 case parseRequestOptions challenge prfSalt of None \<Rightarrow> (fails PLATFORM, a1) | Some opts \<Rightarrow>
                 case au_get au opts of None \<Rightarrow> (fails PLATFORM, a1) | Some asn \<Rightarrow>
                 case as_prf asn of None \<Rightarrow> (fails ''authenticator returned no PRF secret'', a1) | Some secret \<Rightarrow>
                 case passkey_login (si_wa si) user (serializeAssertion asn) a1 of (rep, a2) \<Rightarrow>
                   (and_then (http_result rep) (\<lambda>wrapped.
                    and_then (or_fail PLATFORM (b64_dec wrapped)) (\<lambda>w. or_fail CORRUPT (decryptBlob (si_dec si) secret w))), a2))))"

definition unlockWithDiscoverablePasskey :: "site \<Rightarrow> accounts \<Rightarrow> bytes attempt \<times> accounts" where
  "unlockWithDiscoverablePasskey si a =
     (case si_au si of
        None \<Rightarrow> (fails NO_PASSKEYS, a)
      | Some au \<Rightarrow>
          (case discover_challenge (si_wa si) a of (ch, a1) \<Rightarrow>
           case http_result ch of Inl e \<Rightarrow> (Inl e, a1) | Inr (sess, options) \<Rightarrow>
           case parseRequestOptions options VAULT_PRF_SALT of None \<Rightarrow> (fails PLATFORM, a1) | Some opts \<Rightarrow>
           case au_get au opts of None \<Rightarrow> (fails PLATFORM, a1) | Some asn \<Rightarrow>
           case as_prf asn of
             None \<Rightarrow> (fails ''this passkey has no PRF secret: sign in with your handle instead'', a1)
           | Some secret \<Rightarrow>
               case discover_login (si_wa si) sess (serializeAssertion asn) a1 of (rep, a2) \<Rightarrow>
                 (and_then (http_result rep) (\<lambda>wrapped.
                  and_then (or_fail PLATFORM (b64_dec wrapped)) (\<lambda>w.
                    case decryptBlob (si_dec si) secret w of None \<Rightarrow> Inl unlockableHereError | Some identity \<Rightarrow> Inr identity)), a2)))"

definition adopt :: "core \<Rightarrow> bytes attempt \<Rightarrow> seat \<Rightarrow> (seat \<times> sout list) attempt" where
  "adopt c got s = and_then got (\<lambda>identity. or_fail PLATFORM (adoptIdentity c identity s))"

definition signInWithPassword :: "core \<Rightarrow> site \<Rightarrow> string \<Rightarrow> string \<Rightarrow> seat \<times> accounts \<Rightarrow> (seat \<times> sout list) attempt" where
  "signInWithPassword c si user password sa = (case sa of (s, a) \<Rightarrow> adopt c (unlockWithPassword si user password a) s)"

definition signInWithPasskey :: "core \<Rightarrow> site \<Rightarrow> string \<Rightarrow> seat \<times> accounts \<Rightarrow> (seat \<times> sout list) attempt" where
  "signInWithPasskey c si user sa = (case sa of (s, a) \<Rightarrow> adopt c (fst (unlockWithPasskey si user a)) s)"

definition signInWithDiscoverablePasskey :: "core \<Rightarrow> site \<Rightarrow> seat \<times> accounts \<Rightarrow> (seat \<times> sout list) attempt" where
  "signInWithDiscoverablePasskey c si sa = (case sa of (s, a) \<Rightarrow> adopt c (fst (unlockWithDiscoverablePasskey si a)) s)"

section \<open>Handing an identity to a new device\<close>

type_synonym tickets = "(string \<times> string \<times> nat) list"

record blob_relay =
  br_tickets :: tickets
  br_blobs :: "(string \<times> bytes) list"

definition TICKET_TTL :: nat where "TICKET_TTL = 300"
definition MAX_OUTSTANDING_TICKETS :: nat where "MAX_OUTSTANDING_TICKETS = 10000"

definition mint :: "nat \<Rightarrow> bytes \<Rightarrow> string \<Rightarrow> tickets \<Rightarrow> string \<times> tickets" where
  \<comment> \<open>\<open>random\<close> is 24 random bytes\<close>
  "mint now random i ts =
     (let token = b64url_enc random; kept = filter (\<lambda>(k, b, t). now - t < TICKET_TTL) ts
      in (token, if length kept < MAX_OUTSTANDING_TICKETS then AList.update token (i, now) kept else kept))"

definition redeem :: "nat \<Rightarrow> string \<Rightarrow> string \<Rightarrow> tickets \<Rightarrow> bool \<times> tickets" where
  "redeem now token i ts =
     (case map_of ts token of
        Some (want, t) \<Rightarrow> if want = i \<and> now - t < TICKET_TTL then (True, AList.delete token ts) else (False, ts)
      | None \<Rightarrow> (False, ts))"

definition put_blob :: "nat \<Rightarrow> string option \<Rightarrow> string \<Rightarrow> bytes \<Rightarrow> blob_relay \<Rightarrow> nat \<times> blob_relay" where
  \<comment> \<open>the status; the ticket is the header, empty when it is missing\<close>
  "put_blob now ticket i body b =
     (case redeem now (case ticket of None \<Rightarrow> [] | Some t \<Rightarrow> t) i (br_tickets b) of (ok, ts) \<Rightarrow>
        if ok then (201, b\<lparr>br_tickets := ts, br_blobs := AList.update i body (br_blobs b)\<rparr>) else (403, b\<lparr>br_tickets := ts\<rparr>))"

definition get_blob :: "string \<Rightarrow> blob_relay \<Rightarrow> bytes option" where
  "get_blob i b = map_of (br_blobs b) i"

definition linkPoll :: "string \<Rightarrow> blob_relay \<Rightarrow> bytes option" where
  \<comment> \<open>a 404 is \<open>null\<close>\<close>
  "linkPoll blobId b = get_blob blobId b"

definition sendIdentityToDevice ::
  "('p \<Rightarrow> bytes \<Rightarrow> bytes throws) \<Rightarrow> (bytes \<Rightarrow> bytes \<Rightarrow> bytes) \<Rightarrow> site \<Rightarrow> 'p \<times> bytes \<Rightarrow> bytes \<Rightarrow> nat \<Rightarrow> string \<Rightarrow> bytes \<Rightarrow> seat \<times> blob_relay \<Rightarrow>
     string attempt \<times> blob_relay" where
  \<comment> \<open>the upload carries no ticket\<close>
  "sendIdentityToDevice dh hkdf si eph iv now blobId pubRaw sb =
     (case sb of (s, b) \<Rightarrow>
        case identityBytes s of
          None \<Rightarrow> (fails NO_IDENTITY, b)
        | Some identity \<Rightarrow>
            (case sealIdentity dh hkdf (si_enc si) (si_sha si) eph iv pubRaw identity of
               None \<Rightarrow> (fails PLATFORM, b)
             | Some (payload, cd) \<Rightarrow>
                 (case put_blob now None blobId payload b of (stat, b1) \<Rightarrow>
                    (if stat = 201 then Inr cd else fails (''link send failed: HTTP '' @ nat_str stat), b1))))"

end
