(* ===== verification/Account_Rules.thy ===== *)
theory Account_Rules
  imports Account Session_Rules
begin

text \<open>
  Theorems about accounts (\<open>Account\<close>): a vault sealed under a password signs the same person in on a blank device and opens
  under no other password; a passkey enrolled for a further device signs in until it is revoked; and, as a defect, the
  hand-over of an identity to a new device is always refused by the relay.
\<close>

lemma or_fail_Inr [simp]: "or_fail m x = Inr y \<longleftrightarrow> x = Some y"
  by (simp add: or_fail_def fails_def split: option.split)

lemma and_then_Inr: "and_then x f = Inr y \<longleftrightarrow> (\<exists>v. x = Inr v \<and> f v = Inr y)"
  by (cases x) simp_all

lemma fails_not_Inr [simp]: "fails m \<noteq> Inr y" "Inr y \<noteq> fails m"
  by (simp_all add: fails_def)

lemma or_fail_Some [simp]: "or_fail m (Some x) = Inr x"
  by (simp add: or_fail_def)

lemma http_result_simps [simp]: "http_result (Inr x) = Inr x" "http_result (Inl (n, t)) = Inl (accountError n t)"
  by (simp_all add: http_result_def)

lemma accountError_text: "n \<noteq> 404 \<Longrightarrow> txt \<noteq> [] \<Longrightarrow> accountError n txt = Failure txt False"
  by (simp add: accountError_def)

lemmas attempt_simps = and_then_Inr b64_enc_dec Let_def

section \<open>Passwords\<close>

lemma vault_set_Inr:
  assumes "vault_set user kind (b64_enc s) (b64_enc v) (b64_enc w) cred a = Inr a'"
  shows "a' = a\<lparr>vaults := AList.update user \<lparr>va_kind = kind, va_salt = s, va_verifier = v, va_wrapped = w, va_credential = cred\<rparr> (vaults a)\<rparr>"
  using assms by (simp add: vault_set_def b64_enc_dec split: if_splits)

lemma secured_vault:
  assumes "secureWithPassword si salt iv pw (s, a) = Inr (s1, a1)"
  obtains identity w where "identityBytes s = Some identity" "encryptBlob (si_enc si) iv (drop 32 (si_kdf si pw salt)) identity = Some w"
    "map_of (vaults a1) (self s) = Some \<lparr>va_kind = ''password'', va_salt = salt, va_verifier = si_sha si (take 32 (si_kdf si pw salt)),
       va_wrapped = w, va_credential = None\<rparr>"
  using assms
  by (auto simp: secureWithPassword_def attempt_simps update_conv' split: if_splits dest!: vault_set_Inr)

lemma unlock_secured:
  assumes "map_of (vaults a) user = Some v" and "va_kind v = ''password''"
  shows "unlockWithPassword si user pw a =
    (let keys = si_kdf si pw (va_salt v)
     in if si_sha si (take 32 keys) = va_verifier v then or_fail CORRUPT (decryptBlob (si_dec si) (drop 32 keys) (va_wrapped v))
        else fails ''wrong password'')"
  using assms by (simp add: unlockWithPassword_def params_of_def password_login_def b64_enc_dec accountError_def fails_def Let_def)

text \<open>
  C25: someone signed in on a device secures the account with a password. On a blank device the handle and the password bring back the same
  person with the same key; every password whose derived authentication key has another hash is turned away, and a
  password of fewer than eight characters is never taken.
\<close>

theorem password_signs_the_person_in:
  assumes "core_laws c" and "lived c s" and "s_me s = Some m" and "ls_identity (s_disk s) = Some k"
    and "aead_opens (si_enc si) (si_dec si)" and "length iv = 12" and "secureWithPassword si salt iv pw (s, a) = Inr (s1, a1)"
  shows "(\<exists>s2 os. signInWithPassword c si m pw (new_seat blank_disk, a1) = Inr (s2, os) \<and> s_me s2 = Some m \<and> ls_identity (s_disk s2) = Some k \<and>
      Connect \<in> set os) \<and>
    (\<forall>pw' q. si_sha si (take 32 (si_kdf si pw' salt)) \<noteq> si_sha si (take 32 (si_kdf si pw salt)) \<longrightarrow>
      signInWithPassword c si m pw' (q, a1) = Inl (Failure ''wrong password'' False)) \<and>
    8 \<le> length pw"
proof -
  have me: "self s = m" using assms(3) by (simp add: self_def)
  have "one_self c s" using assms(1,2) by (rule one_self_lived)
  then obtain b rt rt' where b: "k = b64_enc b" "b \<noteq> []" "fromIdentity c b = Some rt" "kv_mls (s_disk s) = Some rt'" "rt_name rt' = rt_name rt"
    using assms(4) unfolding one_self_def by blast
  have m: "rt_name rt = m" using \<open>one_self c s\<close> assms(3) b(4,5) by (simp add: one_self_def)
  have bytes: "identityBytes s = Some b" using assms(4) b(1,2) by (simp add: identityBytes_def identityKeyString_def b64_enc_dec b64_enc_nonempty)
  obtain w where w: "encryptBlob (si_enc si) iv (drop 32 (si_kdf si pw salt)) b = Some w"
    and v: "map_of (vaults a1) m = Some \<lparr>va_kind = ''password'', va_salt = salt, va_verifier = si_sha si (take 32 (si_kdf si pw salt)),
       va_wrapped = w, va_credential = None\<rparr>"
    using secured_vault [OF assms(7)] bytes me by auto
  have "unlockWithPassword si m pw a1 = Inr b"
    using unlock_secured [OF v] blob_roundtrip [OF assms(5,6) w] by (simp add: Let_def)
  then have "\<exists>s2 os. signInWithPassword c si m pw (new_seat blank_disk, a1) = Inr (s2, os) \<and> s_me s2 = Some m \<and> ls_identity (s_disk s2) = Some k \<and>
      Connect \<in> set os"
    using b(1,3) m by (simp add: signInWithPassword_def adopt_def adoptIdentity_def session_defs Let_def)
  moreover have "signInWithPassword c si m pw' (q, a1) = Inl (Failure ''wrong password'' False)"
    if "si_sha si (take 32 (si_kdf si pw' salt)) \<noteq> si_sha si (take 32 (si_kdf si pw salt))" for pw' q
    using unlock_secured [OF v] that by (simp add: signInWithPassword_def adopt_def fails_def Let_def)
  moreover have "8 \<le> length pw" using assms(7) by (simp add: secureWithPassword_def MIN_PASSWORD_def split: if_splits)
  ultimately show ?thesis by blast
qed

definition example_wa :: webauthn where
  \<comment> \<open>a library that takes every answer; a passkey is the id of its credential\<close>
  "example_wa = \<lparr>wa_register = \<lambda>u. (JObj [(''publicKey'', JObj [(''challenge'', JStr ''AAAA''), (''user'', JObj [(''id'', JStr ''AAAA'')])])], ''r''),
     wa_registered = \<lambda>st j. (case oprop j ''rawId'' of JStr i \<Rightarrow> b64url_dec i | _ \<Rightarrow> None),
     wa_ask = \<lambda>c. (JObj [(''publicKey'', JObj [(''challenge'', JStr ''AAAA'')])], ''a''), wa_answered = \<lambda>st j. True,
     wa_discover = (JObj [(''publicKey'', JObj [(''challenge'', JStr ''AAAA'')])], ''d''), wa_discovered = \<lambda>st j c. True,
     wa_cred_id = Some\<rparr>"

definition example_au :: authenticator where
  \<comment> \<open>an authenticator with one resident passkey\<close>
  "example_au = \<lparr>au_create = \<lambda>opts. Some \<lparr>cr_id = ''k'', cr_rawId = ''key'', cr_type = ''public-key'', cr_attestation = [], cr_clientData = [],
       cr_prf = map_option (\<lambda>sl. ''key'' @ sl) (co_prf opts)\<rparr>,
     au_get = \<lambda>opts. if ro_allow opts \<noteq> [] \<and> ''key'' \<notin> snd ` set (ro_allow opts) then None else Some \<lparr>as_id = ''k'', as_rawId = ''key'', as_type = ''public-key'', as_authData = [], as_clientData = [], as_signature = [],
       as_userHandle = None, as_prf = map_option (\<lambda>sl. ''key'' @ sl) (ro_prf opts)\<rparr>\<rparr>"

definition example_site :: site where
  "example_site = \<lparr>si_kdf = \<lambda>p sl. take 32 (p @ replicate 32 (CHR ''-'')) @ p @ sl, si_sha = \<lambda>b. b, si_enc = example_enc, si_dec = example_enc,
     si_wa = example_wa, si_au = Some example_au\<rparr>"

theorem password_signs_the_person_in_witness:
  "\<exists>s1 a1 s2 os. secureWithPassword example_site ''salt'' (replicate 12 (CHR ''n'')) ''passphrase'' (example_seat, no_accounts) = Inr (s1, a1) \<and>
     signInWithPassword example_core example_site ''ada'' ''passphrase'' (new_seat blank_disk, a1) = Inr (s2, os) \<and> s_me s2 = Some ''ada'' \<and>
     signInWithPassword example_core example_site ''ada'' ''guess'' (new_seat blank_disk, a1) = Inl (Failure ''wrong password'' False)"
proof -
  let ?iv = "replicate 12 (CHR ''n'')"
  have i: "identityBytes example_seat = Some ''iada''"
    using example_signed_in(4) by (simp add: identityBytes_def identityKeyString_def b64_enc_dec b64_enc_nonempty)
  obtain s1 a1 where run: "secureWithPassword example_site ''salt'' ?iv ''passphrase'' (example_seat, no_accounts) = Inr (s1, a1)"
    using i by (simp add: secureWithPassword_def MIN_PASSWORD_def example_site_def encryptBlob_def example_enc_def vault_set_def b64_enc_dec Let_def)
  have ok: "aead_opens (si_enc example_site) (si_dec example_site)" "length ?iv = 12"
    by (simp_all add: example_site_def example_aead)
  have "si_sha example_site (take 32 (si_kdf example_site ''guess'' ''salt'')) \<noteq> si_sha example_site (take 32 (si_kdf example_site ''passphrase'' ''salt''))"
    by (simp add: example_site_def)
  then show ?thesis using run password_signs_the_person_in [OF example_signed_in ok run] by blast
qed

section \<open>Passkeys\<close>

definition prf_laws :: "authenticator \<Rightarrow> (bytes \<Rightarrow> bytes \<Rightarrow> bytes) \<Rightarrow> bool" where
  \<comment> \<open>the PRF extension: what an authenticator evaluates depends on the credential and the salt alone, and an assertion
     is made by a credential that is allowed\<close>
  "prf_laws au prf \<longleftrightarrow>
     (\<forall>o1 r x. au_create au o1 = Some r \<longrightarrow> cr_prf r = Some x \<longrightarrow> (\<exists>sl. co_prf o1 = Some sl \<and> x = prf (cr_rawId r) sl)) \<and>
     (\<forall>o2 r x. au_get au o2 = Some r \<longrightarrow> as_prf r = Some x \<longrightarrow> (\<exists>sl. ro_prf o2 = Some sl \<and> x = prf (as_rawId r) sl)) \<and>
     (\<forall>o2 r. au_get au o2 = Some r \<longrightarrow> ro_allow o2 \<noteq> [] \<longrightarrow> as_rawId r \<in> snd ` set (ro_allow o2))"

definition passkey_laws :: "webauthn \<Rightarrow> bool" where
  \<comment> \<open>the relay's library: a passkey it serialises carries the id of the credential it was made from\<close>
  "passkey_laws wa \<longleftrightarrow> (\<forall>st r p. wa_registered wa st (serializeRegistration r) = Some p \<longrightarrow> wa_cred_id wa p = Some (cr_rawId r))"

lemma parse_creation_prf: "parseCreationOptions j True = Some opts \<Longrightarrow> co_prf opts = Some VAULT_PRF_SALT"
  by (auto simp: parseCreationOptions_def bind_eq_Some_conv)

lemma parse_request_prf: "parseRequestOptions j sl = Some opts \<Longrightarrow> ro_prf opts = Some sl"
  by (auto simp: parseRequestOptions_def bind_eq_Some_conv)

lemma registerCredential_parts:
  assumes "registerCredential si challenge s a = Inr (r, p, secret, a1)" and "si_au si = Some au" and "prf_laws au prf" and "passkey_laws (si_wa si)"
  shows "secret = prf (cr_rawId r) VAULT_PRF_SALT \<and> wa_cred_id (si_wa si) p = Some (cr_rawId r) \<and> vaults a1 = vaults a \<and> wraps a1 = wraps a \<and>
    disco_states a1 = disco_states a"
proof -
  obtain ccr st where reg: "wa_register (si_wa si) (self s) = (ccr, st)" by fastforce
  let ?b = "a\<lparr>reg_states := AList.update (self s) st (reg_states a)\<rparr>"
  obtain opts where opts: "parseCreationOptions ccr True = Some opts" and r: "au_create au opts = Some r"
    and p: "wa_registered (si_wa si) st (serializeRegistration r) = Some p"
    and a1: "a1 = ?b\<lparr>reg_states := AList.delete (self s) (reg_states ?b)\<rparr>"
    and sec: "cr_prf r = Some secret \<or> derivePrfSecret au challenge (cr_rawId r) VAULT_PRF_SALT = Some (Some secret)"
    using assms(1,2) reg
    by (auto simp: registerCredential_def start_registration_def finish_registration_def and_then_Inr update_conv' split: option.splits)
  have "secret = prf (cr_rawId r) VAULT_PRF_SALT"
    using sec
  proof
    assume "cr_prf r = Some secret"
    then show ?thesis using assms(3) r parse_creation_prf [OF opts] unfolding prf_laws_def by (metis option.inject)
  next
    let ?o = "\<lparr>ro_rest = [(''userVerification'', JStr ''preferred'')], ro_challenge = challenge,
       ro_allow = [([(''type'', JStr ''public-key'')], cr_rawId r)], ro_prf = Some VAULT_PRF_SALT\<rparr>"
    assume "derivePrfSecret au challenge (cr_rawId r) VAULT_PRF_SALT = Some (Some secret)"
    then obtain g where g: "au_get au ?o = Some g" "as_prf g = Some secret" by (auto simp: derivePrfSecret_def)
    have "as_rawId g \<in> snd ` set (ro_allow ?o)" using assms(3) g(1) unfolding prf_laws_def by (metis list.distinct(1) request_options.select_convs(3))
    then have "as_rawId g = cr_rawId r" by simp
    moreover have "\<exists>sl. ro_prf ?o = Some sl \<and> secret = prf (as_rawId g) sl" using assms(3) g unfolding prf_laws_def by blast
    ultimately show ?thesis by simp
  qed
  then show ?thesis using assms(4) p a1 by (simp add: passkey_laws_def)
qed

lemma enrolled_wrap:
  assumes "enrollDevicePasskey si now challenge iv label (s, a) = Inr (cid, s1, a1)" and "si_au si = Some au" and "prf_laws au prf" and "passkey_laws (si_wa si)"
  obtains identity w p where "identityBytes s = Some identity" "encryptBlob (si_enc si) iv (prf cid VAULT_PRF_SALT) identity = Some w"
    "wa_cred_id (si_wa si) p = Some cid" "vaults a1 = vaults a"
    "map_of (wraps a1) (b64url_enc cid) = Some \<lparr>pw_user = self s, pw_credential = p, pw_salt = VAULT_PRF_SALT, pw_wrapped = w,
       pw_label = take MAX_DEVICE_LABEL (trim (take DEVICE_LABEL_MAX label)), pw_created = now\<rparr>"
proof -
  obtain r p secret a2 identity w where reg: "registerCredential si challenge s a = Inr (r, p, secret, a2)" and i: "identityBytes s = Some identity"
    and w: "encryptBlob (si_enc si) iv secret identity = Some w" and cid: "cid = cr_rawId r"
    and add: "wrap_add now (self s) (b64url_enc cid) p (b64_enc VAULT_PRF_SALT) (b64_enc w) (trim (take DEVICE_LABEL_MAX label)) a2 = Inr a1"
    using assms(1) by (auto simp: enrollDevicePasskey_def and_then_Inr)
  note parts = registerCredential_parts [OF reg assms(2-4)]
  have "a1 = a2\<lparr>wraps := AList.update (b64url_enc cid) \<lparr>pw_user = self s, pw_credential = p, pw_salt = VAULT_PRF_SALT, pw_wrapped = w,
       pw_label = take MAX_DEVICE_LABEL (trim (take DEVICE_LABEL_MAX label)), pw_created = now\<rparr> (wraps a2)\<rparr>"
    using add by (simp add: wrap_add_def b64_enc_dec split: if_splits)
  then show ?thesis using that [OF i, of w p] w cid parts by (simp add: update_conv')
qed

text \<open>
  C26: a further device is enrolled with a passkey. From then on that passkey, offered to the relay with no handle given, brings the identity
  down to any device whose authenticator holds it, as long as the relay's library accepts the assertion; and once the
  owner revokes it, it is turned away, unless it is also the passkey of somebody's vault.
\<close>

theorem enrolled_passkey_opens_until_revoked:
  assumes "enrollDevicePasskey si now challenge iv label (s, a) = Inr (cid, s1, a1)" and "identityBytes s = Some identity"
    and "si_au si = Some au" and "prf_laws au prf" and "passkey_laws (si_wa si)" and "aead_opens (si_enc si) (si_dec si)" and "length iv = 12"
    and "wa_discover (si_wa si) = (options, st)" and "session_of options = Some sess" and "parseRequestOptions options VAULT_PRF_SALT = Some opts"
    and "au_get au opts = Some asn" and "as_rawId asn = cid" and "as_prf asn = Some secret"
    and "\<forall>p. wa_cred_id (si_wa si) p = Some cid \<longrightarrow> wa_discovered (si_wa si) st (serializeAssertion asn) p"
  shows "fst (unlockWithDiscoverablePasskey si a1) = Inr identity \<and>
    (\<exists>a2. revokeDevice (b64url_enc cid) (s, a1) = Inr (s, a2) \<and>
       (vault_by_cred (si_wa si) cid a = None \<longrightarrow> fst (unlockWithDiscoverablePasskey si a2) = Inl (Failure ''unrecognized passkey'' False)))"
proof -
  obtain w p where w: "encryptBlob (si_enc si) iv (prf cid VAULT_PRF_SALT) identity = Some w"
    and p: "wa_cred_id (si_wa si) p = Some cid" and va: "vaults a1 = vaults a"
    and wrap: "map_of (wraps a1) (b64url_enc cid) = Some \<lparr>pw_user = self s, pw_credential = p, pw_salt = VAULT_PRF_SALT, pw_wrapped = w,
       pw_label = take MAX_DEVICE_LABEL (trim (take DEVICE_LABEL_MAX label)), pw_created = now\<rparr>"
    using enrolled_wrap [OF assms(1,3-5)] assms(2) by (metis option.inject)
  have secret: "secret = prf cid VAULT_PRF_SALT"
    using assms(4,11-13) parse_request_prf [OF assms(10)] unfolding prf_laws_def by (metis option.inject)
  have raw: "oprop (serializeAssertion asn) ''rawId'' = JStr (b64url_enc cid)" by (simp add: serializeAssertion_def assms(12))
  define a2 where "a2 = a1\<lparr>wraps := AList.delete (b64url_enc cid) (wraps a1)\<rparr>"
  have fst_open: "fst (unlockWithDiscoverablePasskey si b) =
      and_then (http_result (fst (discover_login (si_wa si) sess (serializeAssertion asn) (b\<lparr>disco_states := AList.update sess st (disco_states b)\<rparr>)))) (\<lambda>wrapped.
        and_then (or_fail PLATFORM (b64_dec wrapped)) (\<lambda>w. case decryptBlob (si_dec si) secret w of None \<Rightarrow> Inl unlockableHereError | Some identity \<Rightarrow> Inr identity))" for b
    using assms(3,8-11,13) by (simp add: unlockWithDiscoverablePasskey_def discover_challenge_def split: prod.split)
  have opens: "fst (unlockWithDiscoverablePasskey si a1) = Inr identity"
    using blob_roundtrip [OF assms(6,7) w] p assms(14) wrap secret raw
    by (simp add: fst_open discover_login_def finish_discoverable_def update_conv' b64_enc_dec)
  have gone: "revokeDevice (b64url_enc cid) (s, a1) = Inr (s, a2)"
    using wrap by (simp add: revokeDevice_def wrap_del_def a2_def)
  have shut: "fst (unlockWithDiscoverablePasskey si a2) = Inl (Failure ''unrecognized passkey'' False)" if "vault_by_cred (si_wa si) cid a = None"
  proof -
    let ?b = "a2\<lparr>disco_states := AList.update sess st (disco_states a2)\<rparr>"
    have vb: "vault_by_cred (si_wa si) cid ?b = None" using that va by (simp add: vault_by_cred_def a2_def)
    have wb: "map_of (wraps ?b) (b64url_enc cid) = None" by (simp add: a2_def delete_conv')
    have "discover_login (si_wa si) sess (serializeAssertion asn) ?b = (Inl (403, ''unrecognized passkey''), ?b)"
      unfolding discover_login_def raw jsval.case wb b64url_enc_dec option.case vb by (rule refl)
    then show ?thesis by (simp only: fst_open fst_conv http_result_simps and_then.simps) (rule arg_cong [of _ _ Inl], rule accountError_text; simp)
  qed
  show ?thesis by (intro conjI exI [of _ a2] impI opens gone shut)
qed

theorem enrolled_passkey_opens_until_revoked_witness:
  "\<exists>s1 a1 a2. enrollDevicePasskey example_site 7 ''ch'' (replicate 12 (CHR ''n'')) ''phone'' (example_seat, no_accounts) = Inr (''key'', s1, a1) \<and>
     fst (unlockWithDiscoverablePasskey example_site a1) = Inr ''iada'' \<and> revokeDevice (b64url_enc ''key'') (example_seat, a1) = Inr (example_seat, a2) \<and>
     fst (unlockWithDiscoverablePasskey example_site a2) = Inl (Failure ''unrecognized passkey'' False)"
proof -
  let ?iv = "replicate 12 (CHR ''n'')" and ?options = "JObj [(''publicKey'', JObj [(''challenge'', JStr ''AAAA'')])]"
  let ?asn = "\<lparr>as_id = ''k'', as_rawId = ''key'', as_type = ''public-key'', as_authData = [], as_clientData = [], as_signature = [],
       as_userHandle = None, as_prf = Some (''key'' @ VAULT_PRF_SALT)\<rparr>"
  have i: "identityBytes example_seat = Some ''iada''"
    using example_signed_in(4) by (simp add: identityBytes_def identityKeyString_def b64_enc_dec b64_enc_nonempty)
  have raw: "b64url_dec ''AAAA'' = Some [CHR 0x00, CHR 0x00, CHR 0x00]" by code_simp
  obtain s1 a1 where run: "enrollDevicePasskey example_site 7 ''ch'' ?iv ''phone'' (example_seat, no_accounts) = Inr (''key'', s1, a1)"
    using i raw by (simp add: enrollDevicePasskey_def registerCredential_def start_registration_def finish_registration_def example_site_def example_wa_def
        example_au_def parseCreationOptions_def jget_def b64u_dec_def map_able_def serializeRegistration_def b64url_enc_dec encryptBlob_def
        example_enc_def wrap_add_def b64_enc_dec no_accounts_def Let_def)
  have laws: "prf_laws example_au (@)" "passkey_laws (si_wa example_site)" "aead_opens (si_enc example_site) (si_dec example_site)" "length ?iv = 12"
    by (auto split: if_splits simp: prf_laws_def example_au_def passkey_laws_def example_site_def example_wa_def serializeRegistration_def b64url_enc_dec example_aead)
  obtain opts where opts: "parseRequestOptions ?options VAULT_PRF_SALT = Some opts"
    using raw by (simp add: parseRequestOptions_def jget_def b64u_dec_def map_able_def)
  have au: "si_au example_site = Some example_au" "wa_discover (si_wa example_site) = (?options, ''d'')" "session_of ?options = Some ''AAAA''"
    by (simp_all add: example_site_def example_wa_def session_of_def)
  have "ro_allow opts = []"
    using opts raw by (auto simp: parseRequestOptions_def jget_def b64u_dec_def map_able_def)
  then have got: "au_get example_au opts = Some ?asn" "as_rawId ?asn = ''key''" "as_prf ?asn = Some (''key'' @ VAULT_PRF_SALT)"
    using parse_request_prf [OF opts] by (simp_all add: example_au_def)
  have ok: "\<forall>p. wa_cred_id (si_wa example_site) p = Some ''key'' \<longrightarrow> wa_discovered (si_wa example_site) ''d'' (serializeAssertion ?asn) p"
    by (simp add: example_site_def example_wa_def)
  have none: "vault_by_cred (si_wa example_site) ''key'' no_accounts = None" by (simp add: vault_by_cred_def no_accounts_def)
  show ?thesis
    using run none enrolled_passkey_opens_until_revoked [OF run i au(1) laws au(2,3) opts got ok] by blast
qed

section \<open>The hand-over that is refused\<close>

inductive served :: "blob_relay \<Rightarrow> bool" where
  empty: "served \<lparr>br_tickets = [], br_blobs = []\<rparr>"
| minted: "served b \<Longrightarrow> length random = 24 \<Longrightarrow> served (b\<lparr>br_tickets := snd (mint now random i (br_tickets b))\<rparr>)"
| put: "served b \<Longrightarrow> served (snd (put_blob now ticket i body b))"

lemma redeem_keys: "fst ` set (snd (redeem now token i ts)) \<subseteq> fst ` set ts"
  by (auto simp: redeem_def AList.delete_eq split: option.split)

lemma served_tickets: "served b \<Longrightarrow> [] \<notin> fst ` set (br_tickets b)"
proof (induction rule: served.induct)
  case (minted b random now i)
  have "b64url_enc random \<noteq> []" using b64url_enc_key [of random] minted.hyps(2) by fastforce
  then show ?case using minted.IH by (auto simp: mint_def Let_def dom_update)
next
  case (put b now ticket i body)
  have "fst ` set (br_tickets (snd (put_blob now ticket i body b))) \<subseteq> fst ` set (br_tickets b)"
    using redeem_keys [of now "case ticket of None \<Rightarrow> [] | Some t \<Rightarrow> t" i "br_tickets b"]
    by (cases "redeem now (case ticket of None \<Rightarrow> [] | Some t \<Rightarrow> t) i (br_tickets b)") (auto simp: put_blob_def)
  then show ?case using put.IH by blast
qed simp

text \<open>
  Whatever the relay has served, an identity sent to a new device is refused, since the upload carries no ticket and every
  ticket ever issued is a non-empty token: nothing is stored, and the new device goes on polling for ever.
\<close>

lemma device_link_is_refused:
  assumes "served b"
  shows "\<exists>e b'. sendIdentityToDevice dh hkdf si eph iv now blobId pubRaw (s, b) = (Inl e, b') \<and> linkPoll j b' = linkPoll j b"
proof -
  have none: "map_of (br_tickets b) [] = None" using served_tickets [OF assms] by (simp add: map_of_eq_None_iff)
  show ?thesis
    by (simp add: sendIdentityToDevice_def put_blob_def redeem_def none fails_def linkPoll_def get_blob_def split: option.split prod.split)
qed

end
