(* ===== verification/Invitation.thy ===== *)
theory Invitation
  imports Membership Invite Handover
begin

text \<open>
  Invite links end to end, from \<open>client/src/lib/controller.js\<close> (\<open>createInvite\<close>, \<open>refreshInvites\<close>, \<open>redeemPendingInvite\<close>) with the invites
  of \<open>relay/src/store.rs\<close> and \<open>server.rs\<close>. The worker's \<open>exportGroupInfo\<close> and \<open>joinByExternalCommit\<close> are arguments. The groups of which
  the worker holds ratchets, and those in the snapshot stored on the device, are lists of ids. Shown: a link goes on letting people in
  as the circle moves on, and no link lets in more people than it says.
\<close>

section \<open>The relay's invites\<close>

record invite_rec =
  iv_group :: string
  iv_payload :: bytes
  iv_expires :: "nat option"
  iv_max :: "nat option"
  iv_uses :: nat

record invite_store =
  st_invites :: "(string \<times> invite_rec) list"
  st_claims :: "(string \<times> string) list"            \<comment> \<open>invite and handle\<close>
  st_groups :: "(string \<times> group_data) list"
  st_acl :: "(string \<times> string) list"               \<comment> \<open>group and handle\<close>

definition INVALID :: string where "INVALID = ''invite not valid (missing, expired, or used up)''"

definition create_invite :: "string \<Rightarrow> invite_rec \<Rightarrow> invite_store \<Rightarrow> (string + unit) \<times> invite_store" where
  \<comment> \<open>the first writer of an id wins\<close>
  "create_invite i rec st =
     (if map_of (st_groups st) (iv_group rec) = None then (Inl ''no such group'', st)
      else (Inr (), if map_of (st_invites st) i = None then st\<lparr>st_invites := AList.update i rec (st_invites st)\<rparr> else st))"

definition update_invite :: "string \<Rightarrow> bytes \<Rightarrow> invite_store \<Rightarrow> (string + unit) \<times> invite_store" where
  "update_invite i payload st =
     (case map_of (st_invites st) i of
        None \<Rightarrow> (Inl INVALID, st)
      | Some rec \<Rightarrow> (Inr (), st\<lparr>st_invites := AList.update i (rec\<lparr>iv_payload := payload\<rparr>) (st_invites st)\<rparr>))"

definition revoke_invite :: "string \<Rightarrow> invite_store \<Rightarrow> invite_store" where
  "revoke_invite i st = st\<lparr>st_invites := AList.delete i (st_invites st)\<rparr>"

definition expired :: "nat \<Rightarrow> invite_rec \<Rightarrow> bool" where
  "expired now rec \<longleftrightarrow> (case iv_expires rec of None \<Rightarrow> False | Some t \<Rightarrow> t < now)"

definition used_up :: "invite_rec \<Rightarrow> bool" where
  "used_up rec \<longleftrightarrow> (case iv_max rec of None \<Rightarrow> False | Some m \<Rightarrow> m \<le> iv_uses rec)"

definition redeem_invite :: "string \<Rightarrow> string \<Rightarrow> nat \<Rightarrow> invite_store \<Rightarrow> (string + string \<times> bytes) \<times> invite_store" where
  "redeem_invite i user now st =
     (case map_of (st_invites st) i of
        None \<Rightarrow> (Inl INVALID, st)
      | Some rec \<Rightarrow>
          if expired now rec then (Inl INVALID, st)
          else if (i, user) \<in> set (st_claims st) then (Inr (iv_group rec, iv_payload rec), st)
          else if used_up rec then (Inl INVALID, st)
          else (Inr (iv_group rec, iv_payload rec),
                st\<lparr>st_invites := AList.update i (rec\<lparr>iv_uses := iv_uses rec + 1\<rparr>) (st_invites st), st_claims := (i, user) # st_claims st\<rparr>))"

definition relay_redeem :: "string \<Rightarrow> string \<Rightarrow> nat \<Rightarrow> invite_store \<Rightarrow> (string + string \<times> string) \<times> invite_store" where
  \<comment> \<open>the case \<open>RedeemInvite\<close>: holding the link gives membership at the relay\<close>
  "relay_redeem i user now st =
     (case redeem_invite i user now st of
        (Inl e, st1) \<Rightarrow> (Inl e, st1)
      | (Inr (grp, payload), st1) \<Rightarrow>
          if map_of (st_groups st1) grp = None then (Inl ''no such group'', st1)
          else (Inr (grp, b64_enc payload), st1\<lparr>st_acl := (grp, user) # st_acl st1\<rparr>))"

section \<open>Making and refreshing links\<close>

definition INVITE_TTL_SECONDS :: nat where "INVITE_TTL_SECONDS = 7 * 24 * 3600"

definition invite_entry :: "string \<Rightarrow> bytes \<Rightarrow> jsval" where
  "invite_entry i key = JObj [(''id'', JStr i), (''key'', JStr (b64_enc key))]"

definition createInvite ::
  "cipher \<Rightarrow> bytes \<Rightarrow> bytes \<Rightarrow> bytes \<Rightarrow> nat \<Rightarrow> location \<Rightarrow> bool \<Rightarrow> bytes throws \<Rightarrow> circle \<Rightarrow> invite_store \<Rightarrow>
     (string + string \<times> circle \<times> deed list) \<times> invite_store" where
  \<comment> \<open>the random id and key, the nonce, the seconds of the clock, whether the relay knows the caller as an admin, and the
     worker's \<open>exportGroupInfo\<close>\<close>
  "createInvite enc idr key iv secs loc adm info r st =
     (case do { g \<leftarrow> info; encryptBlob enc iv key g } of
        None \<Rightarrow> (Inl ''an exception of the worker'', st)
      | Some blob \<Rightarrow>
          if \<not> adm then (Inl (''admin of '' @ c_id r @ '' required''), st)
          else (let i = generateInviteId idr in
            case create_invite i \<lparr>iv_group = c_id r, iv_payload = blob, iv_expires = Some (secs + INVITE_TTL_SECONDS), iv_max = None, iv_uses = 0\<rparr> st of
              (Inl e, st1) \<Rightarrow> (Inl e, st1)
            | (Inr _, st1) \<Rightarrow>
                (Inr (buildInviteUrl loc i key, r\<lparr>invites := Some (list_or_empty (invites r) @ [invite_entry i key])\<rparr>, [Do PersistCircle]), st1)))"

definition refresh_one :: "cipher \<Rightarrow> bytes \<Rightarrow> bool \<Rightarrow> bytes throws \<Rightarrow> jsval \<Rightarrow> invite_store \<Rightarrow> invite_store" where
  \<comment> \<open>an invite that cannot be refreshed is skipped\<close>
  "refresh_one enc iv adm info ent st =
     (case (do { g \<leftarrow> info; key \<leftarrow> (case oprop ent ''key'' of JStr k \<Rightarrow> b64_dec k | _ \<Rightarrow> None); encryptBlob enc iv key g }, oprop ent ''id'') of
        (Some blob, JStr i) \<Rightarrow> if adm then snd (update_invite i blob st) else st
      | _ \<Rightarrow> st)"

definition refreshInvites :: "cipher \<Rightarrow> bytes \<Rightarrow> bool \<Rightarrow> bytes throws \<Rightarrow> circle \<Rightarrow> invite_store \<Rightarrow> invite_store" where
  "refreshInvites enc iv adm info r st = fold (refresh_one enc iv adm info) (list_or_empty (invites r)) st"

section \<open>Following a link\<close>

record ext_join =
  xj_group :: string
  xj_commit :: bytes
  xj_epoch :: nat
  xj_members :: "string list"

record joiner =
  jo_me :: string
  jo_pending :: "(string \<times> string) option"
  jo_circles :: "(string \<times> circle) list"
  jo_groups :: "string list"                       \<comment> \<open>\<open>mlsGroups\<close>\<close>
  jo_worker :: "string list"                       \<comment> \<open>groups in the worker\<close>
  jo_stored :: "string list"                       \<comment> \<open>groups in the snapshot on the device\<close>

definition setPendingInvite :: "(string \<times> string) option \<Rightarrow> joiner \<Rightarrow> joiner" where
  "setPendingInvite p j = j\<lparr>jo_pending := p\<rparr>"

definition JOIN_CONFLICT :: string where
  "JOIN_CONFLICT = ''the circle changed while you were joining: open the invite link again''"

definition send_commit :: "ext_join \<Rightarrow> string \<Rightarrow> invite_store \<Rightarrow> (string + nat) \<times> invite_store" where
  "send_commit x user st =
     (case map_of (st_groups st) (xj_group x) of
        None \<Rightarrow> (Inl ''no such group'', st)
      | Some d \<Rightarrow>
          (case append_message (xj_epoch x) user (xj_commit x) True d of
             None \<Rightarrow> (Inl ''epoch conflict: the group has already moved past this epoch'', st)
           | Some (seq, d1) \<Rightarrow> (Inr seq, st\<lparr>st_groups := AList.update (xj_group x) d1 (st_groups st)\<rparr>)))"

definition redeemPendingInvite ::
  "cipher \<Rightarrow> (bytes \<Rightarrow> ext_join throws) \<Rightarrow> (invite_store \<Rightarrow> invite_store) \<Rightarrow> rat \<Rightarrow> nat \<Rightarrow> joiner \<Rightarrow> invite_store \<Rightarrow>
     (string + deed list) \<times> joiner \<times> invite_store" where
  \<comment> \<open>\<open>between\<close> is what others do at the relay before the commit arrives\<close>
  "redeemPendingInvite dec joins between now secs j st =
     (case jo_pending j of
        None \<Rightarrow> (Inl ''no pending invite'', j, st)
      | Some (i, key) \<Rightarrow>
          (let j1 = j\<lparr>jo_pending := None\<rparr> in
           case relay_redeem i (jo_me j) secs st of
             (Inl e, st1) \<Rightarrow> (Inl (''invite not usable: '' @ e), j1, st1)
           | (Inr (grp, payload), st1) \<Rightarrow>
               if (case map_of (jo_circles j) grp of None \<Rightarrow> False | Some p \<Rightarrow> \<not> restored p) then (Inr [], j1, st1)
               else (case do { k \<leftarrow> b64url_dec key; p \<leftarrow> b64_dec payload; info \<leftarrow> decryptBlob dec k p; joins info } of
                  None \<Rightarrow> (Inl ''an exception of the worker'', j1, st1)
                | Some x \<Rightarrow>
                    (let ws = set_add (jo_worker j1) (xj_group x);
                         j2 = j1\<lparr>jo_worker := ws, jo_stored := ws\<rparr> in
                     case send_commit x (jo_me j) (between st1) of
                       (Inl e, st2) \<Rightarrow>
                         \<comment> \<open>the worker forgets the group; the snapshot that follows is not stored\<close>
                         (Inl (if is_conflict e then JOIN_CONFLICT else e), j2\<lparr>jo_worker := filter (\<lambda>g. g \<noteq> xj_group x) ws\<rparr>, st2)
                     | (Inr seq, st2) \<Rightarrow>
                         (Inr [Do PersistCircle, Do (Say ''you joined via invite link: only channels that keep history have a past here'' general),
                            Do ShowServers, req ''subscribe'' [(''group'', JStr (xj_group x)), (''after'', nat_json seq)], PullRoles, CatchUp],
                          j2\<lparr>jo_groups := set_add (jo_groups j2) (xj_group x),
                             jo_circles := AList.update (xj_group x)
                               (joined_record (map_of (jo_circles j2) (xj_group x)) (xj_group x) (xj_members x) (xj_epoch x) seq None now) (jo_circles j2)\<rparr>,
                          st2)))))"

definition reopen :: "joiner \<Rightarrow> joiner" where
  \<comment> \<open>\<open>boot\<close>: the groups are those of the snapshot\<close>
  "reopen j = j\<lparr>jo_circles := [], jo_groups := jo_stored j, jo_worker := jo_stored j\<rparr>"

section \<open>What others do to the invites meanwhile\<close>

inductive busy :: "invite_store \<Rightarrow> invite_store \<Rightarrow> bool" where
  idle: "busy st st"
| redeemed: "busy st st1 \<Longrightarrow> busy st (snd (relay_redeem i user now st1))"
| created: "busy st st1 \<Longrightarrow> busy st (snd (create_invite i rec st1))"
| updated: "busy st st1 \<Longrightarrow> busy st (snd (update_invite i payload st1))"
| sent: "busy st st1 \<Longrightarrow> map_of (st_groups st1) g = Some d \<Longrightarrow> append_message ep user payload commit d = Some (seq, d1) \<Longrightarrow>
    busy st (st1\<lparr>st_groups := AList.update g d1 (st_groups st1)\<rparr>)"

definition same_invite :: "invite_rec \<Rightarrow> invite_rec \<Rightarrow> bool" where
  "same_invite a b \<longleftrightarrow> iv_group a = iv_group b \<and> iv_expires a = iv_expires b \<and> iv_max a = iv_max b"

definition stands :: "string \<Rightarrow> invite_rec \<Rightarrow> invite_store \<Rightarrow> bool" where
  "stands i rec st \<longleftrightarrow> (\<exists>rec'. map_of (st_invites st) i = Some rec' \<and> same_invite rec rec') \<and> map_of (st_groups st) (iv_group rec) \<noteq> None"

lemma stands_redeem: "stands i rec st \<Longrightarrow> stands i rec (snd (relay_redeem k user now st))"
  by (auto simp: stands_def same_invite_def relay_redeem_def redeem_invite_def update_conv' split: option.splits if_splits prod.splits sum.splits)

lemma stands_create: "stands i rec st \<Longrightarrow> stands i rec (snd (create_invite k rec' st))"
  by (auto simp: stands_def create_invite_def update_conv')

lemma stands_update: "stands i rec st \<Longrightarrow> stands i rec (snd (update_invite k payload st))"
  by (auto simp: stands_def same_invite_def update_invite_def update_conv' split: option.splits)

lemma stands_busy: "busy st st' \<Longrightarrow> stands i rec st \<Longrightarrow> stands i rec st'"
proof (induction rule: busy.induct)
  case (sent st st1 g d ep user payload commit seq d1)
  then show ?case by (auto simp: stands_def update_conv')
qed (simp_all add: stands_redeem stands_create stands_update)

lemma refresh_one_entry:
  assumes "stands i rec st" and "encryptBlob enc iv key info = Some blob"
  shows "\<exists>rec'. map_of (st_invites (refresh_one enc iv True (Some info) (invite_entry i key) st)) i = Some rec' \<and> iv_payload rec' = blob \<and> same_invite rec rec'"
  using assms by (auto simp: stands_def same_invite_def refresh_one_def invite_entry_def b64_enc_dec update_invite_def update_conv')

lemma stands_refresh_one: "stands i rec st \<Longrightarrow> stands i rec (refresh_one enc iv adm info e st)"
  by (auto simp: refresh_one_def stands_update split: option.split jsval.split)

lemma refreshed_payload:
  assumes "stands i rec st" and "encryptBlob enc iv key info = Some blob"
    and "invite_entry i key \<in> set es" and "\<forall>e \<in> set es. oprop e ''id'' = JStr i \<longrightarrow> e = invite_entry i key"
  shows "\<exists>rec'. map_of (st_invites (fold (refresh_one enc iv True (Some info)) es st)) i = Some rec' \<and> iv_payload rec' = blob \<and> same_invite rec rec'"
  using assms(3,4)
proof (induction es rule: rev_induct)
  case (snoc e es)
  let ?st = "fold (refresh_one enc iv True (Some info)) es st"
  have up: "stands i rec ?st" using assms(1) by (induction es rule: rev_induct) (simp_all add: stands_refresh_one)
  show ?case
  proof (cases "e = invite_entry i key")
    case True
    then show ?thesis using refresh_one_entry [OF up assms(2)] by simp
  next
    case False
    then have "map_of (st_invites (refresh_one enc iv True (Some info) e ?st)) i = map_of (st_invites ?st) i"
      using snoc.prems(2) by (auto simp: refresh_one_def update_invite_def update_conv' split: option.split jsval.split)
    then show ?thesis using snoc False by simp
  qed
qed simp

lemma fold_refresh_groups: "st_groups (fold (refresh_one enc iv adm info) es st) = st_groups st"
  by (induction es arbitrary: st) (auto simp: refresh_one_def update_invite_def split: option.split jsval.split)

lemma created_stands:
  assumes "createInvite enc idr key iv secs loc adm info r st = (Inr (url, r', ds), st1)" and "map_of (st_invites st) (generateInviteId idr) = None"
  shows "url = buildInviteUrl loc (generateInviteId idr) key"
    and "invites r' = Some (list_or_empty (invites r) @ [invite_entry (generateInviteId idr) key])" and "c_id r' = c_id r"
    and "stands (generateInviteId idr) \<lparr>iv_group = c_id r, iv_payload = [], iv_expires = Some (secs + INVITE_TTL_SECONDS), iv_max = None, iv_uses = 0\<rparr> st1"
  using assms
  by (auto simp: createInvite_def create_invite_def stands_def same_invite_def Let_def update_conv' split: option.splits if_splits)

lemma redeem_standing:
  assumes "map_of (st_invites st) i = Some rec" and "\<not> expired now rec" and "iv_max rec = None" and "map_of (st_groups st) (iv_group rec) \<noteq> None"
  shows "\<exists>st1. relay_redeem i user now st = (Inr (iv_group rec, b64_enc (iv_payload rec)), st1) \<and> st_groups st1 = st_groups st \<and> (iv_group rec, user) \<in> set (st_acl st1)"
  using assms by (auto simp: relay_redeem_def redeem_invite_def used_up_def)

text \<open>
  C13: an invite link goes on working while the circle moves on. An admin makes a link; then anything may happen at the relay, other people
  redeeming it, other links, messages and commits; after the last change of epoch the admin's device refreshes its links. Within the
  week, whoever opens the link gets the GroupInfo of that epoch and, unless the circle changes again before the commit arrives,
  is a member, of the relay's list and of the group, with a record whose log begins at the commit.
\<close>

theorem link_lets_people_in:
  assumes "createInvite enc idr key iv secs loc True info0 r st = (Inr (url, r', ds), st1)" and "map_of (st_invites st) (generateInviteId idr) = None"
    and "busy st1 st2" and "aead_opens enc dec" and "length iv' = 12" and "encryptBlob enc iv' key info = Some blob" and "c_id r2 = c_id r"
    and "invite_entry (generateInviteId idr) key \<in> set (list_or_empty (invites r2))"
    and "\<forall>e \<in> set (list_or_empty (invites r2)). oprop e ''id'' = JStr (generateInviteId idr) \<longrightarrow> e = invite_entry (generateInviteId idr) key"
    and "CHR ''#'' \<notin> set (origin loc @ pathname loc)" and "CHR ''?'' \<notin> set (origin loc @ pathname loc)" and "generateInviteId idr \<noteq> []" and "key \<noteq> []"
    and "secs' \<le> secs + INVITE_TTL_SECONDS" and "case map_of (jo_circles j) (c_id r) of None \<Rightarrow> True | Some p \<Rightarrow> restored p"
    and "joins info = Some x" and "xj_group x = c_id r" and "map_of (st_groups st2) (c_id r) = Some d" and "gd_epoch d + 1 = xj_epoch x"
  shows "\<exists>os j' st'. redeemPendingInvite dec joins id now secs' (setPendingInvite (parseInviteUrl (visit url)) j)
      (refreshInvites enc iv' True (Some info) r2 st2) = (Inr os, j', st') \<and> c_id r \<in> set (jo_groups j') \<and> c_id r \<in> set (jo_stored j') \<and>
    (c_id r, jo_me j) \<in> set (st_acl st') \<and> map_option lastSeq (map_of (jo_circles j') (c_id r)) = Some (Some (length (gd_log d) + 1))"
proof -
  let ?i = "generateInviteId idr" and ?st3 = "refreshInvites enc iv' True (Some info) r2 st2"
  note made = created_stands [OF assms(1,2)]
  let ?rec = "\<lparr>iv_group = c_id r, iv_payload = [], iv_expires = Some (secs + INVITE_TTL_SECONDS), iv_max = None, iv_uses = 0\<rparr>"
  have "stands ?i ?rec st2" using assms(3) made(4) by (rule stands_busy)
  then obtain rec' where rec': "map_of (st_invites ?st3) ?i = Some rec'" "iv_payload rec' = blob" and same: "same_invite ?rec rec'"
    using refreshed_payload [OF _ assms(6,8,9)] unfolding refreshInvites_def by blast
  have gr: "map_of (st_groups ?st3) (c_id r) = Some d" using assms(18) by (simp add: refreshInvites_def fold_refresh_groups)
  have eqs: "iv_expires rec' = Some (secs + INVITE_TTL_SECONDS)" "iv_max rec' = None" "iv_group rec' = c_id r"
    using same by (simp_all add: same_invite_def)
  have "\<not> expired secs' rec'" using assms(14) by (simp add: expired_def eqs(1))
  then obtain st4 where st4: "relay_redeem ?i (jo_me j) secs' ?st3 = (Inr (c_id r, b64_enc blob), st4)" "st_groups st4 = st_groups ?st3"
      "(c_id r, jo_me j) \<in> set (st_acl st4)"
    using redeem_standing [OF rec'(1), of secs' "jo_me j"] gr rec'(2) eqs by auto
  have url: "parseInviteUrl (visit url) = Some (?i, b64url_enc key)"
    using invite_link_roundtrip [OF assms(10,11,12,13)] made(1) by simp
  have open1: "do { k \<leftarrow> b64url_dec (b64url_enc key); p \<leftarrow> b64_dec (b64_enc blob); info \<leftarrow> decryptBlob dec k p; joins info } = Some x"
    using blob_roundtrip [OF assms(4,5,6)] assms(16) by (simp add: b64url_enc_dec b64_enc_dec)
  have send: "send_commit x (jo_me j) st4 = (Inr (length (gd_log d) + 1), st4\<lparr>st_groups := AList.update (c_id r)
      (d\<lparr>gd_epoch := xj_epoch x, gd_log := gd_log d @ [\<lparr>sm_seq = length (gd_log d) + 1, sm_epoch = xj_epoch x, sm_sender = jo_me j, sm_payload = xj_commit x\<rparr>]\<rparr>) (st_groups st4)\<rparr>)"
    using gr st4(2) assms(17,19) by (simp add: send_commit_def append_message_def Let_def)
  have live: "\<not> (case map_of (jo_circles j) (c_id r) of None \<Rightarrow> False | Some p \<Rightarrow> \<not> restored p)"
    using assms(15) by (simp split: option.splits)
  show ?thesis
    using live st4 open1 send assms(17)
    by (simp add: redeemPendingInvite_def setPendingInvite_def url Let_def update_conv' joined_record_def set_add_def)
qed

definition example_circle :: circle where "example_circle = empty_circle ''c''"

definition example_relay :: invite_store where
  "example_relay = \<lparr>st_invites = [], st_claims = [], st_groups = [(''c'', \<lparr>gd_epoch = 4, gd_log = []\<rparr>)], st_acl = []\<rparr>"

definition example_joiner :: joiner where
  "example_joiner = \<lparr>jo_me = ''eve'', jo_pending = None, jo_circles = [], jo_groups = [], jo_worker = [], jo_stored = []\<rparr>"

definition example_joins :: "bytes \<Rightarrow> ext_join throws" where
  "example_joins info = Some \<lparr>xj_group = ''c'', xj_commit = ''commit'', xj_epoch = 5, xj_members = [''ada'', ''eve'']\<rparr>"

abbreviation example_place :: location where
  "example_place \<equiv> \<lparr>origin = ''https://q.example'', pathname = ''/'', search = [], hash = []\<rparr>"

theorem link_lets_people_in_witness:
  "\<exists>url r' ds st1 os j' st'. createInvite example_enc ''random'' ''key'' (replicate 12 (CHR ''n'')) 100 example_place True (Some ''old info'') example_circle
       example_relay = (Inr (url, r', ds), st1) \<and>
     redeemPendingInvite example_enc example_joins id 0 200 (setPendingInvite (parseInviteUrl (visit url)) example_joiner)
       (refreshInvites example_enc (replicate 12 (CHR ''m'')) True (Some ''info'') r' st1) = (Inr os, j', st') \<and> ''c'' \<in> set (jo_groups j')"
proof -
  let ?iv = "replicate 12 (CHR ''n'')" and ?iv' = "replicate 12 (CHR ''m'')"
  obtain url r' ds st1 where run: "createInvite example_enc ''random'' ''key'' ?iv 100 example_place True (Some ''old info'') example_circle example_relay =
      (Inr (url, r', ds), st1)"
    and gr: "st_groups st1 = st_groups example_relay"
    by (simp add: createInvite_def encryptBlob_def example_enc_def create_invite_def example_relay_def example_circle_def empty_circle_def Let_def)
  have c: "c_id example_circle = ''c''" by (simp add: example_circle_def empty_circle_def)
  have id: "generateInviteId ''random'' \<noteq> []" using b64url_enc_key [of "''random''"] by (simp add: generateInviteId_def)
  have new: "map_of (st_invites example_relay) (generateInviteId ''random'') = None" by (simp add: example_relay_def)
  note made = created_stands [OF run new]
  have inv: "list_or_empty (invites r') = [invite_entry (generateInviteId ''random'') ''key'']"
    using made(2) by (simp add: list_or_empty_def example_circle_def empty_circle_def)
  have blob: "encryptBlob example_enc ?iv' ''key'' ''info'' = Some (?iv' @ rev ''info'')" by (simp add: encryptBlob_def example_enc_def)
  have "\<exists>os j' st'. redeemPendingInvite example_enc example_joins id 0 200 (setPendingInvite (parseInviteUrl (visit url)) example_joiner)
      (refreshInvites example_enc ?iv' True (Some ''info'') r' st1) = (Inr os, j', st') \<and> c_id example_circle \<in> set (jo_groups j') \<and>
      c_id example_circle \<in> set (jo_stored j') \<and> (c_id example_circle, jo_me example_joiner) \<in> set (st_acl st') \<and>
      map_option lastSeq (map_of (jo_circles j') (c_id example_circle)) = Some (Some (length (gd_log \<lparr>gd_epoch = 4, gd_log = []\<rparr>) + 1))"
    by (rule link_lets_people_in [OF run new busy.idle example_aead _ blob made(3) _ _ _ _ id, where x = "\<lparr>xj_group = ''c'', xj_commit = ''commit'', xj_epoch = 5, xj_members = [''ada'', ''eve'']\<rparr>"])
      (simp_all add: inv c gr example_relay_def example_joiner_def example_joins_def INVITE_TTL_SECONDS_def)
  then show ?thesis using run unfolding c by blast
qed

text \<open>A join whose commit loses the race is dropped in the worker and stays in the snapshot, from which it comes back.\<close>

lemma lost_join_comes_back:
  assumes "redeemPendingInvite dec joins between now secs j st = (Inl e, j', st')" and "jo_pending j = Some (i, key)"
    and "relay_redeem i (jo_me j) secs st = (Inr (grp, payload), st1)" and "map_of (jo_circles j) grp = None"
    and "do { k \<leftarrow> b64url_dec key; p \<leftarrow> b64_dec payload; info \<leftarrow> decryptBlob dec k p; joins info } = Some x"
  shows "xj_group x \<notin> set (jo_worker j') \<and> xj_group x \<in> set (jo_groups (reopen j')) \<and> xj_group x \<in> set (jo_worker (reopen j'))"
  using assms by (auto simp: redeemPendingInvite_def reopen_def Let_def set_add_def split: prod.splits sum.splits)

end
