(* ===== verification/Shell.thy ===== *)
theory Shell
  imports Session_Rules
begin

text \<open>
  The service worker, \<open>client/public/sw.js\<close>: the precached shell, what a request is answered with, the text and the tag of a
  notification; and from \<open>controller.js\<close> and \<open>notify-prompt.js\<close> the subscription to pushes, the first-run prompt and the request for
  durable storage. Caches are association lists from paths to bodies; the network is a function from paths, \<open>None\<close> where nothing answers.
  The curly quotes of the texts are written as plain ones.
\<close>

section \<open>The offline shell\<close>

record shell =
  sh_version :: string
  sh_assets :: "string list"

type_synonym caches = "(string \<times> (string \<times> string) list) list"
type_synonym network = "string \<Rightarrow> string option"

definition PREFIX :: string where "PREFIX = ''quorum-shell-''"

definition CACHE :: "shell \<Rightarrow> string" where "CACHE sh = PREFIX @ sh_version sh"

definition cache_add :: "network \<Rightarrow> string \<Rightarrow> (string \<times> string) list \<Rightarrow> (string \<times> string) list" where
  \<comment> \<open>an asset that cannot be fetched is left out\<close>
  "cache_add net a c = (case net a of None \<Rightarrow> c | Some b \<Rightarrow> AList.update a b c)"

definition opened :: "string \<Rightarrow> caches \<Rightarrow> (string \<times> string) list" where
  "opened k cs = (case map_of cs k of None \<Rightarrow> [] | Some c \<Rightarrow> c)"

definition install :: "shell \<Rightarrow> network \<Rightarrow> caches \<Rightarrow> caches" where
  "install sh net cs =
     (if sh_assets sh = [] then cs
      else AList.update (CACHE sh) (fold (cache_add net) (sh_assets sh) (opened (CACHE sh) cs)) cs)"

definition activate :: "shell \<Rightarrow> caches \<Rightarrow> caches" where
  "activate sh cs = filter (\<lambda>(k, c). \<not> (take (length PREFIX) k = PREFIX \<and> k \<noteq> CACHE sh)) cs"

record fetch_request =
  rq_method :: string
  rq_origin :: "string option"          \<comment> \<open>none where the URL does not parse\<close>
  rq_path :: string
  rq_mode :: string

datatype fetch_answer = Untouched | Answered string | NetworkError

definition from_network :: "network \<Rightarrow> string \<Rightarrow> fetch_answer" where
  "from_network net p = (case net p of None \<Rightarrow> NetworkError | Some b \<Rightarrow> Answered b)"

definition on_fetch :: "shell \<Rightarrow> string \<Rightarrow> network \<Rightarrow> caches \<Rightarrow> fetch_request \<Rightarrow> fetch_answer" where
  "on_fetch sh here net cs rq =
     (if rq_method rq \<noteq> ''GET'' \<or> sh_assets sh = [] then Untouched
      else if rq_origin rq \<noteq> Some here then Untouched
      else if rq_mode rq = ''navigate'' then
        (case net (rq_path rq) of
           Some b \<Rightarrow> Answered b
         | None \<Rightarrow> (case map_of (opened (CACHE sh) cs) ''/index.html'' of None \<Rightarrow> NetworkError | Some b \<Rightarrow> Answered b))
      else if rq_path rq \<notin> set (sh_assets sh) then Untouched
      else (case map_of (opened (CACHE sh) cs) (rq_path rq) of Some b \<Rightarrow> Answered b | None \<Rightarrow> from_network net (rq_path rq)))"

section \<open>Notifications\<close>

definition circleName :: "disk \<Rightarrow> string \<Rightarrow> jsval" where
  \<comment> \<open>\<open>circleNames?.[id] ?? null\<close>; an inherited name gives a function, which is printed\<close>
  "circleName k i = (case dget (kv_names k) i of Own v \<Rightarrow> coalesce v JNull | Absent \<Rightarrow> JNull | Proto \<Rightarrow> JStr ''function'')"

record notification =
  nt_body :: string
  nt_tag :: string
  nt_requireInteraction :: bool
  nt_group :: jsval

definition quoted :: "string \<Rightarrow> jsval \<Rightarrow> string \<Rightarrow> string throws" where
  \<comment> \<open>the text with the name of the circle, or the one without\<close>
  "quoted what name bare = (if truthy name then do { n \<leftarrow> to_str name; Some (what @ '' '' @ [CHR 0x22] @ n @ [CHR 0x22]) } else Some bare)"

definition tagged :: "string \<Rightarrow> jsval \<Rightarrow> string throws" where
  "tagged kind i = do { t \<leftarrow> to_str i; Some (''quorum-'' @ kind @ ''-'' @ t) }"

definition on_push :: "disk \<Rightarrow> jsval \<Rightarrow> notification throws" where
  \<comment> \<open>\<open>data\<close> is the payload, an empty object where it is not JSON\<close>
  "on_push k data =
     (let grp = coalesce (coalesce (coalesce (oprop data ''call'') (oprop data ''rally'')) (oprop data ''group'')) (coalesce (oprop data ''welcome'') JNull) in
      do { name \<leftarrow> (if truthy grp then do { i \<leftarrow> to_str grp; Some (circleName k i) } else Some JNull);
           (b, t, w) \<leftarrow>
             (if truthy (oprop data ''welcome'') then
                do { b \<leftarrow> quoted ''you were added to'' name ''you were added to a circle''; t \<leftarrow> tagged ''welcome'' (oprop data ''welcome''); Some (b, t, False) }
              else if truthy (oprop data ''call'') then
                do { b \<leftarrow> quoted ''incoming call in'' name ''incoming call''; t \<leftarrow> tagged ''call'' (oprop data ''call''); Some (b, t, True) }
              else if truthy (oprop data ''rally'') then
                do { b \<leftarrow> quoted ''a rally was started in'' name ''a rally was started''; t \<leftarrow> tagged ''rally'' (oprop data ''rally''); Some (b, t, False) }
              else if truthy (oprop data ''group'') then
                do { b \<leftarrow> quoted ''new message in'' name ''new encrypted message''; t \<leftarrow> tagged ''msg'' (oprop data ''group''); Some (b, t, False) }
              else Some (''new encrypted activity'', ''quorum'', False));
           Some \<lparr>nt_body = b, nt_tag = t, nt_requireInteraction = w, nt_group = grp\<rparr> })"

datatype click = OpenGroup jsval | Focus | OpenWindow string

definition on_click :: "bool \<Rightarrow> notification \<Rightarrow> click list" where
  \<comment> \<open>whether a window of the app is open\<close>
  "on_click win n =
     (if win then (if truthy (nt_group n) then [OpenGroup (nt_group n)] else []) @ [Focus] else [OpenWindow ''/''])"

section \<open>Subscribing\<close>

definition push_subscribe :: "bytes \<Rightarrow> bytes option \<Rightarrow> bytes throws" where
  \<comment> \<open>the push manager refuses a key other than the one it holds a subscription for\<close>
  "push_subscribe key held = (case held of None \<Rightarrow> Some key | Some k \<Rightarrow> if k = key then Some key else None)"

record push_state =
  ps_worker :: bool                     \<comment> \<open>\<open>swReg\<close>\<close>
  ps_held :: "bytes option"             \<comment> \<open>the key of the subscription this browser holds\<close>
  ps_told :: "bytes option"             \<comment> \<open>that of the one the relay was given\<close>

definition enableNotifications :: "bool \<Rightarrow> string \<Rightarrow> string \<Rightarrow> bool \<Rightarrow> push_state \<Rightarrow> (string + unit) \<times> push_state" where
  \<comment> \<open>whether a worker can be registered, the permission given, the relay's key as sent, whether unsubscribing succeeds\<close>
  "enableNotifications registers permission pubkey unsub s =
     (if \<not> ps_worker s \<and> \<not> registers then (Inl ''service workers unavailable in this browser'', s)
      else let s1 = s\<lparr>ps_worker := True\<rparr> in
        if permission \<noteq> ''granted'' then (Inl ''notification permission denied'', s1)
        else (case b64url_dec pubkey of
           None \<Rightarrow> (Inl ''an exception of the platform'', s1)
         | Some key \<Rightarrow>
             (case push_subscribe key (ps_held s1) of
                Some k \<Rightarrow> (Inr (), s1\<lparr>ps_held := Some k, ps_told := Some k\<rparr>)
              | None \<Rightarrow>
                  let s2 = (if unsub then s1\<lparr>ps_held := None\<rparr> else s1) in
                  (case push_subscribe key (ps_held s2) of
                     None \<Rightarrow> (Inl ''an exception of the platform'', s2)
                   | Some k \<Rightarrow> (Inr (), s2\<lparr>ps_held := Some k, ps_told := Some k\<rparr>)))))"

definition shouldPromptNotifications :: "bool \<Rightarrow> string \<Rightarrow> bool \<Rightarrow> bool" where
  "shouldPromptNotifications supported permission asked = (if \<not> supported then False else if asked then False else permission = ''default'')"

definition NOTIF_PROMPTED_KEY :: string where "NOTIF_PROMPTED_KEY = ''quorum-notif-prompted''"

definition notifAlreadyPrompted :: "(string \<times> string) list option \<Rightarrow> bool" where
  \<comment> \<open>the local storage, none where it is blocked\<close>
  "notifAlreadyPrompted store =
     (case store of None \<Rightarrow> False | Some kv \<Rightarrow> (case map_of kv NOTIF_PROMPTED_KEY of None \<Rightarrow> False | Some v \<Rightarrow> v \<noteq> []))"

definition markNotifPrompted :: "(string \<times> string) list option \<Rightarrow> (string \<times> string) list option" where
  "markNotifPrompted store = map_option (AList.update NOTIF_PROMPTED_KEY ''1'') store"

definition evicting :: "string \<Rightarrow> bool" where
  \<comment> \<open>\<open>/^((?!chrome|android).)*safari/i\<close>\<close>
  "evicting ua =
     (let l = toLowerCase ua;
          starts = (\<lambda>w n. take (length w) (drop n l) = w)
      in list_ex (\<lambda>p. starts ''safari'' p \<and> list_all (\<lambda>q. \<not> starts ''chrome'' q \<and> \<not> starts ''android'' q) [0..<p]) [0..<length l])"

definition requestPersistentStorage :: "bool option throws \<Rightarrow> bool option throws \<Rightarrow> string \<Rightarrow> bool \<times> bool option" where
  \<comment> \<open>what \<open>persisted()\<close> and \<open>persist()\<close> answer (\<open>Some None\<close> where the browser lacks them); the result, and the warning shown with
     whether storage is known to be cleared\<close>
  "requestPersistentStorage before ask ua =
     (let ok = (case before of None \<Rightarrow> False
                | Some b \<Rightarrow> if b = Some True then True else (case ask of None \<Rightarrow> False | Some a \<Rightarrow> a = Some True))
      in (ok, if ok then None else Some (evicting ua)))"

section \<open>The shell works without a network\<close>

lemma fold_cache_add:
  assumes "\<forall>a \<in> set as. net a \<noteq> None"
  shows "map_of (fold (cache_add net) as c) p = (if p \<in> set as then net p else map_of c p)"
  using assms by (induction as arbitrary: c) (auto simp: cache_add_def update_conv' split: option.splits)

lemma opened_installed:
  assumes "\<forall>a \<in> set (sh_assets sh). net a \<noteq> None" and "a \<in> set (sh_assets sh)"
  shows "map_of (opened (CACHE sh) (activate sh (install sh net cs))) a = net a"
proof -
  have ne: "sh_assets sh \<noteq> []" using assms(2) by auto
  have keep: "map_of (activate sh xs) (CACHE sh) = map_of xs (CACHE sh)" for xs
    unfolding activate_def by (induction xs) auto
  show ?thesis using fold_cache_add [OF assms(1)] assms(2) ne
    by (simp add: opened_def install_def keep update_conv')
qed



section \<open>What a notification says\<close>

datatype nudge = Welcomed string | Called string | Rallied string | Messaged string

fun nudge_json :: "nudge \<Rightarrow> jsval" where
  \<comment> \<open>the payloads the relay sends\<close>
  "nudge_json (Welcomed g) = JObj [(''welcome'', JStr g)]"
| "nudge_json (Called g) = JObj [(''call'', JStr g)]"
| "nudge_json (Rallied g) = JObj [(''rally'', JStr g)]"
| "nudge_json (Messaged g) = JObj [(''group'', JStr g)]"

fun nudge_group :: "nudge \<Rightarrow> string" where
  "nudge_group (Welcomed g) = g"
| "nudge_group (Called g) = g"
| "nudge_group (Rallied g) = g"
| "nudge_group (Messaged g) = g"

fun bare_text :: "nudge \<Rightarrow> string" where
  "bare_text (Welcomed g) = ''you were added to a circle''"
| "bare_text (Called g) = ''incoming call''"
| "bare_text (Rallied g) = ''a rally was started''"
| "bare_text (Messaged g) = ''new encrypted message''"

fun nudge_tag :: "nudge \<Rightarrow> string" where
  "nudge_tag (Welcomed g) = ''quorum-welcome-'' @ g"
| "nudge_tag (Called g) = ''quorum-call-'' @ g"
| "nudge_tag (Rallied g) = ''quorum-rally-'' @ g"
| "nudge_tag (Messaged g) = ''quorum-msg-'' @ g"

lemma nudge_tag_inj: "nudge_tag a = nudge_tag b \<longleftrightarrow> a = b"
  by (cases a; cases b) auto

lemma push_tag:
  assumes "nudge_group n \<noteq> []" and "on_push k (nudge_json n) = Some t"
  shows "nt_tag t = nudge_tag n"
  using assms by (cases n) (auto simp: on_push_def tagged_def bind_eq_Some_conv Let_def)

lemma push_unnamed:
  assumes "nudge_group n \<noteq> []" and "\<not> truthy (circleName k (nudge_group n))"
  shows "\<exists>t. on_push k (nudge_json n) = Some t \<and> nt_body t = bare_text n"
  using assms by (cases n) (auto simp: on_push_def tagged_def quoted_def Let_def)

text \<open>
  A notification replaces another only when it is of the same kind and about the same circle. And after a circle has been left, a push about
  it that is still on its way names no circle: its text is the one that says only what kind of thing happened.
\<close>

theorem left_circle_is_not_named:
  assumes "nudge_group n \<noteq> []" and "nudge_group n \<notin> set proto_names"
  shows "(\<forall>k n' t t'. nudge_group n' \<noteq> [] \<longrightarrow> on_push k (nudge_json n) = Some t \<longrightarrow> on_push k (nudge_json n') = Some t' \<longrightarrow> nt_tag t = nt_tag t' \<longrightarrow> n = n') \<and>
    (\<forall>now s s' os. forgetServerLocal now (nudge_group n) s = Some (s', os) \<longrightarrow> named_circles (dev s) \<longrightarrow> in_step_with_disk s \<longrightarrow>
       (\<exists>t. on_push (s_disk s') (nudge_json n) = Some t \<and> nt_body t = bare_text n))"
proof (intro conjI allI impI)
  fix k n' t t'
  assume "nudge_group n' \<noteq> []" "on_push k (nudge_json n) = Some t" "on_push k (nudge_json n') = Some t'" "nt_tag t = nt_tag t'"
  then show "n = n'" using push_tag assms(1) nudge_tag_inj by metis
next
  fix now s s' os
  assume left: "forgetServerLocal now (nudge_group n) s = Some (s', os)" "named_circles (dev s)" "in_step_with_disk s"
  have "nudge_group n \<notin> fst ` set (kv_names (s_disk s'))" by (rule forgetServerLocal_facts(5) [OF left])
  then have "circleName (s_disk s') (nudge_group n) = JNull"
    using assms(2) by (simp add: circleName_def dget_def map_of_eq_None_iff [THEN iffD2])
  then show "\<exists>t. on_push (s_disk s') (nudge_json n) = Some t \<and> nt_body t = bare_text n"
    using push_unnamed [OF assms(1)] by simp
qed

text \<open>
  Turning notifications on leaves the browser subscribed under the key the relay has now and the relay told of that subscription, also
  when the browser still held one under an earlier key; it fails only without a worker, without permission, on a malformed key, or
  when the old subscription cannot be removed.
\<close>

theorem notifications_follow_the_relay_key:
  assumes "enableNotifications registers permission pubkey unsub s = (Inr (), s')"
  shows "\<exists>key. b64url_dec pubkey = Some key \<and> ps_held s' = Some key \<and> ps_told s' = Some key \<and> permission = ''granted''"
  using assms by (auto simp: enableNotifications_def push_subscribe_def Let_def split: if_splits option.splits)

end
