(* ===== verification/Display.thy ===== *)
theory Display
  imports Actions "HOL-Library.Word"
begin

unbundle bit_operations_syntax

text \<open>
  The small helpers behind what is drawn: the hashes and the generator of \<open>avatar.js\<close>, \<open>crest.js\<close> and \<open>viewTransition.js\<close>, on integers of
  32 bits as JavaScript's bitwise operators leave them, the marks of circles (\<open>crest.js\<close>), the speaking meter (\<open>meter.js\<close>), the
  theme (\<open>theme.js\<close>), class names (\<open>cx.js\<close>), and the rest of \<open>games.js\<close>. Colours are triples; doubles are rationals, or reals
  where a root or a power is taken. Shown: the hash is the standard one, no mark comes near the accent, the tile's lightness is found to
  within a hundredth of a millionth, the meter does not flicker.
\<close>

section \<open>Integers of 32 bits\<close>

definition to_int32 :: "int \<Rightarrow> int" where
  \<comment> \<open>what a bitwise operator makes of an integer\<close>
  "to_int32 x = signed_take_bit 31 x"

definition imul :: "int \<Rightarrow> int \<Rightarrow> int" where
  \<comment> \<open>\<open>Math.imul\<close>\<close>
  "imul a b = to_int32 (to_int32 a * to_int32 b)"

definition to_uint32 :: "int \<Rightarrow> int" where
  \<comment> \<open>\<open>x >>> 0\<close>\<close>
  "to_uint32 x = take_bit 32 x"

definition fnv_step :: "char \<Rightarrow> int \<Rightarrow> int" where
  "fnv_step c h = imul (to_int32 h XOR int (code c)) 0x01000193"

definition fnv1a :: "string \<Rightarrow> int" where
  "fnv1a s = to_uint32 (fold fnv_step s 0x811c9dc5)"

definition hash31_step :: "char \<Rightarrow> int \<Rightarrow> int" where
  "hash31_step c h = to_int32 (imul 31 h + int (code c))"

definition ident_char :: "char \<Rightarrow> bool" where
  "ident_char c \<longleftrightarrow> (code c \<ge> 48 \<and> code c \<le> 57) \<or> (code c \<ge> 65 \<and> code c \<le> 90) \<or> (code c \<ge> 97 \<and> code c \<le> 122)"

definition memberVtName :: "string \<Rightarrow> string" where
  "memberVtName raw =
     ''vt-m-'' @ dash_runs ident_char raw @ ''-'' @ radix_str 36 (nat (to_uint32 (fold hash31_step raw 0)))"

section \<open>Hues and marks\<close>

definition nameHue :: "string \<Rightarrow> nat" where
  "nameHue name = nat (fnv1a name) mod 360"

definition SAFE_LO :: rat where "SAFE_LO = 15"
definition SAFE_HI :: rat where "SAFE_HI = 295"
definition STOPS :: nat where "STOPS = 10"

definition clampHue :: "rat \<Rightarrow> rat" where
  "clampHue h = min SAFE_HI (max SAFE_LO h)"

record colour =
  co_hue :: int
  co_sat :: int
  co_light :: int

definition hsl :: "rat \<Rightarrow> rat \<Rightarrow> rat \<Rightarrow> colour" where
  "hsl h s l = \<lparr>co_hue = js_round (clampHue h), co_sat = js_round s, co_light = js_round l\<rparr>"

definition idHue :: "string \<Rightarrow> int" where
  "idHue i = js_round (SAFE_LO + of_nat (nat (fnv1a i) mod STOPS) * ((SAFE_HI - SAFE_LO) / of_nat (STOPS - 1)))"

definition prng_step :: "32 word \<Rightarrow> 32 word \<times> rat" where
  \<comment> \<open>the next state and the number drawn\<close>
  "prng_step a0 =
     (let a1 = (a0 XOR drop_bit 15 a0) * (a0 OR 1);
          a2 = a1 XOR (a1 + (a1 XOR drop_bit 7 a1) * (a1 OR 61))
      in (a2, of_nat (unat (a2 XOR drop_bit 14 a2)) / 4294967296))"

fun draws :: "nat \<Rightarrow> 32 word \<Rightarrow> rat list" where
  "draws 0 a = []"
| "draws (Suc n) a = (case prng_step a of (a', r) \<Rightarrow> r # draws n a')"

definition prng_seed :: "int \<Rightarrow> 32 word" where
  \<comment> \<open>\<open>seed || 1\<close>\<close>
  "prng_seed s = (if s = 0 then 1 else of_int s)"

record crest =
  cs_hue :: int
  cs_radial :: bool
  cs_angle :: nat
  cs_fx :: rat
  cs_fy :: rat
  cs_stops :: "(rat \<times> colour) list"
  cs_sheenX :: rat
  cs_sheenY :: rat
  cs_sheen :: rat

definition toFixed3 :: "rat \<Rightarrow> rat" where
  "toFixed3 x = of_int (js_round (x * 1000)) / 1000"

definition crestParams :: "string \<Rightarrow> crest" where
  "crestParams i =
     (let r = (!) (draws 16 (prng_seed (fnv1a i)));
          hue = of_int (idHue i);
          spread = 26 + r 0 * 66;
          dir = (if r 1 < 1 / 2 then -1 else 1);
          deep = hsl hue (52 + r 2 * 8) (30 + r 3 * 7);
          mid = hsl (hue + dir * spread) (58 + r 4 * 9) (45 + r 5 * 7);
          lift = hsl (hue - dir * spread * (45 / 100)) (50 + r 6 * 9) (58 + r 7 * 8)
      in \<lparr>cs_hue = idHue i, cs_radial = (r 8 < 45 / 100), cs_angle = [135, 155, 115, 90, 170] ! nat \<lfloor>r 9 * 5\<rfloor>,
          cs_fx = toFixed3 (28 / 100 + r 10 * (3 / 10)), cs_fy = toFixed3 (24 / 100 + r 11 * (3 / 10)),
          cs_stops = [(0, lift), (52 / 100 + r 12 * (1 / 10), mid), (1, deep)],
          cs_sheenX = toFixed3 (2 / 10 + r 13 * (4 / 10)), cs_sheenY = toFixed3 (14 / 100 + r 14 * (3 / 10)),
          cs_sheen = 16 / 100 + r 15 * (16 / 100)\<rparr>)"

section \<open>The tile\<close>

definition TILE_LUMINANCE :: real where "TILE_LUMINANCE = 16 / 100"
definition TILE_SATURATION :: real where "TILE_SATURATION = 55"

definition js_mod :: "real \<Rightarrow> real \<Rightarrow> real" where
  \<comment> \<open>\<open>%\<close> of numbers that are not negative\<close>
  "js_mod x y = x - y * of_int \<lfloor>x / y\<rfloor>"

definition srgb :: "real \<Rightarrow> real" where
  "srgb u = (if u \<le> 4045 / 100000 then u / (1292 / 100) else ((u + 55 / 1000) / (1055 / 1000)) powr (24 / 10))"

definition hslLuminance :: "real \<Rightarrow> real \<Rightarrow> real \<Rightarrow> real" where
  "hslLuminance h s l =
     (let S = s / 100; L = l / 100;
          c = (1 - \<bar>2 * L - 1\<bar>) * S;
          x = c * (1 - \<bar>js_mod (h / 60) 2 - 1\<bar>);
          m = L - c / 2;
          (r, g, b) = (if h < 60 then (c, x, 0) else if h < 120 then (x, c, 0) else if h < 180 then (0, c, x)
                       else if h < 240 then (0, x, c) else if h < 300 then (x, 0, c) else (c, 0, x))
      in 2126 / 10000 * srgb (r + m) + 7152 / 10000 * srgb (g + m) + 722 / 10000 * srgb (b + m))"

fun bisect :: "(real \<Rightarrow> real) \<Rightarrow> nat \<Rightarrow> real \<times> real \<Rightarrow> real \<times> real" where
  "bisect f 0 (lo, hi) = (lo, hi)"
| "bisect f (Suc n) (lo, hi) =
     (let mid = (lo + hi) / 2 in if f mid < TILE_LUMINANCE then bisect f n (mid, hi) else bisect f n (lo, mid))"

definition circleFill :: "string \<Rightarrow> int \<times> real \<times> real" where
  \<comment> \<open>hue, saturation and lightness, before they are printed with two decimals\<close>
  "circleFill i =
     (case bisect (hslLuminance (of_int (idHue i)) TILE_SATURATION) 24 (0, 100) of (lo, hi) \<Rightarrow> (idHue i, TILE_SATURATION, (lo + hi) / 2))"

section \<open>The meter, the theme and the rest\<close>

definition SPEAK_ON :: real where "SPEAK_ON = 6 / 100"
definition SPEAK_OFF :: real where "SPEAK_OFF = 3 / 100"

definition frameRms :: "nat list \<Rightarrow> real" where
  "frameRms data = sqrt (sum_list (map (\<lambda>d. ((real d - 128) / 128)\<^sup>2) data) / real (length data))"

definition levelFromRms :: "real \<Rightarrow> real" where
  "levelFromRms rms = min 1 (rms * 4)"

definition nextSpeaking :: "real \<Rightarrow> real \<Rightarrow> bool \<Rightarrow> real \<Rightarrow> bool" where
  "nextSpeaking on off was rms = (if \<not> was \<and> rms > on then True else if was \<and> rms < off then False else was)"

definition meter_tick :: "(string \<times> nat list) list \<Rightarrow> string list \<Rightarrow> string list \<times> (string \<times> real) list \<times> bool" where
  \<comment> \<open>one tick: who speaks, the levels, and whether to publish\<close>
  "meter_tick frames sp =
     (let step = (\<lambda>(n, d) s. if nextSpeaking SPEAK_ON SPEAK_OFF (n \<in> set s) (frameRms d) then set_add s n else filter (\<lambda>x. x \<noteq> n) s);
          sp' = fold step frames sp
      in (sp', map (\<lambda>(n, d). (n, levelFromRms (frameRms d))) frames,
          list_ex (\<lambda>(n, d). nextSpeaking SPEAK_ON SPEAK_OFF (n \<in> set sp) (frameRms d) \<noteq> (n \<in> set sp)) frames))"

definition STORAGE_KEY :: string where "STORAGE_KEY = ''quorum-theme''"

type_synonym local_store = "(string \<times> string) list option"     \<comment> \<open>none where it throws\<close>

definition readPref :: "local_store \<Rightarrow> string option" where
  "readPref st =
     (case st of None \<Rightarrow> None
      | Some kv \<Rightarrow>
          (case map_of kv STORAGE_KEY of
             None \<Rightarrow> None
           | Some v \<Rightarrow> if v = ''paper'' \<or> v = ''vellum'' then Some ''paper'' else if v = ''carbon'' then Some ''carbon'' else None))"

definition writePref :: "string option \<Rightarrow> local_store \<Rightarrow> bool \<times> local_store" where
  "writePref pref st =
     (case st of None \<Rightarrow> (False, None)
      | Some kv \<Rightarrow> (True, Some (case pref of None \<Rightarrow> AList.delete STORAGE_KEY kv | Some v \<Rightarrow> AList.update STORAGE_KEY v kv)))"

definition resolveTheme :: "string option \<Rightarrow> bool \<Rightarrow> string" where
  "resolveTheme pref light =
     (if pref = Some ''paper'' \<or> pref = Some ''carbon'' then the pref else if light then ''paper'' else ''carbon'')"

definition cx :: "string list \<Rightarrow> string" where
  \<comment> \<open>a part that is not there is empty\<close>
  "cx parts = join '' '' (filter (\<lambda>p. p \<noteq> []) parts)"

definition makeGameId :: "nat \<Rightarrow> nat \<Rightarrow> string" where
  \<comment> \<open>\<open>rnd\<close> is below 46656\<close>
  "makeGameId now rnd = ''g'' @ radix_str 36 now @ radix_str 36 rnd"

definition playCount :: "Games.item \<Rightarrow> string \<Rightarrow> rat slot" where
  "playCount it i = (case read_map it of Some d \<Rightarrow> (case dget d i of Absent \<Rightarrow> Own 0 | x \<Rightarrow> x) | None \<Rightarrow> Own 0)"

definition bumpPlayCount :: "bool \<Rightarrow> Games.item \<Rightarrow> string \<Rightarrow> Games.item" where
  \<comment> \<open>for an id that is not the name of an inherited property\<close>
  "bumpPlayCount writable it i =
     (case read_map it of
        Some d \<Rightarrow> if writable then Json (dput d i ((case map_of d i of None \<Rightarrow> 0 | Some n \<Rightarrow> n) + 1)) else it
      | None \<Rightarrow> it)"

section \<open>The hash\<close>

definition fnv1a_word :: "string \<Rightarrow> 32 word" where
  \<comment> \<open>FNV-1a as it is published, on words\<close>
  "fnv1a_word s = fold (\<lambda>c h. (h XOR of_nat (code c)) * 0x01000193) s 0x811c9dc5"

lemma of_int_to_int32 [simp]: "(of_int (to_int32 x) :: 32 word) = of_int x"
proof (rule bit_word_eqI)
  fix n
  assume "n < LENGTH(32)"
  then have "min n 31 = n" by simp
  then show "bit (of_int (to_int32 x) :: 32 word) n = bit (of_int x :: 32 word) n"
    by (simp add: to_int32_def bit_word_of_int_iff bit_signed_take_bit_iff)
qed

lemma of_int_fnv_step: "(of_int (fnv_step c h) :: 32 word) = (of_int h XOR of_nat (code c)) * 0x01000193"
  by (simp add: fnv_step_def imul_def of_int_xor_eq)

lemma of_int_fold_fnv: "(of_int (fold fnv_step s h) :: 32 word) = fold (\<lambda>c h. (h XOR of_nat (code c)) * 0x01000193) s (of_int h)"
  by (induction s arbitrary: h) (simp_all add: of_int_fnv_step)

text \<open>
  The hash of a handle, computed with operators that turn every intermediate value into a signed integer of 32 bits, is FNV-1a on unsigned
  words; it is below \<open>2 ^ 32\<close>.
\<close>

theorem hash_is_the_published_one: "fnv1a s = uint (fnv1a_word s) \<and> 0 \<le> fnv1a s \<and> fnv1a s < 2 ^ 32"
proof -
  have "fnv1a s = uint (of_int (fold fnv_step s 0x811c9dc5) :: 32 word)"
    by (simp add: fnv1a_def to_uint32_def uint_word_of_int take_bit_eq_mod)
  then show ?thesis by (simp add: of_int_fold_fnv fnv1a_word_def uint_lt2p [where 'a = 32, simplified])
qed

text \<open>Two handles can still share a transition name: the tag is a hash of 32 bits.\<close>

lemma vt_names_collide: "memberVtName ''a!@b'' = memberVtName [CHR ''a'', CHR 0x22, CHR ''!'', CHR ''b'']"
proof -
  let ?d = "[CHR ''a'', CHR 0x22, CHR ''!'', CHR ''b'']"
  have "fold hash31_step ''a!@b'' 0 = fold hash31_step ?d 0"
    by (simp add: hash31_step_def imul_def to_int32_def)
  moreover have "dash_runs ident_char ''a!@b'' = dash_runs ident_char ?d"
    by (simp add: ident_char_def)
  ultimately show ?thesis by (simp add: memberVtName_def)
qed

section \<open>Marks stay clear of the accent\<close>

lemma word_fraction:
  fixes w :: "32 word"
  shows "0 \<le> (of_nat (unat w) / 4294967296 :: rat) \<and> (of_nat (unat w) / 4294967296 :: rat) < 1"
proof -
  have "unat w < 2 ^ LENGTH(32)" by (rule unsigned_less)
  then have "unat w < 4294967296" by simp
  then have "(rat_of_nat (unat w)) < rat_of_nat 4294967296" by (rule of_nat_less_iff [THEN iffD2])
  then have "rat_of_nat (unat w) < 4294967296" by (simp only: of_nat_numeral)
  moreover have "0 \<le> rat_of_nat (unat w)" by (rule of_nat_0_le_iff)
  ultimately show ?thesis by (simp only: divide_less_eq_1_pos zero_le_divide_iff zero_less_numeral zero_le_numeral) blast
qed

lemma prng_range: "snd (prng_step a) \<ge> 0 \<and> snd (prng_step a) < 1"
  unfolding prng_step_def Let_def snd_conv by (rule word_fraction)

lemma draws_range: "k < n \<Longrightarrow> draws n a ! k \<ge> 0 \<and> draws n a ! k < 1"
proof (induction n arbitrary: a k)
  case (Suc n)
  then show ?case using prng_range [of a] by (cases k) (auto split: prod.splits)
qed simp

lemma js_round_mono: "x \<le> y \<Longrightarrow> js_round x \<le> js_round y"
  by (simp add: js_round_def floor_mono)

lemma js_round_int: "js_round (of_int c) = c"
  by (simp add: js_round_def floor_eq_iff)

lemmas js_round_ends = js_round_int [of 15, simplified] js_round_int [of 295, simplified]

lemma clamped: "15 \<le> js_round (clampHue h) \<and> js_round (clampHue h) \<le> 295"
proof -
  have "js_round 15 \<le> js_round (clampHue h)" "js_round (clampHue h) \<le> js_round 295"
    by (intro js_round_mono; simp add: clampHue_def SAFE_LO_def SAFE_HI_def)+
  then show ?thesis by (simp add: js_round_ends)
qed

lemma idHue_arc: "15 \<le> idHue i \<and> idHue i \<le> 295"
proof -
  have "(of_nat (nat (fnv1a i) mod 10) :: rat) \<le> of_nat 9" by (intro of_nat_mono) simp
  then have k: "(of_nat (nat (fnv1a i) mod 10) :: rat) \<le> 9" by simp
  then have "js_round 15 \<le> idHue i" "idHue i \<le> js_round 295" unfolding idHue_def
    by (intro js_round_mono; simp add: SAFE_LO_def SAFE_HI_def STOPS_def)+
  then show ?thesis by (simp add: js_round_ends)
qed

lemma toFixed3_between: "of_int a / 1000 \<le> x \<Longrightarrow> x \<le> of_int b / 1000 \<Longrightarrow> of_int a / 1000 \<le> toFixed3 x \<and> toFixed3 x \<le> of_int b / 1000"
proof -
  assume "of_int a / 1000 \<le> x" "x \<le> of_int b / 1000"
  then have "js_round (of_int a) \<le> js_round (x * 1000)" "js_round (x * 1000) \<le> js_round (of_int b)"
    by (intro js_round_mono; simp add: divide_simps)+
  then show ?thesis by (simp add: toFixed3_def js_round_int divide_right_mono)
qed

text \<open>
  A circle's mark never looks selected: its anchor hue and every colour of its gradient lie on the arc from 15 to 295 degrees, which leaves the
  accent at 349 out; and its light falls inside the tile, from one of the five angles.
\<close>

theorem marks_stay_clear_of_the_accent:
  "(15 \<le> idHue i \<and> idHue i \<le> 295) \<and> (\<forall>(off, c) \<in> set (cs_stops (crestParams i)). 15 \<le> co_hue c \<and> co_hue c \<le> 295 \<and> 0 \<le> off \<and> off \<le> 1) \<and>
   0 < cs_fx (crestParams i) \<and> cs_fx (crestParams i) < 1 \<and> 0 < cs_fy (crestParams i) \<and> cs_fy (crestParams i) < 1 \<and>
   cs_angle (crestParams i) \<in> {135, 155, 115, 90, 170}"
proof -
  define r where "r = (!) (draws 16 (prng_seed (fnv1a i)))"
  have r: "0 \<le> r k \<and> r k < 1" if "k < 16" for k using draws_range [OF that] by (simp add: r_def)
  have stops: "\<forall>(off, c) \<in> set (cs_stops (crestParams i)). 15 \<le> co_hue c \<and> co_hue c \<le> 295 \<and> 0 \<le> off \<and> off \<le> 1"
    using clamped r [of 12] by (simp add: crestParams_def Let_def hsl_def r_def [symmetric])
  have fx: "0 < cs_fx (crestParams i) \<and> cs_fx (crestParams i) < 1"
    using toFixed3_between [of 280 "28 / 100 + r 10 * (3 / 10)" 580] r [of 10] by (simp add: crestParams_def Let_def r_def [symmetric])
  have fy: "0 < cs_fy (crestParams i) \<and> cs_fy (crestParams i) < 1"
    using toFixed3_between [of 240 "24 / 100 + r 11 * (3 / 10)" 540] r [of 11] by (simp add: crestParams_def Let_def r_def [symmetric])
  have "0 \<le> r 9 * 5" "r 9 * 5 < 5" using r [of 9] by simp_all
  then have "nat \<lfloor>r 9 * 5\<rfloor> < 5" by (simp add: nat_less_iff floor_less_iff)
  moreover have "k < 5 \<Longrightarrow> [135, 155, 115, 90, 170] ! k \<in> {135, 155, 115, 90, 170 :: nat}" for k
    using nth_mem [of k "[135, 155, 115, 90, 170 :: nat]"] by simp
  ultimately have "cs_angle (crestParams i) \<in> {135, 155, 115, 90, 170}" unfolding crestParams_def Let_def r_def [symmetric] by simp
  then show ?thesis using idHue_arc stops fx fy by blast
qed

section \<open>The tile is found\<close>

lemma bisect_width: "snd (bisect f n (lo, hi)) - fst (bisect f n (lo, hi)) = (hi - lo) / 2 ^ n"
proof (induction n arbitrary: lo hi)
  case (Suc n)
  show ?case using Suc.IH [of "(lo + hi) / 2" hi] Suc.IH [of lo "(lo + hi) / 2"] by (simp add: Let_def field_simps)
qed simp

lemma bisect_brackets:
  assumes "f lo < TILE_LUMINANCE" and "TILE_LUMINANCE \<le> f hi"
  shows "f (fst (bisect f n (lo, hi))) < TILE_LUMINANCE \<and> TILE_LUMINANCE \<le> f (snd (bisect f n (lo, hi)))"
  using assms by (induction n arbitrary: lo hi) (simp_all add: Let_def)

lemma luminance_ends: "hslLuminance h s 0 = 0" "hslLuminance h s 100 = 1"
  by (simp_all add: hslLuminance_def srgb_def Let_def)

text \<open>
  The lightness of a circle's tile is the middle of an interval of a hundred over \<open>2 ^ 24\<close> in which the luminance crosses the target: it is below
  the target at one end and reaches it at the other, whatever the circle.
\<close>

theorem tile_meets_its_luminance:
  "\<exists>lo hi. circleFill i = (idHue i, TILE_SATURATION, (lo + hi) / 2) \<and> hi - lo = 100 / 2 ^ 24 \<and>
     hslLuminance (of_int (idHue i)) TILE_SATURATION lo < TILE_LUMINANCE \<and> TILE_LUMINANCE \<le> hslLuminance (of_int (idHue i)) TILE_SATURATION hi"
proof -
  let ?f = "hslLuminance (of_int (idHue i)) TILE_SATURATION"
  obtain lo hi where b: "bisect ?f 24 (0, 100) = (lo, hi)" by fastforce
  have ends: "?f 0 < TILE_LUMINANCE" "TILE_LUMINANCE \<le> ?f 100" by (simp_all add: luminance_ends TILE_LUMINANCE_def)
  have "hi - lo = 100 / 2 ^ 24" using bisect_width [of ?f 24 0 100] unfolding b by simp
  moreover have "?f lo < TILE_LUMINANCE \<and> TILE_LUMINANCE \<le> ?f hi" using bisect_brackets [of ?f 0 100 24, OF ends] unfolding b by simp
  ultimately show ?thesis using b by (auto simp: circleFill_def)
qed

section \<open>The meter and the theme\<close>

lemma frameRms_range:
  assumes "\<forall>d \<in> set data. d < 256" and "data \<noteq> []"
  shows "0 \<le> frameRms data \<and> frameRms data \<le> 1"
proof -
  have "((real d - 128) / 128)\<^sup>2 \<le> 1" if "d \<in> set data" for d
  proof -
    have "real d < 256" using assms(1) that by auto
    then have "\<bar>(real d - 128) / 128\<bar> \<le> 1" by (simp add: abs_le_iff)
    then show ?thesis by (simp add: abs_square_le_1)
  qed
  then have "sum_list (map (\<lambda>d. ((real d - 128) / 128)\<^sup>2) data) \<le> sum_list (map (\<lambda>d. 1) data)" by (intro sum_list_mono) simp
  then have "sum_list (map (\<lambda>d. ((real d - 128) / 128)\<^sup>2) data) \<le> real (length data)" by (simp add: sum_list_triv)
  moreover have "0 \<le> sum_list (map (\<lambda>d. ((real d - 128) / 128)\<^sup>2) data)" by (intro sum_list_nonneg) auto
  ultimately show ?thesis using assms(2) by (simp add: frameRms_def divide_le_eq)
qed

text \<open>
  The badge does not flicker: as long as every level stays in the gap between the two thresholds nobody starts or stops speaking, and whoever
  changes has crossed the whole gap. Choosing a theme, or none, is what the next start reads, where the store can be written.
\<close>

lemma badge_holds_in_the_gap: "off \<le> on \<Longrightarrow> \<forall>x \<in> set levels. off \<le> x \<and> x \<le> on \<Longrightarrow> fold (\<lambda>x was. nextSpeaking on off was x) levels was = was"
  by (induction levels) (auto simp: nextSpeaking_def)

lemma badge_change_crosses: "nextSpeaking on off was rms \<noteq> was \<Longrightarrow> (if was then rms < off else on < rms)"
  by (auto simp: nextSpeaking_def split: if_splits)

lemma theme_roundtrip: "pref \<in> {None, Some ''paper'', Some ''carbon''} \<Longrightarrow> readPref (snd (writePref pref (Some kv))) = pref"
  by (auto simp: readPref_def writePref_def update_conv' delete_conv' split: option.splits)

lemma bump_counts: "it \<noteq> BadJson \<Longrightarrow> i \<notin> set proto_names \<Longrightarrow> playCount (bumpPlayCount True it i) i = (case playCount it i of Own n \<Rightarrow> Own (n + 1) | x \<Rightarrow> x)"
  by (cases it) (auto simp: playCount_def bumpPlayCount_def read_map_def dget_def dput_def update_conv' proto_names_def split: option.splits)

end
