(* ===== verification/Render.thy ===== *)
theory Render
  imports Conversation
begin

text \<open>
  What the components decide before they draw: mentions, quotes and the typing line (\<open>components/Messages.jsx\<close>), links that may be followed and the
  label of a rally (\<open>Overview.jsx\<close>), the sandbox of a game's frame (\<open>GameStage.jsx\<close>), the place a circle's marker names
  (\<open>CircleMarker.jsx\<close>), ids of the palette (\<open>CommandPalette.jsx\<close>) and member counts (\<open>CirclesHome.jsx\<close>). Shown: marking mentions
  loses no text and marks members only; a frame of the app's own origin is never given that origin.
\<close>

section \<open>Mentions\<close>

datatype text_node = Run_of string | Mention string

definition handle_char :: "char \<Rightarrow> bool" where
  "handle_char c \<longleftrightarrow> (code c \<ge> 48 \<and> code c \<le> 57) \<or> (code c \<ge> 65 \<and> code c \<le> 90) \<or> (code c \<ge> 97 \<and> code c \<le> 122) \<or>
     c \<in> {CHR ''_'', CHR ''.'', CHR ''-''}"

definition plain_run :: "string \<Rightarrow> text_node list" where
  \<comment> \<open>\<open>text.slice(last, m.index)\<close>, held here from its end\<close>
  "plain_run pend = (if pend = [] then [] else [Run_of (rev pend)])"

function scan_mentions :: "string list \<Rightarrow> string \<Rightarrow> string \<Rightarrow> text_node list" where
  \<comment> \<open>the matches of \<open>/@([a-zA-Z0-9_.-]{1,64})/g\<close> from left to right; \<open>pend\<close> is the text since the last mention\<close>
  "scan_mentions roster pend [] = plain_run pend"
| "scan_mentions roster pend (c # cs) =
     (let w = take 64 (takeWhile handle_char cs)
      in if c \<noteq> CHR ''@'' \<or> w = [] then scan_mentions roster (c # pend) cs
         else case find (\<lambda>h. toLowerCase h = toLowerCase w) roster of
           None \<Rightarrow> scan_mentions roster (rev w @ c # pend) (drop (length w) cs)
         | Some h \<Rightarrow> plain_run pend @ Mention h # scan_mentions roster [] (drop (length w) cs))"
  by pat_completeness auto
termination by (relation "measure (\<lambda>(roster, pend, txt). length txt)") auto

definition messageText :: "string list \<Rightarrow> string \<Rightarrow> text_node list" where
  "messageText ms txt = scan_mentions (uniq ms) [] txt"

fun node_text :: "text_node \<Rightarrow> string" where
  "node_text (Run_of t) = t"
| "node_text (Mention h) = CHR ''@'' # h"

section \<open>Quotes, typing, labels\<close>

record quote =
  q_sender :: string
  q_ts :: jsnum
  q_text :: string

definition text_of :: "body option \<Rightarrow> string throws" where
  "text_of b =
     (case b of
        Some (TextBody (JStr t)) \<Rightarrow> Some t
      | Some (TextBody v) \<Rightarrow> if nullish v then Some [] else None
      | _ \<Rightarrow> Some [])"

definition quoteOf :: "string \<Rightarrow> message \<Rightarrow> quote throws" where
  \<comment> \<open>\<open>clip\<close> is the paper clip; \<open>slice\<close> needs a text\<close>
  "quoteOf clip m =
     do { t \<leftarrow> (case msg_body m of
                  Some (FileBody f) \<Rightarrow> if truthy f then do { n \<leftarrow> to_str (oprop f ''name''); Some (clip @ '' '' @ n) } else Some []
                | Some (GameBody g) \<Rightarrow> Some (''opened '' @ ref_name g)
                | b \<Rightarrow> text_of b);
          Some \<lparr>q_sender = msg_sender m, q_ts = msg_ts m, q_text = take 140 t\<rparr> }"

definition typing_label :: "string list \<Rightarrow> string option" where
  "typing_label names =
     (case sort names of
        [] \<Rightarrow> None
      | [a] \<Rightarrow> Some (a @ '' is typing'')
      | [a, b] \<Rightarrow> Some (a @ '' and '' @ b @ '' are typing'')
      | a # b # more1 \<Rightarrow> Some (a @ '', '' @ b @ '' and '' @ nat_str (length more1) @ '' more are typing''))"

definition safeHref :: "string \<Rightarrow> string option" where
  "safeHref url =
     (let l = toLowerCase url in if take 7 l = ''http://'' \<or> take 8 l = ''https://'' then Some url else None)"

definition ralliersLabel :: "string list \<Rightarrow> string \<Rightarrow> string" where
  "ralliersLabel who me =
     (let name = (\<lambda>h. if h = me then ''you'' else h) in
      case who of
        [a] \<Rightarrow> if a = me then ''you want to play'' else a @ '' wants to play''
      | [a, b] \<Rightarrow> name a @ '' & '' @ name b @ '' want to play''
      | _ \<Rightarrow> nat_str (length who) @ '' want to play'')"

definition memberLine :: "nat \<Rightarrow> string" where
  "memberLine n = nat_str n @ '' member'' @ (if n = 1 then [] else ''s'')"

datatype place_kind = In_game string | In_call string | In_channel string | On_board

definition marker_location :: "string option \<Rightarrow> string option \<Rightarrow> string option \<Rightarrow> place_kind" where
  \<comment> \<open>\<open>location\<close> of the channel, the call on screen and the name of the game\<close>
  "marker_location ch call game =
     (case game of Some g \<Rightarrow> In_game g
      | None \<Rightarrow> (case call of Some c \<Rightarrow> In_call c | None \<Rightarrow> (case ch of Some r \<Rightarrow> In_channel r | None \<Rightarrow> On_board)))"

definition frameSandbox :: "(string \<Rightarrow> bool) \<Rightarrow> string \<Rightarrow> string list" where
  \<comment> \<open>the tokens; \<open>same\<close> is \<open>isSameOriginSrc\<close> on this page\<close>
  "frameSandbox same src =
     [''allow-scripts'', ''allow-forms'', ''allow-pointer-lock''] @ (if same src then [] else [''allow-same-origin''])"

section \<open>Nothing is lost\<close>

definition shown_text :: "text_node list \<Rightarrow> string" where
  "shown_text ns = concat (map node_text ns)"

lemma lower_append: "toLowerCase (a @ b) = toLowerCase a @ toLowerCase b"
  by (simp add: toLowerCase_def)

lemma shown_plain_run: "shown_text (plain_run pend) = rev pend"
  by (simp add: shown_text_def plain_run_def)

lemma shown_append [simp]: "shown_text (a @ b) = shown_text a @ shown_text b" "shown_text (Mention h # ns) = CHR ''@'' # h @ shown_text ns"
  by (simp_all add: shown_text_def)

lemma handle_split: "take n (takeWhile P cs) @ drop (length (take n (takeWhile P cs))) cs = cs"
proof (induction cs arbitrary: n)
  case (Cons c cs)
  show ?case using Cons.IH [of "n - 1"] by (cases n) simp_all
qed simp

lemma scan_shows:
  "toLowerCase (shown_text (scan_mentions roster pend l)) = toLowerCase (rev pend @ l)"
proof (induction roster pend l rule: scan_mentions.induct)
  case (1 roster pend)
  show ?case by (simp add: shown_plain_run)
next
  case (2 roster pend c cs)
  define w where "w = take 64 (takeWhile handle_char cs)"
  have split: "w @ drop (length w) cs = cs" unfolding w_def by (rule handle_split)
  show ?case
  proof (cases "c \<noteq> CHR ''@'' \<or> w = []")
    case True
    then show ?thesis using "2.IH"(1) [OF w_def] by (simp add: w_def [symmetric] Let_def)
  next
    case False
    show ?thesis
    proof (cases "find (\<lambda>h. toLowerCase h = toLowerCase w) roster")
      case None
      then show ?thesis using "2.IH"(2) [OF w_def False None] split False by (simp add: w_def [symmetric] Let_def)
    next
      case (Some h)
      then have "toLowerCase h = toLowerCase w" by (auto simp: find_Some_iff)
      then have "toLowerCase (h @ drop (length w) cs) = toLowerCase cs" using lower_append split by metis
      then show ?thesis using "2.IH"(3) [OF w_def False Some] False Some
        by (simp add: w_def [symmetric] Let_def shown_plain_run lower_append) (simp add: toLowerCase_def)
    qed
  qed
qed

lemma scan_mentions_members: "Mention h \<in> set (scan_mentions roster pend l) \<Longrightarrow> h \<in> set roster"
proof (induction roster pend l rule: scan_mentions.induct)
  case (2 roster pend c cs)
  then show ?case
    by (auto simp: Let_def plain_run_def find_Some_iff split: if_splits option.splits)
qed (simp add: plain_run_def split: if_splits)

text \<open>
  Marking the mentions of a line changes nothing of what it says: put together again, what is drawn is the line, letter for letter but for the case
  of a handle, which is shown as the circle writes it; and only members are marked.
\<close>

theorem mentions_lose_no_text:
  "toLowerCase (shown_text (messageText ms l)) = toLowerCase l \<and> (\<forall>h. Mention h \<in> set (messageText ms l) \<longrightarrow> h \<in> set ms)"
  using scan_shows [of "uniq ms" "[]" l] scan_mentions_members [of _ "uniq ms" "[]" l] by (auto simp: messageText_def)

text \<open>A mention that ends a sentence is not marked: the full stop is taken as part of the handle.\<close>

lemma mention_before_a_full_stop: "messageText [''bob''] ''@bob.'' = [Run_of ''@bob.'']"
  by (simp add: messageText_def uniq_def plain_run_def handle_char_def toLowerCase_def lower_char_def Let_def)

text \<open>A frame keeps an origin only when it comes from elsewhere.\<close>

lemma own_frames_are_opaque: "''allow-same-origin'' \<in> set (frameSandbox same src) \<longleftrightarrow> \<not> same src"
  by (simp add: frameSandbox_def)

end
