(* ===== verification/Spec2Isabelle.thy ===== *)
theory Spec2Isabelle
  imports JS_Prelude Board Quorum Offers Games Overview Circle Envelope Chan_Keys Envelope_Rules Envelope_Boards
    ChannelLog Log_Rules Log_Order Base64 Trust Fold Fork Circles Json
    Invite Handover History Search Calls RelayClient Actions Parking
    Paging Paging_Rules Commits Membership Membership_Rules
    Signaling Voice Voice_Rules Sdp Conversation Conversation_Rules
    Home Pane Session Session_Rules Account Account_Rules Invitation Shell Display Render
begin

text \<open>
  This development models the client of a small end-to-end encrypted group chat: circles of people, each circle an
  MLS group with text channels, voice rooms, a notice board, an offers board and a ledger of people proposed for
  membership. A relay stores ciphertext and orders it; everything a circle means is decided on the devices, by the
  JavaScript under \<open>src/client/src/lib\<close>. That code is what is modelled here.

  \<^bold>\<open>How the program fits together.\<close> A member acts through \<open>controller.js\<close>: the action changes the circle record kept
  on the device, sends an envelope through MLS to whoever is online, appends a signed and sealed entry to the channel
  log on the relay, and parks the circle's shape, sealed, in one blob per account on the relay. Another device decrypts
  the envelope and gives it to the reducer \<open>envelope.js\<close>, which changes that device's record and returns effects that the
  controller carries out; or it fetches a page of the log, opens and verifies it (\<open>history.js\<close>) and folds it into the
  conversation (\<open>log.js\<close>).

  \<^bold>\<open>Values.\<close> \<open>JS_Prelude\<close> holds the JavaScript values that the sources take from outside: the type \<open>jsval\<close> (undefined, null,
  booleans, numbers with NaN and the infinities, strings, arrays, objects), truthiness, \<open>String()\<close>, \<open>Number()\<close>, property
  lookup, slicing and trimming. A computation that can throw has the type \<open>'a throws\<close>, which is \<open>'a option\<close> with \<open>None\<close>
  the exception. An object is an association list in insertion order. Numbers are rationals: the sources use
  timestamps, counters and small bounds, all of which a double represents exactly, so no result here depends on
  rounding. Strings are lists of bytes as characters.

  \<^bold>\<open>The theories, what each models, and what is shown.\<close>
  \<^item> \<open>Board\<close> states, as locales, what the boards of a circle share: newest first, capped, one entry per id, removal
    by the author or an admin. \<open>Offers\<close> (\<open>offers.js\<close>), \<open>Quorum\<close> (\<open>quorum.js\<close>) and \<open>Overview\<close> (\<open>overview.js\<close>)
    interpret them. Shown: a threshold can always be met by the members there are, a standing objection stops a
    proposal, seats are never given out twice, every normaliser yields bounded data.
  \<^item> \<open>Games\<close> (\<open>games.js\<close>): the shelf of games, what may be framed, who plays what.
  \<^item> \<open>Circle\<close> is the circle record (\<open>circles.js\<close>, the fields). \<open>Envelope\<close> is \<open>envelope.js\<close>: every kind of envelope, the
    admin gate, tombstones, the merge of room keys and the metadata rebroadcast. \<open>Chan_Keys\<close>, \<open>Envelope_Rules\<close> and
    \<open>Envelope_Boards\<close> hold its theorems: who may change what, no room key is ever lost by a merge, merging converges,
    deleted rooms stay deleted, rooms stay free of duplicates, boards stay in order.
  \<^item> \<open>ChannelLog\<close> (\<open>log.js\<close>) is the fold of a channel's entries; \<open>Log_Rules\<close> and \<open>Log_Order\<close> show that only signed entries
    change a line, only its author rewrites it, a deletion is final, and the result does not depend on the order in
    which pages arrive.
  \<^item> \<open>Base64\<close> and \<open>Json\<close> model the encodings (\<open>atob\<close>, \<open>btoa\<close>, \<open>JSON.parse\<close>, \<open>JSON.stringify\<close>, UTF-8) with their round
    trips. \<open>History\<close> (\<open>history.js\<close>) is the sealing, signing and verification of log entries; \<open>Invite\<close> (\<open>invite.js\<close>) and
    \<open>Handover\<close> (\<open>link.js\<close>, \<open>recovery.js\<close>) are invite links, device linking and the recovery file, each with its round trip.
  \<^item> \<open>Trust\<close> (\<open>trust.js\<close>, \<open>keys.js\<close>, \<open>presence.js\<close>), \<open>Fork\<close> (\<open>fork.js\<close>), \<open>Fold\<close> (\<open>fold.js\<close>), \<open>Search\<close> (\<open>search.js\<close>).
  \<^item> \<open>Circles\<close> (\<open>circles.js\<close>) splits a record in the half the relay keeps and the half the device keeps.
  \<^item> \<open>Calls\<close> states the contract of numbered calls as a locale; \<open>RelayClient\<close> interprets it for \<open>relay.js\<close> and \<open>rpc.js\<close>
    and shows that every request is settled at most once and not forgotten.
  \<^item> \<open>Actions\<close> (\<open>controller.js\<close>, the actions of a member) is composed with the reducer of a peer: what an admin does
    to the rooms is what the peers end up with. \<open>Parking\<close> (\<open>controller.js\<close> with the compare-and-swap of \<open>store.rs\<close>) shows
    that a device that writes its circles to the relay drops none that another device parked.
  \<^item> \<open>Paging\<close> (\<open>controller.js\<close>: opening a room, older pages, catching up, alternate logs, retention, with the log store of
    \<open>store.rs\<close> and \<open>server.rs\<close>) is composed with \<open>History\<close> and \<open>ChannelLog\<close>. \<open>Paging_Rules\<close> shows that paging back
    reaches the start of a log and has then read all of it, that every key a room ever had still reads what was written
    under it, and, as a defect, that a page no entry of which opens stops the reader.
  \<^item> \<open>Commits\<close> (\<open>publishCommit\<close>, the commands of \<open>public/worker.js\<close>, \<open>append_message\<close> of \<open>store.rs\<close>) is the staging of MLS
    commits, with any number of devices around one relay as a step relation; the devices never fork. \<open>Membership\<close>
    (\<open>controller.js\<close>: adding, removing, joining, roles, safety numbers, one group message) stands on it; \<open>Membership_Rules\<close>
    shows that a refused commit changes nothing, a removal closes every door, an unconfirmed sender destroys nothing,
    badges follow keys and every blob moves the cursor.
  \<^item> \<open>Signaling\<close> (\<open>voice.js\<close>: offers, answers and candidates of one leg) is a step relation over two ends and the signals in
    flight; it shows that however offers collide the leg comes to rest with nothing lost. \<open>Voice\<close> is the call manager of
    \<open>voice.js\<close>: rooms, rings, captures, peers, envelopes. \<open>Voice_Rules\<close> shows that no capture outlives a call, that a removed
    member is dropped from the call and that a ring that is accepted connects. \<open>Sdp\<close> is the rewriting of descriptions.
  \<^item> \<open>Conversation\<close> (\<open>controller.js\<close>: writing, editing, deleting, reacting, attachments, typing and presence, effects of the
    reducer) joins the reducer with the log: \<open>Conversation_Rules\<close> shows that an event that comes both live and from the log is
    one event, that a line that could not be saved is kept and marked, and that attachments decrypt. \<open>Home\<close> (read markers,
    unread counts with the counters of \<open>store.rs\<close>, the digest of a circle, search over open rooms) shows when a room counts as read.
  \<^item> \<open>Pane\<close> is the reducer of \<open>App.jsx\<close>: the open place always exists, the pane shows that room only and loses no line.
  \<^item> \<open>Session\<close> (\<open>controller.js\<close>: boot, identities, signing out, what the relay's \<open>ready\<close> sets off, forgetting a circle), with
    \<open>Session_Rules\<close>: the key beside the database brings the same person back, a circle that is left leaves no trace, and only
    circles the relay refuses are forgotten.
  \<^item> \<open>Account\<close> (\<open>account.js\<close>, \<open>webauthn.js\<close>, with the vaults of \<open>account.rs\<close> and \<open>store.rs\<close> and the blob tickets of \<open>blobs.rs\<close>) and
    \<open>Account_Rules\<close>: a password or a passkey brings the same person to a blank device, a revoked passkey does not, and, as a defect,
    the hand-over to a linked device is refused. \<open>Invitation\<close> (\<open>controller.js\<close> with the invites of \<open>store.rs\<close>): a link goes on working.
  \<^item> \<open>Shell\<close> (\<open>public/sw.js\<close>, \<open>notify-prompt.js\<close>, the push subscription): the app opens offline, notifications do not mix up circles.
  \<^item> \<open>Display\<close> (\<open>avatar.js\<close>, \<open>crest.js\<close>, \<open>meter.js\<close>, \<open>theme.js\<close>, \<open>viewTransition.js\<close>, \<open>cx.js\<close>): hashes on 32-bit integers, the marks of
    circles, the meter and the theme; the hash is the published one, marks stay clear of the accent, the tile's luminance is met.
  \<^item> \<open>Render\<close>: what the components decide before they draw (mentions, quotes, the typing line, links, the sandbox of a frame); marking
    mentions loses no text.
  \<^bold>\<open>Parameters.\<close> AES-GCM, SHA-256, ECDH, HKDF, PBKDF2, the signature scheme, MLS, random draws, the clock and the local
  time zone are arguments of the definitions that use them. What a theorem needs of them is a named hypothesis of that
  theorem (for instance \<open>aead_opens\<close>: decrypting what was encrypted under the same key gives it back), and each such
  theorem has a witness at a concrete instance.

  \<^bold>\<open>Loops and fuel.\<close> The JSON parser takes fuel, twice the length of its input plus a constant, which the round-trip
  theorem of \<open>Json\<close> shows to be enough for everything the printer writes. \<open>drain_pages\<close> counts down the twenty rounds of
  the loop it models, so it is exact. Paging back has no bound in the source; that it ends is a theorem.

  \<^bold>\<open>Not modelled.\<close> The React components beyond the reducer of \<open>App.jsx\<close> and what \<open>Render\<close> holds, WebAudio and the statistics in \<open>voice.js\<close>, IndexedDB in \<open>db.js\<close>, the statements of
  \<open>pg.rs\<close> and the geometry of the orbs in \<open>avatar.js\<close> are calls into the browser with little logic of their
  own. The Rust relay and the Rust crypto core are modelled only where the client depends on what they promise.
\<close>

end
